(* ===== verification/Prelude.thy ===== *)
theory Prelude
  imports Complex_Main "HOL-Library.AList"
begin

text \<open>
  Shared vocabulary of the development: JavaScript \<open>Map\<close> objects as association lists in
  insertion order, JavaScript numbers as rationals extended with the non-finite values, and
  the generic lemmas on lists and options that the component theories share.

  \<^item> \<open>new Map()\<close> keeps its keys in insertion order, and setting an existing key keeps that
    key's place. \<open>AList.update\<close> has exactly this behaviour, so a \<open>Map\<close> is an association
    list with distinct keys, read by \<open>map_of\<close>.
  \<^item> A JavaScript number is \<open>NaN\<close>, an infinity or a finite value. Finite values are kept
    exact: the rounding of binary64 is not modelled, its overflow to an infinity is.
\<close>

named_theorems jsmap "lookup in and keys of insertion-ordered maps"
named_theorems jsnum_simps "evaluation of finite number arithmetic"

section \<open>Insertion-ordered maps\<close>

type_synonym ('k, 'v) jsmap = "('k \<times> 'v) list"

abbreviation map_set :: "'k \<Rightarrow> 'v \<Rightarrow> ('k, 'v) jsmap \<Rightarrow> ('k, 'v) jsmap" where
  "map_set k v m \<equiv> AList.update k v m"

abbreviation map_delete :: "'k \<Rightarrow> ('k, 'v) jsmap \<Rightarrow> ('k, 'v) jsmap" where
  "map_delete k m \<equiv> AList.delete k m"

abbreviation map_has :: "('k, 'v) jsmap \<Rightarrow> 'k \<Rightarrow> bool" where
  "map_has m k \<equiv> map_of m k \<noteq> None"

abbreviation map_keys :: "('k, 'v) jsmap \<Rightarrow> 'k list" where
  "map_keys m \<equiv> map fst m"

abbreviation map_values :: "('k, 'v) jsmap \<Rightarrow> 'v list" where
  "map_values m \<equiv> map snd m"

abbreviation map_ok :: "('k, 'v) jsmap \<Rightarrow> bool" where
  "map_ok m \<equiv> distinct (map fst m)"

text \<open>\<open>new Map(entries)\<close>: entries are set from left to right.\<close>

definition map_from :: "('k \<times> 'v) list \<Rightarrow> ('k, 'v) jsmap" where
  "map_from kvs = fold (\<lambda>kv m. map_set (fst kv) (snd kv) m) kvs []"

lemma map_of_map_set [jsmap]: "map_of (map_set k v m) k' = (if k' = k then Some v else map_of m k')"
  by (simp add: update_conv')

lemma map_of_map_delete [jsmap]: "map_of (map_delete k m) k' = (if k' = k then None else map_of m k')"
  by (simp add: delete_conv')

lemma map_ok_set [simp, intro]: "map_ok m \<Longrightarrow> map_ok (map_set k v m)"
  by (rule distinct_update)

lemma map_ok_delete [simp, intro]: "map_ok m \<Longrightarrow> map_ok (map_delete k m)"
  by (rule distinct_delete)

lemma map_of_fold_set:
  "map_of (fold (\<lambda>kv m. map_set (fst kv) (snd kv) m) kvs m) k =
     (case map_of (rev kvs) k of None \<Rightarrow> map_of m k | Some v \<Rightarrow> Some v)"
  by (induction kvs arbitrary: m)
    (simp_all add: jsmap map_add_def split: option.splits)

lemma map_ok_fold_set: "map_ok m \<Longrightarrow> map_ok (fold (\<lambda>kv m. map_set (fst kv) (snd kv) m) kvs m)"
  by (induction kvs arbitrary: m) auto

lemma map_of_map_from [jsmap]: "map_of (map_from kvs) k = map_of (rev kvs) k"
  by (simp add: map_from_def map_of_fold_set split: option.split)

lemma map_ok_map_from [simp, intro]: "map_ok (map_from kvs)"
  by (simp add: map_from_def map_ok_fold_set)

lemma map_of_rev_distinct: "map_ok kvs \<Longrightarrow> map_of (rev kvs) = map_of kvs"
  by (rule map_of_inject_set [THEN iffD2]) (auto simp: rev_map [symmetric])

section \<open>JavaScript numbers\<close>

datatype jsnum = NaN | PosInf | NegInf | Fin rat

text \<open>The least magnitude that binary64 rounds to an infinity.\<close>

definition overflow_limit :: rat where
  "overflow_limit = 2 ^ 1024 - 2 ^ 970"

definition js_fin :: "rat \<Rightarrow> jsnum" where
  "js_fin q = (if overflow_limit \<le> q then PosInf
               else if q \<le> - overflow_limit then NegInf else Fin q)"

fun js_neg :: "jsnum \<Rightarrow> jsnum" where
  "js_neg NaN = NaN"
| "js_neg PosInf = NegInf"
| "js_neg NegInf = PosInf"
| "js_neg (Fin a) = Fin (- a)"

fun js_add :: "jsnum \<Rightarrow> jsnum \<Rightarrow> jsnum" where
  "js_add (Fin a) (Fin b) = js_fin (a + b)"
| "js_add NaN _ = NaN"
| "js_add _ NaN = NaN"
| "js_add PosInf NegInf = NaN"
| "js_add NegInf PosInf = NaN"
| "js_add PosInf _ = PosInf"
| "js_add NegInf _ = NegInf"
| "js_add _ y = y"

definition js_sub :: "jsnum \<Rightarrow> jsnum \<Rightarrow> jsnum" where
  "js_sub a b = js_add a (js_neg b)"

definition js_sign :: "rat \<Rightarrow> jsnum" where
  "js_sign q = (if q = 0 then NaN else if 0 < q then PosInf else NegInf)"

fun js_mul :: "jsnum \<Rightarrow> jsnum \<Rightarrow> jsnum" where
  "js_mul (Fin a) (Fin b) = js_fin (a * b)"
| "js_mul NaN _ = NaN"
| "js_mul _ NaN = NaN"
| "js_mul (Fin a) PosInf = js_sign a"
| "js_mul PosInf (Fin a) = js_sign a"
| "js_mul (Fin a) NegInf = js_sign (- a)"
| "js_mul NegInf (Fin a) = js_sign (- a)"
| "js_mul PosInf PosInf = PosInf"
| "js_mul NegInf NegInf = PosInf"
| "js_mul _ _ = NegInf"

text \<open>Division; the sign of a zero divisor is not modelled (the code never divides by zero).\<close>

fun js_div :: "jsnum \<Rightarrow> jsnum \<Rightarrow> jsnum" where
  "js_div (Fin a) (Fin b) = (if b = 0 then js_sign a else js_fin (a / b))"
| "js_div NaN _ = NaN"
| "js_div _ NaN = NaN"
| "js_div (Fin a) _ = Fin 0"
| "js_div PosInf (Fin b) = (if b < 0 then NegInf else PosInf)"
| "js_div NegInf (Fin b) = (if b < 0 then PosInf else NegInf)"
| "js_div _ _ = NaN"

fun js_less :: "jsnum \<Rightarrow> jsnum \<Rightarrow> bool" where
  "js_less (Fin a) (Fin b) = (a < b)"
| "js_less NegInf (Fin _) = True"
| "js_less NegInf PosInf = True"
| "js_less (Fin _) PosInf = True"
| "js_less _ _ = False"

fun js_abs :: "jsnum \<Rightarrow> jsnum" where
  "js_abs (Fin a) = Fin \<bar>a\<bar>"
| "js_abs NaN = NaN"
| "js_abs _ = PosInf"

fun is_finite :: "jsnum \<Rightarrow> bool" where
  "is_finite (Fin _) = True"
| "is_finite _ = False"

text \<open>\<open>Number.isSafeInteger\<close>.\<close>

definition max_safe :: int where
  "max_safe = 2 ^ 53 - 1"

fun is_safe_integer :: "jsnum \<Rightarrow> bool" where
  "is_safe_integer (Fin q) = (q = of_int \<lfloor>q\<rfloor> \<and> \<bar>\<lfloor>q\<rfloor>\<bar> \<le> max_safe)"
| "is_safe_integer _ = False"

fun num_of :: "jsnum \<Rightarrow> rat" where
  "num_of (Fin q) = q"
| "num_of _ = 0"

text \<open>\<open>xs[i]\<close> read as a number: \<open>undefined\<close> past the end, which is \<open>NaN\<close> in arithmetic.\<close>

definition num_at :: "jsnum list \<Rightarrow> nat \<Rightarrow> jsnum" where
  "num_at xs i = (if i < length xs then xs ! i else NaN)"

text \<open>\<open>xs.reduce((a, b) => a + b, 0)\<close>.\<close>

definition js_sum :: "jsnum list \<Rightarrow> jsnum" where
  "js_sum xs = foldl js_add (Fin 0) xs"

lemma overflow_limit_gt: "(10::rat) ^ 300 < overflow_limit"
  by (simp add: overflow_limit_def)

lemma js_fin_small [jsnum_simps]: "\<bar>q\<bar> \<le> 10 ^ 300 \<Longrightarrow> js_fin q = Fin q"
  using overflow_limit_gt by (auto simp: js_fin_def abs_le_iff)

lemma is_finite_iff: "is_finite x \<longleftrightarrow> (\<exists>q. x = Fin q)"
  by (cases x) auto

lemma js_add_finite_D: "is_finite (js_add x y) \<Longrightarrow> is_finite x \<and> is_finite y"
  by (cases x; cases y) auto

lemma js_add_finite_eq: "js_add (Fin a) (Fin b) = Fin c \<Longrightarrow> c = a + b"
  by (auto simp: js_fin_def split: if_splits)

lemma foldl_js_add_finite:
  "foldl js_add (Fin a) xs = Fin s \<Longrightarrow>
     (\<forall>x \<in> set xs. is_finite x) \<and> s = a + sum_list (map num_of xs)"
proof (induction xs arbitrary: a)
  case Nil
  then show ?case by simp
next
  case (Cons x xs)
  have fin: "is_finite (foldl js_add y xs) \<Longrightarrow> is_finite y" for y
    by (induction xs arbitrary: y) (auto dest: js_add_finite_D)
  from Cons.prems have "is_finite (js_add (Fin a) x)"
    using fin by simp
  then obtain b c where x: "x = Fin b" and c: "js_add (Fin a) x = Fin c"
    by (meson is_finite_iff js_add_finite_D)
  then have "c = a + b" using js_add_finite_eq by blast
  have "foldl js_add (Fin (a + b)) xs = Fin s"
    using Cons.prems c \<open>c = a + b\<close> by simp
  from Cons.IH [OF this] x show ?case by (simp add: add.assoc)
qed

lemma js_sum_finite:
  "js_sum xs = Fin s \<Longrightarrow> (\<forall>x \<in> set xs. is_finite x) \<and> s = sum_list (map num_of xs)"
  using foldl_js_add_finite [of 0 xs s] by (simp add: js_sum_def)

lemma num_at_nth [simp]: "i < length xs \<Longrightarrow> num_at xs i = xs ! i"
  by (simp add: num_at_def)

section \<open>Lists\<close>

text \<open>\<open>Array.prototype.find\<close>, and its mirror image for a loop that overwrites its result.\<close>

definition find_last :: "('a \<Rightarrow> bool) \<Rightarrow> 'a list \<Rightarrow> 'a option" where
  "find_last p xs = find p (rev xs)"

lemma find_last_Nil [simp]: "find_last p [] = None"
  by (simp add: find_last_def)

lemma find_append: "find p (xs @ ys) = (case find p xs of None \<Rightarrow> find p ys | Some x \<Rightarrow> Some x)"
  by (induction xs) auto

lemma find_Some_D: "find p xs = Some x \<Longrightarrow> x \<in> set xs \<and> p x"
  by (induction xs) (auto split: if_splits)

lemma find_last_None_iff: "find_last p xs = None \<longleftrightarrow> (\<forall>x \<in> set xs. \<not> p x)"
  by (auto simp: find_last_def find_None_iff)

lemma find_last_Some_D: "find_last p xs = Some x \<Longrightarrow> x \<in> set xs \<and> p x"
  unfolding find_last_def by (drule find_Some_D) simp

lemma find_unique:
  assumes "x \<in> set xs" "p x" "\<And>y. y \<in> set xs \<Longrightarrow> p y \<Longrightarrow> y = x"
  shows "find p xs = Some x"
proof (cases "find p xs")
  case None
  with assms(1,2) show ?thesis unfolding find_None_iff by blast
next
  case (Some y)
  with assms(3) find_Some_D [OF Some] show ?thesis by simp
qed

lemma find_last_unique:
  assumes "x \<in> set xs" "p x" "\<And>y. y \<in> set xs \<Longrightarrow> p y \<Longrightarrow> y = x"
  shows "find_last p xs = Some x"
proof -
  have "find p (rev xs) = Some x"
    by (rule find_unique) (use assms(1,2) in simp_all, metis assms(3) set_rev)
  then show ?thesis by (simp add: find_last_def)
qed

text \<open>\<open>xs.map(f).filter(x => x != null)\<close>.\<close>

definition somes :: "'a option list \<Rightarrow> 'a list" where
  "somes xs = map the (filter (\<lambda>x. x \<noteq> None) xs)"

lemma somes_simps [simp]:
  "somes [] = []"
  "somes (None # xs) = somes xs"
  "somes (Some x # xs) = x # somes xs"
  by (simp_all add: somes_def)

lemma set_somes: "set (somes xs) = {x. Some x \<in> set xs}"
  by (induction xs) (auto simp: somes_def)

lemma length_somes: "length (somes xs) \<le> length xs"
  by (simp add: somes_def)

lemma distinct_fst_eq:
  assumes "distinct (map fst xs)" "(k, v) \<in> set xs" "(k, w) \<in> set xs"
  shows "v = w"
proof -
  from assms(1,2) have "map_of xs k = Some v" by (rule map_of_is_SomeI)
  moreover from assms(1,3) have "map_of xs k = Some w" by (rule map_of_is_SomeI)
  ultimately show ?thesis by simp
qed

lemma distinct_singleton: "distinct xs \<Longrightarrow> set xs \<subseteq> {x} \<Longrightarrow> xs \<noteq> [] \<Longrightarrow> xs = [x]"
  by (cases xs; cases "tl xs") auto

text \<open>A sum of positive finite numbers is computed without overflow when it is not huge.\<close>

lemma foldl_js_add_small:
  assumes "\<forall>x \<in> set xs. is_finite x \<and> 0 \<le> num_of x" "0 \<le> a" "a + sum_list (map num_of xs) \<le> 10 ^ 300"
  shows "foldl js_add (Fin a) xs = Fin (a + sum_list (map num_of xs))"
  using assms
proof (induction xs arbitrary: a)
  case (Cons x xs)
  then obtain b where b: "x = Fin b" "0 \<le> b" by (auto simp: is_finite_iff)
  have "0 \<le> sum_list (map num_of xs)"
    using Cons.prems(1) by (intro sum_list_nonneg) auto
  with Cons.prems(2,3) b have "js_add (Fin a) x = Fin (a + b)"
    by (simp add: js_fin_small)
  with Cons.IH [of "a + b"] Cons.prems b show ?case by (simp add: add.assoc)
qed simp

section \<open>Strings, truthiness and sorting\<close>

text \<open>\<open>a < b\<close> on strings compares code units from the left.\<close>

fun str_less :: "string \<Rightarrow> string \<Rightarrow> bool" where
  "str_less s [] = False"
| "str_less [] (b # bs) = True"
| "str_less (a # as) (b # bs) = ((of_char a :: nat) < of_char b \<or> (a = b \<and> str_less as bs))"

text \<open>An optional string in a condition: \<open>undefined\<close> and the empty string are false.\<close>

definition truthy :: "string option \<Rightarrow> bool" where
  "truthy x \<longleftrightarrow> x \<noteq> None \<and> x \<noteq> Some ''''"

definition or_zero :: "int option \<Rightarrow> int" where
  "or_zero x = (case x of None \<Rightarrow> 0 | Some n \<Rightarrow> n)"

definition or_else :: "'a option \<Rightarrow> 'a option \<Rightarrow> 'a option" where
  "or_else x y = (case x of None \<Rightarrow> y | Some _ \<Rightarrow> x)"

definition first_of :: "'a list \<Rightarrow> 'a option" where
  "first_of xs = (case xs of [] \<Rightarrow> None | x # _ \<Rightarrow> Some x)"

lemma first_of_in: "first_of xs = Some x \<Longrightarrow> x \<in> set xs"
  by (cases xs) (auto simp: first_of_def)

lemma first_of_None [simp]: "first_of xs = None \<longleftrightarrow> xs = []"
  by (cases xs) (auto simp: first_of_def)

text \<open>\<open>Array.prototype.sort\<close> is stable; this is it for a comparator given as a function.\<close>

fun js_insert :: "('a \<Rightarrow> 'a \<Rightarrow> int) \<Rightarrow> 'a \<Rightarrow> 'a list \<Rightarrow> 'a list" where
  "js_insert cmp x [] = [x]"
| "js_insert cmp x (y # ys) = (if 0 < cmp y x then x # y # ys else y # js_insert cmp x ys)"

definition js_sort :: "('a \<Rightarrow> 'a \<Rightarrow> int) \<Rightarrow> 'a list \<Rightarrow> 'a list" where
  "js_sort cmp xs = foldl (\<lambda>acc x. js_insert cmp x acc) [] xs"

lemma set_js_insert: "set (js_insert cmp x ys) = insert x (set ys)"
  by (induction ys) auto

lemma set_js_sort: "set (js_sort cmp xs) = set xs"
proof -
  have "set (foldl (\<lambda>acc x. js_insert cmp x acc) ys xs) = set ys \<union> set xs" for ys
    by (induction xs arbitrary: ys) (auto simp: set_js_insert)
  then show ?thesis by (simp add: js_sort_def)
qed

text \<open>\<open>s.indexOf(t)\<close>, with \<open>None\<close> for \<open>-1\<close>, and the pieces of \<open>s.split(c)\<close>.\<close>

fun index_of :: "string \<Rightarrow> string \<Rightarrow> nat option" where
  "index_of t [] = (if t = [] then Some 0 else None)"
| "index_of t (c # s) = (if take (length t) (c # s) = t then Some 0 else map_option Suc (index_of t s))"

fun split_on :: "char \<Rightarrow> string \<Rightarrow> string list" where
  "split_on d [] = [[]]"
| "split_on d (c # s) =
     (if c = d then [] # split_on d s
      else case split_on d s of [] \<Rightarrow> [[c]] | w # ws \<Rightarrow> (c # w) # ws)"

lemma split_on_none: "d \<notin> set s \<Longrightarrow> split_on d s = [s]"
  by (induction s) auto

lemma split_on_append: "d \<notin> set s \<Longrightarrow> split_on d (s @ d # t) = s # split_on d t"
  by (induction s) auto

lemma index_of_char_append: "c \<notin> set s \<Longrightarrow> index_of [c] (s @ c # t) = Some (length s)"
  by (induction s) auto

lemma index_of_char_none: "c \<notin> set s \<Longrightarrow> index_of [c] s = None"
  by (induction s) auto

section \<open>Entries of maps\<close>

lemma set_map_set: "set (map_set k v m) \<subseteq> insert (k, v) (set m)"
  by (induction m) auto

lemma set_map_from: "set (map_from kvs) \<subseteq> set kvs"
proof -
  have "set (fold (\<lambda>kv m. map_set (fst kv) (snd kv) m) kvs m) \<subseteq> set kvs \<union> set m" for m
  proof (induction kvs arbitrary: m)
    case (Cons kv kvs)
    have "set (map_set (fst kv) (snd kv) m) \<subseteq> insert kv (set m)"
      using set_map_set [of "fst kv" "snd kv" m] by simp
    with Cons.IH [of "map_set (fst kv) (snd kv) m"] show ?case by auto
  qed simp
  from this [of "[]"] show ?thesis by (simp add: map_from_def)
qed

section \<open>Numbers in templates\<close>

text \<open>A natural number in a template string is its decimal notation.\<close>

definition digit :: "nat \<Rightarrow> char" where
  "digit n = char_of (48 + n)"

fun decimal :: "nat \<Rightarrow> string" where
  "decimal n = (if n < 10 then [digit n] else decimal (n div 10) @ [digit (n mod 10)])"

declare decimal.simps [simp del]

section \<open>Comparison of numbers\<close>

text \<open>\<open>===\<close> and \<open><=\<close> on numbers: \<open>NaN\<close> compares false with everything.\<close>

definition js_eq :: "jsnum \<Rightarrow> jsnum \<Rightarrow> bool" where
  "js_eq a b \<longleftrightarrow> a \<noteq> NaN \<and> a = b"

definition js_le :: "jsnum \<Rightarrow> jsnum \<Rightarrow> bool" where
  "js_le a b \<longleftrightarrow> js_less a b \<or> js_eq a b"

definition js_int :: "int \<Rightarrow> jsnum" where
  "js_int n = Fin (of_int n)"

definition int_of :: "jsnum \<Rightarrow> int" where
  "int_of x = \<lfloor>num_of x\<rfloor>"

lemma js_le_Fin [simp]: "js_le (Fin a) (Fin b) \<longleftrightarrow> a \<le> b"
  by (auto simp: js_le_def js_eq_def)

lemma js_eq_Fin [simp]: "js_eq (Fin a) x \<longleftrightarrow> x = Fin a" "js_eq x (Fin a) \<longleftrightarrow> x = Fin a"
  by (auto simp: js_eq_def)

lemma js_int_simps [simp]:
  "js_eq (js_int a) (js_int b) \<longleftrightarrow> a = b" "js_le (js_int a) (js_int b) \<longleftrightarrow> a \<le> b"
  "int_of (js_int a) = a" "is_safe_integer (js_int a) \<longleftrightarrow> \<bar>a\<bar> \<le> max_safe"
  "js_int a = js_int b \<longleftrightarrow> a = b" "js_less (js_int a) (js_int b) \<longleftrightarrow> a < b"
  by (auto simp: js_int_def int_of_def)

lemma safe_integer_E: "is_safe_integer x \<Longrightarrow> x = js_int (int_of x)"
  by (cases x) (auto simp: js_int_def int_of_def)

end
