(* ===== verification/Pane_Container.thy ===== *)
theory Pane_Container
  imports Prelude "HOL-Library.Multiset"
begin

text \<open>
  The contract between a layout tree and its users. A container holds panes, each with an
  identifier and a view, in a fixed visiting order; it can replace a view, open a blank pane
  beside another one, and close a pane, and it never becomes empty. The window layer of
  \<^verbatim>\<open>packages/yaade-app/src/mux/terminal-tiling.ts\<close> uses the layout tree only through these
  operations, so the lemmas it needs are proved here once, from the laws alone.
\<close>

locale pane_container =
  fixes panes :: "'t \<Rightarrow> (nat \<times> 'v) list"
    and ok :: "'t \<Rightarrow> bool"
    and put :: "'t \<Rightarrow> nat \<Rightarrow> 'v \<Rightarrow> 't"
    and open_beside :: "'t \<Rightarrow> nat \<Rightarrow> 'e \<Rightarrow> nat \<times> 't"
    and close_pane :: "'t \<Rightarrow> nat \<Rightarrow> 't"
    and blank :: 'v
  assumes panes_distinct: "ok t \<Longrightarrow> distinct (map fst (panes t))"
    and panes_nonempty: "ok t \<Longrightarrow> panes t \<noteq> []"
    and put_ok: "ok t \<Longrightarrow> ok (put t p v)"
    and put_panes: "panes (put t p v) = map (\<lambda>(i, w). (i, if i = p then v else w)) (panes t)"
    and open_ok: "ok t \<Longrightarrow> open_beside t p e = (q, t') \<Longrightarrow> ok t'"
    and open_fresh: "ok t \<Longrightarrow> open_beside t p e = (q, t') \<Longrightarrow> q \<notin> fst ` set (panes t)"
    and open_panes: "ok t \<Longrightarrow> open_beside t p e = (q, t') \<Longrightarrow> p \<in> fst ` set (panes t) \<Longrightarrow>
      mset (panes t') = add_mset (q, blank) (mset (panes t))"
    and close_ok: "ok t \<Longrightarrow> ok (close_pane t p)"
    and close_panes: "filter (\<lambda>l. fst l \<noteq> p) (panes t) \<noteq> [] \<Longrightarrow>
      panes (close_pane t p) = filter (\<lambda>l. fst l \<noteq> p) (panes t)"
    and close_last: "filter (\<lambda>l. fst l \<noteq> p) (panes t) = [] \<Longrightarrow> \<exists>q. panes (close_pane t p) = [(q, blank)]"
begin

lemma put_ids: "map fst (panes (put t p v)) = map fst (panes t)"
  by (simp add: put_panes comp_def case_prod_beta)

lemma put_length: "length (panes (put t p v)) = length (panes t)"
  by (simp add: put_panes)

lemma put_absent: "p \<notin> fst ` set (panes t) \<Longrightarrow> panes (put t p v) = panes t"
  unfolding put_panes by (rule map_idI) force

lemma put_member: "(i, w) \<in> set (panes (put t p v)) \<longleftrightarrow>
    (if i = p then w = v \<and> p \<in> fst ` set (panes t) else (i, w) \<in> set (panes t))"
  by (force simp: put_panes)

lemma open_ids: "ok t \<Longrightarrow> open_beside t p e = (q, t') \<Longrightarrow> p \<in> fst ` set (panes t) \<Longrightarrow>
    fst ` set (panes t') = insert q (fst ` set (panes t))"
  using open_panes [THEN arg_cong [where f = set_mset]] by simp

lemma open_length: "ok t \<Longrightarrow> open_beside t p e = (q, t') \<Longrightarrow> p \<in> fst ` set (panes t) \<Longrightarrow>
    length (panes t') = Suc (length (panes t))"
  using open_panes [THEN arg_cong [where f = size]] by simp

text \<open>Opening a pane and showing a view in it adds exactly that view.\<close>

lemma open_put_panes:
  assumes "ok t" "open_beside t p e = (q, t')" "p \<in> fst ` set (panes t)"
  shows "mset (panes (put t' q v)) = add_mset (q, v) (mset (panes t))"
proof -
  have "mset (panes (put t' q v)) =
      image_mset (\<lambda>(i, w). (i, if i = q then v else w)) (add_mset (q, blank) (mset (panes t)))"
    by (simp add: put_panes flip: open_panes [OF assms])
  also have "\<dots> = add_mset (q, v) (image_mset (\<lambda>(i, w). (i, if i = q then v else w)) (mset (panes t)))"
    by simp
  also have "image_mset (\<lambda>(i, w). (i, if i = q then v else w)) (mset (panes t)) = mset (panes t)"
    using open_fresh [OF assms(1,2)] by (subst mset_map [symmetric], intro arg_cong [where f = mset] map_idI) force
  finally show ?thesis .
qed

end

end
