(* ===== verification/Panel_Tree.thy ===== *)
theory Panel_Tree
  imports Pane_Container
begin

text \<open>
  The layout tree of \<^verbatim>\<open>packages/yaade-panels/src/tree.ts\<close>: a window is a leaf that shows one
  view, or a row or column of nodes with one ratio per child. The class \<open>PanelTree\<close> is a record
  of its two mutable fields; its options (the view of a fresh leaf, and which views count as
  empty) are an argument of the operations that read them. Node objects are never shared
  between two trees (\<open>clone\<close> copies them), so a mutation in place is an update of the record.

  The lemmas describe every operation by its effect on the list of leaves, in visiting order,
  and show that each keeps the tree well formed.
\<close>

section \<open>Data\<close>

datatype axis = Row | Column

datatype edge = EdgeLeft | EdgeRight | EdgeTop | EdgeBottom | EdgeCenter

datatype 'v panel_node =
    Leaf nat 'v
  | Split axis "'v panel_node list" "jsnum list"

record rect =
  rect_x :: jsnum
  rect_y :: jsnum
  rect_width :: jsnum
  rect_height :: jsnum

record 'v panel_options =
  emptyView :: 'v
  isEmpty :: "'v \<Rightarrow> bool"

record 'v panel_tree =
  root :: "'v panel_node"
  nextPanelId :: nat

record 'v panel_snapshot =
  snap_root :: "'v panel_node"
  snap_next :: jsnum

definition SPLITTER :: jsnum where
  "SPLITTER = Fin 4"

section \<open>Operations\<close>

definition new_tree :: "'v panel_options \<Rightarrow> 'v panel_node option \<Rightarrow> 'v panel_tree" where
  "new_tree opts r =
     (case r of
        Some n \<Rightarrow> \<lparr>root = n, nextPanelId = 1\<rparr>
      | None \<Rightarrow> \<lparr>root = Leaf 1 (emptyView opts), nextPanelId = 2\<rparr>)"

definition allocPanelId :: "'v panel_tree \<Rightarrow> nat \<times> 'v panel_tree" where
  "allocPanelId t = (nextPanelId t, t\<lparr>nextPanelId := nextPanelId t + 1\<rparr>)"

text \<open>\<open>visitLeaves\<close> calls its argument on the leaves from left to right; this is that sequence.\<close>

fun leaves :: "'v panel_node \<Rightarrow> (nat \<times> 'v) list" where
  "leaves (Leaf i v) = [(i, v)]"
| "leaves (Split k cs rs) = concat (map leaves cs)"

definition visitLeaves :: "'v panel_tree \<Rightarrow> (nat \<times> 'v) list" where
  "visitLeaves t = leaves (root t)"

fun set_view_node :: "nat \<Rightarrow> 'v \<Rightarrow> 'v panel_node \<Rightarrow> 'v panel_node" where
  "set_view_node p v (Leaf i w) = (if i \<noteq> p then Leaf i w else Leaf i v)"
| "set_view_node p v (Split k cs rs) = Split k (map (set_view_node p v) cs) rs"

definition setView :: "'v panel_tree \<Rightarrow> nat \<Rightarrow> 'v \<Rightarrow> 'v panel_tree" where
  "setView t p v = t\<lparr>root := set_view_node p v (root t)\<rparr>"

text \<open>The visitor overwrites its result, so the last leaf with the id wins.\<close>

definition getLeaf :: "'v panel_tree \<Rightarrow> nat \<Rightarrow> (nat \<times> 'v) option" where
  "getLeaf t p = find_last (\<lambda>l. fst l = p) (visitLeaves t)"

definition getView :: "'v panel_tree \<Rightarrow> nat \<Rightarrow> 'v option" where
  "getView t p = map_option snd (getLeaf t p)"

definition findPanelWithView :: "'v panel_tree \<Rightarrow> ('v \<Rightarrow> bool) \<Rightarrow> nat option" where
  "findPanelWithView t pred = map_option fst (find (\<lambda>l. pred (snd l)) (visitLeaves t))"

text \<open>The callback of \<open>mapNode\<close> returns its argument to mean \<open>no change\<close>: here \<open>None\<close>.\<close>

fun mapNode :: "('v panel_node \<Rightarrow> 'v panel_node option) \<Rightarrow> 'v panel_node \<Rightarrow> 'v panel_node" where
  "mapNode replace (Leaf i v) =
     (case replace (Leaf i v) of Some n \<Rightarrow> n | None \<Rightarrow> Leaf i v)"
| "mapNode replace (Split k cs rs) =
     (case replace (Split k cs rs) of
        Some n \<Rightarrow> n
      | None \<Rightarrow> Split k (map (mapNode replace) cs) rs)"

definition edge_axis :: "edge \<Rightarrow> axis" where
  "edge_axis e = (if e = EdgeLeft \<or> e = EdgeRight then Row else Column)"

definition edge_after :: "edge \<Rightarrow> bool" where
  "edge_after e \<longleftrightarrow> e = EdgeRight \<or> e = EdgeBottom"

fun split_replace :: "nat \<Rightarrow> edge \<Rightarrow> 'v panel_node \<Rightarrow> 'v panel_node \<Rightarrow> 'v panel_node option" where
  "split_replace p e newLeaf (Leaf i v) =
     (if i \<noteq> p then None
      else let node = Leaf i v;
               first = (if edge_after e then node else newLeaf);
               second = (if edge_after e then newLeaf else node)
           in Some (Split (edge_axis e) [first, second] [Fin (1/2), Fin (1/2)]))"
| "split_replace p e newLeaf (Split k cs rs) = None"

definition splitAtEdge ::
  "'v panel_options \<Rightarrow> 'v panel_tree \<Rightarrow> nat \<Rightarrow> edge \<Rightarrow> nat \<times> 'v panel_tree" where
  "splitAtEdge opts t p e =
     (let (newPanelId, t1) = allocPanelId t;
          newLeaf = Leaf newPanelId (emptyView opts)
      in (newPanelId, t1\<lparr>root := mapNode (split_replace p e newLeaf) (root t1)\<rparr>))"

definition createDefaultLeaf :: "'v panel_options \<Rightarrow> 'v panel_tree \<Rightarrow> 'v panel_node \<times> 'v panel_tree" where
  "createDefaultLeaf opts t = (let (i, t1) = allocPanelId t in (Leaf i (emptyView opts), t1))"

definition rebalanceRatios :: "nat \<Rightarrow> jsnum list" where
  "rebalanceRatios n = replicate n (js_div (Fin 1) (Fin (of_nat n)))"

fun removePanel :: "nat \<Rightarrow> 'v panel_node \<Rightarrow> 'v panel_node option" where
  "removePanel p (Leaf i v) = (if i = p then None else Some (Leaf i v))"
| "removePanel p (Split k cs rs) =
     (let children = somes (map (removePanel p) cs)
      in if length children = 0 then None
         else if length children = 1 then Some (children ! 0)
         else Some (Split k children (rebalanceRatios (length children))))"

definition closePanel :: "'v panel_options \<Rightarrow> 'v panel_tree \<Rightarrow> nat \<Rightarrow> 'v panel_tree" where
  "closePanel opts t p =
     (case removePanel p (root t) of
        Some r \<Rightarrow> t\<lparr>root := r\<rparr>
      | None \<Rightarrow> (let (leaf, t1) = createDefaultLeaf opts t in t1\<lparr>root := leaf\<rparr>))"

definition attachAtViewportEdge ::
  "'v panel_options \<Rightarrow> 'v panel_tree \<Rightarrow> edge \<Rightarrow> nat \<times> 'v panel_tree" where
  "attachAtViewportEdge opts t e =
     (let (newPanelId, t1) = allocPanelId t;
          newLeaf = Leaf newPanelId (emptyView opts);
          first = (if edge_after e then root t1 else newLeaf);
          second = (if edge_after e then newLeaf else root t1);
          ratios = (if e = EdgeLeft \<or> e = EdgeTop then [Fin (22/100), Fin (78/100)]
                    else [Fin (78/100), Fin (22/100)])
      in (newPanelId, t1\<lparr>root := Split (edge_axis e) [first, second] ratios\<rparr>))"

text \<open>The loop runs at most 64 rounds; a round closes every leaf that was empty at its start.\<close>

fun prune_rounds :: "'v panel_options \<Rightarrow> nat \<Rightarrow> 'v panel_tree \<Rightarrow> 'v panel_tree" where
  "prune_rounds opts 0 t = t"
| "prune_rounds opts (Suc guard) t =
     (let empty = map fst (filter (\<lambda>l. isEmpty opts (snd l)) (visitLeaves t))
      in if empty = [] \<or> length (visitLeaves t) \<le> 1 then t
         else prune_rounds opts guard (foldl (closePanel opts) t empty))"

definition pruneEmptyLeaves :: "'v panel_options \<Rightarrow> 'v panel_tree \<Rightarrow> 'v panel_tree" where
  "pruneEmptyLeaves opts t = prune_rounds opts 64 t"

definition toggleRootOrientation :: "'v panel_tree \<Rightarrow> 'v panel_tree \<times> bool" where
  "toggleRootOrientation t =
     (case root t of
        Leaf i v \<Rightarrow> (t, False)
      | Split k cs rs \<Rightarrow> (t\<lparr>root := Split (if k = Row then Column else Row) cs rs\<rparr>, True))"

fun clonePanelNode :: "'v panel_node \<Rightarrow> 'v panel_node" where
  "clonePanelNode (Leaf i v) = Leaf i v"
| "clonePanelNode (Split k cs rs) = Split k (map clonePanelNode cs) rs"

definition clone :: "'v panel_tree \<Rightarrow> 'v panel_tree" where
  "clone t = \<lparr>root = clonePanelNode (root t), nextPanelId = nextPanelId t\<rparr>"

fun maxPanelId :: "'v panel_node \<Rightarrow> nat" where
  "maxPanelId (Leaf i v) = i"
| "maxPanelId (Split k cs rs) = foldl max 0 (map maxPanelId cs)"

definition toJSON :: "'v panel_tree \<Rightarrow> 'v panel_snapshot" where
  "toJSON t = \<lparr>snap_root = root t, snap_next = Fin (of_nat (nextPanelId t))\<rparr>"

definition applySnapshot :: "'v panel_tree \<Rightarrow> 'v panel_snapshot \<Rightarrow> 'v panel_tree" where
  "applySnapshot t s =
     (let minimumNextId = maxPanelId (snap_root s) + 1
      in \<lparr>root = snap_root s,
          nextPanelId =
            (if is_safe_integer (snap_next s) \<and> 0 < num_of (snap_next s)
             then max (nat \<lfloor>num_of (snap_next s)\<rfloor>) minimumNextId
             else minimumNextId)\<rparr>)"

definition fromSnapshot :: "'v panel_options \<Rightarrow> 'v panel_snapshot \<Rightarrow> 'v panel_tree" where
  "fromSnapshot opts s = applySnapshot (new_tree opts None) s"

definition fromJSON :: "'v panel_options \<Rightarrow> 'v panel_snapshot \<Rightarrow> 'v panel_tree" where
  "fromJSON opts s = fromSnapshot opts s"

subsection \<open>Split ratios\<close>

fun getAtPath :: "'v panel_node \<Rightarrow> nat list \<Rightarrow> 'v panel_node option" where
  "getAtPath n [] = Some n"
| "getAtPath (Leaf i v) (idx # path) = None"
| "getAtPath (Split k cs rs) (idx # path) =
     (if idx < length cs then getAtPath (cs ! idx) path else None)"

text \<open>\<open>node.split.ratios = next\<close> on the node found at a path.\<close>

fun put_ratios :: "'v panel_node \<Rightarrow> nat list \<Rightarrow> jsnum list \<Rightarrow> 'v panel_node" where
  "put_ratios (Leaf i v) path next = Leaf i v"
| "put_ratios (Split k cs rs) [] next = Split k cs next"
| "put_ratios (Split k cs rs) (idx # path) next =
     Split k (if idx < length cs then cs[idx := put_ratios (cs ! idx) path next] else cs) rs"

definition normalizeRatios :: "jsnum list \<Rightarrow> jsnum list option" where
  "normalizeRatios ratios =
     (let sum = js_sum ratios
      in if \<not> is_finite sum \<or> num_of sum \<le> 0 then None
         else Some (map (\<lambda>r. js_div r sum) ratios))"

definition ratios_changed :: "jsnum list \<Rightarrow> jsnum list \<Rightarrow> bool" where
  "ratios_changed next old \<longleftrightarrow>
     (\<exists>i \<in> set [0..<length next].
        js_less (Fin (1/1000)) (js_abs (js_sub (next ! i) (num_at old i))))"

definition setSplitRatios ::
  "'v panel_tree \<Rightarrow> nat list \<Rightarrow> jsnum list \<Rightarrow> 'v panel_tree \<times> bool" where
  "setSplitRatios t path ratios =
     (case getAtPath (root t) path of
        None \<Rightarrow> (t, False)
      | Some (Leaf _ _) \<Rightarrow> (t, False)
      | Some (Split k cs rs) \<Rightarrow>
          if length ratios \<noteq> length cs then (t, False)
          else if \<exists>r \<in> set ratios. \<not> is_finite r \<or> num_of r \<le> 0 then (t, False)
          else (case normalizeRatios ratios of
                  None \<Rightarrow> (t, False)
                | Some next \<Rightarrow>
                    if \<not> ratios_changed next rs then (t, False)
                    else (t\<lparr>root := put_ratios (root t) path next\<rparr>, True)))"

subsection \<open>Layout\<close>

fun layoutNode :: "'v panel_node \<Rightarrow> rect \<Rightarrow> (nat, rect) jsmap \<Rightarrow> (nat, rect) jsmap"
  and layoutChildren ::
    "axis \<Rightarrow> rect \<Rightarrow> jsnum \<Rightarrow> jsnum list \<Rightarrow> nat \<Rightarrow> 'v panel_node list \<Rightarrow> jsnum \<Rightarrow>
     (nat, rect) jsmap \<Rightarrow> (nat, rect) jsmap" where
  "layoutNode (Leaf i v) rect m = map_set i rect m"
| "layoutNode (Split k cs rs) rect m =
     (let offset = (if k = Row then rect_x rect else rect_y rect);
          total = (if k = Row then rect_width rect else rect_height rect);
          available = js_sub total (js_mul SPLITTER (js_sub (Fin (of_nat (length cs))) (Fin 1)))
      in layoutChildren k rect available rs 0 cs offset m)"
| "layoutChildren k rect available rs i [] offset m = m"
| "layoutChildren k rect available rs i (c # cs) offset m =
     (let size = js_mul available (num_at rs i);
          childRect =
            (if k = Row
             then \<lparr>rect_x = offset, rect_y = rect_y rect, rect_width = size, rect_height = rect_height rect\<rparr>
             else \<lparr>rect_x = rect_x rect, rect_y = offset, rect_width = rect_width rect, rect_height = size\<rparr>)
      in layoutChildren k rect available rs (Suc i) cs (js_add offset (js_add size SPLITTER))
           (layoutNode c childRect m))"

definition computeRects :: "'v panel_tree \<Rightarrow> rect \<Rightarrow> (nat, rect) jsmap" where
  "computeRects t viewport = layoutNode (root t) viewport []"

section \<open>Well-formed trees\<close>

definition ratios_ok :: "jsnum list \<Rightarrow> bool" where
  "ratios_ok rs \<longleftrightarrow> (\<forall>r \<in> set rs. is_finite r \<and> 0 < num_of r) \<and> sum_list (map num_of rs) = 1"

fun wf_node :: "'v panel_node \<Rightarrow> bool" where
  "wf_node (Leaf i v) \<longleftrightarrow> True"
| "wf_node (Split k cs rs) \<longleftrightarrow>
     2 \<le> length cs \<and> length rs = length cs \<and> ratios_ok rs \<and> (\<forall>c \<in> set cs. wf_node c)"

definition leaf_ids :: "'v panel_tree \<Rightarrow> nat list" where
  "leaf_ids t = map fst (visitLeaves t)"

definition wf_tree :: "'v panel_tree \<Rightarrow> bool" where
  "wf_tree t \<longleftrightarrow> wf_node (root t) \<and> distinct (leaf_ids t) \<and>
     0 < nextPanelId t \<and> (\<forall>i \<in> set (leaf_ids t). 0 < i \<and> i < nextPanelId t)"

lemmas tree_defs = visitLeaves_def leaf_ids_def wf_tree_def

lemma leaves_nonempty: "wf_node n \<Longrightarrow> leaves n \<noteq> []"
proof (induction n)
  case (Split k cs rs)
  then have "cs \<noteq> []" by auto
  then have "hd cs \<in> set cs" by simp
  with Split show ?case by auto
qed simp

lemma wf_visit_nonempty: "wf_tree t \<Longrightarrow> visitLeaves t \<noteq> []"
  by (simp add: tree_defs leaves_nonempty)

lemma wf_distinct: "wf_tree t \<Longrightarrow> distinct (map fst (visitLeaves t))"
  by (simp add: tree_defs)

lemma ratios_ok_halves [simp]: "ratios_ok [Fin (1/2), Fin (1/2)]"
  by (simp add: ratios_ok_def)

lemma ratios_ok_attach [simp]:
  "ratios_ok [Fin (11/50), Fin (39/50)]" "ratios_ok [Fin (39/50), Fin (11/50)]"
  by (simp_all add: ratios_ok_def)

lemma rebalance_eq: "0 < n \<Longrightarrow> rebalanceRatios n = replicate n (Fin (1 / of_nat n))"
proof -
  assume n: "0 < n"
  then have "(1::rat) / of_nat n \<le> 1" by simp
  also have "(1::rat) \<le> 10 ^ 300" by simp
  finally have "\<bar>(1::rat) / of_nat n\<bar> \<le> 10 ^ 300" by simp
  with n show ?thesis by (simp add: rebalanceRatios_def js_fin_small)
qed

lemma length_rebalance [simp]: "length (rebalanceRatios n) = n"
  by (simp add: rebalanceRatios_def)

lemma ratios_ok_rebalance [simp]: "0 < n \<Longrightarrow> ratios_ok (rebalanceRatios n)"
  by (auto simp: rebalance_eq ratios_ok_def sum_list_replicate)

section \<open>Operations and the list of leaves\<close>

lemma leaves_set_view:
  "leaves (set_view_node p v n) = map (\<lambda>(i, w). (i, if i = p then v else w)) (leaves n)"
  by (induction n) (auto simp: map_concat comp_def intro!: arg_cong [where f = concat])

lemma wf_set_view: "wf_node n \<Longrightarrow> wf_node (set_view_node p v n)"
  by (induction n) auto

definition beside :: "edge \<Rightarrow> nat \<times> 'v \<Rightarrow> nat \<times> 'v \<Rightarrow> (nat \<times> 'v) list" where
  "beside e l new = (if edge_after e then [l, new] else [new, l])"

lemma concat_map_concat: "concat (map f (concat xss)) = concat (map (\<lambda>xs. concat (map f xs)) xss)"
  by (induction xss) simp_all

lemma leaves_mapNode_split:
  "leaves (mapNode (split_replace p e (Leaf q u)) n) =
     concat (map (\<lambda>l. if fst l = p then beside e l (q, u) else [l]) (leaves n))"
proof (induction n)
  case (Split k cs rs)
  then have "map (\<lambda>c. leaves (mapNode (split_replace p e (Leaf q u)) c)) cs =
    map (\<lambda>c. concat (map (\<lambda>l. if fst l = p then beside e l (q, u) else [l]) (leaves c))) cs"
    by simp
  then show ?case by (simp add: comp_def concat_map_concat cong: map_cong)
qed (auto simp: beside_def Let_def)

lemma concat_singletons: "(\<And>x. x \<in> set xs \<Longrightarrow> f x = [x]) \<Longrightarrow> concat (map f xs) = xs"
  by (induction xs) auto

lemma concat_split_at:
  assumes "distinct (map fst ls)" "(p, v) \<in> set ls"
  obtains xs ys where "ls = xs @ (p, v) # ys"
    "concat (map (\<lambda>l. if fst l = p then f l else [l]) ls) = xs @ f (p, v) @ ys"
proof -
  from split_list [OF assms(2)] obtain xs ys where ls: "ls = xs @ (p, v) # ys" by blast
  with assms(1) have "p \<notin> fst ` set xs" "p \<notin> fst ` set ys" by auto
  then have "concat (map (\<lambda>l. if fst l = p then f l else [l]) xs) = xs"
    "concat (map (\<lambda>l. if fst l = p then f l else [l]) ys) = ys"
    by (force intro!: concat_singletons)+
  with ls that show ?thesis by simp
qed

lemma wf_mapNode_split: "wf_node n \<Longrightarrow> wf_node (mapNode (split_replace p e (Leaf q u)) n)"
  by (induction n) (auto simp: Let_def)

lemma somes_concat:
  assumes "\<And>c. c \<in> set cs \<Longrightarrow> g c = (case f c of None \<Rightarrow> [] | Some m \<Rightarrow> h m)"
  shows "concat (map h (somes (map f cs))) = concat (map g cs)"
  using assms by (induction cs) (auto split: option.splits)

lemma leaves_removePanel:
  "(case removePanel p n of None \<Rightarrow> [] | Some m \<Rightarrow> leaves m) = filter (\<lambda>l. fst l \<noteq> p) (leaves n)"
proof (induction n)
  case (Split k cs rs)
  define ms where "ms = somes (map (removePanel p) cs)"
  have "concat (map leaves ms) = concat (map (\<lambda>c. filter (\<lambda>l. fst l \<noteq> p) (leaves c)) cs)"
    unfolding ms_def by (rule somes_concat) (simp add: Split)
  also have "\<dots> = filter (\<lambda>l. fst l \<noteq> p) (leaves (Split k cs rs))"
    by (simp add: filter_concat comp_def)
  finally show ?case
    by (cases ms; cases "tl ms") (simp_all add: ms_def [symmetric] Let_def)
qed simp

lemma removePanel_leaves_nonempty: "removePanel p n = Some m \<Longrightarrow> leaves m \<noteq> []"
proof (induction n arbitrary: m)
  case (Split k cs rs)
  define ms where "ms = somes (map (removePanel p) cs)"
  have ne: "leaves x \<noteq> []" if "x \<in> set ms" for x
    using that Split.IH by (auto simp: ms_def set_somes)
  from Split.prems show ?case
    by (cases ms; cases "tl ms") (auto simp: ms_def [symmetric] Let_def ne)
qed (auto split: if_splits)

lemma removePanel_None_iff: "removePanel p n = None \<longleftrightarrow> filter (\<lambda>l. fst l \<noteq> p) (leaves n) = []"
  using leaves_removePanel [of p n] removePanel_leaves_nonempty [of p n]
  by (cases "removePanel p n") auto

lemma removePanel_Some_leaves:
  "removePanel p n = Some m \<Longrightarrow> leaves m = filter (\<lambda>l. fst l \<noteq> p) (leaves n)"
  using leaves_removePanel [of p n] by simp

lemma wf_removePanel: "wf_node n \<Longrightarrow> removePanel p n = Some m \<Longrightarrow> wf_node m"
proof (induction n arbitrary: m)
  case (Split k cs rs)
  define ms where "ms = somes (map (removePanel p) cs)"
  have wf: "wf_node x" if "x \<in> set ms" for x
    using that Split by (auto simp: ms_def set_somes)
  from Split.prems(2) show ?case
    by (cases ms; cases "tl ms") (auto simp: ms_def [symmetric] Let_def wf)
qed (auto split: if_splits)

lemma clonePanelNode_id [simp]: "clonePanelNode n = n"
  by (induction n) (auto simp: map_idI)

lemma foldl_max_ge: "(a::nat) \<le> foldl max a xs \<and> (\<forall>x \<in> set xs. x \<le> foldl max a xs)"
proof (induction xs arbitrary: a)
  case (Cons x xs)
  from Cons [of "max a x"] show ?case by auto
qed simp

lemma maxPanelId_bound: "(i, v) \<in> set (leaves n) \<Longrightarrow> i \<le> maxPanelId n"
proof (induction n)
  case (Split k cs rs)
  then obtain c where c: "c \<in> set cs" "(i, v) \<in> set (leaves c)" by auto
  with Split.IH have "i \<le> maxPanelId c" by blast
  also have "maxPanelId c \<le> foldl max 0 (map maxPanelId cs)"
    using c(1) foldl_max_ge [of 0 "map maxPanelId cs"] by simp
  finally show ?case by simp
qed simp

section \<open>Operations on well-formed trees\<close>

lemma visit_setView:
  "visitLeaves (setView t p v) = map (\<lambda>(i, w). (i, if i = p then v else w)) (visitLeaves t)"
  by (simp add: setView_def tree_defs leaves_set_view)

lemma wf_setView: "wf_tree t \<Longrightarrow> wf_tree (setView t p v)"
  by (auto simp: setView_def tree_defs leaves_set_view wf_set_view comp_def case_prod_beta)

lemma splitAtEdge_eq:
  "splitAtEdge opts t p e = (q, t') \<longleftrightarrow> q = nextPanelId t \<and>
     t' = \<lparr>root = mapNode (split_replace p e (Leaf q (emptyView opts))) (root t),
           nextPanelId = nextPanelId t + 1\<rparr>"
  by (auto simp: splitAtEdge_def allocPanelId_def Let_def)

lemma visit_split:
  assumes "splitAtEdge opts t p e = (q, t')"
  shows "visitLeaves t' = concat (map (\<lambda>l. if fst l = p then beside e l (q, emptyView opts) else [l])
           (visitLeaves t))"
  using assms by (auto simp: splitAtEdge_eq visitLeaves_def leaves_mapNode_split)

lemma visit_split_member:
  assumes "wf_tree t" "(p, v) \<in> set (visitLeaves t)" "splitAtEdge opts t p e = (q, t')"
  obtains xs ys where "visitLeaves t = xs @ (p, v) # ys"
    "visitLeaves t' = xs @ beside e (p, v) (q, emptyView opts) @ ys"
proof -
  obtain xs ys where "visitLeaves t = xs @ (p, v) # ys"
    "concat (map (\<lambda>l. if fst l = p then beside e l (q, emptyView opts) else [l]) (visitLeaves t)) =
       xs @ beside e (p, v) (q, emptyView opts) @ ys"
    by (rule concat_split_at [OF wf_distinct [OF assms(1)] assms(2),
          where f = "\<lambda>l. beside e l (q, emptyView opts)"])
  with that visit_split [OF assms(3)] show ?thesis by simp
qed

lemma visit_split_nonmember:
  assumes "p \<notin> set (leaf_ids t)" "splitAtEdge opts t p e = (q, t')"
  shows "visitLeaves t' = visitLeaves t"
  unfolding visit_split [OF assms(2)]
  by (rule concat_singletons) (use assms(1) in \<open>auto simp: leaf_ids_def\<close>)

lemma wf_split:
  assumes wf: "wf_tree t" and sp: "splitAtEdge opts t p e = (q, t')"
  shows "wf_tree t'"
proof -
  have q: "q = nextPanelId t" "nextPanelId t' = q + 1" and node: "wf_node (root t')"
    using sp wf by (auto simp: splitAtEdge_eq wf_mapNode_split tree_defs)
  have "distinct (leaf_ids t') \<and> (\<forall>i \<in> set (leaf_ids t'). 0 < i \<and> i < q + 1)"
  proof (cases "p \<in> set (leaf_ids t)")
    case True
    then obtain v where "(p, v) \<in> set (visitLeaves t)" by (auto simp: leaf_ids_def)
    from visit_split_member [OF wf this sp] obtain xs ys where
      "visitLeaves t = xs @ (p, v) # ys"
      "visitLeaves t' = xs @ beside e (p, v) (q, emptyView opts) @ ys" .
    with wf q show ?thesis by (auto simp: wf_tree_def leaf_ids_def beside_def less_Suc_eq)
  next
    case False
    from visit_split_nonmember [OF False sp] wf q show ?thesis
      by (auto simp: wf_tree_def leaf_ids_def less_SucI)
  qed
  with q node show ?thesis by (simp add: wf_tree_def)
qed

lemma visit_close:
  "visitLeaves (closePanel opts t p) =
     (let rest = filter (\<lambda>l. fst l \<noteq> p) (visitLeaves t)
      in if rest = [] then [(nextPanelId t, emptyView opts)] else rest)"
  using removePanel_None_iff [of p "root t"] removePanel_Some_leaves [of p "root t"]
  by (auto simp: closePanel_def visitLeaves_def createDefaultLeaf_def allocPanelId_def
      split: option.split)

lemma next_close:
  "nextPanelId (closePanel opts t p) =
     nextPanelId t + (if filter (\<lambda>l. fst l \<noteq> p) (visitLeaves t) = [] then 1 else 0)"
  using removePanel_None_iff [of p "root t"]
  by (auto simp: closePanel_def visitLeaves_def createDefaultLeaf_def allocPanelId_def
      split: option.split)

lemma wf_close:
  assumes wf: "wf_tree t"
  shows "wf_tree (closePanel opts t p)"
proof -
  have "wf_node (root (closePanel opts t p))"
    using wf wf_removePanel [of "root t" p]
    by (auto simp: closePanel_def wf_tree_def createDefaultLeaf_def allocPanelId_def
        split: option.split)
  moreover have "distinct (map fst (filter (\<lambda>l. fst l \<noteq> p) (visitLeaves t)))"
    using wf by (simp add: wf_distinct distinct_map_filter)
  ultimately show ?thesis
    using wf by (auto simp: wf_tree_def leaf_ids_def visit_close next_close Let_def)
qed

lemma visit_attach:
  assumes "attachAtViewportEdge opts t e = (q, t')"
  shows "q = nextPanelId t \<and> nextPanelId t' = q + 1 \<and> visitLeaves t' =
    (if edge_after e then visitLeaves t @ [(q, emptyView opts)] else (q, emptyView opts) # visitLeaves t)"
  using assms by (auto simp: attachAtViewportEdge_def allocPanelId_def Let_def visitLeaves_def)

lemma wf_attach:
  assumes "wf_tree t" "attachAtViewportEdge opts t e = (q, t')"
  shows "wf_tree t'"
proof -
  have "wf_node (root t')"
    using assms by (cases e)
      (auto simp: attachAtViewportEdge_def allocPanelId_def Let_def wf_tree_def edge_after_def)
  with visit_attach [OF assms(2)] assms(1) show ?thesis
    by (auto simp: wf_tree_def leaf_ids_def)
qed

lemma visit_toggle: "visitLeaves (fst (toggleRootOrientation t)) = visitLeaves t"
  by (simp add: toggleRootOrientation_def visitLeaves_def split: panel_node.split)

lemma wf_toggle: "wf_tree t \<Longrightarrow> wf_tree (fst (toggleRootOrientation t))"
  by (auto simp: toggleRootOrientation_def tree_defs split: panel_node.split)

lemma clone_id [simp]: "clone t = t"
  by (simp add: clone_def)

subsection \<open>Ratios\<close>

lemma num_of_member_le_sum:
  assumes "\<forall>r \<in> set rs. 0 < num_of r" "r \<in> set rs"
  shows "num_of r \<le> sum_list (map num_of rs)"
  using assms
proof (induction rs)
  case (Cons a rs)
  have "0 \<le> sum_list (map num_of rs)"
    using Cons.prems(1) by (intro sum_list_nonneg) (auto simp: less_imp_le)
  with Cons show ?case by (auto simp: add_increasing add_increasing2 less_imp_le)
qed simp

lemma normalizeRatios_ok:
  assumes pos: "\<forall>r \<in> set rs. is_finite r \<and> 0 < num_of r" and n: "normalizeRatios rs = Some next"
  shows "next = map (\<lambda>r. Fin (num_of r / sum_list (map num_of rs))) rs \<and> ratios_ok next"
proof -
  define s where "s = sum_list (map num_of rs)"
  from n have fin: "is_finite (js_sum rs)" and gt: "0 < num_of (js_sum rs)"
    and nx: "next = map (\<lambda>r. js_div r (js_sum rs)) rs"
    by (auto simp: normalizeRatios_def Let_def split: if_splits)
  from fin obtain s' where "js_sum rs = Fin s'" by (auto simp: is_finite_iff)
  with js_sum_finite have sum: "js_sum rs = Fin s" by (simp add: s_def)
  with gt have s: "0 < s" by simp
  have "js_div r (Fin s) = Fin (num_of r / s)" if r: "r \<in> set rs" for r
  proof -
    from pos r obtain a where a: "r = Fin a" "0 < a" by (auto simp: is_finite_iff)
    have "a \<le> s" using num_of_member_le_sum [of rs r] pos r a by (simp add: s_def)
    with a s have "\<bar>a / s\<bar> \<le> 1" by simp
    also have "(1::rat) \<le> 10 ^ 300" by simp
    finally show ?thesis using a s by (simp add: js_fin_small)
  qed
  with nx sum have nx': "next = map (\<lambda>r. Fin (num_of r / s)) rs" by simp
  have "sum_list (map (\<lambda>r. num_of r / s) rs) = sum_list (map num_of rs) / s"
    by (simp add: divide_inverse sum_list_mult_const)
  with s have "sum_list (map (\<lambda>r. num_of r / s) rs) = 1" by (simp add: s_def [symmetric])
  with nx' pos s have "ratios_ok next" by (auto simp: ratios_ok_def comp_def)
  with nx' show ?thesis by (simp add: s_def)
qed

lemma leaves_put_ratios [simp]: "leaves (put_ratios n path rs) = leaves n"
proof (induction n path rs rule: put_ratios.induct)
  case (3 k cs rs idx path nxt)
  then have "idx < length cs \<Longrightarrow> map leaves (cs[idx := put_ratios (cs ! idx) path nxt]) = map leaves cs"
    by (simp add: map_update list_update_same_conv)
  then show ?case by simp
qed auto

lemma wf_put_ratios:
  "wf_node n \<Longrightarrow> getAtPath n path = Some (Split k cs rs) \<Longrightarrow> length new = length cs \<Longrightarrow>
     ratios_ok new \<Longrightarrow> wf_node (put_ratios n path new)"
proof (induction n path new rule: put_ratios.induct)
  case (3 k' cs' rs' idx path nxt)
  then show ?case
    by (auto dest!: set_update_subset_insert [THEN subsetD] split: if_splits)
qed auto

lemma setSplitRatios_cases:
  assumes "setSplitRatios t path rs = (t', changed)"
  obtains "\<not> changed" "t' = t"
  | k cs old new where "changed" "getAtPath (root t) path = Some (Split k cs old)"
      "length rs = length cs" "\<forall>r \<in> set rs. is_finite r \<and> 0 < num_of r"
      "normalizeRatios rs = Some new" "t' = t\<lparr>root := put_ratios (root t) path new\<rparr>"
  using assms
  by (auto simp: setSplitRatios_def not_le split: option.splits panel_node.splits if_splits)

lemma visit_setSplitRatios: "visitLeaves (fst (setSplitRatios t path rs)) = visitLeaves t"
  by (rule setSplitRatios_cases [OF surjective_pairing, of t path rs]) (auto simp: visitLeaves_def)

lemma next_setSplitRatios: "nextPanelId (fst (setSplitRatios t path rs)) = nextPanelId t"
  by (rule setSplitRatios_cases [OF surjective_pairing, of t path rs]) auto

lemma wf_setSplitRatios:
  assumes "wf_tree t"
  shows "wf_tree (fst (setSplitRatios t path rs))"
proof (rule setSplitRatios_cases [OF surjective_pairing, of t path rs])
  fix k cs old new
  assume g: "getAtPath (root t) path = Some (Split k cs old)" "length rs = length cs"
    "\<forall>r \<in> set rs. is_finite r \<and> 0 < num_of r" "normalizeRatios rs = Some new"
    and t': "fst (setSplitRatios t path rs) = t\<lparr>root := put_ratios (root t) path new\<rparr>"
  from normalizeRatios_ok [OF g(3,4)] have "ratios_ok new" "length new = length rs" by auto
  with wf_put_ratios g(1,2) assms have "wf_node (put_ratios (root t) path new)"
    by (auto simp: wf_tree_def)
  with t' assms show ?thesis by (simp add: tree_defs)
qed (use assms in simp)

subsection \<open>Snapshots and pruning\<close>

lemma foldl_max_less: "(a::nat) < k \<Longrightarrow> \<forall>x \<in> set xs. x < k \<Longrightarrow> foldl max a xs < k"
  by (induction xs arbitrary: a) auto

lemma maxPanelId_less: "\<forall>l \<in> set (leaves n). fst l < k \<Longrightarrow> 0 < k \<Longrightarrow> maxPanelId n < k"
proof (induction n)
  case (Split a cs rs)
  then have "\<forall>c \<in> set cs. maxPanelId c < k" by auto
  with Split.prems show ?case by (simp add: foldl_max_less)
qed simp

lemma wf_applySnapshot:
  assumes "wf_node (snap_root s)" "distinct (map fst (leaves (snap_root s)))"
    "0 \<notin> fst ` set (leaves (snap_root s))"
  shows "wf_tree (applySnapshot t s)"
proof -
  have "i < maxPanelId (snap_root s) + 1" if "(i, v) \<in> set (leaves (snap_root s))" for i v
    using maxPanelId_bound [OF that] by simp
  with assms show ?thesis
    by (fastforce simp: tree_defs applySnapshot_def Let_def max_def)
qed

lemma wf_fromJSON: "wf_tree t \<Longrightarrow> wf_tree (fromJSON opts (toJSON t))"
  unfolding fromJSON_def fromSnapshot_def
  by (rule wf_applySnapshot) (auto simp: tree_defs toJSON_def)

lemma wf_new_tree: "wf_tree (new_tree opts None)"
  by (simp add: new_tree_def tree_defs)

lemma applySnapshot_toJSON:
  assumes "wf_tree t" "int (nextPanelId t) \<le> max_safe"
  shows "applySnapshot t' (toJSON t) = t"
proof -
  have "maxPanelId (root t) < nextPanelId t"
    using assms(1) by (intro maxPanelId_less) (auto simp: tree_defs)
  with assms show ?thesis
    by (simp add: applySnapshot_def toJSON_def tree_defs)
qed

lemma visit_close_all:
  assumes "wf_tree t" "distinct ids" "set ids \<subseteq> set (leaf_ids t)"
  shows "visitLeaves (foldl (closePanel opts) t ids) =
    (let rest = filter (\<lambda>l. fst l \<notin> set ids) (visitLeaves t)
     in if rest = [] \<and> ids \<noteq> [] then [(nextPanelId t, emptyView opts)] else rest)"
  using assms
proof (induction ids arbitrary: t)
  case (Cons p ids)
  define u where "u = closePanel opts t p"
  show ?case
  proof (cases "filter (\<lambda>l. fst l \<noteq> p) (visitLeaves t) = []")
    case True
    then have "set (leaf_ids t) \<subseteq> {p}" by (auto simp: leaf_ids_def filter_empty_conv)
    with Cons.prems(2,3) have "ids = []" by (cases ids) auto
    with True show ?thesis by (simp add: visit_close)
  next
    case False
    then have u: "visitLeaves u = filter (\<lambda>l. fst l \<noteq> p) (visitLeaves t)"
      "nextPanelId u = nextPanelId t"
      by (simp_all add: u_def visit_close next_close)
    with Cons.prems have "set ids \<subseteq> set (leaf_ids u)"
      by (fastforce simp: leaf_ids_def)
    moreover have "wf_tree u" using Cons.prems(1) by (simp add: u_def wf_close)
    ultimately have "visitLeaves (foldl (closePanel opts) u ids) =
      (let rest = filter (\<lambda>l. fst l \<notin> set ids) (visitLeaves u)
       in if rest = [] \<and> ids \<noteq> [] then [(nextPanelId u, emptyView opts)] else rest)"
      using Cons.IH Cons.prems(2) by simp
    moreover have "filter (\<lambda>l. fst l \<notin> set ids) (visitLeaves u) =
      filter (\<lambda>l. fst l \<notin> set (p # ids)) (visitLeaves t)"
      by (simp add: u conj_commute)
    moreover have "ids = [] \<Longrightarrow> filter (\<lambda>l. fst l \<notin> set (p # ids)) (visitLeaves t) \<noteq> []"
      using False by simp
    ultimately show ?thesis using u(2) by (auto simp: u_def [symmetric] Let_def)
  qed
qed simp

lemma wf_close_all: "wf_tree t \<Longrightarrow> wf_tree (foldl (closePanel opts) t ids)"
  by (induction ids arbitrary: t) (simp_all add: wf_close)

lemma wf_prune_rounds: "wf_tree t \<Longrightarrow> wf_tree (prune_rounds opts g t)"
  by (induction g arbitrary: t) (auto simp: Let_def wf_close_all)

lemma prune_rounds_done:
  "filter (\<lambda>l. isEmpty opts (snd l)) (visitLeaves t) = [] \<or> length (visitLeaves t) \<le> 1 \<Longrightarrow>
     prune_rounds opts g t = t"
  by (cases g) auto

definition kept_leaves :: "'v panel_options \<Rightarrow> 'v panel_tree \<Rightarrow> (nat \<times> 'v) list" where
  "kept_leaves opts t = filter (\<lambda>l. \<not> isEmpty opts (snd l)) (visitLeaves t)"

lemma visit_prune_round:
  fixes opts :: "'v panel_options" and t :: "'v panel_tree"
  assumes wf: "wf_tree t"
  defines "gone \<equiv> map fst (filter (\<lambda>l. isEmpty opts (snd l)) (visitLeaves t))"
  assumes ne: "gone \<noteq> []"
  shows "visitLeaves (foldl (closePanel opts) t gone) =
    (if kept_leaves opts t = [] then [(nextPanelId t, emptyView opts)] else kept_leaves opts t)"
proof -
  have dist: "distinct (map fst (visitLeaves t))" using wf by (rule wf_distinct)
  have "fst l \<notin> set gone \<longleftrightarrow> \<not> isEmpty opts (snd l)" if "l \<in> set (visitLeaves t)" for l
    using that distinct_fst_eq [OF dist, of "fst l" _ "snd l"] by (auto simp: gone_def)
  then have "filter (\<lambda>l. fst l \<notin> set gone) (visitLeaves t) = kept_leaves opts t"
    unfolding kept_leaves_def by (intro filter_cong) auto
  moreover have "distinct gone" "set gone \<subseteq> set (leaf_ids t)"
    using dist by (auto simp: gone_def leaf_ids_def distinct_map_filter)
  ultimately show ?thesis using visit_close_all [OF wf] ne by simp
qed

lemma prune_rounds_visit:
  assumes wf: "wf_tree t" and g: "2 \<le> g"
  shows "visitLeaves (prune_rounds opts g t) =
    (if length (visitLeaves t) \<le> 1 then visitLeaves t
     else if kept_leaves opts t = [] then [(nextPanelId t, emptyView opts)]
     else kept_leaves opts t)"
proof -
  define gone where "gone = map fst (filter (\<lambda>l. isEmpty opts (snd l)) (visitLeaves t))"
  obtain h where h: "g = Suc h" using g by (cases g) auto
  show ?thesis
  proof (cases "gone = [] \<or> length (visitLeaves t) \<le> 1")
    case True
    then have "prune_rounds opts g t = t"
      by (intro prune_rounds_done) (auto simp: gone_def)
    moreover have "kept_leaves opts t = visitLeaves t" if "gone = []"
      using that by (auto simp: gone_def kept_leaves_def filter_empty_conv filter_id_conv)
    ultimately show ?thesis
      using True wf_visit_nonempty [OF wf] by auto
  next
    case False
    define u where "u = foldl (closePanel opts) t gone"
    have u: "visitLeaves u =
      (if kept_leaves opts t = [] then [(nextPanelId t, emptyView opts)] else kept_leaves opts t)"
      using visit_prune_round [OF wf] False by (simp add: u_def gone_def)
    then have "prune_rounds opts h u = u"
      by (intro prune_rounds_done) (auto simp: kept_leaves_def filter_empty_conv)
    then have "prune_rounds opts g t = u"
      using False by (simp add: h Let_def u_def gone_def)
    with u False show ?thesis by simp
  qed
qed

section \<open>Layout against exact tiles\<close>

text \<open>
  \<open>tile\<close> lists one rectangle per leaf over the rationals, with no rounding and no overflow.
  \<open>fits\<close> says that no split runs out of room for its splitters.
\<close>

record box =
  box_x :: rat
  box_y :: rat
  box_w :: rat
  box_h :: rat

definition box_start :: "axis \<Rightarrow> box \<Rightarrow> rat" where
  "box_start k r = (if k = Row then box_x r else box_y r)"

definition box_extent :: "axis \<Rightarrow> box \<Rightarrow> rat" where
  "box_extent k r = (if k = Row then box_w r else box_h r)"

definition slice :: "axis \<Rightarrow> box \<Rightarrow> rat \<Rightarrow> rat \<Rightarrow> box" where
  "slice k r off sz =
     (if k = Row then \<lparr>box_x = off, box_y = box_y r, box_w = sz, box_h = box_h r\<rparr>
      else \<lparr>box_x = box_x r, box_y = off, box_w = box_w r, box_h = sz\<rparr>)"

definition room :: "axis \<Rightarrow> box \<Rightarrow> nat \<Rightarrow> rat" where
  "room k r n = box_extent k r - 4 * (of_nat n - 1)"

fun tile :: "'v panel_node \<Rightarrow> box \<Rightarrow> (nat \<times> box) list"
  and tile_children ::
    "axis \<Rightarrow> box \<Rightarrow> rat \<Rightarrow> jsnum list \<Rightarrow> 'v panel_node list \<Rightarrow> rat \<Rightarrow> (nat \<times> box) list" where
  "tile (Leaf i v) r = [(i, r)]"
| "tile (Split k cs qs) r = tile_children k r (room k r (length cs)) qs cs (box_start k r)"
| "tile_children k r av qs [] off = []"
| "tile_children k r av qs (c # cs) off =
     (let size = av * num_of (num_at qs 0)
      in tile c (slice k r off size) @ tile_children k r av (tl qs) cs (off + (size + 4)))"

fun fits :: "'v panel_node \<Rightarrow> box \<Rightarrow> bool"
  and fits_children :: "axis \<Rightarrow> box \<Rightarrow> rat \<Rightarrow> jsnum list \<Rightarrow> 'v panel_node list \<Rightarrow> bool" where
  "fits (Leaf i v) r \<longleftrightarrow> True"
| "fits (Split k cs qs) r \<longleftrightarrow> 0 \<le> room k r (length cs) \<and> fits_children k r (room k r (length cs)) qs cs"
| "fits_children k r av qs [] \<longleftrightarrow> True"
| "fits_children k r av qs (c # cs) \<longleftrightarrow>
     fits c (slice k r 0 (av * num_of (num_at qs 0))) \<and> fits_children k r av (tl qs) cs"

definition inside :: "box \<Rightarrow> box \<Rightarrow> bool" where
  "inside a r \<longleftrightarrow> 0 \<le> box_w a \<and> 0 \<le> box_h a \<and> box_x r \<le> box_x a \<and> box_x a + box_w a \<le> box_x r + box_w r \<and>
     box_y r \<le> box_y a \<and> box_y a + box_h a \<le> box_y r + box_h r"

definition apart :: "box \<Rightarrow> box \<Rightarrow> bool" where
  "apart a b \<longleftrightarrow> box_x a + box_w a + 4 \<le> box_x b \<or> box_y a + box_h a + 4 \<le> box_y b"

lemma fst_tile:
  fixes n :: "'v panel_node" and cs :: "'v panel_node list"
  shows "map fst (tile n r) = map fst (leaves n)"
  and "map fst (tile_children k r av qs cs off) = map fst (concat (map leaves cs))"
  by (induction n r and k r av qs cs off rule: tile_tile_children.induct) (simp_all add: Let_def)

lemma fits_shift:
  fixes n :: "'v panel_node" and cs :: "'v panel_node list"
  shows "fits n r \<Longrightarrow> box_w r' = box_w r \<Longrightarrow> box_h r' = box_h r \<Longrightarrow> fits n r'"
  and fits_children_shift: "fits_children k r av qs cs \<Longrightarrow> box_w r' = box_w r \<Longrightarrow> box_h r' = box_h r \<Longrightarrow>
    fits_children k r' av qs cs"
  by (induction n r and k r av qs cs arbitrary: r' and r' rule: fits_fits_children.induct)
    (auto simp: room_def box_extent_def slice_def split: if_splits)

lemma inside_trans: "inside a b \<Longrightarrow> inside b c \<Longrightarrow> inside a c"
  by (auto simp: inside_def)

lemma ratios_suffix_nonneg: "\<forall>q \<in> set qs. 0 < num_of q \<Longrightarrow> 0 \<le> sum_list (map num_of qs)"
  by (induction qs) auto

text \<open>The stretch that \<open>n\<close> children with these ratios occupy, their splitters included.\<close>

definition stretch :: "rat \<Rightarrow> jsnum list \<Rightarrow> nat \<Rightarrow> rat" where
  "stretch av qs n = av * sum_list (map num_of qs) + 4 * (of_nat n - 1)"

lemma tile_inside_apart:
  fixes n :: "'v panel_node" and cs :: "'v panel_node list"
  shows "wf_node n \<Longrightarrow> fits n r \<Longrightarrow> 0 \<le> box_w r \<Longrightarrow> 0 \<le> box_h r \<Longrightarrow>
     (\<forall>a \<in> set (map snd (tile n r)). inside a r) \<and> sorted_wrt apart (map snd (tile n r))"
    and "(\<forall>c \<in> set cs. wf_node c) \<Longrightarrow> length qs = length cs \<Longrightarrow> (\<forall>q \<in> set qs. 0 < num_of q) \<Longrightarrow>
     0 \<le> av \<Longrightarrow> fits_children k r av qs cs \<Longrightarrow> 0 \<le> box_w r \<Longrightarrow> 0 \<le> box_h r \<Longrightarrow>
     (\<forall>a \<in> set (map snd (tile_children k r av qs cs off)). inside a (slice k r off (stretch av qs (length cs)))) \<and>
     sorted_wrt apart (map snd (tile_children k r av qs cs off))"
proof (induction n r and k r av qs cs off rule: tile_tile_children.induct)
  case (1 i v r)
  then show ?case by (simp add: inside_def)
next
  case (2 k cs qs r)
  have q1: "sum_list (map num_of qs) = 1" and len: "length qs = length cs"
    using 2(2) by (auto simp: ratios_ok_def)
  have "slice k r (box_start k r) (stretch (room k r (length cs)) qs (length cs)) = r"
    by (cases k) (simp_all add: slice_def stretch_def room_def box_start_def box_extent_def q1)
  with 2 show ?case by (auto simp: ratios_ok_def)
next
  case (3 k r av qs off)
  then show ?case by simp
next
  case (4 k r av qs c cs off)
  define sz where "sz = av * num_of (num_at qs 0)"
  from 4(4) obtain q qs' where qs: "qs = q # qs'" by (cases qs) auto
  have sz: "sz = av * num_of q" by (simp add: sz_def qs)
  have q0: "0 < num_of q" "0 \<le> sum_list (map num_of qs')"
    using 4(5) by (auto simp: qs intro: ratios_suffix_nonneg)
  then have sz0: "0 \<le> sz" and tl0: "0 \<le> av * sum_list (map num_of qs')"
    using 4(6) by (auto simp: sz)
  have fc: "fits c (slice k r off sz)"
    using 4(7) by (auto simp: qs sz slice_def intro: fits_shift)
  have box: "0 \<le> box_w (slice k r off sz)" "0 \<le> box_h (slice k r off sz)"
    using 4(8,9) sz0 by (auto simp: slice_def)
  have A: "(\<forall>a \<in> set (map snd (tile c (slice k r off sz))). inside a (slice k r off sz)) \<and>
      sorted_wrt apart (map snd (tile c (slice k r off sz)))"
    using 4(1) [OF sz_def] 4(3) fc box by auto
  have B: "(\<forall>a \<in> set (map snd (tile_children k r av qs' cs (off + (sz + 4)))).
        inside a (slice k r (off + (sz + 4)) (stretch av qs' (length cs)))) \<and>
      sorted_wrt apart (map snd (tile_children k r av qs' cs (off + (sz + 4))))"
    using 4(2) [OF sz_def] 4(3-9) by (auto simp: qs)
  have first: "inside (slice k r off sz) (slice k r off (stretch av qs (Suc (length cs))))"
    using sz0 tl0 4(8,9) by (auto simp: inside_def slice_def stretch_def qs sz distrib_left)
  have rest: "inside a (slice k r off (stretch av qs (Suc (length cs))))"
    if "inside a (slice k r (off + (sz + 4)) (stretch av qs' (length cs)))" for a
    using that sz0 by (auto simp: inside_def slice_def stretch_def qs sz algebra_simps split: if_splits)
  have gap: "apart a b"
    if "inside a (slice k r off sz)" "inside b (slice k r (off + (sz + 4)) w)" for a b w
    using that by (auto simp: inside_def slice_def apart_def split: if_splits)
  have "tile_children k r av qs (c # cs) off =
      tile c (slice k r off sz) @ tile_children k r av qs' cs (off + (sz + 4))"
    by (simp add: qs sz Let_def)
  with A B show ?case
    by (auto simp: sorted_wrt_append intro: inside_trans [OF _ first] rest gap)
qed

subsection \<open>The computed layout is the exact one\<close>

definition rect_of :: "box \<Rightarrow> rect" where
  "rect_of b = \<lparr>rect_x = Fin (box_x b), rect_y = Fin (box_y b),
                rect_width = Fin (box_w b), rect_height = Fin (box_h b)\<rparr>"

lemma map_apsnd_zip: "map (apsnd f) xs = zip (map fst xs) (map f (map snd xs))"
  by (induction xs) auto

text \<open>Coordinates of this size neither overflow nor come close to it.\<close>

definition on_screen :: "box \<Rightarrow> bool" where
  "on_screen b \<longleftrightarrow> 0 \<le> box_w b \<and> 0 \<le> box_h b \<and> - (10 ^ 100) \<le> box_x b \<and> - (10 ^ 100) \<le> box_y b \<and>
     box_x b + box_w b \<le> 10 ^ 100 \<and> box_y b + box_h b \<le> 10 ^ 100"

lemma js_fin_screen: "\<bar>q\<bar> \<le> 10 ^ 200 \<Longrightarrow> js_fin q = Fin q"
  by (rule js_fin_small) (erule order_trans, simp)

lemma abs_mult_le: "0 \<le> (a::rat) \<Longrightarrow> 0 \<le> q \<Longrightarrow> q \<le> 1 \<Longrightarrow> a \<le> b \<Longrightarrow> \<bar>a * q\<bar> \<le> b"
  using mult_left_le [of q a] by (simp add: abs_mult)

lemma inside_on_screen: "inside a r \<Longrightarrow> on_screen r \<Longrightarrow> on_screen a"
  by (auto simp: inside_def on_screen_def)

lemma rect_of_slice:
  "(if k = Row
    then \<lparr>rect_x = Fin off, rect_y = rect_y (rect_of r), rect_width = Fin sz, rect_height = rect_height (rect_of r)\<rparr>
    else \<lparr>rect_x = rect_x (rect_of r), rect_y = Fin off, rect_width = rect_width (rect_of r), rect_height = Fin sz\<rparr>)
   = rect_of (slice k r off sz)"
  by (simp add: rect_of_def slice_def)

lemma map_set_fresh: "k \<notin> fst ` set m \<Longrightarrow> map_set k v m = m @ [(k, v)]"
  by (induction m) auto

lemma available_room:
  assumes "on_screen r" "0 \<le> room k r n" "1 \<le> n"
  shows "js_sub (Fin (box_extent k r)) (js_mul SPLITTER (js_sub (Fin (of_nat n)) (Fin 1))) = Fin (room k r n)"
proof -
  have e: "box_extent k r \<le> 2 * 10 ^ 100"
    using assms(1) by (auto simp: on_screen_def box_extent_def)
  have n: "(1::rat) \<le> of_nat n" using assms(3) by simp
  then have "\<bar>(of_nat n :: rat) - 1\<bar> \<le> 10 ^ 200" "\<bar>4 * ((of_nat n :: rat) - 1)\<bar> \<le> 10 ^ 200"
    "\<bar>room k r n\<bar> \<le> 10 ^ 200"
    using e assms(2) by (auto simp: room_def abs_le_iff)
  then show ?thesis
    by (simp add: js_sub_def SPLITTER_def js_fin_screen room_def)
qed

lemma layout_tile:
  fixes n :: "'v panel_node" and cs :: "'v panel_node list"
  shows "wf_node n \<Longrightarrow> fits n r \<Longrightarrow> on_screen r \<Longrightarrow> distinct (map fst m @ map fst (leaves n)) \<Longrightarrow>
     layoutNode n (rect_of r) m = m @ map (apsnd rect_of) (tile n r)"
    and "qs = drop i rs \<Longrightarrow> length qs = length cs \<Longrightarrow>
     (\<forall>q \<in> set qs. is_finite q \<and> 0 < num_of q \<and> num_of q \<le> 1) \<Longrightarrow>
     (\<forall>c \<in> set cs. wf_node c) \<Longrightarrow> fits_children k r av qs cs \<Longrightarrow> on_screen r \<Longrightarrow> 0 \<le> av \<Longrightarrow>
     av \<le> box_extent k r \<Longrightarrow> box_start k r \<le> off \<Longrightarrow>
     (cs \<noteq> [] \<longrightarrow> off + stretch av qs (length cs) \<le> box_start k r + box_extent k r) \<Longrightarrow>
     distinct (map fst m @ map fst (concat (map leaves cs))) \<Longrightarrow>
     layoutChildren k (rect_of r) (Fin av) rs i cs (Fin off) m =
       m @ map (apsnd rect_of) (tile_children k r av qs cs off)"
proof (induction n r and k r av qs cs off arbitrary: m and i rs m rule: tile_tile_children.induct)
  case (1 i v r)
  then show ?case by (simp add: map_set_fresh)
next
  case (2 k cs qs r)
  then have q1: "sum_list (map num_of qs) = 1" and len: "length qs = length cs"
    and pos: "\<forall>q \<in> set qs. is_finite q \<and> 0 < num_of q" and n: "1 \<le> length cs"
    and room: "0 \<le> room k r (length cs)"
    by (auto simp: ratios_ok_def)
  have le1: "\<forall>q \<in> set qs. num_of q \<le> 1"
    using num_of_member_le_sum [of qs] pos q1 by auto
  have start: "(if k = Row then rect_x (rect_of r) else rect_y (rect_of r)) = Fin (box_start k r)"
    and total: "(if k = Row then rect_width (rect_of r) else rect_height (rect_of r)) = Fin (box_extent k r)"
    by (simp_all add: rect_of_def box_start_def box_extent_def)
  have av: "room k r (length cs) \<le> box_extent k r"
    using n by (simp add: room_def)
  have fill: "box_start k r + stretch (room k r (length cs)) qs (length cs) \<le> box_start k r + box_extent k r"
    by (simp add: stretch_def q1 room_def)
  have "layoutChildren k (rect_of r) (Fin (room k r (length cs))) qs 0 cs (Fin (box_start k r)) m =
      m @ map (apsnd rect_of) (tile_children k r (room k r (length cs)) qs cs (box_start k r))"
    by (rule 2(1)) (use 2(2-) len pos le1 room av fill in auto)
  then show ?case
    using start total available_room [OF 2(4) room n] by (simp add: Let_def)
next
  case (3 k r av qs off)
  then show ?case by simp
next
  case (4 k r av qs c cs off)
  define sz where "sz = av * num_of (num_at qs 0)"
  from 4(4) obtain q qs' where qs: "qs = q # qs'" by (cases qs) auto
  have i: "i < length rs"
    using 4(3) qs by (cases "i < length rs") auto
  then have drop: "rs ! i = q" "qs' = drop (Suc i) rs"
    using 4(3) qs by (simp_all add: Cons_nth_drop_Suc [symmetric])
  obtain a where a: "q = Fin a" "0 < a" "a \<le> 1"
    using 4(5) by (auto simp: qs is_finite_iff)
  then have sz: "sz = av * a" and sz0: "0 \<le> sz" "sz \<le> av"
    using 4(9) by (auto simp: sz_def qs mult_left_le)
  have tl0: "0 \<le> av * sum_list (map num_of qs')"
    using 4(5,9) by (auto simp: qs intro!: mult_nonneg_nonneg ratios_suffix_nonneg)
  have scr: "- (10 ^ 100) \<le> box_start k r" "box_start k r + box_extent k r \<le> 10 ^ 100"
    "0 \<le> box_extent k r" "box_extent k r \<le> 2 * 10 ^ 100"
    using 4(8) by (auto simp: on_screen_def box_start_def box_extent_def)
  have fill: "off + sz + av * sum_list (map num_of qs') + 4 * of_nat (length cs) \<le> box_start k r + box_extent k r"
    using 4(12) by (simp add: stretch_def qs sz a distrib_left)
  have size: "js_mul (Fin av) (num_at rs i) = Fin sz"
    using i drop a sz0 scr 4(10) by (simp add: sz [symmetric] js_fin_screen abs_le_iff)
  have step: "js_add (Fin off) (js_add (Fin sz) SPLITTER) = Fin (off + (sz + 4))"
    using sz0 scr 4(10,11) fill tl0 by (simp add: SPLITTER_def js_fin_screen abs_le_iff)
  have "inside (slice k r off sz) r"
    using sz0 4(8,11) fill tl0
    by (auto simp: inside_def slice_def on_screen_def box_start_def box_extent_def split: if_splits)
  then have scr': "on_screen (slice k r off sz)" using 4(8) by (rule inside_on_screen)
  have fc: "fits c (slice k r off sz)"
    using 4(7) by (auto simp: qs sz a slice_def intro: fits_shift)
  have ids: "distinct (map fst m @ map fst (leaves c))" using 4(13) by auto
  have A: "layoutNode c (rect_of (slice k r off sz)) m = m @ map (apsnd rect_of) (tile c (slice k r off sz))"
    using 4(1) [OF sz_def _ fc scr', of m] 4(6) ids by simp
  define m' where "m' = m @ map (apsnd rect_of) (tile c (slice k r off sz))"
  have keys: "map fst m' = map fst m @ map fst (leaves c)"
    by (simp add: m'_def comp_def fst_tile)
  have B: "layoutChildren k (rect_of r) (Fin av) rs (Suc i) cs (Fin (off + (sz + 4))) m' =
      m' @ map (apsnd rect_of) (tile_children k r av (tl qs) cs (off + (sz + 4)))"
  proof (rule 4(2) [OF sz_def])
    show "cs \<noteq> [] \<longrightarrow> off + (sz + 4) + stretch av (tl qs) (length cs) \<le> box_start k r + box_extent k r"
      using fill by (simp add: stretch_def qs)
    show "box_start k r \<le> off + (sz + 4)" using 4(11) sz0 by simp
  qed (use 4(4-10,13) drop keys in \<open>auto simp: qs\<close>)
  have "layoutChildren k (rect_of r) (Fin av) rs i (c # cs) (Fin off) m =
      layoutChildren k (rect_of r) (Fin av) rs (Suc i) cs (Fin (off + (sz + 4)))
        (layoutNode c (rect_of (slice k r off sz)) m)"
    by (simp only: layoutChildren.simps Let_def size step rect_of_slice)
  also have "\<dots> = m @ map (apsnd rect_of) (tile_children k r av qs (c # cs) off)"
    by (simp add: A m'_def [symmetric] B) (simp add: m'_def sz_def Let_def)
  finally show ?case .
qed

section \<open>The contract of the container\<close>

interpretation pt: pane_container visitLeaves wf_tree setView "splitAtEdge opts" "closePanel opts" "emptyView opts"
  for opts :: "'v panel_options"
proof
  fix t t' :: "'v panel_tree" and p q e
  assume *: "wf_tree t" "splitAtEdge opts t p e = (q, t')"
  then show "q \<notin> fst ` set (visitLeaves t)"
    by (auto simp: splitAtEdge_eq tree_defs)
  assume "p \<in> fst ` set (visitLeaves t)"
  then obtain v where "(p, v) \<in> set (visitLeaves t)" by auto
  from visit_split_member [OF *(1) this *(2)] obtain xs ys where
    "visitLeaves t = xs @ (p, v) # ys"
    "visitLeaves t' = xs @ beside e (p, v) (q, emptyView opts) @ ys" .
  then show "mset (visitLeaves t') = add_mset (q, emptyView opts) (mset (visitLeaves t))"
    by (simp add: beside_def)
next
  fix t t' :: "'v panel_tree" and p q e
  assume "wf_tree t" "splitAtEdge opts t p e = (q, t')"
  then show "wf_tree t'" by (rule wf_split)
qed (simp_all add: wf_distinct wf_visit_nonempty wf_setView visit_setView wf_close visit_close)

section \<open>Properties\<close>


text \<open>A row of a pane and a column of two panes, used by the witnesses.\<close>

definition sample_options :: "string panel_options" where
  "sample_options = \<lparr>emptyView = '''', isEmpty = (\<lambda>v. v = '''')\<rparr>"

definition sample_tree :: "string panel_tree" where
  "sample_tree = \<lparr>root = Split Row
     [Leaf 1 ''a'', Split Column [Leaf 2 ''b'', Leaf 3 ''''] [Fin (1/4), Fin (3/4)]]
     [Fin (1/2), Fin (1/2)], nextPanelId = 4\<rparr>"

lemma sample_tree_wf: "wf_tree sample_tree"
  by (simp add: sample_tree_def tree_defs ratios_ok_def)


text \<open>
  splitting a pane that is shown returns a fresh identifier and puts one empty pane next
  to it, after it for the right and bottom edges and before it otherwise; all other panes keep
  their identifier, view and order. Splitting a pane that is not shown changes no pane.
\<close>

theorem splitAtEdge_leaves:
  assumes "wf_tree t" "splitAtEdge opts t p e = (q, t')"
  shows "q \<notin> set (leaf_ids t)
    \<and> (p \<notin> set (leaf_ids t) \<longrightarrow> visitLeaves t' = visitLeaves t)
    \<and> (\<forall>v. (p, v) \<in> set (visitLeaves t) \<longrightarrow>
        (\<exists>xs ys. visitLeaves t = xs @ (p, v) # ys \<and>
          visitLeaves t' = xs @ (if e = EdgeRight \<or> e = EdgeBottom then [(p, v), (q, emptyView opts)]
                                 else [(q, emptyView opts), (p, v)]) @ ys))"
proof (intro conjI allI impI)
  show "q \<notin> set (leaf_ids t)" using pt.open_fresh [OF assms] by (simp add: leaf_ids_def)
  show "visitLeaves t' = visitLeaves t" if "p \<notin> set (leaf_ids t)"
    using visit_split_nonmember [OF that assms(2)] .
  fix v assume "(p, v) \<in> set (visitLeaves t)"
  from visit_split_member [OF assms(1) this assms(2)] obtain xs ys where
    "visitLeaves t = xs @ (p, v) # ys"
    "visitLeaves t' = xs @ beside e (p, v) (q, emptyView opts) @ ys" .
  then show "\<exists>xs ys. visitLeaves t = xs @ (p, v) # ys \<and>
       visitLeaves t' = xs @ (if e = EdgeRight \<or> e = EdgeBottom then [(p, v), (q, emptyView opts)]
                              else [(q, emptyView opts), (p, v)]) @ ys"
    unfolding beside_def edge_after_def by blast
qed

theorem splitAtEdge_leaves_witness:
  "visitLeaves (snd (splitAtEdge sample_options sample_tree 1 EdgeRight)) =
     [(1, ''a''), (4, ''''), (2, ''b''), (3, '''')] \<and> (4::nat) \<notin> set (leaf_ids sample_tree)"
  using splitAtEdge_leaves [OF sample_tree_wf, of sample_options 1 EdgeRight 4]
  by (simp add: sample_tree_def sample_options_def tree_defs splitAtEdge_def allocPanelId_def
      edge_after_def Let_def)

text \<open>
  closing a pane removes exactly that pane and keeps the others in order with their views;
  when it was the only pane, the tree is left with one fresh empty pane.
\<close>

theorem closePanel_leaves:
  assumes "wf_tree t"
  shows "visitLeaves (closePanel opts t p) =
      (if leaf_ids t = [p] then [(nextPanelId t, emptyView opts)]
       else filter (\<lambda>l. fst l \<noteq> p) (visitLeaves t))
    \<and> getView (closePanel opts t p) p = None"
proof -
  let ?rest = "filter (\<lambda>l. fst l \<noteq> p) (visitLeaves t)"
  have rest: "?rest = [] \<longleftrightarrow> leaf_ids t = [p]"
  proof
    assume "?rest = []"
    then have "set (leaf_ids t) \<subseteq> {p}" by (auto simp: leaf_ids_def filter_empty_conv)
    with assms show "leaf_ids t = [p]"
      using wf_visit_nonempty [OF assms]
      by (intro distinct_singleton) (auto simp: leaf_ids_def wf_tree_def)
  qed (auto simp: leaf_ids_def filter_empty_conv)
  moreover have "nextPanelId t \<noteq> p" if "leaf_ids t = [p]"
    using assms that by (auto simp: wf_tree_def)
  ultimately show ?thesis
    by (auto simp: visit_close Let_def getView_def getLeaf_def find_last_None_iff)
qed

theorem closePanel_leaves_witness:
  "visitLeaves (closePanel sample_options sample_tree 2) = [(1, ''a''), (3, '''')]"
  using closePanel_leaves [OF sample_tree_wf, of sample_options 2]
  by (simp add: sample_tree_def tree_defs)

text \<open>
  pruning keeps exactly the panes that show something, in order. A tree with a single pane
  is left alone, and when every one of several panes is empty the tree is left with one fresh
  empty pane. The bound of 64 rounds is never reached.
\<close>

theorem pruneEmptyLeaves_leaves:
  assumes "wf_tree t"
  shows "visitLeaves (pruneEmptyLeaves opts t) =
    (let kept = filter (\<lambda>l. \<not> isEmpty opts (snd l)) (visitLeaves t)
     in if length (visitLeaves t) \<le> 1 then visitLeaves t
        else if kept = [] then [(nextPanelId t, emptyView opts)] else kept)"
  using prune_rounds_visit [OF assms, of 64 opts]
  by (simp add: pruneEmptyLeaves_def kept_leaves_def Let_def)

theorem pruneEmptyLeaves_leaves_witness:
  "visitLeaves (pruneEmptyLeaves sample_options sample_tree) = [(1, ''a''), (2, ''b'')]"
  using pruneEmptyLeaves_leaves [OF sample_tree_wf, of sample_options]
  by (simp add: sample_tree_def sample_options_def tree_defs)

text \<open>
  a tree written to a snapshot is read back unchanged, its next identifier included, as
  long as that identifier is a safe integer.
\<close>

theorem panel_snapshot_roundtrip:
  assumes "wf_tree t" "int (nextPanelId t) \<le> max_safe"
  shows "fromJSON opts (toJSON t) = t"
  unfolding fromJSON_def fromSnapshot_def by (rule applySnapshot_toJSON [OF assms])

theorem panel_snapshot_roundtrip_witness:
  "fromJSON sample_options (toJSON sample_tree) = sample_tree"
  by (rule panel_snapshot_roundtrip [OF sample_tree_wf]) (simp add: sample_tree_def max_safe_def)



end
