(* ===== verification/Mux_Types.thy ===== *)
theory Mux_Types
  imports Prelude
begin

text \<open>
  The vocabulary of the terminal multiplexer, \<^verbatim>\<open>packages/yaade-rpc/src/mux-session.ts\<close>: sessions,
  their tabs (windows) and terminals, the commands a client sends, the events the host
  publishes and the errors it answers with. A branded string is a string; the pattern that its
  schema checks is a predicate. An optional field is an option; numbers the protocol uses as
  revisions, positions and counts are integers. Fields whose schema allows a single literal
  (\<open>kind\<close>) carry nothing and are left out, as are the opaque payloads \<open>details\<close> and \<open>cause\<close> of
  two errors.
\<close>

section \<open>Identifiers\<close>

text \<open>The character class of the patterns: letters, digits, underscore and hyphen.\<close>

definition id_char :: "char \<Rightarrow> bool" where
  "id_char c = (let n = (of_char c :: nat)
     in (65 \<le> n \<and> n \<le> 90) \<or> (97 \<le> n \<and> n \<le> 122) \<or> (48 \<le> n \<and> n \<le> 57) \<or> n = 95 \<or> n = 45)"

definition matches_prefix :: "string \<Rightarrow> string \<Rightarrow> bool" where
  "matches_prefix prefix s \<longleftrightarrow>
     take (length prefix) s = prefix \<and> drop (length prefix) s \<noteq> [] \<and>
     list_all id_char (drop (length prefix) s)"

definition SessionId :: "string \<Rightarrow> bool" where
  "SessionId s = matches_prefix ''ses-'' s"

definition MuxTerminalId :: "string \<Rightarrow> bool" where
  "MuxTerminalId s = matches_prefix ''term-'' s"

definition SessionTabId :: "string \<Rightarrow> bool" where
  "SessionTabId s = matches_prefix ''tab-'' s"

type_synonym session_id = string
type_synonym tab_id = string
type_synonym terminal_id = string

section \<open>Terminals\<close>

datatype terminal_status =
    StatusCreated | StatusStarting | StatusRunning | StatusWaiting | StatusSucceeded
  | StatusFailed | StatusCancelled | StatusDisconnected

datatype terminal_input = TerminalInput "string list option"

datatype process_state =
    ProcStarting | ProcRunning | ProcExited | ProcFailed | ProcDisconnected
  | ProcInterrupted | ProcRestoring | ProcOrphaned

datatype activity_state =
    ActStarting | ActWorking | ActRunningCommand | ActWaitingForInput | ActIdle | ActFailed

record process_identity =
  pid :: int
  platform :: string
  bootId :: "string option"
  startToken :: string
  executablePath :: "string option"

record terminal_output =
  terminalInstanceId :: string
  ptyId :: "string option"
  historyId :: "string option"
  processIdentity :: "process_identity option"
  output_generation :: int
  processState :: process_state
  activityState :: activity_state
  replayAvailable :: bool
  exitCode :: "int option"
  truncated :: bool

record app_session =
  ses_id :: session_id
  ses_title :: string
  ses_position :: int
  ses_activeTabId :: "tab_id option"
  ses_activeMuxTerminalId :: "terminal_id option"
  ses_revision :: "int option"
  ses_createdAt :: string
  ses_updatedAt :: string
  ses_archivedAt :: "string option"

record session_tab =
  tab_id :: tab_id
  tab_sessionId :: session_id
  tab_title :: string
  tab_position :: int
  tab_activeMuxTerminalId :: "terminal_id option"
  tab_layoutJson :: "string option"
  tab_revision :: "int option"
  tab_createdAt :: string
  tab_updatedAt :: string
  tab_archivedAt :: "string option"

record mux_terminal =
  term_id :: terminal_id
  term_sessionId :: session_id
  term_tabId :: "tab_id option"
  term_title :: string
  term_position :: int
  term_status :: terminal_status
  term_input :: terminal_input
  term_inputRevision :: int
  term_output :: terminal_output
  term_error :: "string option"
  term_revision :: int
  term_createdAt :: string
  term_updatedAt :: string
  term_startedAt :: "string option"
  term_finishedAt :: "string option"
  term_archivedAt :: "string option"

section \<open>Commands\<close>

datatype archive_mode = KeepRunning | StopTerminals

text \<open>\<open>SaveSessionTabLayout\<close> bounds the length of its layout.\<close>

definition max_layout_length :: nat where
  "max_layout_length = 65536"

datatype mux_command =
    CreateSession "string option"
  | RenameSession session_id string
  | CreateSessionTab session_id "string option"
  | RenameSessionTab tab_id string
  | SaveSessionTabLayout tab_id string "int option"
  | ReorderSessionTabs session_id "tab_id list"
  | ArchiveSessionTab tab_id archive_mode
  | SelectSessionTab session_id "tab_id option"
  | ReorderSessions "session_id list"
  | ArchiveSession session_id archive_mode
  | RestoreSession session_id
  | CreateTerminal session_id "tab_id option" "string option" terminal_input
  | ReorderTerminals session_id "tab_id option" "terminal_id list"
  | MoveTerminalToTab terminal_id tab_id
  | StopTerminal terminal_id int
  | RestartTerminal terminal_id int
  | CloseTerminal terminal_id
  | SelectSessionTerminal session_id "terminal_id option"
  | ListSessions "bool option"
  | GetSession session_id
  | GetTerminal terminal_id

text \<open>What the schema of a command checks beyond its shape.\<close>

fun opt_all :: "('a \<Rightarrow> bool) \<Rightarrow> 'a option \<Rightarrow> bool" where
  "opt_all p None = True"
| "opt_all p (Some x) = p x"

fun command_ok :: "mux_command \<Rightarrow> bool" where
  "command_ok (CreateSession t) = True"
| "command_ok (RenameSession s t) = SessionId s"
| "command_ok (CreateSessionTab s t) = SessionId s"
| "command_ok (RenameSessionTab t n) = SessionTabId t"
| "command_ok (SaveSessionTabLayout t l r) = (SessionTabId t \<and> length l \<le> max_layout_length)"
| "command_ok (ReorderSessionTabs s ts) = (SessionId s \<and> list_all SessionTabId ts)"
| "command_ok (ArchiveSessionTab t m) = SessionTabId t"
| "command_ok (SelectSessionTab s t) = (SessionId s \<and> opt_all SessionTabId t)"
| "command_ok (ReorderSessions ss) = list_all SessionId ss"
| "command_ok (ArchiveSession s m) = SessionId s"
| "command_ok (RestoreSession s) = SessionId s"
| "command_ok (CreateTerminal s t n i) = (SessionId s \<and> opt_all SessionTabId t)"
| "command_ok (ReorderTerminals s t is) = (SessionId s \<and> opt_all SessionTabId t \<and> list_all MuxTerminalId is)"
| "command_ok (MoveTerminalToTab i t) = (MuxTerminalId i \<and> SessionTabId t)"
| "command_ok (StopTerminal i r) = MuxTerminalId i"
| "command_ok (RestartTerminal i r) = MuxTerminalId i"
| "command_ok (CloseTerminal i) = MuxTerminalId i"
| "command_ok (SelectSessionTerminal s i) = (SessionId s \<and> opt_all MuxTerminalId i)"
| "command_ok (ListSessions b) = True"
| "command_ok (GetSession s) = SessionId s"
| "command_ok (GetTerminal i) = MuxTerminalId i"

section \<open>Events\<close>

record event_base =
  eventId :: string
  ev_revision :: int
  occurredAt :: string

datatype mux_event =
    SessionCreated event_base app_session
  | SessionUpdated event_base app_session
  | SessionArchived event_base app_session
  | SessionRestored event_base app_session
  | SessionTabCreated event_base session_tab
  | SessionTabUpdated event_base session_tab
  | SessionTabArchived event_base session_tab
  | MuxTerminalCreated event_base terminal_id mux_terminal
  | MuxTerminalUpdated event_base terminal_id mux_terminal
  | TerminalOutputChanged event_base terminal_id terminal_output
  | MuxTerminalArchived event_base terminal_id

fun event_base_of :: "mux_event \<Rightarrow> event_base" where
  "event_base_of (SessionCreated b _) = b"
| "event_base_of (SessionUpdated b _) = b"
| "event_base_of (SessionArchived b _) = b"
| "event_base_of (SessionRestored b _) = b"
| "event_base_of (SessionTabCreated b _) = b"
| "event_base_of (SessionTabUpdated b _) = b"
| "event_base_of (SessionTabArchived b _) = b"
| "event_base_of (MuxTerminalCreated b _ _) = b"
| "event_base_of (MuxTerminalUpdated b _ _) = b"
| "event_base_of (TerminalOutputChanged b _ _) = b"
| "event_base_of (MuxTerminalArchived b _) = b"

section \<open>Errors\<close>

datatype mux_session_error =
    SessionNotFound session_id string
  | SessionTabNotFound tab_id string
  | SessionTabConflict tab_id int int string
  | TerminalNotFound terminal_id string
  | InvalidTerminalInput string
  | InvalidMuxCommand string
  | TerminalConflict terminal_id int int string
  | TerminalRuntimeFailure terminal_id string

datatype error_code = NOT_FOUND | CONFLICT | OPERATION_FAILED

fun code_of :: "mux_session_error \<Rightarrow> error_code" where
  "code_of (SessionTabNotFound _ _) = NOT_FOUND"
| "code_of (SessionTabConflict _ _ _ _) = CONFLICT"
| "code_of (SessionNotFound _ _) = NOT_FOUND"
| "code_of (TerminalNotFound _ _) = NOT_FOUND"
| "code_of (InvalidTerminalInput _) = OPERATION_FAILED"
| "code_of (InvalidMuxCommand _) = OPERATION_FAILED"
| "code_of (TerminalConflict _ _ _ _) = CONFLICT"
| "code_of (TerminalRuntimeFailure _ _) = OPERATION_FAILED"

lemma matches_prefix_nth: "matches_prefix p s \<Longrightarrow> i < length p \<Longrightarrow> s ! i = p ! i"
  unfolding matches_prefix_def by (metis nth_take)

lemma matches_prefix_nonempty: "matches_prefix p s \<Longrightarrow> s \<noteq> []"
  by (auto simp: matches_prefix_def)

lemma matches_prefix_common:
  "matches_prefix p s \<Longrightarrow> matches_prefix q s \<Longrightarrow> i < length p \<Longrightarrow> i < length q \<Longrightarrow> p ! i = q ! i"
  by (metis matches_prefix_nth)

lemma prefixes_disjoint:
  "SessionId s \<Longrightarrow> \<not> MuxTerminalId s" "SessionId s \<Longrightarrow> \<not> SessionTabId s" "MuxTerminalId s \<Longrightarrow> \<not> SessionTabId s"
  using matches_prefix_common [of "''ses-''" s "''term-''" 0] matches_prefix_common [of "''ses-''" s "''tab-''" 0]
    matches_prefix_common [of "''term-''" s "''tab-''" 1]
  by (auto simp: SessionId_def MuxTerminalId_def SessionTabId_def)

end
