(* ===== verification/Terminal_Tiling.thy ===== *)
theory Terminal_Tiling
  imports Panel_Tree Mux_Types
begin

text \<open>
  Windows of terminal panes, \<^verbatim>\<open>packages/yaade-app/src/mux/terminal-tiling.ts\<close>: a layout tree whose
  leaves are empty or show one terminal, the focused pane and the zoomed pane. Every exported
  operation returns a new workspace, or the very object it was given when there is nothing to
  do; the operations whose caller compares the two are modelled by an option (\<open>None\<close>: the same
  object). \<open>JSON\<close> and the schema library are parameters: \<open>stringify\<close> writes a persisted value and
  \<open>decode\<close> reads one that fits the schema.
\<close>

section \<open>Data\<close>

datatype pane_view = EmptyPane | TerminalPane terminal_id

type_synonym pane_tree = "pane_view panel_tree"

record workspace =
  ws_tree :: pane_tree
  focusedPanelId :: nat
  zoomedPanelId :: "nat option"

datatype drop_action = MoveToPane "nat option" | SplitAt edge | InsertAtBoundary "nat list" nat

definition MAX_TERMINAL_TILES :: nat where
  "MAX_TERMINAL_TILES = 6"

definition TERMINAL_PANE_OPTIONS :: "pane_view panel_options" where
  "TERMINAL_PANE_OPTIONS = \<lparr>emptyView = EmptyPane, isEmpty = (\<lambda>v. v = EmptyPane)\<rparr>"

section \<open>Operations\<close>

text \<open>\<open>firstPanel\<close> allocates an identifier when the tree has no leaf, so it returns the tree too.\<close>

definition firstPanel :: "pane_tree \<Rightarrow> nat \<times> pane_tree" where
  "firstPanel t =
     (case root t of
        Leaf i v \<Rightarrow> (i, t)
      | Split _ _ _ \<Rightarrow> (case visitLeaves t of l # _ \<Rightarrow> (fst l, t) | [] \<Rightarrow> allocPanelId t))"

definition panelExists :: "pane_tree \<Rightarrow> nat \<Rightarrow> bool" where
  "panelExists t p \<longleftrightarrow> getLeaf t p \<noteq> None"

definition terminalPaneCount :: "workspace \<Rightarrow> nat" where
  "terminalPaneCount w = length (visitLeaves (ws_tree w))"

definition resolvedFocus :: "pane_tree \<Rightarrow> nat \<Rightarrow> nat \<times> pane_tree" where
  "resolvedFocus t preferred = (if panelExists t preferred then (preferred, t) else firstPanel t)"

definition findTerminalPanel :: "pane_tree \<Rightarrow> terminal_id \<Rightarrow> nat option" where
  "findTerminalPanel t i = findPanelWithView t (\<lambda>v. v = TerminalPane i)"

definition removeTerminalPanel :: "pane_tree \<Rightarrow> nat \<Rightarrow> pane_tree" where
  "removeTerminalPanel t p =
     (if getLeaf t p = None then t
      else if length (visitLeaves t) = 1 then setView t p EmptyPane
      else closePanel TERMINAL_PANE_OPTIONS t p)"

definition createTerminalWorkspace :: workspace where
  "createTerminalWorkspace =
     (let (f, t) = firstPanel (new_tree TERMINAL_PANE_OPTIONS None)
      in \<lparr>ws_tree = t, focusedPanelId = f, zoomedPanelId = None\<rparr>)"

definition focus_opt :: "workspace \<Rightarrow> nat \<Rightarrow> workspace option" where
  "focus_opt w p =
     (if \<not> panelExists (ws_tree w) p then None
      else if focusedPanelId w = p \<and> zoomedPanelId w = None then None
      else Some (w\<lparr>focusedPanelId := p, zoomedPanelId := None\<rparr>))"

definition same_unless :: "workspace \<Rightarrow> workspace option \<Rightarrow> workspace" where
  "same_unless w r = (case r of None \<Rightarrow> w | Some w' \<Rightarrow> w')"

definition focusTerminalPanel :: "workspace \<Rightarrow> nat \<Rightarrow> workspace" where
  "focusTerminalPanel w p = same_unless w (focus_opt w p)"

text \<open>A pane split off at an edge that shows a terminal and takes the focus.\<close>

definition split_with :: "pane_tree \<Rightarrow> nat \<Rightarrow> edge \<Rightarrow> terminal_id \<Rightarrow> workspace" where
  "split_with t target e i =
     (let (created, t1) = splitAtEdge TERMINAL_PANE_OPTIONS t target e
      in \<lparr>ws_tree = setView t1 created (TerminalPane i), focusedPanelId = created, zoomedPanelId = None\<rparr>)"

definition open_opt :: "workspace \<Rightarrow> terminal_id \<Rightarrow> workspace option" where
  "open_opt w i =
     (case findTerminalPanel (ws_tree w) i of
        Some existing \<Rightarrow> focus_opt w existing
      | None \<Rightarrow>
          (let (target, t) = resolvedFocus (clone (ws_tree w)) (focusedPanelId w);
               targetView = getView t target
           in if targetView = None \<or> targetView = Some EmptyPane
              then Some \<lparr>ws_tree = setView t target (TerminalPane i),
                         focusedPanelId = target, zoomedPanelId = None\<rparr>
              else if MAX_TERMINAL_TILES \<le> terminalPaneCount w then None
              else Some (split_with t target EdgeRight i)))"

definition openTerminalView :: "workspace \<Rightarrow> terminal_id \<Rightarrow> workspace" where
  "openTerminalView w i = same_unless w (open_opt w i)"

definition openTerminalViewInPanel :: "workspace \<Rightarrow> nat \<Rightarrow> terminal_id \<Rightarrow> workspace" where
  "openTerminalViewInPanel w p i =
     (case findTerminalPanel (ws_tree w) i of
        Some existing \<Rightarrow> focusTerminalPanel w existing
      | None \<Rightarrow>
          if \<not> panelExists (ws_tree w) p then openTerminalView w i
          else if getView (ws_tree w) p \<noteq> Some EmptyPane then openTerminalView w i
          else \<lparr>ws_tree = setView (clone (ws_tree w)) p (TerminalPane i),
                focusedPanelId = p, zoomedPanelId = None\<rparr>)"

definition activateTerminalTab :: "workspace \<Rightarrow> nat \<Rightarrow> terminal_id \<Rightarrow> workspace" where
  "activateTerminalTab w p i =
     (if getView (ws_tree w) p \<noteq> Some (TerminalPane i) then w else focusTerminalPanel w p)"

definition reorderTerminalTabs :: "workspace \<Rightarrow> nat \<Rightarrow> terminal_id \<Rightarrow> nat \<Rightarrow> workspace" where
  "reorderTerminalTabs w p i to = w"

definition splitTerminalPanel :: "workspace \<Rightarrow> nat \<Rightarrow> edge \<Rightarrow> workspace" where
  "splitTerminalPanel w p e =
     (if \<not> panelExists (ws_tree w) p then w
      else if MAX_TERMINAL_TILES \<le> terminalPaneCount w then w
      else (let (created, t) = splitAtEdge TERMINAL_PANE_OPTIONS (clone (ws_tree w)) p e
            in \<lparr>ws_tree = t, focusedPanelId = created, zoomedPanelId = None\<rparr>))"

definition toggleTerminalPanelZoom :: "workspace \<Rightarrow> nat \<Rightarrow> workspace" where
  "toggleTerminalPanelZoom w p =
     (if \<not> panelExists (ws_tree w) p \<or> terminalPaneCount w < 2 then w
      else w\<lparr>focusedPanelId := p, zoomedPanelId := (if zoomedPanelId w = Some p then None else Some p)\<rparr>)"

definition closeTerminalPanel :: "workspace \<Rightarrow> nat \<Rightarrow> workspace" where
  "closeTerminalPanel w p =
     (if \<not> panelExists (ws_tree w) p then w
      else (let t = removeTerminalPanel (clone (ws_tree w)) p;
                (f, t1) = resolvedFocus t (focusedPanelId w)
            in \<lparr>ws_tree = t1, focusedPanelId = f,
                zoomedPanelId = (if zoomedPanelId w = Some p then None else zoomedPanelId w)\<rparr>))"

definition closeTerminalTab :: "workspace \<Rightarrow> nat \<Rightarrow> terminal_id \<Rightarrow> workspace" where
  "closeTerminalTab w p i =
     (if getView (ws_tree w) p \<noteq> Some (TerminalPane i) then w else closeTerminalPanel w p)"

definition resizeTerminalSplit :: "workspace \<Rightarrow> nat list \<Rightarrow> jsnum list \<Rightarrow> workspace" where
  "resizeTerminalSplit w path ratios =
     (let (t, changed) = setSplitRatios (clone (ws_tree w)) path ratios
      in if \<not> changed then w else w\<lparr>ws_tree := t\<rparr>)"

definition is_terminal :: "pane_view option \<Rightarrow> bool" where
  "is_terminal v = (case v of Some (TerminalPane _) \<Rightarrow> True | _ \<Rightarrow> False)"

definition dockTerminalView :: "workspace \<Rightarrow> terminal_id \<Rightarrow> nat \<Rightarrow> drop_action \<Rightarrow> workspace" where
  "dockTerminalView w i target action =
     (if \<not> panelExists (ws_tree w) target then w
      else
        let source = findTerminalPanel (ws_tree w) i;
            t = clone (ws_tree w);
            targetView = getView t target;
            full = (MAX_TERMINAL_TILES \<le> terminalPaneCount w);
            center =
              (case source of
                 Some s \<Rightarrow>
                   (let sourceView = getView t s;
                        t' = (if is_terminal targetView \<and> is_terminal sourceView
                              then setView (setView t s (the targetView)) target (the sourceView)
                              else removeTerminalPanel (setView t target (TerminalPane i)) s)
                    in \<lparr>ws_tree = t', focusedPanelId = target, zoomedPanelId = None\<rparr>)
               | None \<Rightarrow>
                   if targetView = Some EmptyPane
                   then \<lparr>ws_tree = setView t target (TerminalPane i),
                         focusedPanelId = target, zoomedPanelId = None\<rparr>
                   else if full then w
                   else split_with t target EdgeRight i)
        in if source = Some target then focusTerminalPanel w target
           else
             (case action of
                SplitAt e \<Rightarrow>
                  if e \<noteq> EdgeCenter
                  then if source = None \<and> full then w
                       else (let t1 = (case source of Some s \<Rightarrow> removeTerminalPanel t s | None \<Rightarrow> t)
                             in if \<not> panelExists t1 target then w else split_with t1 target e i)
                  else center
              | _ \<Rightarrow> center))"

definition missing_entry :: "terminal_id set \<Rightarrow> nat \<times> pane_view \<Rightarrow> (nat \<times> terminal_id) option" where
  "missing_entry live l =
     (case snd l of
        TerminalPane i \<Rightarrow> if i \<in> live then None else Some (fst l, i)
      | EmptyPane \<Rightarrow> None)"

definition missing_panes :: "workspace \<Rightarrow> terminal_id set \<Rightarrow> (nat \<times> terminal_id) list" where
  "missing_panes w live = somes (map (missing_entry live) (visitLeaves (ws_tree w)))"

definition removeMissingTerminalViews :: "workspace \<Rightarrow> terminal_id set \<Rightarrow> workspace" where
  "removeMissingTerminalViews w live =
     foldl (\<lambda>n item. closeTerminalTab n (fst item) (snd item)) w (missing_panes w live)"

definition view_terminal :: "pane_view \<Rightarrow> terminal_id option" where
  "view_terminal v = (case v of TerminalPane i \<Rightarrow> Some i | EmptyPane \<Rightarrow> None)"

definition terminalIdsInWorkspace :: "workspace \<Rightarrow> terminal_id list" where
  "terminalIdsInWorkspace w = somes (map (\<lambda>l. view_terminal (snd l)) (visitLeaves (ws_tree w)))"

section \<open>Persistence\<close>

datatype persisted_node =
    PLeaf nat pane_view
  | PSplit axis "persisted_node list" "jsnum list"

record persisted_workspace =
  p_root :: persisted_node
  p_next :: jsnum
  p_focused :: nat
  p_zoomed :: "nat option"

text \<open>What a value accepted by the schema satisfies.\<close>

definition PositiveInteger :: "jsnum \<Rightarrow> bool" where
  "PositiveInteger x \<longleftrightarrow> is_safe_integer x \<and> 0 < num_of x"

definition PositiveRatio :: "jsnum \<Rightarrow> bool" where
  "PositiveRatio x \<longleftrightarrow> is_finite x \<and> 0 < num_of x"

definition positive_id :: "nat \<Rightarrow> bool" where
  "positive_id i = PositiveInteger (Fin (of_nat i))"

fun PersistedPaneViewSchema :: "pane_view \<Rightarrow> bool" where
  "PersistedPaneViewSchema EmptyPane \<longleftrightarrow> True"
| "PersistedPaneViewSchema (TerminalPane i) \<longleftrightarrow> MuxTerminalId i"

fun PersistedPanelNodeSchema :: "persisted_node \<Rightarrow> bool" where
  "PersistedPanelNodeSchema (PLeaf i v) \<longleftrightarrow> positive_id i \<and> PersistedPaneViewSchema v"
| "PersistedPanelNodeSchema (PSplit k cs rs) \<longleftrightarrow>
     2 \<le> length cs \<and> 2 \<le> length rs \<and> list_all PositiveRatio rs \<and> list_all PersistedPanelNodeSchema cs"

definition PersistedTerminalWorkspaceSchema :: "persisted_workspace \<Rightarrow> bool" where
  "PersistedTerminalWorkspaceSchema p \<longleftrightarrow>
     PersistedPanelNodeSchema (p_root p) \<and> PositiveInteger (p_next p) \<and>
     positive_id (p_focused p) \<and> (case p_zoomed p of None \<Rightarrow> True | Some z \<Rightarrow> positive_id z)"

text \<open>The children are read one by one; the first failure ends the loop.\<close>

fun all_some :: "'a option list \<Rightarrow> 'a list option" where
  "all_some [] = Some []"
| "all_some (None # xs) = None"
| "all_some (Some x # xs) = map_option ((#) x) (all_some xs)"

fun runtimePanelNode :: "persisted_node \<Rightarrow> pane_view panel_node option" where
  "runtimePanelNode (PLeaf i v) = Some (Leaf i v)"
| "runtimePanelNode (PSplit k cs rs) =
     (if length cs \<noteq> length rs then None
      else let ratioSum = js_sum rs
           in if \<not> is_finite ratioSum \<or> num_of ratioSum \<le> 0 then None
              else (case all_some (map runtimePanelNode cs) of
                      None \<Rightarrow> None
                    | Some children \<Rightarrow> Some (Split k children (map (\<lambda>r. js_div r ratioSum) rs))))"

text \<open>\<open>decode\<close> stands for \<open>Schema.decodeUnknownSync\<close> after \<open>JSON.parse\<close>; \<open>None\<close> is an exception.\<close>

definition parseTerminalWorkspace ::
  "(string \<Rightarrow> persisted_workspace option) \<Rightarrow> string option \<Rightarrow> workspace option" where
  "parseTerminalWorkspace decode layoutJson =
     (case layoutJson of
        None \<Rightarrow> None
      | Some s \<Rightarrow>
          if s = '''' then None
          else (case decode s of
                  None \<Rightarrow> None
                | Some p \<Rightarrow>
                    (case runtimePanelNode (p_root p) of
                       None \<Rightarrow> None
                     | Some r \<Rightarrow>
                         (let t = fromJSON TERMINAL_PANE_OPTIONS \<lparr>snap_root = r, snap_next = p_next p\<rparr>
                          in if \<not> panelExists t (p_focused p) then None
                             else Some \<lparr>ws_tree = t, focusedPanelId = p_focused p,
                                        zoomedPanelId =
                                          (case p_zoomed p of
                                             None \<Rightarrow> None
                                           | Some z \<Rightarrow> if panelExists t z then Some z else None)\<rparr>))))"

definition cap_victim :: "workspace \<Rightarrow> nat option" where
  "cap_victim w =
     (let ids = leaf_ids (ws_tree w)
      in case find (\<lambda>p. getView (ws_tree w) p = Some EmptyPane) ids of
           Some e \<Rightarrow> Some e
         | None \<Rightarrow> if ids = [] then None else Some (last ids))"

lemma getLeaf_None_iff: "getLeaf t p = None \<longleftrightarrow> p \<notin> set (leaf_ids t)"
  by (auto simp: getLeaf_def find_last_None_iff leaf_ids_def)

lemma panelExists_iff [simp]: "panelExists t p \<longleftrightarrow> p \<in> set (leaf_ids t)"
  by (simp add: panelExists_def getLeaf_None_iff)

lemma cap_victim_member: "cap_victim w = Some p \<Longrightarrow> p \<in> set (leaf_ids (ws_tree w))"
  by (auto simp: cap_victim_def Let_def dest: find_Some_D split: option.splits if_splits)

lemma resolvedFocus_tree: "resolvedFocus t p = (f, t') \<Longrightarrow> visitLeaves t' = visitLeaves t"
  by (auto simp: resolvedFocus_def firstPanel_def allocPanelId_def visitLeaves_def
      split: if_splits panel_node.splits list.splits)

lemma count_close_less:
  assumes "p \<in> set (leaf_ids (ws_tree w))" "1 < terminalPaneCount w"
  shows "terminalPaneCount (closeTerminalPanel w p) < terminalPaneCount w"
proof -
  have "length (filter (\<lambda>l. fst l \<noteq> p) (visitLeaves (ws_tree w))) < length (visitLeaves (ws_tree w))"
    using assms(1) by (auto simp: leaf_ids_def intro!: length_filter_less)
  with assms show ?thesis
    by (auto simp: closeTerminalPanel_def removeTerminalPanel_def terminalPaneCount_def getLeaf_None_iff
        Let_def visit_close dest!: resolvedFocus_tree split: prod.split)
qed

function capRestoredTerminalPanes :: "workspace \<Rightarrow> workspace" where
  "capRestoredTerminalPanes w =
     (if terminalPaneCount w \<le> MAX_TERMINAL_TILES then w
      else (case cap_victim w of
              None \<Rightarrow> w
            | Some p \<Rightarrow> capRestoredTerminalPanes (closeTerminalPanel w p)))"
  by pat_completeness auto
termination
  by (relation "measure terminalPaneCount")
    (auto simp: MAX_TERMINAL_TILES_def intro!: count_close_less dest: cap_victim_member)

declare capRestoredTerminalPanes.simps [simp del]

fun open_missing :: "terminal_id set \<Rightarrow> workspace \<Rightarrow> terminal_id list \<Rightarrow> workspace" where
  "open_missing opened w [] = w"
| "open_missing opened w (i # is) =
     (if i \<in> opened then open_missing opened w is
      else (case open_opt w i of
              None \<Rightarrow> w
            | Some w' \<Rightarrow> open_missing (insert i opened) w' is))"

definition restoreTerminalWorkspace ::
  "(string \<Rightarrow> persisted_workspace option) \<Rightarrow> string option \<Rightarrow> terminal_id list \<Rightarrow> workspace" where
  "restoreTerminalWorkspace decode layoutJson live =
     (let w0 = (case parseTerminalWorkspace decode layoutJson of
                  Some w \<Rightarrow> w | None \<Rightarrow> createTerminalWorkspace);
          w1 = capRestoredTerminalPanes (removeMissingTerminalViews w0 (set live))
      in open_missing (set (terminalIdsInWorkspace w1)) w1 live)"

fun persist_node :: "pane_view panel_node \<Rightarrow> persisted_node" where
  "persist_node (Leaf i v) = PLeaf i v"
| "persist_node (Split k cs rs) = PSplit k (map persist_node cs) rs"

definition persist :: "workspace \<Rightarrow> persisted_workspace" where
  "persist w =
     (let s = toJSON (ws_tree w)
      in \<lparr>p_root = persist_node (snap_root s), p_next = snap_next s,
          p_focused = focusedPanelId w, p_zoomed = zoomedPanelId w\<rparr>)"

definition serializeTerminalWorkspace :: "(persisted_workspace \<Rightarrow> string) \<Rightarrow> workspace \<Rightarrow> string" where
  "serializeTerminalWorkspace stringify w = stringify (persist w)"

section \<open>The terminals of a tree\<close>

definition terms_of :: "(nat \<times> pane_view) list \<Rightarrow> terminal_id list" where
  "terms_of ls = somes (map (\<lambda>l. view_terminal (snd l)) ls)"

definition terms_mset :: "(nat \<times> pane_view) multiset \<Rightarrow> terminal_id multiset" where
  "terms_mset M = image_mset the (filter_mset (\<lambda>x. x \<noteq> None) (image_mset (\<lambda>l. view_terminal (snd l)) M))"

lemma mset_terms_of: "mset (terms_of ls) = terms_mset (mset ls)"
  by (simp add: terms_of_def terms_mset_def somes_def)

lemma terms_of_simps [simp]:
  "terms_of [] = []"
  "terms_of ((p, EmptyPane) # ls) = terms_of ls"
  "terms_of ((p, TerminalPane i) # ls) = i # terms_of ls"
  by (simp_all add: terms_of_def view_terminal_def)

lemma terms_of_append [simp]: "terms_of (xs @ ys) = terms_of xs @ terms_of ys"
  by (simp add: terms_of_def somes_def)

lemma terms_mset_add [simp]:
  "terms_mset {#} = {#}"
  "terms_mset (add_mset (p, EmptyPane) M) = terms_mset M"
  "terms_mset (add_mset (p, TerminalPane i) M) = add_mset i (terms_mset M)"
  by (simp_all add: terms_mset_def view_terminal_def)

lemma set_terms_of: "i \<in> set (terms_of ls) \<longleftrightarrow> (\<exists>p. (p, TerminalPane i) \<in> set ls)"
proof (induction ls)
  case (Cons l ls)
  obtain p v where "l = (p, v)" by fastforce
  with Cons show ?case by (cases v) auto
qed simp

lemma terminalIds_terms: "terminalIdsInWorkspace w = terms_of (visitLeaves (ws_tree w))"
  by (simp add: terminalIdsInWorkspace_def terms_of_def)

lemma empty_view [simp]: "emptyView TERMINAL_PANE_OPTIONS = EmptyPane"
  by (simp add: TERMINAL_PANE_OPTIONS_def)

abbreviation pane_mset :: "pane_tree \<Rightarrow> (nat \<times> pane_view) multiset" where
  "pane_mset t \<equiv> mset (visitLeaves t)"

abbreviation terms :: "pane_tree \<Rightarrow> terminal_id list" where
  "terms t \<equiv> terms_of (visitLeaves t)"

text \<open>A leaf is looked up by isolating it in the multiset of leaves.\<close>

lemma pane_isolate:
  assumes "wf_tree t" "(p, v) \<in> set (visitLeaves t)"
  obtains M where "pane_mset t = add_mset (p, v) M" "p \<notin> fst ` set_mset M"
proof -
  from split_list [OF assms(2)] obtain xs ys where ls: "visitLeaves t = xs @ (p, v) # ys" by blast
  with wf_distinct [OF assms(1)] have "p \<notin> fst ` set_mset (mset (xs @ ys))" by auto
  with ls that show ?thesis by simp
qed

lemma image_mset_other:
  "p \<notin> fst ` set_mset M \<Longrightarrow> image_mset (\<lambda>(i, w). (i, if i = p then v else w)) M = M"
  by (induction M) auto

lemma filter_mset_other: "p \<notin> fst ` set_mset M \<Longrightarrow> filter_mset (\<lambda>l. fst l \<noteq> p) M = M"
  by (induction M) auto

lemma mset_setView:
  assumes "pane_mset t = add_mset (p, v) M" "p \<notin> fst ` set_mset M"
  shows "pane_mset (setView t p v') = add_mset (p, v') M"
proof -
  have "pane_mset (setView t p v') = image_mset (\<lambda>(i, w). (i, if i = p then v' else w)) (pane_mset t)"
    by (simp add: visit_setView)
  then show ?thesis by (simp add: assms image_mset_other)
qed

lemma pane_count: "pane_mset t = M \<Longrightarrow> length (visitLeaves t) = size M"
  by auto

lemma mset_removeTerminalPanel:
  assumes "pane_mset t = add_mset (p, v) M" "p \<notin> fst ` set_mset M"
  shows "pane_mset (removeTerminalPanel t p) = (if M = {#} then {#(p, EmptyPane)#} else M)"
proof -
  have "p \<in> set (leaf_ids t)"
    using arg_cong [OF assms(1), of set_mset] by (auto simp: leaf_ids_def image_iff)
  moreover have "length (visitLeaves t) = 1 \<longleftrightarrow> M = {#}"
    by (simp add: pane_count [OF assms(1)])
  moreover have "mset (filter (\<lambda>l. fst l \<noteq> p) (visitLeaves t)) = M"
    using assms by (simp add: filter_mset_other)
  moreover have "filter (\<lambda>l. fst l \<noteq> p) (visitLeaves t) = [] \<longleftrightarrow> M = {#}"
    using calculation(3) by (metis mset_zero_iff)
  ultimately show ?thesis
    using mset_setView [OF assms, of EmptyPane]
    by (simp add: removeTerminalPanel_def getLeaf_None_iff visit_close Let_def del: mset_filter)
qed

lemma wf_removeTerminalPanel: "wf_tree t \<Longrightarrow> wf_tree (removeTerminalPanel t p)"
  by (simp add: removeTerminalPanel_def wf_setView wf_close)

lemma getView_eq:
  assumes "wf_tree t" "(p, v) \<in> set (visitLeaves t)"
  shows "getView t p = Some v"
proof -
  have "getLeaf t p = Some (p, v)"
    unfolding getLeaf_def
    by (rule find_last_unique) (use assms distinct_fst_eq [OF wf_distinct [OF assms(1)]] in auto)
  then show ?thesis by (simp add: getView_def)
qed

lemma getView_SomeD: "getView t p = Some v \<Longrightarrow> (p, v) \<in> set (visitLeaves t)"
  by (auto simp: getView_def getLeaf_def dest!: find_last_Some_D)

lemma getView_iff: "wf_tree t \<Longrightarrow> getView t p = Some v \<longleftrightarrow> (p, v) \<in> set (visitLeaves t)"
  by (auto intro: getView_eq dest: getView_SomeD)

lemma getView_None_iff: "getView t p = None \<longleftrightarrow> p \<notin> set (leaf_ids t)"
  by (simp add: getView_def getLeaf_None_iff)

lemma findTerminal_None: "findTerminalPanel t i = None \<longleftrightarrow> i \<notin> set (terms t)"
  by (auto simp: findTerminalPanel_def findPanelWithView_def find_None_iff set_terms_of)

lemma findTerminal_Some: "findTerminalPanel t i = Some p \<Longrightarrow> (p, TerminalPane i) \<in> set (visitLeaves t)"
  by (auto simp: findTerminalPanel_def findPanelWithView_def dest!: find_Some_D)

lemma firstPanel_wf:
  assumes "wf_tree t"
  shows "firstPanel t = (fst (hd (visitLeaves t)), t)"
proof -
  obtain l ls where "visitLeaves t = l # ls"
    using wf_visit_nonempty [OF assms] by (cases "visitLeaves t") auto
  then show ?thesis
    by (cases "root t") (auto simp: firstPanel_def visitLeaves_def)
qed

lemma resolvedFocus_wf:
  assumes "wf_tree t" "resolvedFocus t p = (f, t')"
  shows "t' = t \<and> f \<in> set (leaf_ids t) \<and> (p \<in> set (leaf_ids t) \<longrightarrow> f = p)"
  using assms wf_visit_nonempty [OF assms(1)]
  by (auto simp: resolvedFocus_def firstPanel_wf leaf_ids_def split: if_splits)

section \<open>The workspace invariant\<close>

definition tile_ok :: "pane_tree \<Rightarrow> bool" where
  "tile_ok t \<longleftrightarrow> wf_tree t \<and> distinct (terms t) \<and> length (visitLeaves t) \<le> MAX_TERMINAL_TILES"

definition ws_ok :: "workspace \<Rightarrow> bool" where
  "ws_ok w \<longleftrightarrow> tile_ok (ws_tree w) \<and> focusedPanelId w \<in> set (leaf_ids (ws_tree w)) \<and>
     (\<forall>z. zoomedPanelId w = Some z \<longrightarrow> z \<in> set (leaf_ids (ws_tree w)))"

definition shows_focused :: "workspace \<Rightarrow> terminal_id \<Rightarrow> bool" where
  "shows_focused w i \<longleftrightarrow>
     getView (ws_tree w) (focusedPanelId w) = Some (TerminalPane i) \<and> zoomedPanelId w = None"

lemma distinct_terms_iff: "distinct (terms t) \<longleftrightarrow> (\<forall>x. count (terms_mset (pane_mset t)) x \<le> 1)"
  unfolding mset_terms_of [symmetric] distinct_count_atmost_1
  by (metis count_eq_zero_iff le_numeral_extra(4) less_one linorder_not_le nat_le_linear
      not_in_iff order_antisym set_mset_mset zero_le)

lemma ids_mset: "set (leaf_ids t) = fst ` set_mset (pane_mset t)"
  by (simp add: leaf_ids_def)

lemma terms_count: "i \<notin> set (terms t) \<longleftrightarrow> count (terms_mset (pane_mset t)) i = 0"
  by (metis count_eq_zero_iff mset_terms_of set_mset_mset)

text \<open>A tree with given leaves that shows a terminal in its focused pane.\<close>

lemma show_in_pane:
  assumes "wf_tree t'" "pane_mset t' = add_mset (p, TerminalPane i) M"
    "\<forall>x. count (add_mset i (terms_mset M)) x \<le> 1" "size M < MAX_TERMINAL_TILES"
  shows "ws_ok \<lparr>ws_tree = t', focusedPanelId = p, zoomedPanelId = None\<rparr>
    \<and> shows_focused \<lparr>ws_tree = t', focusedPanelId = p, zoomedPanelId = None\<rparr> i
    \<and> mset (terms t') = add_mset i (terms_mset M)"
proof -
  have mem: "(p, TerminalPane i) \<in> set (visitLeaves t')"
    using arg_cong [OF assms(2), of set_mset] by simp
  then have "p \<in> set (leaf_ids t')" by (force simp: leaf_ids_def)
  moreover have "length (visitLeaves t') \<le> MAX_TERMINAL_TILES"
    using assms(4) by (simp add: pane_count [OF assms(2)])
  moreover have "distinct (terms t')"
    using assms(2,3) by (simp add: distinct_terms_iff)
  ultimately show ?thesis
    using assms(1,2) getView_eq [OF assms(1) mem]
    by (simp add: ws_ok_def tile_ok_def shows_focused_def mset_terms_of)
qed

lemma split_with_ok:
  assumes "wf_tree t" "target \<in> set (leaf_ids t)" "length (visitLeaves t) < MAX_TERMINAL_TILES"
    "distinct (terms t)" "i \<notin> set (terms t)"
  shows "ws_ok (split_with t target e i) \<and> shows_focused (split_with t target e i) i
    \<and> mset (terms (ws_tree (split_with t target e i))) = add_mset i (mset (terms t))"
proof -
  obtain q u where s: "splitAtEdge TERMINAL_PANE_OPTIONS t target e = (q, u)" by fastforce
  have "pane_mset (setView u q (TerminalPane i)) = add_mset (q, TerminalPane i) (pane_mset t)"
    using pt.open_put_panes [OF assms(1) s] assms(2) by (simp add: leaf_ids_def)
  moreover have "\<forall>x. count (add_mset i (terms_mset (pane_mset t))) x \<le> 1"
    using assms(4,5) by (auto simp: distinct_terms_iff terms_count)
  moreover have "size (pane_mset t) < MAX_TERMINAL_TILES" using assms(3) by simp
  ultimately show ?thesis
    using show_in_pane [of "setView u q (TerminalPane i)" q i "pane_mset t"]
      wf_setView [OF wf_split [OF assms(1) s]]
    by (simp add: split_with_def s mset_terms_of)
qed

lemma fill_ok:
  assumes t: "tile_ok t" and p: "(p, EmptyPane) \<in> set (visitLeaves t)" and i: "i \<notin> set (terms t)"
  defines "w \<equiv> \<lparr>ws_tree = setView t p (TerminalPane i), focusedPanelId = p, zoomedPanelId = None\<rparr>"
  shows "ws_ok w \<and> shows_focused w i \<and> mset (terms (ws_tree w)) = add_mset i (mset (terms t))"
proof -
  have wf: "wf_tree t" using t by (simp add: tile_ok_def)
  from pane_isolate [OF wf p] obtain M where M: "pane_mset t = add_mset (p, EmptyPane) M"
    "p \<notin> fst ` set_mset M" .
  then have "\<forall>x. count (add_mset i (terms_mset M)) x \<le> 1"
    using t i by (auto simp: tile_ok_def distinct_terms_iff terms_count)
  moreover have "size M < MAX_TERMINAL_TILES"
    using t by (simp add: tile_ok_def pane_count [OF M(1)])
  ultimately show ?thesis
    using show_in_pane [OF wf_setView [OF wf] mset_setView [OF M]] M(1)
    by (simp add: w_def mset_terms_of)
qed

lemma focus_opt_ok: "ws_ok w \<Longrightarrow> focus_opt w p = Some w' \<Longrightarrow> ws_ok w'"
  by (auto simp: focus_opt_def ws_ok_def split: if_splits)

lemma focusTerminalPanel_ok: "ws_ok w \<Longrightarrow> ws_ok (focusTerminalPanel w p)"
  by (auto simp: focusTerminalPanel_def same_unless_def focus_opt_ok split: option.split)

lemma focusTerminalPanel_tree [simp]: "ws_tree (focusTerminalPanel w p) = ws_tree w"
  by (simp add: focusTerminalPanel_def same_unless_def focus_opt_def)

lemma focusTerminalPanel_shows:
  "ws_ok w \<Longrightarrow> (p, TerminalPane i) \<in> set (visitLeaves (ws_tree w)) \<Longrightarrow>
     shows_focused (focusTerminalPanel w p) i"
  by (force simp: focusTerminalPanel_def same_unless_def focus_opt_def shows_focused_def ws_ok_def
      tile_ok_def getView_iff leaf_ids_def)

lemma ws_okD: "ws_ok w \<Longrightarrow> wf_tree (ws_tree w)" "ws_ok w \<Longrightarrow> tile_ok (ws_tree w)"
  by (simp_all add: ws_ok_def tile_ok_def)

text \<open>The three outcomes of opening a terminal: focus it, place it, or refuse when full.\<close>

lemma open_cases:
  assumes "ws_ok w"
  obtains p where "(p, TerminalPane i) \<in> set (visitLeaves (ws_tree w))"
      "open_opt w i = focus_opt w p"
  | w' where "i \<notin> set (terms (ws_tree w))" "open_opt w i = Some w'" "ws_ok w'" "shows_focused w' i"
      "mset (terms (ws_tree w')) = add_mset i (mset (terms (ws_tree w)))"
  | j where "i \<notin> set (terms (ws_tree w))" "open_opt w i = None"
      "terminalPaneCount w = MAX_TERMINAL_TILES"
      "getView (ws_tree w) (focusedPanelId w) = Some (TerminalPane j)"
proof (cases "findTerminalPanel (ws_tree w) i")
  case (Some p)
  with that(1) findTerminal_Some show ?thesis by (auto simp: open_opt_def)
next
  case None
  let ?t = "ws_tree w" and ?f = "focusedPanelId w"
  have i: "i \<notin> set (terms ?t)" using None by (simp add: findTerminal_None)
  have f: "?f \<in> set (leaf_ids ?t)" using assms by (simp add: ws_ok_def)
  then have rf: "resolvedFocus ?t ?f = (?f, ?t)" by (simp add: resolvedFocus_def)
  obtain v where v: "getView ?t ?f = Some v"
    using f getView_None_iff [of ?t ?f] by (cases "getView ?t ?f") auto
  show ?thesis
  proof (cases v)
    case EmptyPane
    have "open_opt w i = Some \<lparr>ws_tree = setView ?t ?f (TerminalPane i), focusedPanelId = ?f, zoomedPanelId = None\<rparr>"
      using None rf v EmptyPane by (simp add: open_opt_def)
    with that(2) [OF i] fill_ok [OF ws_okD(2) [OF assms] getView_SomeD i] v EmptyPane show ?thesis
      by blast
  next
    case (TerminalPane j)
    show ?thesis
    proof (cases "MAX_TERMINAL_TILES \<le> terminalPaneCount w")
      case True
      have "open_opt w i = None" using None rf v TerminalPane True by (simp add: open_opt_def)
      moreover have "terminalPaneCount w = MAX_TERMINAL_TILES"
        using True assms by (simp add: ws_ok_def tile_ok_def terminalPaneCount_def)
      ultimately show ?thesis using that(3) [OF i] v TerminalPane by blast
    next
      case False
      have "open_opt w i = Some (split_with ?t ?f EdgeRight i)"
        using None rf v TerminalPane False by (simp add: open_opt_def)
      moreover have "length (visitLeaves ?t) < MAX_TERMINAL_TILES"
        using False by (simp add: terminalPaneCount_def)
      ultimately show ?thesis
        using that(2) [OF i] split_with_ok [OF ws_okD(1) [OF assms] f _ _ i] assms
        by (simp add: ws_ok_def tile_ok_def)
    qed
  qed
qed

lemma openTerminalView_ok: "ws_ok w \<Longrightarrow> ws_ok (openTerminalView w i)"
  by (rule open_cases [of w i]) (auto simp: openTerminalView_def same_unless_def focus_opt_ok split: option.split)

lemma openTerminalViewInPanel_ok:
  assumes "ws_ok w"
  shows "ws_ok (openTerminalViewInPanel w p i)"
proof (cases "findTerminalPanel (ws_tree w) i")
  case None
  then have i: "i \<notin> set (terms (ws_tree w))" by (simp add: findTerminal_None)
  show ?thesis
  proof (cases "p \<in> set (leaf_ids (ws_tree w)) \<and> getView (ws_tree w) p = Some EmptyPane")
    case True
    then show ?thesis
      using fill_ok [OF ws_okD(2) [OF assms] getView_SomeD i] None
      by (simp add: openTerminalViewInPanel_def)
  next
    case False
    then have "openTerminalViewInPanel w p i = openTerminalView w i"
      using None by (auto simp: openTerminalViewInPanel_def)
    then show ?thesis using openTerminalView_ok [OF assms] by simp
  qed
qed (simp add: openTerminalViewInPanel_def focusTerminalPanel_ok assms)

lemma splitTerminalPanel_ok:
  assumes "ws_ok w"
  shows "ws_ok (splitTerminalPanel w p e)"
proof -
  obtain q u where s: "splitAtEdge TERMINAL_PANE_OPTIONS (ws_tree w) p e = (q, u)" by fastforce
  show ?thesis
  proof (cases "p \<in> set (leaf_ids (ws_tree w)) \<and> \<not> MAX_TERMINAL_TILES \<le> terminalPaneCount w")
    case True
    then have m: "pane_mset u = add_mset (q, EmptyPane) (pane_mset (ws_tree w))"
      using pt.open_panes [OF ws_okD(1) [OF assms] s] by (simp add: leaf_ids_def)
    have "q \<in> set (leaf_ids u)" by (simp add: ids_mset m)
    moreover have "distinct (terms u)"
      using assms by (simp add: distinct_terms_iff m ws_ok_def tile_ok_def)
    moreover have "length (visitLeaves u) \<le> MAX_TERMINAL_TILES"
      using True by (simp add: pane_count [OF m] terminalPaneCount_def)
    ultimately show ?thesis
      using True s wf_split [OF ws_okD(1) [OF assms] s]
      by (simp add: splitTerminalPanel_def ws_ok_def tile_ok_def)
  qed (use assms in \<open>auto simp: splitTerminalPanel_def\<close>)
qed

lemma toggleTerminalPanelZoom_ok: "ws_ok w \<Longrightarrow> ws_ok (toggleTerminalPanelZoom w p)"
  by (auto simp: toggleTerminalPanelZoom_def ws_ok_def)

lemma resizeTerminalSplit_ok: "ws_ok w \<Longrightarrow> ws_ok (resizeTerminalSplit w path rs)"
  using visit_setSplitRatios [of "ws_tree w" path rs] wf_setSplitRatios [of "ws_tree w" path rs]
  by (auto simp: resizeTerminalSplit_def ws_ok_def tile_ok_def leaf_ids_def split: prod.split)

lemma removeTerminalPanel_ids:
  assumes "wf_tree t" "(p, v) \<in> set (visitLeaves t)"
  shows "set (leaf_ids (removeTerminalPanel t p)) =
    (if leaf_ids t = [p] then {p} else set (leaf_ids t) - {p})"
proof -
  from pane_isolate [OF assms] obtain M where M: "pane_mset t = add_mset (p, v) M" "p \<notin> fst ` set_mset M" .
  have "leaf_ids t = [p] \<longleftrightarrow> M = {#}"
  proof
    assume "leaf_ids t = [p]"
    then have "length (leaf_ids t) = 1" by simp
    then have "size (pane_mset t) = 1" by (simp add: leaf_ids_def)
    with M(1) show "M = {#}" by simp
  next
    assume "M = {#}"
    with M(1) show "leaf_ids t = [p]" by (simp add: leaf_ids_def)
  qed
  with M mset_removeTerminalPanel [OF M] show ?thesis by (auto simp: ids_mset)
qed

text \<open>The invariant without the bound on the number of panes, for layouts just read.\<close>

definition ws_wf :: "workspace \<Rightarrow> bool" where
  "ws_wf w \<longleftrightarrow> wf_tree (ws_tree w) \<and> distinct (terms (ws_tree w)) \<and>
     focusedPanelId w \<in> set (leaf_ids (ws_tree w)) \<and>
     (\<forall>z. zoomedPanelId w = Some z \<longrightarrow> z \<in> set (leaf_ids (ws_tree w)))"

lemma ws_ok_iff: "ws_ok w \<longleftrightarrow> ws_wf w \<and> terminalPaneCount w \<le> MAX_TERMINAL_TILES"
  by (auto simp: ws_ok_def ws_wf_def tile_ok_def terminalPaneCount_def)

lemma closeTerminalPanel_eq:
  assumes "ws_wf w" "p \<in> set (leaf_ids (ws_tree w))"
  shows "ws_tree (closeTerminalPanel w p) = removeTerminalPanel (ws_tree w) p"
    and "ws_wf (closeTerminalPanel w p)"
    and "terminalPaneCount (closeTerminalPanel w p) = max 1 (terminalPaneCount w - 1)"
proof -
  let ?t = "ws_tree w" and ?u = "removeTerminalPanel (ws_tree w) p"
  have wf: "wf_tree ?t" "wf_tree ?u" using assms by (simp_all add: ws_wf_def wf_removeTerminalPanel)
  obtain v where v: "(p, v) \<in> set (visitLeaves ?t)" using assms(2) by (auto simp: leaf_ids_def)
  from pane_isolate [OF wf(1) v] obtain M where M: "pane_mset ?t = add_mset (p, v) M" "p \<notin> fst ` set_mset M" .
  obtain f t' where rf: "resolvedFocus ?u (focusedPanelId w) = (f, t')" by fastforce
  from resolvedFocus_wf [OF wf(2) this] have f: "t' = ?u" "f \<in> set (leaf_ids ?u)" by auto
  show tree: "ws_tree (closeTerminalPanel w p) = ?u"
    using assms(2) rf f by (simp add: closeTerminalPanel_def)
  have count: "count (terms_mset (pane_mset ?t)) x \<le> 1" for x
    using assms(1) distinct_terms_iff [of ?t] by (simp add: ws_wf_def)
  have "count (terms_mset (pane_mset ?u)) x \<le> count (terms_mset (pane_mset ?t)) x" for x
    by (cases v) (simp_all add: M(1) mset_removeTerminalPanel [OF M])
  with count have "distinct (terms ?u)"
    unfolding distinct_terms_iff by (meson order_trans)
  moreover have "z \<in> set (leaf_ids ?u)" if "zoomedPanelId w = Some z" "z \<noteq> p" for z
    using that assms removeTerminalPanel_ids [OF wf(1) v] by (auto simp: ws_wf_def)
  ultimately show "ws_wf (closeTerminalPanel w p)"
    using assms(2) rf f wf(2) by (auto simp: closeTerminalPanel_def ws_wf_def)
  show "terminalPaneCount (closeTerminalPanel w p) = max 1 (terminalPaneCount w - 1)"
    by (cases "M = {#}")
      (simp_all add: terminalPaneCount_def tree pane_count [OF M(1)] pane_count [OF mset_removeTerminalPanel [OF M]]
        max_def nonempty_has_size not_le)
qed

lemma closeTerminalPanel_ok: "ws_ok w \<Longrightarrow> ws_ok (closeTerminalPanel w p)"
  using closeTerminalPanel_eq [of w p]
  by (cases "p \<in> set (leaf_ids (ws_tree w))")
    (auto simp: ws_ok_iff closeTerminalPanel_def MAX_TERMINAL_TILES_def)

lemma closeTerminalTab_ok: "ws_ok w \<Longrightarrow> ws_ok (closeTerminalTab w p i)"
  by (simp add: closeTerminalTab_def closeTerminalPanel_ok)

lemma activateTerminalTab_ok: "ws_ok w \<Longrightarrow> ws_ok (activateTerminalTab w p i)"
  by (simp add: activateTerminalTab_def focusTerminalPanel_ok)

lemma createTerminalWorkspace_ok: "ws_ok createTerminalWorkspace"
  by (simp add: createTerminalWorkspace_def firstPanel_def new_tree_def ws_ok_def tile_ok_def tree_defs
      MAX_TERMINAL_TILES_def)

section \<open>Docking\<close>

lemma pane_isolate2:
  assumes "wf_tree t" "(p, v) \<in> set (visitLeaves t)" "(q, u) \<in> set (visitLeaves t)" "p \<noteq> q"
  obtains N where "pane_mset t = add_mset (p, v) (add_mset (q, u) N)"
    "p \<notin> fst ` set_mset N" "q \<notin> fst ` set_mset N"
proof -
  from pane_isolate [OF assms(1,2)] obtain M where M: "pane_mset t = add_mset (p, v) M" "p \<notin> fst ` set_mset M" .
  have "(q, u) \<in># M" using assms(3,4) arg_cong [OF M(1), of set_mset] by auto
  then obtain N where N: "M = add_mset (q, u) N" by (meson mset_add)
  from pane_isolate [OF assms(1,3)] obtain K where K: "pane_mset t = add_mset (q, u) K" "q \<notin> fst ` set_mset K" .
  have "K = add_mset (p, v) N" using M(1) N K(1) by (simp add: add_mset_commute)
  with that M N K(2) show ?thesis by auto
qed

definition dock_center :: "workspace \<Rightarrow> terminal_id \<Rightarrow> nat \<Rightarrow> nat \<Rightarrow> workspace" where
  "dock_center w i target s =
     (let t = ws_tree w; targetView = getView t target; sourceView = getView t s
      in \<lparr>ws_tree = (if is_terminal targetView \<and> is_terminal sourceView
                     then setView (setView t s (the targetView)) target (the sourceView)
                     else removeTerminalPanel (setView t target (TerminalPane i)) s),
          focusedPanelId = target, zoomedPanelId = None\<rparr>)"

lemma dock_center_ok:
  assumes ok: "ws_ok w" and s: "(s, TerminalPane i) \<in> set (visitLeaves (ws_tree w))"
    and v: "(target, v) \<in> set (visitLeaves (ws_tree w))" and ne: "s \<noteq> target"
  shows "ws_ok (dock_center w i target s) \<and> shows_focused (dock_center w i target s) i
    \<and> mset (terms (ws_tree (dock_center w i target s))) = mset (terms (ws_tree w))"
proof -
  let ?t = "ws_tree w"
  have wf: "wf_tree ?t" using ok by (rule ws_okD)
  from pane_isolate2 [OF wf s v ne] obtain N where
    N: "pane_mset ?t = add_mset (s, TerminalPane i) (add_mset (target, v) N)"
      "s \<notin> fst ` set_mset N" "target \<notin> fst ` set_mset N" .
  have views: "getView ?t s = Some (TerminalPane i)" "getView ?t target = Some v"
    using getView_eq [OF wf] s v by auto
  have count: "\<forall>x. count (terms_mset (pane_mset ?t)) x \<le> 1" and "size (pane_mset ?t) \<le> MAX_TERMINAL_TILES"
    using ok distinct_terms_iff [of ?t] by (auto simp: ws_ok_def tile_ok_def)
  then have N_size: "Suc (size N) < MAX_TERMINAL_TILES \<or> Suc (size N) = MAX_TERMINAL_TILES - 1"
    by (auto simp: N(1))
  show ?thesis
  proof (cases v)
    case (TerminalPane j)
    let ?u = "setView (setView ?t s (TerminalPane j)) target (TerminalPane i)"
    have "pane_mset (setView ?t s (TerminalPane j)) = add_mset (target, TerminalPane j) (add_mset (s, TerminalPane j) N)"
      using mset_setView [OF N(1), of "TerminalPane j"] N(2) ne
      by (simp add: TerminalPane add_mset_commute)
    from mset_setView [OF this] have u:
      "pane_mset ?u = add_mset (target, TerminalPane i) (add_mset (s, TerminalPane j) N)"
      using N(3) ne by simp
    have "dock_center w i target s = \<lparr>ws_tree = ?u, focusedPanelId = target, zoomedPanelId = None\<rparr>"
      using views TerminalPane by (simp add: dock_center_def is_terminal_def)
    then show ?thesis
      using show_in_pane [OF _ u] wf count N N_size
      by (auto simp: wf_setView mset_terms_of TerminalPane MAX_TERMINAL_TILES_def)
  next
    case EmptyPane
    let ?u = "setView ?t target (TerminalPane i)"
    have "pane_mset ?u = add_mset (target, TerminalPane i) (add_mset (s, TerminalPane i) N)"
      using mset_setView [of ?t target v "add_mset (s, TerminalPane i) N" "TerminalPane i"] N ne
      by (simp add: add_mset_commute)
    then have u: "pane_mset ?u = add_mset (s, TerminalPane i) (add_mset (target, TerminalPane i) N)"
      by (simp add: add_mset_commute)
    have r: "pane_mset (removeTerminalPanel ?u s) = add_mset (target, TerminalPane i) N"
      using mset_removeTerminalPanel [OF u] N(2) ne by simp
    have "dock_center w i target s =
        \<lparr>ws_tree = removeTerminalPanel ?u s, focusedPanelId = target, zoomedPanelId = None\<rparr>"
      using views EmptyPane by (simp add: dock_center_def is_terminal_def)
    then show ?thesis
      using show_in_pane [OF _ r] wf count N N_size
      by (auto simp: wf_setView wf_removeTerminalPanel mset_terms_of EmptyPane MAX_TERMINAL_TILES_def)
  qed
qed

lemma dock_split_ok:
  assumes ok: "ws_ok w" and s: "(s, TerminalPane i) \<in> set (visitLeaves (ws_tree w))"
    and v: "(target, v) \<in> set (visitLeaves (ws_tree w))" and ne: "s \<noteq> target"
  defines "t1 \<equiv> removeTerminalPanel (ws_tree w) s"
  shows "target \<in> set (leaf_ids t1) \<and> ws_ok (split_with t1 target e i) \<and> shows_focused (split_with t1 target e i) i
    \<and> mset (terms (ws_tree (split_with t1 target e i))) = mset (terms (ws_tree w))"
proof -
  have wf: "wf_tree (ws_tree w)" using ok by (rule ws_okD)
  from pane_isolate2 [OF wf s v ne] obtain N where
    N: "pane_mset (ws_tree w) = add_mset (s, TerminalPane i) (add_mset (target, v) N)"
      "s \<notin> fst ` set_mset N" "target \<notin> fst ` set_mset N" .
  let ?M = "add_mset (target, v) N"
  have m: "pane_mset t1 = ?M"
    using mset_removeTerminalPanel [OF N(1)] N(2) ne by (simp add: t1_def)
  have target: "target \<in> set (leaf_ids t1)" by (simp add: ids_mset m)
  have count: "count (add_mset i (terms_mset ?M)) x \<le> 1" for x
    using ok by (simp add: N(1) ws_ok_def tile_ok_def distinct_terms_iff del: count_add_mset)
  have "count (terms_mset ?M) x \<le> 1" for x
    using count [of x] by (auto split: if_splits)
  then have d: "distinct (terms t1)" by (simp add: distinct_terms_iff m)
  have i: "i \<notin> set (terms t1)"
    using count [of i] by (simp add: terms_count m)
  have "length (visitLeaves t1) < MAX_TERMINAL_TILES"
    using ok by (simp add: pane_count [OF m] pane_count [OF N(1)] ws_ok_def tile_ok_def)
  from split_with_ok [OF _ target this d i, of e] wf target show ?thesis
    by (simp add: t1_def [symmetric] wf_removeTerminalPanel mset_terms_of m N(1)) (simp add: t1_def wf_removeTerminalPanel)
qed

lemma dock_cases:
  assumes "ws_ok w"
  obtains "dockTerminalView w i target action = w"
  | "dockTerminalView w i target action = focusTerminalPanel w target"
      "(target, TerminalPane i) \<in> set (visitLeaves (ws_tree w))"
  | "ws_ok (dockTerminalView w i target action)" "shows_focused (dockTerminalView w i target action) i"
      "i \<in> set (terms (ws_tree w))"
      "mset (terms (ws_tree (dockTerminalView w i target action))) = mset (terms (ws_tree w))"
  | "ws_ok (dockTerminalView w i target action)" "shows_focused (dockTerminalView w i target action) i"
      "i \<notin> set (terms (ws_tree w))"
      "mset (terms (ws_tree (dockTerminalView w i target action))) = add_mset i (mset (terms (ws_tree w)))"
proof (cases "target \<in> set (leaf_ids (ws_tree w))")
  case False
  then have "dockTerminalView w i target action = w" by (simp add: dockTerminalView_def)
  then show ?thesis by (rule that(1))
next
  case True
  let ?t = "ws_tree w" and ?d = "dockTerminalView w i target action"
  have wf: "wf_tree ?t" and okt: "tile_ok ?t" using assms by (simp_all add: ws_okD)
  obtain v where v: "(target, v) \<in> set (visitLeaves ?t)" using True by (auto simp: leaf_ids_def)
  have gv: "getView ?t target = Some v" using getView_eq [OF wf v] .
  define split where "split = (case action of SplitAt e \<Rightarrow> e \<noteq> EdgeCenter | _ \<Rightarrow> False)"
  show ?thesis
  proof (cases "findTerminalPanel ?t i")
    case (Some s)
    have s: "(s, TerminalPane i) \<in> set (visitLeaves ?t)" using Some by (rule findTerminal_Some)
    then have i: "i \<in> set (terms ?t)" by (auto simp: set_terms_of)
    show ?thesis
    proof (cases "s = target")
      case eq: True
      have "?d = focusTerminalPanel w target" using True Some eq by (simp add: dockTerminalView_def Let_def)
      with s eq show ?thesis by (intro that(2)) auto
    next
      case ne: False
      show ?thesis
      proof (cases split)
        case sp: True
        then obtain e where e: "action = SplitAt e" "e \<noteq> EdgeCenter"
          by (auto simp: split_def split: drop_action.splits)
        from dock_split_ok [OF assms s v ne, of e] have "?d = split_with (removeTerminalPanel ?t s) target e i"
          using True Some ne e by (simp add: dockTerminalView_def Let_def)
        with dock_split_ok [OF assms s v ne, of e] i show ?thesis by (intro that(3)) auto
      next
        case ns: False
        have "?d = dock_center w i target s"
          using True Some ne ns gv getView_eq [OF wf s]
          by (cases action)
            (auto simp: dockTerminalView_def dock_center_def is_terminal_def Let_def split_def)
        with dock_center_ok [OF assms s v ne] i show ?thesis by (intro that(3)) auto
      qed
    qed
  next
    case None
    then have i: "i \<notin> set (terms ?t)" by (simp add: findTerminal_None)
    let ?full = "MAX_TERMINAL_TILES \<le> terminalPaneCount w"
    have eq: "?d =
      (if split then if ?full then w
                     else split_with ?t target (case action of SplitAt e \<Rightarrow> e | _ \<Rightarrow> EdgeRight) i
       else if v = EmptyPane
       then \<lparr>ws_tree = setView ?t target (TerminalPane i), focusedPanelId = target, zoomedPanelId = None\<rparr>
       else if ?full then w else split_with ?t target EdgeRight i)"
      using True None gv by (cases action) (auto simp: dockTerminalView_def Let_def split_def)
    consider "?d = w" | e where "\<not> ?full" "?d = split_with ?t target e i"
      | "v = EmptyPane" "?d = \<lparr>ws_tree = setView ?t target (TerminalPane i), focusedPanelId = target, zoomedPanelId = None\<rparr>"
      unfolding eq by (cases split; cases ?full; cases v) simp_all
    then show ?thesis
    proof cases
      case 1
      then show ?thesis by (rule that(1))
    next
      case (2 e)
      then have "length (visitLeaves ?t) < MAX_TERMINAL_TILES" by (simp add: terminalPaneCount_def)
      from split_with_ok [OF wf True this _ i, of e] okt 2(2) i show ?thesis
        by (intro that(4)) (auto simp: tile_ok_def)
    next
      case 3
      from fill_ok [OF okt _ i, of target] v 3 i show ?thesis by (intro that(4)) auto
    qed
  qed
qed

lemma dockTerminalView_ok:
  assumes "ws_ok w"
  shows "ws_ok (dockTerminalView w i target action)"
  by (rule dock_cases [OF assms, of i target action]) (simp_all add: assms focusTerminalPanel_ok)

section \<open>Restoring a window\<close>

lemma removeTerminalPanel_leaves:
  assumes "wf_tree t" "p \<in> set (leaf_ids t)"
  shows "visitLeaves (removeTerminalPanel t p) =
    (if leaf_ids t = [p] then [(p, EmptyPane)] else filter (\<lambda>l. fst l \<noteq> p) (visitLeaves t))"
proof (cases "leaf_ids t = [p]")
  case True
  then show ?thesis
    by (auto simp: removeTerminalPanel_def getLeaf_None_iff visit_setView leaf_ids_def map_eq_Cons_conv)
next
  case False
  have "length (visitLeaves t) \<noteq> 1"
  proof
    assume "length (visitLeaves t) = 1"
    then obtain l where "visitLeaves t = [l]" by (auto simp: length_Suc_conv)
    with assms(2) False show False by (simp add: leaf_ids_def)
  qed
  moreover have "filter (\<lambda>l. fst l \<noteq> p) (visitLeaves t) \<noteq> []"
  proof
    assume "filter (\<lambda>l. fst l \<noteq> p) (visitLeaves t) = []"
    then have "set (leaf_ids t) \<subseteq> {p}" by (auto simp: leaf_ids_def filter_empty_conv)
    with False assms show False
      using distinct_singleton [of "leaf_ids t" p] by (cases "leaf_ids t = []") (simp_all add: wf_tree_def)
  qed
  ultimately show ?thesis
    using assms(2) False by (simp add: removeTerminalPanel_def getLeaf_None_iff visit_close)
qed

lemma close_tabs:
  assumes "ws_wf w" "distinct (map fst items)" "\<forall>(p, i) \<in> set items. (p, TerminalPane i) \<in> set (visitLeaves (ws_tree w))"
  defines "w' \<equiv> foldl (\<lambda>n item. closeTerminalTab n (fst item) (snd item)) w items"
  shows "ws_wf w' \<and> terminalPaneCount w' \<le> terminalPaneCount w \<and>
    terms (ws_tree w') = terms_of (filter (\<lambda>l. fst l \<notin> fst ` set items) (visitLeaves (ws_tree w)))"
  using assms(1-3) unfolding w'_def
proof (induction items arbitrary: w)
  case (Cons item items)
  obtain p i where item: "item = (p, i)" by fastforce
  let ?t = "ws_tree w" and ?n = "closeTerminalPanel w p"
  have wf: "wf_tree ?t" using Cons.prems(1) by (simp add: ws_wf_def)
  have mem: "(p, TerminalPane i) \<in> set (visitLeaves ?t)" using Cons.prems(3) item by simp
  then have p: "p \<in> set (leaf_ids ?t)" by (force simp: leaf_ids_def)
  note n = closeTerminalPanel_eq [OF Cons.prems(1) p]
  have tab: "closeTerminalTab w p i = ?n" using getView_eq [OF wf mem] by (simp add: closeTerminalTab_def)
  have leaves: "visitLeaves (ws_tree ?n) =
      (if leaf_ids ?t = [p] then [(p, EmptyPane)] else filter (\<lambda>l. fst l \<noteq> p) (visitLeaves ?t))"
    by (simp add: n(1) removeTerminalPanel_leaves [OF wf p])
  have single: "items = [] \<and> filter (\<lambda>l. fst l \<noteq> p) (visitLeaves ?t) = []" if "leaf_ids ?t = [p]"
  proof -
    have "fst l = p" if "l \<in> set (visitLeaves ?t)" for l
      using that \<open>leaf_ids ?t = [p]\<close> by (metis imageI leaf_ids_def list.set_map list.set(1,2) singletonD)
    then have "fst ` set items \<subseteq> {p}" "filter (\<lambda>l. fst l \<noteq> p) (visitLeaves ?t) = []"
      using Cons.prems(3) by (fastforce simp: item filter_empty_conv)+
    moreover have "p \<notin> fst ` set items" using Cons.prems(2) by (simp add: item)
    ultimately show ?thesis by (cases items) auto
  qed
  have rest: "\<forall>(q, j) \<in> set items. (q, TerminalPane j) \<in> set (visitLeaves (ws_tree ?n))"
    using Cons.prems(2,3) single leaves by (auto simp: item split: if_splits) (force)
  have count: "terminalPaneCount ?n \<le> terminalPaneCount w"
    using n(3) wf_visit_nonempty [OF wf] by (cases "visitLeaves ?t") (simp_all add: terminalPaneCount_def)
  from Cons.IH [OF n(2) _ rest] Cons.prems(2) count
  have "ws_wf (foldl (\<lambda>n item. closeTerminalTab n (fst item) (snd item)) ?n items)"
    "terminalPaneCount (foldl (\<lambda>n item. closeTerminalTab n (fst item) (snd item)) ?n items) \<le> terminalPaneCount w"
    "terms (ws_tree (foldl (\<lambda>n item. closeTerminalTab n (fst item) (snd item)) ?n items)) =
       terms_of (filter (\<lambda>l. fst l \<notin> fst ` set items) (visitLeaves (ws_tree ?n)))"
    by auto
  moreover have "filter (\<lambda>l. fst l \<notin> fst ` set items) (filter (\<lambda>l. fst l \<noteq> p) (visitLeaves ?t)) =
      filter (\<lambda>l. fst l \<notin> fst ` set (item # items)) (visitLeaves ?t)"
    by (simp add: item conj_commute)
  ultimately show ?case
    using single by (cases "leaf_ids ?t = [p]") (simp_all add: item tab leaves)
qed simp

lemma missing_entry_Some: "missing_entry live l = Some (p, i) \<longleftrightarrow> l = (p, TerminalPane i) \<and> i \<notin> live"
  by (cases l) (auto simp: missing_entry_def split: pane_view.splits)

lemma missing_pane_member:
  "(p, i) \<in> set (missing_panes w live) \<longleftrightarrow> (p, TerminalPane i) \<in> set (visitLeaves (ws_tree w)) \<and> i \<notin> live"
  by (auto simp: missing_panes_def set_somes missing_entry_Some eq_commute [of "Some _"])

lemma missing_ids_distinct:
  assumes "distinct (map fst ls)"
  shows "distinct (map fst (somes (map (missing_entry live) ls)))"
  using assms
proof (induction ls)
  case (Cons l ls)
  then have IH: "distinct (map fst (somes (map (missing_entry live) ls)))" by simp
  have "fst ` set (somes (map (missing_entry live) ls)) \<subseteq> fst ` set ls"
    by (force simp: set_somes missing_entry_Some eq_commute [of "Some _"])
  with Cons.prems have "fst l \<notin> fst ` set (somes (map (missing_entry live) ls))" by auto
  then show ?case
  proof (cases "missing_entry live l")
    case (Some a)
    obtain p i where a: "a = (p, i)" by fastforce
    with Some have "fst l = p" by (simp add: missing_entry_Some)
    with Some a IH \<open>fst l \<notin> _\<close> show ?thesis by simp
  qed (simp add: IH)
qed simp

lemma terms_of_live:
  "terms_of (filter (\<lambda>l. \<forall>i. snd l = TerminalPane i \<longrightarrow> i \<in> live) ls) = filter (\<lambda>i. i \<in> live) (terms_of ls)"
proof (induction ls)
  case (Cons l ls)
  obtain p v where "l = (p, v)" by fastforce
  with Cons show ?case by (cases v) auto
qed simp

lemma removeMissing_wf:
  fixes live :: "terminal_id set"
  assumes "ws_wf w"
  defines "w' \<equiv> removeMissingTerminalViews w live"
  shows "ws_wf w' \<and> terminalPaneCount w' \<le> terminalPaneCount w \<and>
    terms (ws_tree w') = filter (\<lambda>i. i \<in> live) (terms (ws_tree w))"
proof -
  let ?items = "missing_panes w live" and ?ls = "visitLeaves (ws_tree w)"
  have dist: "distinct (map fst ?ls)" using assms(1) by (simp add: ws_wf_def wf_distinct)
  have eq: "filter (\<lambda>l. fst l \<notin> fst ` set ?items) ?ls =
      filter (\<lambda>l. \<forall>i. snd l = TerminalPane i \<longrightarrow> i \<in> live) ?ls"
  proof (intro filter_cong refl)
    fix l assume l: "l \<in> set ?ls"
    have "fst l \<in> fst ` set ?items \<longleftrightarrow> (\<exists>i. (fst l, i) \<in> set ?items)" by force
    also have "\<dots> \<longleftrightarrow> (\<exists>i. (fst l, TerminalPane i) \<in> set ?ls \<and> i \<notin> live)"
      by (simp add: missing_pane_member)
    also have "\<dots> \<longleftrightarrow> (\<exists>i. snd l = TerminalPane i \<and> i \<notin> live)"
      using distinct_fst_eq [OF dist] l by (metis prod.collapse)
    finally show "fst l \<notin> fst ` set ?items \<longleftrightarrow> (\<forall>i. snd l = TerminalPane i \<longrightarrow> i \<in> live)" by blast
  qed
  have "distinct (map fst ?items)"
    unfolding missing_panes_def by (rule missing_ids_distinct [OF dist])
  moreover have "\<forall>(p, i) \<in> set ?items. (p, TerminalPane i) \<in> set ?ls"
    by (auto simp: missing_pane_member)
  ultimately show ?thesis
    using close_tabs [OF assms(1), of ?items]
    unfolding w'_def removeMissingTerminalViews_def eq terms_of_live by blast
qed

lemma capRestored_wf:
  assumes "ws_wf w"
  shows "ws_wf (capRestoredTerminalPanes w) \<and>
    terminalPaneCount (capRestoredTerminalPanes w) = min MAX_TERMINAL_TILES (terminalPaneCount w) \<and>
    set (terms (ws_tree (capRestoredTerminalPanes w))) \<subseteq> set (terms (ws_tree w))"
  using assms
proof (induction w rule: capRestoredTerminalPanes.induct)
  case (1 w)
  show ?case
  proof (cases "terminalPaneCount w \<le> MAX_TERMINAL_TILES")
    case True
    with 1(2) show ?thesis by (simp add: capRestoredTerminalPanes.simps)
  next
    case False
    have "leaf_ids (ws_tree w) \<noteq> []"
      using False by (auto simp: terminalPaneCount_def leaf_ids_def)
    then have "cap_victim w \<noteq> None" by (simp add: cap_victim_def Let_def split: option.split)
    then obtain p where p: "cap_victim w = Some p" by blast
    then have mem: "p \<in> set (leaf_ids (ws_tree w))" by (rule cap_victim_member)
    note n = closeTerminalPanel_eq [OF 1(2) mem]
    have "set (terms (ws_tree (closeTerminalPanel w p))) \<subseteq> set (terms (ws_tree w))"
      using 1(2) mem by (auto simp: n(1) set_terms_of ws_wf_def removeTerminalPanel_leaves split: if_splits)
    with 1(1) [OF False p n(2)] False p n(3) show ?thesis
      by (auto simp: capRestoredTerminalPanes.simps [of w] MAX_TERMINAL_TILES_def)
  qed
qed

lemma open_missing_ok:
  fixes "is" :: "terminal_id list"
  assumes "ws_ok w" "opened = set (terms (ws_tree w))"
  defines "w' \<equiv> open_missing opened w is"
  shows "ws_ok w' \<and> set (terms (ws_tree w)) \<subseteq> set (terms (ws_tree w')) \<and>
    set (terms (ws_tree w')) \<subseteq> set (terms (ws_tree w)) \<union> set is \<and>
    (set is \<subseteq> set (terms (ws_tree w')) \<or> terminalPaneCount w' = MAX_TERMINAL_TILES)"
  using assms(1,2) unfolding w'_def
proof (induction "is" arbitrary: w opened)
  case (Cons i "is")
  show ?case
  proof (cases "i \<in> opened")
    case True
    with Cons.IH [OF Cons.prems] Cons.prems show ?thesis by auto
  next
    case False
    then have i: "i \<notin> set (terms (ws_tree w))" using Cons.prems by simp
    show ?thesis
    proof (rule open_cases [OF Cons.prems(1), of i])
      fix w' assume w': "open_opt w i = Some w'" "ws_ok w'"
        "mset (terms (ws_tree w')) = add_mset i (mset (terms (ws_tree w)))"
      then have "set (terms (ws_tree w')) = insert i (set (terms (ws_tree w)))"
        by (metis set_mset_add_mset_insert set_mset_mset)
      with Cons.IH [OF w'(2), of "insert i opened"] w'(1) False Cons.prems(2) show ?thesis by auto
    next
      fix p assume "(p, TerminalPane i) \<in> set (visitLeaves (ws_tree w))"
      with i show ?thesis by (auto simp: set_terms_of)
    next
      assume "open_opt w i = None" "terminalPaneCount w = MAX_TERMINAL_TILES"
      with False Cons.prems show ?thesis by auto
    qed
  qed
qed simp

section \<open>Reading and writing a window\<close>

fun persisted_leaves :: "persisted_node \<Rightarrow> (nat \<times> pane_view) list" where
  "persisted_leaves (PLeaf i v) = [(i, v)]"
| "persisted_leaves (PSplit k cs rs) = concat (map persisted_leaves cs)"

lemma all_some_iff: "all_some xs = Some ys \<longleftrightarrow> xs = map Some ys"
  by (induction xs arbitrary: ys rule: all_some.induct) (auto simp: Cons_eq_map_conv)

lemma PositiveRatio_all: "list_all PositiveRatio rs \<longleftrightarrow> (\<forall>r \<in> set rs. is_finite r \<and> 0 < num_of r)"
  by (simp add: list_all_iff PositiveRatio_def)

lemma positive_id_pos: "positive_id i \<Longrightarrow> 0 < i"
  by (cases i) (simp_all add: positive_id_def PositiveInteger_def)

lemma runtime_ok:
  "runtimePanelNode n = Some r \<Longrightarrow> PersistedPanelNodeSchema n \<Longrightarrow>
     wf_node r \<and> leaves r = persisted_leaves n \<and> (\<forall>l \<in> set (leaves r). 0 < fst l)"
proof (induction n arbitrary: r)
  case (PLeaf i v)
  then show ?case by (auto dest: positive_id_pos)
next
  case (PSplit k cs rs)
  from PSplit.prems(1) obtain ds where len: "length cs = length rs"
    and ds: "map runtimePanelNode cs = map Some ds"
    and r: "r = Split k ds (map (\<lambda>x. js_div x (js_sum rs)) rs)"
    and sum: "is_finite (js_sum rs)" "0 < num_of (js_sum rs)"
    by (auto simp: Let_def all_some_iff split: if_splits option.splits)
  from ds have len_ds: "length ds = length cs" by (metis length_map)
  have child: "runtimePanelNode (cs ! j) = Some (ds ! j)" if "j < length cs" for j
    using arg_cong [OF ds, of "\<lambda>xs. xs ! j"] that len_ds by simp
  have IH: "wf_node (ds ! j) \<and> leaves (ds ! j) = persisted_leaves (cs ! j) \<and>
      (\<forall>l \<in> set (leaves (ds ! j)). 0 < fst l)" if "j < length cs" for j
    using PSplit.IH [OF _ child [OF that]] PSplit.prems(2) that by (simp add: list_all_length)
  have "map leaves ds = map persisted_leaves cs"
    using IH len_ds by (intro nth_equalityI) auto
  moreover have "normalizeRatios rs = Some (map (\<lambda>x. js_div x (js_sum rs)) rs)"
    using sum by (simp add: normalizeRatios_def)
  then have "ratios_ok (map (\<lambda>x. js_div x (js_sum rs)) rs)"
    using normalizeRatios_ok [of rs] PSplit.prems(2) by (auto simp: PositiveRatio_all)
  moreover have "\<forall>d \<in> set ds. wf_node d \<and> (\<forall>l \<in> set (leaves d). 0 < fst l)"
    using IH len_ds by (metis in_set_conv_nth)
  moreover from this have "\<forall>l \<in> set (leaves r). 0 < fst l" using r by auto
  ultimately show ?case
    using r len len_ds PSplit.prems(2) by simp
qed

lemma parse_ok:
  assumes "parseTerminalWorkspace decode json = Some w"
    "\<And>s p. decode s = Some p \<Longrightarrow> PersistedTerminalWorkspaceSchema p"
    "\<And>s p. json = Some s \<Longrightarrow> decode s = Some p \<Longrightarrow>
       distinct (map fst (persisted_leaves (p_root p))) \<and> distinct (terms_of (persisted_leaves (p_root p)))"
  shows "ws_wf w"
proof -
  from assms(1) obtain s p r where p: "json = Some s" "decode s = Some p" "runtimePanelNode (p_root p) = Some r"
    and w: "ws_tree w = applySnapshot (new_tree TERMINAL_PANE_OPTIONS None) \<lparr>snap_root = r, snap_next = p_next p\<rparr>"
      "focusedPanelId w \<in> set (leaf_ids (ws_tree w))"
      "\<forall>z. zoomedPanelId w = Some z \<longrightarrow> z \<in> set (leaf_ids (ws_tree w))"
    by (auto simp: parseTerminalWorkspace_def fromJSON_def fromSnapshot_def Let_def
        split: option.splits if_splits)
  have r: "wf_node r" "leaves r = persisted_leaves (p_root p)" and pos: "\<forall>l \<in> set (leaves r). 0 < fst l"
    using runtime_ok [OF p(3)] assms(2) [OF p(2)] by (auto simp: PersistedTerminalWorkspaceSchema_def)
  from pos have "0 \<notin> fst ` set (leaves r)" by force
  note r = r this
  have "root (ws_tree w) = r" by (simp add: w(1) applySnapshot_def Let_def)
  moreover have "wf_tree (ws_tree w)"
    unfolding w(1) by (rule wf_applySnapshot) (use r assms(3) [OF p(1,2)] in simp_all)
  ultimately show ?thesis
    using w(2,3) r(2) assms(3) [OF p(1,2)] by (simp add: ws_wf_def visitLeaves_def)
qed

lemma ratios_sum_one: "ratios_ok rs \<Longrightarrow> js_sum rs = Fin 1"
  using foldl_js_add_small [of rs 0] by (auto simp: ratios_ok_def js_sum_def less_imp_le)

lemma js_div_one:
  assumes "ratios_ok rs" "r \<in> set rs"
  shows "js_div r (Fin 1) = r"
proof -
  from assms obtain a where a: "r = Fin a" "0 < a" by (auto simp: ratios_ok_def is_finite_iff)
  have "a \<le> 1" using num_of_member_le_sum [of rs r] assms a by (auto simp: ratios_ok_def)
  moreover have "(1::rat) \<le> 10 ^ 300" by simp
  ultimately have "\<bar>a\<bar> \<le> 10 ^ 300" using a(2) by linarith
  then show ?thesis by (simp add: a js_fin_small)
qed

lemma runtime_persist: "wf_node n \<Longrightarrow> runtimePanelNode (persist_node n) = Some n"
proof (induction n)
  case (Split k cs rs)
  then have "map (\<lambda>c. runtimePanelNode (persist_node c)) cs = map Some cs" by auto
  then have "all_some (map runtimePanelNode (map persist_node cs)) = Some cs"
    unfolding all_some_iff by (simp add: comp_def)
  moreover have "map (\<lambda>r. js_div r (Fin 1)) rs = rs"
    using Split.prems js_div_one by (intro map_idI) auto
  ultimately show ?case
    using Split.prems by (simp add: ratios_sum_one)
qed simp

lemma persist_node_schema:
  "wf_node n \<Longrightarrow> \<forall>(i, v) \<in> set (leaves n). positive_id i \<and> PersistedPaneViewSchema v \<Longrightarrow>
     PersistedPanelNodeSchema (persist_node n)"
  by (induction n) (auto simp: list_all_iff PositiveRatio_def ratios_ok_def)

section \<open>Properties\<close>



text \<open>
  opening a terminal ends with that terminal in the focused pane and no pane zoomed, and
  the window shows the terminals it showed before and that one, each once. The only other
  outcome is that the window is returned unchanged: then it has six panes, the terminal is not
  shown, and the focused pane is occupied.
\<close>

theorem openTerminalView_opens:
  assumes "ws_ok w"
  shows "let w' = openTerminalView w i in
      getView (ws_tree w') (focusedPanelId w') = Some (TerminalPane i) \<and> zoomedPanelId w' = None \<and>
        mset (terminalIdsInWorkspace w') =
          mset (terminalIdsInWorkspace w) + (if i \<in> set (terminalIdsInWorkspace w) then {#} else {#i#})
    \<or> w' = w \<and> terminalPaneCount w = 6 \<and> i \<notin> set (terminalIdsInWorkspace w) \<and>
        getView (ws_tree w) (focusedPanelId w) \<noteq> Some EmptyPane"
proof (rule open_cases [OF assms, of i])
  fix p assume p: "(p, TerminalPane i) \<in> set (visitLeaves (ws_tree w))" "open_opt w i = focus_opt w p"
  then have "openTerminalView w i = focusTerminalPanel w p"
    by (simp add: openTerminalView_def focusTerminalPanel_def)
  with focusTerminalPanel_shows [OF assms p(1)] p(1) show ?thesis
    by (auto simp: Let_def shows_focused_def terminalIds_terms set_terms_of)
qed (auto simp: Let_def openTerminalView_def same_unless_def shows_focused_def terminalIds_terms
    MAX_TERMINAL_TILES_def)

definition sample_workspace :: workspace where
  "sample_workspace = openTerminalView (openTerminalView createTerminalWorkspace ''term-a'') ''term-b''"

lemma sample_workspace_ok: "ws_ok sample_workspace"
  by (simp add: sample_workspace_def openTerminalView_ok createTerminalWorkspace_ok)

lemma sample_workspace_eq:
  "sample_workspace = \<lparr>ws_tree = \<lparr>root = Split Row
       [Leaf 1 (TerminalPane ''term-a''), Leaf 2 (TerminalPane ''term-b'')] [Fin (1/2), Fin (1/2)],
     nextPanelId = 3\<rparr>, focusedPanelId = 2, zoomedPanelId = None\<rparr>"
  by code_simp

theorem openTerminalView_opens_witness:
  "mset (terminalIdsInWorkspace (openTerminalView sample_workspace ''term-c'')) =
     {#''term-a'', ''term-b'', ''term-c''#}"
  using openTerminalView_opens [OF sample_workspace_ok, of "''term-c''"] unfolding Let_def
  by (simp add: sample_workspace_eq terminalIds_terms visitLeaves_def terminalPaneCount_def add_mset_commute)

text \<open>
  docking a terminal on a pane keeps the invariant and never hides a terminal: the window
  is unchanged, or it shows the docked terminal in the focused pane and the terminals shown are
  those shown before, with the docked one added if it was not among them.
\<close>

theorem dockTerminalView_terminals:
  assumes "ws_ok w"
  shows "let w' = dockTerminalView w i target action in ws_ok w' \<and>
    (w' = w \<or>
     getView (ws_tree w') (focusedPanelId w') = Some (TerminalPane i) \<and> zoomedPanelId w' = None \<and>
     mset (terminalIdsInWorkspace w') =
       mset (terminalIdsInWorkspace w) + (if i \<in> set (terminalIdsInWorkspace w) then {#} else {#i#}))"
proof (rule dock_cases [OF assms, of i target action])
  assume *: "dockTerminalView w i target action = focusTerminalPanel w target"
    "(target, TerminalPane i) \<in> set (visitLeaves (ws_tree w))"
  then have "i \<in> set (terms (ws_tree w))" by (auto simp: set_terms_of)
  with * focusTerminalPanel_shows [OF assms *(2)] focusTerminalPanel_ok [OF assms] show ?thesis
    by (simp add: Let_def shows_focused_def terminalIds_terms)
qed (simp_all add: Let_def assms shows_focused_def terminalIds_terms)

theorem dockTerminalView_terminals_witness:
  "ws_ok (dockTerminalView sample_workspace ''term-a'' 2 (SplitAt EdgeTop))"
  using dockTerminalView_terminals [OF sample_workspace_ok] unfolding Let_def by blast

text \<open>
  removing the views of terminals that are gone leaves the other terminals where they are,
  in the same order, and keeps the invariant.
\<close>

theorem removeMissing_terminals:
  assumes "ws_ok w"
  shows "terminalIdsInWorkspace (removeMissingTerminalViews w live) =
      filter (\<lambda>i. i \<in> live) (terminalIdsInWorkspace w)
    \<and> terminalPaneCount (removeMissingTerminalViews w live) \<le> terminalPaneCount w"
  using removeMissing_wf [of w live] assms by (simp add: ws_ok_iff terminalIds_terms)

theorem removeMissing_terminals_witness:
  "terminalIdsInWorkspace (removeMissingTerminalViews sample_workspace {''term-b''}) = [''term-b'']"
  using removeMissing_terminals [OF sample_workspace_ok, of "{''term-b''}"]
  by (simp add: sample_workspace_eq terminalIds_terms visitLeaves_def)





end
