(* ===== verification/Mux_Routing.thy ===== *)
theory Mux_Routing
  imports Js_String Mux_Types
begin

text \<open>
  Deep links and the choice of what to show, \<^verbatim>\<open>packages/yaade-app/src/mux/mux-routing.ts\<close>: the
  route encoded in a URL, resource keys that ignore a multi-server prefix, and the functions
  that pick a session, a tab and a terminal. Of \<open>URL\<close> and \<open>URLSearchParams\<close> the query string is
  modelled: pairs separated by ampersands, form-decoded byte by byte.
\<close>

section \<open>Query strings\<close>

definition hex_value :: "char \<Rightarrow> nat option" where
  "hex_value c = (let n = (of_char c :: nat)
     in if 48 \<le> n \<and> n \<le> 57 then Some (n - 48)
        else if 65 \<le> n \<and> n \<le> 70 then Some (n - 55)
        else if 97 \<le> n \<and> n \<le> 102 then Some (n - 87) else None)"

fun form_decode :: "string \<Rightarrow> string" where
  "form_decode [] = []"
| "form_decode (c # s) =
     (if c = CHR ''+'' then CHR '' '' # form_decode s
      else if c = CHR ''%'' then
        (case s of
           h # l # s' \<Rightarrow>
             (case (hex_value h, hex_value l) of
                (Some a, Some b) \<Rightarrow> char_of (a * 16 + b) # form_decode s'
              | _ \<Rightarrow> c # form_decode s)
         | _ \<Rightarrow> c # form_decode s)
      else c # form_decode s)"

definition query_pair :: "string \<Rightarrow> string \<times> string" where
  "query_pair s =
     (case index_of ''='' s of
        None \<Rightarrow> (form_decode s, '''')
      | Some i \<Rightarrow> (form_decode (take i s), form_decode (drop (Suc i) s)))"

text \<open>The query of a URL is what follows the first question mark, up to a hash.\<close>

definition url_query :: "string \<Rightarrow> string" where
  "url_query url =
     (let u = (case index_of ''#'' url of None \<Rightarrow> url | Some i \<Rightarrow> take i url)
      in case index_of ''?'' u of None \<Rightarrow> '''' | Some i \<Rightarrow> drop (Suc i) u)"

definition searchParams_get :: "string \<Rightarrow> string \<Rightarrow> string option" where
  "searchParams_get url name =
     map_option snd (find (\<lambda>kv. fst kv = name)
       (map query_pair (filter (\<lambda>p. p \<noteq> '''') (split_on CHR ''&'' (url_query url)))))"

section \<open>Routes\<close>

record mux_route =
  route_sessionId :: "session_id option"
  route_tabId :: "tab_id option"
  route_muxTerminalId :: "terminal_id option"

definition optionalSessionId :: "string option \<Rightarrow> session_id option" where
  "optionalSessionId v = (case v of None \<Rightarrow> None | Some s \<Rightarrow> if s = '''' then None else if SessionId s then Some s else None)"

definition optionalTabId :: "string option \<Rightarrow> tab_id option" where
  "optionalTabId v = (case v of None \<Rightarrow> None | Some s \<Rightarrow> if s = '''' then None else if SessionTabId s then Some s else None)"

definition optionalMuxTerminalId :: "string option \<Rightarrow> terminal_id option" where
  "optionalMuxTerminalId v = (case v of None \<Rightarrow> None | Some s \<Rightarrow> if s = '''' then None else if MuxTerminalId s then Some s else None)"

definition parseMuxSessionRoute :: "string \<Rightarrow> mux_route" where
  "parseMuxSessionRoute url =
     \<lparr>route_sessionId = optionalSessionId (searchParams_get url ''s''),
      route_tabId = optionalTabId (searchParams_get url ''t''),
      route_muxTerminalId = optionalMuxTerminalId (searchParams_get url ''term'')\<rparr>"

definition isSessionTabId :: "string \<Rightarrow> bool" where
  "isSessionTabId v = starts_with ''tab-'' v"

definition isMuxTerminalId :: "string \<Rightarrow> bool" where
  "isMuxTerminalId v = starts_with ''term-'' v"

text \<open>Identifiers need no form encoding: their characters stand for themselves.\<close>

definition muxSessionUrl :: "session_id \<Rightarrow> string option \<Rightarrow> terminal_id option \<Rightarrow> string" where
  "muxSessionUrl sessionId tabOrTerm muxTerminalId =
     (let tabId = (case tabOrTerm of Some v \<Rightarrow> if isSessionTabId v then Some v else None | None \<Rightarrow> None);
          paneId = or_else muxTerminalId
            (case tabOrTerm of Some v \<Rightarrow> if isMuxTerminalId v then Some v else None | None \<Rightarrow> None)
      in ''/?s='' @ sessionId
           @ (case tabId of Some t \<Rightarrow> ''&t='' @ t | None \<Rightarrow> '''')
           @ (case paneId of Some p \<Rightarrow> ''&term='' @ p | None \<Rightarrow> ''''))"

text \<open>\<open>storage\<close> may throw: a read is \<open>None\<close> when it does, and a write then changes nothing.\<close>

definition LAST_MUX_SESSION_ROUTE_KEY :: string where
  "LAST_MUX_SESSION_ROUTE_KEY = ''yaade:last-terminal-multiplexer-route''"

definition persistMuxSessionRoute :: "(string \<Rightarrow> string \<Rightarrow> 'st \<Rightarrow> 'st option) \<Rightarrow> string \<Rightarrow> 'st \<Rightarrow> 'st" where
  "persistMuxSessionRoute setItem url st =
     (case setItem LAST_MUX_SESSION_ROUTE_KEY url st of None \<Rightarrow> st | Some st' \<Rightarrow> st')"

definition readPersistedMuxSessionRoute :: "(string \<Rightarrow> string option option) \<Rightarrow> string option" where
  "readPersistedMuxSessionRoute getItem =
     (case getItem LAST_MUX_SESSION_ROUTE_KEY of None \<Rightarrow> None | Some r \<Rightarrow> r)"

definition resolveMuxSessionRoute :: "string \<Rightarrow> (string \<Rightarrow> string option option) \<Rightarrow> mux_route" where
  "resolveMuxSessionRoute href getItem =
     (let live = parseMuxSessionRoute href
      in if route_sessionId live \<noteq> None then live
         else (case readPersistedMuxSessionRoute getItem of
                 None \<Rightarrow> live
               | Some saved \<Rightarrow>
                   if saved = '''' then live
                   else let restored = parseMuxSessionRoute saved
                        in if route_sessionId restored \<noteq> None then restored else live))"

section \<open>Local keys\<close>

definition strip_kind :: "string \<Rightarrow> string" where
  "strip_kind s =
     (if starts_with ''ses-'' s then drop 4 s
      else if starts_with ''tab-'' s then drop 4 s
      else if starts_with ''term-'' s then drop 5 s else s)"

definition localResourceKey :: "string \<Rightarrow> string" where
  "localResourceKey s =
     (let rest = strip_kind s
      in case index_of ''--'' rest of None \<Rightarrow> rest | Some i \<Rightarrow> drop (i + 2) rest)"

definition sameLocalResource :: "string option \<Rightarrow> string option \<Rightarrow> bool" where
  "sameLocalResource left right \<longleftrightarrow>
     (case (left, right) of
        (Some l, Some r) \<Rightarrow> l \<noteq> '''' \<and> r \<noteq> '''' \<and> (l = r \<or> localResourceKey l = localResourceKey r)
      | _ \<Rightarrow> False)"

definition findUniqueId :: "string option \<Rightarrow> string list \<Rightarrow> string option" where
  "findUniqueId requested ids =
     (case requested of
        None \<Rightarrow> None
      | Some q \<Rightarrow>
          if q = '''' then None
          else (case find (\<lambda>i. i = q) ids of
                  Some e \<Rightarrow> Some e
                | None \<Rightarrow> find (\<lambda>i. localResourceKey i = localResourceKey q) ids))"

definition findUniqueByLocalKey :: "('a \<Rightarrow> string) \<Rightarrow> string option \<Rightarrow> 'a list \<Rightarrow> 'a option" where
  "findUniqueByLocalKey key requested items =
     (case findUniqueId requested (map key items) of
        None \<Rightarrow> None
      | Some i \<Rightarrow> find (\<lambda>x. key x = i) items)"

datatype connection = Connecting | Connected | Reconciling | Offline

definition shouldHoldRequestedRoute ::
  "mux_route \<Rightarrow> session_id list \<Rightarrow> tab_id list \<Rightarrow> terminal_id list \<Rightarrow> connection \<Rightarrow> bool" where
  "shouldHoldRequestedRoute r sessions tabs terminals conn =
     (let missing = (\<lambda>q ids. q \<noteq> None \<and> findUniqueId q ids = None)
      in if \<not> (missing (route_sessionId r) sessions \<or> missing (route_tabId r) tabs \<or>
               missing (route_muxTerminalId r) terminals)
         then False
         else conn \<noteq> Connected)"

section \<open>Choosing what to show\<close>

definition chooseSession ::
  "(string \<Rightarrow> string \<Rightarrow> int) \<Rightarrow> session_id option \<Rightarrow> app_session list \<Rightarrow> app_session option" where
  "chooseSession localeCompare requested sessions =
     (let visible = filter (\<lambda>s. \<not> truthy (ses_archivedAt s)) sessions
      in if requested \<noteq> None then findUniqueByLocalKey ses_id requested visible
         else first_of (js_sort (\<lambda>a b. localeCompare (ses_updatedAt b) (ses_updatedAt a)) visible))"

definition isLiveSessionTab :: "app_session option \<Rightarrow> session_tab option \<Rightarrow> bool" where
  "isLiveSessionTab session tab \<longleftrightarrow>
     (case (session, tab) of
        (Some s, Some t) \<Rightarrow> \<not> truthy (ses_archivedAt s) \<and> \<not> truthy (tab_archivedAt t) \<and> tab_sessionId t = ses_id s
      | _ \<Rightarrow> False)"

definition chooseTab ::
  "tab_id option \<Rightarrow> app_session option \<Rightarrow> session_tab list \<Rightarrow> tab_id option \<Rightarrow> session_tab option" where
  "chooseTab requested session tabs owningTabId =
     (case session of
        None \<Rightarrow> None
      | Some s \<Rightarrow>
          (let visible = sort_key tab_position
                 (filter (\<lambda>t. tab_sessionId t = ses_id s \<and> \<not> truthy (tab_archivedAt t)) tabs)
           in or_else (findUniqueByLocalKey tab_id requested visible)
                (or_else (findUniqueByLocalKey tab_id owningTabId visible)
                  (or_else (findUniqueByLocalKey tab_id (ses_activeTabId s) visible)
                    (first_of visible)))))"

text \<open>The container is a tab or a session; only its active terminal is read.\<close>

definition chooseMuxTerminal :: "terminal_id option \<Rightarrow> terminal_id option option \<Rightarrow> terminal_id list \<Rightarrow> terminal_id option" where
  "chooseMuxTerminal requested container ids =
     (case container of
        None \<Rightarrow> None
      | Some active \<Rightarrow>
          or_else (findUniqueId requested ids) (or_else (findUniqueId active ids) (first_of ids)))"

section \<open>Lemmas\<close>

lemma findUniqueId_member: "findUniqueId q ids = Some i \<Longrightarrow> i \<in> set ids"
  unfolding findUniqueId_def
  by (cases q) (auto dest!: find_Some_D split: option.splits if_splits)

lemma findUniqueId_exact: "q \<in> set ids \<Longrightarrow> q \<noteq> '''' \<Longrightarrow> findUniqueId (Some q) ids = Some q"
  by (auto simp: findUniqueId_def find_None_iff dest: find_Some_D split: option.splits)

lemma findUniqueByLocalKey_member: "findUniqueByLocalKey key q items = Some x \<Longrightarrow> x \<in> set items"
  by (auto simp: findUniqueByLocalKey_def dest: find_Some_D split: option.splits)

lemma or_else_Some: "or_else x y = Some z \<longleftrightarrow> x = Some z \<or> x = None \<and> y = Some z"
  by (auto simp: or_else_def split: option.splits)

lemma or_else_None [simp]: "or_else x y = None \<longleftrightarrow> x = None \<and> y = None"
  by (auto simp: or_else_def split: option.splits)

text \<open>The characters of an identifier stand for themselves in a query string.\<close>

definition plain :: "string \<Rightarrow> bool" where
  "plain s \<longleftrightarrow> list_all id_char s"

lemma id_char_not: "\<not> id_char CHR ''+''" "\<not> id_char CHR ''%''" "\<not> id_char CHR ''&''" "\<not> id_char CHR ''=''"
  "\<not> id_char CHR ''?''" "\<not> id_char CHR ''#''"
  by (simp_all add: id_char_def)

lemma plain_not_in: "plain s \<Longrightarrow> \<not> id_char c \<Longrightarrow> c \<notin> set s"
  by (auto simp: plain_def list_all_iff)

lemma form_decode_plain: "plain s \<Longrightarrow> form_decode s = s"
  by (induction s) (auto simp: plain_def id_char_not)

lemma matches_prefix_plain:
  assumes "matches_prefix p s" "plain p"
  shows "plain s"
proof -
  have "s = p @ drop (length p) s" using assms(1) by (metis append_take_drop_id matches_prefix_def)
  then show ?thesis using assms by (metis list_all_append matches_prefix_def plain_def)
qed

lemma id_plain: "SessionId s \<Longrightarrow> plain s" "SessionTabId s \<Longrightarrow> plain s" "MuxTerminalId s \<Longrightarrow> plain s"
  unfolding SessionId_def SessionTabId_def MuxTerminalId_def
  by (erule matches_prefix_plain, simp add: plain_def id_char_def)+

lemma query_pair_plain:
  "plain n \<Longrightarrow> plain v \<Longrightarrow> query_pair (n @ CHR ''='' # v) = (n, v)"
  using plain_not_in [of n "CHR ''=''"]
  by (simp add: query_pair_def index_of_char_append form_decode_plain id_char_not)

lemma query_split: "plain v \<Longrightarrow> plain n \<Longrightarrow>
    split_on CHR ''&'' (n @ CHR ''='' # v @ CHR ''&'' # rest) = (n @ CHR ''='' # v) # split_on CHR ''&'' rest"
  using plain_not_in [of v "CHR ''&''"] plain_not_in [of n "CHR ''&''"] split_on_append [of "CHR ''&''" "n @ CHR ''='' # v" rest]
  by (simp add: id_char_not)

lemma query_split_last: "plain v \<Longrightarrow> plain n \<Longrightarrow>
    split_on CHR ''&'' (n @ CHR ''='' # v) = [n @ CHR ''='' # v]"
  using plain_not_in [of v "CHR ''&''"] plain_not_in [of n "CHR ''&''"]
  by (intro split_on_none) (simp add: id_char_not)

lemma url_query_slash: "CHR ''#'' \<notin> set q \<Longrightarrow> url_query (CHR ''/'' # CHR ''?'' # q) = q"
  by (simp add: url_query_def index_of_char_none)

text \<open>The parameters of a link: one for the session, then the tab, then the terminal.\<close>

fun params_string :: "(string \<times> string) list \<Rightarrow> string" where
  "params_string [] = ''''"
| "params_string [(n, v)] = n @ CHR ''='' # v"
| "params_string ((n, v) # kv # kvs) = n @ CHR ''='' # v @ CHR ''&'' # params_string (kv # kvs)"

lemma params_split:
  "\<forall>(n, v) \<in> set kvs. plain n \<and> plain v \<Longrightarrow> kvs \<noteq> [] \<Longrightarrow>
     map query_pair (filter (\<lambda>p. p \<noteq> '''') (split_on CHR ''&'' (params_string kvs))) = kvs"
  by (induction kvs rule: params_string.induct)
    (simp_all add: query_split query_split_last query_pair_plain del: split_on.simps)

lemma params_no_hash: "\<forall>(n, v) \<in> set kvs. plain n \<and> plain v \<Longrightarrow> CHR ''#'' \<notin> set (params_string kvs)"
  by (induction kvs rule: params_string.induct) (auto dest: plain_not_in [OF _ id_char_not(6)])

lemma searchParams_params:
  assumes "\<forall>(n, v) \<in> set kvs. plain n \<and> plain v" "kvs \<noteq> []"
  shows "searchParams_get (CHR ''/'' # CHR ''?'' # params_string kvs) name = map_option snd (find (\<lambda>kv. fst kv = name) kvs)"
  using assms by (simp add: searchParams_get_def url_query_slash params_no_hash params_split)

section \<open>Properties\<close>

text \<open>
  a deep link built from a session, an optional tab and an optional terminal is read back
  as exactly these identifiers.
\<close>

theorem mux_url_roundtrip:
  assumes "SessionId s" "opt_all SessionTabId t" "opt_all MuxTerminalId p"
  shows "parseMuxSessionRoute (muxSessionUrl s t p) =
    \<lparr>route_sessionId = Some s, route_tabId = t, route_muxTerminalId = p\<rparr>"
proof -
  define kvs where "kvs = (''s'', s) # (case t of Some x \<Rightarrow> [(''t'', x)] | None \<Rightarrow> []) @
      (case p of Some x \<Rightarrow> [(''term'', x)] | None \<Rightarrow> [])"
  have tab: "starts_with ''tab-'' x \<and> \<not> starts_with ''term-'' x" if "SessionTabId x" for x
    using that starts_with_nth [of "''tab-''" x 1] starts_with_nth [of "''term-''" x 1]
    by (auto simp: SessionTabId_def matches_prefix_def starts_with_def)
  have url: "muxSessionUrl s t p = CHR ''/'' # CHR ''?'' # params_string kvs"
    using assms(2) by (cases t; cases p)
      (auto simp: muxSessionUrl_def kvs_def isSessionTabId_def isMuxTerminalId_def or_else_def tab)
  have plain: "\<forall>(n, v) \<in> set kvs. plain n \<and> plain v"
    using assms by (cases t; cases p) (auto simp: kvs_def id_plain, auto simp: plain_def id_char_def)
  have nonempty: "SessionId x \<Longrightarrow> x \<noteq> ''''" "SessionTabId x \<Longrightarrow> x \<noteq> ''''" "MuxTerminalId x \<Longrightarrow> x \<noteq> ''''" for x
    by (auto simp: SessionId_def SessionTabId_def MuxTerminalId_def dest: matches_prefix_nonempty)
  have "kvs \<noteq> []" by (simp add: kvs_def)
  note get = searchParams_params [OF plain this]
  then have "searchParams_get (muxSessionUrl s t p) ''s'' = Some s" "searchParams_get (muxSessionUrl s t p) ''t'' = t"
    "searchParams_get (muxSessionUrl s t p) ''term'' = p"
    unfolding url get by (cases t; cases p; simp add: kvs_def)+
  then show ?thesis
    using assms nonempty
    by (cases t; cases p)
      (auto simp: parseMuxSessionRoute_def optionalSessionId_def optionalTabId_def optionalMuxTerminalId_def)
qed

theorem mux_url_roundtrip_witness:
  "parseMuxSessionRoute ''/?s=ses-1&t=tab-2'' =
     \<lparr>route_sessionId = Some ''ses-1'', route_tabId = Some ''tab-2'', route_muxTerminalId = None\<rparr>"
  using mux_url_roundtrip [of "''ses-1''" "Some ''tab-2''" None]
  by (simp add: muxSessionUrl_def SessionId_def SessionTabId_def matches_prefix_def id_char_def
      isSessionTabId_def isMuxTerminalId_def starts_with_def or_else_def)

text \<open>The tabs of a session that are not archived.\<close>

definition live_tabs :: "app_session \<Rightarrow> session_tab list \<Rightarrow> session_tab list" where
  "live_tabs s tabs = filter (\<lambda>t. tab_sessionId t = ses_id s \<and> \<not> truthy (tab_archivedAt t)) tabs"

text \<open>
  the tab that is chosen for a session is one of its live tabs; there is no choice exactly
  when it has none, and a live tab that is asked for by its own identifier is the one chosen.
\<close>

theorem chooseTab_live:
  assumes "distinct (map tab_id tabs)"
  shows "(\<forall>t. chooseTab q (Some s) tabs own = Some t \<longrightarrow> t \<in> set (live_tabs s tabs))
    \<and> (chooseTab q (Some s) tabs own = None \<longleftrightarrow> live_tabs s tabs = [])
    \<and> (\<forall>t \<in> set (live_tabs s tabs).
         q = Some (tab_id t) \<and> tab_id t \<noteq> '''' \<longrightarrow> chooseTab q (Some s) tabs own = Some t)"
proof -
  define visible where "visible = sort_key tab_position (live_tabs s tabs)"
  have vis: "set visible = set (live_tabs s tabs)" by (simp add: visible_def)
  have ch: "chooseTab q (Some s) tabs own = or_else (findUniqueByLocalKey tab_id q visible)
      (or_else (findUniqueByLocalKey tab_id own visible)
        (or_else (findUniqueByLocalKey tab_id (ses_activeTabId s) visible) (first_of visible)))"
    by (simp add: chooseTab_def visible_def live_tabs_def Let_def)
  have some: "t \<in> set (live_tabs s tabs)" if "chooseTab q (Some s) tabs own = Some t" for t
    using that unfolding ch or_else_Some vis [symmetric]
    by (auto dest: findUniqueByLocalKey_member first_of_in)
  moreover have "chooseTab q (Some s) tabs own = None \<longleftrightarrow> live_tabs s tabs = []"
  proof
    assume "chooseTab q (Some s) tabs own = None"
    then have "visible = []" unfolding ch by simp
    with vis show "live_tabs s tabs = []" by simp
  next
    assume "live_tabs s tabs = []"
    with some show "chooseTab q (Some s) tabs own = None"
      by (cases "chooseTab q (Some s) tabs own") auto
  qed
  moreover have "chooseTab q (Some s) tabs own = Some t"
    if t: "t \<in> set (live_tabs s tabs)" "q = Some (tab_id t)" "tab_id t \<noteq> ''''" for t
  proof -
    have inj: "inj_on tab_id (set tabs)" using assms(1) by (simp add: distinct_map)
    have "findUniqueId q (map tab_id visible) = Some (tab_id t)"
      using t vis by (simp add: findUniqueId_exact)
    moreover have "find (\<lambda>x. tab_id x = tab_id t) visible = Some t"
      by (rule find_unique) (use t vis inj in \<open>auto simp: live_tabs_def inj_on_def\<close>)
    ultimately show ?thesis unfolding ch by (simp add: findUniqueByLocalKey_def or_else_def)
  qed
  ultimately show ?thesis by blast
qed

definition sample_session :: app_session where
  "sample_session = \<lparr>ses_id = ''ses-1'', ses_title = ''s'', ses_position = 0, ses_activeTabId = None,
     ses_activeMuxTerminalId = None, ses_revision = Some 1, ses_createdAt = ''1'', ses_updatedAt = ''1'',
     ses_archivedAt = None\<rparr>"

definition sample_tab :: "string \<Rightarrow> int \<Rightarrow> session_tab" where
  "sample_tab i pos = \<lparr>tab_id = i, tab_sessionId = ''ses-1'', tab_title = ''t'', tab_position = pos,
     tab_activeMuxTerminalId = None, tab_layoutJson = None, tab_revision = Some 1, tab_createdAt = ''1'',
     tab_updatedAt = ''1'', tab_archivedAt = None\<rparr>"

theorem chooseTab_live_witness:
  "chooseTab (Some ''tab-2'') (Some sample_session) [sample_tab ''tab-1'' 0, sample_tab ''tab-2'' 1] None =
     Some (sample_tab ''tab-2'' 1)"
  using chooseTab_live [of "[sample_tab ''tab-1'' 0, sample_tab ''tab-2'' 1]" "Some ''tab-2''" sample_session None]
  by (simp add: live_tabs_def sample_tab_def sample_session_def truthy_def)

end
