(* ===== verification/Revision_Gate.thy ===== *)
theory Revision_Gate
  imports Prelude
begin

text \<open>
  The contract of every receiver of numbered messages in the program. Each message carries a
  number for some key; the receiver knows a position per key, ignores a message that is not
  above it, and otherwise moves the position of that key to the message's number or beyond and
  leaves the other positions alone, as long as its state is good. Redelivery, duplication and replay of whole histories are
  then harmless, which is proved here once and used through the interpretations.
\<close>

locale revision_gate =
  fixes position :: "'s \<Rightarrow> 'k \<Rightarrow> 'r :: linorder"
    and receive :: "'s \<Rightarrow> 'e \<Rightarrow> 's"
    and key :: "'e \<Rightarrow> 'k"
    and number :: "'e \<Rightarrow> 'r"
    and proper :: "'e \<Rightarrow> bool"
    and good :: "'s \<Rightarrow> bool"
  assumes stale: "number e \<le> position s (key e) \<Longrightarrow> receive s e = s"
    and fresh: "position s (key e) < number e \<Longrightarrow> proper e \<Longrightarrow> good s \<Longrightarrow>
      number e \<le> position (receive s e) (key e)"
    and others: "proper e \<Longrightarrow> good s \<Longrightarrow> k \<noteq> key e \<Longrightarrow> position (receive s e) k = position s k"
    and receive_good: "proper e \<Longrightarrow> good s \<Longrightarrow> good (receive s e)"
begin

lemma covered: "proper e \<Longrightarrow> good s \<Longrightarrow> number e \<le> position (receive s e) (key e)"
  using stale [of e s] fresh [of s e] by (cases "number e \<le> position s (key e)") auto

lemma monotone: "proper e \<Longrightarrow> good s \<Longrightarrow> position s k \<le> position (receive s e) k"
  using covered [of e s] stale [of e s] others [of e s k]
  by (cases "k = key e"; cases "number e \<le> position s (key e)") auto

lemma idempotent: "proper e \<Longrightarrow> good s \<Longrightarrow> receive (receive s e) e = receive s e"
  by (rule stale) (rule covered)

lemma run_good: "\<forall>e \<in> set es. proper e \<Longrightarrow> good s \<Longrightarrow> good (foldl receive s es)"
  by (induction es arbitrary: s) (auto intro: receive_good)

lemma run_monotone: "\<forall>e \<in> set es. proper e \<Longrightarrow> good s \<Longrightarrow> position s k \<le> position (foldl receive s es) k"
proof (induction es arbitrary: s)
  case (Cons e es)
  have "position s k \<le> position (receive s e) k" using Cons.prems by (auto intro: monotone)
  also have "\<dots> \<le> position (foldl receive (receive s e) es) k"
    using Cons.prems by (intro Cons.IH) (auto intro: receive_good)
  finally show ?case by simp
qed simp

lemma run_covered: "\<forall>e \<in> set es. proper e \<Longrightarrow> good s \<Longrightarrow> e \<in> set es \<Longrightarrow>
    number e \<le> position (foldl receive s es) (key e)"
proof (induction es arbitrary: s)
  case (Cons a es)
  have good: "good (receive s a)" using Cons.prems by (auto intro: receive_good)
  show ?case
  proof (cases "e \<in> set es")
    case True
    with Cons good show ?thesis by simp
  next
    case False
    then have "number e \<le> position (receive s a) (key e)"
      using Cons.prems covered [of a s] by simp
    also have "\<dots> \<le> position (foldl receive (receive s a) es) (key e)"
      using Cons.prems good by (intro run_monotone) auto
    finally show ?thesis by simp
  qed
qed simp

lemma covered_run: "\<forall>e \<in> set es. number e \<le> position s (key e) \<Longrightarrow> foldl receive s es = s"
  by (induction es) (auto simp: stale)

text \<open>Delivering a history again, in any order and any part of it, changes nothing.\<close>

lemma replay: "\<forall>e \<in> set es. proper e \<Longrightarrow> good s \<Longrightarrow> set es' \<subseteq> set es \<Longrightarrow>
    foldl receive (foldl receive s es) es' = foldl receive s es"
  by (rule covered_run) (auto intro: run_covered)

end

end
