(* ===== verification/Mux_Store.thy ===== *)
theory Mux_Store
  imports Mux_Routing Revision_Gate "HOL-Library.Multiset"
begin

text \<open>
  The normalized client state, \<^verbatim>\<open>packages/yaade-app/src/mux/mux-store.ts\<close>: sessions, tabs and
  terminals by identifier, the visible ones in display order, the current selection, the known
  revision of every entity, and the closes that the host has not confirmed yet. The published
  snapshot is the first part of the record. Listeners are not modelled; the handler of revision
  gaps is modelled by the gap that \<open>apply\<close> reports.
\<close>

section \<open>State\<close>

record mux_view =
  sessionsById :: "(session_id, app_session) jsmap"
  visibleSessionIds :: "session_id list"
  tabsById :: "(tab_id, session_tab) jsmap"
  visibleTabIdsBySession :: "(session_id, tab_id list) jsmap"
  terminalsById :: "(terminal_id, mux_terminal) jsmap"
  terminalIdsBySession :: "(session_id, terminal_id list) jsmap"
  terminalIdsByTab :: "(tab_id, terminal_id list) jsmap"
  activeSessionId :: "session_id option"
  activeTabId :: "tab_id option"
  activeMuxTerminalId :: "terminal_id option"
  view_connection :: connection

record mux_store = mux_view +
  published :: mux_view
  revisions :: "(string, int) jsmap"
  pendingTerminalCloses :: "(terminal_id, nat) jsmap"
  pendingTabCloses :: "(tab_id, nat) jsmap"
  nextCloseMutationId :: nat

datatype gap_entity = GapSession | GapTab | GapTerminal

record revision_gap =
  gap_entity :: gap_entity
  gap_id :: string
  expectedRevision :: int
  actualRevision :: int

record revision_snapshot =
  rev_sessions :: "(session_id, int) jsmap"
  rev_tabs :: "(tab_id, int) jsmap"
  rev_terminals :: "(terminal_id, int) jsmap"

definition get_list :: "('k, 'v list) jsmap \<Rightarrow> 'k \<Rightarrow> 'v list" where
  "get_list m k = (case map_of m k of None \<Rightarrow> [] | Some xs \<Rightarrow> xs)"

definition get_int :: "('k, int) jsmap \<Rightarrow> 'k \<Rightarrow> int" where
  "get_int m k = (case map_of m k of None \<Rightarrow> 0 | Some n \<Rightarrow> n)"

definition fallbackTab :: "app_session \<Rightarrow> session_tab" where
  "fallbackTab s =
     \<lparr>tab_id = ''tab-'' @ drop 4 (ses_id s), tab_sessionId = ses_id s, tab_title = ''Window 1'',
      tab_position = 0, tab_activeMuxTerminalId = None, tab_layoutJson = None, tab_revision = None,
      tab_createdAt = ses_createdAt s, tab_updatedAt = ses_updatedAt s, tab_archivedAt = None\<rparr>"

definition session_rev :: "app_session \<Rightarrow> int" where
  "session_rev s = or_zero (ses_revision s)"

definition tab_rev :: "session_tab \<Rightarrow> int" where
  "tab_rev t = or_zero (tab_revision t)"

definition makeSnapshot :: "mux_store \<Rightarrow> mux_view" where
  "makeSnapshot s = mux_view.truncate s"

definition publish :: "mux_store \<Rightarrow> mux_store" where
  "publish s = s\<lparr>published := makeSnapshot s\<rparr>"

definition empty_view :: mux_view where
  "empty_view =
     \<lparr>sessionsById = [], visibleSessionIds = [], tabsById = [], visibleTabIdsBySession = [],
      terminalsById = [], terminalIdsBySession = [], terminalIdsByTab = [], activeSessionId = None,
      activeTabId = None, activeMuxTerminalId = None, view_connection = Connecting\<rparr>"

definition new_store :: mux_store where
  "new_store = mux_view.extend empty_view
     \<lparr>published = empty_view, revisions = [], pendingTerminalCloses = [], pendingTabCloses = [],
      nextCloseMutationId = 1\<rparr>"

definition captureRevisions :: "mux_store \<Rightarrow> revision_snapshot" where
  "captureRevisions s =
     \<lparr>rev_sessions = map (\<lambda>(i, v). (i, session_rev v)) (sessionsById s),
      rev_tabs = map (\<lambda>(i, v). (i, tab_rev v)) (tabsById s),
      rev_terminals = map (\<lambda>(i, v). (i, term_revision v)) (terminalsById s)\<rparr>"

section \<open>Visible lists and indexes\<close>

definition tab_pos :: "mux_store \<Rightarrow> tab_id \<Rightarrow> int" where
  "tab_pos s i = (case map_of (tabsById s) i of None \<Rightarrow> 0 | Some t \<Rightarrow> tab_position t)"

definition term_pos :: "mux_store \<Rightarrow> terminal_id \<Rightarrow> int" where
  "term_pos s i = (case map_of (terminalsById s) i of None \<Rightarrow> 0 | Some t \<Rightarrow> term_position t)"

definition push :: "'k \<Rightarrow> 'v \<Rightarrow> ('k, 'v list) jsmap \<Rightarrow> ('k, 'v list) jsmap" where
  "push k v m = map_set k (get_list m k @ [v]) m"

definition sort_values :: "('v \<Rightarrow> int) \<Rightarrow> ('k, 'v list) jsmap \<Rightarrow> ('k, 'v list) jsmap" where
  "sort_values pos m = map (\<lambda>(k, ids). (k, sort_key pos ids)) m"

definition visible_session_ids :: "app_session list \<Rightarrow> session_id list" where
  "visible_session_ids ss = map ses_id (sort_key ses_position (filter (\<lambda>s. \<not> truthy (ses_archivedAt s)) ss))"

definition rebuildVisibleSessions :: "mux_store \<Rightarrow> mux_store" where
  "rebuildVisibleSessions s = s\<lparr>visibleSessionIds := visible_session_ids (map_values (sessionsById s))\<rparr>"

definition group_tabs :: "mux_store \<Rightarrow> session_tab list \<Rightarrow> (session_id, tab_id list) jsmap" where
  "group_tabs s ts =
     fold (\<lambda>t m. if truthy (tab_archivedAt t) \<or> map_has (pendingTabCloses s) (tab_id t) then m
                 else push (tab_sessionId t) (tab_id t) m) ts []"

definition tabIdForTerminal :: "mux_store \<Rightarrow> mux_terminal \<Rightarrow> tab_id option" where
  "tabIdForTerminal s t =
     (case term_tabId t of
        Some i \<Rightarrow> if i \<noteq> '''' \<and> map_has (tabsById s) i then Some i
                  else first_of (get_list (visibleTabIdsBySession s) (term_sessionId t))
      | None \<Rightarrow> first_of (get_list (visibleTabIdsBySession s) (term_sessionId t)))"

definition tab_closed :: "mux_store \<Rightarrow> tab_id \<Rightarrow> bool" where
  "tab_closed s i \<longleftrightarrow>
     (case map_of (tabsById s) i of None \<Rightarrow> False | Some t \<Rightarrow> truthy (tab_archivedAt t)) \<or>
     map_has (pendingTabCloses s) i"

text \<open>The tab under which a terminal is listed, when it is listed at all.\<close>

definition listed_tab :: "mux_store \<Rightarrow> mux_terminal \<Rightarrow> tab_id option" where
  "listed_tab s t =
     (if truthy (term_archivedAt t) \<or> map_has (pendingTerminalCloses s) (term_id t) then None
      else case tabIdForTerminal s t of
             None \<Rightarrow> None
           | Some i \<Rightarrow> if tab_closed s i then None else Some i)"

definition rebuildTerminalIndexes :: "mux_store \<Rightarrow> mux_store" where
  "rebuildTerminalIndexes s =
     (let bySession0 = map_from (map (\<lambda>i. (i, [])) (visibleSessionIds s));
          byTab0 = map_from (map (\<lambda>t. (tab_id t, []))
            (filter (\<lambda>t. \<not> truthy (tab_archivedAt t) \<and> \<not> map_has (pendingTabCloses s) (tab_id t))
              (map_values (tabsById s))));
          (bySession, byTab) =
            fold (\<lambda>t (ms, mt).
                    case listed_tab s t of
                      None \<Rightarrow> (ms, mt)
                    | Some i \<Rightarrow> (push (term_sessionId t) (term_id t) ms, push i (term_id t) mt))
                 (map_values (terminalsById s)) (bySession0, byTab0)
      in s\<lparr>terminalIdsBySession := sort_values (term_pos s) bySession,
           terminalIdsByTab := sort_values (term_pos s) byTab\<rparr>)"

definition rebuildVisibleTabs :: "mux_store \<Rightarrow> mux_store" where
  "rebuildVisibleTabs s =
     rebuildTerminalIndexes
       (s\<lparr>visibleTabIdsBySession := sort_values (tab_pos s) (group_tabs s (map_values (tabsById s)))\<rparr>)"

text \<open>\<open>touch\<close> sorts one list of an index; a key without a list is left alone.\<close>

definition touch :: "('v \<Rightarrow> int) \<Rightarrow> 'k \<Rightarrow> ('k, 'v list) jsmap \<Rightarrow> ('k, 'v list) jsmap" where
  "touch pos k m = (case map_of m k of None \<Rightarrow> m | Some ids \<Rightarrow> map_set k (sort_key pos ids) m)"

definition index_remove ::
  "mux_store \<Rightarrow> mux_terminal \<Rightarrow>
   (session_id, terminal_id list) jsmap \<times> (tab_id, terminal_id list) jsmap \<times> session_id list \<times> tab_id list \<Rightarrow>
   (session_id, terminal_id list) jsmap \<times> (tab_id, terminal_id list) jsmap \<times> session_id list \<times> tab_id list" where
  "index_remove s t st =
     (let (ms, mt, touchedS, touchedT) = st
      in if truthy (term_archivedAt t) then st
         else let without = filter (\<lambda>i. i \<noteq> term_id t);
                  ms' = map_set (term_sessionId t) (without (get_list ms (term_sessionId t))) ms
              in case tabIdForTerminal s t of
                   None \<Rightarrow> (ms', mt, List.insert (term_sessionId t) touchedS, touchedT)
                 | Some i \<Rightarrow> (ms', map_set i (without (get_list mt i)) mt,
                              List.insert (term_sessionId t) touchedS, List.insert i touchedT))"

definition index_insert ::
  "mux_store \<Rightarrow> mux_terminal \<Rightarrow>
   (session_id, terminal_id list) jsmap \<times> (tab_id, terminal_id list) jsmap \<times> session_id list \<times> tab_id list \<Rightarrow>
   (session_id, terminal_id list) jsmap \<times> (tab_id, terminal_id list) jsmap \<times> session_id list \<times> tab_id list" where
  "index_insert s t st =
     (let (ms, mt, touchedS, touchedT) = st
      in case listed_tab s t of
           None \<Rightarrow> st
         | Some i \<Rightarrow> (push (term_sessionId t) (term_id t) ms, push i (term_id t) mt,
                      List.insert (term_sessionId t) touchedS, List.insert i touchedT))"

definition updateTerminalIndexes :: "mux_store \<Rightarrow> mux_terminal option \<Rightarrow> mux_terminal \<Rightarrow> mux_store" where
  "updateTerminalIndexes s previous next =
     (let st0 = (terminalIdsBySession s, terminalIdsByTab s, [], []);
          st1 = (case previous of None \<Rightarrow> st0 | Some p \<Rightarrow> index_remove s p st0);
          (ms, mt, touchedS, touchedT) = index_insert s next st1
      in s\<lparr>terminalIdsBySession := fold (touch (term_pos s)) touchedS ms,
           terminalIdsByTab := fold (touch (term_pos s)) touchedT mt\<rparr>)"

definition upsertTerminal :: "mux_store \<Rightarrow> mux_terminal \<Rightarrow> mux_store" where
  "upsertTerminal s t =
     (let previous = map_of (terminalsById s) (term_id t);
          s1 = s\<lparr>terminalsById := map_set (term_id t) t (terminalsById s)\<rparr>
      in if (case previous of
               None \<Rightarrow> True
             | Some p \<Rightarrow> term_sessionId p \<noteq> term_sessionId t \<or> term_tabId p \<noteq> term_tabId t \<or>
                         term_archivedAt p \<noteq> term_archivedAt t \<or> term_position p \<noteq> term_position t)
         then updateTerminalIndexes s1 previous t else s1)"

section \<open>Selection\<close>

definition selectedTabForSession :: "mux_store \<Rightarrow> session_id \<Rightarrow> tab_id option" where
  "selectedTabForSession s i =
     (let ids = get_list (visibleTabIdsBySession s) i
      in case map_of (sessionsById s) i of
           None \<Rightarrow> first_of ids
         | Some session \<Rightarrow>
             (case ses_activeTabId session of
                Some t \<Rightarrow> if t \<in> set ids then Some t else first_of ids
              | None \<Rightarrow> first_of ids))"

definition selectedTerminalForTab :: "mux_store \<Rightarrow> tab_id \<Rightarrow> terminal_id option" where
  "selectedTerminalForTab s i =
     (let ids = get_list (terminalIdsByTab s) i
      in case map_of (tabsById s) i of
           None \<Rightarrow> first_of ids
         | Some tab \<Rightarrow>
             (case tab_activeMuxTerminalId tab of
                Some t \<Rightarrow> if t \<in> set ids then Some t else first_of ids
              | None \<Rightarrow> first_of ids))"

definition reconcileSelection :: "mux_store \<Rightarrow> mux_store" where
  "reconcileSelection s =
     (let s1 = (case activeSessionId s of
                  Some i \<Rightarrow> if map_has (sessionsById s) i \<and> i \<in> set (visibleSessionIds s) then s
                            else s\<lparr>activeSessionId := first_of (visibleSessionIds s)\<rparr>
                | None \<Rightarrow> s\<lparr>activeSessionId := first_of (visibleSessionIds s)\<rparr>)
      in case activeSessionId s1 of
           None \<Rightarrow> s1\<lparr>activeTabId := None, activeMuxTerminalId := None\<rparr>
         | Some sid \<Rightarrow>
             (let tabIds = get_list (visibleTabIdsBySession s1) sid;
                  s2 = (case activeTabId s1 of
                          Some t \<Rightarrow> if t \<in> set tabIds then s1
                                    else s1\<lparr>activeTabId := selectedTabForSession s1 sid\<rparr>
                        | None \<Rightarrow> s1\<lparr>activeTabId := selectedTabForSession s1 sid\<rparr>)
              in s2\<lparr>activeMuxTerminalId :=
                     (case activeTabId s2 of
                        None \<Rightarrow> None
                      | Some t \<Rightarrow>
                          (case activeMuxTerminalId s2 of
                             Some m \<Rightarrow> if m \<in> set (get_list (terminalIdsByTab s2) t) then Some m
                                       else selectedTerminalForTab s2 t
                           | None \<Rightarrow> selectedTerminalForTab s2 t))\<rparr>))"

definition findByLocalKey :: "('a \<Rightarrow> string) \<Rightarrow> (string, 'a) jsmap \<Rightarrow> string \<Rightarrow> 'a option" where
  "findByLocalKey key items requested =
     (case map_of items requested of
        Some x \<Rightarrow> Some x
      | None \<Rightarrow> find (\<lambda>x. localResourceKey (key x) = localResourceKey requested) (map_values items))"

definition resolveSessionId :: "mux_store \<Rightarrow> string \<Rightarrow> session_id option" where
  "resolveSessionId s i =
     (if map_has (sessionsById s) i then Some i
      else map_option ses_id (findByLocalKey ses_id (sessionsById s) i))"

definition selectSession :: "mux_store \<Rightarrow> session_id \<Rightarrow> mux_store" where
  "selectSession s i =
     (case resolveSessionId s i of
        None \<Rightarrow> s
      | Some r \<Rightarrow>
          if activeSessionId s = Some r then s
          else let s1 = s\<lparr>activeSessionId := Some r, activeTabId := selectedTabForSession s r\<rparr>
               in publish (s1\<lparr>activeMuxTerminalId :=
                    (case activeTabId s1 of None \<Rightarrow> None | Some t \<Rightarrow> selectedTerminalForTab s1 t)\<rparr>))"

definition selectTab :: "mux_store \<Rightarrow> tab_id \<Rightarrow> mux_store" where
  "selectTab s i =
     (case or_else (map_of (tabsById s) i) (findByLocalKey tab_id (tabsById s) i) of
        None \<Rightarrow> s
      | Some tab \<Rightarrow>
          if truthy (tab_archivedAt tab) \<or> map_has (pendingTabCloses s) (tab_id tab) then s
          else publish (s\<lparr>activeSessionId := Some (tab_sessionId tab), activeTabId := Some i,
                          activeMuxTerminalId := selectedTerminalForTab s i\<rparr>))"

definition selectMuxTerminal :: "mux_store \<Rightarrow> terminal_id \<Rightarrow> mux_store" where
  "selectMuxTerminal s i =
     (case or_else (map_of (terminalsById s) i) (findByLocalKey term_id (terminalsById s) i) of
        None \<Rightarrow> s
      | Some t \<Rightarrow>
          if truthy (term_archivedAt t) \<or> map_has (pendingTerminalCloses s) (term_id t) then s
          else (case tabIdForTerminal s t of
                  None \<Rightarrow> s
                | Some tid \<Rightarrow>
                    publish (s\<lparr>activeSessionId := Some (term_sessionId t), activeTabId := Some tid,
                               activeMuxTerminalId := Some i\<rparr>)))"

definition setConnection :: "mux_store \<Rightarrow> connection \<Rightarrow> mux_store" where
  "setConnection s c = (if view_connection s = c then s else publish (s\<lparr>view_connection := c\<rparr>))"

section \<open>Pending closes\<close>

definition stageTerminalClose :: "mux_store \<Rightarrow> terminal_id \<Rightarrow> mux_store \<times> nat option" where
  "stageTerminalClose s i =
     (case map_of (terminalsById s) i of
        None \<Rightarrow> (s, None)
      | Some t \<Rightarrow>
          if truthy (term_archivedAt t) \<or> map_has (pendingTerminalCloses s) i then (s, None)
          else let m = nextCloseMutationId s;
                   s1 = s\<lparr>nextCloseMutationId := m + 1,
                          pendingTerminalCloses := map_set i m (pendingTerminalCloses s)\<rparr>
               in (publish (reconcileSelection (rebuildTerminalIndexes s1)), Some m))"

definition stageTabClose :: "mux_store \<Rightarrow> tab_id \<Rightarrow> mux_store \<times> nat option" where
  "stageTabClose s i =
     (case map_of (tabsById s) i of
        None \<Rightarrow> (s, None)
      | Some t \<Rightarrow>
          if truthy (tab_archivedAt t) \<or> map_has (pendingTabCloses s) i then (s, None)
          else let m = nextCloseMutationId s;
                   s1 = s\<lparr>nextCloseMutationId := m + 1,
                          pendingTabCloses := map_set i m (pendingTabCloses s)\<rparr>
               in (publish (reconcileSelection (rebuildVisibleTabs s1)), Some m))"

text \<open>The two methods of a close handle, for the terminal map and for the tab map.\<close>

definition confirmTerminalClose :: "mux_store \<Rightarrow> terminal_id \<Rightarrow> nat \<Rightarrow> mux_store" where
  "confirmTerminalClose s i m =
     (if map_of (pendingTerminalCloses s) i = Some m
      then s\<lparr>pendingTerminalCloses := map_delete i (pendingTerminalCloses s)\<rparr> else s)"

definition rollbackTerminalClose :: "mux_store \<Rightarrow> terminal_id \<Rightarrow> nat \<Rightarrow> mux_store" where
  "rollbackTerminalClose s i m =
     (if map_of (pendingTerminalCloses s) i \<noteq> Some m then s
      else publish (reconcileSelection (rebuildVisibleTabs
             (s\<lparr>pendingTerminalCloses := map_delete i (pendingTerminalCloses s)\<rparr>))))"

definition confirmTabClose :: "mux_store \<Rightarrow> tab_id \<Rightarrow> nat \<Rightarrow> mux_store" where
  "confirmTabClose s i m =
     (if map_of (pendingTabCloses s) i = Some m
      then s\<lparr>pendingTabCloses := map_delete i (pendingTabCloses s)\<rparr> else s)"

definition rollbackTabClose :: "mux_store \<Rightarrow> tab_id \<Rightarrow> nat \<Rightarrow> mux_store" where
  "rollbackTabClose s i m =
     (if map_of (pendingTabCloses s) i \<noteq> Some m then s
      else publish (reconcileSelection (rebuildVisibleTabs
             (s\<lparr>pendingTabCloses := map_delete i (pendingTabCloses s)\<rparr>))))"

definition clearPendingCloses :: "mux_store \<Rightarrow> mux_store" where
  "clearPendingCloses s =
     (if pendingTerminalCloses s = [] \<and> pendingTabCloses s = [] then s
      else publish (reconcileSelection (rebuildVisibleTabs
             (s\<lparr>pendingTerminalCloses := [], pendingTabCloses := []\<rparr>))))"

definition clearAuthoritativelyFinishedCloses :: "mux_store \<Rightarrow> mux_store" where
  "clearAuthoritativelyFinishedCloses s =
     s\<lparr>pendingTerminalCloses :=
         filter (\<lambda>(i, m). case map_of (terminalsById s) i of
                             None \<Rightarrow> False | Some t \<Rightarrow> \<not> truthy (term_archivedAt t)) (pendingTerminalCloses s),
       pendingTabCloses :=
         filter (\<lambda>(i, m). case map_of (tabsById s) i of
                             None \<Rightarrow> False | Some t \<Rightarrow> \<not> truthy (tab_archivedAt t)) (pendingTabCloses s)\<rparr>"

section \<open>Snapshots\<close>

definition session_key :: "session_id \<Rightarrow> string" where
  "session_key i = ''session:'' @ i"

definition tab_key :: "tab_id \<Rightarrow> string" where
  "tab_key i = ''tab:'' @ i"

definition terminal_key :: "terminal_id \<Rightarrow> string" where
  "terminal_key i = ''terminal:'' @ i"

definition raise_revision :: "string \<Rightarrow> int \<Rightarrow> (string, int) jsmap \<Rightarrow> (string, int) jsmap" where
  "raise_revision k r m = map_set k (max (get_int m k) r) m"

definition raise_all :: "(string \<times> int) list \<Rightarrow> (string, int) jsmap \<Rightarrow> (string, int) jsmap" where
  "raise_all krs m = fold (\<lambda>(k, r). raise_revision k r) krs m"

text \<open>The newer of the local and the received entity, and local entities changed meanwhile.\<close>

definition merge_entities ::
  "('v \<Rightarrow> int) \<Rightarrow> (string, int) jsmap \<Rightarrow> (string, 'v) jsmap \<Rightarrow> (string, 'v) jsmap \<Rightarrow> (string, 'v) jsmap" where
  "merge_entities ver base current incoming =
     (let merged = fold (\<lambda>(i, v) m. map_set i
                     (case map_of current i of
                        Some c \<Rightarrow> if ver v < ver c then c else v | None \<Rightarrow> v) m) incoming []
      in fold (\<lambda>(i, c) m. if \<not> map_has incoming i \<and> get_int base i < ver c then map_set i c m else m)
           current merged)"

definition add_fallback :: "app_session \<Rightarrow> (tab_id, session_tab) jsmap \<Rightarrow> (tab_id, session_tab) jsmap" where
  "add_fallback session tabs =
     (if \<exists>t \<in> set (map_values tabs). tab_sessionId t = ses_id session \<and> \<not> truthy (tab_archivedAt t)
      then tabs else map_set (tab_id (fallbackTab session)) (fallbackTab session) tabs)"

definition mergeSnapshot ::
  "mux_store \<Rightarrow> app_session list \<Rightarrow> mux_terminal list \<Rightarrow> session_tab list \<Rightarrow> bool \<Rightarrow> revision_snapshot \<Rightarrow> mux_store" where
  "mergeSnapshot s sessions terminals tabs hasTabs baseline =
     (let nextSessions = merge_entities session_rev (rev_sessions baseline) (sessionsById s)
            (map_from (map (\<lambda>v. (ses_id v, v)) sessions));
          nextTabs0 = (if hasTabs
            then merge_entities tab_rev (rev_tabs baseline) (tabsById s) (map_from (map (\<lambda>v. (tab_id v, v)) tabs))
            else tabsById s);
          nextTabs = fold add_fallback (map_values nextSessions) nextTabs0;
          nextTerminals = merge_entities term_revision (rev_terminals baseline) (terminalsById s)
            (map_from (map (\<lambda>v. (term_id v, v)) terminals));
          s1 = clearAuthoritativelyFinishedCloses
                 (s\<lparr>sessionsById := nextSessions, tabsById := nextTabs, terminalsById := nextTerminals\<rparr>);
          krs = map (\<lambda>(i, v). (session_key i, session_rev v)) nextSessions
              @ map (\<lambda>(i, v). (tab_key i, tab_rev v)) nextTabs
              @ map (\<lambda>(i, v). (terminal_key i, term_revision v)) nextTerminals
              @ map (\<lambda>(i, r). (session_key i, r)) (rev_sessions baseline)
              @ map (\<lambda>(i, r). (tab_key i, r)) (rev_tabs baseline)
              @ map (\<lambda>(i, r). (terminal_key i, r)) (rev_terminals baseline)
      in publish (reconcileSelection (rebuildVisibleTabs (rebuildVisibleSessions
           (s1\<lparr>revisions := raise_all krs (revisions s1)\<rparr>)))))"

definition push_fallbacks :: "app_session list \<Rightarrow> session_tab list \<Rightarrow> session_tab list" where
  "push_fallbacks sessions tabs =
     fold (\<lambda>session ts.
             if \<exists>t \<in> set ts. tab_sessionId t = ses_id session \<and> \<not> truthy (tab_archivedAt t)
             then ts else ts @ [fallbackTab session]) sessions tabs"

definition replace_all :: "mux_store \<Rightarrow> app_session list \<Rightarrow> mux_terminal list \<Rightarrow> session_tab list \<Rightarrow> mux_store" where
  "replace_all s sessions terminals tabs =
     (let nextTabs = push_fallbacks sessions tabs;
          s1 = s\<lparr>sessionsById := map_from (map (\<lambda>v. (ses_id v, v)) sessions),
                 visibleSessionIds := visible_session_ids sessions,
                 tabsById := map_from (map (\<lambda>v. (tab_id v, v)) nextTabs)\<rparr>;
          s2 = s1\<lparr>visibleTabIdsBySession := sort_values (tab_pos s1) (group_tabs s1 nextTabs),
                  terminalsById := map_from (map (\<lambda>v. (term_id v, v)) terminals)\<rparr>;
          s3 = clearAuthoritativelyFinishedCloses s2;
          krs = map (\<lambda>v. (session_key (ses_id v), session_rev v)) sessions
              @ map (\<lambda>v. (tab_key (tab_id v), tab_rev v)) tabs
              @ map (\<lambda>v. (terminal_key (term_id v), term_revision v)) terminals
      in publish (reconcileSelection (rebuildTerminalIndexes
           (s3\<lparr>revisions := raise_all krs (revisions s3)\<rparr>))))"

definition replaceTab :: "mux_store \<Rightarrow> session_tab \<Rightarrow> mux_store" where
  "replaceTab s t =
     (if (case map_of (tabsById s) (tab_id t) of
            None \<Rightarrow> False
          | Some c \<Rightarrow> tab_rev t < tab_rev c \<or>
              (tab_rev c = tab_rev t \<and> str_less (tab_updatedAt t) (tab_updatedAt c)))
      then s
      else let s1 = s\<lparr>tabsById := map_set (tab_id t) t (tabsById s)\<rparr>;
               s2 = (if truthy (tab_archivedAt t)
                     then s1\<lparr>pendingTabCloses := map_delete (tab_id t) (pendingTabCloses s1)\<rparr> else s1)
           in publish (reconcileSelection (rebuildVisibleTabs s2)))"

definition replaceMuxTerminal :: "mux_store \<Rightarrow> mux_terminal \<Rightarrow> mux_store" where
  "replaceMuxTerminal s t =
     (if (case map_of (terminalsById s) (term_id t) of
            None \<Rightarrow> False
          | Some c \<Rightarrow> term_revision t < term_revision c \<or>
              (term_revision c = term_revision t \<and> str_less (term_updatedAt t) (term_updatedAt c)))
      then s
      else replace_all s (map_values (sessionsById s))
             (filter (\<lambda>c. term_id c \<noteq> term_id t) (map_values (terminalsById s)) @ [t])
             (map_values (tabsById s)))"

definition replaceMuxTerminalIfNewer :: "mux_store \<Rightarrow> mux_terminal \<Rightarrow> mux_store" where
  "replaceMuxTerminalIfNewer s t =
     (if (case map_of (terminalsById s) (term_id t) of
            None \<Rightarrow> False | Some c \<Rightarrow> term_revision t < term_revision c)
      then s else replaceMuxTerminal s t)"

text \<open>Received entities with the local archived ones; local ones win when they are newer.\<close>

definition keep_newer :: "('v \<Rightarrow> string) \<Rightarrow> ('v \<Rightarrow> int) \<Rightarrow> (string, 'v) jsmap \<Rightarrow> 'v list \<Rightarrow> (string, 'v) jsmap \<Rightarrow> (string, 'v) jsmap" where
  "keep_newer key ver current incoming m =
     fold (\<lambda>v m. case map_of current (key v) of
                    Some c \<Rightarrow> if ver v < ver c then map_set (key v) c m else m
                  | None \<Rightarrow> m) incoming m"

definition replaceSession ::
  "mux_store \<Rightarrow> app_session \<Rightarrow> mux_terminal list \<Rightarrow> session_tab list option \<Rightarrow> mux_store" where
  "replaceSession s session terminals tabs =
     (let nextSession = (case map_of (sessionsById s) (ses_id session) of
            Some c \<Rightarrow> if session_rev session < session_rev c then c else session | None \<Rightarrow> session);
          sessions = filter (\<lambda>c. ses_id c \<noteq> ses_id session) (map_values (sessionsById s));
          existingTerminals = filter (\<lambda>c. term_sessionId c \<noteq> ses_id session) (map_values (terminalsById s));
          inc0 = map_from (map (\<lambda>v. (term_id v, v)) terminals);
          inc1 = fold (\<lambda>c m. if term_sessionId c \<noteq> ses_id session \<or> map_has m (term_id c) then m
                              else if truthy (term_archivedAt c) then map_set (term_id c) c m else m)
                   (map_values (terminalsById s)) inc0;
          incomingTerminals = keep_newer term_id term_revision (terminalsById s) terminals inc1;
          existingTabs = filter (\<lambda>c. tab_sessionId c \<noteq> ses_id session) (map_values (tabsById s));
          given = (case tabs of None \<Rightarrow> [] | Some ts \<Rightarrow> ts);
          tin0 = map_from (map (\<lambda>v. (tab_id v, v)) given);
          tin1 = fold (\<lambda>c m. if tab_sessionId c \<noteq> ses_id session then m
                              else if tabs = None then map_set (tab_id c) c m
                              else if map_has m (tab_id c) then m
                              else if truthy (tab_archivedAt c) then map_set (tab_id c) c m else m)
                   (map_values (tabsById s)) tin0;
          incomingTabs = keep_newer tab_id tab_rev (tabsById s) given tin1
      in replace_all s (sessions @ [nextSession]) (existingTerminals @ map_values incomingTerminals)
           (existingTabs @ map_values incomingTabs))"

section \<open>Events\<close>

fun event_key :: "mux_event \<Rightarrow> gap_entity \<times> string" where
  "event_key (SessionTabCreated b t) = (GapTab, tab_id t)"
| "event_key (SessionTabUpdated b t) = (GapTab, tab_id t)"
| "event_key (SessionTabArchived b t) = (GapTab, tab_id t)"
| "event_key (MuxTerminalCreated b i t) = (GapTerminal, i)"
| "event_key (MuxTerminalUpdated b i t) = (GapTerminal, i)"
| "event_key (TerminalOutputChanged b i r) = (GapTerminal, i)"
| "event_key (MuxTerminalArchived b i) = (GapTerminal, i)"
| "event_key (SessionCreated b s) = (GapSession, ses_id s)"
| "event_key (SessionUpdated b s) = (GapSession, ses_id s)"
| "event_key (SessionArchived b s) = (GapSession, ses_id s)"
| "event_key (SessionRestored b s) = (GapSession, ses_id s)"

fun key_string :: "gap_entity \<times> string \<Rightarrow> string" where
  "key_string (GapSession, i) = session_key i"
| "key_string (GapTab, i) = tab_key i"
| "key_string (GapTerminal, i) = terminal_key i"

fun current_revision :: "mux_store \<Rightarrow> gap_entity \<times> string \<Rightarrow> int" where
  "current_revision s (GapSession, i) = (case map_of (sessionsById s) i of None \<Rightarrow> 0 | Some v \<Rightarrow> session_rev v)"
| "current_revision s (GapTab, i) = (case map_of (tabsById s) i of None \<Rightarrow> 0 | Some v \<Rightarrow> tab_rev v)"
| "current_revision s (GapTerminal, i) = (case map_of (terminalsById s) i of None \<Rightarrow> 0 | Some v \<Rightarrow> term_revision v)"

definition knownRevision :: "mux_store \<Rightarrow> gap_entity \<times> string \<Rightarrow> int" where
  "knownRevision s k = max (get_int (revisions s) (key_string k)) (current_revision s k)"

definition apply_session :: "mux_store \<Rightarrow> app_session \<Rightarrow> mux_store" where
  "apply_session s session =
     (let s1 = rebuildVisibleSessions (s\<lparr>sessionsById := map_set (ses_id session) session (sessionsById s)\<rparr>)
      in if activeSessionId s1 \<noteq> Some (ses_id session) then s1
         else
           let tabIds = get_list (visibleTabIdsBySession s1) (ses_id session);
               nextTabId =
                 (if activeTabId s1 \<noteq> None \<and> the (activeTabId s1) \<in> set tabIds then activeTabId s1
                  else if ses_activeTabId session \<noteq> None \<and> the (ses_activeTabId session) \<in> set tabIds
                  then ses_activeTabId session
                  else selectedTabForSession s1 (ses_id session));
               s2 = s1\<lparr>activeTabId := nextTabId\<rparr>;
               terminalIds = (case nextTabId of None \<Rightarrow> [] | Some t \<Rightarrow> get_list (terminalIdsByTab s2) t)
           in if activeMuxTerminalId s2 = None \<or> the (activeMuxTerminalId s2) \<notin> set terminalIds
              then s2\<lparr>activeMuxTerminalId :=
                     (case nextTabId of None \<Rightarrow> None | Some t \<Rightarrow> selectedTerminalForTab s2 t)\<rparr>
              else s2)"

definition apply_tab :: "mux_store \<Rightarrow> session_tab \<Rightarrow> mux_store" where
  "apply_tab s tab =
     (let s1 = s\<lparr>tabsById := map_set (tab_id tab) tab (tabsById s)\<rparr>;
          s2 = (if truthy (tab_archivedAt tab)
                then s1\<lparr>pendingTabCloses := map_delete (tab_id tab) (pendingTabCloses s1)\<rparr> else s1);
          s3 = rebuildVisibleTabs s2
      in if activeTabId s3 \<noteq> Some (tab_id tab) then s3
         else let ids = get_list (terminalIdsByTab s3) (tab_id tab)
              in if activeMuxTerminalId s3 \<noteq> None \<and> the (activeMuxTerminalId s3) \<in> set ids then s3
                 else s3\<lparr>activeMuxTerminalId := selectedTerminalForTab s3 (tab_id tab)\<rparr>)"

definition apply_terminal :: "mux_store \<Rightarrow> mux_terminal \<Rightarrow> mux_store" where
  "apply_terminal s t =
     (if (case map_of (terminalsById s) (term_id t) of
            None \<Rightarrow> False | Some c \<Rightarrow> truthy (term_archivedAt c) \<and> \<not> truthy (term_archivedAt t))
      then s else upsertTerminal s t)"

fun apply_body :: "mux_store \<Rightarrow> mux_event \<Rightarrow> mux_store" where
  "apply_body s (SessionCreated b v) = apply_session s v"
| "apply_body s (SessionUpdated b v) = apply_session s v"
| "apply_body s (SessionArchived b v) = apply_session s v"
| "apply_body s (SessionRestored b v) = apply_session s v"
| "apply_body s (SessionTabCreated b t) = apply_tab s t"
| "apply_body s (SessionTabUpdated b t) = apply_tab s t"
| "apply_body s (SessionTabArchived b t) = apply_tab s t"
| "apply_body s (MuxTerminalCreated b i t) = apply_terminal s t"
| "apply_body s (MuxTerminalUpdated b i t) = apply_terminal s t"
| "apply_body s (TerminalOutputChanged b i out) =
     (case map_of (terminalsById s) i of
        None \<Rightarrow> s
      | Some t \<Rightarrow> upsertTerminal s (t\<lparr>term_output := out, term_revision := ev_revision b, term_updatedAt := occurredAt b\<rparr>))"
| "apply_body s (MuxTerminalArchived b i) =
     (case map_of (terminalsById s) i of
        None \<Rightarrow> s
      | Some t \<Rightarrow>
          upsertTerminal (s\<lparr>pendingTerminalCloses := map_delete i (pendingTerminalCloses s)\<rparr>)
            (t\<lparr>term_archivedAt := Some (occurredAt b), term_revision := ev_revision b, term_updatedAt := occurredAt b\<rparr>))"

definition apply_event :: "mux_store \<Rightarrow> mux_event \<Rightarrow> mux_store \<times> revision_gap option" where
  "apply_event s ev =
     (let k = event_key ev; r = ev_revision (event_base_of ev); known = knownRevision s k
      in if r \<le> known then (s, None)
         else
           let gap = (if 0 < known \<and> known + 1 < r
                      then Some \<lparr>gap_entity = fst k, gap_id = snd k, expectedRevision = known + 1, actualRevision = r\<rparr>
                      else None);
               s1 = s\<lparr>revisions := map_set (key_string k) r (revisions s)\<rparr>
           in (publish (reconcileSelection (apply_body s1 ev)), gap))"

section \<open>What the parts leave alone\<close>

named_theorems frame "fields that an operation does not change"

lemma publish_frame [frame]:
  "sessionsById (publish s) = sessionsById s" "tabsById (publish s) = tabsById s"
  "terminalsById (publish s) = terminalsById s" "revisions (publish s) = revisions s"
  "visibleSessionIds (publish s) = visibleSessionIds s"
  "visibleTabIdsBySession (publish s) = visibleTabIdsBySession s"
  "terminalIdsBySession (publish s) = terminalIdsBySession s"
  "terminalIdsByTab (publish s) = terminalIdsByTab s"
  "activeSessionId (publish s) = activeSessionId s" "activeTabId (publish s) = activeTabId s"
  "activeMuxTerminalId (publish s) = activeMuxTerminalId s"
  "pendingTerminalCloses (publish s) = pendingTerminalCloses s"
  "pendingTabCloses (publish s) = pendingTabCloses s"
  by (cases s, simp add: publish_def)+

lemma reconcile_frame [frame]:
  "sessionsById (reconcileSelection s) = sessionsById s" "tabsById (reconcileSelection s) = tabsById s"
  "terminalsById (reconcileSelection s) = terminalsById s" "revisions (reconcileSelection s) = revisions s"
  "visibleSessionIds (reconcileSelection s) = visibleSessionIds s"
  "visibleTabIdsBySession (reconcileSelection s) = visibleTabIdsBySession s"
  "terminalIdsBySession (reconcileSelection s) = terminalIdsBySession s"
  "terminalIdsByTab (reconcileSelection s) = terminalIdsByTab s"
  "pendingTerminalCloses (reconcileSelection s) = pendingTerminalCloses s"
  "pendingTabCloses (reconcileSelection s) = pendingTabCloses s"
  by (simp_all add: reconcileSelection_def Let_def split: option.split)

lemma rebuildTerminalIndexes_frame [frame]:
  "sessionsById (rebuildTerminalIndexes s) = sessionsById s" "tabsById (rebuildTerminalIndexes s) = tabsById s"
  "terminalsById (rebuildTerminalIndexes s) = terminalsById s" "revisions (rebuildTerminalIndexes s) = revisions s"
  "visibleSessionIds (rebuildTerminalIndexes s) = visibleSessionIds s"
  "visibleTabIdsBySession (rebuildTerminalIndexes s) = visibleTabIdsBySession s"
  "activeSessionId (rebuildTerminalIndexes s) = activeSessionId s" "activeTabId (rebuildTerminalIndexes s) = activeTabId s"
  "activeMuxTerminalId (rebuildTerminalIndexes s) = activeMuxTerminalId s"
  "pendingTerminalCloses (rebuildTerminalIndexes s) = pendingTerminalCloses s"
  "pendingTabCloses (rebuildTerminalIndexes s) = pendingTabCloses s"
  by (simp_all add: rebuildTerminalIndexes_def Let_def split: prod.split)

lemma rebuildVisibleTabs_frame [frame]:
  "sessionsById (rebuildVisibleTabs s) = sessionsById s" "tabsById (rebuildVisibleTabs s) = tabsById s"
  "terminalsById (rebuildVisibleTabs s) = terminalsById s" "revisions (rebuildVisibleTabs s) = revisions s"
  "visibleSessionIds (rebuildVisibleTabs s) = visibleSessionIds s"
  "activeTabId (rebuildVisibleTabs s) = activeTabId s"
  "pendingTerminalCloses (rebuildVisibleTabs s) = pendingTerminalCloses s"
  "pendingTabCloses (rebuildVisibleTabs s) = pendingTabCloses s"
  by (simp_all add: rebuildVisibleTabs_def frame)

lemma rebuildVisibleSessions_frame [frame]:
  "sessionsById (rebuildVisibleSessions s) = sessionsById s" "tabsById (rebuildVisibleSessions s) = tabsById s"
  "terminalsById (rebuildVisibleSessions s) = terminalsById s" "revisions (rebuildVisibleSessions s) = revisions s"
  "visibleTabIdsBySession (rebuildVisibleSessions s) = visibleTabIdsBySession s"
  "terminalIdsBySession (rebuildVisibleSessions s) = terminalIdsBySession s"
  "terminalIdsByTab (rebuildVisibleSessions s) = terminalIdsByTab s"
  "pendingTerminalCloses (rebuildVisibleSessions s) = pendingTerminalCloses s"
  "pendingTabCloses (rebuildVisibleSessions s) = pendingTabCloses s"
  by (simp_all add: rebuildVisibleSessions_def)

lemma updateTerminalIndexes_frame [frame]:
  "sessionsById (updateTerminalIndexes s p t) = sessionsById s" "tabsById (updateTerminalIndexes s p t) = tabsById s"
  "terminalsById (updateTerminalIndexes s p t) = terminalsById s" "revisions (updateTerminalIndexes s p t) = revisions s"
  "visibleTabIdsBySession (updateTerminalIndexes s p t) = visibleTabIdsBySession s"
  "pendingTerminalCloses (updateTerminalIndexes s p t) = pendingTerminalCloses s"
  "pendingTabCloses (updateTerminalIndexes s p t) = pendingTabCloses s"
  by (simp_all add: updateTerminalIndexes_def Let_def split: prod.split)

lemma upsertTerminal_frame [frame]:
  "sessionsById (upsertTerminal s t) = sessionsById s" "tabsById (upsertTerminal s t) = tabsById s"
  "terminalsById (upsertTerminal s t) = map_set (term_id t) t (terminalsById s)"
  "revisions (upsertTerminal s t) = revisions s"
  "visibleTabIdsBySession (upsertTerminal s t) = visibleTabIdsBySession s"
  "pendingTerminalCloses (upsertTerminal s t) = pendingTerminalCloses s"
  "pendingTabCloses (upsertTerminal s t) = pendingTabCloses s"
  by (simp_all add: upsertTerminal_def Let_def frame)

section \<open>Selection\<close>

text \<open>The selection is a path through what is visible, as long as there is something to select.\<close>

definition selection_ok :: "mux_store \<Rightarrow> bool" where
  "selection_ok s \<longleftrightarrow>
     (case activeSessionId s of
        None \<Rightarrow> visibleSessionIds s = [] \<and> activeTabId s = None \<and> activeMuxTerminalId s = None
      | Some i \<Rightarrow> i \<in> set (visibleSessionIds s) \<and>
          (case activeTabId s of
             None \<Rightarrow> get_list (visibleTabIdsBySession s) i = [] \<and> activeMuxTerminalId s = None
           | Some t \<Rightarrow> t \<in> set (get_list (visibleTabIdsBySession s) i) \<and>
               (case activeMuxTerminalId s of
                  None \<Rightarrow> get_list (terminalIdsByTab s) t = []
                | Some m \<Rightarrow> m \<in> set (get_list (terminalIdsByTab s) t))))"

lemma selectedTab_None: "selectedTabForSession s i = None \<longleftrightarrow> get_list (visibleTabIdsBySession s) i = []"
  by (auto simp: selectedTabForSession_def Let_def split: option.splits)

lemma selectedTab_member: "selectedTabForSession s i = Some t \<Longrightarrow> t \<in> set (get_list (visibleTabIdsBySession s) i)"
  by (auto simp: selectedTabForSession_def Let_def dest: first_of_in split: option.splits if_splits)

lemma selectedTerminal_None: "selectedTerminalForTab s i = None \<longleftrightarrow> get_list (terminalIdsByTab s) i = []"
  by (auto simp: selectedTerminalForTab_def Let_def split: option.splits)

lemma selectedTerminal_member: "selectedTerminalForTab s i = Some t \<Longrightarrow> t \<in> set (get_list (terminalIdsByTab s) i)"
  by (auto simp: selectedTerminalForTab_def Let_def dest: first_of_in split: option.splits if_splits)

text \<open>The three steps: a visible session, a tab of it, a terminal of that.\<close>

definition pick :: "'a list \<Rightarrow> 'a option \<Rightarrow> 'a option \<Rightarrow> 'a option" where
  "pick xs current fallback =
     (case current of Some x \<Rightarrow> if x \<in> set xs then Some x else fallback | None \<Rightarrow> fallback)"

lemma pick_ok:
  assumes "fallback = None \<longleftrightarrow> xs = []" "\<And>x. fallback = Some x \<Longrightarrow> x \<in> set xs"
  shows "case pick xs current fallback of None \<Rightarrow> xs = [] | Some x \<Rightarrow> x \<in> set xs"
  using assms by (auto simp: pick_def split: option.splits)

lemma reconcile_session: "activeSessionId (reconcileSelection s) =
    pick (filter (map_has (sessionsById s)) (visibleSessionIds s)) (activeSessionId s) (first_of (visibleSessionIds s))"
  by (auto simp: reconcileSelection_def pick_def Let_def split: option.split)

lemma reconcile_tab: "activeTabId (reconcileSelection s) =
    (case activeSessionId (reconcileSelection s) of
       None \<Rightarrow> None
     | Some i \<Rightarrow> pick (get_list (visibleTabIdsBySession s) i) (activeTabId s) (selectedTabForSession s i))"
  by (auto simp: reconcileSelection_def pick_def selectedTabForSession_def Let_def split: option.split)

lemma reconcile_terminal: "activeMuxTerminalId (reconcileSelection s) =
    (case activeTabId (reconcileSelection s) of
       None \<Rightarrow> None
     | Some t \<Rightarrow> pick (get_list (terminalIdsByTab s) t) (activeMuxTerminalId s) (selectedTerminalForTab s t))"
  by (auto simp: reconcileSelection_def pick_def selectedTerminalForTab_def Let_def split: option.split)

lemma reconcileSelection_ok: "selection_ok (reconcileSelection s)"
proof -
  have S: "case activeSessionId (reconcileSelection s) of None \<Rightarrow> visibleSessionIds s = [] | Some i \<Rightarrow> i \<in> set (visibleSessionIds s)"
    unfolding reconcile_session by (auto simp: pick_def dest: first_of_in split: option.split)
  have T: "case pick (get_list (visibleTabIdsBySession s) i) c (selectedTabForSession s i) of
      None \<Rightarrow> get_list (visibleTabIdsBySession s) i = [] | Some t \<Rightarrow> t \<in> set (get_list (visibleTabIdsBySession s) i)" for i c
    by (rule pick_ok [OF selectedTab_None selectedTab_member])
  have M: "case pick (get_list (terminalIdsByTab s) t) c (selectedTerminalForTab s t) of
      None \<Rightarrow> get_list (terminalIdsByTab s) t = [] | Some m \<Rightarrow> m \<in> set (get_list (terminalIdsByTab s) t)" for t c
    by (rule pick_ok [OF selectedTerminal_None selectedTerminal_member])
  show ?thesis
  proof (cases "activeSessionId (reconcileSelection s)")
    case None
    with S show ?thesis by (simp add: selection_ok_def frame reconcile_tab reconcile_terminal)
  next
    case (Some i)
    show ?thesis
      using S T [of i "activeTabId s"] M [of "the (activeTabId (reconcileSelection s))" "activeMuxTerminalId s"]
      by (cases "activeTabId (reconcileSelection s)")
        (auto simp: selection_ok_def frame Some reconcile_tab reconcile_terminal split: option.splits)
  qed
qed

lemma selection_ok_publish [simp]: "selection_ok (publish s) \<longleftrightarrow> selection_ok s"
  by (simp add: selection_ok_def frame cong: option.case_cong)

section \<open>Revisions\<close>

fun event_ok :: "mux_event \<Rightarrow> bool" where
  "event_ok (MuxTerminalCreated b i t) \<longleftrightarrow> term_id t = i"
| "event_ok (MuxTerminalUpdated b i t) \<longleftrightarrow> term_id t = i"
| "event_ok (MuxTerminalArchived b i) \<longleftrightarrow> occurredAt b \<noteq> ''''"
| "event_ok _ \<longleftrightarrow> True"

definition terminals_keyed :: "mux_store \<Rightarrow> bool" where
  "terminals_keyed s \<longleftrightarrow> map_ok (terminalsById s) \<and> (\<forall>(i, t) \<in> set (terminalsById s). term_id t = i)"

lemma keyed_lookup: "terminals_keyed s \<Longrightarrow> map_of (terminalsById s) i = Some t \<Longrightarrow> term_id t = i"
  by (auto simp: terminals_keyed_def dest: map_of_SomeD)

lemma keyed_set: "terminals_keyed s \<Longrightarrow> terminals_keyed (s\<lparr>terminalsById := map_set (term_id t) t (terminalsById s)\<rparr>)"
  using set_map_set [of "term_id t" t "terminalsById s"] by (auto simp: terminals_keyed_def)

lemma apply_session_frame [frame]:
  "sessionsById (apply_session s v) = map_set (ses_id v) v (sessionsById s)"
  "tabsById (apply_session s v) = tabsById s" "terminalsById (apply_session s v) = terminalsById s"
  "revisions (apply_session s v) = revisions s"
  "visibleTabIdsBySession (apply_session s v) = visibleTabIdsBySession s"
  "terminalIdsBySession (apply_session s v) = terminalIdsBySession s"
  "terminalIdsByTab (apply_session s v) = terminalIdsByTab s"
  "pendingTerminalCloses (apply_session s v) = pendingTerminalCloses s"
  "pendingTabCloses (apply_session s v) = pendingTabCloses s"
  by (simp_all add: apply_session_def Let_def frame)

lemma apply_tab_frame [frame]:
  "sessionsById (apply_tab s v) = sessionsById s"
  "tabsById (apply_tab s v) = map_set (tab_id v) v (tabsById s)"
  "terminalsById (apply_tab s v) = terminalsById s"
  "revisions (apply_tab s v) = revisions s"
  "pendingTerminalCloses (apply_tab s v) = pendingTerminalCloses s"
  by (simp_all add: apply_tab_def Let_def frame)

lemma apply_body_revisions [frame]: "revisions (apply_body s e) = revisions s"
  by (cases e) (simp_all add: frame apply_terminal_def split: option.split)

lemma apply_body_current:
  assumes "event_ok e" "terminals_keyed s" "k \<noteq> event_key e"
  shows "current_revision (apply_body s e) k = current_revision s k"
proof -
  obtain g i where k: "k = (g, i)" by fastforce
  show ?thesis
    using assms keyed_lookup [OF assms(2)]
    by (cases e; cases g)
      (auto simp: k frame jsmap apply_terminal_def split: option.split)
qed

lemma key_string_inj: "key_string k = key_string k' \<longleftrightarrow> k = k'"
  by (cases k rule: key_string.cases; cases k' rule: key_string.cases)
    (simp_all add: session_key_def tab_key_def terminal_key_def)

lemma get_int_set: "get_int (map_set k r m) k' = (if k' = k then r else get_int m k')"
  by (simp add: get_int_def jsmap)

lemma current_frame [frame]:
  "current_revision (publish s) k = current_revision s k"
  "current_revision (reconcileSelection s) k = current_revision s k"
  "current_revision (s\<lparr>revisions := m\<rparr>) k = current_revision s k"
  by (cases k rule: key_string.cases; simp add: frame)+

definition receive_event :: "mux_store \<Rightarrow> mux_event \<Rightarrow> mux_store" where
  "receive_event s e = fst (apply_event s e)"

lemma keyed_apply_body:
  assumes "terminals_keyed s"
  shows "terminals_keyed (apply_body s e)"
proof -
  have up: "terminals_keyed (upsertTerminal s' t)" if "terminals_keyed s'" for s' t
    using keyed_set [OF that, of t] by (simp add: terminals_keyed_def frame)
  have del: "terminals_keyed (s\<lparr>pendingTerminalCloses := m\<rparr>)" for m
    using assms by (simp add: terminals_keyed_def)
  have parts: "terminals_keyed (apply_session s v)" "terminals_keyed (apply_tab s u)" for v u
    using assms by (simp_all add: terminals_keyed_def frame)
  show ?thesis
    by (cases e) (simp_all add: apply_terminal_def assms up del parts split: option.split)
qed

lemma keyed_receive: "terminals_keyed s \<Longrightarrow> terminals_keyed (receive_event s e)"
  using keyed_apply_body [of "s\<lparr>revisions := map_set (key_string (event_key e)) (ev_revision (event_base_of e)) (revisions s)\<rparr>" e]
  by (auto simp: receive_event_def apply_event_def Let_def terminals_keyed_def frame)

lemma receive_stale: "ev_revision (event_base_of e) \<le> knownRevision s (event_key e) \<Longrightarrow> receive_event s e = s"
  by (simp add: receive_event_def apply_event_def)

lemma receive_fresh:
  assumes "knownRevision s (event_key e) < ev_revision (event_base_of e)"
  shows "ev_revision (event_base_of e) \<le> knownRevision (receive_event s e) (event_key e)"
  using assms by (simp add: receive_event_def apply_event_def Let_def knownRevision_def frame get_int_set)

lemma receive_others:
  assumes "event_ok e" "terminals_keyed s" "k \<noteq> event_key e"
  shows "knownRevision (receive_event s e) k = knownRevision s k"
proof -
  let ?s1 = "s\<lparr>revisions := map_set (key_string (event_key e)) (ev_revision (event_base_of e)) (revisions s)\<rparr>"
  have "terminals_keyed ?s1" using assms(2) by (simp add: terminals_keyed_def)
  from apply_body_current [OF assms(1) this assms(3)] assms(3) show ?thesis
    by (simp add: receive_event_def apply_event_def Let_def knownRevision_def frame get_int_set key_string_inj)
qed

interpretation mux: revision_gate knownRevision receive_event event_key "\<lambda>e. ev_revision (event_base_of e)"
  event_ok terminals_keyed
proof unfold_locales
  fix e s k
  assume "event_ok e" "terminals_keyed s" "k \<noteq> event_key e"
  then show "knownRevision (receive_event s e) k = knownRevision s k" by (rule receive_others)
qed (simp_all add: receive_stale receive_fresh keyed_receive)

section \<open>Terminal indexes\<close>

definition index_ok :: "('v \<Rightarrow> int) \<Rightarrow> 'v list \<Rightarrow> 'v set \<Rightarrow> bool" where
  "index_ok pos ids S \<longleftrightarrow> distinct ids \<and> sorted (map pos ids) \<and> set ids = S"

text \<open>The terminals listed under a session and under a tab.\<close>

definition session_terms :: "mux_store \<Rightarrow> session_id \<Rightarrow> terminal_id set" where
  "session_terms s k = {i. \<exists>t. map_of (terminalsById s) i = Some t \<and> listed_tab s t \<noteq> None \<and> term_sessionId t = k}"

definition tab_terms :: "mux_store \<Rightarrow> tab_id \<Rightarrow> terminal_id set" where
  "tab_terms s k = {i. \<exists>t. map_of (terminalsById s) i = Some t \<and> listed_tab s t = Some k}"

definition indexes_ok :: "mux_store \<Rightarrow> bool" where
  "indexes_ok s \<longleftrightarrow>
     (\<forall>k. index_ok (term_pos s) (get_list (terminalIdsBySession s) k) (session_terms s k)) \<and>
     (\<forall>k. index_ok (term_pos s) (get_list (terminalIdsByTab s) k) (tab_terms s k))"

lemma listed_tab_cong:
  "tabsById s' = tabsById s \<Longrightarrow> visibleTabIdsBySession s' = visibleTabIdsBySession s \<Longrightarrow>
   pendingTerminalCloses s' = pendingTerminalCloses s \<Longrightarrow> pendingTabCloses s' = pendingTabCloses s \<Longrightarrow>
   listed_tab s' t = listed_tab s t \<and> tabIdForTerminal s' t = tabIdForTerminal s t"
  unfolding listed_tab_def tabIdForTerminal_def tab_closed_def by presburger

lemma indexes_ok_cong:
  assumes "tabsById s' = tabsById s" "visibleTabIdsBySession s' = visibleTabIdsBySession s"
    "pendingTerminalCloses s' = pendingTerminalCloses s" "pendingTabCloses s' = pendingTabCloses s"
    "terminalsById s' = terminalsById s" "terminalIdsBySession s' = terminalIdsBySession s"
    "terminalIdsByTab s' = terminalIdsByTab s"
  shows "indexes_ok s' \<longleftrightarrow> indexes_ok s"
proof -
  have "term_pos s' = term_pos s" using assms(5) by (auto simp: term_pos_def)
  with listed_tab_cong [OF assms(1-4)] assms(5-7) show ?thesis
    by (simp add: indexes_ok_def session_terms_def tab_terms_def)
qed

lemma get_list_push: "get_list (push k v m) k' = get_list m k' @ (if k' = k then [v] else [])"
  by (simp add: push_def get_list_def jsmap)

lemma get_list_sort: "get_list (sort_values pos m) k = sort_key pos (get_list m k)"
proof -
  have "map_of (map (\<lambda>(k, ids). (k, sort_key pos ids)) m) k = map_option (sort_key pos) (map_of m k)"
    by (induction m) auto
  then show ?thesis by (simp add: sort_values_def get_list_def split: option.split)
qed

lemma get_list_empty_values: "(\<And>x. x \<in> set xs \<Longrightarrow> f x = []) \<Longrightarrow> get_list (map_from (map (\<lambda>x. (g x, f x)) xs)) k = []"
  by (auto simp: get_list_def jsmap rev_map dest!: map_of_SomeD split: option.split)

lemma fold_index:
  fixes s :: mux_store
  defines "step \<equiv> \<lambda>t (ms, mt). case listed_tab s t of
      None \<Rightarrow> (ms, mt) | Some i \<Rightarrow> (push (term_sessionId t) (term_id t) ms, push i (term_id t) mt)"
  shows "get_list (fst (fold step ts (ms, mt))) k =
      get_list ms k @ map term_id (filter (\<lambda>t. listed_tab s t \<noteq> None \<and> term_sessionId t = k) ts)"
    and "get_list (snd (fold step ts (ms, mt))) k' =
      get_list mt k' @ map term_id (filter (\<lambda>t. listed_tab s t = Some k') ts)"
  by (induction ts arbitrary: ms mt) (auto simp: step_def get_list_push split: option.split)

lemma keyed_values:
  assumes "terminals_keyed s"
  shows "map term_id (map_values (terminalsById s)) = map_keys (terminalsById s)"
    and "t \<in> set (map_values (terminalsById s)) \<longleftrightarrow> map_of (terminalsById s) (term_id t) = Some t"
proof -
  have ok: "map_ok (terminalsById s)" and k: "\<And>i t. (i, t) \<in> set (terminalsById s) \<Longrightarrow> term_id t = i"
    using assms by (auto simp: terminals_keyed_def)
  from k show "map term_id (map_values (terminalsById s)) = map_keys (terminalsById s)" by auto
  show "t \<in> set (map_values (terminalsById s)) \<longleftrightarrow> map_of (terminalsById s) (term_id t) = Some t"
  proof
    assume "t \<in> set (map_values (terminalsById s))"
    then obtain i where i: "(i, t) \<in> set (terminalsById s)" by auto
    with k have "term_id t = i" by blast
    with i ok show "map_of (terminalsById s) (term_id t) = Some t" by simp
  next
    assume "map_of (terminalsById s) (term_id t) = Some t"
    from map_of_SomeD [OF this] show "t \<in> set (map_values (terminalsById s))" by force
  qed
qed

lemma index_ok_values:
  assumes "terminals_keyed s"
  shows "index_ok pos (sort_key pos (map term_id (filter P (map_values (terminalsById s)))))
    {i. \<exists>t. map_of (terminalsById s) i = Some t \<and> P t}"
proof -
  have "distinct (map term_id (map_values (terminalsById s)))"
    unfolding keyed_values(1) [OF assms] using assms by (simp add: terminals_keyed_def)
  then have "distinct (map term_id (filter P (map_values (terminalsById s))))"
    by (rule distinct_map_filter)
  moreover have "set (map term_id (filter P (map_values (terminalsById s)))) =
      {i. \<exists>t. map_of (terminalsById s) i = Some t \<and> P t}"
  proof (intro set_eqI iffI)
    fix i
    assume "i \<in> set (map term_id (filter P (map_values (terminalsById s))))"
    then obtain t where "t \<in> set (map_values (terminalsById s))" "P t" "i = term_id t"
      unfolding set_map set_filter by blast
    with keyed_values(2) [OF assms] show "i \<in> {i. \<exists>t. map_of (terminalsById s) i = Some t \<and> P t}" by blast
  next
    fix i
    assume "i \<in> {i. \<exists>t. map_of (terminalsById s) i = Some t \<and> P t}"
    then obtain t where t: "map_of (terminalsById s) i = Some t" "P t" by blast
    then have "term_id t = i" "t \<in> set (map_values (terminalsById s))"
      using keyed_lookup [OF assms] keyed_values(2) [OF assms] by blast+
    with t show "i \<in> set (map term_id (filter P (map_values (terminalsById s))))" by auto
  qed
  ultimately show ?thesis by (simp add: index_ok_def)
qed

lemma rebuildTerminalIndexes_lists:
  "get_list (terminalIdsBySession (rebuildTerminalIndexes s)) k = sort_key (term_pos s)
     (map term_id (filter (\<lambda>t. listed_tab s t \<noteq> None \<and> term_sessionId t = k) (map_values (terminalsById s))))"
  "get_list (terminalIdsByTab (rebuildTerminalIndexes s)) k' = sort_key (term_pos s)
     (map term_id (filter (\<lambda>t. listed_tab s t = Some k') (map_values (terminalsById s))))"
  using fold_index [of s "map_values (terminalsById s)"]
  by (simp_all add: rebuildTerminalIndexes_def Let_def get_list_sort get_list_empty_values case_prod_beta)

lemma rebuildTerminalIndexes_ok:
  assumes "terminals_keyed s"
  shows "indexes_ok (rebuildTerminalIndexes s)"
proof -
  have same: "term_pos (rebuildTerminalIndexes s) = term_pos s"
    by (auto simp: term_pos_def frame)
  have "session_terms (rebuildTerminalIndexes s) k = session_terms s k"
    "tab_terms (rebuildTerminalIndexes s) k = tab_terms s k" for k
    using listed_tab_cong [of "rebuildTerminalIndexes s" s] by (simp_all add: session_terms_def tab_terms_def frame)
  then show ?thesis
    using index_ok_values [OF assms]
    by (simp add: indexes_ok_def rebuildTerminalIndexes_lists same session_terms_def tab_terms_def)
qed

subsection \<open>The incremental update\<close>

text \<open>
  What the update of one terminal needs: the lists are right for all other terminals, and where
  the terminal itself is listed is where its stored value says.
\<close>

definition ready :: "mux_store \<Rightarrow> terminal_id \<Rightarrow> bool" where
  "ready s i \<longleftrightarrow>
     (\<forall>k. let ids = get_list (terminalIdsBySession s) k in
        distinct ids \<and> sorted (map (term_pos s) ids) \<and> set ids - {i} = session_terms s k - {i} \<and>
        (i \<in> set ids \<longrightarrow> (\<exists>p. map_of (terminalsById s) i = Some p \<and> \<not> truthy (term_archivedAt p) \<and> term_sessionId p = k))) \<and>
     (\<forall>k. let ids = get_list (terminalIdsByTab s) k in
        distinct ids \<and> sorted (map (term_pos s) ids) \<and> set ids - {i} = tab_terms s k - {i} \<and>
        (i \<in> set ids \<longrightarrow> (\<exists>p. map_of (terminalsById s) i = Some p \<and> \<not> truthy (term_archivedAt p) \<and> tabIdForTerminal s p = Some k)))"

lemma listed_tab_Some: "listed_tab s t = Some k \<Longrightarrow> \<not> truthy (term_archivedAt t) \<and> tabIdForTerminal s t = Some k"
  by (auto simp: listed_tab_def split: if_splits option.splits)

lemma indexes_ready: "indexes_ok s \<Longrightarrow> ready s i"
  by (auto simp: indexes_ok_def ready_def index_ok_def session_terms_def tab_terms_def Let_def dest: listed_tab_Some)

lemma get_list_touch: "get_list (fold (touch pos) ks m) k = (if k \<in> set ks then sort_key pos (get_list m k) else get_list m k)"
proof (induction ks arbitrary: m)
  case (Cons a ks)
  have "get_list (touch pos a m) k = (if k = a then sort_key pos (get_list m k) else get_list m k)"
    by (auto simp: touch_def get_list_def jsmap split: option.split)
  with Cons show ?case by (auto simp: sort_key_id_if_sorted)
qed simp

lemma index_remove_lists:
  assumes "ready s0 (term_id p)" "map_of (terminalsById s0) (term_id p) = Some p"
    "tabIdForTerminal s p = tabIdForTerminal s0 p"
  shows "\<exists>ms mt ts tt. index_remove s p (terminalIdsBySession s0, terminalIdsByTab s0, [], []) = (ms, mt, ts, tt) \<and>
    (\<forall>k. get_list ms k = filter (\<lambda>i. i \<noteq> term_id p) (get_list (terminalIdsBySession s0) k)) \<and>
    (\<forall>k. get_list mt k = filter (\<lambda>i. i \<noteq> term_id p) (get_list (terminalIdsByTab s0) k))"
proof -
  let ?i = "term_id p"
  have gs: "get_list (map_set k' xs m) k = (if k = k' then xs else get_list m k)" for k k' xs and m :: "(string, terminal_id list) jsmap"
    by (simp add: get_list_def jsmap)
  have s_in: "k = term_sessionId p \<and> \<not> truthy (term_archivedAt p)" if "?i \<in> set (get_list (terminalIdsBySession s0) k)" for k
    using assms(1,2) that by (auto simp: ready_def Let_def)
  have t_in: "tabIdForTerminal s p = Some k \<and> \<not> truthy (term_archivedAt p)" if "?i \<in> set (get_list (terminalIdsByTab s0) k)" for k
    using assms that by (auto simp: ready_def Let_def)
  have fid: "filter (\<lambda>i. i \<noteq> ?i) xs = xs" if "?i \<notin> set xs" for xs
    using that by (auto simp: filter_id_conv)
  show ?thesis
    using s_in t_in fid
    by (cases "truthy (term_archivedAt p)"; cases "tabIdForTerminal s p")
      (auto simp: index_remove_def Let_def gs, metis+)
qed

lemma index_ok_step:
  assumes old: "distinct xs" "sorted (map pos xs)" "set xs - {i} = S - {i}"
    and pos: "\<And>j. j \<noteq> i \<Longrightarrow> pos' j = pos j"
    and S': "S' = (S - {i}) \<union> (if add then {i} else {})" and touched: "add \<Longrightarrow> sorts"
  defines "ys \<equiv> filter (\<lambda>j. j \<noteq> i) xs @ (if add then [i] else [])"
  shows "index_ok pos' (if sorts then sort_key pos' ys else ys) S'"
proof -
  have eq: "map pos' (filter (\<lambda>j. j \<noteq> i) xs) = map pos (filter (\<lambda>j. j \<noteq> i) xs)"
    using pos by auto
  have "sorted (map pos' (filter (\<lambda>j. j \<noteq> i) xs))"
    unfolding eq using old(2) by (rule sorted_filter)
  then have "sorted (map pos' (if sorts then sort_key pos' ys else ys))"
    using touched by (auto simp: ys_def)
  moreover have "set ys = S'" using old(3) S' by (auto simp: ys_def)
  moreover have "distinct ys" using old(1) by (simp add: ys_def)
  ultimately show ?thesis by (simp add: index_ok_def)
qed

lemma updateTerminalIndexes_ok:
  assumes keyed: "terminals_keyed s" and ready: "ready s (term_id t)"
  defines "s1 \<equiv> s\<lparr>terminalsById := map_set (term_id t) t (terminalsById s)\<rparr>"
  shows "indexes_ok (updateTerminalIndexes s1 (map_of (terminalsById s) (term_id t)) t)"
proof -
  let ?i = "term_id t" and ?prev = "map_of (terminalsById s) (term_id t)"
  have same: "listed_tab s1 x = listed_tab s x" "tabIdForTerminal s1 x = tabIdForTerminal s x" for x
    using listed_tab_cong [of s1 s] by (simp_all add: s1_def)
  obtain ms mt ts tt where st1:
      "(case ?prev of None \<Rightarrow> (terminalIdsBySession s1, terminalIdsByTab s1, [], [])
        | Some p \<Rightarrow> index_remove s1 p (terminalIdsBySession s1, terminalIdsByTab s1, [], [])) = (ms, mt, ts, tt)"
    and ms: "\<And>k. get_list ms k = filter (\<lambda>i. i \<noteq> ?i) (get_list (terminalIdsBySession s) k)"
    and mt: "\<And>k. get_list mt k = filter (\<lambda>i. i \<noteq> ?i) (get_list (terminalIdsByTab s) k)"
  proof (cases ?prev)
    case None
    then have "?i \<notin> set (get_list (terminalIdsBySession s) k)" "?i \<notin> set (get_list (terminalIdsByTab s) k)" for k
      using ready by (auto simp: ready_def Let_def)
    then have "filter (\<lambda>i. i \<noteq> ?i) (get_list (terminalIdsBySession s) k) = get_list (terminalIdsBySession s) k"
      "filter (\<lambda>i. i \<noteq> ?i) (get_list (terminalIdsByTab s) k) = get_list (terminalIdsByTab s) k" for k
      by (auto simp: filter_id_conv)
    with None that show ?thesis by (simp add: s1_def)
  next
    case (Some p)
    then have "term_id p = ?i" by (rule keyed_lookup [OF keyed])
    with index_remove_lists [of s p s1] ready Some same(2) that show ?thesis
      by (auto simp: s1_def)
  qed
  define touchedS where "touchedS = (case listed_tab s t of None \<Rightarrow> ts | Some j \<Rightarrow> List.insert (term_sessionId t) ts)"
  define touchedT where "touchedT = (case listed_tab s t of None \<Rightarrow> tt | Some j \<Rightarrow> List.insert j tt)"
  let ?u = "updateTerminalIndexes s1 ?prev t"
  have lists:
    "get_list (terminalIdsBySession ?u) k =
      (let ys = get_list ms k @ (if listed_tab s t \<noteq> None \<and> k = term_sessionId t then [?i] else [])
       in if k \<in> set touchedS then sort_key (term_pos s1) ys else ys)"
    "get_list (terminalIdsByTab ?u) k =
      (let ys = get_list mt k @ (if listed_tab s t = Some k then [?i] else [])
       in if k \<in> set touchedT then sort_key (term_pos s1) ys else ys)" for k
    using st1
    by (auto simp: updateTerminalIndexes_def index_insert_def Let_def same get_list_touch get_list_push
        touchedS_def touchedT_def split: option.splits)
  have pos: "term_pos s1 j = term_pos s j" if "j \<noteq> ?i" for j
    using that by (simp add: term_pos_def s1_def jsmap)
  have u_pos: "term_pos ?u = term_pos s1" by (auto simp: term_pos_def frame)
  have u_listed: "listed_tab ?u x = listed_tab s x" for x
    using listed_tab_cong [of ?u s1 x] same(1) [of x] by (simp add: frame)
  have u_terms: "terminalsById ?u = map_set ?i t (terminalsById s)" by (simp add: frame s1_def)
  have terms: "session_terms ?u k = (session_terms s k - {?i}) \<union> (if listed_tab s t \<noteq> None \<and> k = term_sessionId t then {?i} else {})"
    "tab_terms ?u k = (tab_terms s k - {?i}) \<union> (if listed_tab s t = Some k then {?i} else {})" for k
    unfolding session_terms_def tab_terms_def u_listed u_terms by (auto simp: jsmap split: if_splits)
  have "index_ok (term_pos ?u) (get_list (terminalIdsBySession ?u) k) (session_terms ?u k)" for k
    unfolding lists u_pos ms Let_def
    by (rule index_ok_step [OF _ _ _ pos terms(1)])
      (use ready in \<open>auto simp: ready_def Let_def touchedS_def\<close>)
  moreover have "index_ok (term_pos ?u) (get_list (terminalIdsByTab ?u) k) (tab_terms ?u k)" for k
    unfolding lists u_pos mt Let_def
    by (rule index_ok_step [OF _ _ _ pos terms(2)])
      (use ready in \<open>auto simp: ready_def Let_def touchedT_def\<close>)
  ultimately show ?thesis by (simp add: indexes_ok_def)
qed

lemma upsertTerminal_ok:
  assumes keyed: "terminals_keyed s" and ready: "ready s (term_id t)"
    and same: "\<And>p. map_of (terminalsById s) (term_id t) = Some p \<Longrightarrow> term_archivedAt p = term_archivedAt t \<Longrightarrow>
      \<not> truthy (term_archivedAt p) \<Longrightarrow> indexes_ok s"
  shows "indexes_ok (upsertTerminal s t)"
proof -
  let ?s1 = "s\<lparr>terminalsById := map_set (term_id t) t (terminalsById s)\<rparr>"
  let ?prev = "map_of (terminalsById s) (term_id t)"
  consider "upsertTerminal s t = updateTerminalIndexes ?s1 ?prev t"
    | p where "?prev = Some p" "upsertTerminal s t = ?s1" "term_sessionId p = term_sessionId t" "term_tabId p = term_tabId t"
        "term_archivedAt p = term_archivedAt t" "term_position p = term_position t"
  proof -
    have "upsertTerminal s t = updateTerminalIndexes ?s1 ?prev t \<or>
        (\<exists>p. ?prev = Some p \<and> upsertTerminal s t = ?s1 \<and> term_sessionId p = term_sessionId t \<and>
           term_tabId p = term_tabId t \<and> term_archivedAt p = term_archivedAt t \<and> term_position p = term_position t)"
      by (cases ?prev) (auto simp: upsertTerminal_def Let_def)
    with that show ?thesis by blast
  qed
  then show ?thesis
  proof cases
    case 1
    with updateTerminalIndexes_ok [OF keyed ready] show ?thesis by simp
  next
    case (2 p)
    have id: "term_id p = term_id t" using 2(1) by (rule keyed_lookup [OF keyed])
    have lt: "listed_tab ?s1 x = listed_tab s x" for x using listed_tab_cong [of ?s1 s] by simp
    have lp: "listed_tab s t = listed_tab s p"
      by (simp only: listed_tab_def tabIdForTerminal_def 2(3) 2(4) 2(5) id)
    have pos: "term_pos ?s1 = term_pos s" using 2(1,6) by (auto simp: term_pos_def jsmap)
    have terms: "session_terms ?s1 k = session_terms s k" "tab_terms ?s1 k = tab_terms s k" for k
      using 2(1,3) lp by (auto simp: session_terms_def tab_terms_def lt jsmap split: if_splits)
    show ?thesis
    proof (cases "truthy (term_archivedAt p)")
      case False
      from same [OF 2(1,5) this] show ?thesis
        by (simp add: 2(2) indexes_ok_def pos terms)
    next
      case True
      then have "listed_tab s p = None" by (simp add: listed_tab_def)
      then have "term_id t \<notin> session_terms s k" "term_id t \<notin> tab_terms s k" for k
        using 2(1) by (auto simp: session_terms_def tab_terms_def)
      moreover have "term_id t \<notin> set (get_list (terminalIdsBySession s) k)" "term_id t \<notin> set (get_list (terminalIdsByTab s) k)" for k
        using ready 2(1) True by (auto simp: ready_def Let_def)
      ultimately show ?thesis
        using ready by (auto simp: 2(2) indexes_ok_def index_ok_def pos terms ready_def Let_def)
    qed
  qed
qed

lemma ready_unpend:
  assumes "indexes_ok s" "terminals_keyed s"
  shows "ready (s\<lparr>pendingTerminalCloses := map_delete i (pendingTerminalCloses s)\<rparr>) i"
proof -
  let ?u = "s\<lparr>pendingTerminalCloses := map_delete i (pendingTerminalCloses s)\<rparr>"
  have tid: "tabIdForTerminal ?u x = tabIdForTerminal s x" for x by (simp add: tabIdForTerminal_def split: option.split)
  have closed: "tab_closed ?u k = tab_closed s k" for k by (simp add: tab_closed_def split: option.split)
  have lt: "listed_tab ?u x = listed_tab s x" if "term_id x \<noteq> i" for x
    unfolding listed_tab_def tid closed using that by (simp add: jsmap)
  have "session_terms ?u k - {i} = session_terms s k - {i}" "tab_terms ?u k - {i} = tab_terms s k - {i}" for k
    using lt keyed_lookup [OF assms(2)] by (auto simp: session_terms_def tab_terms_def)
  moreover have "term_pos ?u = term_pos s" by (auto simp: term_pos_def)
  ultimately show ?thesis
    using indexes_ready [OF assms(1), of i] by (simp add: ready_def tid)
qed

lemma apply_body_indexes:
  assumes "indexes_ok s" "terminals_keyed s" "event_ok e"
  shows "indexes_ok (apply_body s e)"
proof -
  have sess: "indexes_ok (apply_session s v)" for v
    using indexes_ok_cong [of "apply_session s v" s] assms(1) by (simp add: frame)
  have tab: "indexes_ok (apply_tab s v)" for v
  proof -
    define s2 where "s2 = (let s1 = s\<lparr>tabsById := map_set (tab_id v) v (tabsById s)\<rparr>
      in if truthy (tab_archivedAt v) then s1\<lparr>pendingTabCloses := map_delete (tab_id v) (pendingTabCloses s1)\<rparr> else s1)"
    have "terminals_keyed s2" using assms(2) by (simp add: s2_def terminals_keyed_def Let_def)
    then have ok: "indexes_ok (rebuildVisibleTabs s2)"
      unfolding rebuildVisibleTabs_def
      by (intro rebuildTerminalIndexes_ok) (simp add: terminals_keyed_def)
    have "apply_tab s v = rebuildVisibleTabs s2 \<or> (\<exists>m. apply_tab s v = rebuildVisibleTabs s2\<lparr>activeMuxTerminalId := m\<rparr>)"
      by (auto simp: apply_tab_def s2_def Let_def)
    with ok show ?thesis
      using indexes_ok_cong [of "rebuildVisibleTabs s2\<lparr>activeMuxTerminalId := m\<rparr>" "rebuildVisibleTabs s2" for m] by auto
  qed
  have up: "indexes_ok (upsertTerminal s t)" for t
    by (rule upsertTerminal_ok [OF assms(2) indexes_ready [OF assms(1)]]) (rule assms(1))
  have arch: "indexes_ok (upsertTerminal (s\<lparr>pendingTerminalCloses := map_delete i (pendingTerminalCloses s)\<rparr>)
      (t\<lparr>term_archivedAt := Some a, term_revision := r, term_updatedAt := a\<rparr>))"
    if "map_of (terminalsById s) i = Some t" "a \<noteq> ''''" for i t a r
    using ready_unpend [OF assms(1,2), of i] that keyed_lookup [OF assms(2) that(1)] assms(2)
    by (intro upsertTerminal_ok) (auto simp: terminals_keyed_def truthy_def)
  show ?thesis
    using assms(3) up arch
    by (cases e) (auto simp: sess tab apply_terminal_def assms(1) split: option.split)
qed

lemma receive_event_indexes:
  assumes "indexes_ok s" "terminals_keyed s" "event_ok e"
  shows "indexes_ok (receive_event s e)"
proof -
  let ?s1 = "s\<lparr>revisions := map_set (key_string (event_key e)) (ev_revision (event_base_of e)) (revisions s)\<rparr>"
  have "indexes_ok ?s1" using indexes_ok_cong [of ?s1 s] assms(1) by simp
  then have "indexes_ok (apply_body ?s1 e)"
    using assms by (intro apply_body_indexes) (simp_all add: terminals_keyed_def)
  then have "indexes_ok (publish (reconcileSelection (apply_body ?s1 e)))"
    using indexes_ok_cong [of "publish (reconcileSelection (apply_body ?s1 e))" "apply_body ?s1 e"] by (simp add: frame)
  with assms(1) show ?thesis by (simp add: receive_event_def apply_event_def Let_def)
qed

lemma receive_event_selection: "selection_ok s \<Longrightarrow> selection_ok (receive_event s e)"
  by (simp add: receive_event_def apply_event_def Let_def reconcileSelection_ok)

section \<open>Merging and pending closes\<close>

lemma fold_set_lookup:
  assumes "map_ok kvs"
  shows "map_of (fold (\<lambda>(i, v) m. map_set i (f i v) m) kvs m) k =
    (case map_of kvs k of Some v \<Rightarrow> Some (f k v) | None \<Rightarrow> map_of m k)"
  using assms
proof (induction kvs arbitrary: m)
  case (Cons kv kvs)
  obtain i v where kv: "kv = (i, v)" by fastforce
  with Cons have "i \<notin> fst ` set kvs" by simp
  then have "map_of kvs i = None" by (simp add: map_of_eq_None_iff)
  with Cons kv show ?case by (auto simp: jsmap split: option.splits)
qed simp

lemma fold_keep_lookup:
  assumes "map_ok kvs"
  shows "map_of (fold (\<lambda>(i, c) m. if P i c then map_set i c m else m) kvs m) k =
    (case map_of kvs k of Some c \<Rightarrow> if P k c then Some c else map_of m k | None \<Rightarrow> map_of m k)"
  using assms
proof (induction kvs arbitrary: m)
  case (Cons kv kvs)
  obtain i v where kv: "kv = (i, v)" by fastforce
  with Cons have "i \<notin> fst ` set kvs" by simp
  then have "map_of kvs i = None" by (simp add: map_of_eq_None_iff)
  with Cons kv show ?case by (auto simp: jsmap split: option.splits)
qed simp

text \<open>Which value a merge keeps for one identifier.\<close>

definition newest :: "('v \<Rightarrow> int) \<Rightarrow> int \<Rightarrow> 'v option \<Rightarrow> 'v option \<Rightarrow> 'v option" where
  "newest ver base current incoming =
     (case incoming of
        Some v \<Rightarrow> (case current of Some c \<Rightarrow> if ver v < ver c then Some c else Some v | None \<Rightarrow> Some v)
      | None \<Rightarrow> (case current of Some c \<Rightarrow> if base < ver c then Some c else None | None \<Rightarrow> None))"

lemma merge_entities_lookup:
  assumes "map_ok current" "map_ok incoming"
  shows "map_of (merge_entities ver base current incoming) i =
    newest ver (get_int base i) (map_of current i) (map_of incoming i)"
  unfolding merge_entities_def Let_def fold_keep_lookup [OF assms(1)] fold_set_lookup [OF assms(2)]
  by (auto simp: newest_def split: option.splits)

lemma map_delete_fresh_set: "map_of m i = None \<Longrightarrow> map_delete i (map_set i v m) = m"
proof (induction m)
  case (Cons a m)
  then show ?case by (cases a) (auto simp: AList.delete_eq split: if_splits)
qed (simp add: AList.delete_eq)

lemma rebuildVisibleTabs_cong:
  assumes "tabsById s' = tabsById s" "terminalsById s' = terminalsById s" "visibleSessionIds s' = visibleSessionIds s"
    "pendingTabCloses s' = pendingTabCloses s" "pendingTerminalCloses s' = pendingTerminalCloses s"
  shows "visibleTabIdsBySession (rebuildVisibleTabs s') = visibleTabIdsBySession (rebuildVisibleTabs s)"
    and "terminalIdsByTab (rebuildVisibleTabs s') = terminalIdsByTab (rebuildVisibleTabs s)"
    and "terminalIdsBySession (rebuildVisibleTabs s') = terminalIdsBySession (rebuildVisibleTabs s)"
proof -
  have p: "tab_pos s' = tab_pos s" "group_tabs s' = group_tabs s"
    using assms by (auto simp: tab_pos_def group_tabs_def fun_eq_iff)
  let ?v = "\<lambda>s. s\<lparr>visibleTabIdsBySession := sort_values (tab_pos s) (group_tabs s (map_values (tabsById s)))\<rparr>"
  have "listed_tab (?v s') t = listed_tab (?v s) t" for t
    using listed_tab_cong [of "?v s'" "?v s" t] assms p by simp
  moreover have "term_pos (?v s') = term_pos (?v s)" using assms by (auto simp: term_pos_def)
  ultimately show "terminalIdsByTab (rebuildVisibleTabs s') = terminalIdsByTab (rebuildVisibleTabs s)"
    "terminalIdsBySession (rebuildVisibleTabs s') = terminalIdsBySession (rebuildVisibleTabs s)"
    using assms by (simp_all add: rebuildVisibleTabs_def rebuildTerminalIndexes_def Let_def case_prod_beta)
  show "visibleTabIdsBySession (rebuildVisibleTabs s') = visibleTabIdsBySession (rebuildVisibleTabs s)"
    using assms p by (simp add: rebuildVisibleTabs_def frame)
qed

lemma pending_not_listed:
  assumes "terminals_keyed s" "map_has (pendingTerminalCloses s) i" "indexes_ok s"
  shows "i \<notin> set (get_list (terminalIdsByTab s) k)" "i \<notin> set (get_list (terminalIdsBySession s) k)"
  using assms keyed_lookup [OF assms(1)]
  by (auto simp: indexes_ok_def index_ok_def tab_terms_def session_terms_def listed_tab_def split: if_splits)

lemma replace_all_ok:
  shows "terminals_keyed (replace_all s sessions terminals tabs)"
    and "indexes_ok (replace_all s sessions terminals tabs)"
    and "selection_ok (replace_all s sessions terminals tabs)"
proof -
  define kvs where "kvs = map (\<lambda>v. (term_id v, v)) terminals"
  have kvs: "(i, t) \<in> set (map_from kvs) \<Longrightarrow> term_id t = i" for i t
    using set_map_from [of kvs] by (auto simp: kvs_def)
  obtain u where u: "replace_all s sessions terminals tabs = publish (reconcileSelection (rebuildTerminalIndexes u))"
    "terminalsById u = map_from kvs"
    by (simp add: replace_all_def Let_def clearAuthoritativelyFinishedCloses_def kvs_def)
  have keyed: "terminals_keyed u" using kvs by (auto simp: terminals_keyed_def u(2))
  then show "terminals_keyed (replace_all s sessions terminals tabs)"
    by (simp add: u(1) terminals_keyed_def frame)
  show "indexes_ok (replace_all s sessions terminals tabs)"
    using rebuildTerminalIndexes_ok [OF keyed]
      indexes_ok_cong [of "publish (reconcileSelection (rebuildTerminalIndexes u))" "rebuildTerminalIndexes u"]
    by (simp add: u(1) frame)
  show "selection_ok (replace_all s sessions terminals tabs)"
    by (simp add: u(1) reconcileSelection_ok)
qed

section \<open>Properties\<close>

text \<open>
  C1: after any sequence of events, the terminal lists that the store updates one terminal at
  a time contain, for every session and every tab, exactly the terminals that a full rebuild
  would list, each once and in order of position.
\<close>

theorem terminal_indexes_agree:
  assumes "terminals_keyed s" "indexes_ok s" "\<forall>e \<in> set es. event_ok e"
  shows "let s' = foldl receive_event s es; r = rebuildTerminalIndexes s' in
    (\<forall>k. mset (get_list (terminalIdsByTab s') k) = mset (get_list (terminalIdsByTab r) k) \<and>
         sorted (map (term_pos s') (get_list (terminalIdsByTab s') k))) \<and>
    (\<forall>k. mset (get_list (terminalIdsBySession s') k) = mset (get_list (terminalIdsBySession r) k) \<and>
         sorted (map (term_pos s') (get_list (terminalIdsBySession s') k)))"
proof -
  let ?s' = "foldl receive_event s es"
  let ?r = "rebuildTerminalIndexes ?s'"
  have "indexes_ok ?s' \<and> terminals_keyed ?s'"
    using assms by (induction es arbitrary: s) (auto intro: receive_event_indexes keyed_receive)
  then have ok: "indexes_ok ?s'" "indexes_ok ?r" by (auto intro: rebuildTerminalIndexes_ok)
  have same: "tab_terms ?r k = tab_terms ?s' k" "session_terms ?r k = session_terms ?s' k" for k
    using listed_tab_cong [of ?r ?s'] by (simp_all add: tab_terms_def session_terms_def frame)
  have eq: "mset xs = mset ys" if "index_ok p xs S" "index_ok q ys S" for p q and xs ys :: "terminal_id list" and S
    using that by (simp add: index_ok_def flip: set_eq_iff_mset_eq_distinct)
  have S: "index_ok (term_pos ?s') (get_list (terminalIdsBySession ?s') k) (session_terms ?s' k)"
    and S': "index_ok (term_pos ?r) (get_list (terminalIdsBySession ?r) k) (session_terms ?s' k)"
    and T: "index_ok (term_pos ?s') (get_list (terminalIdsByTab ?s') k) (tab_terms ?s' k)"
    and T': "index_ok (term_pos ?r) (get_list (terminalIdsByTab ?r) k) (tab_terms ?s' k)" for k
    using ok unfolding indexes_ok_def same by blast+
  from eq [OF S S'] eq [OF T T'] S T show ?thesis by (simp add: Let_def index_ok_def)
qed

definition sample_terminal :: "string \<Rightarrow> int \<Rightarrow> int \<Rightarrow> mux_terminal" where
  "sample_terminal i p r = \<lparr>term_id = i, term_sessionId = ''ses-1'', term_tabId = Some ''tab-1'', term_title = ''t'',
     term_position = p, term_status = StatusRunning, term_input = TerminalInput None, term_inputRevision = 0,
     term_output = \<lparr>terminalInstanceId = ''x'', ptyId = None, historyId = None, processIdentity = None,
       output_generation = 0, processState = ProcRunning, activityState = ActIdle, replayAvailable = True,
       exitCode = None, truncated = False\<rparr>,
     term_error = None, term_revision = r, term_createdAt = ''1'', term_updatedAt = ''1'', term_startedAt = None,
     term_finishedAt = None, term_archivedAt = None\<rparr>"

definition sample_store :: mux_store where
  "sample_store = replace_all new_store [sample_session] [sample_terminal ''term-b'' 2 1, sample_terminal ''term-a'' 1 1]
     [sample_tab ''tab-1'' 0]"

definition sample_event :: mux_event where
  "sample_event = MuxTerminalCreated \<lparr>eventId = ''e'', ev_revision = 1, occurredAt = ''2''\<rparr> ''term-c''
     (sample_terminal ''term-c'' 0 1)"

lemma sample_event_ok: "\<forall>e \<in> set [sample_event]. event_ok e"
  by (simp add: sample_event_def sample_terminal_def)

lemma sample_store_ok: "terminals_keyed sample_store" "indexes_ok sample_store" "selection_ok sample_store"
  by (simp_all add: sample_store_def replace_all_ok)

theorem terminal_indexes_agree_witness:
  "sorted (map (term_pos (receive_event sample_store sample_event))
     (get_list (terminalIdsByTab (receive_event sample_store sample_event)) ''tab-1''))"
  using terminal_indexes_agree [OF sample_store_ok(1,2) sample_event_ok]
  by (simp add: Let_def)

text \<open>
  C2: an event whose revision is not above the known one changes nothing; known revisions never
  go down; and after any history of events, delivering that history or any part of it again, in
  any order, changes nothing.
\<close>

theorem mux_events_replay:
  assumes "terminals_keyed s" "\<forall>e \<in> set es. event_ok e" "set es' \<subseteq> set es"
  shows "foldl receive_event (foldl receive_event s es) es' = foldl receive_event s es
    \<and> (\<forall>k. knownRevision s k \<le> knownRevision (foldl receive_event s es) k)
    \<and> (\<forall>e \<in> set es. ev_revision (event_base_of e) \<le> knownRevision (foldl receive_event s es) (event_key e))"
  using mux.replay [OF assms(2,1,3)] mux.run_monotone [OF assms(2,1)] mux.run_covered [OF assms(2,1)] by blast

theorem mux_events_replay_witness:
  "receive_event (receive_event sample_store sample_event) sample_event = receive_event sample_store sample_event"
  using mux_events_replay [OF sample_store_ok(1) sample_event_ok order_refl] by simp



text \<open>
  C24: merging a snapshot keeps, for every session and terminal, the newer of the local and the
  received value; an entity the snapshot omits is kept exactly when it changed after the baseline
  was taken.
\<close>

theorem mergeSnapshot_newest:
  assumes "map_ok (sessionsById s)" "map_ok (terminalsById s)"
  shows "let s' = mergeSnapshot s ss ts tabs hasTabs baseline in
    (\<forall>i. map_of (sessionsById s') i = newest session_rev (get_int (rev_sessions baseline) i)
       (map_of (sessionsById s) i) (map_of (map_from (map (\<lambda>v. (ses_id v, v)) ss)) i)) \<and>
    (\<forall>i. map_of (terminalsById s') i = newest term_revision (get_int (rev_terminals baseline) i)
       (map_of (terminalsById s) i) (map_of (map_from (map (\<lambda>v. (term_id v, v)) ts)) i))"
  using merge_entities_lookup [OF assms(1) map_ok_map_from] merge_entities_lookup [OF assms(2) map_ok_map_from]
  by (simp add: mergeSnapshot_def Let_def frame clearAuthoritativelyFinishedCloses_def)

theorem mergeSnapshot_newest_witness:
  "map_of (terminalsById (mergeSnapshot sample_store [sample_session] [sample_terminal ''term-a'' 1 0] [] False
      (captureRevisions new_store))) ''term-a'' = Some (sample_terminal ''term-a'' 1 1)"
proof -
  have sessions: "sessionsById sample_store = [(''ses-1'', sample_session)]"
    by (simp add: sample_store_def replace_all_def Let_def frame clearAuthoritativelyFinishedCloses_def
        map_from_def sample_session_def)
  have terminals: "terminalsById sample_store =
      [(''term-b'', sample_terminal ''term-b'' 2 1), (''term-a'', sample_terminal ''term-a'' 1 1)]"
    by (simp add: sample_store_def replace_all_def Let_def frame clearAuthoritativelyFinishedCloses_def
        map_from_def sample_terminal_def)
  have "map_ok (sessionsById sample_store)" "map_ok (terminalsById sample_store)"
    by (simp_all add: sessions terminals)
  from mergeSnapshot_newest [OF this, of "[sample_session]" "[sample_terminal ''term-a'' 1 0]" "[]" False
      "captureRevisions new_store"]
  show ?thesis
    by (simp add: Let_def terminals map_from_def newest_def sample_terminal_def)
qed

text \<open>
  C25: staging the close of a terminal takes it out of every list at once. Confirming or rolling
  back with the number of another close does nothing, and rolling back with its own number gives
  the lists that a rebuild of the original store gives.
\<close>

theorem terminal_close_rollback:
  assumes "terminals_keyed s" "stageTerminalClose s i = (s', Some m)"
  shows "(\<forall>k. i \<notin> set (get_list (terminalIdsByTab s') k) \<and> i \<notin> set (get_list (terminalIdsBySession s') k))
    \<and> (\<forall>n. n \<noteq> m \<longrightarrow> rollbackTerminalClose s' i n = s' \<and> confirmTerminalClose s' i n = s')
    \<and> pendingTerminalCloses (rollbackTerminalClose s' i m) = pendingTerminalCloses s
    \<and> terminalIdsByTab (rollbackTerminalClose s' i m) = terminalIdsByTab (rebuildVisibleTabs s)
    \<and> terminalIdsBySession (rollbackTerminalClose s' i m) = terminalIdsBySession (rebuildVisibleTabs s)"
proof -
  define s1 where "s1 = s\<lparr>nextCloseMutationId := m + 1, pendingTerminalCloses := map_set i m (pendingTerminalCloses s)\<rparr>"
  have s': "s' = publish (reconcileSelection (rebuildTerminalIndexes s1))" and fresh: "map_of (pendingTerminalCloses s) i = None"
    using assms(2) by (auto simp: stageTerminalClose_def s1_def Let_def split: option.splits if_splits)
  have keyed: "terminals_keyed s1" using assms(1) by (simp add: s1_def terminals_keyed_def)
  have pending: "pendingTerminalCloses s' = map_set i m (pendingTerminalCloses s)"
    by (simp add: s' frame s1_def)
  have "indexes_ok s'"
    using rebuildTerminalIndexes_ok [OF keyed] indexes_ok_cong [of s' "rebuildTerminalIndexes s1"]
    by (simp add: s' frame)
  moreover have "terminals_keyed s'" using keyed by (simp add: s' terminals_keyed_def frame)
  moreover have "map_has (pendingTerminalCloses s') i" by (simp add: pending jsmap)
  ultimately have hidden: "i \<notin> set (get_list (terminalIdsByTab s') k)" "i \<notin> set (get_list (terminalIdsBySession s') k)" for k
    using pending_not_listed by auto
  define u where "u = s'\<lparr>pendingTerminalCloses := map_delete i (pendingTerminalCloses s')\<rparr>"
  have undo: "rollbackTerminalClose s' i m = publish (reconcileSelection (rebuildVisibleTabs u))"
    by (simp add: rollbackTerminalClose_def pending jsmap u_def)
  have pend: "pendingTerminalCloses u = pendingTerminalCloses s"
    by (simp add: u_def pending map_delete_fresh_set [OF fresh])
  have fields: "tabsById u = tabsById s" "terminalsById u = terminalsById s" "visibleSessionIds u = visibleSessionIds s"
    "pendingTabCloses u = pendingTabCloses s"
    by (simp_all add: u_def s' frame s1_def)
  note cong = rebuildVisibleTabs_cong [OF fields(1,2,3,4) pend]
  have "rollbackTerminalClose s' i n = s' \<and> confirmTerminalClose s' i n = s'" if "n \<noteq> m" for n
    using that by (simp add: rollbackTerminalClose_def confirmTerminalClose_def pending jsmap)
  with hidden cong pend show ?thesis by (simp add: undo frame)
qed

theorem terminal_close_rollback_witness:
  "\<exists>m. pendingTerminalCloses (rollbackTerminalClose (fst (stageTerminalClose sample_store ''term-a'')) ''term-a'' m) =
     pendingTerminalCloses sample_store"
proof -
  have terminals: "map_of (terminalsById sample_store) ''term-a'' = Some (sample_terminal ''term-a'' 1 1)"
    and pending: "pendingTerminalCloses sample_store = []"
    by (simp_all add: sample_store_def replace_all_def Let_def frame clearAuthoritativelyFinishedCloses_def
        map_from_def sample_terminal_def new_store_def mux_view.defs)
  then obtain s' m where "stageTerminalClose sample_store ''term-a'' = (s', Some m)"
    by (simp add: stageTerminalClose_def sample_terminal_def truthy_def Let_def)
  from terminal_close_rollback [OF sample_store_ok(1) this] this show ?thesis by auto
qed

text \<open>
  a tab asked for by an identifier that only matches by its local key is found, but the
  identifier that was asked for is stored as the active tab, so the selection then names a tab
  the store does not have, with no terminal.
\<close>

theorem selectTab_local_key:
  assumes "map_of (tabsById s) i = None" "findByLocalKey tab_id (tabsById s) i = Some tab"
    "\<not> truthy (tab_archivedAt tab)" "\<not> map_has (pendingTabCloses s) (tab_id tab)"
  shows "activeTabId (selectTab s i) = Some i \<and> \<not> map_has (tabsById (selectTab s i)) i
    \<and> activeSessionId (selectTab s i) = Some (tab_sessionId tab)
    \<and> activeMuxTerminalId (selectTab s i) = first_of (get_list (terminalIdsByTab s) i)"
  using assms by (simp add: selectTab_def or_else_def frame selectedTerminalForTab_def)

theorem selectTab_local_key_witness:
  "activeTabId (selectTab (replace_all new_store [sample_session] [] [sample_tab ''tab-srv--1'' 0]) ''tab-1'') = Some ''tab-1''"
  using selectTab_local_key [of "replace_all new_store [sample_session] [] [sample_tab ''tab-srv--1'' 0]" "''tab-1''"
    "sample_tab ''tab-srv--1'' 0"]
  by (simp add: replace_all_def Let_def frame clearAuthoritativelyFinishedCloses_def map_from_def push_fallbacks_def
      sample_tab_def sample_session_def truthy_def findByLocalKey_def localResourceKey_def strip_kind_def starts_with_def
      new_store_def mux_view.defs)

end
