(* ===== verification/Fair_Scheduler.thy ===== *)
theory Fair_Scheduler
  imports Prelude
begin

text \<open>
  The scheduler of the terminal workers (\<open>ghostty-react/src/worker/fair-scheduler.ts\<close>): commands
  for many terminals share one worker. Each terminal has a FIFO lane with at most one command in
  flight; lanes are served by weighted deficit round robin; at most eight commands are in flight
  and the queued bytes and commands are bounded.

  \<open>queueMicrotask\<close> is the flag \<open>scheduled\<close> and the event \<open>Microtask\<close>, which the step relation
  allows exactly when the flag is set. The callback \<open>dispatch\<close> posts a message to a worker; a
  step's output is the list of these posts. Byte counts are natural numbers.
\<close>

section \<open>State\<close>

record worker_priority =
  visible :: bool
  focused :: bool

datatype completion_key = Key_String string | Key_Number int

record 'v pending =
  pending_value :: 'v
  pending_bytes :: nat
  pending_key :: completion_key

record 'v lane =
  queue :: "'v pending list"
  lane_priority :: worker_priority
  deficit :: nat
  inFlightKey :: "completion_key option"

record 'v sched =
  lanes :: "(string, 'v lane) jsmap"
  lane_order :: "string list"
  cursor :: nat
  queued_bytes :: nat
  queued_commands :: nat
  inFlight :: nat
  scheduled :: bool

definition maxBytes :: nat where "maxBytes = 32 * 1024 * 1024"
definition maxCommands :: nat where "maxCommands = 8192"
definition maxInFlight :: nat where "maxInFlight = 8"
definition quantumBytes :: nat where "quantumBytes = 64 * 1024"

definition weight :: "worker_priority \<Rightarrow> nat" where
  "weight p = (if visible p \<and> focused p then 8 else if visible p then 4 else 1)"

definition newScheduler :: "'v sched" where
  "newScheduler = \<lparr>lanes = [], lane_order = [], cursor = 0, queued_bytes = 0,
     queued_commands = 0, inFlight = 0, scheduled = False\<rparr>"

section \<open>Operations\<close>

definition schedule :: "'v sched \<Rightarrow> 'v sched" where
  "schedule s = (if scheduled s then s else s\<lparr>scheduled := True\<rparr>)"

text \<open>\<open>None\<close> is the error \<open>terminal worker scheduler is full\<close>, thrown before any change.\<close>

definition enqueue ::
  "string \<Rightarrow> 'v \<Rightarrow> nat \<Rightarrow> worker_priority \<Rightarrow> completion_key \<Rightarrow> 'v sched \<Rightarrow> 'v sched option" where
  "enqueue tid v bytes p key s =
     (let cost = max 1 bytes in
      if maxBytes < queued_bytes s + cost \<or> maxCommands < queued_commands s + 1 then None
      else
        let s = (if map_has (lanes s) tid then s
                 else s\<lparr>lanes := map_set tid \<lparr>queue = [], lane_priority = p, deficit = 0,
                          inFlightKey = None\<rparr> (lanes s),
                        lane_order := lane_order s @ [tid]\<rparr>);
            l = the (map_of (lanes s) tid);
            l = l\<lparr>lane_priority := p,
                  queue := queue l @ [\<lparr>pending_value = v, pending_bytes = cost, pending_key = key\<rparr>]\<rparr>
        in Some (schedule (s\<lparr>lanes := map_set tid l (lanes s),
                             queued_bytes := queued_bytes s + cost,
                             queued_commands := queued_commands s + 1\<rparr>)))"

definition setPriority :: "string \<Rightarrow> worker_priority \<Rightarrow> 'v sched \<Rightarrow> 'v sched" where
  "setPriority tid p s =
     (case map_of (lanes s) tid of None \<Rightarrow> s
      | Some l \<Rightarrow> s\<lparr>lanes := map_set tid (l\<lparr>lane_priority := p\<rparr>) (lanes s)\<rparr>)"

text \<open>The last three lines of \<open>cancel\<close> and of \<open>cleanup\<close>.\<close>

definition dropLane :: "string \<Rightarrow> 'v sched \<Rightarrow> 'v sched" where
  "dropLane tid s =
     (let ord = filter (\<lambda>i. i \<noteq> tid) (lane_order s) in
      s\<lparr>lanes := map_delete tid (lanes s), lane_order := ord,
        cursor := cursor s mod max 1 (length ord)\<rparr>)"

definition cleanup :: "string \<Rightarrow> 'v sched \<Rightarrow> 'v sched" where
  "cleanup tid s =
     (case map_of (lanes s) tid of None \<Rightarrow> s
      | Some l \<Rightarrow> if inFlightKey l \<noteq> None \<or> 0 < length (queue l) then s else dropLane tid s)"

definition complete :: "string \<Rightarrow> completion_key \<Rightarrow> 'v sched \<Rightarrow> 'v sched" where
  "complete tid key s =
     (case map_of (lanes s) tid of None \<Rightarrow> s
      | Some l \<Rightarrow>
          if inFlightKey l \<noteq> Some key then s
          else schedule (cleanup tid
                 (s\<lparr>lanes := map_set tid (l\<lparr>inFlightKey := None\<rparr>) (lanes s),
                    inFlight := inFlight s - 1\<rparr>)))"

definition cancel :: "string \<Rightarrow> 'v sched \<Rightarrow> 'v sched" where
  "cancel tid s =
     (case map_of (lanes s) tid of None \<Rightarrow> s
      | Some l \<Rightarrow>
          dropLane tid
            (s\<lparr>queued_bytes := foldl (\<lambda>b p. b - pending_bytes p) (queued_bytes s) (queue l),
               queued_commands := foldl (\<lambda>c p. c - 1) (queued_commands s) (queue l),
               inFlight := inFlight s - (if inFlightKey l \<noteq> None then 1 else 0)\<rparr>))"

definition reset :: "'v sched \<Rightarrow> 'v sched" where
  "reset s = s\<lparr>lanes := [], lane_order := [], cursor := 0, queued_bytes := 0,
               queued_commands := 0, inFlight := 0\<rparr>"

definition snapshot :: "'v sched \<Rightarrow> nat \<times> nat \<times> nat" where
  "snapshot s = (queued_bytes s, queued_commands s, inFlight s)"

text \<open>
  One round of the loop of \<open>pump\<close>: the lane under the cursor is visited and the cursor moves on.
  An empty terminal id is skipped as an out-of-range one is (\<open>if (!terminalId) continue\<close>).
\<close>

definition visit :: "'v sched \<Rightarrow> 'v sched \<times> (string \<times> 'v) list" where
  "visit s =
     (let tid = (if cursor s < length (lane_order s) then Some (lane_order s ! cursor s) else None);
          s = s\<lparr>cursor := (cursor s + 1) mod length (lane_order s)\<rparr>
      in case tid of None \<Rightarrow> (s, [])
         | Some tid \<Rightarrow>
             if tid = '''' then (s, [])
             else case map_of (lanes s) tid of None \<Rightarrow> (s, [])
             | Some l \<Rightarrow>
                 if inFlightKey l \<noteq> None \<or> queue l = [] then (s, [])
                 else
                   let l = l\<lparr>deficit := deficit l + quantumBytes * weight (lane_priority l)\<rparr>;
                       p = hd (queue l)
                   in if deficit l < pending_bytes p
                      then (s\<lparr>lanes := map_set tid l (lanes s)\<rparr>, [])
                      else
                        (s\<lparr>lanes := map_set tid
                             (l\<lparr>queue := tl (queue l), deficit := deficit l - pending_bytes p,
                                inFlightKey := Some (pending_key p)\<rparr>) (lanes s),
                           queued_bytes := queued_bytes s - pending_bytes p,
                           queued_commands := queued_commands s - 1,
                           inFlight := inFlight s + 1\<rparr>,
                         [(tid, pending_value p)]))"

fun pump_loop :: "nat \<Rightarrow> 'v sched \<Rightarrow> 'v sched \<times> (string \<times> 'v) list" where
  "pump_loop 0 s = (s, [])"
| "pump_loop (Suc attempts) s =
     (if inFlight s < maxInFlight
      then let (s1, out1) = visit s; (s2, out2) = pump_loop attempts s1 in (s2, out1 @ out2)
      else (s, []))"

definition dispatchable :: "'v lane \<Rightarrow> bool" where
  "dispatchable l \<longleftrightarrow> inFlightKey l = None \<and> 0 < length (queue l)"

definition pump :: "'v sched \<Rightarrow> 'v sched \<times> (string \<times> 'v) list" where
  "pump s =
     (if length (lane_order s) = 0 \<or> maxInFlight \<le> inFlight s then (s, [])
      else
        let (s, out) = pump_loop (length (lane_order s) * 32) s;
            hasDispatchableLane = list_ex dispatchable (map_values (lanes s))
        in (if inFlight s < maxInFlight \<and> hasDispatchableLane then schedule s else s, out))"

text \<open>The callback that \<open>schedule\<close> hands to \<open>queueMicrotask\<close>.\<close>

definition microtask :: "'v sched \<Rightarrow> 'v sched \<times> (string \<times> 'v) list" where
  "microtask s = pump (s\<lparr>scheduled := False\<rparr>)"

section \<open>Events\<close>

datatype 'v sched_event =
    Enqueue string 'v nat worker_priority completion_key
  | Enqueue_Throws string 'v nat worker_priority completion_key
  | Set_Priority string worker_priority
  | Complete string completion_key
  | Cancel string
  | Reset
  | Microtask

inductive sched_step ::
  "'v sched \<Rightarrow> 'v sched_event \<Rightarrow> (string \<times> 'v) list \<Rightarrow> 'v sched \<Rightarrow> bool" where
  step_enqueue: "enqueue tid v b p k s = Some s' \<Longrightarrow> sched_step s (Enqueue tid v b p k) [] s'"
| step_full: "enqueue tid v b p k s = None \<Longrightarrow> sched_step s (Enqueue_Throws tid v b p k) [] s"
| step_priority: "sched_step s (Set_Priority tid p) [] (setPriority tid p s)"
| step_complete: "sched_step s (Complete tid k) [] (complete tid k s)"
| step_cancel: "sched_step s (Cancel tid) [] (cancel tid s)"
| step_reset: "sched_step s Reset [] (reset s)"
| step_microtask: "scheduled s \<Longrightarrow> microtask s = (s', out) \<Longrightarrow> sched_step s Microtask out s'"

inductive_cases sched_stepE: "sched_step s e out s'"

inductive sched_run ::
  "'v sched \<Rightarrow> 'v sched_event list \<Rightarrow> (string \<times> 'v) list \<Rightarrow> 'v sched \<Rightarrow> bool" where
  run_Nil: "sched_run s [] [] s"
| run_Cons: "sched_step s e out s1 \<Longrightarrow> sched_run s1 es outs s2 \<Longrightarrow>
    sched_run s (e # es) (out @ outs) s2"

section \<open>Accounting\<close>

definition lane_bytes :: "'v lane \<Rightarrow> nat" where
  "lane_bytes l = sum_list (map pending_bytes (queue l))"

definition lane_busy :: "'v lane \<Rightarrow> nat" where
  "lane_busy l = (if inFlightKey l = None then 0 else 1)"

definition total :: "('v lane \<Rightarrow> nat) \<Rightarrow> (string, 'v lane) jsmap \<Rightarrow> nat" where
  "total f m = sum_list (map f (map_values m))"

definition lane_ok :: "'v lane \<Rightarrow> bool" where
  "lane_ok l \<longleftrightarrow> (queue l \<noteq> [] \<or> inFlightKey l \<noteq> None) \<and>
     (\<forall>p \<in> set (queue l). 1 \<le> pending_bytes p \<and> pending_bytes p \<le> maxBytes)"

definition sched_ok :: "'v sched \<Rightarrow> bool" where
  "sched_ok s \<longleftrightarrow> map_ok (lanes s) \<and> lane_order s = map_keys (lanes s) \<and>
     cursor s < max 1 (length (lane_order s)) \<and>
     queued_bytes s = total lane_bytes (lanes s) \<and>
     queued_commands s = total (\<lambda>l. length (queue l)) (lanes s) \<and>
     inFlight s = total lane_busy (lanes s) \<and>
     queued_bytes s \<le> maxBytes \<and> queued_commands s \<le> maxCommands \<and> inFlight s \<le> maxInFlight \<and>
     (\<forall>l \<in> set (map_values (lanes s)). lane_ok l)"

lemma total_split:
  "map_ok m \<Longrightarrow> map_of m k = Some l \<Longrightarrow> total f m = f l + total f (map_delete k m)"
  by (induction m) (auto simp: total_def delete_id add.left_commute)

lemma delete_map_set: "map_delete k (map_set k v m) = map_delete k m"
  by (induction m) (auto simp: delete_id)

lemma total_delete: "map_ok m \<Longrightarrow> map_of m k = Some l \<Longrightarrow> total f (map_delete k m) = total f m - f l"
  using total_split [of m k l f] by simp

lemma total_set: "map_ok m \<Longrightarrow> map_of m k = Some l \<Longrightarrow> total f (map_set k v m) = total f m - f l + f v"
  using total_split [of m k l f] total_split [of "map_set k v m" k v f]
  by (simp add: delete_map_set jsmap)

lemma total_new: "k \<notin> fst ` set m \<Longrightarrow> total f (map_set k v m) = total f m + f v"
  by (induction m) (auto simp: total_def)

lemma total_ge: "map_ok m \<Longrightarrow> map_of m k = Some l \<Longrightarrow> f l \<le> total f m"
  using total_split [of m k l f] by simp

lemma keys_set_has: "map_of m k \<noteq> None \<Longrightarrow> map_keys (map_set k v m) = map_keys m"
  by (induction m) (auto split: if_splits)

lemma keys_set_new: "map_of m k = None \<Longrightarrow> map_keys (map_set k v m) = map_keys m @ [k]"
  by (induction m) (auto split: if_splits)

lemma keys_delete: "map_keys (map_delete k m) = filter (\<lambda>i. i \<noteq> k) (map_keys m)"
  by (induction m) auto

lemma all_values_set:
  "\<forall>x \<in> set m. P (snd x) \<Longrightarrow> P v \<Longrightarrow> \<forall>x \<in> set (map_set k v m). P (snd x)"
  by (induction m) auto

lemma all_values_delete: "\<forall>x \<in> set m. P (snd x) \<Longrightarrow> \<forall>x \<in> set (map_delete k m). P (snd x)"
  by (induction m) auto

lemma value_of: "map_of m k = Some l \<Longrightarrow> l \<in> set (map_values m)"
  by (metis image_eqI list.set_map map_of_SomeD snd_conv)

lemma sched_okD:
  assumes "sched_ok s"
  shows "map_ok (lanes s)" "lane_order s = map_keys (lanes s)"
    "map_of (lanes s) k = Some l \<Longrightarrow> lane_ok l"
  using assms by (auto simp: sched_ok_def dest: map_of_SomeD)

lemma sched_bounds:
  assumes "sched_ok s"
  shows "cursor s < max 1 (length (lane_order s))" "queued_bytes s \<le> maxBytes"
    "queued_commands s \<le> maxCommands" "inFlight s \<le> maxInFlight"
  using assms unfolding sched_ok_def by blast+

text \<open>Replacing a lane's record keeps the invariant when the counters follow.\<close>

lemma sched_ok_replace:
  assumes ok: "sched_ok s" and l: "map_of (lanes s) tid = Some l" and l': "lane_ok l'"
    and s': "lanes s' = map_set tid l' (lanes s)" "lane_order s' = lane_order s"
      "cursor s' < max 1 (length (lane_order s))"
      "queued_bytes s' = queued_bytes s - lane_bytes l + lane_bytes l'"
      "queued_commands s' = queued_commands s - length (queue l) + length (queue l')"
      "inFlight s' = inFlight s - lane_busy l + lane_busy l'"
      "queued_bytes s' \<le> maxBytes" "queued_commands s' \<le> maxCommands" "inFlight s' \<le> maxInFlight"
  shows "sched_ok s'"
proof -
  note m = sched_okD(1) [OF ok]
  have keys: "map_keys (map_set tid l' (lanes s)) = map_keys (lanes s)"
    by (rule keys_set_has) (simp add: l)
  have oks: "\<forall>x \<in> set (map_set tid l' (lanes s)). lane_ok (snd x)"
    by (rule all_values_set) (use l' ok in \<open>simp_all add: sched_ok_def\<close>)
  show ?thesis
    using ok s' keys oks m unfolding sched_ok_def by (simp add: total_set [OF m l])
qed

lemma lane_le:
  assumes "sched_ok s" "map_of (lanes s) tid = Some l"
  shows "lane_bytes l \<le> queued_bytes s" "length (queue l) \<le> queued_commands s" "lane_busy l \<le> inFlight s"
  using assms total_ge [OF sched_okD(1) [OF assms(1)] assms(2)] by (simp_all add: sched_ok_def)

lemma schedule_simps [simp]:
  "lanes (schedule s) = lanes s" "lane_order (schedule s) = lane_order s"
  "cursor (schedule s) = cursor s" "queued_bytes (schedule s) = queued_bytes s"
  "queued_commands (schedule s) = queued_commands s" "inFlight (schedule s) = inFlight s"
  "scheduled (schedule s)"
  by (simp_all add: schedule_def)

lemma sched_ok_scheduled [simp]: "sched_ok (s\<lparr>scheduled := b\<rparr>) = sched_ok s"
  by (simp add: sched_ok_def)

lemma sched_ok_schedule [simp]: "sched_ok (schedule s) = sched_ok s"
  by (simp add: sched_ok_def)

lemma newScheduler_ok: "sched_ok newScheduler"
  by (simp add: sched_ok_def newScheduler_def total_def)

lemma reset_ok: "sched_ok s \<Longrightarrow> sched_ok (reset s)"
  by (simp add: sched_ok_def reset_def total_def)

lemma enqueue_ok:
  assumes ok: "sched_ok s" and e: "enqueue tid v b p k s = Some s'"
  shows "sched_ok s'"
proof -
  let ?c = "max 1 b"
  let ?e = "\<lparr>pending_value = v, pending_bytes = ?c, pending_key = k\<rparr>"
  from e have lim: "queued_bytes s + ?c \<le> maxBytes" "queued_commands s + 1 \<le> maxCommands"
    by (auto simp: enqueue_def Let_def split: if_splits)
  then have c: "1 \<le> ?c" "?c \<le> maxBytes" by linarith+
  show ?thesis
  proof (cases "map_of (lanes s) tid")
    case (Some l)
    let ?l = "l\<lparr>lane_priority := p, queue := queue l @ [?e]\<rparr>"
    from e Some have s': "s' = schedule (s\<lparr>lanes := map_set tid ?l (lanes s),
        queued_bytes := queued_bytes s + ?c, queued_commands := queued_commands s + 1\<rparr>)"
      by (auto simp: enqueue_def Let_def split: if_splits)
    have "lane_ok ?l" using sched_okD(3) [OF ok Some] c by (auto simp: lane_ok_def)
    from sched_ok_replace [OF ok Some this, of s'] lim lane_le [OF ok Some] ok show ?thesis
      by (simp add: s' lane_bytes_def lane_busy_def sched_ok_def split: if_splits)
  next
    case None
    let ?l = "\<lparr>queue = [?e], lane_priority = p, deficit = 0, inFlightKey = None\<rparr>"
    from e None have s': "s' = schedule (s\<lparr>lanes := map_set tid ?l (lanes s),
        lane_order := lane_order s @ [tid],
        queued_bytes := queued_bytes s + ?c, queued_commands := queued_commands s + 1\<rparr>)"
      by (auto simp: enqueue_def Let_def jsmap update_triv split: if_splits)
    have new: "tid \<notin> fst ` set (lanes s)" using None by (simp add: map_of_eq_None_iff)
    have "lane_ok ?l" using c by (auto simp: lane_ok_def)
    then have "\<forall>x \<in> set (map_set tid ?l (lanes s)). lane_ok (snd x)"
      by (intro all_values_set) (use ok in \<open>simp_all add: sched_ok_def\<close>)
    then show ?thesis
      using ok lim new keys_set_new [OF None, of ?l]
      by (auto simp: s' sched_ok_def total_new lane_bytes_def lane_busy_def)
  qed
qed

lemma setPriority_ok: "sched_ok s \<Longrightarrow> sched_ok (setPriority tid p s)"
proof (cases "map_of (lanes s) tid")
  case (Some l)
  assume ok: "sched_ok s"
  have "lane_ok (l\<lparr>lane_priority := p\<rparr>)" using sched_okD(3) [OF ok Some] by (simp add: lane_ok_def)
  from sched_ok_replace [OF ok Some this, of "setPriority tid p s"] lane_le [OF ok Some] ok Some
  show ?thesis by (simp add: setPriority_def lane_bytes_def lane_busy_def sched_ok_def split: if_splits)
qed (simp add: setPriority_def)

lemma dropLane_fields [simp]:
  "lanes (dropLane tid s) = map_delete tid (lanes s)"
  "lane_order (dropLane tid s) = filter (\<lambda>i. i \<noteq> tid) (lane_order s)"
  "queued_bytes (dropLane tid s) = queued_bytes s"
  "queued_commands (dropLane tid s) = queued_commands s"
  "inFlight (dropLane tid s) = inFlight s"
  "scheduled (dropLane tid s) = scheduled s"
  by (simp_all add: dropLane_def Let_def)

lemma dropLane_cursor: "cursor (dropLane tid s) < max 1 (length (lane_order (dropLane tid s)))"
  by (simp add: dropLane_def Let_def)

text \<open>Deleting a lane keeps the invariant when the counters lose the lane's share.\<close>

lemma dropLane_ok:
  assumes ok: "sched_ok s" and l: "map_of (lanes s) tid = Some l"
    and s': "map_delete tid (lanes s') = map_delete tid (lanes s)" "lane_order s' = lane_order s"
      "queued_bytes s' = queued_bytes s - lane_bytes l"
      "queued_commands s' = queued_commands s - length (queue l)"
      "inFlight s' = inFlight s - lane_busy l"
  shows "sched_ok (dropLane tid s')"
proof -
  note m = sched_okD(1) [OF ok]
  have oks: "\<forall>x \<in> set (map_delete tid (lanes s)). lane_ok (snd x)"
    by (rule all_values_delete) (use ok in \<open>simp add: sched_ok_def\<close>)
  show ?thesis
    using ok s' oks m dropLane_cursor [of tid s'] unfolding sched_ok_def
    by (auto simp: total_delete [OF m l] keys_delete)
qed

lemma foldl_minus: "foldl (\<lambda>b p. b - f p) (n::nat) ps = n - sum_list (map f ps)"
  by (induction ps arbitrary: n) auto

lemma cancel_ok: "sched_ok s \<Longrightarrow> sched_ok (cancel tid s)"
proof (cases "map_of (lanes s) tid")
  case (Some l)
  assume ok: "sched_ok s"
  have "foldl (\<lambda>c p. c - 1) (queued_commands s) (queue l) = queued_commands s - length (queue l)"
    using foldl_minus [of "\<lambda>_. 1" "queued_commands s" "queue l"] by (simp add: sum_list_triv)
  with dropLane_ok [OF ok Some] Some show ?thesis
    by (simp add: cancel_def foldl_minus lane_bytes_def lane_busy_def)
qed (simp add: cancel_def)

lemma complete_ok: "sched_ok s \<Longrightarrow> sched_ok (complete tid k s)"
proof (cases "map_of (lanes s) tid")
  case (Some l)
  assume ok: "sched_ok s"
  let ?l = "l\<lparr>inFlightKey := None\<rparr>"
  let ?s = "s\<lparr>lanes := map_set tid ?l (lanes s), inFlight := inFlight s - 1\<rparr>"
  have "sched_ok (cleanup tid ?s)" if k: "inFlightKey l = Some k"
  proof (cases "queue l = []")
    case True
    have "sched_ok (dropLane tid ?s)"
      by (rule dropLane_ok [OF ok Some])
        (use True k in \<open>simp_all add: lane_bytes_def lane_busy_def delete_map_set\<close>)
    with True show ?thesis by (simp add: cleanup_def jsmap)
  next
    case False
    have "lane_ok ?l" using sched_okD(3) [OF ok Some] False by (simp add: lane_ok_def)
    then have "sched_ok ?s"
      by (rule sched_ok_replace [OF ok Some])
        (use lane_le [OF ok Some] sched_bounds [OF ok] k in
          \<open>simp_all add: lane_bytes_def lane_busy_def\<close>)
    with False show ?thesis by (simp add: cleanup_def jsmap)
  qed
  with ok Some show ?thesis by (simp add: complete_def)
qed (simp add: complete_def)

text \<open>The cases of a visit: nothing to do, the deficit grows, or the head of the queue is sent.\<close>

definition charged :: "'v lane \<Rightarrow> 'v lane" where
  "charged l = l\<lparr>deficit := deficit l + quantumBytes * weight (lane_priority l)\<rparr>"

definition sent :: "'v lane \<Rightarrow> 'v lane" where
  "sent l = (charged l)\<lparr>queue := tl (queue l), deficit := deficit (charged l) - pending_bytes (hd (queue l)),
     inFlightKey := Some (pending_key (hd (queue l)))\<rparr>"

definition next_cursor :: "'v sched \<Rightarrow> 'v sched" where
  "next_cursor s = s\<lparr>cursor := (cursor s + 1) mod length (lane_order s)\<rparr>"

lemma charged_simps [simp]:
  "queue (charged l) = queue l" "inFlightKey (charged l) = inFlightKey l"
  "lane_priority (charged l) = lane_priority l"
  "deficit (charged l) = deficit l + quantumBytes * weight (lane_priority l)"
  by (simp_all add: charged_def)

lemma sent_simps [simp]:
  "queue (sent l) = tl (queue l)" "inFlightKey (sent l) = Some (pending_key (hd (queue l)))"
  "lane_priority (sent l) = lane_priority l"
  by (simp_all add: sent_def)

lemma next_cursor_simps [simp]:
  "lanes (next_cursor s) = lanes s" "lane_order (next_cursor s) = lane_order s"
  "queued_bytes (next_cursor s) = queued_bytes s" "queued_commands (next_cursor s) = queued_commands s"
  "inFlight (next_cursor s) = inFlight s" "scheduled (next_cursor s) = scheduled s"
  "cursor (next_cursor s) = (cursor s + 1) mod length (lane_order s)"
  by (simp_all add: next_cursor_def)

lemma visit_cases:
  obtains (idle) "visit s = (next_cursor s, [])"
      "\<And>tid l. cursor s < length (lane_order s) \<Longrightarrow> tid = lane_order s ! cursor s \<Longrightarrow> tid \<noteq> '''' \<Longrightarrow>
         map_of (lanes s) tid = Some l \<Longrightarrow> \<not> dispatchable l"
  | (wait) tid l where "cursor s < length (lane_order s)" "tid = lane_order s ! cursor s" "tid \<noteq> ''''"
      "map_of (lanes s) tid = Some l" "dispatchable l"
      "deficit (charged l) < pending_bytes (hd (queue l))"
      "visit s = ((next_cursor s)\<lparr>lanes := map_set tid (charged l) (lanes s)\<rparr>, [])"
  | (send) tid l where "cursor s < length (lane_order s)" "tid = lane_order s ! cursor s" "tid \<noteq> ''''"
      "map_of (lanes s) tid = Some l" "dispatchable l"
      "pending_bytes (hd (queue l)) \<le> deficit (charged l)"
      "visit s = ((next_cursor s)\<lparr>lanes := map_set tid (sent l) (lanes s),
         queued_bytes := queued_bytes s - pending_bytes (hd (queue l)),
         queued_commands := queued_commands s - 1, inFlight := inFlight s + 1\<rparr>,
         [(tid, pending_value (hd (queue l)))])"
proof -
  let ?t = "lane_order s ! cursor s"
  show ?thesis
  proof (cases "cursor s < length (lane_order s) \<and> ?t \<noteq> '''' \<and>
      (\<exists>l. map_of (lanes s) ?t = Some l \<and> dispatchable l)")
    case False
    then have "visit s = (next_cursor s, [])"
      by (auto simp: visit_def Let_def next_cursor_def dispatchable_def split: option.splits)
    show ?thesis by (rule idle) (use False \<open>visit s = _\<close> in \<open>auto\<close>)
  next
    case True
    then obtain l where l: "cursor s < length (lane_order s)" "?t \<noteq> ''''"
      "map_of (lanes s) ?t = Some l" "dispatchable l" by blast
    show ?thesis
    proof (cases "deficit (charged l) < pending_bytes (hd (queue l))")
      case c: True
      show ?thesis
        by (rule wait [OF l(1) refl l(2,3,4) c])
          (use l c in \<open>simp add: visit_def Let_def next_cursor_def dispatchable_def charged_def\<close>)
    next
      case c: False
      then have "pending_bytes (hd (queue l)) \<le> deficit (charged l)" by simp
      then show ?thesis
        by (rule send [OF l(1) refl l(2,3,4)])
          (use l c in \<open>simp add: visit_def Let_def next_cursor_def dispatchable_def charged_def sent_def\<close>)
    qed
  qed
qed

lemma visit_order [simp]: "lane_order (fst (visit s)) = lane_order s"
  by (rule visit_cases [of s]) simp_all

lemma visit_scheduled [simp]: "scheduled (fst (visit s)) = scheduled s"
  by (rule visit_cases [of s]) simp_all

lemma next_cursor_ok: "sched_ok s \<Longrightarrow> lane_order s \<noteq> [] \<Longrightarrow> sched_ok (next_cursor s)"
  by (simp add: sched_ok_def next_cursor_def less_max_iff_disj)

lemma charged_ok: "lane_ok l \<Longrightarrow> lane_ok (charged l)"
  by (simp add: lane_ok_def)

lemma sent_ok: "lane_ok l \<Longrightarrow> lane_ok (sent l)"
  by (cases "queue l") (simp_all add: lane_ok_def)

lemma visit_ok:
  assumes ok: "sched_ok s" and ne: "lane_order s \<noteq> []" and f: "inFlight s < maxInFlight"
  shows "sched_ok (fst (visit s))"
proof (cases rule: visit_cases [of s])
  case idle
  with next_cursor_ok [OF ok ne] show ?thesis by simp
next
  case (wait tid l)
  note ok' = next_cursor_ok [OF ok ne]
  have l: "map_of (lanes (next_cursor s)) tid = Some l" using wait by simp
  have c: "cursor (next_cursor s) < max 1 (length (lane_order s))"
    using sched_bounds(1) [OF ok'] by simp
  show ?thesis unfolding wait(7) fst_conv
    by (rule sched_ok_replace [OF ok' l charged_ok [OF sched_okD(3) [OF ok' l]]])
      (use lane_le [OF ok' l] sched_bounds [OF ok'] in \<open>simp_all add: lane_bytes_def lane_busy_def\<close>)
next
  case (send tid l)
  note ok' = next_cursor_ok [OF ok ne]
  have l: "map_of (lanes (next_cursor s)) tid = Some l" using send by simp
  obtain p ps where q: "queue l = p # ps"
    using send(5) by (cases "queue l") (auto simp: dispatchable_def)
  show ?thesis unfolding send(7) fst_conv
    by (rule sched_ok_replace [OF ok' l sent_ok [OF sched_okD(3) [OF ok' l]]])
      (use lane_le [OF ok' l] sched_bounds [OF ok'] send(5) f in
        \<open>simp_all add: q lane_bytes_def lane_busy_def dispatchable_def\<close>)
qed

lemma pump_loop_induct [consumes 1, case_names start round]:
  assumes "pump_loop n s = (s', out)"
    and "\<And>s. P s s []"
    and "\<And>s s1 out1 s' out2. inFlight s < maxInFlight \<Longrightarrow> visit s = (s1, out1) \<Longrightarrow>
      P s1 s' out2 \<Longrightarrow> P s s' (out1 @ out2)"
  shows "P s s' out"
  using assms(1)
proof (induction n arbitrary: s out)
  case 0
  with assms(2) show ?case by simp
next
  case (Suc n)
  from Suc.prems show ?case
  proof (cases "inFlight s < maxInFlight")
    case True
    obtain s1 out1 where v: "visit s = (s1, out1)" by fastforce
    obtain s2 out2 where r: "pump_loop n s1 = (s2, out2)" by fastforce
    from Suc.prems True v r have "s2 = s'" "out = out1 @ out2" by simp_all
    with assms(3) [OF True v Suc.IH] r show ?thesis by simp
  next
    case False
    with Suc.prems assms(2) show ?thesis by simp
  qed
qed

lemma pump_loop_ok:
  "pump_loop n s = (s', out) \<Longrightarrow> sched_ok s \<and> lane_order s \<noteq> [] \<longrightarrow> sched_ok s' \<and> lane_order s' = lane_order s"
proof (induction rule: pump_loop_induct)
  case (round s s1 out1 s' out2)
  from round(2) visit_ok [of s] visit_order [of s] round(1,3) show ?case by simp
qed simp

lemma pump_ok: "sched_ok s \<Longrightarrow> sched_ok (fst (pump s))"
  using pump_loop_ok [of "length (lane_order s) * 32" s] by (auto simp: pump_def Let_def split: prod.split)

lemma microtask_ok: "sched_ok s \<Longrightarrow> sched_ok (fst (microtask s))"
  by (simp add: microtask_def pump_ok)

lemma sched_step_ok: "sched_step s e out s' \<Longrightarrow> sched_ok s \<Longrightarrow> sched_ok s'"
  by (induction rule: sched_step.induct)
    (auto simp: enqueue_ok setPriority_ok complete_ok cancel_ok reset_ok dest: microtask_ok)

lemma sched_run_ok: "sched_run s es out s' \<Longrightarrow> sched_ok s \<Longrightarrow> sched_ok s'"
  by (induction rule: sched_run.induct) (auto dest: sched_step_ok)

section \<open>Order of service\<close>

definition queued :: "string \<Rightarrow> 'v sched \<Rightarrow> 'v list" where
  "queued tid s = (case map_of (lanes s) tid of None \<Rightarrow> [] | Some l \<Rightarrow> map pending_value (queue l))"

definition sent_to :: "string \<Rightarrow> (string \<times> 'v) list \<Rightarrow> 'v list" where
  "sent_to tid out = map snd (filter (\<lambda>tv. fst tv = tid) out)"

definition entered :: "string \<Rightarrow> 'v sched_event list \<Rightarrow> 'v list" where
  "entered tid es = concat (map (\<lambda>e. case e of Enqueue t v b p k \<Rightarrow> if t = tid then [v] else []
                                   | _ \<Rightarrow> []) es)"

lemma sent_to_simps [simp]:
  "sent_to tid [] = []" "sent_to tid (xs @ ys) = sent_to tid xs @ sent_to tid ys"
  "sent_to tid [(t, v)] = (if t = tid then [v] else [])"
  by (simp_all add: sent_to_def)

lemma entered_simps [simp]:
  "entered tid [] = []" "entered tid (e # es) = entered tid [e] @ entered tid es"
  by (simp_all add: entered_def)

lemma visit_fifo: "visit s = (s', out) \<Longrightarrow> sent_to tid out @ queued tid s' = queued tid s"
proof (cases rule: visit_cases [of s])
  case idle
  moreover assume "visit s = (s', out)"
  ultimately show ?thesis by (auto simp: queued_def)
next
  case (wait t l)
  moreover assume "visit s = (s', out)"
  ultimately show ?thesis by (auto simp: queued_def jsmap)
next
  case (send t l)
  moreover assume "visit s = (s', out)"
  moreover obtain p ps where "queue l = p # ps"
    using send(5) by (cases "queue l") (auto simp: dispatchable_def)
  ultimately show ?thesis by (auto simp: queued_def jsmap)
qed

lemma pump_loop_fifo: "pump_loop n s = (s', out) \<Longrightarrow> sent_to tid out @ queued tid s' = queued tid s"
proof (induction rule: pump_loop_induct)
  case (round s s1 out1 s' out2)
  from visit_fifo [OF round(2), of tid] round(3) show ?case by simp
qed simp

lemma queued_scheduled [simp]:
  "queued tid (s\<lparr>scheduled := b\<rparr>) = queued tid s" "queued tid (schedule s) = queued tid s"
  by (simp_all add: queued_def)

lemma microtask_fifo: "microtask s = (s', out) \<Longrightarrow> sent_to tid out @ queued tid s' = queued tid s"
  using pump_loop_fifo [of _ "s\<lparr>scheduled := False\<rparr>" _ _ tid]
  by (fastforce simp: microtask_def pump_def Let_def split: prod.splits if_splits)

lemma enqueue_queued:
  "enqueue tid v b p k s = Some s' \<Longrightarrow> queued t s' = queued t s @ (if t = tid then [v] else [])"
  by (auto simp: enqueue_def Let_def queued_def jsmap split: if_splits option.splits)

lemma dropLane_queued: "t \<noteq> tid \<or> queued tid s = [] \<Longrightarrow> queued t (dropLane tid s) = queued t s"
  by (auto simp: queued_def jsmap)

lemma complete_queued: "queued t (complete tid k s) = queued t s"
proof (cases "map_of (lanes s) tid")
  case (Some l)
  then show ?thesis
    by (auto simp: complete_def cleanup_def jsmap queued_def split: option.splits)
qed (simp add: complete_def)

lemma cancel_queued: "queued t (cancel tid s) = (if t = tid then [] else queued t s)"
  by (auto simp: cancel_def queued_def jsmap split: option.splits)

lemma setPriority_queued: "queued t (setPriority tid p s) = queued t s"
  by (auto simp: setPriority_def queued_def jsmap split: option.splits)

lemma step_fifo:
  assumes "sched_step s e out s'" "e \<noteq> Cancel tid" "e \<noteq> Reset"
  shows "sent_to tid out @ queued tid s' = queued tid s @ entered tid [e]"
  using assms
  by (induction rule: sched_step.induct)
    (auto simp: entered_def enqueue_queued complete_queued cancel_queued setPriority_queued
      dest: microtask_fifo [of _ _ _ tid])

text \<open>
  C15: Strict FIFO per terminal. Over any run of the scheduler in which a terminal is not
  cancelled and the worker not reset, what was posted for the terminal, followed by what is still
  queued for it, is what was queued at first followed by the commands accepted for it, in the
  order of the calls: nothing is lost, duplicated or reordered, whatever the other terminals do.
\<close>

theorem scheduler_fifo:
  assumes "sched_run s es out s'" "Cancel tid \<notin> set es" "Reset \<notin> set es"
  shows "sent_to tid out @ queued tid s' = queued tid s @ entered tid es"
  using assms
proof (induction rule: sched_run.induct)
  case (run_Cons s e out s1 es outs s2)
  have "sent_to tid out @ queued tid s1 = queued tid s @ entered tid [e]"
    by (rule step_fifo [OF run_Cons.hyps(1)]) (use run_Cons.prems in auto)
  with run_Cons.IH run_Cons.prems show ?case
    by (subst entered_simps(2)) (simp del: entered_simps(2))
qed simp

text \<open>
  C31: The accounts of the scheduler. In every state that a run from a new scheduler reaches, with
  enqueues, refused enqueues, completions, cancellations, resets and pumps in any order: the key order of the service ring is that of the lanes, the cursor is
  inside it, \<open>bytes\<close>, \<open>commands\<close> and \<open>inFlight\<close> are the sums over the lanes, all three are within
  their limits, and every lane has something queued or in flight.
\<close>

theorem scheduler_accounts:
  assumes "sched_run newScheduler es out s"
  shows "sched_ok s"
  by (rule sched_run_ok [OF assms newScheduler_ok])

section \<open>No lost wake-up\<close>

text \<open>Whenever a lane could be served, a pump is scheduled or the flight limit is reached.\<close>

definition awake :: "'v sched \<Rightarrow> bool" where
  "awake s \<longleftrightarrow> scheduled s \<or> maxInFlight \<le> inFlight s \<or> \<not> list_ex dispatchable (map_values (lanes s))"

lemma list_ex_set:
  "map_of m k = Some l \<Longrightarrow> P l' = P l \<Longrightarrow> list_ex P (map_values (map_set k l' m)) = list_ex P (map_values m)"
  by (induction m) (auto split: if_splits)

lemma awake_scheduled: "scheduled s \<Longrightarrow> awake s"
  by (simp add: awake_def)

lemma pump_awake: "lane_order s = map_keys (lanes s) \<Longrightarrow> awake (fst (pump s))"
  by (auto simp: pump_def awake_def Let_def split: prod.split)

lemma setPriority_awake: "awake s \<Longrightarrow> awake (setPriority tid p s)"
  by (auto simp: awake_def setPriority_def dispatchable_def list_ex_set split: option.splits)

lemma complete_awake: "awake s \<Longrightarrow> awake (complete tid k s)"
  by (auto simp: complete_def awake_scheduled split: option.splits)

lemma step_awake:
  assumes "sched_step s e out s'" "sched_ok s" "awake s" "\<And>tid. e \<noteq> Cancel tid"
  shows "awake s'"
  using assms
proof (induction rule: sched_step.induct)
  case (step_enqueue tid v b p k s s')
  then show ?case by (auto simp: enqueue_def Let_def intro: awake_scheduled split: if_splits)
next
  case (step_microtask s s' out)
  have "awake (fst (pump (s\<lparr>scheduled := False\<rparr>)))"
    by (rule pump_awake) (use step_microtask.prems(1) in \<open>simp add: sched_ok_def\<close>)
  with step_microtask.hyps(2) show ?case by (simp add: microtask_def)
qed (auto simp: setPriority_awake complete_awake, simp add: awake_def reset_def)

text \<open>
  No lost wake-up. In a run without cancellations from a new scheduler, whenever some lane has
  a command to post and none in flight, either eight commands are in flight (the next completion
  will schedule a pump) or a pump is already scheduled.
\<close>

theorem scheduler_wakes:
  assumes "sched_run newScheduler es out s" "\<forall>tid. Cancel tid \<notin> set es"
  shows "scheduled s \<or> maxInFlight \<le> inFlight s \<or> \<not> list_ex dispatchable (map_values (lanes s))"
proof -
  have "sched_run s0 es out s \<Longrightarrow> sched_ok s0 \<Longrightarrow> awake s0 \<Longrightarrow> \<forall>tid. Cancel tid \<notin> set es \<Longrightarrow> awake s" for s0
  proof (induction rule: sched_run.induct)
    case (run_Cons s e out s1 es outs s2)
    have "awake s1" by (rule step_awake [OF run_Cons.hyps(1)]) (use run_Cons.prems in auto)
    with run_Cons sched_step_ok [OF run_Cons.hyps(1)] show ?case by simp
  qed
  from this [OF assms(1) newScheduler_ok] assms(2) show ?thesis
    by (simp add: awake_def newScheduler_def)
qed

section \<open>Progress\<close>

lemma charged_pow [simp]:
  "queue ((charged ^^ m) l) = queue l" "inFlightKey ((charged ^^ m) l) = inFlightKey l"
  "lane_priority ((charged ^^ m) l) = lane_priority l"
  "deficit ((charged ^^ m) l) = deficit l + m * (quantumBytes * weight (lane_priority l))"
  by (induction m) simp_all

lemma dispatchable_charged [simp]: "dispatchable ((charged ^^ m) l) = dispatchable l"
  by (simp add: dispatchable_def)

lemma ring_step:
  fixes n :: nat
  assumes "(c + d) mod n = i" "0 < d" "d < n" "c < n"
  shows "c \<noteq> i" "((c + 1) mod n + (d - 1)) mod n = i"
proof -
  show "c \<noteq> i"
    using assms by (cases "c + d < n") (auto simp: le_mod_geq)
  show "((c + 1) mod n + (d - 1)) mod n = i"
    unfolding mod_add_left_eq using assms by simp
qed

lemma ring_turn: "(c::nat) < n \<Longrightarrow> ((c + 1) mod n + (n - 1)) mod n = c"
  unfolding mod_add_left_eq by simp

text \<open>
  A silent run of the loop, one that posts nothing, visits each lane in turn: a dispatchable lane at
  distance \<open>d\<close> from the cursor is charged once for every completed turn, and its head stays too
  large for it.
\<close>

lemma pump_loop_silent:
  assumes "pump_loop k s = (s', [])" "inFlight s < maxInFlight" "distinct (lane_order s)"
    "n = length (lane_order s)" "cursor s < n" "i < n" "(cursor s + d) mod n = i" "d < n"
    "lane_order s ! i = tid" "tid \<noteq> ''''" "map_of (lanes s) tid = Some l" "dispatchable l"
  shows "map_of (lanes s') tid = Some ((charged ^^ ((k + (n - 1 - d)) div n)) l) \<and>
    inFlight s' = inFlight s \<and> lane_order s' = lane_order s \<and> scheduled s' = scheduled s \<and>
    (0 < (k + (n - 1 - d)) div n \<longrightarrow>
       deficit ((charged ^^ ((k + (n - 1 - d)) div n)) l) < pending_bytes (hd (queue l)))"
  using assms
proof (induction k arbitrary: s l d)
  case 0
  then show ?case by simp
next
  case (Suc k)
  obtain s1 out1 where v: "visit s = (s1, out1)" by fastforce
  from Suc.prems v have r: "pump_loop k s1 = (s', [])" and o: "out1 = []"
    by (auto split: prod.splits)
  note p = Suc.prems(2-)
  have n: "0 < n" using p(4) by linarith
  have s1: "inFlight s1 = inFlight s" "lane_order s1 = lane_order s" "scheduled s1 = scheduled s"
      "cursor s1 = (cursor s + 1) mod n"
    by (rule visit_cases [of s]; use v o p in simp)+
  show ?case
  proof (cases "d = 0")
    case True
    then have c: "lane_order s ! cursor s = tid" using p by simp
    have l1: "map_of (lanes s1) tid = Some (charged l)" and big: "deficit (charged l) < pending_bytes (hd (queue l))"
      by (rule visit_cases [of s]; use v o p c in \<open>simp add: jsmap\<close>)+
    have d': "(cursor s1 + (n - 1)) mod n = i"
      using True p ring_turn [of "cursor s" n] by (simp add: s1)
    have k: "(Suc k + (n - 1 - d)) div n = Suc (k div n)" "k + (n - 1 - (n - 1)) = k"
      using True n by simp_all
    have "map_of (lanes s') tid = Some ((charged ^^ (k div n)) (charged l)) \<and> inFlight s' = inFlight s1 \<and>
        lane_order s' = lane_order s1 \<and> scheduled s' = scheduled s1 \<and>
        (0 < k div n \<longrightarrow> deficit ((charged ^^ (k div n)) (charged l)) < pending_bytes (hd (queue l)))"
      using Suc.IH [OF r, of "n - 1" "charged l"] p l1 s1 d' n by (simp add: dispatchable_def)
    then show ?thesis
      using big unfolding k by (cases "k div n = 0") (simp_all add: s1 funpow_swap1)
  next
    case False
    have d': "cursor s \<noteq> i" "(cursor s1 + (d - 1)) mod n = i"
      using ring_step [of "cursor s" d n i] False p by (simp_all add: s1)
    have other: "lane_order s ! cursor s \<noteq> tid"
      using p d'(1) nth_eq_iff_index_eq by metis
    have l1: "map_of (lanes s1) tid = Some l"
      by (rule visit_cases [of s]; use v o p other in \<open>simp add: jsmap\<close>)
    have k: "Suc k + (n - 1 - d) = k + (n - 1 - (d - 1))" using False p(7) by simp
    show ?thesis unfolding k
      using Suc.IH [OF r, of "d - 1" l] p l1 s1 d' n by simp
  qed
qed

text \<open>Running up to \<open>k\<close> scheduled pumps, with no event in between.\<close>

fun microtasks :: "nat \<Rightarrow> 'v sched \<Rightarrow> 'v sched \<times> (string \<times> 'v) list" where
  "microtasks 0 s = (s, [])"
| "microtasks (Suc k) s =
     (if scheduled s
      then let (s1, out1) = microtask s; (s2, out2) = microtasks k s1 in (s2, out1 @ out2)
      else (s, []))"

lemma microtask_silent:
  assumes ok: "sched_ok s" and f: "inFlight s < maxInFlight" and t: "tid \<noteq> ''''"
    and l: "map_of (lanes s) tid = Some l" "dispatchable l" and m: "microtask s = (s', [])"
  shows "map_of (lanes s') tid = Some ((charged ^^ 32) l) \<and> inFlight s' = inFlight s \<and> scheduled s' \<and>
    deficit ((charged ^^ 32) l) < pending_bytes (hd (queue l))"
proof -
  let ?s = "s\<lparr>scheduled := False\<rparr>"
  let ?n = "length (lane_order s)"
  have "tid \<in> set (lane_order s)"
    using l(1) map_of_SomeD [OF l(1)] sched_okD(2) [OF ok] by force
  then obtain i where i: "i < ?n" "lane_order s ! i = tid" by (metis in_set_conv_nth)
  then have ne: "lane_order s \<noteq> []" by auto
  have c: "cursor s < ?n" using sched_bounds(1) [OF ok] i(1) by simp
  have d: "distinct (lane_order s)" using sched_okD(1,2) [OF ok] by simp
  define e where "e = (i + (?n - cursor s)) mod ?n"
  have e: "e < ?n" "(cursor s + e) mod ?n = i"
    using c i(1) by (simp_all add: e_def mod_add_right_eq ne)
  obtain s1 out where r: "pump_loop (?n * 32) ?s = (s1, out)" by fastforce
  with m ne f have o: "out = []"
    by (auto simp: microtask_def pump_def Let_def split: if_splits)
  have k: "(?n * 32 + (?n - 1 - e)) div ?n = 32"
    using e(1) by (intro div_nat_eqI) simp_all
  have silent: "map_of (lanes s1) tid = Some ((charged ^^ ((?n * 32 + (?n - 1 - e)) div ?n)) l) \<and>
      inFlight s1 = inFlight ?s \<and> lane_order s1 = lane_order ?s \<and> scheduled s1 = scheduled ?s \<and>
      (0 < (?n * 32 + (?n - 1 - e)) div ?n \<longrightarrow>
         deficit ((charged ^^ ((?n * 32 + (?n - 1 - e)) div ?n)) l) < pending_bytes (hd (queue l)))"
    by (rule pump_loop_silent [OF r [unfolded o], of ?n i e])
      (use f d c i e t l in simp_all)
  have s1: "map_of (lanes s1) tid = Some ((charged ^^ 32) l)" "inFlight s1 = inFlight s"
      "deficit ((charged ^^ 32) l) < pending_bytes (hd (queue l))"
    using silent [unfolded k] by simp_all
  have "list_ex dispatchable (map_values (lanes s1))"
    using value_of [OF s1(1)] l(2) dispatchable_charged by (metis list_ex_iff)
  with m r ne f s1 show ?thesis
    by (auto simp: microtask_def pump_def Let_def split: if_splits)
qed

lemma microtasks_silent:
  assumes "sched_ok s" "scheduled s" "inFlight s < maxInFlight" "tid \<noteq> ''''"
    and "map_of (lanes s) tid = Some l" "dispatchable l" "snd (microtasks k s) = []" "0 < k"
  shows "deficit ((charged ^^ (32 * k)) l) < pending_bytes (hd (queue l))"
  using assms
proof (induction k arbitrary: s l)
  case (Suc k)
  obtain s1 out1 where m: "microtask s = (s1, out1)" by fastforce
  with Suc.prems have o: "out1 = []" and r: "snd (microtasks k s1) = []"
    by (auto split: prod.splits)
  note s1 = microtask_silent [OF Suc.prems(1,3,4,5,6) m [unfolded o]]
  show ?case
  proof (cases "k = 0")
    case True
    with s1 show ?thesis by simp
  next
    case False
    have "sched_ok s1" using microtask_ok [OF Suc.prems(1)] m by simp
    from Suc.IH [OF this _ _ Suc.prems(4) _ _ r, of "(charged ^^ 32) l"] s1 False Suc.prems(3,6)
    show ?thesis by (simp add: algebra_simps)
  qed
qed simp

text \<open>
  C16: Progress. In every state that satisfies the invariant, if a pump is scheduled, a flight is
  free and some lane has a command to post, then at most sixteen pumps post a command, however
  large the queued commands are (up to the 32 MiB the scheduler admits) and whatever the weights.
\<close>

theorem scheduler_serves:
  assumes "sched_ok s" "scheduled s" "inFlight s < maxInFlight"
    and "map_of (lanes s) tid = Some l" "dispatchable l" "tid \<noteq> ''''"
  shows "snd (microtasks 16 s) \<noteq> []"
proof
  assume "snd (microtasks 16 s) = []"
  from microtasks_silent [OF assms(1,2,3,6,4,5) this]
  have "deficit l + 512 * (quantumBytes * weight (lane_priority l)) < pending_bytes (hd (queue l))"
    by simp
  moreover have "pending_bytes (hd (queue l)) \<le> maxBytes"
    using sched_okD(3) [OF assms(1,4)] assms(5) by (cases "queue l") (auto simp: lane_ok_def dispatchable_def)
  moreover have "maxBytes \<le> 512 * (quantumBytes * weight (lane_priority l))"
    by (simp add: maxBytes_def quantumBytes_def weight_def)
  ultimately show False by simp
qed

section \<open>A missed wake-up after \<open>cancel\<close>\<close>

definition prio :: worker_priority where
  "prio = \<lparr>visible = True, focused = False\<rparr>"

definition nine :: "string list" where
  "nine = [''a'', ''b'', ''c'', ''d'', ''e'', ''f'', ''g'', ''h'', ''i'']"

definition add_all :: "string list \<Rightarrow> nat sched_event list" where
  "add_all tids = map (\<lambda>t. Enqueue t 0 256 prio (Key_Number 0)) tids"

definition enqueue_all :: "string list \<Rightarrow> nat sched \<Rightarrow> nat sched" where
  "enqueue_all tids s = fold (\<lambda>t s. the (enqueue t 0 256 prio (Key_Number 0) s)) tids s"

lemma run_single: "sched_step s e out s' \<Longrightarrow> sched_run s [e] out s'"
  using run_Cons [OF _ run_Nil] by fastforce

lemma run_append: "sched_run s es out s1 \<Longrightarrow> sched_run s1 es' out' s2 \<Longrightarrow> sched_run s (es @ es') (out @ out') s2"
  by (induction rule: sched_run.induct) (auto intro: sched_run.intros)

lemma run_add_all:
  "list_all (\<lambda>n. enqueue (tids ! n) 0 256 prio (Key_Number 0) (enqueue_all (take n tids) s) \<noteq> None)
     [0..<length tids] \<Longrightarrow> sched_run s (add_all tids) [] (enqueue_all tids s)"
proof (induction tids rule: rev_induct)
  case Nil
  show ?case by (simp add: add_all_def enqueue_all_def run_Nil)
next
  case (snoc t tids)
  then have r: "sched_run s (add_all tids) [] (enqueue_all tids s)"
    by (auto simp: list_all_iff nth_append)
  from snoc.prems have "enqueue t 0 256 prio (Key_Number 0) (enqueue_all tids s) \<noteq> None"
    by (auto simp: list_all_iff nth_append dest: bspec [of _ _ "length tids"])
  then obtain s' where e: "enqueue t 0 256 prio (Key_Number 0) (enqueue_all tids s) = Some s'" by blast
  have "sched_run s (add_all tids @ [Enqueue t 0 256 prio (Key_Number 0)]) ([] @ []) s'"
    by (rule run_append [OF r run_single [OF step_enqueue [OF e]]])
  with e show ?case by (simp add: add_all_def enqueue_all_def)
qed

lemmas eval_defs = enqueue_def Let_def nine_def enqueue_all_def newScheduler_def prio_def
  maxBytes_def maxCommands_def maxInFlight_def quantumBytes_def weight_def schedule_def

lemma nine_ok:
  "list_all (\<lambda>n. enqueue (nine ! n) 0 256 prio (Key_Number 0) (enqueue_all (take n nine) newScheduler) \<noteq> None)
     [0..<length nine]"
  by (simp add: eval_defs upt_conv_Cons)

lemma pump_loop_numeral [simp]:
  "pump_loop (numeral n) s =
     (if inFlight s < maxInFlight
      then let (s1, out1) = visit s; (s2, out2) = pump_loop (pred_numeral n) s1 in (s2, out1 @ out2)
      else (s, []))"
  by (simp add: numeral_eq_Suc)

definition nine_queued :: "nat sched" where
  "nine_queued = enqueue_all nine newScheduler"

definition waiting :: "nat lane" where
  "waiting = \<lparr>queue = [\<lparr>pending_value = 0, pending_bytes = 256, pending_key = Key_Number 0\<rparr>],
     lane_priority = prio, deficit = 0, inFlightKey = None\<rparr>"

definition served :: "nat lane" where
  "served = \<lparr>queue = [], lane_priority = prio, deficit = 262144 - 256, inFlightKey = Some (Key_Number 0)\<rparr>"

lemma nine_queued_eq: "nine_queued = \<lparr>lanes = map (\<lambda>t. (t, waiting)) nine, lane_order = nine, cursor = 0,
    queued_bytes = 2304, queued_commands = 9, inFlight = 0, scheduled = True\<rparr>"
  by (simp add: nine_queued_def eval_defs waiting_def)

definition eight_busy :: "nat sched" where
  "eight_busy = \<lparr>lanes = map (\<lambda>t. (t, served)) (take 8 nine) @ [(''i'', waiting)],
     lane_order = nine, cursor = 8, queued_bytes = 256, queued_commands = 1, inFlight = 8,
     scheduled = False\<rparr>"

lemma eight_busy_eq: "microtask nine_queued = (eight_busy, map (\<lambda>t. (t, 0)) (take 8 nine))"
  by (simp add: nine_queued_eq eight_busy_def microtask_def pump_def visit_def eval_defs waiting_def served_def)

lemma nine_run:
  "sched_run newScheduler (add_all nine @ [Microtask]) (map (\<lambda>t. (t, 0)) (take 8 nine)) eight_busy"
proof -
  have "sched_run newScheduler (add_all nine) [] nine_queued"
    unfolding nine_queued_def by (rule run_add_all [OF nine_ok])
  moreover have "sched_run nine_queued [Microtask] (map (\<lambda>t. (t, 0)) (take 8 nine)) eight_busy"
    by (rule run_single [OF step_microtask [OF _ eight_busy_eq]]) (simp add: nine_queued_eq)
  ultimately show ?thesis using run_append by fastforce
qed

text \<open>Nine terminals, eight served at once, one of the eight released: the ninth has to wait.\<close>

definition stalled :: "nat sched" where
  "stalled = cancel ''a'' eight_busy"

lemma stalled_eq: "stalled = \<lparr>lanes = map (\<lambda>t. (t, served)) (take 7 (tl nine)) @ [(''i'', waiting)],
     lane_order = tl nine, cursor = 0, queued_bytes = 256, queued_commands = 1, inFlight = 7,
     scheduled = False\<rparr>"
  by (simp add: stalled_def eight_busy_def cancel_def dropLane_def nine_def served_def waiting_def)

text \<open>
  A wake-up is missed after \<open>cancel\<close>. With nine terminals, eight commands in flight and the
  ninth terminal's command queued, releasing one terminal frees a flight but schedules no pump:
  the ninth command is ready to post, a flight is free, and nothing is scheduled.
\<close>

theorem cancel_misses_wakeup:
  "\<exists>out. sched_run newScheduler (add_all nine @ [Microtask, Cancel ''a'']) out stalled \<and>
     queued ''i'' stalled = [0] \<and> \<not> scheduled stalled \<and> inFlight stalled = 7 \<and>
     list_ex dispatchable (map_values (lanes stalled)) \<and> \<not> awake stalled"
proof -
  have c: "sched_run eight_busy [Cancel ''a''] [] stalled"
    unfolding stalled_def by (rule run_single [OF step_cancel])
  from run_append [OF nine_run c] show ?thesis
    by (auto simp: stalled_eq queued_def nine_def served_def waiting_def dispatchable_def awake_def
        maxInFlight_def)
qed

section \<open>Commands of one quantum: plain round robin\<close>

text \<open>
  The abstract scheduler: a ring of terminals with their queues, and the set of those with a
  command in flight. There are no priorities and no deficits.
\<close>

record 'v ring =
  ring_lanes :: "(string, 'v list \<times> bool) jsmap"
  ring_order :: "string list"
  ring_pos :: nat
  ring_busy :: nat

definition ring_visit :: "'v ring \<Rightarrow> 'v ring \<times> (string \<times> 'v) list" where
  "ring_visit r =
     (let tid = ring_order r ! ring_pos r;
          r1 = r\<lparr>ring_pos := (ring_pos r + 1) mod length (ring_order r)\<rparr>
      in if ring_pos r < length (ring_order r) \<and> tid \<noteq> '''' then
           (case map_of (ring_lanes r) tid of
              Some (v # vs, False) \<Rightarrow>
                (r1\<lparr>ring_lanes := map_set tid (vs, True) (ring_lanes r), ring_busy := ring_busy r + 1\<rparr>,
                 [(tid, v)])
            | _ \<Rightarrow> (r1, []))
         else (r1, []))"

fun ring_loop :: "nat \<Rightarrow> 'v ring \<Rightarrow> 'v ring \<times> (string \<times> 'v) list" where
  "ring_loop 0 r = (r, [])"
| "ring_loop (Suc n) r =
     (if ring_busy r < maxInFlight
      then let (r1, out1) = ring_visit r; (r2, out2) = ring_loop n r1 in (r2, out1 @ out2)
      else (r, []))"

definition lane_abs :: "'v lane \<Rightarrow> 'v list \<times> bool" where
  "lane_abs l = (map pending_value (queue l), inFlightKey l \<noteq> None)"

definition ring_of :: "'v sched \<Rightarrow> 'v ring" where
  "ring_of s = \<lparr>ring_lanes = map (\<lambda>kl. (fst kl, lane_abs (snd kl))) (lanes s),
     ring_order = lane_order s, ring_pos = cursor s, ring_busy = inFlight s\<rparr>"

definition small_commands :: "'v sched \<Rightarrow> bool" where
  "small_commands s \<longleftrightarrow>
     (\<forall>l \<in> set (map_values (lanes s)). \<forall>p \<in> set (queue l). pending_bytes p \<le> quantumBytes)"

lemma ring_of_simps [simp]:
  "ring_lanes (ring_of s) = map (\<lambda>kl. (fst kl, lane_abs (snd kl))) (lanes s)"
  "ring_order (ring_of s) = lane_order s" "ring_pos (ring_of s) = cursor s"
  "ring_busy (ring_of s) = inFlight s"
  by (simp_all add: ring_of_def)

lemma map_of_abs: "map_of (map (\<lambda>kl. (fst kl, f (snd kl))) m) k = map_option f (map_of m k)"
  by (induction m) auto

lemma map_set_abs:
  "map_set k (f v) (map (\<lambda>kl. (fst kl, f (snd kl))) m) = map (\<lambda>kl. (fst kl, f (snd kl))) (map_set k v m)"
  by (induction m) auto

lemma small_lane:
  "small_commands s \<Longrightarrow> map_of (lanes s) tid = Some l \<Longrightarrow> \<forall>p \<in> set (queue l). pending_bytes p \<le> quantumBytes"
  unfolding small_commands_def by (drule value_of) blast

lemma small_set:
  "small_commands s \<Longrightarrow> lanes s' = map_set tid l (lanes s) \<Longrightarrow>
     \<forall>p \<in> set (queue l). pending_bytes p \<le> quantumBytes \<Longrightarrow> small_commands s'"
  using all_values_set [of "lanes s" "\<lambda>l. \<forall>p \<in> set (queue l). pending_bytes p \<le> quantumBytes" l tid]
  by (auto simp: small_commands_def)

lemma ring_visit_refines:
  assumes s: "small_commands s" and v: "visit s = (s', out)"
  shows "ring_visit (ring_of s) = (ring_of s', out) \<and> small_commands s'"
proof (cases rule: visit_cases [of s])
  case idle
  have "s' = next_cursor s" "out = []" using idle v by simp_all
  moreover have "ring_visit (ring_of s) = (ring_of (next_cursor s), [])"
  proof (cases "map_of (lanes s) (lane_order s ! cursor s)")
    case None
    then show ?thesis by (simp add: ring_visit_def Let_def map_of_abs ring_of_def next_cursor_def)
  next
    case (Some l)
    with idle(2) have "cursor s < length (lane_order s) \<and> lane_order s ! cursor s \<noteq> '''' \<Longrightarrow>
        \<not> dispatchable l" by blast
    moreover have "map_of (ring_lanes (ring_of s)) (lane_order s ! cursor s) =
        Some (map pending_value (queue l), inFlightKey l \<noteq> None)"
      by (simp add: map_of_abs Some lane_abs_def [of l])
    moreover have "ring_of (next_cursor s) = (ring_of s)\<lparr>ring_pos := (cursor s + 1) mod length (lane_order s)\<rparr>"
      by (simp add: ring_of_def next_cursor_def)
    ultimately show ?thesis
      by (cases "queue l") (auto simp: ring_visit_def Let_def dispatchable_def simp del: ring_of_simps(1))
  qed
  ultimately show ?thesis using s by (simp add: small_commands_def)
next
  case (wait tid l)
  have "pending_bytes (hd (queue l)) \<le> quantumBytes"
    using small_lane [OF s wait(4)] wait(5) by (cases "queue l") (auto simp: dispatchable_def)
  moreover have "quantumBytes \<le> deficit (charged l)" by (simp add: weight_def)
  ultimately show ?thesis using wait(6) by simp
next
  case (send tid l)
  obtain p ps where q: "queue l = p # ps"
    using send(5) by (cases "queue l") (auto simp: dispatchable_def)
  have "s' = (next_cursor s)\<lparr>lanes := map_set tid (sent l) (lanes s),
         queued_bytes := queued_bytes s - pending_bytes (hd (queue l)),
         queued_commands := queued_commands s - 1, inFlight := inFlight s + 1\<rparr>"
      "out = [(tid, pending_value (hd (queue l)))]" using send(7) v by simp_all
  moreover have "lane_abs l = (pending_value p # map pending_value ps, False)"
      "lane_abs (sent l) = (map pending_value ps, True)"
    using send(5) by (simp_all add: lane_abs_def dispatchable_def q)
  moreover have "small_commands s'"
    by (rule small_set [OF s, of s' tid "sent l"])
      (use calculation(1) small_lane [OF s send(4)] q in simp_all)
  ultimately show ?thesis
    using send(1-4) by (simp add: ring_visit_def Let_def map_of_abs map_set_abs [symmetric] q ring_of_def)
qed

lemma ring_loop_refines:
  "small_commands s \<Longrightarrow> pump_loop n s = (s', out) \<Longrightarrow> ring_loop n (ring_of s) = (ring_of s', out)"
proof (induction n arbitrary: s s' out)
  case (Suc n)
  obtain s1 out1 where v: "visit s = (s1, out1)" by fastforce
  obtain s2 out2 where r: "pump_loop n s1 = (s2, out2)" by fastforce
  from ring_visit_refines [OF Suc.prems(1) v] Suc.IH [OF _ r] Suc.prems(2) v r
  show ?case by (auto split: if_splits)
qed simp

lemma ring_of_scheduled [simp]: "ring_of (s\<lparr>scheduled := b\<rparr>) = ring_of s" "ring_of (schedule s) = ring_of s"
  by (simp_all add: ring_of_def)

text \<open>
  Weights are without effect on commands of up to 64 KiB. When no queued command is larger than
  one quantum, what a pump posts and the lanes it leaves are those of a plain round robin over the
  ring, which knows neither priorities nor deficits: a focused terminal gets one command a turn,
  exactly as a hidden one does.
\<close>

theorem small_commands_round_robin:
  assumes "small_commands s" "microtask s = (s', out)"
    and "lane_order s \<noteq> []" "inFlight s < maxInFlight"
  shows "ring_loop (length (lane_order s) * 32) (ring_of s) = (ring_of s', out)"
proof -
  let ?s = "s\<lparr>scheduled := False\<rparr>"
  have "small_commands ?s" using assms(1) by (simp add: small_commands_def)
  obtain s1 out1 where r: "pump_loop (length (lane_order s) * 32) ?s = (s1, out1)" by fastforce
  have "out = out1" "ring_of s' = ring_of s1"
    using assms(2-4) r by (auto simp: microtask_def pump_def Let_def split: if_splits)
  with ring_loop_refines [OF \<open>small_commands ?s\<close> r] show ?thesis by simp
qed

section \<open>Witnesses\<close>

lemma scheduler_fifo_witness:
  "sent_to ''a'' (map (\<lambda>t. (t, 0)) (take 8 nine)) @ queued ''a'' eight_busy =
     queued ''a'' newScheduler @ entered ''a'' (add_all nine @ [Microtask])"
  by (rule scheduler_fifo [OF nine_run]) (auto simp: add_all_def)

lemma scheduler_accounts_witness: "sched_ok eight_busy"
  by (rule scheduler_accounts [OF nine_run])

lemma scheduler_wakes_witness:
  "scheduled eight_busy \<or> maxInFlight \<le> inFlight eight_busy \<or>
     \<not> list_ex dispatchable (map_values (lanes eight_busy))"
  by (rule scheduler_wakes [OF nine_run]) (auto simp: add_all_def)

lemma nine_queued_ok: "sched_ok nine_queued"
  by (simp add: nine_queued_eq nine_def waiting_def sched_ok_def total_def lane_bytes_def lane_busy_def
      lane_ok_def maxBytes_def maxCommands_def maxInFlight_def)

lemma scheduler_serves_witness: "snd (microtasks 16 nine_queued) \<noteq> []"
  by (rule scheduler_serves [OF nine_queued_ok, of "''a''" waiting])
    (simp_all add: nine_queued_eq nine_def waiting_def dispatchable_def maxInFlight_def)

lemma small_commands_round_robin_witness:
  "ring_loop (length (lane_order nine_queued) * 32) (ring_of nine_queued) =
     (ring_of eight_busy, map (\<lambda>t. (t, 0)) (take 8 nine))"
  by (rule small_commands_round_robin [OF _ eight_busy_eq])
    (simp_all add: nine_queued_eq nine_def small_commands_def waiting_def quantumBytes_def maxInFlight_def)

end
