(* ===== verification/Worker_Pool.thy ===== *)
theory Worker_Pool
  imports Fair_Scheduler "HOL-Library.Word"
begin

text \<open>
  The pool of terminal workers, \<^verbatim>\<open>packages/ghostty-react/src/worker/worker-pool.ts\<close>: at most four
  workers, each with a scheduler; a terminal is bound to one by a hash of its identifier. A worker
  is a number in the order of creation, a listener is a value of the type \<open>'l\<close>. The transfer lists
  of \<open>postMessage\<close> are not modelled, nor is the shared instance.

  Slots are kept when the pool is disposed (channels still refer to them), with the flag
  \<open>disposed\<close>; the array \<open>slots\<close> of the code is then empty. \<open>slot.worker\<close> and
  \<open>workerHolder.current\<close> are always assigned together and are one field.
\<close>

unbundle bit_operations_syntax

section \<open>Commands and their cost\<close>

text \<open>\<open>'x\<close> stands for the payloads that the pool does not read (sizes, themes, key events).\<close>

datatype 'x command_payload =
    Create 'x bool bool
  | WriteBytes "8 word list"
  | WriteReplayBytes "8 word list list"
  | ResetAndWriteBytes "8 word list"
  | RecycleRenderUpdate nat nat "8 word list list"
  | SetPresentationState bool bool
  | Paste string
  | InputText string
  | OtherCommand string 'x

record 'x worker_command =
  command_terminal :: string
  command_sequence :: nat
  command_generation :: nat
  payload :: "'x command_payload"

definition byteLengths :: "8 word list list \<Rightarrow> nat" where
  "byteLengths bs = foldl (\<lambda>total b. total + length b) 0 bs"

fun payload_bytes :: "'x command_payload \<Rightarrow> nat" where
  "payload_bytes (WriteBytes d) = length d"
| "payload_bytes (ResetAndWriteBytes d) = length d"
| "payload_bytes (WriteReplayBytes ds) = byteLengths ds"
| "payload_bytes (RecycleRenderUpdate _ _ bs) = byteLengths bs"
| "payload_bytes (Paste d) = length d * 2 + 256"
| "payload_bytes (InputText d) = length d * 2 + 256"
| "payload_bytes _ = 256"

definition workerCommandBytes :: "'x worker_command \<Rightarrow> nat" where
  "workerCommandBytes c = payload_bytes (payload c)"

definition MAX_TERMINAL_WORKERS :: nat where "MAX_TERMINAL_WORKERS = 4"

text \<open>
  \<open>hardware\<close> is \<open>navigator.hardwareConcurrency\<close>, \<open>None\<close> where there is no navigator or no value;
  zero counts as none.
\<close>

definition workerLimit :: "nat option \<Rightarrow> nat" where
  "workerLimit hw =
     (let hardware = (case hw of None \<Rightarrow> 2 | Some n \<Rightarrow> if n = 0 then 2 else n)
      in max 1 (min MAX_TERMINAL_WORKERS (hardware div 2)))"

text \<open>FNV-1a on 32 bits: \<open>Math.imul\<close> is the product modulo $2^{32}$, \<open>>>> 0\<close> its unsigned reading.\<close>

definition hash :: "string \<Rightarrow> nat" where
  "hash s = unat (foldl (\<lambda>r c. (r XOR of_nat (of_char c)) * 16777619) (2166136261 :: 32 word) s)"

section \<open>State\<close>

record ('x, 'l) slot =
  worker :: nat
  scheduler :: "'x worker_command sched"
  priorities :: "(string, worker_priority) jsmap"
  terminals :: "(string, 'l) jsmap"

record ('x, 'l) pool =
  slots :: "('x, 'l) slot list"
  disposed :: bool
  next_worker :: nat
  terminated :: "nat list"

record channel =
  channel_slot :: nat
  channel_terminal :: string
  released :: bool

definition newPool :: "('x, 'l) pool" where
  "newPool = \<lparr>slots = [], disposed = False, next_worker = 0, terminated = []\<rparr>"

definition workerCount :: "('x, 'l) pool \<Rightarrow> nat" where
  "workerCount p = (if disposed p then 0 else length (slots p))"

definition terminalCount :: "('x, 'l) pool \<Rightarrow> nat" where
  "terminalCount p = (if disposed p then 0 else foldl (\<lambda>n s. n + length (terminals s)) 0 (slots p))"

definition createSlot :: "('x, 'l) pool \<Rightarrow> ('x, 'l) slot" where
  "createSlot p = \<lparr>worker = next_worker p, scheduler = newScheduler, priorities = [], terminals = []\<rparr>"

definition push_slot :: "('x, 'l) pool \<Rightarrow> ('x, 'l) pool" where
  "push_slot p = p\<lparr>slots := slots p @ [createSlot p], next_worker := next_worker p + 1\<rparr>"

function grow :: "nat \<Rightarrow> ('x, 'l) pool \<Rightarrow> ('x, 'l) pool" where
  "grow limit p =
     (if length (slots p) < limit \<and> length (slots p) \<le> terminalCount p
      then grow limit (push_slot p) else p)"
  by pat_completeness auto

termination
  by (relation "measure (\<lambda>(limit, p). limit - length (slots p))") (auto simp: push_slot_def)

declare grow.simps [simp del]

section \<open>Operations\<close>

datatype pool_error = Pool_Disposed | No_Worker | Scheduler_Full

definition acquire ::
  "nat option \<Rightarrow> string \<Rightarrow> 'l \<Rightarrow> ('x, 'l) pool \<Rightarrow> pool_error + ('x, 'l) pool \<times> channel" where
  "acquire hw tid listener p =
     (if disposed p then Inl Pool_Disposed
      else
        let p = grow (workerLimit hw) p;
            i = hash tid mod length (slots p)
        in if i < length (slots p)
           then let s = slots p ! i in
             Inr (p\<lparr>slots := (slots p)[i := s\<lparr>terminals := map_set tid listener (terminals s)\<rparr>]\<rparr>,
                  \<lparr>channel_slot = i, channel_terminal = tid, released = False\<rparr>)
           else Inl No_Worker)"

definition command_key :: "nat \<Rightarrow> nat \<Rightarrow> completion_key" where
  "command_key generation sequence = Key_String (decimal generation @ '':'' @ decimal sequence)"

fun command_priority :: "'x command_payload \<Rightarrow> worker_priority option" where
  "command_priority (Create _ v f) = Some \<lparr>visible = v, focused = f\<rparr>"
| "command_priority (SetPresentationState v f) = Some \<lparr>visible = v, focused = f\<rparr>"
| "command_priority _ = None"

text \<open>A refused command leaves the priority it carried behind.\<close>

definition post ::
  "channel \<Rightarrow> 'x worker_command \<Rightarrow> ('x, 'l) pool \<Rightarrow> ('x, 'l) pool \<times> pool_error option" where
  "post ch c p =
     (if released ch then (p, None)
      else
        let tid = channel_terminal ch;
            s = slots p ! channel_slot ch;
            s = (case command_priority (payload c) of
                   Some pr \<Rightarrow> s\<lparr>priorities := map_set tid pr (priorities s),
                                 scheduler := setPriority tid pr (scheduler s)\<rparr>
                 | None \<Rightarrow> s);
            pr = (case map_of (priorities s) tid of Some pr \<Rightarrow> pr
                  | None \<Rightarrow> \<lparr>visible = True, focused = False\<rparr>)
        in case enqueue tid c (workerCommandBytes c) pr
                  (command_key (command_generation c) (command_sequence c)) (scheduler s) of
             None \<Rightarrow> (p\<lparr>slots := (slots p)[channel_slot ch := s]\<rparr>, Some Scheduler_Full)
           | Some sch \<Rightarrow> (p\<lparr>slots := (slots p)[channel_slot ch := s\<lparr>scheduler := sch\<rparr>]\<rparr>, None))"

definition release :: "channel \<Rightarrow> ('x, 'l) pool \<Rightarrow> ('x, 'l) pool \<times> channel" where
  "release ch p =
     (if released ch then (p, ch)
      else
        let tid = channel_terminal ch;
            s = slots p ! channel_slot ch
        in (p\<lparr>slots := (slots p)[channel_slot ch :=
                 s\<lparr>scheduler := cancel tid (scheduler s),
                   priorities := map_delete tid (priorities s),
                   terminals := map_delete tid (terminals s)\<rparr>]\<rparr>,
            ch\<lparr>released := True\<rparr>))"

definition dispose :: "('x, 'l) pool \<Rightarrow> ('x, 'l) pool" where
  "dispose p =
     (if disposed p then p
      else p\<lparr>disposed := True, terminated := terminated p @ map worker (slots p)\<rparr>)"

text \<open>
  A message of a worker that names a terminal. \<open>completes\<close> tells whether the validated event has
  one of the types \<open>completed\<close>, \<open>ready\<close>, \<open>recoverableError\<close>, \<open>fatalError\<close>. The result is the
  listener that is called, if the terminal still has one.
\<close>

definition worker_message ::
  "nat \<Rightarrow> string \<Rightarrow> bool \<Rightarrow> nat \<Rightarrow> nat \<Rightarrow> ('x, 'l) pool \<Rightarrow> ('x, 'l) pool \<times> 'l option" where
  "worker_message i tid completes generation sequence p =
     (let s = slots p ! i;
          s' = (if completes then s\<lparr>scheduler := complete tid (command_key generation sequence) (scheduler s)\<rparr>
                else s)
      in (p\<lparr>slots := (slots p)[i := s']\<rparr>, map_of (terminals s') tid))"

text \<open>The \<open>error\<close> and \<open>messageerror\<close> events of the worker \<open>w\<close>, installed for slot \<open>i\<close>.\<close>

definition worker_failed :: "nat \<Rightarrow> nat \<Rightarrow> ('x, 'l) pool \<Rightarrow> ('x, 'l) pool \<times> 'l list" where
  "worker_failed i w p =
     (let s = slots p ! i in
      if disposed p \<or> worker s \<noteq> w then (p, [])
      else (p\<lparr>slots := (slots p)[i := s\<lparr>scheduler := reset (scheduler s), worker := next_worker p\<rparr>],
              next_worker := next_worker p + 1, terminated := terminated p @ [w]\<rparr>,
            map_values (terminals s)))"

text \<open>A scheduled pump of slot \<open>i\<close>: the commands go to the slot's worker of that moment.\<close>

definition slot_microtask ::
  "nat \<Rightarrow> ('x, 'l) pool \<Rightarrow> ('x, 'l) pool \<times> (nat \<times> 'x worker_command) list" where
  "slot_microtask i p =
     (let s = slots p ! i;
          (sch, out) = microtask (scheduler s)
      in (p\<lparr>slots := (slots p)[i := s\<lparr>scheduler := sch\<rparr>]\<rparr>, map (\<lambda>tv. (worker s, snd tv)) out))"

section \<open>The pool invariant\<close>

definition slot_ok :: "('x, 'l) slot \<Rightarrow> bool" where
  "slot_ok s \<longleftrightarrow> sched_ok (scheduler s) \<and> map_ok (priorities s) \<and> map_ok (terminals s)"

definition workers_ok :: "nat list \<Rightarrow> nat \<Rightarrow> bool \<Rightarrow> nat list \<Rightarrow> bool" where
  "workers_ok ws fresh dead gone \<longleftrightarrow> distinct ws \<and> (\<forall>w \<in> set ws \<union> set gone. w < fresh) \<and>
     (\<not> dead \<longrightarrow> set ws \<inter> set gone = {})"

definition pool_ok :: "('x, 'l) pool \<Rightarrow> bool" where
  "pool_ok p \<longleftrightarrow> length (slots p) \<le> MAX_TERMINAL_WORKERS \<and> (\<forall>s \<in> set (slots p). slot_ok s) \<and>
     workers_ok (map worker (slots p)) (next_worker p) (disposed p) (terminated p)"

lemma workerLimit_bounds: "1 \<le> workerLimit hw \<and> workerLimit hw \<le> MAX_TERMINAL_WORKERS"
  by (simp add: workerLimit_def MAX_TERMINAL_WORKERS_def Let_def)

lemma pool_slot:
  assumes "pool_ok p" "i < length (slots p)"
  shows "sched_ok (scheduler (slots p ! i))" "map_ok (priorities (slots p ! i))"
    "map_ok (terminals (slots p ! i))"
  using assms nth_mem [OF assms(2)] by (auto simp: pool_ok_def slot_ok_def)

lemma slots_update_ok:
  "\<forall>s \<in> set ss. slot_ok s \<Longrightarrow> slot_ok s' \<Longrightarrow> \<forall>s \<in> set (ss[i := s']). slot_ok s"
  using set_update_subset_insert [of ss i s'] by blast

text \<open>Updating a slot in place, its worker kept.\<close>

lemma pool_ok_slot:
  assumes p: "pool_ok p" and i: "i < length (slots p)" and s: "slot_ok s" "worker s = worker (slots p ! i)"
  shows "pool_ok (p\<lparr>slots := (slots p)[i := s]\<rparr>)"
proof -
  have "map worker ((slots p)[i := s]) = map worker (slots p)"
    using i s(2) by (simp add: map_update list_update_same_conv)
  with p slots_update_ok [OF _ s(1), of "slots p" i] show ?thesis by (simp add: pool_ok_def)
qed

lemma workers_ok_fresh:
  "workers_ok ws n d gone \<Longrightarrow> workers_ok (ws @ [n]) (n + 1) d gone"
  by (auto simp: workers_ok_def less_Suc_eq)

lemma workers_ok_replace:
  assumes "workers_ok ws n False gone" "i < length ws"
  shows "workers_ok (ws[i := n]) (n + 1) False (gone @ [ws ! i])"
proof -
  have n: "n \<notin> set ws" "n \<notin> set gone" "ws ! i \<in> set ws" using assms by (auto simp: workers_ok_def)
  then have "n \<noteq> ws ! i" by metis
  moreover have "set (ws[i := n]) = insert n (set ws - {ws ! i})"
    using assms by (intro set_update_distinct) (simp_all add: workers_ok_def)
  moreover have "distinct (ws[i := n])" using assms n by (auto simp: workers_ok_def intro: distinct_list_update)
  ultimately show ?thesis using assms n by (auto simp: workers_ok_def less_Suc_eq)
qed

lemma push_slot_ok:
  "pool_ok p \<Longrightarrow> length (slots p) < MAX_TERMINAL_WORKERS \<Longrightarrow> pool_ok (push_slot p)"
  using workers_ok_fresh [of "map worker (slots p)" "next_worker p" "disposed p" "terminated p"]
  by (auto simp: pool_ok_def push_slot_def createSlot_def slot_ok_def newScheduler_ok)

lemma grow_ok:
  "pool_ok p \<Longrightarrow> limit \<le> MAX_TERMINAL_WORKERS \<Longrightarrow> pool_ok (grow limit p)"
  by (induction limit p rule: grow.induct) (subst grow.simps, simp add: push_slot_ok)

lemma grow_disposed [simp]: "disposed (grow limit p) = disposed p"
  by (induction limit p rule: grow.induct) (subst grow.simps, simp add: push_slot_def)

lemma grow_nonempty: "0 < limit \<Longrightarrow> slots (grow limit p) \<noteq> []"
  by (induction limit p rule: grow.induct) (subst grow.simps, auto simp: push_slot_def)

lemma acquire_ok:
  assumes "pool_ok p" "\<not> disposed p"
  shows "\<exists>p' ch. acquire hw tid l p = Inr (p', ch) \<and> pool_ok p' \<and>
    channel_slot ch < length (slots p') \<and> channel_terminal ch = tid \<and> \<not> released ch \<and>
    map_of (terminals (slots p' ! channel_slot ch)) tid = Some l"
proof -
  let ?g = "grow (workerLimit hw) p"
  let ?i = "hash tid mod length (slots ?g)"
  let ?s = "slots ?g ! ?i"
  have g: "pool_ok ?g" by (rule grow_ok [OF assms(1)]) (simp add: workerLimit_bounds)
  have "slots ?g \<noteq> []" by (rule grow_nonempty) (use workerLimit_bounds [of hw] in simp)
  then have i: "?i < length (slots ?g)" by simp
  have "pool_ok (?g\<lparr>slots := (slots ?g)[?i := ?s\<lparr>terminals := map_set tid l (terminals ?s)\<rparr>]\<rparr>)"
    by (rule pool_ok_slot [OF g i]) (use pool_slot [OF g i] in \<open>simp_all add: slot_ok_def\<close>)
  with i assms(2) show ?thesis by (simp add: acquire_def Let_def jsmap)
qed

lemma post_ok:
  assumes p: "pool_ok p" and i: "channel_slot ch < length (slots p)"
  shows "pool_ok (fst (post ch c p))"
proof -
  note s = pool_slot [OF p i]
  show ?thesis
    by (auto simp: post_def Let_def slot_ok_def s p setPriority_ok split: option.split
        intro!: pool_ok_slot [OF p i]
        dest!: enqueue_ok [OF s(1)] enqueue_ok [OF setPriority_ok [OF s(1)]])
qed

lemma release_ok:
  "pool_ok p \<Longrightarrow> channel_slot ch < length (slots p) \<Longrightarrow> pool_ok (fst (release ch p))"
  using pool_slot [of p "channel_slot ch"]
  by (auto simp: release_def Let_def slot_ok_def cancel_ok intro!: pool_ok_slot)

lemma worker_message_ok:
  "pool_ok p \<Longrightarrow> i < length (slots p) \<Longrightarrow> pool_ok (fst (worker_message i tid b g q p))"
  using pool_slot [of p i]
  by (auto simp: worker_message_def Let_def slot_ok_def complete_ok intro!: pool_ok_slot)

lemma slot_microtask_ok:
  "pool_ok p \<Longrightarrow> i < length (slots p) \<Longrightarrow> pool_ok (fst (slot_microtask i p))"
  using pool_slot [of p i] microtask_ok [of "scheduler (slots p ! i)"]
  by (auto simp: slot_microtask_def Let_def slot_ok_def split: prod.split intro!: pool_ok_slot)

lemma dispose_ok: "pool_ok p \<Longrightarrow> pool_ok (dispose p)"
  by (auto simp: dispose_def pool_ok_def workers_ok_def)

lemma worker_failed_ok:
  assumes p: "pool_ok p" and i: "i < length (slots p)"
  shows "pool_ok (fst (worker_failed i w p))"
proof (cases "disposed p \<or> worker (slots p ! i) \<noteq> w")
  case False
  let ?s = "(slots p ! i)\<lparr>scheduler := reset (scheduler (slots p ! i)), worker := next_worker p\<rparr>"
  have ok: "slot_ok ?s" using pool_slot [OF p i] by (simp add: slot_ok_def reset_ok)
  have ws: "map worker ((slots p)[i := ?s]) = (map worker (slots p))[i := next_worker p]"
    by (simp add: map_update)
  have "workers_ok ((map worker (slots p))[i := next_worker p]) (next_worker p + 1) False
      (terminated p @ [map worker (slots p) ! i])"
    by (rule workers_ok_replace) (use p i False in \<open>simp_all add: pool_ok_def\<close>)
  with p i False slots_update_ok [OF _ ok, of "slots p" i] show ?thesis
    by (simp add: worker_failed_def Let_def pool_ok_def ws)
qed (use p in \<open>simp add: worker_failed_def Let_def\<close>)

text \<open>
  The worker pool. Every operation of the pool and of its channels keeps the invariant: at most
  four slots, each with a sound scheduler, each with its own worker, and while the pool is in use
  none of these workers has been terminated, also after a worker has failed and was replaced.
\<close>

theorem pool_operations_ok:
  assumes "pool_ok p" "i < length (slots p)" "channel_slot ch < length (slots p)"
  shows "pool_ok (fst (post ch c p)) \<and> pool_ok (fst (release ch p)) \<and> pool_ok (dispose p) \<and>
    pool_ok (fst (worker_message i tid b g q p)) \<and> pool_ok (fst (worker_failed i w p)) \<and>
    pool_ok (fst (slot_microtask i p)) \<and>
    (case acquire hw tid l p of Inl _ \<Rightarrow> disposed p | Inr (p', _) \<Rightarrow> pool_ok p')"
proof -
  have "case acquire hw tid l p of Inl _ \<Rightarrow> disposed p | Inr (p', _) \<Rightarrow> pool_ok p'"
    using acquire_ok [OF assms(1), of hw tid l] by (cases "disposed p") (auto simp: acquire_def)
  then show ?thesis
    by (simp add: assms post_ok release_ok dispose_ok worker_message_ok worker_failed_ok slot_microtask_ok)
qed

text \<open>
  A pool in use always has a worker. Whatever the terminal's identifier, the processor count and
  the number of open terminals, \<open>acquire\<close> on a pool that is not disposed returns an open channel to
  one of at most four slots, at which the terminal's messages reach the given listener; its error
  for a missing worker is unreachable.
\<close>

theorem acquire_total:
  assumes "pool_ok p" "\<not> disposed p"
  shows "\<exists>p' ch. acquire hw tid l p = Inr (p', ch) \<and> length (slots p') \<le> MAX_TERMINAL_WORKERS \<and>
    channel_slot ch < length (slots p') \<and> \<not> released ch \<and>
    snd (worker_message (channel_slot ch) tid b g q p') = Some l"
  using acquire_ok [OF assms, of hw tid l] by (auto simp: pool_ok_def worker_message_def Let_def)

section \<open>Witnesses\<close>

definition one_slot :: "(unit, nat) pool" where
  "one_slot = push_slot newPool"

lemma newPool_ok: "pool_ok newPool"
  by (simp add: pool_ok_def newPool_def workers_ok_def)

lemma one_slot_ok: "pool_ok one_slot" "slots one_slot = [createSlot newPool]"
  using push_slot_ok [OF newPool_ok] by (simp_all add: one_slot_def push_slot_def newPool_def MAX_TERMINAL_WORKERS_def)

lemma pool_operations_ok_witness:
  "pool_ok (fst (worker_failed 0 0 one_slot)) \<and> terminated (fst (worker_failed 0 0 one_slot)) = [0]"
proof
  show "pool_ok (fst (worker_failed 0 0 one_slot))"
    using pool_operations_ok [OF one_slot_ok(1), of 0
        "\<lparr>channel_slot = 0, channel_terminal = ''a'', released = False\<rparr>"]
    by (simp add: one_slot_ok)
  show "terminated (fst (worker_failed 0 0 one_slot)) = [0]"
    by (simp add: worker_failed_def one_slot_def push_slot_def createSlot_def newPool_def)
qed

lemma acquire_total_witness:
  "\<exists>p' ch. acquire (Some 4) ''a'' 7 one_slot = Inr (p', ch) \<and> length (slots p') \<le> MAX_TERMINAL_WORKERS \<and>
    channel_slot ch < length (slots p') \<and> \<not> released ch \<and>
    snd (worker_message (channel_slot ch) ''a'' True 1 2 p') = Some 7"
  by (rule acquire_total [OF one_slot_ok(1)]) (simp add: one_slot_def push_slot_def newPool_def)

end
