(* ===== verification/Terminal_Stream.thy ===== *)
theory Terminal_Stream
  imports Revision_Gate "HOL-Library.Word"
begin

text \<open>
  The semantic terminal stream, version 3: the wire types and the patch algebra
  (\<^verbatim>\<open>packages/yaade-rpc/src/terminal-stream-v3.ts\<close>), the binary frame around them
  (\<^verbatim>\<open>terminal-stream-v3-codec.ts\<close>), and the client's projection of a terminal
  (\<^verbatim>\<open>packages/yaade-host-client/src/terminal-v3-store.ts\<close>).

  An optional field is an \<open>option\<close>; the title of a patch, which may also be \<open>null\<close>, is an option of
  an option. The JSON text of a message and the schema library's decoders are parameters of the
  codec.
\<close>

section \<open>Wire types\<close>

record terminal_color =
  color_r :: jsnum
  color_g :: jsnum
  color_b :: jsnum
  color_a :: "jsnum option"

record terminal_cell =
  cell_text :: string
  cell_wide :: jsnum
  foreground :: terminal_color
  background :: terminal_color
  underlineColor :: "terminal_color option"
  bold :: bool
  faint :: bool
  italic :: bool
  blink :: bool
  inverse_video :: bool
  invisible :: bool
  strikethrough :: bool
  overline :: bool
  underline :: jsnum
  hyperlinkId :: "string option"

record terminal_row =
  rowId :: string
  cells :: "terminal_cell list"
  isWrapContinuation :: bool
  wrapsToNext :: bool

record terminal_cursor =
  cursor_x :: jsnum
  cursor_y :: jsnum
  cursor_visible :: bool
  cursor_blinking :: bool
  cursor_style :: jsnum

record terminal_modes =
  bracketedPaste :: bool
  applicationCursorKeys :: bool
  focusReporting :: bool
  mouseTracking :: bool
  mouseSgr :: bool
  mouseSgrPixels :: bool
  synchronizedOutput :: bool
  kittyKeyboard :: bool

record scrollback_summary =
  firstRowId :: "string option"
  lastRowId :: "string option"
  rowCount :: jsnum

record terminal_hyperlink =
  hyperlink_id :: string
  hyperlink_uri :: string

datatype screen = Primary | Alternate

record semantic_snapshot =
  snapshot_cols :: jsnum
  snapshot_rows :: jsnum
  activeScreen :: screen
  snapshot_revision :: jsnum
  snapshot_cursor :: terminal_cursor
  screenRows :: "terminal_row list"
  scrollback :: scrollback_summary
  modes :: terminal_modes
  snapshot_title :: "string option"
  palette :: "terminal_color list"
  hyperlinks :: "terminal_hyperlink list"

record semantic_patch =
  patch_epoch :: string
  patch_base :: jsnum
  patch_revision :: jsnum
  changedRows :: "terminal_row list"
  deletedRowIds :: "string list"
  patch_cursor :: "terminal_cursor option"
  patch_cols :: "jsnum option"
  patch_rows :: "jsnum option"
  patch_screen :: "screen option"
  patch_scrollback :: "scrollback_summary option"
  patch_modes :: "terminal_modes option"
  patch_title :: "string option option"
  patch_palette :: "terminal_color list option"
  patch_hyperlinks :: "terminal_hyperlink list option"
  fullReset :: "bool option"

record snapshot_message =
  sm_terminal :: string
  sm_owner :: string
  sm_epoch :: string
  sm_revision :: jsnum
  sm_snapshot :: semantic_snapshot

record patch_message =
  pm_terminal :: string
  pm_owner :: string
  pm_epoch :: string
  pm_base :: jsnum
  pm_revision :: jsnum
  pm_patch :: semantic_patch

record resync_message =
  rm_terminal :: string
  rm_epoch :: string
  rm_latest :: jsnum

datatype stream_message =
    Snapshot_Message snapshot_message
  | Patch_Message patch_message
  | Resync_Message resync_message

section \<open>Applying a patch\<close>

text \<open>\<open>a ?? b\<close>.\<close>

definition coalesce :: "'a option \<Rightarrow> 'a \<Rightarrow> 'a" where
  "coalesce x d = (case x of None \<Rightarrow> d | Some v \<Rightarrow> v)"

definition patchedRows :: "semantic_patch \<Rightarrow> terminal_row list \<Rightarrow> terminal_row list" where
  "patchedRows p rows =
     (let changedById = map_from (map (\<lambda>row. (rowId row, row)) (changedRows p));
          kept = map (\<lambda>row. coalesce (map_of changedById (rowId row)) row)
                   (filter (\<lambda>row. rowId row \<notin> set (deletedRowIds p)) rows);
          existingIds = set (map rowId kept)
      in kept @ filter (\<lambda>row. rowId row \<notin> existingIds) (changedRows p))"

definition applyTerminalSemanticPatch ::
  "semantic_snapshot \<Rightarrow> string \<Rightarrow> semantic_patch \<Rightarrow> semantic_snapshot option" where
  "applyTerminalSemanticPatch s epoch p =
     (if patch_epoch p \<noteq> epoch \<or> \<not> js_eq (patch_base p) (snapshot_revision s) \<or>
         \<not> is_safe_integer (patch_base p) \<or> \<not> is_safe_integer (patch_revision p) \<or>
         js_le (patch_revision p) (patch_base p)
      then None
      else Some \<lparr>
        snapshot_cols = coalesce (patch_cols p) (snapshot_cols s),
        snapshot_rows = coalesce (patch_rows p) (snapshot_rows s),
        activeScreen = coalesce (patch_screen p) (activeScreen s),
        snapshot_revision = patch_revision p,
        snapshot_cursor = coalesce (patch_cursor p) (snapshot_cursor s),
        screenRows = (if fullReset p = Some True then changedRows p else patchedRows p (screenRows s)),
        scrollback = coalesce (patch_scrollback p) (scrollback s),
        modes = coalesce (patch_modes p) (modes s),
        snapshot_title = coalesce (patch_title p) (snapshot_title s),
        palette = coalesce (patch_palette p) (palette s),
        hyperlinks = coalesce (patch_hyperlinks p) (hyperlinks s)\<rparr>)"

definition row_of :: "terminal_row list \<Rightarrow> string \<Rightarrow> terminal_row option" where
  "row_of rows i = map_of (map (\<lambda>row. (rowId row, row)) rows) i"

lemma row_of_simps [simp]:
  "row_of [] i = None" "row_of (r # rs) i = (if i = rowId r then Some r else row_of rs i)"
  by (simp_all add: row_of_def)

lemma row_of_append: "row_of (xs @ ys) i = (case row_of xs i of None \<Rightarrow> row_of ys i | Some r \<Rightarrow> Some r)"
  by (induction xs) auto

lemma row_of_None: "row_of rs i = None \<longleftrightarrow> i \<notin> rowId ` set rs"
  by (induction rs) auto

lemma row_of_SomeD: "row_of rs i = Some r \<Longrightarrow> rowId r = i \<and> r \<in> set rs"
  by (induction rs) (auto split: if_splits)

lemma row_of_filter: "row_of (filter (\<lambda>r. P (rowId r)) rs) i = (if P i then row_of rs i else None)"
  by (induction rs) auto

lemma row_of_map:
  "(\<And>r. rowId (f r) = rowId r) \<Longrightarrow> row_of (map f rs) i = map_option f (row_of rs i)"
  by (induction rs) auto

lemma changed_lookup:
  assumes "distinct (map rowId rs)"
  shows "map_of (map_from (map (\<lambda>row. (rowId row, row)) rs)) i = row_of rs i"
proof -
  have "map_ok (map (\<lambda>row. (rowId row, row)) rs)" using assms by (simp add: comp_def)
  from map_of_rev_distinct [OF this] show ?thesis by (simp add: jsmap row_of_def)
qed

lemma image_apart: "f ` A \<inter> f ` {x \<in> B. f x \<notin> f ` A} = {}"
  by (auto simp: image_iff)

lemma patchedRows_spec:
  assumes d: "distinct (map rowId (changedRows p))" and rows: "distinct (map rowId rows)"
  shows "distinct (map rowId (patchedRows p rows)) \<and>
    (\<forall>i. row_of (patchedRows p rows) i =
       (case row_of (changedRows p) i of Some r \<Rightarrow> Some r
        | None \<Rightarrow> if i \<in> set (deletedRowIds p) then None else row_of rows i))"
proof -
  let ?f = "\<lambda>row. coalesce (row_of (changedRows p) (rowId row)) row"
  let ?kept = "map ?f (filter (\<lambda>row. rowId row \<notin> set (deletedRowIds p)) rows)"
  let ?new = "filter (\<lambda>row. rowId row \<notin> set (map rowId ?kept)) (changedRows p)"
  have f: "rowId (?f r) = rowId r" for r
    by (auto simp: coalesce_def dest: row_of_SomeD split: option.split)
  have P: "patchedRows p rows = ?kept @ ?new"
    by (simp add: patchedRows_def changed_lookup [OF d] Let_def image_image)
  have ids: "map rowId ?kept = filter (\<lambda>i. i \<notin> set (deletedRowIds p)) (map rowId rows)"
    by (simp add: f comp_def filter_map)
  have kept: "row_of ?kept i = map_option ?f (if i \<in> set (deletedRowIds p) then None else row_of rows i)" for i
    by (simp add: row_of_map [OF f] row_of_filter [of "\<lambda>i. i \<notin> set (deletedRowIds p)"])
  have new: "row_of ?new i = (if row_of ?kept i = None then row_of (changedRows p) i else None)" for i
  proof -
    have "(row_of ?kept i = None) = (i \<notin> set (map rowId ?kept))"
      by (simp only: row_of_None list.set_map)
    then show ?thesis by (simp only: row_of_filter [of "\<lambda>i. i \<notin> set (map rowId ?kept)"])
  qed
  have "distinct (map rowId ?kept)" using rows by (simp only: ids distinct_filter)
  moreover have "distinct (map rowId ?new)" using d by (rule distinct_map_filter)
  moreover have "set (map rowId ?kept) \<inter> set (map rowId ?new) = {}"
    unfolding set_map set_filter by (rule image_apart)
  ultimately have "distinct (map rowId (patchedRows p rows))"
    unfolding P by (simp only: map_append distinct_append)
  moreover have "row_of (patchedRows p rows) i =
       (case row_of (changedRows p) i of Some r \<Rightarrow> Some r
        | None \<Rightarrow> if i \<in> set (deletedRowIds p) then None else row_of rows i)" for i
    unfolding P row_of_append new using kept [of i]
    by (auto simp: coalesce_def dest: row_of_SomeD split: option.splits)
  ultimately show ?thesis by blast
qed

text \<open>
  What a patch does to the rows. When the patch continues the snapshot, does not reset it and
  names each changed row once, the result has distinct rows again, and every row identifier shows
  the changed row if there is one, nothing if it is deleted, and the old row otherwise; the
  revision is the patch's. A patch that does not continue the snapshot is refused.
\<close>

theorem applyPatch_rows:
  assumes "distinct (map rowId (screenRows s))" "distinct (map rowId (changedRows p))"
    and "applyTerminalSemanticPatch s epoch p = Some s'" "fullReset p \<noteq> Some True"
  shows "patch_epoch p = epoch \<and> patch_base p = snapshot_revision s \<and>
    snapshot_revision s' = patch_revision p \<and> js_less (snapshot_revision s) (snapshot_revision s') \<and>
    distinct (map rowId (screenRows s')) \<and>
    (\<forall>i. row_of (screenRows s') i =
       (case row_of (changedRows p) i of Some r \<Rightarrow> Some r
        | None \<Rightarrow> if i \<in> set (deletedRowIds p) then None else row_of (screenRows s) i))"
proof -
  from assms(3) have g: "patch_epoch p = epoch" "js_eq (patch_base p) (snapshot_revision s)"
      "is_safe_integer (patch_base p)" "is_safe_integer (patch_revision p)"
      "\<not> js_le (patch_revision p) (patch_base p)"
    by (auto simp: applyTerminalSemanticPatch_def split: if_splits)
  have b: "patch_base p = snapshot_revision s" using g(2) by (simp add: js_eq_def)
  have less: "js_less (patch_base p) (patch_revision p)"
    using g(3-5) by (cases "patch_base p"; cases "patch_revision p") auto
  have s': "screenRows s' = patchedRows p (screenRows s)" "snapshot_revision s' = patch_revision p"
    using assms(3,4) by (auto simp: applyTerminalSemanticPatch_def split: if_splits)
  from patchedRows_spec [OF assms(2,1)] g(1) b less show ?thesis by (simp add: s')
qed

section \<open>The binary frame\<close>

type_synonym byte = "8 word"

definition MAX_TERMINAL_STREAM_V3_BYTES :: nat where
  "MAX_TERMINAL_STREAM_V3_BYTES = 8 * 1024 * 1024"

fun kindFor :: "stream_message \<Rightarrow> byte" where
  "kindFor (Snapshot_Message _) = 1"
| "kindFor (Patch_Message _) = 2"
| "kindFor (Resync_Message _) = 3"

text \<open>\<open>DataView.setUint32\<close> and \<open>getUint32\<close>, big-endian.\<close>

definition setUint32 :: "nat \<Rightarrow> byte list" where
  "setUint32 n = [of_nat (n div 2 ^ 24), of_nat (n div 2 ^ 16), of_nat (n div 2 ^ 8), of_nat n]"

definition getUint32 :: "byte list \<Rightarrow> nat \<Rightarrow> nat" where
  "getUint32 bs i = unat (bs ! i) * 2 ^ 24 + unat (bs ! (i + 1)) * 2 ^ 16 +
     unat (bs ! (i + 2)) * 2 ^ 8 + unat (bs ! (i + 3))"

text \<open>
  \<open>to_text\<close> is \<open>new TextEncoder().encode(JSON.stringify(message))\<close>. \<open>None\<close> is the error
  \<open>terminal stream v3 payload is too large\<close>.
\<close>

definition encodeTerminalStreamV3 ::
  "(stream_message \<Rightarrow> byte list) \<Rightarrow> stream_message \<Rightarrow> byte list option" where
  "encodeTerminalStreamV3 to_text m =
     (let payload = to_text m in
      if MAX_TERMINAL_STREAM_V3_BYTES < length payload then None
      else Some ([3, kindFor m] @ setUint32 (length payload) @ payload))"

text \<open>
  \<open>parse\<close> is the text decoder followed by \<open>JSON.parse\<close>, \<open>None\<close> where it throws; the other three
  are the schema's decoders, \<open>None\<close> where they throw.
\<close>

definition decodeTerminalStreamV3 ::
  "(byte list \<Rightarrow> 'raw option) \<Rightarrow> ('raw \<Rightarrow> snapshot_message option) \<Rightarrow> ('raw \<Rightarrow> patch_message option) \<Rightarrow>
   ('raw \<Rightarrow> resync_message option) \<Rightarrow> byte list \<Rightarrow> stream_message option" where
  "decodeTerminalStreamV3 parse as_snapshot as_patch as_resync bs =
     (if length bs < 6 \<or> bs ! 0 \<noteq> 3 then None
      else
        let size = getUint32 bs 2 in
        if MAX_TERMINAL_STREAM_V3_BYTES < size \<or> length bs \<noteq> size + 6 then None
        else case parse (drop 6 bs) of None \<Rightarrow> None
          | Some raw \<Rightarrow>
              let kind = bs ! 1 in
              if kind = 1 then map_option Snapshot_Message (as_snapshot raw)
              else if kind = 2 then map_option Patch_Message (as_patch raw)
              else if kind = 3 then map_option Resync_Message (as_resync raw)
              else None)"

lemma getUint32_setUint32:
  assumes "n < 2 ^ 32"
  shows "getUint32 (a # b # setUint32 n @ rest) 2 = n"
proof -
  have "n div 16777216 mod 256 = n div 16777216" using assms by (intro mod_less) simp
  moreover have "n div 65536 = n div 16777216 * 256 + n div 65536 mod 256"
    using div_mult_mod_eq [of "n div 65536" 256] by (simp add: div_mult2_eq [symmetric])
  moreover have "n div 256 = n div 65536 * 256 + n div 256 mod 256"
    using div_mult_mod_eq [of "n div 256" 256] by (simp add: div_mult2_eq [symmetric])
  moreover have "n = n div 256 * 256 + n mod 256"
    using div_mult_mod_eq [of n 256] by simp
  ultimately have "n = n div 16777216 * 16777216 + n div 65536 mod 256 * 65536 +
      n div 256 mod 256 * 256 + n mod 256"
    by linarith
  moreover have "unat (word_of_nat (n div 16777216) :: byte) = n div 16777216"
    using assms by (simp add: unat_of_nat)
  ultimately show ?thesis by (simp add: getUint32_def setUint32_def unat_of_nat nth_Cons')
qed

lemma setUint32_length [simp]: "length (setUint32 n) = 4"
  by (simp add: setUint32_def)

text \<open>
  C33: Round trip of the frame. If the text of a message parses back to a value that the schema
  of the message's kind decodes to it, a message of at most 8 MiB is framed, and its frame is
  decoded to the message.
\<close>

theorem stream_frame_roundtrip:
  assumes "parse (to_text m) = Some raw"
    and "case m of Snapshot_Message x \<Rightarrow> as_snapshot raw = Some x | Patch_Message x \<Rightarrow> as_patch raw = Some x
         | Resync_Message x \<Rightarrow> as_resync raw = Some x"
    and "length (to_text m) \<le> MAX_TERMINAL_STREAM_V3_BYTES"
  shows "Option.bind (encodeTerminalStreamV3 to_text m)
      (decodeTerminalStreamV3 parse as_snapshot as_patch as_resync) = Some m"
proof -
  have "length (to_text m) < 2 ^ 32" using assms(3) by (simp add: MAX_TERMINAL_STREAM_V3_BYTES_def)
  from getUint32_setUint32 [OF this, of 3 "kindFor m" "to_text m"] assms show ?thesis
    by (cases m) (simp_all add: encodeTerminalStreamV3_def decodeTerminalStreamV3_def Let_def)
qed

text \<open>
  Frames are self-delimiting. Whatever the parsers do, a byte string that decodes is an exact
  frame: version 3, a known kind, and as many payload bytes as its length field says, at most
  8 MiB. So neither a truncated frame nor one with bytes appended decodes to a message.
\<close>

theorem stream_frame_exact:
  assumes "decodeTerminalStreamV3 parse as_snapshot as_patch as_resync bs = Some m"
  shows "bs ! 0 = 3 \<and> bs ! 1 = kindFor m \<and> length bs = getUint32 bs 2 + 6 \<and>
    length bs \<le> MAX_TERMINAL_STREAM_V3_BYTES + 6 \<and>
    (\<forall>x. x \<noteq> [] \<longrightarrow> decodeTerminalStreamV3 parse as_snapshot as_patch as_resync (bs @ x) = None) \<and>
    (\<forall>n < length bs. decodeTerminalStreamV3 parse as_snapshot as_patch as_resync (take n bs) = None)"
proof -
  let ?d = "decodeTerminalStreamV3 parse as_snapshot as_patch as_resync"
  have b: "6 \<le> length bs" "bs ! 0 = 3" "length bs = getUint32 bs 2 + 6"
      "getUint32 bs 2 \<le> MAX_TERMINAL_STREAM_V3_BYTES" "bs ! 1 = kindFor m"
    using assms by (auto simp: decodeTerminalStreamV3_def Let_def split: if_splits option.splits)
  have "?d (bs @ x) = None" if "x \<noteq> []" for x
  proof -
    have "getUint32 (bs @ x) 2 = getUint32 bs 2" using b(1) by (simp add: getUint32_def nth_append)
    with b(3) that show ?thesis by (simp add: decodeTerminalStreamV3_def Let_def)
  qed
  moreover have "?d (take n bs) = None" if "n < length bs" for n
  proof (cases "n < 6")
    case False
    then have "getUint32 (take n bs) 2 = getUint32 bs 2" by (simp add: getUint32_def)
    with b(3) that show ?thesis by (simp add: decodeTerminalStreamV3_def Let_def)
  next
    case True
    then have "length (take n bs) < 6" by simp
    then show ?thesis unfolding decodeTerminalStreamV3_def by (simp only: simp_thms if_True)
  qed
  ultimately show ?thesis using b by simp
qed

section \<open>The client's projection\<close>

text \<open>
  \<open>TerminalV3Store\<close>. An operation returns the new state, its result and the arguments of the
  listeners' calls. The revision is an integer: only safe integers are stored.
\<close>

datatype apply_result = Applied | Ignored | Resync_Required

record v3_store =
  v3_terminal :: "string option"
  v3_owner :: "string option"
  v3_epoch :: "string option"
  v3_revision :: int
  v3_current :: "semantic_snapshot option"

type_synonym v3_outcome = "v3_store \<times> apply_result \<times> (semantic_snapshot option \<times> apply_result) list"

definition new_v3_store :: v3_store where
  "new_v3_store = \<lparr>v3_terminal = None, v3_owner = None, v3_epoch = None, v3_revision = 0, v3_current = None\<rparr>"

definition notify_listeners :: "v3_store \<Rightarrow> apply_result \<Rightarrow> v3_outcome" where
  "notify_listeners s r = (s, r, [(v3_current s, r)])"

definition applyTerminalSnapshot :: "snapshot_message \<Rightarrow> v3_store \<Rightarrow> v3_outcome" where
  "applyTerminalSnapshot m s =
     (if v3_terminal s \<noteq> None \<and> v3_terminal s \<noteq> Some (sm_terminal m) then (s, Ignored, [])
      else if v3_owner s = Some (sm_owner m) \<and> v3_epoch s = Some (sm_epoch m) \<and>
              js_le (sm_revision m) (js_int (v3_revision s)) then (s, Ignored, [])
      else if \<not> js_eq (snapshot_revision (sm_snapshot m)) (sm_revision m) \<or>
              \<not> is_safe_integer (sm_revision m) \<or> js_less (sm_revision m) (js_int 0)
           then (s, Resync_Required, [])
      else notify_listeners
             \<lparr>v3_terminal = Some (sm_terminal m), v3_owner = Some (sm_owner m),
              v3_epoch = Some (sm_epoch m), v3_revision = int_of (sm_revision m),
              v3_current = Some (sm_snapshot m)\<rparr> Applied)"

definition applyTerminalPatch :: "patch_message \<Rightarrow> v3_store \<Rightarrow> v3_outcome" where
  "applyTerminalPatch m s =
     (case v3_current s of None \<Rightarrow> (s, Resync_Required, [])
      | Some current \<Rightarrow>
        if v3_terminal s \<noteq> Some (pm_terminal m) \<or> v3_owner s \<noteq> Some (pm_owner m) \<or>
           v3_epoch s \<noteq> Some (pm_epoch m) then (s, Resync_Required, [])
        else if \<not> js_eq (pm_revision m) (patch_revision (pm_patch m)) \<or> \<not> is_safe_integer (pm_revision m)
             then (s, Resync_Required, [])
        else if js_le (pm_revision m) (js_int (v3_revision s)) then (s, Ignored, [])
        else if \<not> js_eq (pm_base m) (js_int (v3_revision s)) then (s, Resync_Required, [])
        else case applyTerminalSemanticPatch current (pm_epoch m) (pm_patch m) of
               None \<Rightarrow> (s, Resync_Required, [])
             | Some next_snapshot \<Rightarrow>
                 notify_listeners (s\<lparr>v3_current := Some next_snapshot, v3_revision := int_of (pm_revision m)\<rparr>)
                   Applied)"

definition reset_v3 :: "v3_store \<Rightarrow> v3_outcome" where
  "reset_v3 s = notify_listeners new_v3_store Ignored"

text \<open>A message of the stream; the caller treats a resync message itself.\<close>

datatype v3_input = Take_Snapshot snapshot_message | Take_Patch patch_message

fun v3_apply :: "v3_store \<Rightarrow> v3_input \<Rightarrow> v3_outcome" where
  "v3_apply s (Take_Snapshot m) = applyTerminalSnapshot m s"
| "v3_apply s (Take_Patch m) = applyTerminalPatch m s"

definition v3_receive :: "v3_store \<Rightarrow> v3_input \<Rightarrow> v3_store" where
  "v3_receive s i = fst (v3_apply s i)"

text \<open>The projection and its identity agree.\<close>

definition v3_ok :: "v3_store \<Rightarrow> bool" where
  "v3_ok s \<longleftrightarrow> 0 \<le> v3_revision s \<and>
     (case v3_current s of
        None \<Rightarrow> s = new_v3_store
      | Some c \<Rightarrow> snapshot_revision c = js_int (v3_revision s) \<and> v3_revision s \<le> max_safe \<and>
          v3_terminal s \<noteq> None \<and> v3_owner s \<noteq> None \<and> v3_epoch s \<noteq> None)"

lemma new_v3_store_ok: "v3_ok new_v3_store"
  by (simp add: v3_ok_def new_v3_store_def)

lemma apply_revision: "applyTerminalSemanticPatch c e p = Some c' \<Longrightarrow> snapshot_revision c' = patch_revision p"
  by (auto simp: applyTerminalSemanticPatch_def split: if_splits)

text \<open>The effect of an input that is applied.\<close>

lemma applyTerminalSnapshot_cases:
  obtains (same) "fst (applyTerminalSnapshot m s) = s" "fst (snd (applyTerminalSnapshot m s)) \<noteq> Applied"
      "v3_terminal s \<noteq> None \<and> v3_terminal s \<noteq> Some (sm_terminal m) \<or>
       v3_owner s = Some (sm_owner m) \<and> v3_epoch s = Some (sm_epoch m) \<and>
         js_le (sm_revision m) (js_int (v3_revision s)) \<or>
       \<not> js_eq (snapshot_revision (sm_snapshot m)) (sm_revision m) \<or>
       \<not> is_safe_integer (sm_revision m) \<or> js_less (sm_revision m) (js_int 0)"
  | (applied) r where "applyTerminalSnapshot m s =
        (\<lparr>v3_terminal = Some (sm_terminal m), v3_owner = Some (sm_owner m), v3_epoch = Some (sm_epoch m),
          v3_revision = r, v3_current = Some (sm_snapshot m)\<rparr>, Applied, [(Some (sm_snapshot m), Applied)])"
      "sm_revision m = js_int r" "snapshot_revision (sm_snapshot m) = js_int r" "0 \<le> r" "r \<le> max_safe"
      "v3_terminal s \<in> {None, Some (sm_terminal m)}"
      "v3_owner s = Some (sm_owner m) \<Longrightarrow> v3_epoch s = Some (sm_epoch m) \<Longrightarrow> v3_revision s < r"
proof -
  let ?no = "v3_terminal s \<noteq> None \<and> v3_terminal s \<noteq> Some (sm_terminal m) \<or>
       v3_owner s = Some (sm_owner m) \<and> v3_epoch s = Some (sm_epoch m) \<and>
         js_le (sm_revision m) (js_int (v3_revision s)) \<or>
       \<not> js_eq (snapshot_revision (sm_snapshot m)) (sm_revision m) \<or>
       \<not> is_safe_integer (sm_revision m) \<or> js_less (sm_revision m) (js_int 0)"
  show ?thesis
  proof (cases ?no)
    case True
    then show ?thesis
      by (intro same) (auto simp: applyTerminalSnapshot_def)
  next
    case False
    then have r: "sm_revision m = js_int (int_of (sm_revision m))" by (intro safe_integer_E) simp
    show ?thesis
    proof (rule applied [OF _ r])
      show "snapshot_revision (sm_snapshot m) = js_int (int_of (sm_revision m))"
        using False r by (auto simp: js_eq_def)
      show "0 \<le> int_of (sm_revision m)" "int_of (sm_revision m) \<le> max_safe"
        using False r by (metis js_int_simps(4,6) abs_le_iff linorder_not_less)+
      show "v3_owner s = Some (sm_owner m) \<Longrightarrow> v3_epoch s = Some (sm_epoch m) \<Longrightarrow>
          v3_revision s < int_of (sm_revision m)"
        using False r by (metis js_int_simps(2) linorder_not_less)
    qed (use False in \<open>auto simp: applyTerminalSnapshot_def notify_listeners_def\<close>)
  qed
qed

lemma applyTerminalPatch_cases:
  obtains (same) "fst (applyTerminalPatch m s) = s" "fst (snd (applyTerminalPatch m s)) \<noteq> Applied"
  | (applied) c c' r where "v3_current s = Some c" "v3_terminal s = Some (pm_terminal m)"
      "v3_owner s = Some (pm_owner m)" "v3_epoch s = Some (pm_epoch m)"
      "applyTerminalSemanticPatch c (pm_epoch m) (pm_patch m) = Some c'"
      "pm_base m = js_int (v3_revision s)" "pm_revision m = js_int r"
      "snapshot_revision c' = js_int r" "v3_revision s < r" "r \<le> max_safe"
      "applyTerminalPatch m s = (s\<lparr>v3_current := Some c', v3_revision := r\<rparr>, Applied, [(Some c', Applied)])"
proof -
  let ?go = "\<lambda>c c'. v3_current s = Some c \<and> v3_terminal s = Some (pm_terminal m) \<and>
      v3_owner s = Some (pm_owner m) \<and> v3_epoch s = Some (pm_epoch m) \<and>
      js_eq (pm_revision m) (patch_revision (pm_patch m)) \<and> is_safe_integer (pm_revision m) \<and>
      \<not> js_le (pm_revision m) (js_int (v3_revision s)) \<and> js_eq (pm_base m) (js_int (v3_revision s)) \<and>
      applyTerminalSemanticPatch c (pm_epoch m) (pm_patch m) = Some c'"
  show ?thesis
  proof (cases "\<exists>c c'. ?go c c'")
    case False
    then have "fst (applyTerminalPatch m s) = s \<and> fst (snd (applyTerminalPatch m s)) \<noteq> Applied"
      by (auto simp: applyTerminalPatch_def split: option.split)
    then show ?thesis by (intro same) simp_all
  next
    case True
    then obtain c c' where go: "?go c c'" by blast
    then have r: "pm_revision m = js_int (int_of (pm_revision m))" by (intro safe_integer_E) simp
    let ?r = "int_of (pm_revision m)"
    have "snapshot_revision c' = js_int ?r"
      using apply_revision [of c "pm_epoch m" "pm_patch m" c'] go r by (auto simp: js_eq_def)
    moreover have "v3_revision s < ?r" "?r \<le> max_safe"
      using go r by (metis js_int_simps(2) linorder_not_less, metis js_int_simps(4) abs_le_iff)
    moreover have "pm_base m = js_int (v3_revision s)" using go by (auto simp: js_eq_def)
    moreover have "applyTerminalPatch m s = (s\<lparr>v3_current := Some c', v3_revision := ?r\<rparr>, Applied, [(Some c', Applied)])"
      using go by (simp add: applyTerminalPatch_def notify_listeners_def)
    ultimately show ?thesis using go r by - (rule applied [of c c' ?r]; blast)
  qed
qed

lemma v3_receive_ok: "v3_ok s \<Longrightarrow> v3_ok (v3_receive s i)"
proof (cases i)
  case (Take_Snapshot m)
  assume "v3_ok s"
  with Take_Snapshot show ?thesis
    by (cases rule: applyTerminalSnapshot_cases [of m s]) (auto simp: v3_receive_def v3_ok_def)
next
  case (Take_Patch m)
  assume "v3_ok s"
  with Take_Patch show ?thesis
    by (cases rule: applyTerminalPatch_cases [of m s]) (auto simp: v3_receive_def v3_ok_def)
qed

text \<open>
  A history of a terminal: its state at every revision of every epoch of every owner. A stream is
  valid for a history if its snapshots are states of it, and its patches lead from states of it to
  states of it.
\<close>

type_synonym history = "string \<times> string \<times> int \<Rightarrow> semantic_snapshot option"

fun valid_input :: "history \<Rightarrow> v3_input \<Rightarrow> bool" where
  "valid_input H (Take_Snapshot m) =
     (\<forall>r. sm_revision m = js_int r \<longrightarrow> H (sm_owner m, sm_epoch m, r) = Some (sm_snapshot m))"
| "valid_input H (Take_Patch m) =
     (\<forall>b r c c'. pm_base m = js_int b \<longrightarrow> pm_revision m = js_int r \<longrightarrow>
        H (pm_owner m, pm_epoch m, b) = Some c \<longrightarrow>
        applyTerminalSemanticPatch c (pm_epoch m) (pm_patch m) = Some c' \<longrightarrow>
        H (pm_owner m, pm_epoch m, r) = Some c')"

definition shows_history :: "history \<Rightarrow> v3_store \<Rightarrow> bool" where
  "shows_history H s \<longleftrightarrow>
     (\<forall>c. v3_current s = Some c \<longrightarrow>
        (\<exists>ow ep. v3_owner s = Some ow \<and> v3_epoch s = Some ep \<and> H (ow, ep, v3_revision s) = Some c))"

lemma receive_shows: "shows_history H s \<Longrightarrow> valid_input H i \<Longrightarrow> shows_history H (v3_receive s i)"
proof (cases i)
  case (Take_Snapshot m)
  assume "shows_history H s" "valid_input H i"
  with Take_Snapshot show ?thesis
    by (cases rule: applyTerminalSnapshot_cases [of m s]) (simp_all add: v3_receive_def shows_history_def)
next
  case (Take_Patch m)
  assume "shows_history H s" "valid_input H i"
  with Take_Patch show ?thesis
    by (cases rule: applyTerminalPatch_cases [of m s]) (auto simp: v3_receive_def shows_history_def)
qed


text \<open>
  Revisions only advance. As long as the terminal's epoch and owner are the same before and
  after, an input never lowers the client's revision, leaves the state as it was unless its result
  is \<open>applied\<close>, and raises the revision when it is.
\<close>

lemma v3_revision_advances:
  assumes "v3_apply s i = (s', result, calls)"
    and "v3_owner s' = v3_owner s" "v3_epoch s' = v3_epoch s"
  shows "if result = Applied then v3_revision s < v3_revision s' \<and> calls = [(v3_current s', Applied)]
         else s' = s \<and> calls = []"
proof (cases i)
  case (Take_Snapshot m)
  show ?thesis
  proof (cases rule: applyTerminalSnapshot_cases [of m s])
    case same
    with assms Take_Snapshot show ?thesis by (auto simp: applyTerminalSnapshot_def notify_listeners_def split: if_splits)
  next
    case (applied r)
    with assms Take_Snapshot show ?thesis by auto
  qed
next
  case (Take_Patch m)
  show ?thesis
  proof (cases rule: applyTerminalPatch_cases [of m s])
    case same
    with assms Take_Patch show ?thesis
      by (auto simp: applyTerminalPatch_def notify_listeners_def split: if_splits option.splits)
  next
    case (applied c c' r)
    with assms Take_Patch show ?thesis by auto
  qed
qed

section \<open>Snapshots of one epoch\<close>

definition snapshot_position :: "v3_store \<Rightarrow> string \<times> string \<Rightarrow> int" where
  "snapshot_position s k =
     (if v3_owner s = Some (fst k) \<and> v3_epoch s = Some (snd k) then v3_revision s else - 1)"

definition receive_snapshot :: "v3_store \<Rightarrow> snapshot_message \<Rightarrow> v3_store" where
  "receive_snapshot s m = fst (applyTerminalSnapshot m s)"

definition snapshot_key :: "snapshot_message \<Rightarrow> string \<times> string" where
  "snapshot_key m = (sm_owner m, sm_epoch m)"

text \<open>A number that is not a safe integer cannot move the client: it counts as the lowest.\<close>

definition snapshot_number :: "snapshot_message \<Rightarrow> int" where
  "snapshot_number m = (if is_safe_integer (sm_revision m) then int_of (sm_revision m) else - 1)"

definition proper_snapshot :: "string \<Rightarrow> string \<Rightarrow> string \<Rightarrow> snapshot_message \<Rightarrow> bool" where
  "proper_snapshot tid ow ep m \<longleftrightarrow> sm_terminal m = tid \<and> sm_owner m = ow \<and> sm_epoch m = ep \<and>
     is_safe_integer (sm_revision m) \<and> 0 \<le> int_of (sm_revision m) \<and>
     snapshot_revision (sm_snapshot m) = sm_revision m"

definition in_epoch :: "string \<Rightarrow> string \<Rightarrow> string \<Rightarrow> v3_store \<Rightarrow> bool" where
  "in_epoch tid ow ep s \<longleftrightarrow> v3_ok s \<and>
     (v3_current s \<noteq> None \<longrightarrow> v3_terminal s = Some tid \<and> v3_owner s = Some ow \<and> v3_epoch s = Some ep)"

lemma receive_in_epoch:
  assumes "proper_snapshot tid ow ep m" "in_epoch tid ow ep s"
  shows "in_epoch tid ow ep (receive_snapshot s m)"
  using assms v3_receive_ok [of s "Take_Snapshot m"]
  by (cases rule: applyTerminalSnapshot_cases [of m s])
    (auto simp: in_epoch_def receive_snapshot_def v3_receive_def proper_snapshot_def)

text \<open>The store is a revision gate for the snapshots of one epoch.\<close>

interpretation v3: revision_gate snapshot_position receive_snapshot snapshot_key snapshot_number
  "proper_snapshot tid ow ep" "in_epoch tid ow ep" for tid ow ep
proof
  fix m s
  assume le: "snapshot_number m \<le> snapshot_position s (snapshot_key m)"
  show "receive_snapshot s m = s"
  proof (cases rule: applyTerminalSnapshot_cases [of m s])
    case same
    then show ?thesis by (simp add: receive_snapshot_def)
  next
    case (applied r)
    with le show ?thesis
      by (auto simp: snapshot_number_def snapshot_position_def snapshot_key_def split: if_splits)
  qed
next
  fix m s
  assume m: "proper_snapshot tid ow ep m" and s: "in_epoch tid ow ep s"
    and less: "snapshot_position s (snapshot_key m) < snapshot_number m"
  have r: "sm_revision m = js_int (int_of (sm_revision m))"
    using m by (intro safe_integer_E) (simp add: proper_snapshot_def)
  show "snapshot_number m \<le> snapshot_position (receive_snapshot s m) (snapshot_key m)"
  proof (cases rule: applyTerminalSnapshot_cases [of m s])
    case same
    have "v3_terminal s = None \<or> v3_terminal s = Some tid"
      using s by (auto simp: in_epoch_def v3_ok_def new_v3_store_def split: option.splits)
    with same(3) m have "v3_owner s = Some ow \<and> v3_epoch s = Some ep \<and>
        int_of (sm_revision m) \<le> v3_revision s"
      using r by (auto simp: proper_snapshot_def js_eq_def) (metis js_int_simps(2,6) linorder_not_less)+
    with less m show ?thesis
      by (simp add: snapshot_position_def snapshot_key_def snapshot_number_def proper_snapshot_def)
  next
    case (applied r)
    then show ?thesis
      by (simp add: receive_snapshot_def snapshot_position_def snapshot_key_def snapshot_number_def)
  qed
next
  fix m s k
  assume "proper_snapshot tid ow ep m" "in_epoch tid ow ep s" "k \<noteq> snapshot_key m"
  then show "snapshot_position (receive_snapshot s m) k = snapshot_position s k"
    by (cases rule: applyTerminalSnapshot_cases [of m s])
      (auto simp: receive_snapshot_def snapshot_position_def snapshot_key_def proper_snapshot_def
        in_epoch_def v3_ok_def new_v3_store_def split: option.splits)
qed (rule receive_in_epoch)

lemma snapshots_shown:
  "v3_current (foldl receive_snapshot s ms) = v3_current s \<and> v3_revision (foldl receive_snapshot s ms) = v3_revision s \<or>
   (\<exists>m \<in> set ms. v3_current (foldl receive_snapshot s ms) = Some (sm_snapshot m) \<and>
      sm_revision m = js_int (v3_revision (foldl receive_snapshot s ms)))"
proof (induction ms arbitrary: s)
  case (Cons m ms)
  show ?case
    using Cons.IH [of "receive_snapshot s m"]
    by (cases rule: applyTerminalSnapshot_cases [of m s]) (auto simp: receive_snapshot_def)
qed simp

text \<open>
  The newest snapshot wins. After any snapshots of one epoch of a terminal, in any order and
  with any repetition, a client that started empty shows one of them, none of them is newer, and
  delivering any of them again changes nothing.
\<close>

theorem v3_newest_snapshot:
  assumes "\<forall>m \<in> set ms. proper_snapshot tid ow ep m" "ms \<noteq> []" "set again \<subseteq> set ms"
  shows "let s = foldl receive_snapshot new_v3_store ms in
    (\<exists>m \<in> set ms. v3_current s = Some (sm_snapshot m) \<and> sm_revision m = js_int (v3_revision s)) \<and>
    (\<forall>m \<in> set ms. int_of (sm_revision m) \<le> v3_revision s) \<and>
    foldl receive_snapshot s again = s"
proof -
  let ?s = "foldl receive_snapshot new_v3_store ms"
  have good: "in_epoch tid ow ep new_v3_store"
    by (simp add: in_epoch_def new_v3_store_ok) (simp add: new_v3_store_def)
  have le: "int_of (sm_revision m) \<le> snapshot_position ?s (ow, ep)" "0 \<le> int_of (sm_revision m)" if "m \<in> set ms" for m
    using v3.run_covered [OF assms(1) good that] assms(1) that
    by (auto simp: snapshot_number_def snapshot_key_def proper_snapshot_def)
  obtain m where m: "m \<in> set ms" using assms(2) by (cases ms) auto
  have pos: "snapshot_position ?s (ow, ep) = v3_revision ?s" "v3_current ?s \<noteq> None"
    using le [OF m] v3.run_good [OF assms(1) good]
    by (auto simp: snapshot_position_def in_epoch_def v3_ok_def new_v3_store_def split: if_splits option.splits)
  have "v3_current new_v3_store = None" by (simp add: new_v3_store_def)
  then show ?thesis
    using snapshots_shown [of new_v3_store ms] pos le v3.replay [OF assms(1) good assms(3)]
    by (auto simp: Let_def)
qed

section \<open>Witnesses\<close>

definition a_row :: "string \<Rightarrow> bool \<Rightarrow> terminal_row" where
  "a_row i w = \<lparr>rowId = i, cells = [], isWrapContinuation = False, wrapsToNext = w\<rparr>"

definition a_snapshot :: "int \<Rightarrow> terminal_row list \<Rightarrow> semantic_snapshot" where
  "a_snapshot r rows = \<lparr>snapshot_cols = js_int 80, snapshot_rows = js_int 24, activeScreen = Primary,
     snapshot_revision = js_int r,
     snapshot_cursor = \<lparr>cursor_x = js_int 0, cursor_y = js_int 0, cursor_visible = True,
       cursor_blinking = False, cursor_style = js_int 0\<rparr>,
     screenRows = rows,
     scrollback = \<lparr>firstRowId = None, lastRowId = None, rowCount = js_int 0\<rparr>,
     modes = \<lparr>bracketedPaste = False, applicationCursorKeys = False, focusReporting = False,
       mouseTracking = False, mouseSgr = False, mouseSgrPixels = False, synchronizedOutput = False,
       kittyKeyboard = False\<rparr>,
     snapshot_title = None, palette = [], hyperlinks = []\<rparr>"

definition a_patch :: "int \<Rightarrow> int \<Rightarrow> terminal_row list \<Rightarrow> string list \<Rightarrow> semantic_patch" where
  "a_patch b r rows gone = \<lparr>patch_epoch = ''e'', patch_base = js_int b, patch_revision = js_int r,
     changedRows = rows, deletedRowIds = gone, patch_cursor = None, patch_cols = None, patch_rows = None,
     patch_screen = None, patch_scrollback = None, patch_modes = None, patch_title = None,
     patch_palette = None, patch_hyperlinks = None, fullReset = None\<rparr>"

definition three_rows :: "terminal_row list" where
  "three_rows = [a_row ''1'' False, a_row ''2'' False, a_row ''3'' False]"

definition patched :: semantic_snapshot where
  "patched = a_snapshot 6 [a_row ''1'' True, a_row ''3'' False, a_row ''4'' False]"

lemma patched_eq:
  "applyTerminalSemanticPatch (a_snapshot 5 three_rows) ''e''
     (a_patch 5 6 [a_row ''1'' True, a_row ''4'' False] [''2'']) = Some patched"
  by (simp add: applyTerminalSemanticPatch_def a_snapshot_def a_patch_def three_rows_def patched_def
      patchedRows_def a_row_def coalesce_def map_from_def max_safe_def)

lemma applyPatch_rows_witness:
  "distinct (map rowId (screenRows patched)) \<and> row_of (screenRows patched) ''2'' = None \<and>
     row_of (screenRows patched) ''4'' = Some (a_row ''4'' False)"
  using applyPatch_rows [OF _ _ patched_eq]
  by (simp add: a_snapshot_def three_rows_def a_patch_def a_row_def)

definition a_snapshot_message :: "int \<Rightarrow> snapshot_message" where
  "a_snapshot_message r = \<lparr>sm_terminal = ''t'', sm_owner = ''o'', sm_epoch = ''e'', sm_revision = js_int r,
     sm_snapshot = a_snapshot r three_rows\<rparr>"

definition a_resync :: resync_message where
  "a_resync = \<lparr>rm_terminal = ''t'', rm_epoch = ''e'', rm_latest = js_int 9\<rparr>"

lemma stream_frame_roundtrip_witness:
  "Option.bind (encodeTerminalStreamV3 (\<lambda>_. [123, 125]) (Resync_Message a_resync))
     (decodeTerminalStreamV3 Some (\<lambda>_. None) (\<lambda>_. None) (\<lambda>bs. if bs = [123, 125] then Some a_resync else None)) =
     Some (Resync_Message a_resync)"
  by (rule stream_frame_roundtrip) (simp_all add: MAX_TERMINAL_STREAM_V3_BYTES_def)

lemma stream_frame_exact_witness:
  "decodeTerminalStreamV3 Some (\<lambda>_. None) (\<lambda>_. None) (\<lambda>_. Some a_resync) [3, 3, 0, 0, 0, 1, 125] =
     Some (Resync_Message a_resync) \<and>
   decodeTerminalStreamV3 Some (\<lambda>_. None) (\<lambda>_. None) (\<lambda>_. Some a_resync) (take 6 [3, 3, 0, 0, 0, 1, 125]) = None"
proof -
  have d: "decodeTerminalStreamV3 Some (\<lambda>_. None) (\<lambda>_. None) (\<lambda>_. Some a_resync) [3, 3, 0, 0, 0, 1, 125] =
     Some (Resync_Message a_resync)"
    by (simp add: decodeTerminalStreamV3_def getUint32_def MAX_TERMINAL_STREAM_V3_BYTES_def)
  from stream_frame_exact [OF d] d show ?thesis by (simp del: take_Cons_numeral)
qed

definition two_states :: history where
  "two_states = (\<lambda>(ow, ep, r). if r = 5 then Some (a_snapshot 5 three_rows)
     else if r = 6 then Some patched else None)"

definition a_patch_message :: patch_message where
  "a_patch_message = \<lparr>pm_terminal = ''t'', pm_owner = ''o'', pm_epoch = ''e'', pm_base = js_int 5,
     pm_revision = js_int 6, pm_patch = a_patch 5 6 [a_row ''1'' True, a_row ''4'' False] [''2'']\<rparr>"

definition a_stream :: "v3_input list" where
  "a_stream = [Take_Patch a_patch_message, Take_Snapshot (a_snapshot_message 5),
     Take_Patch a_patch_message, Take_Patch a_patch_message]"

lemma a_stream_valid: "\<forall>i \<in> set a_stream. valid_input two_states i"
  using patched_eq
  by (simp add: a_stream_def a_patch_message_def a_snapshot_message_def two_states_def)

lemma a_stream_result:
  "foldl v3_receive new_v3_store a_stream =
     \<lparr>v3_terminal = Some ''t'', v3_owner = Some ''o'', v3_epoch = Some ''e'', v3_revision = 6,
       v3_current = Some patched\<rparr>"
  using patched_eq
  by (simp add: a_stream_def v3_receive_def applyTerminalPatch_def applyTerminalSnapshot_def new_v3_store_def
      notify_listeners_def a_snapshot_message_def a_patch_message_def max_safe_def a_snapshot_def a_patch_def)


lemma v3_newest_snapshot_witness:
  "7 \<le> v3_revision (foldl receive_snapshot new_v3_store [a_snapshot_message 7, a_snapshot_message 5])"
  using v3_newest_snapshot [of "[a_snapshot_message 7, a_snapshot_message 5]" "''t''" "''o''" "''e''" "[]"]
  by (simp add: Let_def proper_snapshot_def a_snapshot_message_def a_snapshot_def max_safe_def)

end
