(* ===== verification/Output_Writer.thy ===== *)
theory Output_Writer
  imports Prelude "HOL-Library.Word" "HOL-Library.Sublist"
begin

text \<open>
  The batching of terminal output before it reaches the parser,
  \<^verbatim>\<open>packages/yaade-ui/src/panels/terminal-output-writer.ts\<close>. Chunks are queued; a frame request, its
  fallback timer or a microtask flushes them; more than \<open>maxPendingBytes\<close> are shed from the front;
  a chunk's acknowledgement is called once its bytes were written and painted, never after a gap.

  The state is the closure's variables. \<open>raf\<close> and \<open>frameFallback\<close> are truth values: the code only
  asks whether a handle is there, and a cancelled handle's callback does not run. The callbacks of
  the options are the actions of an operation, in the order of the calls; the second argument of
  \<open>write\<close> is the record \<open>paint\<close>, run by the event \<open>painted\<close>. Callbacks that call the writer
  back from inside are not modelled. \<open>active\<close> is the answer of \<open>frameClockActive\<close>.
\<close>

type_synonym byte = "8 word"

section \<open>State\<close>

record 'a part =
  part_data :: "byte list"
  part_offset :: nat
  onConsumed :: "'a option"

record options =
  has_writeReplay :: bool
  has_refresh :: bool
  maxPending :: nat
  maxPerFlush :: "nat option"
  interactiveMax :: nat

record 'a writer =
  pendingParts :: "'a part list"
  replayParts :: "'a part list"
  pendingBytes :: nat
  replayBytes :: nat
  needsRefresh :: bool
  raf :: bool
  frameFallback :: bool
  microScheduled :: bool
  writer_disposed :: bool
  gapDetected :: bool
  floodMode :: bool

record 'a paint =
  paint_acks :: "'a list"
  paint_refresh :: bool

datatype 'a action =
    Posted nat
  | Write "byte list" "'a paint option"
  | Write_Replay "byte list list" "'a paint"
  | Refresh_After_Paint
  | On_Painted
  | Acknowledge 'a

definition TERMINAL_OUTPUT_MAX_PENDING_BYTES :: nat where
  "TERMINAL_OUTPUT_MAX_PENDING_BYTES = 512 * 1024"

definition TERMINAL_OUTPUT_INTERACTIVE_MAX_BYTES :: nat where
  "TERMINAL_OUTPUT_INTERACTIVE_MAX_BYTES = 256"

text \<open>The options with their defaults, for given optional values.\<close>

definition options_with ::
  "bool \<Rightarrow> bool \<Rightarrow> nat option \<Rightarrow> nat option \<Rightarrow> nat option \<Rightarrow> options" where
  "options_with replay refresh pending per_flush interactive =
     \<lparr>has_writeReplay = replay, has_refresh = refresh,
      maxPending = (case pending of None \<Rightarrow> TERMINAL_OUTPUT_MAX_PENDING_BYTES | Some n \<Rightarrow> n),
      maxPerFlush = per_flush,
      interactiveMax = (case interactive of None \<Rightarrow> TERMINAL_OUTPUT_INTERACTIVE_MAX_BYTES | Some n \<Rightarrow> n)\<rparr>"

definition newWriter :: "'a writer" where
  "newWriter = \<lparr>pendingParts = [], replayParts = [], pendingBytes = 0, replayBytes = 0,
     needsRefresh = False, raf = False, frameFallback = False, microScheduled = False,
     writer_disposed = False, gapDetected = False, floodMode = False\<rparr>"

section \<open>Helpers of the code\<close>

definition CURSOR_HIDE :: "byte list" where
  "CURSOR_HIDE = [27, 91, 63, 50, 53, 108]"

definition CURSOR_SHOW :: "byte list" where
  "CURSOR_SHOW = [27, 91, 63, 50, 53, 104]"

text \<open>A window of the data that equals the needle; a needle longer than the data is not found.\<close>

definition containsSequence :: "byte list \<Rightarrow> byte list \<Rightarrow> bool" where
  "containsSequence data needle =
     (length needle \<le> length data \<and>
      list_ex (\<lambda>offset. take (length needle) (drop offset data) = needle)
        [0..<length data - length needle + 1])"

text \<open>\<open>byteLength\<close> is the sum of the lengths at the only call.\<close>

definition concatParts :: "byte list list \<Rightarrow> byte list" where
  "concatParts parts = concat parts"

definition available :: "'a part \<Rightarrow> nat" where
  "available p = length (part_data p) - part_offset p"

text \<open>The loop of \<open>shedOldest\<close>, on the queue, the counter and the gap flag.\<close>

fun shed_loop :: "nat \<Rightarrow> 'a part list \<Rightarrow> nat \<Rightarrow> bool \<Rightarrow> 'a part list \<times> nat \<times> bool" where
  "shed_loop m (p # q # ps) n gap =
     (if m < n then shed_loop m (q # ps) (n - available p) True else (p # q # ps, n, gap))"
| "shed_loop m ps n gap = (ps, n, gap)"

definition shedOldest :: "options \<Rightarrow> 'a writer \<Rightarrow> 'a writer" where
  "shedOldest opts w =
     (let m = maxPending opts;
          (ps, n, gap) = shed_loop m (pendingParts w) (pendingBytes w) (gapDetected w)
      in case ps of
           [only] \<Rightarrow>
             if m < n then
               w\<lparr>pendingParts := [only\<lparr>part_offset := part_offset only + (available only - m),
                                       onConsumed := None\<rparr>],
                 pendingBytes := m, gapDetected := True\<rparr>
             else w\<lparr>pendingParts := ps, pendingBytes := n, gapDetected := gap\<rparr>
         | _ \<Rightarrow> w\<lparr>pendingParts := ps, pendingBytes := n, gapDetected := gap\<rparr>)"

text \<open>The loop of \<open>takePending\<close>: views, consumed callbacks and the queue that is left.\<close>

fun take_loop ::
  "nat option \<Rightarrow> bool \<Rightarrow> nat \<Rightarrow> 'a part list \<Rightarrow> byte list list \<times> 'a list \<times> 'a part list \<times> nat" where
  "take_loop limit gap taken [] = ([], [], [], taken)"
| "take_loop limit gap taken (p # ps) =
     (if (case limit of None \<Rightarrow> True | Some n \<Rightarrow> taken < n) then
        let count = (case limit of None \<Rightarrow> available p | Some n \<Rightarrow> min (available p) (n - taken));
            view = take count (drop (part_offset p) (part_data p));
            p' = p\<lparr>part_offset := part_offset p + count\<rparr>
        in if part_offset p' = length (part_data p') then
             let (views, acks, rest, amount) = take_loop limit gap (taken + count) ps
             in (view # views,
                 (case onConsumed p of Some a \<Rightarrow> if gap then acks else a # acks | None \<Rightarrow> acks), rest, amount)
           else ([view], [], p' # ps, taken + count)
      else ([], [], p # ps, taken))"

definition takePending :: "nat option \<Rightarrow> 'a writer \<Rightarrow> 'a writer \<times> byte list \<times> 'a list" where
  "takePending limit w =
     (if pendingParts w = [] \<or> limit = Some 0 then (w, [], [])
      else
        let (views, acks, rest, taken) = take_loop limit (gapDetected w) 0 (pendingParts w)
        in (w\<lparr>pendingParts := rest, pendingBytes := pendingBytes w - taken\<rparr>, concatParts views, acks))"

definition markRefresh :: "options \<Rightarrow> byte list \<Rightarrow> 'a writer \<Rightarrow> 'a writer" where
  "markRefresh opts data w =
     (if has_refresh opts \<and> (containsSequence data CURSOR_HIDE \<or> containsSequence data CURSOR_SHOW)
      then w\<lparr>needsRefresh := True\<rparr> else w)"

text \<open>The callback of a write that has been painted.\<close>

definition painted :: "options \<Rightarrow> 'a paint \<Rightarrow> 'a writer \<Rightarrow> 'a action list" where
  "painted opts c w =
     (if writer_disposed w then []
      else map Acknowledge (paint_acks c) @
        (if paint_refresh c \<and> has_refresh opts then [Refresh_After_Paint] else []) @ [On_Painted])"

section \<open>Flushing and scheduling\<close>

definition acks_of :: "'a part list \<Rightarrow> 'a list" where
  "acks_of ps = somes (map onConsumed ps)"

definition flushReplayNow :: "options \<Rightarrow> 'a writer \<Rightarrow> 'a writer \<times> 'a action list" where
  "flushReplayNow opts w =
     (if writer_disposed w \<or> replayParts w = [] then (w, [])
      else
        let parts = replayParts w;
            bytes = replayBytes w;
            doRefresh = (needsRefresh w \<and> pendingBytes w = 0);
            w = w\<lparr>replayParts := [], replayBytes := 0,
                  needsRefresh := (if doRefresh then False else needsRefresh w)\<rparr>;
            c = \<lparr>paint_acks = acks_of parts, paint_refresh = doRefresh\<rparr>;
            chunks = map (\<lambda>p. drop (part_offset p) (part_data p)) parts
        in if has_writeReplay opts then (w, [Posted bytes, Write_Replay chunks c])
           else (w, concat (map (\<lambda>d. [Posted (length d), Write d None]) chunks) @ painted opts c w))"

definition scheduleRaf :: "'a writer \<Rightarrow> 'a writer" where
  "scheduleRaf w =
     (if writer_disposed w \<or> raf w then w
      else w\<lparr>microScheduled := False, raf := True, frameFallback := True\<rparr>)"

definition scheduleMicro :: "'a writer \<Rightarrow> 'a writer" where
  "scheduleMicro w =
     (if writer_disposed w \<or> raf w \<or> microScheduled w then w else w\<lparr>microScheduled := True\<rparr>)"

definition scheduleNext :: "options \<Rightarrow> bool \<Rightarrow> 'a writer \<Rightarrow> 'a writer" where
  "scheduleNext opts active w =
     (if \<not> active then scheduleMicro (w\<lparr>raf := False, frameFallback := False\<rparr>)
      else if floodMode w \<or> interactiveMax opts < pendingBytes w
           then scheduleRaf (w\<lparr>floodMode := True\<rparr>)
           else scheduleMicro w)"

definition flushNow :: "options \<Rightarrow> bool \<Rightarrow> bool \<Rightarrow> 'a writer \<Rightarrow> 'a writer \<times> 'a action list" where
  "flushNow opts active unlimited w =
     (let (w, out) = (if 0 < replayBytes w then flushReplayNow opts w else (w, [])) in
      if 0 < replayBytes w then (w, out)
      else
        let w = w\<lparr>raf := False, microScheduled := False\<rparr> in
        if writer_disposed w \<or> pendingBytes w = 0 \<and> \<not> needsRefresh w
        then (if pendingBytes w = 0 then w\<lparr>floodMode := False\<rparr> else w, out)
        else
          let (w, data, consumed) = takePending (if unlimited then None else maxPerFlush opts) w;
              doRefresh = (needsRefresh w \<and> pendingBytes w = 0);
              w = (if doRefresh then w\<lparr>needsRefresh := False\<rparr> else w)
          in if length data = 0 then
               (if pendingBytes w = 0 then w\<lparr>floodMode := False\<rparr> else w,
                out @ (if doRefresh \<and> has_refresh opts then [Refresh_After_Paint] else []) @ [On_Painted])
             else
               (if 0 < pendingBytes w \<or> needsRefresh w then scheduleNext opts active w
                else w\<lparr>floodMode := False\<rparr>,
                out @ [Posted (length data),
                  Write data (Some \<lparr>paint_acks = consumed, paint_refresh = doRefresh\<rparr>)]))"

text \<open>The callbacks of the frame, of the fallback timer and of the microtask.\<close>

definition frame_callback :: "options \<Rightarrow> bool \<Rightarrow> 'a writer \<Rightarrow> 'a writer \<times> 'a action list" where
  "frame_callback opts active w =
     (if \<not> raf w then (w, [])
      else flushNow opts active False (w\<lparr>raf := False, frameFallback := False\<rparr>))"

definition fallback_callback :: "options \<Rightarrow> bool \<Rightarrow> 'a writer \<Rightarrow> 'a writer \<times> 'a action list" where
  "fallback_callback opts active w =
     (let w = w\<lparr>frameFallback := False\<rparr> in
      if \<not> raf w then (w, []) else flushNow opts active False (w\<lparr>raf := False\<rparr>))"

definition micro_callback :: "options \<Rightarrow> bool \<Rightarrow> 'a writer \<Rightarrow> 'a writer \<times> 'a action list" where
  "micro_callback opts active w =
     (if \<not> microScheduled w \<or> writer_disposed w then (w, [])
      else let w = w\<lparr>microScheduled := False\<rparr> in
        if raf w then (w, []) else flushNow opts active False w)"

section \<open>The writer's methods\<close>

definition enqueue_output ::
  "options \<Rightarrow> bool \<Rightarrow> byte list \<Rightarrow> 'a option \<Rightarrow> 'a writer \<Rightarrow> 'a writer" where
  "enqueue_output opts active data ack w =
     (if writer_disposed w \<or> length data = 0 then w
      else scheduleNext opts active (markRefresh opts data (shedOldest opts
        (w\<lparr>pendingParts := pendingParts w @ [\<lparr>part_data = data, part_offset = 0, onConsumed = ack\<rparr>],
           pendingBytes := pendingBytes w + length data\<rparr>))))"

definition enqueueReplay :: "options \<Rightarrow> byte list \<Rightarrow> 'a option \<Rightarrow> 'a writer \<Rightarrow> 'a writer" where
  "enqueueReplay opts data ack w =
     (if writer_disposed w \<or> length data = 0 then w
      else markRefresh opts data
        (w\<lparr>replayParts := replayParts w @ [\<lparr>part_data = data, part_offset = 0, onConsumed = ack\<rparr>],
           replayBytes := replayBytes w + length data\<rparr>))"

definition discardPending :: "'a writer \<Rightarrow> 'a writer" where
  "discardPending w =
     w\<lparr>raf := False, frameFallback := False, microScheduled := False, pendingParts := [],
       pendingBytes := 0, needsRefresh := False, floodMode := False, gapDetected := False\<rparr>"

text \<open>The loop of \<open>flush\<close>; \<open>None\<close> would be a loop that does not end.\<close>

partial_function (option) flush_loop ::
  "options \<Rightarrow> bool \<Rightarrow> 'a writer \<Rightarrow> 'a action list \<Rightarrow> ('a writer \<times> 'a action list) option" where
  "flush_loop opts active w out =
     (if 0 < pendingBytes w \<or> needsRefresh w
      then (let (w', out') = flushNow opts active True w in flush_loop opts active w' (out @ out'))
      else Some (w, out))"

definition flush_output :: "options \<Rightarrow> bool \<Rightarrow> 'a writer \<Rightarrow> ('a writer \<times> 'a action list) option" where
  "flush_output opts active w =
     (let (w, out) = flushReplayNow opts (w\<lparr>raf := False, frameFallback := False, microScheduled := False\<rparr>)
      in flush_loop opts active w out)"

definition dispose_writer :: "'a writer \<Rightarrow> 'a writer" where
  "dispose_writer w =
     w\<lparr>writer_disposed := True, raf := False, frameFallback := False, microScheduled := False,
       pendingParts := [], replayParts := [], pendingBytes := 0, replayBytes := 0,
       needsRefresh := False, floodMode := False\<rparr>"

section \<open>Contents and accounting\<close>

definition remaining :: "'a part \<Rightarrow> byte list" where
  "remaining p = drop (part_offset p) (part_data p)"

definition contents :: "'a part list \<Rightarrow> byte list" where
  "contents ps = concat (map remaining ps)"

lemma remaining_length [simp]: "length (remaining p) = available p"
  by (simp add: remaining_def available_def)

lemma contents_simps [simp]:
  "contents [] = []" "contents (p # ps) = remaining p @ contents ps"
  "contents (ps @ qs) = contents ps @ contents qs"
  by (simp_all add: contents_def)

lemma acks_of_simps [simp]:
  "acks_of [] = []" "acks_of (p # ps) = (case onConsumed p of None \<Rightarrow> acks_of ps | Some a \<Rightarrow> a # acks_of ps)"
  "acks_of (ps @ qs) = acks_of ps @ acks_of qs"
  by (simp_all add: acks_of_def split: option.split) (simp add: somes_def)

lemma contents_length: "length (contents ps) = sum_list (map available ps)"
  by (induction ps) simp_all

definition part_ok :: "'a part \<Rightarrow> bool" where
  "part_ok p \<longleftrightarrow> part_offset p \<le> length (part_data p) \<and> (available p = 0 \<longrightarrow> onConsumed p = None)"

definition writer_ok :: "options \<Rightarrow> 'a writer \<Rightarrow> bool" where
  "writer_ok opts w \<longleftrightarrow> list_all part_ok (pendingParts w) \<and> list_all part_ok (replayParts w) \<and>
     pendingBytes w = length (contents (pendingParts w)) \<and>
     replayBytes w = length (contents (replayParts w)) \<and> pendingBytes w \<le> maxPending opts \<and>
     (raf w = frameFallback w) \<and> \<not> (raf w \<and> microScheduled w) \<and>
     (0 < pendingBytes w \<longrightarrow> raf w \<or> microScheduled w) \<and>
     (writer_disposed w \<longrightarrow> pendingParts w = [] \<and> replayParts w = [] \<and> \<not> raf w \<and> \<not> microScheduled w \<and>
        \<not> needsRefresh w)"

text \<open>Shedding drops a prefix of the contents, sets the gap flag when it drops something, and never more acknowledgements than that.\<close>

lemma shed_loop_spec:
  assumes "shed_loop m ps n gap = (ps', n', gap')" "n = length (contents ps)" "list_all part_ok ps"
  shows "list_all part_ok ps' \<and> n' = length (contents ps') \<and> suffix (contents ps') (contents ps) \<and>
    (n' \<le> m \<or> (\<exists>p. ps' = [p])) \<and> (gap \<longrightarrow> gap') \<and> (\<not> gap' \<longrightarrow> ps' = ps)"
  using assms
proof (induction m ps n gap arbitrary: ps' n' gap' rule: shed_loop.induct)
  case (1 m p q ps n gap)
  show ?case
  proof (cases "m < n")
    case True
    have "list_all part_ok ps' \<and> n' = length (contents ps') \<and> suffix (contents ps') (contents (q # ps)) \<and>
        (n' \<le> m \<or> (\<exists>p. ps' = [p])) \<and> (True \<longrightarrow> gap') \<and> (\<not> gap' \<longrightarrow> ps' = q # ps)"
      by (rule 1(1) [OF True]) (use 1(2-) True in simp_all)
    then show ?thesis using suffix_appendI [of "contents ps'" "contents (q # ps)" "remaining p"] by auto
  next
    case False
    with 1(2-) show ?thesis by auto
  qed
qed auto

definition shed_result :: "options \<Rightarrow> 'a writer \<Rightarrow> 'a writer \<Rightarrow> bool" where
  "shed_result opts w w' \<longleftrightarrow> list_all part_ok (pendingParts w') \<and>
     pendingBytes w' = length (contents (pendingParts w')) \<and> pendingBytes w' \<le> maxPending opts \<and>
     suffix (contents (pendingParts w')) (contents (pendingParts w)) \<and>
     (gapDetected w \<longrightarrow> gapDetected w') \<and> (\<not> gapDetected w' \<longrightarrow> pendingParts w' = pendingParts w)"

lemma shedOldest_spec:
  assumes "list_all part_ok (pendingParts w)" "pendingBytes w = length (contents (pendingParts w))"
  shows "shed_result opts w (shedOldest opts w)"
proof -
  let ?m = "maxPending opts"
  obtain ps n gap where l: "shed_loop ?m (pendingParts w) (pendingBytes w) (gapDetected w) = (ps, n, gap)"
    by (metis prod_cases3)
  note s = shed_loop_spec [OF l assms(2,1)]
  show ?thesis
  proof (cases "\<exists>only. ps = [only] \<and> ?m < n")
    case True
    then obtain only where o: "ps = [only]" "?m < n" by blast
    let ?p = "only\<lparr>part_offset := part_offset only + (available only - ?m), onConsumed := None\<rparr>"
    have a: "available only = n" "part_ok only" using s o by simp_all
    have w': "shedOldest opts w = w\<lparr>pendingParts := [?p], pendingBytes := ?m, gapDetected := True\<rparr>"
      using l o by (simp add: shedOldest_def Let_def)
    have "available ?p = ?m" "part_ok ?p"
      using a o(2) by (auto simp: available_def part_ok_def)
    moreover have "remaining ?p = drop (available only - ?m) (remaining only)"
      by (simp add: remaining_def add.commute)
    then have "suffix (remaining ?p) (contents (pendingParts w))"
      using s o by (metis contents_simps(1,2) append_Nil2 suffix_drop suffix_order.trans)
    ultimately show ?thesis by (simp add: shed_result_def w')
  next
    case False
    then have "shedOldest opts w = w\<lparr>pendingParts := ps, pendingBytes := n, gapDetected := gap\<rparr>"
      using l by (auto simp: shedOldest_def Let_def split: list.splits)
    moreover have "n \<le> ?m" using False s by (cases ps) auto
    ultimately show ?thesis using s by (simp add: shed_result_def)
  qed
qed

lemma shedOldest_fields [simp]:
  "replayParts (shedOldest opts w) = replayParts w" "replayBytes (shedOldest opts w) = replayBytes w"
  "raf (shedOldest opts w) = raf w" "frameFallback (shedOldest opts w) = frameFallback w"
  "microScheduled (shedOldest opts w) = microScheduled w"
  "writer_disposed (shedOldest opts w) = writer_disposed w"
  "needsRefresh (shedOldest opts w) = needsRefresh w"
  by (auto simp: shedOldest_def Let_def split: prod.split list.split)

lemma take_drop_rest: "take c (drop n d) @ drop (n + c) d = drop n d"
  by (metis add.commute append_take_drop_id drop_drop)

lemma take_part: "take c (remaining p) @ remaining (p\<lparr>part_offset := part_offset p + c\<rparr>) = remaining p"
  by (simp add: remaining_def take_drop_rest)

text \<open>Taking splits the contents, and the acknowledgements as long as there is no gap.\<close>

lemma take_loop_spec:
  assumes "take_loop limit gap taken ps = (views, acks, rest, amount)" "list_all part_ok ps"
  shows "list_all part_ok rest \<and> concat views @ contents rest = contents ps \<and>
    amount = taken + length (concat views) \<and> (\<not> gap \<longrightarrow> acks @ acks_of rest = acks_of ps) \<and>
    (gap \<longrightarrow> acks = []) \<and> (limit = None \<longrightarrow> rest = []) \<and> (concat views = [] \<longrightarrow> acks = []) \<and>
    (case limit of None \<Rightarrow> True | Some n \<Rightarrow> taken \<le> n \<longrightarrow> amount \<le> n \<and> (amount = n \<or> rest = []))"
  using assms
proof (induction limit gap taken ps arbitrary: views acks rest amount rule: take_loop.induct)
  case (2 limit gap taken p ps)
  let ?go = "case limit of None \<Rightarrow> True | Some n \<Rightarrow> taken < n"
  let ?c = "case limit of None \<Rightarrow> available p | Some n \<Rightarrow> min (available p) (n - taken)"
  let ?v = "take ?c (drop (part_offset p) (part_data p))"
  have c: "?c \<le> available p" by (simp split: option.split)
  have v: "length ?v = ?c" using c by (simp add: available_def)
  have ok: "part_ok p" "list_all part_ok ps" using 2(3) by simp_all
  show ?case
  proof (cases ?go)
    case False
    with 2(2,3) show ?thesis by (auto split: option.splits)
  next
    case go: True
    show ?thesis
    proof (cases "part_offset p + ?c = length (part_data p)")
      case True
      obtain views' acks' rest' amount' where r:
        "take_loop limit gap (taken + ?c) ps = (views', acks', rest', amount')" by (metis prod_cases4)
      have e: "views = ?v # views'" "rest = rest'" "amount = amount'"
          "acks = (case onConsumed p of Some a \<Rightarrow> if gap then acks' else a # acks' | None \<Rightarrow> acks')"
        using 2(2) go True r by (simp_all add: Let_def)
      have vc: "?v = remaining p" "?c = available p"
        using True ok(1) c v by (simp_all add: remaining_def available_def part_ok_def)
      have IH: "list_all part_ok rest' \<and> concat views' @ contents rest' = contents ps \<and>
          amount' = taken + ?c + length (concat views') \<and> (\<not> gap \<longrightarrow> acks' @ acks_of rest' = acks_of ps) \<and>
          (gap \<longrightarrow> acks' = []) \<and> (limit = None \<longrightarrow> rest' = []) \<and> (concat views' = [] \<longrightarrow> acks' = []) \<and>
          (case limit of None \<Rightarrow> True | Some n \<Rightarrow> taken + ?c \<le> n \<longrightarrow> amount' \<le> n \<and> (amount' = n \<or> rest' = []))"
        by (rule 2(1) [OF go refl refl refl _ r ok(2)]) (use True in simp)
      have "limit = Some n \<Longrightarrow> taken + available p \<le> n" for n using go vc(2) by auto
      moreover have "onConsumed p = Some a \<Longrightarrow> remaining p \<noteq> []" for a
        using ok(1) by (auto simp: part_ok_def simp flip: remaining_length)
      moreover note IH [unfolded vc(2)]
      ultimately show ?thesis
        unfolding e vc(1) using ok by (cases limit; cases "onConsumed p"; cases gap) simp_all
    next
      case False
      then obtain n where lim: "limit = Some n" "?c = n - taken" "taken < n"
        using go ok(1) by (auto simp: available_def part_ok_def split: option.splits)
      let ?p = "p\<lparr>part_offset := part_offset p + ?c\<rparr>"
      have e: "views = [?v]" "rest = ?p # ps" "amount = taken + ?c" "acks = []"
        using 2(2) go False by (simp_all add: Let_def)
      have "?v @ remaining ?p = remaining p"
        using take_part [of ?c p] by (simp only: remaining_def)
      moreover have "part_ok ?p" using c ok(1) False by (auto simp: part_ok_def available_def)
      moreover have "acks_of (?p # ps) = acks_of (p # ps)" by simp
      moreover have "length ?v = n - taken" using v lim(2) by simp
      moreover have "case limit of None \<Rightarrow> True | Some n \<Rightarrow> taken \<le> n \<longrightarrow> amount \<le> n \<and> (amount = n \<or> rest = [])"
        using lim(1,3) unfolding e(3) lim(2) by simp
      ultimately show ?thesis
        using ok(2) lim(1) unfolding e lim(2) by (simp del: acks_of_simps)
    qed
  qed
qed (auto split: option.split)

section \<open>What the actions write\<close>

definition live_written :: "'a action list \<Rightarrow> byte list" where
  "live_written out = concat (map (\<lambda>a. case a of Write d (Some c) \<Rightarrow> d | _ \<Rightarrow> []) out)"

definition live_acks :: "'a action list \<Rightarrow> 'a list" where
  "live_acks out = concat (map (\<lambda>a. case a of Write d (Some c) \<Rightarrow> paint_acks c | _ \<Rightarrow> []) out)"

definition replay_written :: "'a action list \<Rightarrow> byte list" where
  "replay_written out = concat (map (\<lambda>a. case a of Write d None \<Rightarrow> d | Write_Replay ds c \<Rightarrow> concat ds | _ \<Rightarrow> []) out)"

lemmas written_defs = live_written_def live_acks_def replay_written_def

lemma written_append [simp]:
  "live_written (xs @ ys) = live_written xs @ live_written ys"
  "live_acks (xs @ ys) = live_acks xs @ live_acks ys"
  "replay_written (xs @ ys) = replay_written xs @ replay_written ys"
  by (simp_all add: written_defs)

lemma written_Nil [simp]: "live_written [] = []" "live_acks [] = []" "replay_written [] = []"
  by (simp_all add: written_defs)

lemma written_painted [simp]:
  "live_written (painted opts c w) = []" "live_acks (painted opts c w) = []" "replay_written (painted opts c w) = []"
  by (auto simp: painted_def written_defs comp_def)

lemma written_chunks:
  "live_written (concat (map (\<lambda>d. [Posted (length d), Write d None]) ds)) = []"
  "live_acks (concat (map (\<lambda>d. [Posted (length d), Write d None]) ds)) = []"
  "replay_written (concat (map (\<lambda>d. [Posted (length d), Write d None]) ds)) = concat ds"
  by (induction ds) (simp_all add: written_defs)

text \<open>A step on the live queue: its contents move to the output, in order; the replay queue likewise.\<close>

definition moves :: "'a writer \<Rightarrow> 'a writer \<Rightarrow> 'a action list \<Rightarrow> bool" where
  "moves w w' out \<longleftrightarrow>
     live_written out @ contents (pendingParts w') = contents (pendingParts w) \<and>
     replay_written out @ contents (replayParts w') = contents (replayParts w) \<and>
     (\<not> gapDetected w \<longrightarrow> live_acks out @ acks_of (pendingParts w') = acks_of (pendingParts w)) \<and>
     gapDetected w' = gapDetected w \<and> writer_disposed w' = writer_disposed w"

lemma moves_refl: "moves w w []"
  by (simp add: moves_def)

lemma moves_trans: "moves w w1 out1 \<Longrightarrow> moves w1 w2 out2 \<Longrightarrow> moves w w2 (out1 @ out2)"
  unfolding moves_def by (metis append.assoc written_append)

definition base_ok :: "options \<Rightarrow> 'a writer \<Rightarrow> bool" where
  "base_ok opts w \<longleftrightarrow> list_all part_ok (pendingParts w) \<and> list_all part_ok (replayParts w) \<and>
     pendingBytes w = length (contents (pendingParts w)) \<and>
     replayBytes w = length (contents (replayParts w)) \<and> pendingBytes w \<le> maxPending opts"

definition clock_ok :: "'a writer \<Rightarrow> bool" where
  "clock_ok w \<longleftrightarrow> raf w = frameFallback w \<and> \<not> (raf w \<and> microScheduled w) \<and>
     (writer_disposed w \<longrightarrow> pendingParts w = [] \<and> replayParts w = [] \<and> \<not> raf w \<and> \<not> microScheduled w \<and>
        \<not> needsRefresh w)"

lemma writer_ok_split:
  "writer_ok opts w \<longleftrightarrow> base_ok opts w \<and> clock_ok w \<and> (0 < pendingBytes w \<longrightarrow> raf w \<or> microScheduled w)"
  by (auto simp: writer_ok_def base_ok_def clock_ok_def)

lemma flushReplayNow_spec:
  assumes "flushReplayNow opts w = (w', out)" "base_ok opts w"
  shows "moves w w' out \<and> base_ok opts w' \<and> pendingParts w' = pendingParts w \<and>
    pendingBytes w' = pendingBytes w \<and> raf w' = raf w \<and> frameFallback w' = frameFallback w \<and>
    microScheduled w' = microScheduled w \<and> (needsRefresh w' \<longrightarrow> needsRefresh w) \<and>
    (writer_disposed w \<or> replayParts w' = []) \<and> (replayParts w = [] \<longrightarrow> w' = w)"
proof -
  have c: "concat (map (\<lambda>p. drop (part_offset p) (part_data p)) ps) = contents ps" for ps :: "'a part list"
  proof -
    have "(\<lambda>p. drop (part_offset p) (part_data p)) = (remaining :: 'a part \<Rightarrow> byte list)"
      by (rule ext) (simp add: remaining_def)
    then show ?thesis by (simp add: contents_def)
  qed
  have "live_written [Posted n, Write_Replay ds x] = []" "live_acks [Posted n, Write_Replay ds x] = []"
    "replay_written [Posted n, Write_Replay ds x] = concat ds" for n ds and x :: "'a paint"
    by (simp_all add: written_defs)
  with assms c show ?thesis
    by (auto simp: flushReplayNow_def Let_def moves_def base_ok_def written_chunks split: if_splits
        simp del: map_map)
qed

lemma scheduleNext_fields [simp]:
  "pendingParts (scheduleNext opts a w) = pendingParts w" "replayParts (scheduleNext opts a w) = replayParts w"
  "pendingBytes (scheduleNext opts a w) = pendingBytes w" "replayBytes (scheduleNext opts a w) = replayBytes w"
  "needsRefresh (scheduleNext opts a w) = needsRefresh w" "gapDetected (scheduleNext opts a w) = gapDetected w"
  "writer_disposed (scheduleNext opts a w) = writer_disposed w"
  by (simp_all add: scheduleNext_def scheduleRaf_def scheduleMicro_def)

lemma scheduleNext_ok:
  "clock_ok w \<Longrightarrow> clock_ok (scheduleNext opts a w) \<and>
     (\<not> writer_disposed w \<longrightarrow> raf (scheduleNext opts a w) \<or> microScheduled (scheduleNext opts a w))"
  by (auto simp: scheduleNext_def scheduleRaf_def scheduleMicro_def clock_ok_def)

lemma takePending_spec:
  assumes "takePending limit w = (w', data, acks)" "base_ok opts w"
  shows "base_ok opts w' \<and> data @ contents (pendingParts w') = contents (pendingParts w) \<and>
    (\<not> gapDetected w \<longrightarrow> acks @ acks_of (pendingParts w') = acks_of (pendingParts w)) \<and>
    (limit = None \<longrightarrow> pendingParts w' = []) \<and>
    (limit \<noteq> Some 0 \<and> 0 < pendingBytes w \<longrightarrow> data \<noteq> []) \<and> (data = [] \<longrightarrow> acks = []) \<and>
    replayParts w' = replayParts w \<and> replayBytes w' = replayBytes w \<and> needsRefresh w' = needsRefresh w \<and>
    raf w' = raf w \<and> frameFallback w' = frameFallback w \<and> microScheduled w' = microScheduled w \<and>
    writer_disposed w' = writer_disposed w \<and> gapDetected w' = gapDetected w"
proof (cases "pendingParts w = [] \<or> limit = Some 0")
  case True
  with assms show ?thesis by (auto simp: takePending_def base_ok_def)
next
  case False
  obtain views acks' rest taken where t:
    "take_loop limit (gapDetected w) 0 (pendingParts w) = (views, acks', rest, taken)" by (metis prod_cases4)
  have "list_all part_ok (pendingParts w)" using assms(2) by (simp add: base_ok_def)
  note s = take_loop_spec [OF t this]
  from False t assms(1) have w': "w' = w\<lparr>pendingParts := rest, pendingBytes := pendingBytes w - taken\<rparr>"
      "data = concat views" "acks = acks'"
    by (auto simp: takePending_def concatParts_def)
  have len: "pendingBytes w = length (concat views) + length (contents rest)"
    using s assms(2) unfolding base_ok_def by (metis length_append)
  have "data \<noteq> []" if "0 < pendingBytes w"
  proof
    assume "data = []"
    then have "taken = 0" "contents rest \<noteq> []" using s w'(2) len that by auto
    then show False using s False by (cases limit) auto
  qed
  moreover have "pendingBytes w - taken = length (contents rest)" using len s by simp
  moreover have "length (contents rest) \<le> maxPending opts" using len assms(2) by (simp add: base_ok_def)
  ultimately show ?thesis using s assms(2) unfolding base_ok_def w'
    by (simp del: length_greater_0_conv)
qed

text \<open>
  One flush. It keeps the accounts and moves contents to the output; with a limit that is not zero
  the clock runs on while bytes are pending, and without a limit nothing is left.
\<close>

lemma flushNow_spec:
  assumes f: "flushNow opts active u w = (w', out)" and b: "base_ok opts w" and c: "clock_ok w"
    and fallback: "raf w \<or> \<not> frameFallback w" "\<not> raf w"
  shows "moves w w' out \<and> base_ok opts w' \<and> clock_ok w' \<and>
    (u \<or> maxPerFlush opts \<noteq> Some 0 \<longrightarrow> 0 < pendingBytes w' \<longrightarrow> raf w' \<or> microScheduled w') \<and>
    (u \<longrightarrow> pendingBytes w' = 0 \<and> \<not> needsRefresh w')"
proof -
  obtain w1 out1 where r: "(if 0 < replayBytes w then flushReplayNow opts w else (w, [])) = (w1, out1)"
    by fastforce
  have w1: "moves w w1 out1 \<and> base_ok opts w1 \<and> clock_ok w1 \<and> \<not> raf w1 \<and> \<not> frameFallback w1 \<and> replayBytes w1 = 0"
  proof (cases "0 < replayBytes w")
    case True
    with r have "flushReplayNow opts w = (w1, out1)" by simp
    from flushReplayNow_spec [OF this b] c fallback show ?thesis
      using True b by (auto simp: clock_ok_def moves_def base_ok_def)
  next
    case False
    with r b c fallback show ?thesis by (auto simp: moves_refl clock_ok_def)
  qed
  let ?w = "w1\<lparr>raf := False, microScheduled := False\<rparr>"
  have w2: "moves w ?w out1 \<and> base_ok opts ?w \<and> clock_ok ?w"
    using w1 by (auto simp: moves_def base_ok_def clock_ok_def)
  show ?thesis
  proof (cases "writer_disposed ?w \<or> pendingBytes ?w = 0 \<and> \<not> needsRefresh ?w")
    case True
    then have "w' = (if pendingBytes ?w = 0 then ?w\<lparr>floodMode := False\<rparr> else ?w)" "out = out1"
      using f r w1 by (auto simp: flushNow_def Let_def split: if_splits)
    with w2 True show ?thesis by (auto simp: moves_def base_ok_def clock_ok_def)
  next
    case False
    let ?lim = "if u then None else maxPerFlush opts"
    obtain w3 data acks where t: "takePending ?lim ?w = (w3, data, acks)" by (metis prod_cases3)
    note s = takePending_spec [OF t conjunct1 [OF conjunct2 [OF w2]]]
    define w4 where "w4 = (if needsRefresh w3 \<and> pendingBytes w3 = 0 then w3\<lparr>needsRefresh := False\<rparr> else w3)"
    have w4: "base_ok opts w4" "clock_ok w4" "pendingParts w4 = pendingParts w3" "pendingBytes w4 = pendingBytes w3"
        "replayParts w4 = replayParts w1" "gapDetected w4 = gapDetected w1" "writer_disposed w4 = writer_disposed w1"
        "needsRefresh w4 = (needsRefresh w3 \<and> 0 < pendingBytes w3)"
      using s w2 False unfolding w4_def by (auto simp: base_ok_def clock_ok_def)
    have rb: "replayBytes w1 = 0" using w1 by simp
    have eq: "flushNow opts active u w =
        (if data = [] then
           (if pendingBytes w4 = 0 then w4\<lparr>floodMode := False\<rparr> else w4,
            out1 @ (if needsRefresh w3 \<and> pendingBytes w3 = 0 \<and> has_refresh opts then [Refresh_After_Paint] else []) @ [On_Painted])
         else
           (if 0 < pendingBytes w4 \<or> needsRefresh w4 then scheduleNext opts active w4 else w4\<lparr>floodMode := False\<rparr>,
            out1 @ [Posted (length data), Write data (Some \<lparr>paint_acks = acks,
              paint_refresh = (needsRefresh w3 \<and> pendingBytes w3 = 0)\<rparr>)]))"
      unfolding flushNow_def r Let_def prod.case w4_def using False
      by (simp only: rb less_irrefl if_False t prod.case length_0_conv conj_assoc)
    have u: "u \<Longrightarrow> pendingBytes w4 = 0" using s w4 by (simp add: base_ok_def)
    show ?thesis
    proof (cases "data = []")
      case True
      then have e: "w' = (if pendingBytes w4 = 0 then w4\<lparr>floodMode := False\<rparr> else w4)"
          "out = out1 @ (if needsRefresh w3 \<and> pendingBytes w3 = 0 \<and> has_refresh opts then [Refresh_After_Paint] else []) @ [On_Painted]"
        using f True unfolding eq by simp_all
      have "moves ?w w' ((if needsRefresh w3 \<and> pendingBytes w3 = 0 \<and> has_refresh opts then [Refresh_After_Paint] else []) @ [On_Painted])"
        using s w4 True unfolding e(1) moves_def by (auto simp: written_defs)
      then have "moves w w' out" unfolding e(2) by (rule moves_trans [OF conjunct1 [OF w2]])
      moreover have "pendingBytes w4 = pendingBytes w1"
        using s w4(4) True w2 unfolding base_ok_def by simp
      moreover have "u \<or> maxPerFlush opts \<noteq> Some 0 \<longrightarrow> pendingBytes w1 = 0"
        using s True by (cases u) (simp_all, blast?)
      ultimately show ?thesis
        using w4 u unfolding e by (auto simp: base_ok_def clock_ok_def)
    next
      case nonempty: False
      then have e: "w' = (if 0 < pendingBytes w4 \<or> needsRefresh w4 then scheduleNext opts active w4 else w4\<lparr>floodMode := False\<rparr>)"
          "out = out1 @ [Posted (length data), Write data (Some \<lparr>paint_acks = acks,
             paint_refresh = (needsRefresh w3 \<and> pendingBytes w3 = 0)\<rparr>)]"
        using f nonempty unfolding eq by simp_all
      have "moves ?w w' [Posted (length data), Write data (Some \<lparr>paint_acks = acks,
             paint_refresh = (needsRefresh w3 \<and> pendingBytes w3 = 0)\<rparr>)]"
        using s w4 unfolding e(1) moves_def by (simp add: written_defs)
      then have "moves w w' out" unfolding e(2) by (rule moves_trans [OF conjunct1 [OF w2]])
      moreover have "\<not> writer_disposed w4" using False w4 by simp
      ultimately show ?thesis
        using w4 u scheduleNext_ok [OF w4(2), of opts active] unfolding e by (auto simp: base_ok_def clock_ok_def)
    qed
  qed
qed

section \<open>Events\<close>

datatype 'a output_event =
    Enqueue_Output "byte list" "'a option"
  | Enqueue_Replay "byte list" "'a option"
  | Frame
  | Fallback
  | Micro
  | Flush
  | Painted "'a paint"
  | Discard
  | Dispose

text \<open>
  One event, with the answer of \<open>frameClockActive\<close> for it. A frame or fallback callback runs only
  while its handle is there; a microtask, once queued, runs in any case.
\<close>

inductive output_step ::
  "options \<Rightarrow> 'a writer \<Rightarrow> bool \<times> 'a output_event \<Rightarrow> 'a action list \<Rightarrow> 'a writer \<Rightarrow> bool" for opts where
  out_enqueue: "output_step opts w (a, Enqueue_Output d k) [] (enqueue_output opts a d k w)"
| out_replay: "output_step opts w (a, Enqueue_Replay d k) [] (enqueueReplay opts d k w)"
| out_frame: "raf w \<Longrightarrow> frame_callback opts a w = (w', out) \<Longrightarrow> output_step opts w (a, Frame) out w'"
| out_fallback: "frameFallback w \<Longrightarrow> fallback_callback opts a w = (w', out) \<Longrightarrow>
    output_step opts w (a, Fallback) out w'"
| out_micro: "micro_callback opts a w = (w', out) \<Longrightarrow> output_step opts w (a, Micro) out w'"
| out_flush: "flush_output opts a w = Some (w', out) \<Longrightarrow> output_step opts w (a, Flush) out w'"
| out_painted: "output_step opts w (a, Painted c) (painted opts c w) w"
| out_discard: "output_step opts w (a, Discard) [] (discardPending w)"
| out_dispose: "output_step opts w (a, Dispose) [] (dispose_writer w)"

inductive output_run ::
  "options \<Rightarrow> 'a writer \<Rightarrow> (bool \<times> 'a output_event) list \<Rightarrow> 'a action list \<Rightarrow> 'a writer \<Rightarrow> bool" for opts where
  out_Nil: "output_run opts w [] [] w"
| out_Cons: "output_step opts w e out w1 \<Longrightarrow> output_run opts w1 es outs w2 \<Longrightarrow>
    output_run opts w (e # es) (out @ outs) w2"

lemma flush_loop_spec:
  assumes b: "base_ok opts w" "clock_ok w" "\<not> raf w"
  shows "\<exists>w' out'. flush_loop opts a w out = Some (w', out @ out') \<and> moves w w' out' \<and> base_ok opts w' \<and>
    clock_ok w' \<and> pendingBytes w' = 0 \<and> \<not> needsRefresh w'"
proof (cases "0 < pendingBytes w \<or> needsRefresh w")
  case True
  obtain w' out' where f: "flushNow opts a True w = (w', out')" by fastforce
  have "\<not> frameFallback w" using b by (simp add: clock_ok_def)
  from flushNow_spec [OF f b(1,2) disjI2 [OF this] b(3)]
  have s: "moves w w' out'" "base_ok opts w'" "clock_ok w'" "pendingBytes w' = 0" "\<not> needsRefresh w'" by simp_all
  have "flush_loop opts a w out = flush_loop opts a w' (out @ out')"
    using True f by (subst flush_loop.simps) simp
  also have "\<dots> = Some (w', out @ out')" using s by (subst flush_loop.simps) simp
  finally show ?thesis using s by blast
next
  case False
  then have "flush_loop opts a w out = Some (w, out)" by (subst flush_loop.simps) simp
  with False b show ?thesis by (intro exI [of _ w] exI [of _ "[]"]) (simp add: moves_refl)
qed

lemma flush_output_spec:
  assumes "base_ok opts w" "clock_ok w"
  shows "\<exists>w' out. flush_output opts a w = Some (w', out) \<and> moves w w' out \<and> base_ok opts w' \<and> clock_ok w' \<and>
    pendingBytes w' = 0 \<and> replayBytes w' = 0 \<and> \<not> needsRefresh w'"
proof -
  let ?w = "w\<lparr>raf := False, frameFallback := False, microScheduled := False\<rparr>"
  obtain w1 out1 where r: "flushReplayNow opts ?w = (w1, out1)" by fastforce
  have b: "base_ok opts ?w" "clock_ok ?w" using assms by (auto simp: base_ok_def clock_ok_def)
  note s = flushReplayNow_spec [OF r b(1)]
  have c1: "clock_ok w1" "\<not> raf w1" using s b(2) by (auto simp: clock_ok_def moves_def)
  have "base_ok opts w1" "moves ?w w1 out1" using s by simp_all
  from flush_loop_spec [OF this(1) c1, of a out1]
  obtain w' out' where f: "flush_loop opts a w1 out1 = Some (w', out1 @ out')" "moves w1 w' out'" "base_ok opts w'"
      "clock_ok w'" "pendingBytes w' = 0" "\<not> needsRefresh w'"
    by (elim exE conjE)
  have "moves ?w w' (out1 @ out')" by (rule moves_trans [OF \<open>moves ?w w1 out1\<close> f(2)])
  then have m: "moves w w' (out1 @ out')" by (simp add: moves_def)
  have "contents (replayParts w1) = []"
    using s b(2) by (auto simp: clock_ok_def)
  then have "replayBytes w' = 0" using f(2,3) by (simp add: moves_def base_ok_def)
  with r f m show ?thesis by (simp add: flush_output_def)
qed

text \<open>
  C18: Flushing ends. In every state that satisfies the invariant, the loop of \<open>flush\<close> terminates,
  whatever the limits, and leaves neither live nor replay bytes nor a refresh pending.
\<close>

theorem flush_terminates:
  assumes "writer_ok opts w"
  shows "\<exists>w' out. flush_output opts active w = Some (w', out) \<and> writer_ok opts w' \<and>
    live_written out = contents (pendingParts w) \<and> replay_written out = contents (replayParts w) \<and>
    pendingBytes w' = 0 \<and> replayBytes w' = 0 \<and> \<not> needsRefresh w'"
proof -
  from assms have "base_ok opts w" "clock_ok w" by (simp_all add: writer_ok_split)
  from flush_output_spec [OF this, of active] obtain w' out where f: "flush_output opts active w = Some (w', out)"
      "moves w w' out" "base_ok opts w'" "clock_ok w'" "pendingBytes w' = 0" "replayBytes w' = 0" "\<not> needsRefresh w'"
    by blast
  then have "contents (pendingParts w') = []" "contents (replayParts w') = []" by (simp_all add: base_ok_def)
  with f show ?thesis by (auto simp: writer_ok_split moves_def)
qed

section \<open>The invariant and the stream\<close>

lemma markRefresh_fields [simp]:
  "pendingParts (markRefresh opts d w) = pendingParts w" "replayParts (markRefresh opts d w) = replayParts w"
  "pendingBytes (markRefresh opts d w) = pendingBytes w" "replayBytes (markRefresh opts d w) = replayBytes w"
  "raf (markRefresh opts d w) = raf w" "frameFallback (markRefresh opts d w) = frameFallback w"
  "microScheduled (markRefresh opts d w) = microScheduled w" "gapDetected (markRefresh opts d w) = gapDetected w"
  "writer_disposed (markRefresh opts d w) = writer_disposed w"
  by (simp_all add: markRefresh_def)

definition with_part :: "byte list \<Rightarrow> 'a option \<Rightarrow> 'a writer \<Rightarrow> 'a writer" where
  "with_part d k w =
     w\<lparr>pendingParts := pendingParts w @ [\<lparr>part_data = d, part_offset = 0, onConsumed = k\<rparr>],
       pendingBytes := pendingBytes w + length d\<rparr>"

lemma new_part: "part_ok \<lparr>part_data = d, part_offset = 0, onConsumed = k\<rparr> = (d = [] \<longrightarrow> k = None)"
  "remaining \<lparr>part_data = d, part_offset = 0, onConsumed = k\<rparr> = d"
  by (simp_all add: part_ok_def available_def remaining_def)

lemma enqueue_output_eq:
  "enqueue_output opts a d k w = (if writer_disposed w \<or> d = [] then w
     else scheduleNext opts a (markRefresh opts d (shedOldest opts (with_part d k w))))"
  by (simp add: enqueue_output_def with_part_def)

lemma with_part_shed:
  assumes "base_ok opts w" "d \<noteq> []"
  shows "shed_result opts (with_part d k w) (shedOldest opts (with_part d k w))"
  by (rule shedOldest_spec) (use assms in \<open>auto simp: with_part_def base_ok_def new_part\<close>)

lemma with_part_fields [simp]:
  "replayParts (with_part d k w) = replayParts w" "replayBytes (with_part d k w) = replayBytes w"
  "raf (with_part d k w) = raf w" "frameFallback (with_part d k w) = frameFallback w"
  "microScheduled (with_part d k w) = microScheduled w" "writer_disposed (with_part d k w) = writer_disposed w"
  "gapDetected (with_part d k w) = gapDetected w" "needsRefresh (with_part d k w) = needsRefresh w"
  by (simp_all add: with_part_def)

lemma enqueue_output_ok:
  assumes "writer_ok opts w"
  shows "writer_ok opts (enqueue_output opts a d k w)"
proof (cases "writer_disposed w \<or> d = []")
  case False
  let ?w = "markRefresh opts d (shedOldest opts (with_part d k w))"
  from assms have b: "base_ok opts w" "clock_ok w" by (simp_all add: writer_ok_split)
  have "base_ok opts ?w"
    using with_part_shed [OF b(1), of d k] False b(1) by (simp add: shed_result_def base_ok_def)
  moreover have "clock_ok ?w" using b(2) False by (simp add: clock_ok_def)
  ultimately show ?thesis
    using False scheduleNext_ok [OF \<open>clock_ok ?w\<close>, of opts a]
    by (simp add: enqueue_output_eq writer_ok_split) (simp add: base_ok_def)
qed (use assms in \<open>simp add: enqueue_output_eq\<close>)

lemma enqueueReplay_ok: "writer_ok opts w \<Longrightarrow> writer_ok opts (enqueueReplay opts d k w)"
  by (auto simp: enqueueReplay_def writer_ok_def new_part)

lemma callback_ok:
  assumes "writer_ok opts w" "maxPerFlush opts \<noteq> Some 0"
    and "flushNow opts a False (w\<lparr>raf := False, frameFallback := False, microScheduled := b\<rparr>) = (w', out)"
    and "b \<longrightarrow> microScheduled w"
  shows "writer_ok opts w' \<and> moves w w' out"
proof -
  let ?w = "w\<lparr>raf := False, frameFallback := False, microScheduled := b\<rparr>"
  have "base_ok opts ?w" "clock_ok ?w"
    using assms(1,4) by (auto simp: writer_ok_split base_ok_def clock_ok_def)
  from flushNow_spec [OF assms(3) this] assms(2) show ?thesis
    by (simp add: writer_ok_split moves_def)
qed

lemma frame_callback_ok:
  assumes "writer_ok opts w" "maxPerFlush opts \<noteq> Some 0" "frame_callback opts a w = (w', out)"
  shows "writer_ok opts w' \<and> moves w w' out"
proof (cases "raf w")
  case True
  have "w\<lparr>raf := False, frameFallback := False\<rparr> =
      w\<lparr>raf := False, frameFallback := False, microScheduled := microScheduled w\<rparr>" by simp
  with assms True show ?thesis
    by (intro callback_ok [OF assms(1,2), of a "microScheduled w"]) (simp_all add: frame_callback_def)
next
  case False
  with assms show ?thesis by (simp add: frame_callback_def moves_refl)
qed

lemma fallback_callback_ok:
  assumes "writer_ok opts w" "maxPerFlush opts \<noteq> Some 0" "fallback_callback opts a w = (w', out)" "frameFallback w"
  shows "writer_ok opts w' \<and> moves w w' out"
proof -
  have r: "raf w" using assms(1,4) by (simp add: writer_ok_def)
  have "w\<lparr>frameFallback := False, raf := False\<rparr> =
      w\<lparr>raf := False, frameFallback := False, microScheduled := microScheduled w\<rparr>" by simp
  with assms r show ?thesis
    by (intro callback_ok [OF assms(1,2), of a "microScheduled w"]) (simp_all add: fallback_callback_def Let_def)
qed

lemma micro_callback_ok:
  assumes "writer_ok opts w" "maxPerFlush opts \<noteq> Some 0" "micro_callback opts a w = (w', out)"
  shows "writer_ok opts w' \<and> moves w w' out"
proof (cases "\<not> microScheduled w \<or> writer_disposed w")
  case False
  then have "\<not> raf w" "\<not> frameFallback w" using assms(1) by (auto simp: writer_ok_def)
  then have "w\<lparr>microScheduled := False\<rparr> = w\<lparr>raf := False, frameFallback := False, microScheduled := False\<rparr>"
    by (cases w) simp
  with assms False \<open>\<not> raf w\<close> show ?thesis
    by (intro callback_ok [OF assms(1,2), of a False]) (simp_all add: micro_callback_def Let_def)
qed (use assms in \<open>auto simp: micro_callback_def moves_refl\<close>)

lemma output_step_ok:
  assumes "output_step opts w e out w'" "writer_ok opts w" "maxPerFlush opts \<noteq> Some 0"
  shows "writer_ok opts w'"
  using assms
proof (induction rule: output_step.induct)
  case (out_flush a w w' out)
  with flush_terminates [OF out_flush.prems(1), of a] show ?case by auto
next
  case (out_discard w a)
  then show ?case by (auto simp: discardPending_def writer_ok_def)
next
  case (out_dispose w a)
  then show ?case by (auto simp: dispose_writer_def writer_ok_def)
qed (auto simp: enqueue_output_ok enqueueReplay_ok dest: frame_callback_ok fallback_callback_ok micro_callback_ok)

lemma newWriter_ok: "writer_ok opts newWriter"
  by (simp add: writer_ok_def newWriter_def)

text \<open>
  C19: The output queue is bounded, exactly counted and never forgotten. In every state that a run
  of the writer reaches, the byte counters are the lengths of what is queued, at most
  \<open>maxPendingBytes\<close> are queued however much was enqueued, a frame has its fallback timer, and while
  bytes are queued a frame or a microtask is scheduled, unless the limit per flush is zero.
\<close>

theorem output_writer_invariant:
  assumes "output_run opts newWriter es out w" "maxPerFlush opts \<noteq> Some 0"
  shows "pendingBytes w = length (contents (pendingParts w)) \<and> pendingBytes w \<le> maxPending opts \<and>
    replayBytes w = length (contents (replayParts w)) \<and> raf w = frameFallback w \<and>
    (0 < pendingBytes w \<longrightarrow> raf w \<or> microScheduled w)"
proof -
  have "output_run opts w0 es out w \<Longrightarrow> writer_ok opts w0 \<Longrightarrow> writer_ok opts w" for w0
    by (induction rule: output_run.induct) (auto dest: output_step_ok [OF _ _ assms(2)])
  from this [OF assms(1) newWriter_ok] show ?thesis unfolding writer_ok_def by blast
qed

definition live_bytes :: "(bool \<times> 'a output_event) list \<Rightarrow> byte list" where
  "live_bytes es = concat (map (\<lambda>e. case snd e of Enqueue_Output d k \<Rightarrow> d | _ \<Rightarrow> []) es)"

definition replay_bytes :: "(bool \<times> 'a output_event) list \<Rightarrow> byte list" where
  "replay_bytes es = concat (map (\<lambda>e. case snd e of Enqueue_Replay d k \<Rightarrow> d | _ \<Rightarrow> []) es)"

text \<open>An empty chunk is ignored, and so is its acknowledgement.\<close>

definition expected_acks :: "(bool \<times> 'a output_event) list \<Rightarrow> 'a list" where
  "expected_acks es = concat (map (\<lambda>e. case snd e of Enqueue_Output d (Some k) \<Rightarrow> if d = [] then [] else [k] | _ \<Rightarrow> []) es)"

lemma stream_simps [simp]:
  "live_bytes [] = []" "replay_bytes [] = []" "expected_acks [] = []"
  "live_bytes (es @ es') = live_bytes es @ live_bytes es'"
  "replay_bytes (es @ es') = replay_bytes es @ replay_bytes es'"
  "expected_acks (es @ es') = expected_acks es @ expected_acks es'"
  by (simp_all add: live_bytes_def replay_bytes_def expected_acks_def)

text \<open>What a step or a run does to the stream.\<close>

definition streams ::
  "'a writer \<Rightarrow> (bool \<times> 'a output_event) list \<Rightarrow> 'a action list \<Rightarrow> 'a writer \<Rightarrow> bool" where
  "streams w es out w' \<longleftrightarrow>
     subseq (live_written out @ contents (pendingParts w')) (contents (pendingParts w) @ live_bytes es) \<and>
     replay_written out @ contents (replayParts w') = contents (replayParts w) @ replay_bytes es \<and>
     (gapDetected w \<longrightarrow> gapDetected w') \<and>
     (\<not> gapDetected w' \<longrightarrow>
        live_written out @ contents (pendingParts w') = contents (pendingParts w) @ live_bytes es \<and>
        live_acks out @ acks_of (pendingParts w') = acks_of (pendingParts w) @ expected_acks es) \<and>
     writer_disposed w' = writer_disposed w"

lemma streams_moves: "moves w w' out \<Longrightarrow> live_bytes es = [] \<Longrightarrow> replay_bytes es = [] \<Longrightarrow> expected_acks es = [] \<Longrightarrow>
    streams w es out w'"
  by (simp add: moves_def streams_def)

lemma streams_enqueue:
  assumes "writer_ok opts w" "\<not> writer_disposed w"
  shows "streams w [(a, Enqueue_Output d k)] [] (enqueue_output opts a d k w)"
proof (cases "d = []")
  case False
  from assms have b: "base_ok opts w" by (simp add: writer_ok_split)
  let ?p = "with_part d k w"
  have c: "contents (pendingParts ?p) = contents (pendingParts w) @ d"
    "acks_of (pendingParts ?p) = acks_of (pendingParts w) @ (case k of None \<Rightarrow> [] | Some x \<Rightarrow> [x])"
    by (simp_all add: with_part_def new_part split: option.split)
  have e: "live_bytes [(a, Enqueue_Output d k)] = d" "replay_bytes [(a, Enqueue_Output d k)] = []"
    "expected_acks [(a, Enqueue_Output d k)] = (case k of None \<Rightarrow> [] | Some x \<Rightarrow> [x])"
    using False by (simp_all add: live_bytes_def replay_bytes_def expected_acks_def split: option.split)
  note s = with_part_shed [OF b False, of k, unfolded shed_result_def]
  have "subseq (contents (pendingParts (shedOldest opts ?p))) (contents (pendingParts w) @ d)"
    using s c by (metis suffix_imp_subseq)
  with s c e assms(2) False show ?thesis
    by (auto simp: streams_def enqueue_output_eq)
next
  case True
  then show ?thesis
    by (simp add: streams_def enqueue_output_def live_bytes_def replay_bytes_def expected_acks_def split: option.split)
qed

lemma streams_replay:
  "\<not> writer_disposed w \<Longrightarrow> streams w [(a, Enqueue_Replay d k)] [] (enqueueReplay opts d k w)"
  by (auto simp: streams_def enqueueReplay_def live_bytes_def replay_bytes_def expected_acks_def new_part)

lemma output_step_streams:
  assumes "output_step opts w e out w'" "writer_ok opts w" "maxPerFlush opts \<noteq> Some 0"
    and "\<not> writer_disposed w" "snd e \<noteq> Discard" "snd e \<noteq> Dispose"
  shows "streams w [e] out w'"
  using assms
proof (induction rule: output_step.induct)
  case (out_enqueue w a d k)
  then show ?case by (intro streams_enqueue)
next
  case (out_replay w a d k)
  then show ?case by (intro streams_replay)
next
  case (out_frame w a w' out)
  then show ?case
    using frame_callback_ok [OF out_frame.prems(1,2) out_frame.hyps(2)]
    by (intro streams_moves) (simp_all add: live_bytes_def replay_bytes_def expected_acks_def)
next
  case (out_fallback w a w' out)
  then show ?case
    using fallback_callback_ok [OF out_fallback.prems(1,2) out_fallback.hyps(2,1)]
    by (intro streams_moves) (simp_all add: live_bytes_def replay_bytes_def expected_acks_def)
next
  case (out_micro a w w' out)
  then show ?case
    using micro_callback_ok [OF out_micro.prems(1,2) out_micro.hyps]
    by (intro streams_moves) (simp_all add: live_bytes_def replay_bytes_def expected_acks_def)
next
  case (out_flush a w w' out)
  then have "moves w w' out"
    using flush_output_spec [of opts w a] by (auto simp: writer_ok_split)
  then show ?case
    by (intro streams_moves) (simp_all add: live_bytes_def replay_bytes_def expected_acks_def)
next
  case (out_painted w a c)
  then show ?case
    by (intro streams_moves) (simp_all add: moves_def live_bytes_def replay_bytes_def expected_acks_def)
qed simp_all

lemma streams_trans:
  assumes "streams w es out w1" "streams w1 es' out' w2"
  shows "streams w (es @ es') (out @ out') w2"
proof -
  let ?C = "\<lambda>w. contents (pendingParts w)"
  have "subseq (live_written out @ live_written out' @ ?C w2) (live_written out @ ?C w1 @ live_bytes es')"
    by (rule list_emb_append_mono [OF subseq_order.order_refl]) (use assms(2) in \<open>unfold streams_def, blast\<close>)
  moreover have "subseq ((live_written out @ ?C w1) @ live_bytes es') ((?C w @ live_bytes es) @ live_bytes es')"
    using assms(1) by (simp add: streams_def del: append_assoc)
  ultimately have "subseq (live_written (out @ out') @ ?C w2) (?C w @ live_bytes (es @ es'))"
    by (simp add: subseq_order.trans)
  moreover have "replay_written (out @ out') @ contents (replayParts w2) = contents (replayParts w) @ replay_bytes (es @ es')"
    using assms by (simp add: streams_def)
  moreover have "live_written (out @ out') @ ?C w2 = ?C w @ live_bytes (es @ es') \<and>
      live_acks (out @ out') @ acks_of (pendingParts w2) = acks_of (pendingParts w) @ expected_acks (es @ es')"
    if "\<not> gapDetected w2"
    using assms that unfolding streams_def stream_simps written_append by (metis append.assoc)
  ultimately show ?thesis using assms by (simp add: streams_def)
qed

text \<open>
  C17: Output reaches the parser in order. In a run without discarding or disposing, the live bytes
  written so far followed by those still queued are a subsequence of the bytes enqueued, in order;
  as long as no gap was detected they are exactly the enqueued bytes, and the acknowledgements
  handed out followed by the outstanding ones are those of the enqueued chunks. Replay bytes are
  never shed.
\<close>

theorem output_stream:
  assumes "output_run opts newWriter es out w" "maxPerFlush opts \<noteq> Some 0"
    and "\<forall>e \<in> set es. snd e \<noteq> Discard \<and> snd e \<noteq> Dispose"
  shows "subseq (live_written out @ contents (pendingParts w)) (live_bytes es) \<and>
    replay_written out @ contents (replayParts w) = replay_bytes es \<and>
    (gapDetected w \<or> live_written out @ contents (pendingParts w) = live_bytes es \<and>
       live_acks out @ acks_of (pendingParts w) = expected_acks es)"
proof -
  have "output_run opts w0 es out w \<Longrightarrow> writer_ok opts w0 \<Longrightarrow> \<not> writer_disposed w0 \<Longrightarrow>
      \<forall>e \<in> set es. snd e \<noteq> Discard \<and> snd e \<noteq> Dispose \<Longrightarrow> streams w0 es out w" for w0
  proof (induction rule: output_run.induct)
    case (out_Nil w)
    show ?case by (simp add: streams_def)
  next
    case (out_Cons w e out w1 es outs w2)
    have s: "streams w [e] out w1"
      by (rule output_step_streams [OF out_Cons.hyps(1) out_Cons.prems(1) assms(2)]) (use out_Cons.prems in auto)
    have "streams w1 es outs w2"
      using out_Cons.IH out_Cons.prems output_step_ok [OF out_Cons.hyps(1) _ assms(2)] s
      by (simp add: streams_def)
    from streams_trans [OF s this] show ?case by simp
  qed
  from this [OF assms(1) newWriter_ok] assms(3) show ?thesis
    by (auto simp: streams_def newWriter_def)
qed

section \<open>Witnesses\<close>

definition small_options :: options where
  "small_options = options_with False True (Some 4) (Some 2) (Some 8)"

definition queued_writer :: "nat writer" where
  "queued_writer = enqueue_output small_options True [1, 2, 3] (Some 7) newWriter"

definition after_micro :: "nat writer" where
  "after_micro = queued_writer\<lparr>pendingParts := [\<lparr>part_data = [1, 2, 3], part_offset = 2, onConsumed = Some 7\<rparr>],
     pendingBytes := 1\<rparr>"

lemma queued_writer_eq: "queued_writer = newWriter\<lparr>
    pendingParts := [\<lparr>part_data = [1, 2, 3], part_offset = 0, onConsumed = Some 7\<rparr>],
    pendingBytes := 3, microScheduled := True\<rparr>"
  by (simp add: queued_writer_def small_options_def options_with_def enqueue_output_def shedOldest_def
      markRefresh_def containsSequence_def CURSOR_HIDE_def CURSOR_SHOW_def scheduleNext_def scheduleMicro_def
      newWriter_def)

lemma micro_eq: "micro_callback small_options True queued_writer =
    (after_micro, [Posted 2, Write [1, 2] (Some \<lparr>paint_acks = [], paint_refresh = False\<rparr>)])"
  by (simp add: after_micro_def queued_writer_eq micro_callback_def flushNow_def takePending_def available_def
      concatParts_def scheduleNext_def scheduleMicro_def small_options_def options_with_def newWriter_def)

lemma small_run: "output_run small_options newWriter [(True, Enqueue_Output [1, 2, 3] (Some 7)), (True, Micro)]
    [Posted 2, Write [1, 2] (Some \<lparr>paint_acks = [], paint_refresh = False\<rparr>)] after_micro"
  using out_Cons [OF out_enqueue out_Cons [OF out_micro [OF micro_eq [unfolded queued_writer_def]] out_Nil]]
  by simp

lemma output_writer_invariant_witness:
  "pendingBytes after_micro = length (contents (pendingParts after_micro)) \<and> pendingBytes after_micro \<le> 4 \<and>
     (raf after_micro \<or> microScheduled after_micro)"
  using output_writer_invariant [OF small_run]
  by (simp add: small_options_def options_with_def after_micro_def queued_writer_eq newWriter_def)

lemma output_stream_witness:
  "gapDetected after_micro \<or> [1, 2] @ contents (pendingParts after_micro) = [1, 2, 3]"
  using output_stream [OF small_run]
  by (auto simp: small_options_def options_with_def live_written_def live_bytes_def)

lemma flush_terminates_witness:
  "\<exists>w' out. flush_output small_options True after_micro = Some (w', out) \<and> pendingBytes w' = 0 \<and>
     live_written out = [3]"
proof -
  have "writer_ok small_options after_micro"
    by (simp add: writer_ok_def after_micro_def queued_writer_eq newWriter_def part_ok_def available_def
        remaining_def small_options_def options_with_def)
  from flush_terminates [OF this, of True] show ?thesis
    by (auto simp: after_micro_def remaining_def)
qed

end
