(* ===== verification/Viewport_Activity.thy ===== *)
theory Viewport_Activity
  imports Prelude
begin

text \<open>
  The activity policy of a terminal's viewport,
  \<^verbatim>\<open>packages/ghostty-react/src/viewport-activity.ts\<close>: whether the viewport follows the output
  (live), is scrolled back (inspecting) or held (paused), and how many rows were added below it
  since, as far as that can be told. The published activities are the output of an operation;
  the set of listeners is not modelled.
\<close>

datatype activity_mode = Live | Inspecting | Paused

record activity =
  activity_mode :: activity_mode
  unseenRows :: "int option"

record facts =
  viewportActive :: bool
  totalRows :: "jsnum option"
  viewportOffset :: "jsnum option"
  geometryGeneration :: int
  contentGeneration :: int
  alternateScreen :: bool

text \<open>The facts once their counts are normalized.\<close>

record known_facts =
  known_total :: "int option"
  known_offset :: "int option"
  known_geometry :: int
  known_content :: int

record policy =
  current_activity :: activity
  previousFacts :: "known_facts option"

definition LIVE_ACTIVITY :: activity where
  "LIVE_ACTIVITY = \<lparr>activity_mode = Live, unseenRows = Some 0\<rparr>"

definition normalizedCount :: "jsnum option \<Rightarrow> int option" where
  "normalizedCount v =
     (case v of None \<Rightarrow> None
      | Some x \<Rightarrow> if \<not> is_safe_integer x \<or> int_of x < 0 then None else Some (int_of x))"

definition saturatedAdd :: "int \<Rightarrow> int \<Rightarrow> int" where
  "saturatedAdd a b = min max_safe (a + b)"

definition newPolicy :: policy where
  "newPolicy = \<lparr>current_activity = LIVE_ACTIVITY, previousFacts = None\<rparr>"

definition publish_activity :: "activity \<Rightarrow> policy \<Rightarrow> policy \<times> activity list" where
  "publish_activity a p = (if current_activity p = a then (p, []) else (p\<lparr>current_activity := a\<rparr>, [a]))"

definition known :: "facts \<Rightarrow> known_facts" where
  "known f = \<lparr>known_total = normalizedCount (totalRows f), known_offset = normalizedCount (viewportOffset f),
     known_geometry = geometryGeneration f, known_content = contentGeneration f\<rparr>"

definition unknown_rows :: "policy \<Rightarrow> policy \<times> activity list" where
  "unknown_rows p = publish_activity ((current_activity p)\<lparr>unseenRows := None\<rparr>) p"

definition observe_facts :: "facts \<Rightarrow> policy \<Rightarrow> policy \<times> activity list" where
  "observe_facts f p =
     (let nf = known f;
          previous = previousFacts p;
          p = p\<lparr>previousFacts := Some nf\<rparr>
      in if alternateScreen f \<or> viewportActive f then publish_activity LIVE_ACTIVITY p
      else if activity_mode (current_activity p) = Live
        then publish_activity \<lparr>activity_mode = Inspecting, unseenRows = Some 0\<rparr> p
      else case previous of None \<Rightarrow> (p, [])
      | Some pf \<Rightarrow>
          if known_geometry nf \<noteq> known_geometry pf then unknown_rows p
          else case (known_total pf, known_total nf) of
            (Some pt, Some nt) \<Rightarrow>
              let appended = nt - pt in
              if 0 < appended then
                publish_activity ((current_activity p)\<lparr>unseenRows :=
                  (case unseenRows (current_activity p) of None \<Rightarrow> None
                   | Some u \<Rightarrow> Some (saturatedAdd u appended))\<rparr>) p
              else if appended < 0 then unknown_rows p
              else
                let changed = known_content nf \<noteq> known_content pf;
                    moved = (changed \<and> (case (known_offset nf, known_offset pf) of
                               (Some n, Some q) \<Rightarrow> n < q | _ \<Rightarrow> False));
                    at_floor = (changed \<and> known_offset nf = Some 0 \<and> known_offset pf = Some 0)
                in if moved \<or> at_floor then unknown_rows p else (p, [])
          | _ \<Rightarrow> if known_content nf \<noteq> known_content pf then unknown_rows p else (p, []))"

definition pause_activity :: "policy \<Rightarrow> policy \<times> activity list" where
  "pause_activity p =
     (if activity_mode (current_activity p) = Live then (p, [])
      else publish_activity ((current_activity p)\<lparr>activity_mode := Paused\<rparr>) p)"

definition resume_activity :: "policy \<Rightarrow> policy \<times> activity list" where
  "resume_activity p =
     (if activity_mode (current_activity p) \<noteq> Paused then (p, [])
      else publish_activity ((current_activity p)\<lparr>activity_mode := Inspecting\<rparr>) p)"

definition jumpToLive :: "policy \<Rightarrow> policy \<times> activity list" where
  "jumpToLive p = publish_activity LIVE_ACTIVITY p"

section \<open>Facts about publishing\<close>

lemma publish_current [simp]: "current_activity (fst (publish_activity a p)) = a"
  by (simp add: publish_activity_def)

lemma publish_facts [simp]: "previousFacts (fst (publish_activity a p)) = previousFacts p"
  by (simp add: publish_activity_def)

lemma normalizedCount_bounds: "normalizedCount v = Some n \<Longrightarrow> 0 \<le> n \<and> n \<le> max_safe"
  by (cases v; cases "the v") (auto simp: normalizedCount_def int_of_def split: if_splits)

text \<open>Live activities have seen every row; every known count is a safe natural number.\<close>

definition activity_ok :: "activity \<Rightarrow> bool" where
  "activity_ok a \<longleftrightarrow> (activity_mode a = Live \<longrightarrow> unseenRows a = Some 0) \<and>
     (\<forall>n. unseenRows a = Some n \<longrightarrow> 0 \<le> n \<and> n \<le> max_safe)"

lemma activity_ok_simps [simp]:
  "activity_ok LIVE_ACTIVITY" "activity_ok \<lparr>activity_mode = Inspecting, unseenRows = Some 0\<rparr>"
  "activity_ok a \<Longrightarrow> activity_mode a \<noteq> Live \<Longrightarrow> activity_ok (a\<lparr>unseenRows := None\<rparr>)"
  "activity_ok a \<Longrightarrow> activity_mode a \<noteq> Live \<Longrightarrow> m \<noteq> Live \<Longrightarrow> activity_ok (a\<lparr>activity_mode := m\<rparr>)"
  by (simp_all add: activity_ok_def LIVE_ACTIVITY_def max_safe_def)

datatype viewport_event = Observe facts | Pause | Resume | Jump_To_Live

fun viewport_step :: "viewport_event \<Rightarrow> policy \<Rightarrow> policy \<times> activity list" where
  "viewport_step (Observe f) p = observe_facts f p"
| "viewport_step Pause p = pause_activity p"
| "viewport_step Resume p = resume_activity p"
| "viewport_step Jump_To_Live p = jumpToLive p"

definition viewport_run :: "viewport_event list \<Rightarrow> policy \<Rightarrow> policy" where
  "viewport_run es p = fold (\<lambda>e p. fst (viewport_step e p)) es p"

lemma viewport_step_ok:
  assumes "activity_ok (current_activity p)"
  shows "activity_ok (current_activity (fst (viewport_step e p)))"
proof (cases e)
  case (Observe f)
  have "activity_ok (a\<lparr>unseenRows := (case unseenRows a of None \<Rightarrow> None | Some u \<Rightarrow> Some (saturatedAdd u n))\<rparr>)"
    if "0 < n" "activity_ok a" "activity_mode a \<noteq> Live" for n a
    using that by (auto simp: activity_ok_def saturatedAdd_def max_safe_def split: option.splits)
  with Observe assms show ?thesis
    by (auto simp: observe_facts_def Let_def unknown_rows_def split: option.split)
qed (use assms in \<open>auto simp: pause_activity_def resume_activity_def jumpToLive_def\<close>)

text \<open>
  In every reachable state a live viewport has no unseen rows, and a known count is a safe
  natural number.
\<close>

lemma viewport_run_ok: "activity_ok (current_activity p) \<Longrightarrow> activity_ok (current_activity (viewport_run es p))"
  by (induction es arbitrary: p) (simp_all add: viewport_run_def viewport_step_ok)

section \<open>The count is right whenever it is shown\<close>

text \<open>
  A scrolled-back episode: events between two live states, in which every observation is paired
  with the true number of rows of the terminal at that time. An observation may not know the
  number, but what it says is true, the geometry stays, and rows only come with new content.
\<close>

definition inspects :: "facts \<Rightarrow> int \<Rightarrow> bool" where
  "inspects f t \<longleftrightarrow> \<not> alternateScreen f \<and> \<not> viewportActive f \<and> normalizedCount (totalRows f) \<in> {None, Some t}"

fun episode :: "facts \<Rightarrow> int \<Rightarrow> (viewport_event \<times> int) list \<Rightarrow> bool" where
  "episode f t [] = True"
| "episode f t ((Observe g, u) # es) =
     (inspects g u \<and> geometryGeneration g = geometryGeneration f \<and>
      (contentGeneration g = contentGeneration f \<longrightarrow> u = t) \<and> episode g u es)"
| "episode f t ((Jump_To_Live, u) # es) = False"
| "episode f t ((e, u) # es) = episode f t es"

lemmas episode_induct = episode.induct [case_names none observe jump pause resume]

fun last_total :: "int \<Rightarrow> (viewport_event \<times> int) list \<Rightarrow> int" where
  "last_total t [] = t"
| "last_total t ((Observe g, u) # es) = last_total u es"
| "last_total t (e # es) = last_total t es"

definition counts_from :: "int \<Rightarrow> facts \<Rightarrow> int \<Rightarrow> policy \<Rightarrow> bool" where
  "counts_from t0 f t p \<longleftrightarrow> activity_mode (current_activity p) \<noteq> Live \<and> previousFacts p = Some (known f) \<and>
     normalizedCount (totalRows f) \<in> {None, Some t} \<and>
     (\<forall>u. unseenRows (current_activity p) = Some u \<longrightarrow> t0 \<le> t \<and> u = min max_safe (t - t0))"

lemma counts_observe:
  assumes p: "counts_from t0 f t p" and g: "inspects g u" "geometryGeneration g = geometryGeneration f"
    "contentGeneration g = contentGeneration f \<longrightarrow> u = t"
  shows "counts_from t0 g u (fst (observe_facts g p))"
proof -
  let ?p = "p\<lparr>previousFacts := Some (known g)\<rparr>"
  have m: "activity_mode (current_activity p) \<noteq> Live" and pf: "previousFacts p = Some (known f)"
    and t: "normalizedCount (totalRows f) \<in> {None, Some t}"
    and c: "\<And>v. unseenRows (current_activity p) = Some v \<Longrightarrow> t0 \<le> t \<and> v = min max_safe (t - t0)"
    using p by (auto simp: counts_from_def)
  have tg: "normalizedCount (totalRows g) \<in> {None, Some u}" and ng: "\<not> (alternateScreen g \<or> viewportActive g)"
    using g by (auto simp: inspects_def)
  have unknown: "counts_from t0 g u (fst (unknown_rows ?p))"
    using m tg by (simp add: counts_from_def unknown_rows_def)
  have same: "counts_from t0 g u ?p" if "u = t" using m tg c that by (auto simp: counts_from_def)
  show ?thesis
  proof (cases "contentGeneration g = contentGeneration f \<and>
      (normalizedCount (totalRows f) = None \<or> normalizedCount (totalRows g) = None)")
    case True
    then have "observe_facts g p = (?p, [])"
      using ng m pf g(2) by (auto simp: observe_facts_def Let_def known_def split: option.split)
    with same True g(3) show ?thesis by simp
  next
    case not_same: False
    show ?thesis
    proof (cases "normalizedCount (totalRows f) = None \<or> normalizedCount (totalRows g) = None")
      case True
      then have "observe_facts g p = unknown_rows ?p"
        using ng m pf g(2) not_same by (auto simp: observe_facts_def Let_def known_def split: option.split)
      with unknown show ?thesis by simp
    next
      case False
      then have k: "normalizedCount (totalRows f) = Some t" "normalizedCount (totalRows g) = Some u"
        using t tg by auto
      consider (more) "t < u" | (less) "u < t" | (equal) "u = t" by linarith
      then show ?thesis
      proof cases
        case more
        then have "fst (observe_facts g p) = fst (publish_activity ((current_activity p)\<lparr>unseenRows :=
            (case unseenRows (current_activity p) of None \<Rightarrow> None | Some v \<Rightarrow> Some (saturatedAdd v (u - t)))\<rparr>) ?p)"
          using ng m pf g(2) k by (simp add: observe_facts_def Let_def known_def)
        moreover have "t0 \<le> u \<and> w = min max_safe (u - t0)"
          if "(case unseenRows (current_activity p) of None \<Rightarrow> None | Some v \<Rightarrow> Some (saturatedAdd v (u - t))) = Some w" for w
          using that c more by (auto simp: saturatedAdd_def split: option.splits)
        ultimately show ?thesis using m k by (simp add: counts_from_def)
      next
        case less
        then have "observe_facts g p = unknown_rows ?p"
          using ng m pf g(2) k by (simp add: observe_facts_def Let_def known_def)
        with unknown show ?thesis by simp
      next
        case equal
        then have "observe_facts g p = unknown_rows ?p \<or> observe_facts g p = (?p, [])"
          using ng m pf g(2) k by (simp add: observe_facts_def Let_def known_def)
        with unknown same [OF equal] show ?thesis by auto
      qed
    qed
  qed
qed

lemma counts_run:
  assumes "counts_from t0 f t p" "episode f t es"
  shows "\<exists>g. counts_from t0 g (last_total t es) (viewport_run (map fst es) p)"
  using assms
proof (induction f t es arbitrary: p rule: episode_induct)
  case (none f t)
  then show ?case by (auto simp: viewport_run_def)
next
  case (observe f t g u es)
  from counts_observe [OF observe(2), of g u] observe(3) have "counts_from t0 g u (fst (observe_facts g p))" by simp
  from observe(1) [OF this] observe(3) show ?case by (simp add: viewport_run_def)
next
  case (pause f t u es)
  from pause(2) have "counts_from t0 f t (fst (pause_activity p))"
    by (auto simp: counts_from_def pause_activity_def)
  from pause(1) [OF this] pause(3) show ?case by (simp add: viewport_run_def)
next
  case (resume f t u es)
  from resume(2) have "counts_from t0 f t (fst (resume_activity p))"
    by (auto simp: counts_from_def resume_activity_def)
  from resume(1) [OF this] resume(3) show ?case by (simp add: viewport_run_def)
qed simp

text \<open>
  The number of unseen rows is right whenever it is shown. A viewport leaves the live state at
  an observation of a terminal with \<open>t\<close> rows; after any further observations, pauses and resumes
  with the same geometry, if the policy shows a number of unseen rows at all, it is the number of
  rows the terminal gained since, capped at the largest safe integer.
\<close>

theorem unseen_rows_exact:
  assumes "activity_mode (current_activity p) = Live" "inspects f t" "episode f t es"
    and "unseenRows (current_activity (viewport_run (Observe f # map fst es) p)) = Some n"
  shows "n = min max_safe (last_total t es - t) \<and> t \<le> last_total t es"
proof -
  let ?p = "fst (observe_facts f p)"
  have "0 \<le> max_safe" by (simp add: max_safe_def)
  then have "counts_from t f t ?p"
    using assms(1,2) by (auto simp: counts_from_def inspects_def observe_facts_def Let_def publish_activity_def)
  from counts_run [OF this assms(3)] assms(4) show ?thesis
    by (auto simp: counts_from_def viewport_run_def)
qed

section \<open>Witness\<close>

definition scrolled :: "int \<Rightarrow> int \<Rightarrow> facts" where
  "scrolled rows content = \<lparr>viewportActive = False, totalRows = Some (js_int rows), viewportOffset = Some (js_int 5),
     geometryGeneration = 1, contentGeneration = content, alternateScreen = False\<rparr>"

lemma unseen_rows_exact_witness:
  "unseenRows (current_activity (viewport_run [Observe (scrolled 100 1), Observe (scrolled 103 2), Pause,
     Observe (scrolled 110 3)] newPolicy)) = Some 10 \<and> (10::int) = min max_safe (110 - 100)"
proof
  show shown: "unseenRows (current_activity (viewport_run [Observe (scrolled 100 1), Observe (scrolled 103 2), Pause,
     Observe (scrolled 110 3)] newPolicy)) = Some 10"
    by (simp add: viewport_run_def observe_facts_def known_def scrolled_def normalizedCount_def max_safe_def
        newPolicy_def LIVE_ACTIVITY_def publish_activity_def pause_activity_def saturatedAdd_def)
  show "(10::int) = min max_safe (110 - 100)"
    using unseen_rows_exact [of newPolicy "scrolled 100 1" 100
        "[(Observe (scrolled 103 2), 103), (Pause, 0), (Observe (scrolled 110 3), 110)]" 10] shown
    by (simp add: inspects_def scrolled_def normalizedCount_def max_safe_def newPolicy_def LIVE_ACTIVITY_def)
qed

end
