(* ===== verification/Geometry_Coordinator.thy ===== *)
theory Geometry_Coordinator
  imports Prelude
begin

text \<open>
  From observed sizes to terminal grids,
  \<^verbatim>\<open>packages/ghostty-react/src/geometry/terminal-geometry-coordinator.ts\<close>: bursts of samples collapse
  to the latest one, at most one commit per display frame, each with a new generation. The frame
  handle is a truth value: the code only asks whether there is one, and a cancelled frame does not
  run. The calls of \<open>onCommit\<close> are the output of an operation.
\<close>

record sample =
  cssWidth :: jsnum
  cssHeight :: jsnum
  pixelRatio :: jsnum
  cellWidth :: jsnum
  cellHeight :: jsnum

record commit =
  commit_sample :: sample
  commit_generation :: nat
  commit_cols :: jsnum
  commit_rows :: jsnum

record coordinator =
  pending_sample :: "sample option"
  committed_sample :: "sample option"
  frame_requested :: bool
  geometry_generation :: nat
  coordinator_disposed :: bool

definition newCoordinator :: coordinator where
  "newCoordinator = \<lparr>pending_sample = None, committed_sample = None, frame_requested = False,
     geometry_generation = 0, coordinator_disposed = False\<rparr>"

definition finitePositive :: "jsnum \<Rightarrow> bool" where
  "finitePositive x \<longleftrightarrow> is_finite x \<and> js_less (Fin 0) x"

definition valid_sample :: "sample \<Rightarrow> bool" where
  "valid_sample s \<longleftrightarrow> finitePositive (cssWidth s) \<and> finitePositive (cssHeight s) \<and>
     finitePositive (pixelRatio s) \<and> finitePositive (cellWidth s) \<and> finitePositive (cellHeight s)"

definition sameSample :: "sample \<Rightarrow> sample \<Rightarrow> bool" where
  "sameSample a b \<longleftrightarrow> js_eq (cssWidth a) (cssWidth b) \<and> js_eq (cssHeight a) (cssHeight b) \<and>
     js_eq (pixelRatio a) (pixelRatio b) \<and> js_eq (cellWidth a) (cellWidth b) \<and>
     js_eq (cellHeight a) (cellHeight b)"

text \<open>\<open>Math.max\<close> and \<open>Math.floor\<close>.\<close>

definition js_max :: "jsnum \<Rightarrow> jsnum \<Rightarrow> jsnum" where
  "js_max a b = (if a = NaN \<or> b = NaN then NaN else if js_less a b then b else a)"

fun js_floor :: "jsnum \<Rightarrow> jsnum" where
  "js_floor (Fin q) = Fin (of_int \<lfloor>q\<rfloor>)"
| "js_floor x = x"

text \<open>\<open>Math.max(1, Math.floor(Math.max(0, size - padding * 2) / cell))\<close>.\<close>

definition grid_size :: "jsnum \<Rightarrow> jsnum \<Rightarrow> jsnum \<Rightarrow> jsnum" where
  "grid_size padding extent cell =
     js_max (Fin 1) (js_floor (js_div (js_max (Fin 0) (js_sub extent (js_mul padding (Fin 2)))) cell))"

definition flush_geometry :: "jsnum \<Rightarrow> coordinator \<Rightarrow> coordinator \<times> commit list \<times> bool" where
  "flush_geometry padding c =
     (let sample = pending_sample c;
          c = c\<lparr>pending_sample := None\<rparr>
      in case sample of None \<Rightarrow> (c, [], False)
      | Some s \<Rightarrow>
          if coordinator_disposed c then (c, [], False)
          else if (case committed_sample c of None \<Rightarrow> False | Some k \<Rightarrow> sameSample k s) then (c, [], False)
          else
            let g = geometry_generation c + 1;
                commit = \<lparr>commit_sample = s, commit_generation = g,
                  commit_cols = grid_size padding (cssWidth s) (cellWidth s),
                  commit_rows = grid_size padding (cssHeight s) (cellHeight s)\<rparr>
            in (c\<lparr>geometry_generation := g, committed_sample := Some s\<rparr>, [commit], True))"

definition observe_sample :: "sample \<Rightarrow> coordinator \<Rightarrow> coordinator \<times> bool" where
  "observe_sample s c =
     (if coordinator_disposed c \<or> \<not> valid_sample s then (c, False)
      else if (case pending_sample c of None \<Rightarrow> False | Some p \<Rightarrow> sameSample p s) then (c, False)
      else if pending_sample c = None \<and>
              (case committed_sample c of None \<Rightarrow> False | Some k \<Rightarrow> sameSample k s) then (c, False)
      else (c\<lparr>pending_sample := Some s, frame_requested := True\<rparr>, True))"

definition commitNow :: "jsnum \<Rightarrow> sample \<Rightarrow> coordinator \<Rightarrow> coordinator \<times> commit list \<times> bool" where
  "commitNow padding s c =
     (if coordinator_disposed c \<or> \<not> valid_sample s then (c, [], False)
      else flush_geometry padding (c\<lparr>pending_sample := Some s, frame_requested := False\<rparr>))"

text \<open>The callback of the requested frame.\<close>

definition geometry_frame :: "jsnum \<Rightarrow> coordinator \<Rightarrow> coordinator \<times> commit list" where
  "geometry_frame padding c =
     (let (c, out, _) = flush_geometry padding (c\<lparr>frame_requested := False\<rparr>) in (c, out))"

definition dispose_geometry :: "coordinator \<Rightarrow> coordinator" where
  "dispose_geometry c =
     (if coordinator_disposed c then c
      else c\<lparr>coordinator_disposed := True, pending_sample := None, frame_requested := False\<rparr>)"

section \<open>Runs\<close>

datatype geometry_event = Observe_Sample sample | Commit_Now sample | Geometry_Frame | Geometry_Flush | Geometry_Dispose

inductive geometry_step ::
  "jsnum \<Rightarrow> coordinator \<Rightarrow> geometry_event \<Rightarrow> commit list \<Rightarrow> coordinator \<Rightarrow> bool" for padding where
  geo_observe: "geometry_step padding c (Observe_Sample s) [] (fst (observe_sample s c))"
| geo_commit: "commitNow padding s c = (c', out, r) \<Longrightarrow> geometry_step padding c (Commit_Now s) out c'"
| geo_frame: "frame_requested c \<Longrightarrow> geometry_frame padding c = (c', out) \<Longrightarrow>
    geometry_step padding c Geometry_Frame out c'"
| geo_flush: "flush_geometry padding c = (c', out, r) \<Longrightarrow> geometry_step padding c Geometry_Flush out c'"
| geo_dispose: "geometry_step padding c Geometry_Dispose [] (dispose_geometry c)"

inductive geometry_run ::
  "jsnum \<Rightarrow> coordinator \<Rightarrow> geometry_event list \<Rightarrow> commit list \<Rightarrow> coordinator \<Rightarrow> bool" for padding where
  geo_Nil: "geometry_run padding c [] [] c"
| geo_Cons: "geometry_step padding c e out c1 \<Longrightarrow> geometry_run padding c1 es outs c2 \<Longrightarrow>
    geometry_run padding c (e # es) (out @ outs) c2"

text \<open>
  A grid that fits: the largest number of whole cells between the paddings, and at least one, as
  long as sizes and padding are not astronomic.
\<close>

definition fits_grid :: "jsnum \<Rightarrow> jsnum \<Rightarrow> jsnum \<Rightarrow> jsnum \<Rightarrow> bool" where
  "fits_grid padding extent cell n \<longleftrightarrow>
     (\<forall>p a c. padding = Fin p \<longrightarrow> 0 \<le> p \<longrightarrow> p \<le> 10 ^ 100 \<longrightarrow> extent = Fin a \<longrightarrow> a \<le> 10 ^ 100 \<longrightarrow>
        cell = Fin c \<longrightarrow> is_finite n \<longrightarrow>
        (\<exists>k::int. n = Fin (of_int k) \<and> 1 \<le> k \<and> (k = 1 \<or> of_int k * c \<le> a - 2 * p) \<and>
          a - 2 * p < of_int (k + 1) * c))"

definition commit_ok :: "jsnum \<Rightarrow> commit \<Rightarrow> bool" where
  "commit_ok padding k \<longleftrightarrow> valid_sample (commit_sample k) \<and>
     fits_grid padding (cssWidth (commit_sample k)) (cellWidth (commit_sample k)) (commit_cols k) \<and>
     fits_grid padding (cssHeight (commit_sample k)) (cellHeight (commit_sample k)) (commit_rows k)"

text \<open>Commits are numbered from \<open>g + 1\<close>, and each differs from the one before it.\<close>

fun commits_from :: "jsnum \<Rightarrow> nat \<Rightarrow> sample option \<Rightarrow> commit list \<Rightarrow> bool" where
  "commits_from padding g s [] = True"
| "commits_from padding g s (k # ks) =
     (commit_generation k = g + 1 \<and> commit_ok padding k \<and>
      (case s of None \<Rightarrow> True | Some x \<Rightarrow> \<not> sameSample x (commit_sample k)) \<and>
      commits_from padding (g + 1) (Some (commit_sample k)) ks)"

lemma finitePositive_iff: "finitePositive x \<longleftrightarrow> (\<exists>q. x = Fin q \<and> 0 < q)"
  by (cases x) (auto simp: finitePositive_def)

lemma js_max_int: "js_max (Fin 1) (Fin (of_int i)) = Fin (of_int (max 1 i))"
  by (auto simp: js_max_def max_def)

lemma grid_size_fits:
  assumes "finitePositive extent" "finitePositive cell"
  shows "fits_grid padding extent cell (grid_size padding extent cell)"
  unfolding fits_grid_def
proof (intro allI impI)
  fix p a c
  assume p: "padding = Fin p" "0 \<le> p" "p \<le> 10 ^ 100" and a: "extent = Fin a" "a \<le> 10 ^ 100"
    and c: "cell = Fin c" and fin: "is_finite (grid_size padding extent cell)"
  have a0: "0 < a" and c0: "0 < c" using assms a c by (auto simp: finitePositive_iff)
  have big: "(10::rat) ^ 100 * 4 \<le> 10 ^ 300" by simp
  have "js_fin (p * 2) = Fin (p * 2)" by (rule js_fin_small) (use p big in linarith)
  moreover have "js_fin (a + - (p * 2)) = Fin (a + - (p * 2))"
    by (rule js_fin_small) (use p a a0 big in linarith)
  ultimately have w: "js_sub extent (js_mul padding (Fin 2)) = Fin (a - 2 * p)"
    by (simp add: js_sub_def p a algebra_simps)
  define w where "w = max 0 (a - 2 * p)"
  have m: "js_max (Fin 0) (Fin (a - 2 * p)) = Fin w" by (auto simp: js_max_def w_def)
  have g: "grid_size padding extent cell = js_max (Fin 1) (js_floor (js_fin (w / c)))"
    using c0 by (simp add: grid_size_def w m c)
  have f: "js_fin (w / c) = Fin (w / c)"
  proof (rule ccontr)
    assume no: "js_fin (w / c) \<noteq> Fin (w / c)"
    have "0 \<le> w / c" using c0 by (simp add: w_def)
    then have "\<not> w / c \<le> - overflow_limit" by (simp add: overflow_limit_def)
    with no have "js_fin (w / c) = PosInf" by (metis js_fin_def)
    with fin show False by (simp add: g js_max_def)
  qed
  let ?k = "max 1 \<lfloor>w / c\<rfloor>"
  have "grid_size padding extent cell = Fin (of_int ?k)"
    by (simp only: g f js_floor.simps js_max_int)
  moreover have "?k = 1 \<or> of_int ?k * c \<le> a - 2 * p"
  proof (cases "1 \<le> \<lfloor>w / c\<rfloor>")
    case True
    then have "of_int \<lfloor>w / c\<rfloor> * c \<le> w" using c0 by (simp add: pos_le_divide_eq [symmetric])
    moreover have "0 < w" using True c0 by (metis div_0 floor_zero less_le not_one_le_zero w_def max.cobounded1)
    ultimately show ?thesis using True by (simp add: w_def split: if_splits)
  qed simp
  moreover have "a - 2 * p < of_int (?k + 1) * c"
  proof -
    have "w / c < of_int (\<lfloor>w / c\<rfloor> + 1)" by linarith
    also have "\<dots> \<le> of_int (?k + 1)" by simp
    finally have "w < of_int (?k + 1) * c" using c0 by (simp add: pos_divide_less_eq)
    then show ?thesis by (simp add: w_def)
  qed
  ultimately show "\<exists>k::int. grid_size padding extent cell = Fin (of_int k) \<and> 1 \<le> k \<and>
      (k = 1 \<or> of_int k * c \<le> a - 2 * p) \<and> a - 2 * p < of_int (k + 1) * c"
    by (intro exI [of _ ?k]) simp
qed

section \<open>Invariant\<close>

definition coordinator_ok :: "coordinator \<Rightarrow> bool" where
  "coordinator_ok c \<longleftrightarrow> (\<forall>s. pending_sample c = Some s \<longrightarrow> valid_sample s) \<and>
     (pending_sample c \<noteq> None \<longrightarrow> frame_requested c) \<and>
     (coordinator_disposed c \<longrightarrow> pending_sample c = None \<and> \<not> frame_requested c)"

lemma flush_geometry_spec:
  assumes "flush_geometry padding c = (c', out, r)" "\<forall>s. pending_sample c = Some s \<longrightarrow> valid_sample s"
  shows "pending_sample c' = None \<and> frame_requested c' = frame_requested c \<and>
    coordinator_disposed c' = coordinator_disposed c \<and>
    commits_from padding (geometry_generation c) (committed_sample c) out \<and>
    geometry_generation c' = geometry_generation c + length out \<and>
    committed_sample c' = (if out = [] then committed_sample c else Some (commit_sample (last out))) \<and>
    (r \<longleftrightarrow> out \<noteq> [])"
  using assms
  by (auto simp: flush_geometry_def Let_def commit_ok_def grid_size_fits valid_sample_def split: option.splits if_splits)

lemma commits_append:
  "commits_from padding g s (ks @ ks') \<longleftrightarrow> commits_from padding g s ks \<and>
     commits_from padding (g + length ks) (if ks = [] then s else Some (commit_sample (last ks))) ks'"
  by (induction ks arbitrary: g s) auto

definition geo_effect :: "jsnum \<Rightarrow> coordinator \<Rightarrow> commit list \<Rightarrow> coordinator \<Rightarrow> bool" where
  "geo_effect padding c out c' \<longleftrightarrow> coordinator_ok c' \<and>
     commits_from padding (geometry_generation c) (committed_sample c) out \<and>
     geometry_generation c' = geometry_generation c + length out \<and>
     committed_sample c' = (if out = [] then committed_sample c else Some (commit_sample (last out)))"

lemma geometry_step_effect:
  assumes "geometry_step padding c e out c'" "coordinator_ok c"
  shows "geo_effect padding c out c'"
  using assms
proof (induction rule: geometry_step.induct)
  case (geo_observe c s)
  then show ?case by (auto simp: geo_effect_def observe_sample_def coordinator_ok_def)
next
  case (geo_commit s c c' out r)
  show ?case
  proof (cases "coordinator_disposed c \<or> \<not> valid_sample s")
    case True
    with geo_commit show ?thesis by (auto simp: commitNow_def geo_effect_def)
  next
    case False
    then have f: "flush_geometry padding (c\<lparr>pending_sample := Some s, frame_requested := False\<rparr>) = (c', out, r)"
      using geo_commit.hyps by (simp add: commitNow_def)
    from flush_geometry_spec [OF f] False show ?thesis by (auto simp: geo_effect_def coordinator_ok_def)
  qed
next
  case (geo_frame c c' out)
  obtain r where f: "flush_geometry padding (c\<lparr>frame_requested := False\<rparr>) = (c', out, r)"
    using geo_frame.hyps(2) by (auto simp: geometry_frame_def Let_def split: prod.splits)
  from flush_geometry_spec [OF f] geo_frame.prems show ?case by (auto simp: geo_effect_def coordinator_ok_def)
next
  case (geo_flush c c' out r)
  from flush_geometry_spec [OF geo_flush.hyps] geo_flush.prems show ?case
    by (auto simp: geo_effect_def coordinator_ok_def)
next
  case (geo_dispose c)
  then show ?case by (auto simp: geo_effect_def dispose_geometry_def coordinator_ok_def)
qed

text \<open>
  Geometry commits. Over any run of the coordinator the commits are numbered 1, 2, 3 and so on;
  each is of a valid sample different from the one before; its columns and rows are the largest
  grid that fits between the paddings, and at least one; and a sample that waits always has its
  frame requested.
\<close>

theorem geometry_commits:
  assumes "geometry_run padding newCoordinator es out c"
  shows "commits_from padding 0 None out \<and> geometry_generation c = length out \<and>
    (pending_sample c \<noteq> None \<longrightarrow> frame_requested c)"
proof -
  have "geometry_run padding c0 es out c \<Longrightarrow> coordinator_ok c0 \<Longrightarrow> geo_effect padding c0 out c" for c0
  proof (induction rule: geometry_run.induct)
    case (geo_Nil c)
    then show ?case by (simp add: geo_effect_def)
  next
    case (geo_Cons c e out c1 es outs c2)
    from geometry_step_effect [OF geo_Cons.hyps(1) geo_Cons.prems]
    show ?case using geo_Cons.IH by (auto simp: geo_effect_def commits_append)
  qed
  from this [OF assms] have "geo_effect padding newCoordinator out c"
    by (simp add: coordinator_ok_def newCoordinator_def)
  then show ?thesis by (simp add: geo_effect_def newCoordinator_def coordinator_ok_def)
qed

section \<open>Witness\<close>

definition a_sample :: sample where
  "a_sample = \<lparr>cssWidth = Fin 96, cssHeight = Fin 40, pixelRatio = Fin 2, cellWidth = Fin 8, cellHeight = Fin 16\<rparr>"

lemma geometry_commits_witness:
  "\<exists>out c. geometry_run (Fin 4) newCoordinator [Observe_Sample a_sample, Geometry_Frame] out c \<and>
     map commit_cols out = [Fin 11] \<and> commits_from (Fin 4) 0 None out"
proof -
  let ?c1 = "fst (observe_sample a_sample newCoordinator)"
  let ?r = "geometry_frame (Fin 4) ?c1"
  have f: "frame_requested ?c1"
    by (simp add: observe_sample_def newCoordinator_def valid_sample_def finitePositive_def a_sample_def)
  have "geometry_run (Fin 4) newCoordinator [Observe_Sample a_sample, Geometry_Frame] ([] @ snd ?r @ []) (fst ?r)"
    by (rule geo_Cons [OF geo_observe geo_Cons [OF geo_frame [OF f prod.collapse [symmetric]] geo_Nil]])
  then have run: "geometry_run (Fin 4) newCoordinator [Observe_Sample a_sample, Geometry_Frame] (snd ?r) (fst ?r)"
    by simp
  have "map commit_cols (snd ?r) = [Fin 11]"
    by (simp add: geometry_frame_def observe_sample_def newCoordinator_def valid_sample_def finitePositive_def
        a_sample_def flush_geometry_def grid_size_def js_max_def js_sub_def jsnum_simps)
  with run geometry_commits [OF run] show ?thesis
    by (intro exI [of _ "snd ?r"] exI [of _ "fst ?r"]) simp
qed

end
