(* ===== verification/Focus_History.thy ===== *)
theory Focus_History
  imports Mux_Types
begin

text \<open>
  The history of focused terminals, \<^verbatim>\<open>packages/yaade-app/src/mux/terminal-focus-history.ts\<close>: a
  most-recently-used list that is bounded in entries and in the bytes of its JSON text, is saved
  in the browser's session storage, and orders the terminals a switcher offers.

  \<^item> A string is a list of characters below 256; its UTF-8 length counts two bytes from 128 on.
  \<^item> \<open>JSON.stringify\<close> of a profile is written out, with the escapes of its strings; a generation
    is a natural number in decimal notation (JavaScript switches to an exponent at \<open>10^21\<close>,
    where integers are not exact either).
  \<^item> The schema library's decoders, which parse JSON text and check it, are the parameters
    \<open>decodeHistory\<close> and \<open>decodeVersion\<close>; \<open>None\<close> is their \<open>Option.none\<close>. The schema's own checks
    are the predicate \<open>TerminalFocusIdentitySchema\<close>.
  \<^item> Session storage is a map of items that may deny reading and may refuse a value. \<open>None\<close> is an
    exception.
\<close>

section \<open>Identities\<close>

record focus_identity =
  fi_serverId :: string
  fi_sessionId :: session_id
  fi_tabId :: tab_id
  fi_terminalId :: terminal_id
  fi_generation :: nat

definition TERMINAL_FOCUS_HISTORY_VERSION :: nat where
  "TERMINAL_FOCUS_HISTORY_VERSION = 1"

definition MAX_TERMINAL_FOCUS_ENTRIES :: nat where
  "MAX_TERMINAL_FOCUS_ENTRIES = 128"

definition MAX_TERMINAL_FOCUS_BYTES :: nat where
  "MAX_TERMINAL_FOCUS_BYTES = 32 * 1024"

definition ServerId :: "string \<Rightarrow> bool" where
  "ServerId s \<longleftrightarrow> length s \<le> 48 \<and> s \<noteq> [] \<and> list_all id_char s"

definition SessionResourceId :: "string \<Rightarrow> bool" where
  "SessionResourceId s \<longleftrightarrow> length s \<le> 256 \<and> matches_prefix ''ses-'' s"

definition TabResourceId :: "string \<Rightarrow> bool" where
  "TabResourceId s \<longleftrightarrow> length s \<le> 256 \<and> matches_prefix ''tab-'' s"

definition TerminalResourceId :: "string \<Rightarrow> bool" where
  "TerminalResourceId s \<longleftrightarrow> length s \<le> 256 \<and> matches_prefix ''term-'' s"

text \<open>A generation is a natural number already.\<close>

definition TerminalFocusIdentitySchema :: "focus_identity \<Rightarrow> bool" where
  "TerminalFocusIdentitySchema i \<longleftrightarrow>
     ServerId (fi_serverId i) \<and> SessionResourceId (fi_sessionId i) \<and>
     TabResourceId (fi_tabId i) \<and> TerminalResourceId (fi_terminalId i)"

definition unit_separator :: char where
  "unit_separator = char_of (31 :: nat)"

text \<open>\<open>[a, b, ...].join(separator)\<close>.\<close>

fun join_with :: "string \<Rightarrow> string list \<Rightarrow> string" where
  "join_with d [] = []"
| "join_with d [w] = w"
| "join_with d (w # v # ws) = w @ d @ join_with d (v # ws)"

definition terminalFocusIdentityKey :: "focus_identity \<Rightarrow> string" where
  "terminalFocusIdentityKey i = join_with [unit_separator]
     [fi_serverId i, fi_sessionId i, fi_tabId i, fi_terminalId i, decimal (fi_generation i)]"

abbreviation identity_keys :: "focus_identity list \<Rightarrow> string list" where
  "identity_keys es \<equiv> map terminalFocusIdentityKey es"

section \<open>The profile and its size\<close>

record focus_profile =
  fp_version :: nat
  fp_entries :: "focus_identity list"

definition hex_digit :: "nat \<Rightarrow> char" where
  "hex_digit n = char_of (if n < 10 then 48 + n else 87 + n)"

text \<open>A character inside a JSON string.\<close>

definition json_char :: "char \<Rightarrow> string" where
  "json_char c = (let n = (of_char c :: nat); bs = char_of (92 :: nat) in
     if n = 34 \<or> n = 92 then [bs, c]
     else if n = 8 then [bs, CHR ''b''] else if n = 12 then [bs, CHR ''f'']
     else if n = 10 then [bs, CHR ''n''] else if n = 13 then [bs, CHR ''r'']
     else if n = 9 then [bs, CHR ''t'']
     else if n < 32 then [bs] @ ''u00'' @ [hex_digit (n div 16), hex_digit (n mod 16)]
     else [c])"

definition json_string :: "string \<Rightarrow> string" where
  "json_string s = [CHR ''\"''] @ concat (map json_char s) @ [CHR ''\"'']"

definition json_field :: "string \<Rightarrow> string \<Rightarrow> string" where
  "json_field name v = json_string name @ '':'' @ v"

definition identity_json :: "focus_identity \<Rightarrow> string" where
  "identity_json i = ''{'' @ join_with '',''
     [json_field ''serverId'' (json_string (fi_serverId i)),
      json_field ''sessionId'' (json_string (fi_sessionId i)),
      json_field ''tabId'' (json_string (fi_tabId i)),
      json_field ''terminalId'' (json_string (fi_terminalId i)),
      json_field ''generation'' (decimal (fi_generation i))] @ ''}''"

definition profile_json :: "focus_profile \<Rightarrow> string" where
  "profile_json p = ''{'' @ join_with '',''
     [json_field ''version'' (decimal (fp_version p)),
      json_field ''entries'' (''['' @ join_with '','' (map identity_json (fp_entries p)) @ '']'')] @ ''}''"

definition utf8_length :: "string \<Rightarrow> nat" where
  "utf8_length s = sum_list (map (\<lambda>c. if (of_char c :: nat) < 128 then 1 else 2) s)"

definition profileBytes :: "focus_identity list \<Rightarrow> nat" where
  "profileBytes es = utf8_length (profile_json
     \<lparr>fp_version = TERMINAL_FOCUS_HISTORY_VERSION, fp_entries = es\<rparr>)"

lemma utf8_length_simps [simp]:
  "utf8_length [] = 0"
  "utf8_length (c # s) = (if (of_char c :: nat) < 128 then 1 else 2) + utf8_length s"
  "utf8_length (s @ t) = utf8_length s + utf8_length t"
  by (simp_all add: utf8_length_def)

lemma join_with_append_le:
  "utf8_length (join_with d xs) \<le> utf8_length (join_with d (xs @ ys))"
  by (induction d xs rule: join_with.induct) (cases ys; simp)+

lemma join_with_cons_le:
  "utf8_length (join_with d xs) \<le> utf8_length (join_with d (x # xs))"
  by (cases xs) simp_all

definition profile_overhead :: nat where
  "profile_overhead = utf8_length (profile_json \<lparr>fp_version = 1, fp_entries = []\<rparr>)"

lemma profileBytes_eq:
  "profileBytes es = profile_overhead + utf8_length (join_with '','' (map identity_json es))"
  by (simp add: profileBytes_def profile_overhead_def profile_json_def
      TERMINAL_FOCUS_HISTORY_VERSION_def json_field_def)

lemma profile_overhead: "profile_overhead = 26"
  by (simp add: profile_overhead_def profile_json_def json_field_def json_string_def json_char_def
      decimal.simps digit_def)

lemma profileBytes_append: "profileBytes xs \<le> profileBytes (xs @ ys)"
  by (simp add: profileBytes_eq join_with_append_le)

lemma profileBytes_Cons: "profileBytes xs \<le> profileBytes (x # xs)"
  by (simp add: profileBytes_eq join_with_cons_le)

definition too_large :: "focus_identity list \<Rightarrow> bool" where
  "too_large es \<longleftrightarrow> MAX_TERMINAL_FOCUS_ENTRIES < length es \<or> MAX_TERMINAL_FOCUS_BYTES < profileBytes es"

lemma too_large_Nil [simp]: "\<not> too_large []"
  by (simp add: too_large_def profileBytes_eq profile_overhead MAX_TERMINAL_FOCUS_BYTES_def)

lemma too_large_append: "\<not> too_large (xs @ ys) \<Longrightarrow> \<not> too_large xs"
  using profileBytes_append [of xs ys] by (auto simp: too_large_def)

lemma too_large_Cons: "\<not> too_large (x # xs) \<Longrightarrow> \<not> too_large xs"
  using profileBytes_Cons [of xs x] by (auto simp: too_large_def)

section \<open>The history\<close>

type_synonym focus_history = "focus_identity list"

text \<open>The loop that drops the oldest entries: it stops because the empty profile is small.\<close>

function trim_entries :: "focus_identity list \<Rightarrow> focus_identity list" where
  "trim_entries next = (if too_large next then trim_entries (butlast next) else next)"
  by auto

termination
proof (relation "measure length")
  fix es :: "focus_identity list"
  assume "too_large es"
  then have "es \<noteq> []" by auto
  then show "(butlast es, es) \<in> measure length" by simp
qed simp

declare trim_entries.simps [simp del]

definition recordFocus :: "focus_history \<Rightarrow> focus_identity \<Rightarrow> focus_history \<times> bool" where
  "recordFocus entries i =
     (let k = terminalFocusIdentityKey i;
          nxt = trim_entries (i # filter (\<lambda>e. terminalFocusIdentityKey e \<noteq> k) entries)
      in if length nxt = length entries \<and> identity_keys nxt = identity_keys entries
         then (entries, False) else (nxt, True))"

definition newHistory :: "focus_identity list \<Rightarrow> focus_history" where
  "newHistory entries = fold (\<lambda>i h. fst (recordFocus h i)) (rev entries) []"

text \<open>The two loops of \<open>rank\<close>, with the set of used keys.\<close>

fun rank_saved :: "(string, focus_identity) jsmap \<Rightarrow> focus_identity list \<Rightarrow> focus_identity list \<Rightarrow> string set \<Rightarrow>
    focus_identity list \<times> string set" where
  "rank_saved byKey [] ranked used = (ranked, used)"
| "rank_saved byKey (saved # es) ranked used =
     (let k = terminalFocusIdentityKey saved in
      case map_of byKey k of
        None \<Rightarrow> rank_saved byKey es ranked used
      | Some current \<Rightarrow>
          if k \<in> used then rank_saved byKey es ranked used
          else rank_saved byKey es (ranked @ [current]) (insert k used))"

fun rank_rest :: "focus_identity list \<Rightarrow> focus_identity list \<Rightarrow> string set \<Rightarrow> focus_identity list" where
  "rank_rest [] ranked used = ranked"
| "rank_rest (i # is) ranked used =
     (let k = terminalFocusIdentityKey i in
      if k \<in> used then rank_rest is ranked used
      else rank_rest is (ranked @ [i]) (insert k used))"

definition rank_history :: "focus_history \<Rightarrow> focus_identity list \<Rightarrow> focus_identity list" where
  "rank_history entries available =
     (let byKey = map_from (map (\<lambda>i. (terminalFocusIdentityKey i, i)) available);
          (ranked, used) = rank_saved byKey entries [] {}
      in rank_rest available ranked used)"

definition previous_focus ::
    "focus_history \<Rightarrow> focus_identity option \<Rightarrow> focus_identity list \<Rightarrow> focus_identity option" where
  "previous_focus entries current available =
     (let currentKey = map_option terminalFocusIdentityKey current
      in find (\<lambda>i. Some (terminalFocusIdentityKey i) \<noteq> currentKey) (rank_history entries available))"

definition prune_history :: "focus_history \<Rightarrow> focus_identity list \<Rightarrow> focus_history \<times> bool" where
  "prune_history entries available =
     (let ks = set (identity_keys available);
          nxt = filter (\<lambda>i. terminalFocusIdentityKey i \<in> ks) entries
      in if length nxt = length entries then (entries, False) else (nxt, True))"

definition has_focus :: "focus_history \<Rightarrow> focus_identity \<Rightarrow> bool" where
  "has_focus entries i =
     list_ex (\<lambda>e. terminalFocusIdentityKey e = terminalFocusIdentityKey i) entries"

definition toProfile :: "focus_history \<Rightarrow> focus_profile" where
  "toProfile entries = \<lparr>fp_version = TERMINAL_FOCUS_HISTORY_VERSION, fp_entries = entries\<rparr>"

section \<open>Decoding and storage\<close>

datatype focus_diagnostic = FocusAbsent | FocusCorrupt | FocusOversized | FocusNewerVersion | FocusStorageDenied

type_synonym focus_load = "focus_history \<times> focus_diagnostic option"

definition decodeTerminalFocusHistory ::
    "(string \<Rightarrow> focus_profile option) \<Rightarrow> (string \<Rightarrow> jsnum option) \<Rightarrow> string option \<Rightarrow> focus_load" where
  "decodeTerminalFocusHistory decodeHistory decodeVersion raw =
     (case raw of
        None \<Rightarrow> (newHistory [], Some FocusAbsent)
      | Some s \<Rightarrow>
          if MAX_TERMINAL_FOCUS_BYTES < utf8_length s then (newHistory [], Some FocusOversized)
          else
            let corrupt = (newHistory [],
              case decodeVersion s of
                Some v \<Rightarrow> if js_less (js_int (int TERMINAL_FOCUS_HISTORY_VERSION)) v
                          then Some FocusNewerVersion else Some FocusCorrupt
              | None \<Rightarrow> Some FocusCorrupt)
            in case decodeHistory s of
                 Some p \<Rightarrow> if length (fp_entries p) \<le> MAX_TERMINAL_FOCUS_ENTRIES
                           then (newHistory (fp_entries p), None) else corrupt
               | None \<Rightarrow> corrupt)"

record web_storage =
  items :: "string \<rightharpoonup> string"
  readable :: bool
  accepts :: "string \<Rightarrow> bool"

definition getItem :: "web_storage \<Rightarrow> string \<Rightarrow> string option option" where
  "getItem s k = (if readable s then Some (items s k) else None)"

definition setItem :: "web_storage \<Rightarrow> string \<Rightarrow> string \<Rightarrow> web_storage option" where
  "setItem s k v = (if accepts s v then Some (s\<lparr>items := (items s)(k \<mapsto> v)\<rparr>) else None)"

definition TERMINAL_FOCUS_HISTORY_STORAGE_KEY :: string where
  "TERMINAL_FOCUS_HISTORY_STORAGE_KEY = ''yaade:terminal-focus-history-v1''"

text \<open>
  The argument \<open>storage\<close> is absent (\<open>None\<close>), null (\<open>Some None\<close>) or a storage; reading
  \<open>globalThis.sessionStorage\<close> throws (\<open>None\<close>), finds none or finds one.
\<close>

definition storage_target ::
    "web_storage option option \<Rightarrow> web_storage option option \<Rightarrow> web_storage option option" where
  "storage_target global storage = (case storage of None \<Rightarrow> global | Some s \<Rightarrow> Some s)"

definition loadTerminalFocusHistory ::
    "(string \<Rightarrow> focus_profile option) \<Rightarrow> (string \<Rightarrow> jsnum option) \<Rightarrow>
     web_storage option option \<Rightarrow> web_storage option option \<Rightarrow> focus_load" where
  "loadTerminalFocusHistory decodeHistory decodeVersion global storage =
     (case storage_target global storage of
        None \<Rightarrow> (newHistory [], Some FocusStorageDenied)
      | Some None \<Rightarrow> (newHistory [], Some FocusStorageDenied)
      | Some (Some s) \<Rightarrow>
          (case getItem s TERMINAL_FOCUS_HISTORY_STORAGE_KEY of
             None \<Rightarrow> (newHistory [], Some FocusStorageDenied)
           | Some raw \<Rightarrow> decodeTerminalFocusHistory decodeHistory decodeVersion raw))"

text \<open>The storage after the call (where it was written) and the result.\<close>

definition saveTerminalFocusHistory ::
    "focus_history \<Rightarrow> web_storage option option \<Rightarrow> web_storage option option \<Rightarrow> web_storage option \<times> bool" where
  "saveTerminalFocusHistory entries global storage =
     (case storage_target global storage of
        None \<Rightarrow> (None, False)
      | Some None \<Rightarrow> (None, False)
      | Some (Some s) \<Rightarrow>
          (case setItem s TERMINAL_FOCUS_HISTORY_STORAGE_KEY (profile_json (toProfile entries)) of
             None \<Rightarrow> (None, False)
           | Some s' \<Rightarrow> (Some s', True)))"


section \<open>Keys identify schema-checked terminals\<close>

lemma decimal_unfold: "decimal n = (if n < 10 then [] else decimal (n div 10)) @ [digit (n mod 10)]"
  by (simp add: decimal.simps [of n])

lemma digit_inj: "m < 10 \<Longrightarrow> n < 10 \<Longrightarrow> digit m = digit n \<longleftrightarrow> m = n"
proof
  assume a: "m < 10" "n < 10" "digit m = digit n"
  from arg_cong [OF a(3), of "of_char :: char \<Rightarrow> nat"] a(1,2) show "m = n"
    by (simp add: digit_def)
qed simp

lemma decimal_not_Nil [simp]: "decimal n \<noteq> []" "[] \<noteq> decimal n"
  by (metis decimal_unfold snoc_eq_iff_butlast)+

lemma decimal_inj: "decimal m = decimal n \<Longrightarrow> m = n"
proof (induction m arbitrary: n rule: decimal.induct)
  case (1 m)
  have eq: "(if m < 10 then [] else decimal (m div 10)) = (if n < 10 then [] else decimal (n div 10))
      \<and> digit (m mod 10) = digit (n mod 10)"
    using "1.prems" by (simp only: decimal_unfold [of m] decimal_unfold [of n] append1_eq_conv)
  then have md: "m mod 10 = n mod 10" by (simp add: digit_inj)
  show ?case
  proof (cases "m < 10")
    case True
    with eq have "n < 10" by (auto split: if_splits)
    with True md show ?thesis by simp
  next
    case False
    with eq have n: "\<not> n < 10" and "decimal (m div 10) = decimal (n div 10)"
      by (auto split: if_splits)
    with "1.IH" False have "m div 10 = n div 10" by blast
    with md show ?thesis by (metis div_mult_mod_eq)
  qed
qed

lemma id_char_separator: "list_all id_char s \<Longrightarrow> unit_separator \<notin> set s"
  by (auto simp: list_all_iff id_char_def unit_separator_def Let_def dest!: bspec)

lemma matches_prefix_separator:
  assumes "matches_prefix p s" "unit_separator \<notin> set p"
  shows "unit_separator \<notin> set s"
proof -
  have "s = p @ drop (length p) s"
    using assms(1) unfolding matches_prefix_def by (metis append_take_drop_id)
  moreover have "unit_separator \<notin> set (drop (length p) s)"
    using assms(1) id_char_separator unfolding matches_prefix_def by blast
  ultimately show ?thesis using assms(2) by (metis Un_iff set_append)
qed

lemma schema_no_separator:
  assumes "TerminalFocusIdentitySchema i"
  shows "unit_separator \<notin> set (fi_serverId i)" "unit_separator \<notin> set (fi_sessionId i)"
    "unit_separator \<notin> set (fi_tabId i)" "unit_separator \<notin> set (fi_terminalId i)"
proof -
  have p: "unit_separator \<notin> set ''ses-''" "unit_separator \<notin> set ''tab-''" "unit_separator \<notin> set ''term-''"
    by code_simp+
  note schema = assms [unfolded TerminalFocusIdentitySchema_def ServerId_def SessionResourceId_def
      TabResourceId_def TerminalResourceId_def]
  show "unit_separator \<notin> set (fi_serverId i)" using schema by (simp add: id_char_separator)
  show "unit_separator \<notin> set (fi_sessionId i)" using schema matches_prefix_separator [OF _ p(1)] by blast
  show "unit_separator \<notin> set (fi_tabId i)" using schema matches_prefix_separator [OF _ p(2)] by blast
  show "unit_separator \<notin> set (fi_terminalId i)" using schema matches_prefix_separator [OF _ p(3)] by blast
qed

lemma key_split:
  assumes "TerminalFocusIdentitySchema i"
  shows "terminalFocusIdentityKey i = fi_serverId i @ unit_separator # fi_sessionId i @ unit_separator #
     fi_tabId i @ unit_separator # fi_terminalId i @ unit_separator # decimal (fi_generation i)"
  by (simp add: terminalFocusIdentityKey_def)

lemma append_sep_eq:
  assumes "d \<notin> set s" "d \<notin> set t"
  shows "s @ d # s' = t @ d # t' \<longleftrightarrow> s = t \<and> s' = t'"
  using assms
proof (induction s arbitrary: t)
  case Nil
  then show ?case by (cases t) auto
next
  case (Cons c s)
  then show ?case by (cases t) auto
qed

lemma key_inj:
  assumes "TerminalFocusIdentitySchema i" "TerminalFocusIdentitySchema j"
  shows "terminalFocusIdentityKey i = terminalFocusIdentityKey j \<longleftrightarrow> i = j"
proof
  assume "terminalFocusIdentityKey i = terminalFocusIdentityKey j"
  then have "fi_serverId i = fi_serverId j \<and> fi_sessionId i = fi_sessionId j \<and> fi_tabId i = fi_tabId j
      \<and> fi_terminalId i = fi_terminalId j \<and> decimal (fi_generation i) = decimal (fi_generation j)"
    unfolding key_split [OF assms(1)] key_split [OF assms(2)]
    using schema_no_separator [OF assms(1)] schema_no_separator [OF assms(2)]
    by (simp add: append_sep_eq)
  then show "i = j" using decimal_inj by simp
qed simp

section \<open>Bounds and recency\<close>

definition history_ok :: "focus_history \<Rightarrow> bool" where
  "history_ok h \<longleftrightarrow> distinct (identity_keys h) \<and> \<not> too_large h"

lemma trim_entries_take:
  "\<exists>n \<le> length es. trim_entries es = take n es \<and> \<not> too_large (take n es) \<and>
     (n < length es \<longrightarrow> too_large (take (Suc n) es))"
proof (induction es rule: trim_entries.induct)
  case (1 es)
  show ?case
  proof (cases "too_large es")
    case False
    then show ?thesis by (intro exI [of _ "length es"]) (simp add: trim_entries.simps [of es])
  next
    case True
    then have ne: "es \<noteq> []" by auto
    from "1.IH" [OF True] obtain n where n: "n \<le> length es - 1"
      "trim_entries (butlast es) = take n (butlast es)" "\<not> too_large (take n (butlast es))"
      "n < length es - 1 \<longrightarrow> too_large (take (Suc n) (butlast es))" by auto
    have t: "take k (butlast es) = take k es" if "k \<le> length es - 1" for k
      using that by (simp add: butlast_conv_take min_def)
    have "too_large (take (Suc n) es)" if "n < length es"
    proof (cases "n < length es - 1")
      case True
      then show ?thesis using n(4) t [of "Suc n"] by simp
    next
      case False
      with that n(1) have "Suc n = length es" by linarith
      with \<open>too_large es\<close> show ?thesis by simp
    qed
    moreover have "trim_entries es = take n es"
      using True n(1,2) t by (simp add: trim_entries.simps [of es])
    ultimately show ?thesis
      using n(1,3) t ne by (intro exI [of _ n]) simp
  qed
qed

lemma trim_entries_id: "\<not> too_large es \<Longrightarrow> trim_entries es = es"
  by (simp add: trim_entries.simps [of es])

definition focus_candidates :: "focus_history \<Rightarrow> focus_identity \<Rightarrow> focus_identity list" where
  "focus_candidates h i = i # filter (\<lambda>e. terminalFocusIdentityKey e \<noteq> terminalFocusIdentityKey i) h"

lemma recordFocus_cases:
  "(fst (recordFocus h i) = trim_entries (focus_candidates h i) \<and> snd (recordFocus h i)
      \<and> identity_keys (trim_entries (focus_candidates h i)) \<noteq> identity_keys h)
   \<or> (fst (recordFocus h i) = h \<and> \<not> snd (recordFocus h i)
      \<and> identity_keys (trim_entries (focus_candidates h i)) = identity_keys h)"
  by (auto simp: recordFocus_def focus_candidates_def Let_def dest: arg_cong [where f = length])

lemma recordFocus_keys:
  "identity_keys (fst (recordFocus h i)) = identity_keys (trim_entries (focus_candidates h i))"
  using recordFocus_cases [of h i] by auto

lemma distinct_focus_candidates:
  "distinct (identity_keys h) \<Longrightarrow> distinct (identity_keys (focus_candidates h i))"
  by (auto simp: focus_candidates_def distinct_map inj_on_def)

lemma history_ok_recordFocus:
  assumes "history_ok h"
  shows "history_ok (fst (recordFocus h i))"
proof -
  obtain n where n: "trim_entries (focus_candidates h i) = take n (focus_candidates h i)"
    "\<not> too_large (take n (focus_candidates h i))"
    using trim_entries_take by blast
  have "distinct (identity_keys (take n (focus_candidates h i)))"
    using distinct_focus_candidates [of h i] assms
    by (simp add: history_ok_def take_map [symmetric] distinct_take)
  with n assms recordFocus_cases [of h i] show ?thesis by (auto simp: history_ok_def)
qed

lemma history_ok_Nil [simp]: "history_ok []"
  by (simp add: history_ok_def)

lemma history_ok_newHistory: "history_ok (newHistory es)"
proof -
  have "history_ok h \<Longrightarrow> history_ok (fold (\<lambda>i h. fst (recordFocus h i)) is h)" for "is" h
    by (induction "is" arbitrary: h) (auto intro: history_ok_recordFocus)
  then show ?thesis by (simp add: newHistory_def)
qed

lemma history_ok_filter:
  assumes "history_ok h"
  shows "history_ok (filter p h)"
proof -
  have ge: "length (filter p h) \<le> length h \<and> utf8_length (join_with '','' (map identity_json (filter p h)))
      \<le> utf8_length (join_with '','' (map identity_json h))" for h :: focus_history
  proof (induction h)
    case (Cons x h)
    show ?case
    proof (cases "filter p h")
      case Nil
      with Cons show ?thesis by (cases h) auto
    next
      case (Cons y ys)
      then have "h \<noteq> []" by auto
      then obtain z zs where "h = z # zs" by (cases h) auto
      with Cons Cons.IH show ?thesis by (auto split: if_splits)
    qed
  qed simp
  have "distinct (identity_keys (filter p h))"
    using assms by (auto simp: history_ok_def distinct_map inj_on_def)
  moreover have "\<not> too_large (filter p h)"
    using assms ge [of h] unfolding history_ok_def too_large_def profileBytes_eq by linarith
  ultimately show ?thesis by (simp add: history_ok_def)
qed

lemma history_ok_prune: "history_ok h \<Longrightarrow> history_ok (fst (prune_history h available))"
  by (auto simp: prune_history_def Let_def history_ok_filter)


section \<open>Ranking\<close>

text \<open>The first occurrence of every element, in order.\<close>

fun firsts :: "'a set \<Rightarrow> 'a list \<Rightarrow> 'a list" where
  "firsts seen [] = []"
| "firsts seen (x # xs) = (if x \<in> seen then firsts seen xs else x # firsts (insert x seen) xs)"

lemma set_firsts: "set (firsts seen xs) = set xs - seen"
  by (induction xs arbitrary: seen) auto

lemma distinct_firsts: "distinct (firsts seen xs)"
  by (induction xs arbitrary: seen) (auto simp: set_firsts)

lemma firsts_append: "firsts seen (xs @ ys) = firsts seen xs @ firsts (seen \<union> set xs) ys"
  by (induction xs arbitrary: seen) (simp_all add: insert_absorb)

lemma firsts_id: "distinct xs \<Longrightarrow> set xs \<inter> seen = {} \<Longrightarrow> firsts seen xs = xs"
  by (induction xs arbitrary: seen) auto

definition keyed_by :: "(string, focus_identity) jsmap \<Rightarrow> bool" where
  "keyed_by m \<longleftrightarrow> (\<forall>k i. map_of m k = Some i \<longrightarrow> terminalFocusIdentityKey i = k)"

lemma rank_saved_eq:
  assumes "keyed_by m"
  shows "let (r, u) = rank_saved m es ranked used;
             ks = filter (map_has m) (identity_keys es)
         in identity_keys r = identity_keys ranked @ firsts used ks \<and> u = used \<union> set ks
            \<and> set r \<subseteq> set ranked \<union> {i. map_of m (terminalFocusIdentityKey i) = Some i}"
  using assms
proof (induction m es ranked used rule: rank_saved.induct)
  case (2 m saved es ranked used)
  show ?case
  proof (cases "map_of m (terminalFocusIdentityKey saved)")
    case None
    with 2 show ?thesis by (simp add: Let_def)
  next
    case (Some current)
    with "2.prems" have k: "terminalFocusIdentityKey current = terminalFocusIdentityKey saved"
      by (auto simp: keyed_by_def)
    show ?thesis
    proof (cases "terminalFocusIdentityKey saved \<in> used")
      case True
      with 2 Some show ?thesis by (auto simp: Let_def split_beta)
    next
      case False
      with "2.IH" (3) [OF refl Some False "2.prems"] Some k show ?thesis
        by (auto simp: Let_def split_beta)
    qed
  qed
qed simp

lemma rank_rest_eq:
  "identity_keys (rank_rest es ranked used) = identity_keys ranked @ firsts used (identity_keys es)
   \<and> set (rank_rest es ranked used) \<subseteq> set ranked \<union> set es"
proof (induction es ranked used rule: rank_rest.induct)
  case (2 i "is" ranked used)
  then show ?case by (auto simp: Let_def)
qed simp

lemma map_of_identities:
  "map_of (map_from (map (\<lambda>i. (terminalFocusIdentityKey i, i)) available)) k =
     find_last (\<lambda>i. terminalFocusIdentityKey i = k) available"
proof -
  have "map_of (map (\<lambda>i. (terminalFocusIdentityKey i, i)) xs) k = find (\<lambda>i. terminalFocusIdentityKey i = k) xs"
    for xs by (induction xs) auto
  then show ?thesis by (simp add: jsmap find_last_def rev_map)
qed

lemma keyed_by_identities:
  "keyed_by (map_from (map (\<lambda>i. (terminalFocusIdentityKey i, i)) available))"
  by (auto simp: keyed_by_def map_of_identities dest: find_last_Some_D)

lemma has_identities:
  "map_has (map_from (map (\<lambda>i. (terminalFocusIdentityKey i, i)) available)) k
     \<longleftrightarrow> k \<in> set (identity_keys available)"
  by (auto simp: map_of_identities find_last_None_iff)

lemma rank_history_eq:
  "identity_keys (rank_history h available) =
     firsts {} (filter (\<lambda>k. k \<in> set (identity_keys available)) (identity_keys h) @ identity_keys available)
   \<and> set (rank_history h available) \<subseteq> set available"
proof -
  define m where "m = map_from (map (\<lambda>i. (terminalFocusIdentityKey i, i)) available)"
  obtain r u where ru: "rank_saved m h [] {} = (r, u)" by (cases "rank_saved m h [] {}") auto
  have has: "(\<lambda>k. map_has m k) = (\<lambda>k. k \<in> set (identity_keys available))"
    unfolding m_def by (rule ext) (rule has_identities)
  have "keyed_by m" unfolding m_def by (rule keyed_by_identities)
  from rank_saved_eq [OF this, of h "[]" "{}", unfolded ru has]
  have r: "identity_keys r = firsts {} (filter (\<lambda>k. k \<in> set (identity_keys available)) (identity_keys h))"
    "u = set (filter (\<lambda>k. k \<in> set (identity_keys available)) (identity_keys h))"
    "set r \<subseteq> {i. map_of m (terminalFocusIdentityKey i) = Some i}"
    by (simp_all add: Let_def)
  have "{i. map_of m (terminalFocusIdentityKey i) = Some i} \<subseteq> set available"
    by (auto simp: m_def map_of_identities dest: find_last_Some_D)
  with r rank_rest_eq [of available r u] ru show ?thesis
    by (auto simp: rank_history_def Let_def m_def [symmetric] firsts_append)
qed


section \<open>Two terminals always fit\<close>

lemma length_decimal: "0 < k \<Longrightarrow> n < 10 ^ k \<Longrightarrow> length (decimal n) \<le> k"
proof (induction k arbitrary: n)
  case (Suc k)
  show ?case
  proof (cases "n < 10")
    case True
    then show ?thesis by (simp add: decimal.simps)
  next
    case False
    with Suc.prems have "0 < k" "n div 10 < 10 ^ k" by (auto intro: Nat.gr0I)
    with Suc.IH False show ?thesis by (simp add: decimal.simps [of n])
  qed
qed simp

lemma utf8_decimal: "utf8_length (decimal n) = length (decimal n)"
proof (induction n rule: decimal.induct)
  case (1 n)
  have "(of_char (digit (n mod 10)) :: nat) < 128" by (simp add: digit_def)
  with 1 show ?case by (subst (1 2) decimal_unfold) simp
qed

lemma utf8_json_id: "list_all id_char s \<Longrightarrow> utf8_length (json_string s) = length s + 2"
proof -
  have c: "json_char c = [c] \<and> (of_char c :: nat) < 128" if "id_char c" for c
    using that by (auto simp: json_char_def id_char_def Let_def)
  show "list_all id_char s \<Longrightarrow> ?thesis"
    unfolding json_string_def by (induction s) (auto simp: c)
qed

lemma matches_prefix_chars: "matches_prefix p s \<Longrightarrow> list_all id_char p \<Longrightarrow> list_all id_char s"
  unfolding matches_prefix_def by (metis append_take_drop_id list_all_append)

lemma schema_chars:
  assumes "TerminalFocusIdentitySchema i"
  shows "list_all id_char (fi_serverId i)" "list_all id_char (fi_sessionId i)"
    "list_all id_char (fi_tabId i)" "list_all id_char (fi_terminalId i)"
proof -
  have p: "list_all id_char ''ses-''" "list_all id_char ''tab-''" "list_all id_char ''term-''"
    by code_simp+
  note schema = assms [unfolded TerminalFocusIdentitySchema_def ServerId_def SessionResourceId_def
      TabResourceId_def TerminalResourceId_def]
  show "list_all id_char (fi_serverId i)" using schema by simp
  show "list_all id_char (fi_sessionId i)" using schema matches_prefix_chars [OF _ p(1)] by blast
  show "list_all id_char (fi_tabId i)" using schema matches_prefix_chars [OF _ p(2)] by blast
  show "list_all id_char (fi_terminalId i)" using schema matches_prefix_chars [OF _ p(3)] by blast
qed

text \<open>A generation of at most 16 digits, as every safe integer has.\<close>

definition focusable :: "focus_identity \<Rightarrow> bool" where
  "focusable i \<longleftrightarrow> TerminalFocusIdentitySchema i \<and> fi_generation i < 10 ^ 16"

lemma utf8_names:
  "utf8_length (json_string ''serverId'') = 10" "utf8_length (json_string ''sessionId'') = 11"
  "utf8_length (json_string ''tabId'') = 7" "utf8_length (json_string ''terminalId'') = 12"
  "utf8_length (json_string ''generation'') = 12"
  by code_simp+

lemma identity_json_bound:
  assumes "focusable i"
  shows "utf8_length (identity_json i) \<le> 1000"
proof -
  from assms have i: "TerminalFocusIdentitySchema i" and g: "length (decimal (fi_generation i)) \<le> 16"
    using length_decimal [of 16] by (simp_all add: focusable_def)
  from i have "length (fi_serverId i) \<le> 48" "length (fi_sessionId i) \<le> 256" "length (fi_tabId i) \<le> 256"
    "length (fi_terminalId i) \<le> 256"
    by (simp_all add: TerminalFocusIdentitySchema_def ServerId_def SessionResourceId_def
        TabResourceId_def TerminalResourceId_def)
  with g show ?thesis
    unfolding identity_json_def json_field_def
    by (simp add: utf8_names utf8_json_id [OF schema_chars(1) [OF i]] utf8_json_id [OF schema_chars(2) [OF i]]
        utf8_json_id [OF schema_chars(3) [OF i]] utf8_json_id [OF schema_chars(4) [OF i]] utf8_decimal)
qed

lemma pair_fits: "focusable a \<Longrightarrow> focusable b \<Longrightarrow> \<not> too_large [b, a]"
  using identity_json_bound [of a] identity_json_bound [of b]
  by (simp add: too_large_def MAX_TERMINAL_FOCUS_ENTRIES_def MAX_TERMINAL_FOCUS_BYTES_def
      profileBytes_eq profile_overhead)

text \<open>So the terminal just focused heads the history, and the one before it follows.\<close>

lemma recordFocus_head:
  assumes "focusable i"
  obtains ks where "identity_keys (fst (recordFocus h i)) = terminalFocusIdentityKey i # ks"
proof -
  have "\<not> too_large (take (Suc 0) (focus_candidates h i))"
    using pair_fits [OF assms assms] too_large_Cons [of i "[i]"] by (simp add: focus_candidates_def)
  with trim_entries_take [of "focus_candidates h i"]
  obtain n where "trim_entries (focus_candidates h i) = take n (focus_candidates h i)" "n \<noteq> 0"
    by (fastforce simp: focus_candidates_def)
  then show ?thesis
    using that recordFocus_keys [of h i] by (cases n) (auto simp: focus_candidates_def)
qed


lemma recordFocus_set: "set (fst (recordFocus h i)) \<subseteq> insert i (set h)"
proof -
  obtain n where "trim_entries (focus_candidates h i) = take n (focus_candidates h i)"
    using trim_entries_take by blast
  moreover have "set (take n (focus_candidates h i)) \<subseteq> insert i (set h)"
    using set_take_subset [of n "focus_candidates h i"] by (auto simp: focus_candidates_def)
  ultimately show ?thesis using recordFocus_cases [of h i] by auto
qed

lemma recordFocus_twice:
  assumes h: "list_all focusable h" and ab: "focusable a" "focusable b" "a \<noteq> b"
  obtains ks where "identity_keys (fst (recordFocus (fst (recordFocus h a)) b)) =
     terminalFocusIdentityKey b # terminalFocusIdentityKey a # ks"
proof -
  define h1 where "h1 = fst (recordFocus h a)"
  obtain ks where ks: "identity_keys h1 = terminalFocusIdentityKey a # ks"
    using recordFocus_head [OF ab(1)] unfolding h1_def by blast
  then obtain x xs where h1: "h1 = x # xs" and x: "terminalFocusIdentityKey x = terminalFocusIdentityKey a"
    by auto
  have "x \<in> insert a (set h)" using recordFocus_set [of h a] h1 by (auto simp: h1_def)
  with h ab(1) have "focusable x" by (auto simp: list_all_iff)
  with x ab(1) key_inj have "x = a" by (auto simp: focusable_def)
  have "terminalFocusIdentityKey a \<noteq> terminalFocusIdentityKey b"
    using ab key_inj by (auto simp: focusable_def)
  with h1 \<open>x = a\<close> obtain ys where c: "focus_candidates h1 b = b # a # ys"
    by (auto simp: focus_candidates_def)
  then have t: "\<not> too_large (take (Suc 0) (focus_candidates h1 b))" "\<not> too_large (take 2 (focus_candidates h1 b))"
    using pair_fits [OF ab(1,2)] too_large_append [of "[b]" "[a]"] by simp_all
  obtain n where n: "trim_entries (focus_candidates h1 b) = take n (focus_candidates h1 b)"
    "n < length (focus_candidates h1 b) \<longrightarrow> too_large (take (Suc n) (focus_candidates h1 b))"
    using trim_entries_take by blast
  have "n \<noteq> 0"
  proof
    assume "n = 0"
    with n(2) t(1) c show False by simp
  qed
  moreover have "n \<noteq> 1"
  proof
    assume "n = 1"
    with n(2) t(2) c show False by (simp add: numeral_2_eq_2)
  qed
  ultimately obtain m where "n = Suc (Suc m)" by (metis One_nat_def not0_implies_Suc)
  with n(1) c have "identity_keys (fst (recordFocus h1 b)) =
      terminalFocusIdentityKey b # terminalFocusIdentityKey a # identity_keys (take m ys)"
    by (simp add: recordFocus_keys)
  then show ?thesis unfolding h1_def by (rule that)
qed

lemma find_keys: "map_option f (find (\<lambda>x. P (f x)) xs) = find P (map f xs)"
  by (induction xs) auto

lemma previous_focus_key:
  "map_option terminalFocusIdentityKey (previous_focus h (Some b) available) =
     find (\<lambda>k. k \<noteq> terminalFocusIdentityKey b) (identity_keys (rank_history h available))"
  by (simp add: previous_focus_def find_keys [of _ "\<lambda>k. k \<noteq> terminalFocusIdentityKey b", symmetric])

lemma find_firsts_skip:
  "find (\<lambda>k. k \<noteq> b) (firsts seen xs) = find (\<lambda>k. k \<noteq> b \<and> k \<notin> seen) xs"
proof (induction xs arbitrary: seen)
  case (Cons x xs)
  show ?case
  proof (cases "x = b \<and> x \<notin> seen")
    case True
    with Cons.IH [of "insert x seen"] show ?thesis
      by (simp add: conj_commute) (metis (no_types, lifting))
  next
    case False
    with Cons.IH show ?thesis by auto
  qed
qed simp

section \<open>Saving and loading\<close>

lemma newHistory_id:
  assumes "history_ok h"
  shows "newHistory h = h"
proof -
  have "fold (\<lambda>i h. fst (recordFocus h i)) (rev es) [] = es" if "history_ok es" for es
    using that
  proof (induction es)
    case (Cons i es)
    then have ok: "history_ok es" by (auto simp: history_ok_def dest: too_large_Cons)
    have "terminalFocusIdentityKey i \<notin> terminalFocusIdentityKey ` set es"
      using Cons.prems by (simp add: history_ok_def)
    then have "filter (\<lambda>e. terminalFocusIdentityKey e \<noteq> terminalFocusIdentityKey i) es = es"
      by (intro filter_True ballI) (metis imageI)
    then have c: "focus_candidates es i = i # es"
      by (simp add: focus_candidates_def)
    then have "trim_entries (focus_candidates es i) = i # es"
      using Cons.prems by (simp add: trim_entries_id history_ok_def)
    then have "fst (recordFocus es i) = i # es"
      using recordFocus_cases [of es i] by (auto dest: arg_cong [where f = length])
    with Cons.IH [OF ok] show ?case by simp
  qed simp
  with assms show ?thesis by (simp add: newHistory_def)
qed

text \<open>
  recording a focus keeps the history within its bounds and free of duplicates. The new history
  lists the focused terminal and then the other entries in their order, cut after the longest
  part that fits 128 entries and 32 KiB of JSON text; the result tells whether anything changed.
\<close>

theorem recordFocus_recency:
  assumes "history_ok h"
  shows "let (h', changed) = recordFocus h i; c = focus_candidates h i in
     history_ok h' \<and> (changed \<longleftrightarrow> identity_keys h' \<noteq> identity_keys h) \<and>
     (\<exists>n. identity_keys h' = take n (identity_keys c) \<and> \<not> too_large (take n c) \<and>
        (n = length c \<or> too_large (take (Suc n) c)))"
proof -
  obtain n where n: "n \<le> length (focus_candidates h i)"
    "trim_entries (focus_candidates h i) = take n (focus_candidates h i)"
    "\<not> too_large (take n (focus_candidates h i))"
    "n < length (focus_candidates h i) \<longrightarrow> too_large (take (Suc n) (focus_candidates h i))"
    using trim_entries_take by blast
  then have "identity_keys (fst (recordFocus h i)) = take n (identity_keys (focus_candidates h i))"
    by (simp add: recordFocus_keys take_map)
  moreover have "snd (recordFocus h i) \<longleftrightarrow> identity_keys (fst (recordFocus h i)) \<noteq> identity_keys h"
    using recordFocus_cases [of h i] by auto
  ultimately show ?thesis
    using n history_ok_recordFocus [OF assms, of i]
    by (auto simp: split_beta Let_def le_less)
qed

definition sample_identity :: "string \<Rightarrow> focus_identity" where
  "sample_identity t = \<lparr>fi_serverId = ''local'', fi_sessionId = ''ses-1'', fi_tabId = ''tab-1'',
     fi_terminalId = t, fi_generation = 1\<rparr>"

text \<open>
  the switcher's order. \<open>rank\<close> lists exactly the available terminals, each once: first those in
  the history, most recent first, then the others in the order given.
\<close>

theorem rank_recent_first:
  "identity_keys (rank_history h available) =
     firsts {} (filter (\<lambda>k. k \<in> set (identity_keys available)) (identity_keys h) @ identity_keys available)
   \<and> set (identity_keys (rank_history h available)) = set (identity_keys available)
   \<and> distinct (identity_keys (rank_history h available))
   \<and> set (rank_history h available) \<subseteq> set available"
  using rank_history_eq [of h available] by (auto simp: set_firsts distinct_firsts)

text \<open>
  C40: going back. After terminal a and then terminal b were focused, the previous terminal of b is a
  whenever a is still available, whatever the history held before (two checked identities
  always fit the bounds).
\<close>

theorem previous_focus_toggles:
  assumes "list_all focusable h" "focusable a" "focusable b" "a \<noteq> b" "a \<in> set available"
    "list_all focusable available"
  shows "previous_focus (fst (recordFocus (fst (recordFocus h a)) b)) (Some b) available = Some a"
proof -
  let ?h = "fst (recordFocus (fst (recordFocus h a)) b)"
  obtain ks where ks: "identity_keys ?h = terminalFocusIdentityKey b # terminalFocusIdentityKey a # ks"
    using recordFocus_twice [OF assms(1-4)] by blast
  have ne: "terminalFocusIdentityKey a \<noteq> terminalFocusIdentityKey b"
    using assms(2-4) key_inj by (auto simp: focusable_def)
  have "map_option terminalFocusIdentityKey (previous_focus ?h (Some b) available) =
      Some (terminalFocusIdentityKey a)"
    using assms(5) ne
    by (simp add: previous_focus_key rank_history_eq find_firsts_skip find_append ks)
  then obtain x where x: "previous_focus ?h (Some b) available = Some x"
    "terminalFocusIdentityKey x = terminalFocusIdentityKey a" by auto
  then have "x \<in> set (rank_history ?h available)"
    by (auto simp: previous_focus_def dest: find_Some_D)
  with rank_history_eq [of ?h available] assms(6) have "focusable x" by (auto simp: list_all_iff)
  with x assms(2) key_inj show ?thesis by (auto simp: focusable_def)
qed

text \<open>
  a history within its bounds survives the session storage. Where storage accepts the text,
  saving reports success and loading from the written storage gives the same history and no
  diagnostic; the text is never rejected as oversized.
\<close>

theorem focus_history_storage_roundtrip:
  assumes "history_ok h" "readable s" "accepts s (profile_json (toProfile h))"
    "decodeHistory (profile_json (toProfile h)) = Some (toProfile h)"
  shows "case saveTerminalFocusHistory h global (Some (Some s)) of (s', ok) \<Rightarrow>
     ok \<and> loadTerminalFocusHistory decodeHistory decodeVersion global (Some s') = (h, None)"
  using assms newHistory_id [OF assms(1)]
  by (auto simp: saveTerminalFocusHistory_def loadTerminalFocusHistory_def storage_target_def
      setItem_def getItem_def decodeTerminalFocusHistory_def history_ok_def too_large_def
      profileBytes_def toProfile_def)


lemma sample_focusable: "focusable (sample_identity ''term-a'')" "focusable (sample_identity ''term-b'')"
proof -
  have "TerminalFocusIdentitySchema (sample_identity ''term-a'')"
    "TerminalFocusIdentitySchema (sample_identity ''term-b'')" by code_simp+
  then show "focusable (sample_identity ''term-a'')" "focusable (sample_identity ''term-b'')"
    by (simp_all add: focusable_def sample_identity_def)
qed

lemma sample_ok: "history_ok [sample_identity ''term-a'']"
  using too_large_append [of "[sample_identity ''term-a'']" "[sample_identity ''term-a'']"]
    pair_fits [OF sample_focusable(1) sample_focusable(1)]
  by (simp add: history_ok_def)

lemma recordFocus_recency_witness:
  "let (h', changed) = recordFocus [sample_identity ''term-a''] (sample_identity ''term-b'')
   in history_ok h'"
  using recordFocus_recency [OF sample_ok, of "sample_identity ''term-b''"] by (simp add: Let_def split_beta)

lemma previous_focus_toggles_witness:
  "previous_focus (fst (recordFocus (fst (recordFocus [] (sample_identity ''term-a''))) (sample_identity ''term-b'')))
     (Some (sample_identity ''term-b'')) [sample_identity ''term-b'', sample_identity ''term-a''] =
   Some (sample_identity ''term-a'')"
  by (rule previous_focus_toggles) (simp_all add: sample_focusable, simp add: sample_identity_def)

lemma focus_history_storage_roundtrip_witness:
  "case saveTerminalFocusHistory [sample_identity ''term-a''] None
       (Some (Some \<lparr>items = \<lambda>_. None, readable = True, accepts = \<lambda>_. True\<rparr>)) of (s', ok) \<Rightarrow>
     ok \<and> loadTerminalFocusHistory
       (\<lambda>t. if t = profile_json (toProfile [sample_identity ''term-a'']) then Some (toProfile [sample_identity ''term-a'']) else None)
       (\<lambda>_. None) None (Some s') = ([sample_identity ''term-a''], None)"
  by (rule focus_history_storage_roundtrip) (simp_all add: sample_ok)

end
