(* ===== verification/Stable_Order.thy ===== *)
theory Stable_Order
  imports Prelude "HOL-Library.Multiset"
begin

text \<open>
  What \<open>Array.prototype.sort\<close> promises when its comparator is consistent: the result is a
  permutation, ordered, and keeps the order of equal elements. The locale states when a
  comparator is consistent; comparators joined by \<open>||\<close>, comparators on a key and
  differences of numbers are.
\<close>

locale js_comparator =
  fixes cmp :: "'a \<Rightarrow> 'a \<Rightarrow> int"
  assumes swap: "sgn (cmp x y) = - sgn (cmp y x)"
    and trans_le: "cmp x y \<le> 0 \<Longrightarrow> cmp y z \<le> 0 \<Longrightarrow> cmp x z \<le> 0"
begin

abbreviation ordered :: "'a list \<Rightarrow> bool" where
  "ordered \<equiv> sorted_wrt (\<lambda>x y. cmp x y \<le> 0)"

lemma cmp_refl: "cmp x x = 0"
  using swap [of x x] by (simp add: sgn_if split: if_splits)

lemma flip_pos: "0 < cmp x y \<longleftrightarrow> cmp y x < 0"
  using swap [of x y] by (auto simp: sgn_if split: if_splits)

lemma flip_zero: "cmp x y = 0 \<longleftrightarrow> cmp y x = 0"
  using swap [of x y] by (auto simp: sgn_if split: if_splits)

lemma mset_js_insert: "mset (js_insert cmp x ys) = add_mset x (mset ys)"
  by (induction ys) auto

lemma ordered_js_insert: "ordered ys \<Longrightarrow> ordered (js_insert cmp x ys)"
proof (induction ys)
  case (Cons y ys)
  show ?case
  proof (cases "0 < cmp y x")
    case True
    then have xy: "cmp x y \<le> 0" by (simp add: flip_pos)
    with Cons.prems have "\<forall>z \<in> set (y # ys). cmp x z \<le> 0"
      using trans_le [OF xy] by auto
    with True Cons.prems show ?thesis by simp
  next
    case False
    with Cons show ?thesis by (auto simp: set_js_insert)
  qed
qed simp

lemma stable_js_insert:
  "ordered ys \<Longrightarrow> filter (\<lambda>y. cmp z y = 0) (js_insert cmp x ys) =
     filter (\<lambda>y. cmp z y = 0) ys @ filter (\<lambda>y. cmp z y = 0) [x]"
proof (induction ys)
  case (Cons y ys)
  show ?case
  proof (cases "0 < cmp y x \<and> cmp z x = 0")
    case True
    have "cmp z w \<noteq> 0" if "w \<in> set (y # ys)" for w
    proof
      assume "cmp z w = 0"
      then have "cmp w z = 0" using flip_zero [of z w] by simp
      then have "cmp w x \<le> 0" using True trans_le [of w z x] by simp
      moreover have "cmp y w \<le> 0" using that Cons.prems cmp_refl [of y] by auto
      ultimately have "cmp y x \<le> 0" by (rule trans_le [rotated])
      with True show False by simp
    qed
    then have "filter (\<lambda>y. cmp z y = 0) (y # ys) = []" by (simp add: filter_empty_conv)
    with True show ?thesis by (auto split: if_splits)
  next
    case False
    with Cons show ?thesis by auto
  qed
qed simp

lemma js_sort_snoc: "js_sort cmp (xs @ [x]) = js_insert cmp x (js_sort cmp xs)"
  by (simp add: js_sort_def)

lemma ordered_js_sort: "ordered (js_sort cmp xs)"
  by (induction xs rule: rev_induct) (simp_all add: js_sort_snoc ordered_js_insert, simp add: js_sort_def)

lemma mset_js_sort: "mset (js_sort cmp xs) = mset xs"
  by (induction xs rule: rev_induct) (simp_all add: js_sort_snoc mset_js_insert, simp add: js_sort_def)

lemma stable_js_sort: "filter (\<lambda>y. cmp z y = 0) (js_sort cmp xs) = filter (\<lambda>y. cmp z y = 0) xs"
proof (induction xs rule: rev_induct)
  case Nil
  then show ?case by (simp add: js_sort_def)
next
  case (snoc x xs)
  show ?case
    unfolding js_sort_snoc stable_js_insert [OF ordered_js_sort] snoc.IH by simp
qed

lemma js_sort_id: "ordered xs \<Longrightarrow> js_sort cmp xs = xs"
proof (induction xs rule: rev_induct)
  case Nil
  then show ?case by (simp add: js_sort_def)
next
  case (snoc x xs)
  have "js_insert cmp x ys = ys @ [x]" if "\<forall>y \<in> set ys. cmp y x \<le> 0" for ys
    using that by (induction ys) auto
  with snoc show ?case by (simp add: js_sort_snoc sorted_wrt_append)
qed

end

text \<open>\<open>first || second\<close> on the results of two comparisons.\<close>

definition cmp_or :: "('a \<Rightarrow> 'a \<Rightarrow> int) \<Rightarrow> ('a \<Rightarrow> 'a \<Rightarrow> int) \<Rightarrow> 'a \<Rightarrow> 'a \<Rightarrow> int" where
  "cmp_or c d x y = (if c x y \<noteq> 0 then c x y else d x y)"

lemma js_comparator_or:
  assumes "js_comparator c" "js_comparator d"
  shows "js_comparator (cmp_or c d)"
proof -
  note c = js_comparator.flip_zero [OF assms(1)] js_comparator.flip_pos [OF assms(1)]
  note c_trans = js_comparator.trans_le [OF assms(1)]
  note d_trans = js_comparator.trans_le [OF assms(2)]
  have eq: "cmp_or c d x y \<le> 0 \<longleftrightarrow> c x y < 0 \<or> c x y = 0 \<and> d x y \<le> 0" for x y
    by (auto simp: cmp_or_def)
  have strict: "c x z < 0" if "c x y \<le> 0" "c y z \<le> 0" "c x y < 0 \<or> c y z < 0" for x y z
  proof (rule ccontr)
    assume "\<not> c x z < 0"
    with c_trans [OF that(1,2)] have "c z x = 0" using c(1) [of x z] by simp
    then have "c y x \<le> 0" "c z y \<le> 0"
      using c_trans [of y z x] c_trans [of z x y] that by simp_all
    with that(3) show False using c(2) [of y x] c(2) [of z y] by simp
  qed
  show ?thesis
  proof
    show "sgn (cmp_or c d x y) = - sgn (cmp_or c d y x)" for x y
      using c(1) [of x y] js_comparator.swap [OF assms(1), of x y] js_comparator.swap [OF assms(2), of x y]
      by (simp add: cmp_or_def)
    show "cmp_or c d x z \<le> 0" if "cmp_or c d x y \<le> 0" "cmp_or c d y z \<le> 0" for x y z
    proof (cases "c x y < 0 \<or> c y z < 0")
      case True
      with that strict [of x y z] show ?thesis unfolding eq by auto
    next
      case False
      with that have "c x y = 0" "c y z = 0" "d x y \<le> 0" "d y z \<le> 0" unfolding eq by auto
      with c_trans [of x y z] d_trans [of x y z] show ?thesis unfolding eq by auto
    qed
  qed
qed

lemma js_comparator_key: "js_comparator c \<Longrightarrow> js_comparator (\<lambda>x y. c (f x) (f y))"
  unfolding js_comparator_def by blast

lemma js_comparator_diff: "js_comparator (\<lambda>x y. (f x :: int) - f y)"
  by unfold_locales (simp_all add: sgn_if)

text \<open>Comparison by code units, the order of \<open><\<close> on strings.\<close>

definition code_unit_compare :: "string \<Rightarrow> string \<Rightarrow> int" where
  "code_unit_compare a b = (if str_less a b then - 1 else if str_less b a then 1 else 0)"

lemma str_less_irrefl: "\<not> str_less a a"
  by (induction a) auto

lemma str_less_trans: "str_less a b \<Longrightarrow> str_less b c \<Longrightarrow> str_less a c"
proof (induction a b arbitrary: c rule: str_less.induct)
  case (3 a as b bs)
  then show ?case by (cases c) auto
next
  case (2 b bs)
  then show ?case by (cases c) auto
qed simp

lemma str_less_linear: "str_less a b \<or> a = b \<or> str_less b a"
proof (induction a b rule: str_less.induct)
  case (1 s)
  then show ?case by (cases s) auto
next
  case (3 a as b bs)
  have "a = b \<longleftrightarrow> (of_char a :: nat) = of_char b" by simp
  with 3 show ?case by auto
qed simp

lemma js_comparator_code_unit: "js_comparator code_unit_compare"
proof
  show "sgn (code_unit_compare x y) = - sgn (code_unit_compare y x)" for x y
    using str_less_trans [of x y x] str_less_irrefl [of x] by (auto simp: code_unit_compare_def)
  have le: "code_unit_compare x y \<le> 0 \<longleftrightarrow> str_less x y \<or> x = y" for x y
    using str_less_linear [of x y] str_less_irrefl str_less_trans [of x y x]
    by (auto simp: code_unit_compare_def)
  show "code_unit_compare x z \<le> 0" if "code_unit_compare x y \<le> 0" "code_unit_compare y z \<le> 0" for x y z
    using that str_less_trans unfolding le by blast
qed

end
