(* ===== verification/Fuzzy_Filter.thy ===== *)
theory Fuzzy_Filter
  imports Js_String Stable_Order "HOL-Library.Sublist"
begin

text \<open>
  Searching in lists and trees: the fuzzy score of \<^verbatim>\<open>packages/yaade-ui/src/lister/fuzzy.ts\<close> and
  the filter of flattened tree rows of \<^verbatim>\<open>packages/yaade-ui/src/lister/filter-tree.ts\<close>.

  \<^item> Strings, white space and case mapping are those of \<open>Js_String\<close>.
  \<^item> A score is an integer, \<open>null\<close> is \<open>None\<close>.
  \<^item> \<open>localeCompare\<close> depends on the browser's collation: it is a parameter.
\<close>

section \<open>Scores\<close>

definition boundary :: "char \<Rightarrow> bool" where
  "boundary c \<longleftrightarrow> c \<in> set ''/-_. ''"

text \<open>The score after a match at index \<open>ti\<close>, the one before at \<open>prior\<close>.\<close>

definition match_score :: "nat \<Rightarrow> char option \<Rightarrow> nat option \<Rightarrow> int \<Rightarrow> int" where
  "match_score ti prev prior score =
     (let s = (case prior of None \<Rightarrow> score | Some l \<Rightarrow> score + (int ti - int l))
      in case prev of None \<Rightarrow> s - 1 | Some p \<Rightarrow> if boundary p then s - 1 else s)"

text \<open>
  The loop of \<open>subsequenceScore\<close>: the rest of the query, the rest of the text, the index of the
  next character and the one before it. The result is the unmatched rest of the query and
  the score.
\<close>

fun subsequence_loop :: "string \<Rightarrow> string \<Rightarrow> nat \<Rightarrow> char option \<Rightarrow> nat option \<Rightarrow> int \<Rightarrow> string \<times> int" where
  "subsequence_loop [] text ti prev prior score = ([], score)"
| "subsequence_loop (q # query) [] ti prev prior score = (q # query, score)"
| "subsequence_loop (q # query) (c # text) ti prev prior score =
     (if c \<noteq> q then subsequence_loop (q # query) text (Suc ti) (Some c) prior score
      else subsequence_loop query text (Suc ti) (Some c) (Some ti) (match_score ti prev prior score))"

definition subsequenceScore :: "string \<Rightarrow> string \<Rightarrow> int option" where
  "subsequenceScore query text =
     (case subsequence_loop query text 0 None None 0 of
        ([], score) \<Rightarrow> Some (score + min 64 (int (length text) - int (length query)))
      | (_ # _, _) \<Rightarrow> None)"

definition scoreTerm :: "string \<Rightarrow> string \<Rightarrow> int option" where
  "scoreTerm trm haystack =
     (case index_of trm haystack of
        Some idx \<Rightarrow>
          Some (int idx - (if take (length trm) haystack = trm then 100 else 0)
                        - (if haystack = trm then 200 else 0))
      | None \<Rightarrow> subsequenceScore trm haystack)"

fun score_terms :: "string \<Rightarrow> string list \<Rightarrow> int \<Rightarrow> int option" where
  "score_terms hay [] tot = Some tot"
| "score_terms hay (t # ts) tot =
     (case scoreTerm t hay of None \<Rightarrow> None | Some s \<Rightarrow> score_terms hay ts (tot + s))"

definition fuzzyScore :: "string \<Rightarrow> string \<Rightarrow> int option" where
  "fuzzyScore query searchText =
     (let trimmed = toLowerCase (trim query) in
      if trimmed = [] then Some 0
      else score_terms (toLowerCase searchText) (words_of trimmed) 0)"

definition scored_items :: "('a \<Rightarrow> string) \<Rightarrow> string \<Rightarrow> 'a list \<Rightarrow> ('a \<times> int) list" where
  "scored_items searchText trimmed xs =
     somes (map (\<lambda>x. map_option (\<lambda>s. (x, s)) (fuzzyScore trimmed (searchText x))) xs)"

definition score_order :: "(string \<Rightarrow> string \<Rightarrow> int) \<Rightarrow> ('a \<Rightarrow> string) \<Rightarrow> 'a \<times> int \<Rightarrow> 'a \<times> int \<Rightarrow> int" where
  "score_order localeCompare searchText =
     cmp_or (\<lambda>a b. snd a - snd b) (\<lambda>a b. localeCompare (searchText (fst a)) (searchText (fst b)))"

definition fuzzyFilter ::
    "(string \<Rightarrow> string \<Rightarrow> int) \<Rightarrow> ('a \<Rightarrow> string) \<Rightarrow> string \<Rightarrow> 'a list \<Rightarrow> 'a list" where
  "fuzzyFilter localeCompare searchText query xs =
     (let trimmed = trim query in
      if trimmed = [] then xs
      else map fst (js_sort (score_order localeCompare searchText) (scored_items searchText trimmed xs)))"

section \<open>Rows of a tree\<close>

record tree_row =
  row_searchText :: string
  row_depth :: nat
  row_expanded :: bool
  row_isBranch :: bool

text \<open>
  The parent links: \<open>stack\<close> is the array \<open>depthStack\<close>, with \<open>None\<close> for a hole; writing past its
  end leaves holes, and setting \<open>length\<close> cuts it.
\<close>

definition stack_set :: "nat \<Rightarrow> nat \<Rightarrow> nat option list \<Rightarrow> nat option list" where
  "stack_set depth i stack = take depth (stack @ replicate (depth - length stack) None) @ [Some i]"

definition stack_get :: "nat option list \<Rightarrow> nat \<Rightarrow> nat option" where
  "stack_get stack k = (if k < length stack then stack ! k else None)"

fun parent_links :: "nat \<Rightarrow> nat option list \<Rightarrow> nat list \<Rightarrow> nat option list" where
  "parent_links i stack [] = []"
| "parent_links i stack (d # ds) =
     (if 0 < d then stack_get stack (d - 1) else None) # parent_links (Suc i) (stack_set d i stack) ds"

text \<open>The pass from the last row to the first that keeps the parents of kept rows.\<close>

fun keep_parents :: "nat option list \<Rightarrow> nat \<Rightarrow> bool list \<Rightarrow> bool list" where
  "keep_parents parent 0 keep = keep"
| "keep_parents parent (Suc i) keep =
     keep_parents parent i
       (if keep ! i then (case parent ! i of None \<Rightarrow> keep | Some p \<Rightarrow> keep[p := True]) else keep)"

text \<open>The pass that reveals the rows below an expanded matching branch.\<close>

fun reveal :: "nat option \<Rightarrow> (tree_row \<times> bool \<times> bool) list \<Rightarrow> bool list" where
  "reveal below [] = []"
| "reveal below ((row, m, k) # rows) =
     (let b1 = (case below of Some d \<Rightarrow> if row_depth row \<le> d then None else Some d | None \<Rightarrow> None);
          b2 = (if m \<and> row_isBranch row \<and> row_expanded row
                then Some (case b1 of None \<Rightarrow> row_depth row | Some d \<Rightarrow> min d (row_depth row)) else b1)
      in (k \<or> b1 \<noteq> None) # reveal b2 rows)"

definition filterTreeRows :: "string \<Rightarrow> tree_row list \<Rightarrow> tree_row list" where
  "filterTreeRows query rows =
     (let trimmed = trim query in
      if trimmed = [] \<or> rows = [] then rows
      else
        let match = map (\<lambda>r. fuzzyScore trimmed (row_searchText r) \<noteq> None) rows;
            parent = parent_links 0 [] (map row_depth rows);
            keep1 = keep_parents parent (length rows) match;
            keep2 = reveal None (zip rows (zip match keep1))
        in map fst (filter snd (zip rows keep2)))"


section \<open>What matches\<close>

lemma subsequence_loop_rest:
  "fst (subsequence_loop q t ti prev prior score) = [] \<longleftrightarrow> subseq q t"
  by (induction q t ti prev prior score rule: subsequence_loop.induct)
    (auto simp: subseq_Cons2_iff)

lemma subsequenceScore_iff: "subsequenceScore q t \<noteq> None \<longleftrightarrow> subseq q t"
  using subsequence_loop_rest [of q t 0 None None 0]
  by (auto simp: subsequenceScore_def split: prod.splits list.splits)

lemma index_of_Some: "index_of t s = Some i \<Longrightarrow> take (length t) (drop i s) = t"
  by (induction t s arbitrary: i rule: index_of.induct) (auto split: if_splits)

lemma index_of_0: "take (length t) s = t \<Longrightarrow> index_of t s = Some 0"
  by (cases s) auto

lemma index_of_subseq: "index_of t s = Some i \<Longrightarrow> subseq t s"
proof -
  assume "index_of t s = Some i"
  then have "s = take i s @ t @ drop (length t) (drop i s)"
    using index_of_Some [of t s i] by (metis append_take_drop_id)
  then show ?thesis by (metis list_emb_append2 list_emb_append_mono list_emb_Nil append_Nil2 subseq_order.order_refl)
qed

lemma scoreTerm_iff: "scoreTerm t hay \<noteq> None \<longleftrightarrow> subseq t hay"
  using subsequenceScore_iff [of t hay] index_of_subseq [of t hay]
  by (auto simp: scoreTerm_def split: option.splits)

lemma score_terms_iff: "score_terms hay ts tot \<noteq> None \<longleftrightarrow> (\<forall>t \<in> set ts. subseq t hay)"
proof (induction ts arbitrary: tot)
  case (Cons t ts)
  show ?case
  proof (cases "scoreTerm t hay")
    case None
    with scoreTerm_iff [of t hay] show ?thesis by simp
  next
    case (Some s)
    with Cons scoreTerm_iff [of t hay] show ?thesis by simp
  qed
qed simp

lemma words_of_Nil [simp]: "words_of [] = []"
  by (simp add: words_of.simps)

lemma fuzzyScore_iff:
  "fuzzyScore q s \<noteq> None \<longleftrightarrow> (\<forall>w \<in> set (words_of (toLowerCase (trim q))). subseq w (toLowerCase s))"
  using score_terms_iff by (simp add: fuzzyScore_def Let_def)

section \<open>Scores order matches\<close>

lemma match_score_bound:
  "(case prior of None \<Rightarrow> True | Some l \<Rightarrow> l < ti) \<Longrightarrow>
     score - (case prior of None \<Rightarrow> 1 | Some _ \<Rightarrow> 0) \<le> match_score ti prev prior score"
  by (auto simp: match_score_def Let_def split: option.splits)

lemma subsequence_loop_bound:
  "(case prior of None \<Rightarrow> True | Some l \<Rightarrow> l < ti) \<Longrightarrow>
     score - (case prior of None \<Rightarrow> 1 | Some _ \<Rightarrow> 0) \<le> snd (subsequence_loop q t ti prev prior score)"
proof (induction q t ti prev prior score rule: subsequence_loop.induct)
  case (3 q query c hay ti prev prior score)
  show ?case
  proof (cases "c = q")
    case False
    with "3.IH"(1) "3.prems" show ?thesis by (auto split: option.splits)
  next
    case True
    with "3.IH"(2) have "match_score ti prev prior score
        \<le> snd (subsequence_loop query hay (Suc ti) (Some c) (Some ti) (match_score ti prev prior score))"
      by simp
    with match_score_bound [OF "3.prems", of score prev] True show ?thesis by simp
  qed
qed (auto split: option.splits)

lemma subsequenceScore_bound: "subsequenceScore q t = Some s \<Longrightarrow> - 1 \<le> s"
proof -
  assume s: "subsequenceScore q t = Some s"
  then have "subseq q t" using subsequenceScore_iff [of q t] by simp
  then have "length q \<le> length t" by (rule list_emb_length)
  moreover have "- 1 \<le> snd (subsequence_loop q t 0 None None 0)"
    using subsequence_loop_bound [where prior = None and ti = 0 and score = 0 and q = q and t = t] by simp
  ultimately show ?thesis using s
    by (auto simp: subsequenceScore_def split: prod.splits list.splits)
qed


section \<open>Parents, ancestors and revealed rows\<close>

text \<open>The nearest earlier row one level up, with nothing shallower in between.\<close>

definition parent_of :: "nat list \<Rightarrow> nat \<Rightarrow> nat \<Rightarrow> bool" where
  "parent_of ds i p \<longleftrightarrow> p < i \<and> Suc (ds ! p) = ds ! i \<and> (\<forall>k. p < k \<and> k < i \<longrightarrow> ds ! i \<le> ds ! k)"

definition last_at :: "nat list \<Rightarrow> nat \<Rightarrow> nat \<Rightarrow> nat \<Rightarrow> bool" where
  "last_at ds i k p \<longleftrightarrow> p < i \<and> ds ! p = k \<and> (\<forall>j. p < j \<and> j < i \<longrightarrow> k < ds ! j)"

lemma stack_get_set:
  "stack_get (stack_set d i st) k = (if k < d then stack_get st k else if k = d then Some i else None)"
  by (auto simp: stack_get_def stack_set_def nth_append)

lemma last_at_Suc:
  "last_at ds (Suc i) k p \<longleftrightarrow>
     (if k < ds ! i then last_at ds i k p else k = ds ! i \<and> p = i)"
  by (auto simp: last_at_def less_Suc_eq)

lemma parent_links_spec:
  assumes "\<And>k p. stack_get st k = Some p \<longleftrightarrow> last_at ds i k p" "i + length es = length ds" "es = drop i ds"
  shows "length (parent_links i st es) = length es \<and>
    (\<forall>j < length es. \<forall>p. parent_links i st es ! j = Some p \<longleftrightarrow> parent_of ds (i + j) p)"
  using assms
proof (induction i st es rule: parent_links.induct)
  case (2 i st d es)
  from "2.prems"(2) have "i < length ds" by simp
  with "2.prems"(3) have d: "d = ds ! i" and es: "es = drop (Suc i) ds"
    by (simp_all add: Cons_nth_drop_Suc [symmetric])
  have here: "(if 0 < d then stack_get st (d - 1) else None) = Some p \<longleftrightarrow> parent_of ds i p" for p
  proof (cases "ds ! i")
    case (Suc n)
    with "2.prems"(1) [of n p] show ?thesis by (auto simp: d parent_of_def last_at_def Suc_le_eq)
  qed (simp add: d parent_of_def)
  have "stack_get (stack_set d i st) k = Some p \<longleftrightarrow> last_at ds (Suc i) k p" for k p
    using "2.prems"(1) [of k p] by (auto simp: stack_get_set last_at_Suc d)
  with "2.IH" "2.prems"(2) es
  have "length (parent_links (Suc i) (stack_set d i st) es) = length es \<and>
      (\<forall>j < length es. \<forall>p. parent_links (Suc i) (stack_set d i st) es ! j = Some p \<longleftrightarrow> parent_of ds (Suc i + j) p)"
    by simp
  with here show ?case by (auto simp: less_Suc_eq_0_disj nth_Cons')
qed simp

lemma parent_links_eq:
  "length (parent_links 0 [] ds) = length ds"
  "j < length ds \<Longrightarrow> parent_links 0 [] ds ! j = Some p \<longleftrightarrow> parent_of ds j p"
  using parent_links_spec [of "[]" ds 0 ds] by (auto simp: stack_get_def last_at_def)

definition up :: "nat option list \<Rightarrow> (nat \<times> nat) set" where
  "up parent = {(j, p). j < length parent \<and> parent ! j = Some p}"

lemma length_keep_parents [simp]: "length (keep_parents parent n keep) = length keep"
  by (induction parent n keep rule: keep_parents.induct) (auto split: option.splits)

lemma keep_parents_spec:
  assumes "n \<le> length parent" "length keep = length parent"
    "\<And>j p. j < length parent \<Longrightarrow> parent ! j = Some p \<Longrightarrow> p < j" "i < length parent"
  shows "keep_parents parent n keep ! i \<longleftrightarrow> keep ! i \<or> (\<exists>j < n. keep ! j \<and> (j, i) \<in> (up parent)\<^sup>+)"
  using assms
proof (induction parent n keep rule: keep_parents.induct)
  case (2 parent n keep)
  define keep1 where "keep1 = (if keep ! n then (case parent ! n of None \<Rightarrow> keep | Some p \<Rightarrow> keep[p := True]) else keep)"
  have n: "n < length parent" using "2.prems"(1) by simp
  have k1: "keep1 ! j \<longleftrightarrow> keep ! j \<or> keep ! n \<and> (n, j) \<in> up parent" if "j < length parent" for j
  proof (cases "parent ! n")
    case (Some p)
    with n "2.prems"(2,3) have "p < length keep" by fastforce
    with Some n show ?thesis by (auto simp: keep1_def up_def nth_list_update)
  qed (use n in \<open>simp add: keep1_def up_def\<close>)
  have "keep_parents parent (Suc n) keep ! i \<longleftrightarrow> keep1 ! i \<or> (\<exists>j < n. keep1 ! j \<and> (j, i) \<in> (up parent)\<^sup>+)"
    using "2.IH" "2.prems" by (simp add: keep1_def split: option.split)
  also have "\<dots> \<longleftrightarrow> keep ! i \<or> (\<exists>j < Suc n. keep ! j \<and> (j, i) \<in> (up parent)\<^sup>+)"
  proof -
    have step: "(n, i) \<in> (up parent)\<^sup>+ \<longleftrightarrow> (n, i) \<in> up parent \<or> (\<exists>j < n. (n, j) \<in> up parent \<and> (j, i) \<in> (up parent)\<^sup>+)"
      using "2.prems"(3) by (subst trancl_unfold_left) (auto simp: up_def rtrancl_eq_or_trancl)
    show ?thesis
      using k1 "2.prems"(4) n step by (auto simp: less_Suc_eq)
  qed
  finally show ?case .
qed simp

definition opens :: "tree_row \<times> bool \<times> bool \<Rightarrow> bool" where
  "opens r \<longleftrightarrow> fst (snd r) \<and> row_isBranch (fst r) \<and> row_expanded (fst r)"

abbreviation depth_of :: "tree_row \<times> bool \<times> bool \<Rightarrow> nat" where
  "depth_of r \<equiv> row_depth (fst r)"

lemma length_reveal [simp]: "length (reveal b rs) = length rs"
  by (induction b rs rule: reveal.induct) (simp_all add: Let_def)

lemma all_le_Suc_iff: "(\<forall>l \<le> Suc n. P l) \<longleftrightarrow> P 0 \<and> (\<forall>l \<le> n. P (Suc l))"
  by (metis Suc_le_mono le0 not0_implies_Suc)

lemma all_between_0: "(\<forall>l. 0 < l \<and> l \<le> Suc n \<longrightarrow> P l) \<longleftrightarrow> (\<forall>l \<le> n. P (Suc l))"
  by (metis Suc_le_mono gr0_conv_Suc zero_less_Suc)

lemma all_between_Suc: "(\<forall>l. Suc j < l \<and> l \<le> Suc n \<longrightarrow> P l) \<longleftrightarrow> (\<forall>l. j < l \<and> l \<le> n \<longrightarrow> P (Suc l))"
  by (metis Suc_le_mono Suc_less_eq Suc_lessE)

lemma reveal_spec:
  "i < length rs \<Longrightarrow> reveal b rs ! i \<longleftrightarrow> snd (snd (rs ! i))
     \<or> (\<exists>d. b = Some d \<and> (\<forall>l \<le> i. d < depth_of (rs ! l)))
     \<or> (\<exists>j < i. opens (rs ! j) \<and> (\<forall>l. j < l \<and> l \<le> i \<longrightarrow> depth_of (rs ! j) < depth_of (rs ! l)))"
proof (induction b rs arbitrary: i rule: reveal.induct)
  case (2 b row m k rs)
  define b1 where "b1 = (case b of Some d \<Rightarrow> if row_depth row \<le> d then None else Some d | None \<Rightarrow> None)"
  define b2 where "b2 = (if m \<and> row_isBranch row \<and> row_expanded row
      then Some (case b1 of None \<Rightarrow> row_depth row | Some d \<Rightarrow> min d (row_depth row)) else b1)"
  have b1: "b1 = Some d \<longleftrightarrow> b = Some d \<and> d < row_depth row" for d
    by (auto simp: b1_def split: option.splits)
  have eq: "reveal b ((row, m, k) # rs) = (k \<or> b1 \<noteq> None) # reveal b2 rs"
    by (simp add: b1_def b2_def Let_def)
  show ?case
  proof (cases i)
    case 0
    then show ?thesis by (auto simp del: reveal.simps simp: eq b1)
  next
    case (Suc n)
    with "2.prems" have n: "n < length rs" by simp
    have b2: "(\<exists>d. b2 = Some d \<and> (\<forall>l \<le> n. d < depth_of (rs ! l))) \<longleftrightarrow>
        (\<exists>d. b1 = Some d \<and> (\<forall>l \<le> n. d < depth_of (rs ! l))) \<or>
        (opens (row, m, k) \<and> (\<forall>l \<le> n. row_depth row < depth_of (rs ! l)))"
    proof (cases b1)
      case None
      then show ?thesis by (auto simp: b2_def opens_def)
    next
      case (Some d)
      then have "d < row_depth row" by (simp add: b1)
      with Some show ?thesis by (auto simp: b2_def opens_def min_def intro: less_trans)
    qed
    have "reveal b2 rs ! n \<longleftrightarrow> snd (snd (rs ! n))
       \<or> (\<exists>d. b2 = Some d \<and> (\<forall>l \<le> n. d < depth_of (rs ! l)))
       \<or> (\<exists>j < n. opens (rs ! j) \<and> (\<forall>l. j < l \<and> l \<le> n \<longrightarrow> depth_of (rs ! j) < depth_of (rs ! l)))"
      using "2.IH" [OF b1_def b2_def n] by simp
    then show ?thesis
      unfolding b2 eq Suc by (simp add: b1 all_le_Suc_iff Ex_less_Suc2 all_between_0 all_between_Suc)
  qed
qed simp


section \<open>The shown rows\<close>

text \<open>
  The specification of the filter: a row is shown when it matches, when it is an ancestor of a
  matching row, or when it lies below an expanded matching branch.
\<close>

definition row_matches :: "string \<Rightarrow> tree_row \<Rightarrow> bool" where
  "row_matches query r \<longleftrightarrow> fuzzyScore (trim query) (row_searchText r) \<noteq> None"

definition ancestor_of :: "tree_row list \<Rightarrow> nat \<Rightarrow> nat \<Rightarrow> bool" where
  "ancestor_of rows = (\<lambda>j i. (\<lambda>a b. a < length rows \<and> parent_of (map row_depth rows) a b)\<^sup>+\<^sup>+ j i)"

definition below :: "tree_row list \<Rightarrow> nat \<Rightarrow> nat \<Rightarrow> bool" where
  "below rows j i \<longleftrightarrow> j < i \<and> (\<forall>l. j < l \<and> l \<le> i \<longrightarrow> row_depth (rows ! j) < row_depth (rows ! l))"

definition shown :: "string \<Rightarrow> tree_row list \<Rightarrow> nat \<Rightarrow> bool" where
  "shown query rows i \<longleftrightarrow> row_matches query (rows ! i)
     \<or> (\<exists>j < length rows. row_matches query (rows ! j) \<and> ancestor_of rows j i)
     \<or> (\<exists>j < length rows. row_matches query (rows ! j) \<and> row_isBranch (rows ! j) \<and> row_expanded (rows ! j)
          \<and> below rows j i)"

lemma up_ancestor: "(j, i) \<in> (up (parent_links 0 [] (map row_depth rows)))\<^sup>+ \<longleftrightarrow> ancestor_of rows j i"
proof -
  have "up (parent_links 0 [] (map row_depth rows)) =
      {(a, b). a < length rows \<and> parent_of (map row_depth rows) a b}"
    using parent_links_eq [where ds = "map row_depth rows"] by (auto simp: up_def)
  then show ?thesis
    by (simp add: ancestor_of_def trancl_def)
qed

lemma filter_zip_nth:
  "length ks = length xs \<Longrightarrow> map fst (filter snd (zip xs ks)) = map ((!) xs) (filter ((!) ks) [0..<length xs])"
proof (induction xs ks rule: rev_induct2)
  case (4 x xs y ys)
  then show ?case by (auto simp: nth_append intro!: map_cong filter_cong)
qed simp_all

lemma filterTreeRows_shown:
  assumes "trim query \<noteq> []"
  shows "filterTreeRows query rows = map ((!) rows) (filter (shown query rows) [0..<length rows])"
proof (cases "rows = []")
  case True
  then show ?thesis by (simp add: filterTreeRows_def Let_def)
next
  case False
  define parent where "parent = parent_links 0 [] (map row_depth rows)"
  define m where "m = map (row_matches query) rows"
  define keep1 where "keep1 = keep_parents parent (length rows) m"
  define keep2 where "keep2 = reveal None (zip rows (zip m keep1))"
  have len: "length parent = length rows" "length m = length rows" "length keep1 = length rows"
    "length keep2 = length rows"
    by (simp_all add: parent_def m_def keep1_def keep2_def parent_links_eq)
  have less: "p < j" if "j < length parent" "parent ! j = Some p" for j p
    using that by (auto simp: parent_def parent_links_eq parent_of_def)
  have k1: "keep1 ! i \<longleftrightarrow> row_matches query (rows ! i)
      \<or> (\<exists>j < length rows. row_matches query (rows ! j) \<and> ancestor_of rows j i)" if "i < length rows" for i
    using keep_parents_spec [of "length rows" parent m i] less len that
    by (auto simp: keep1_def m_def up_ancestor [symmetric] parent_def)
  have k2: "keep2 ! i \<longleftrightarrow> shown query rows i" if "i < length rows" for i
  proof -
    have "keep2 ! i \<longleftrightarrow> keep1 ! i \<or> (\<exists>j < i. row_matches query (rows ! j) \<and> row_isBranch (rows ! j)
        \<and> row_expanded (rows ! j) \<and> (\<forall>l. j < l \<and> l \<le> i \<longrightarrow> row_depth (rows ! j) < row_depth (rows ! l)))"
      using reveal_spec [of i "zip rows (zip m keep1)" None] that len
      by (simp add: keep2_def opens_def m_def cong: conj_cong)
    also have "\<dots> \<longleftrightarrow> shown query rows i"
      unfolding k1 [OF that] shown_def below_def using that by (meson less_trans)
    finally show ?thesis .
  qed
  have "filterTreeRows query rows = map fst (filter snd (zip rows keep2))"
    using assms False
    by (simp add: filterTreeRows_def Let_def parent_def m_def keep1_def keep2_def row_matches_def [abs_def])
  also have "\<dots> = map ((!) rows) (filter ((!) keep2) [0..<length rows])"
    by (rule filter_zip_nth) (rule len(4))
  also have "\<dots> = map ((!) rows) (filter (shown query rows) [0..<length rows])"
    using k2 by (intro arg_cong [of _ _ "map _"] filter_cong) auto
  finally show ?thesis .
qed


lemma parent_below:
  assumes p: "parent_of (map row_depth rows) i p" and i: "i < length rows" and b: "below rows j i"
  shows "p = j \<or> below rows j p"
proof -
  from p i have pi: "p < i" "row_depth (rows ! p) < row_depth (rows ! i)"
    "\<And>k. p < k \<Longrightarrow> k < i \<Longrightarrow> row_depth (rows ! i) \<le> row_depth (rows ! k)"
    by (auto simp: parent_of_def)
  from b have j: "j < i" "row_depth (rows ! j) < row_depth (rows ! i)" by (auto simp: below_def)
  have "\<not> p < j" using pi(3) [of j] j by auto
  then show ?thesis using b pi(1) by (auto simp: below_def)
qed

lemma shown_parent:
  assumes "shown query rows i" "i < length rows" "parent_of (map row_depth rows) i p"
  shows "shown query rows p"
proof -
  have up: "ancestor_of rows i p" using assms(2,3) by (auto simp: ancestor_of_def)
  have trans: "ancestor_of rows j p" if "ancestor_of rows j i" for j
    using that up unfolding ancestor_of_def by (rule tranclp_trans)
  from assms(1) consider "row_matches query (rows ! i)"
    | j where "j < length rows" "row_matches query (rows ! j)" "ancestor_of rows j i"
    | j where "j < length rows" "row_matches query (rows ! j)" "row_isBranch (rows ! j)"
        "row_expanded (rows ! j)" "below rows j i"
    unfolding shown_def by blast
  then show ?thesis
  proof cases
    case 1
    then show ?thesis using assms(2) up unfolding shown_def by blast
  next
    case 2
    then show ?thesis using trans unfolding shown_def by blast
  next
    case 3
    then show ?thesis using parent_below [OF assms(3,2) 3(5)] unfolding shown_def by blast
  qed
qed

text \<open>
  C37: the linear filter of tree rows computes its specification. For a query that is not blank the
  result lists, in order, exactly the rows that match, the ancestors of matching rows and the
  rows below an expanded matching branch; with a row its parent is always listed too, so the
  result is again a tree.
\<close>

theorem filterTreeRows_exact:
  assumes "trim query \<noteq> []"
  shows "filterTreeRows query rows = map ((!) rows) (filter (shown query rows) [0..<length rows])
    \<and> (\<forall>i < length rows. \<forall>p. shown query rows i \<and> parent_of (map row_depth rows) i p \<longrightarrow> shown query rows p)"
  using filterTreeRows_shown [OF assms] shown_parent by blast

lemma filterTreeRows_exact_witness:
  "let rows = [\<lparr>row_searchText = ''src'', row_depth = 0, row_expanded = True, row_isBranch = True\<rparr>,
               \<lparr>row_searchText = ''index.ts'', row_depth = 1, row_expanded = False, row_isBranch = False\<rparr>,
               \<lparr>row_searchText = ''other'', row_depth = 0, row_expanded = False, row_isBranch = True\<rparr>]
   in filterTreeRows ''index'' rows = map ((!) rows) (filter (shown ''index'' rows) [0..<length rows])"
proof -
  have "trim ''index'' \<noteq> []" by code_simp
  from filterTreeRows_exact [OF this] show ?thesis unfolding Let_def by blast
qed

text \<open>
  the fuzzy score accepts exactly the texts in which every word of the query occurs as a
  subsequence, ignoring case, and it ranks single words: an equal text scores -300, a text
  that begins with the word -100, every other match at least -1.
\<close>

theorem fuzzyScore_ranks:
  "(fuzzyScore query searchText \<noteq> None \<longleftrightarrow>
      (\<forall>w \<in> set (words_of (toLowerCase (trim query))). subseq w (toLowerCase searchText)))
   \<and> (case scoreTerm w hay of
        None \<Rightarrow> \<not> subseq w hay
      | Some s \<Rightarrow> subseq w hay \<and>
          (if w = hay then s = - 300 else if prefix w hay then s = - 100 else - 1 \<le> s))"
proof -
  have pre: "take (length w) hay = w \<longleftrightarrow> prefix w hay"
    by (metis append_eq_conv_conj prefix_def take_is_prefix)
  have "case scoreTerm w hay of None \<Rightarrow> True
      | Some s \<Rightarrow> (if w = hay then s = - 300 else if prefix w hay then s = - 100 else - 1 \<le> s)"
  proof (cases "prefix w hay")
    case True
    with pre have "index_of w hay = Some 0" by (simp add: index_of_0)
    with True pre show ?thesis by (auto simp: scoreTerm_def)
  next
    case False
    then have "w \<noteq> hay" by auto
    with False pre subsequenceScore_bound [of w hay] show ?thesis
      by (auto simp: scoreTerm_def split: option.split)
  qed
  with fuzzyScore_iff [of query searchText] scoreTerm_iff [of w hay] show ?thesis
    by (auto split: option.splits)
qed

lemma set_scored_items:
  "map fst (scored_items st q xs) = filter (\<lambda>x. fuzzyScore q (st x) \<noteq> None) xs"
  "z \<in> set (scored_items st q xs) \<Longrightarrow> fuzzyScore q (st (fst z)) = Some (snd z)"
  by (induction xs) (auto simp: scored_items_def map_option_case split: option.splits)

lemma js_comparator_score:
  "js_comparator localeCompare \<Longrightarrow> js_comparator (score_order localeCompare st)"
  unfolding score_order_def
  by (intro js_comparator_or js_comparator_diff js_comparator_key [where f = "\<lambda>a. st (fst a)"])

text \<open>
  with a consistent collation, the fuzzy filter returns exactly the matching items, each as often
  as it was given, ordered by score and then by text.
\<close>

theorem fuzzyFilter_sorted:
  assumes "js_comparator localeCompare" "trim query \<noteq> []"
  shows "mset (fuzzyFilter localeCompare st query xs) = mset (filter (\<lambda>x. fuzzyScore (trim query) (st x) \<noteq> None) xs)
    \<and> sorted_wrt (\<lambda>x y. the (fuzzyScore (trim query) (st x)) < the (fuzzyScore (trim query) (st y))
        \<or> fuzzyScore (trim query) (st x) = fuzzyScore (trim query) (st y) \<and> localeCompare (st x) (st y) \<le> 0)
      (fuzzyFilter localeCompare st query xs)"
proof -
  let ?cmp = "score_order localeCompare st"
  let ?zs = "scored_items st (trim query) xs"
  have c: "js_comparator ?cmp" by (rule js_comparator_score [OF assms(1)])
  have r: "fuzzyFilter localeCompare st query xs = map fst (js_sort ?cmp ?zs)"
    using assms(2) by (simp add: fuzzyFilter_def Let_def)
  have "mset (map fst (js_sort ?cmp ?zs)) = mset (map fst ?zs)"
    by (simp add: js_comparator.mset_js_sort [OF c])
  moreover have "sorted_wrt (\<lambda>a b. the (fuzzyScore (trim query) (st (fst a))) < the (fuzzyScore (trim query) (st (fst b)))
      \<or> fuzzyScore (trim query) (st (fst a)) = fuzzyScore (trim query) (st (fst b))
        \<and> localeCompare (st (fst a)) (st (fst b)) \<le> 0) (js_sort ?cmp ?zs)"
  proof (rule sorted_wrt_mono_rel [OF _ js_comparator.ordered_js_sort [OF c]])
    fix a b
    assume "a \<in> set (js_sort ?cmp ?zs)" "b \<in> set (js_sort ?cmp ?zs)" and le: "?cmp a b \<le> 0"
    then have "fuzzyScore (trim query) (st (fst a)) = Some (snd a)" "fuzzyScore (trim query) (st (fst b)) = Some (snd b)"
      by (simp_all add: set_js_sort set_scored_items(2))
    with le show "the (fuzzyScore (trim query) (st (fst a))) < the (fuzzyScore (trim query) (st (fst b)))
      \<or> fuzzyScore (trim query) (st (fst a)) = fuzzyScore (trim query) (st (fst b))
        \<and> localeCompare (st (fst a)) (st (fst b)) \<le> 0"
      by (auto simp: score_order_def cmp_or_def split: if_splits)
  qed
  ultimately show ?thesis by (simp add: r set_scored_items(1) sorted_wrt_map)
qed

lemma fuzzyFilter_sorted_witness:
  "mset (fuzzyFilter code_unit_compare id ''a'' [''ba'', ''a'', ''c'']) =
     mset (filter (\<lambda>x. fuzzyScore (trim ''a'') (id x) \<noteq> None) [''ba'', ''a'', ''c''])"
proof -
  have "trim ''a'' \<noteq> []" by code_simp
  from fuzzyFilter_sorted [OF js_comparator_code_unit this] show ?thesis by blast
qed


lemma fuzzyScore_ranks_witness:
  "fuzzyScore ''src'' ''my-src'' \<noteq> None \<and> (case scoreTerm ''src'' ''my-src'' of None \<Rightarrow> False | Some s \<Rightarrow> - 1 \<le> s)"
proof -
  have w: "words_of (toLowerCase (trim ''src'')) = [''src'']" "toLowerCase ''my-src'' = ''my-src''"
    "subseq ''src'' ''my-src''" "\<not> prefix ''src'' ''my-src''"
    by code_simp+
  from fuzzyScore_ranks [of "''src''" "''my-src''" "''src''" "''my-src''"] w show ?thesis
    by (auto split: option.splits)
qed

end
