(* ===== verification/Terminal_Switcher.thy ===== *)
theory Terminal_Switcher
  imports Mux_Store Focus_History Fuzzy_Filter
begin

text \<open>
  The ranking of the terminal switcher,
  \<^verbatim>\<open>packages/yaade-app/src/mux/terminal-switcher-model.ts\<close>: the status shown for a terminal, the
  fallback order of the entries (the active window first, then positions), the recency order
  of the focus history, and the search.

  \<open>localeCompare\<close> is a parameter; positions are integers; an exit code is written in decimal.
\<close>

section \<open>Status\<close>

datatype status_tone = ToneRunning | ToneWaiting | ToneFailed | ToneInterrupted | ToneExited | ToneStarting

record status_preview =
  sp_label :: string
  sp_tone :: status_tone

definition decimal_int :: "int \<Rightarrow> string" where
  "decimal_int n = (if n < 0 then ''-'' @ decimal (nat (- n)) else decimal (nat n))"

definition statusWithExitCode :: "string \<Rightarrow> int option \<Rightarrow> string" where
  "statusWithExitCode p code = (case code of None \<Rightarrow> p | Some n \<Rightarrow> p @ '' ('' @ decimal_int n @ '')'')"

definition terminalStatusPreview :: "mux_terminal \<Rightarrow> status_preview" where
  "terminalStatusPreview t =
     (let process = processState (term_output t); activity = activityState (term_output t) in
      if process = ProcFailed \<or> term_status t = StatusFailed \<or> activity = ActFailed then
        \<lparr>sp_label = statusWithExitCode ''Failed'' (exitCode (term_output t)), sp_tone = ToneFailed\<rparr>
      else if process = ProcInterrupted \<or> process = ProcOrphaned \<or> process = ProcDisconnected
              \<or> term_status t = StatusDisconnected then
        \<lparr>sp_label = ''Interrupted'', sp_tone = ToneInterrupted\<rparr>
      else if process = ProcExited then
        \<lparr>sp_label = statusWithExitCode ''Exited'' (exitCode (term_output t)), sp_tone = ToneExited\<rparr>
      else if activity = ActWaitingForInput \<or> term_status t = StatusWaiting then
        \<lparr>sp_label = ''Waiting'', sp_tone = ToneWaiting\<rparr>
      else if process = ProcStarting \<or> process = ProcRestoring \<or> term_status t = StatusStarting then
        \<lparr>sp_label = ''Starting'', sp_tone = ToneStarting\<rparr>
      else \<lparr>sp_label = ''Running'', sp_tone = ToneRunning\<rparr>)"

section \<open>Entries and their fallback order\<close>

record switcher_entry =
  se_identity :: focus_identity
  se_terminal :: mux_terminal
  se_session :: app_session
  se_tab :: session_tab
  se_serverName :: string
  se_serverPosition :: int
  se_title :: string

datatype switcher_section = RecentSection | OtherTerminals

record ranked_entry =
  re_entry :: switcher_entry
  re_statusPreview :: status_preview
  re_recent :: bool
  re_section :: "switcher_section option"
  re_searchText :: string

record switcher_context =
  cx_activeSessionId :: "session_id option"
  cx_activeTabId :: "tab_id option"

definition entry_context :: "switcher_context \<Rightarrow> switcher_entry \<Rightarrow> int" where
  "entry_context cx e =
     (if Some (ses_id (se_session e)) = cx_activeSessionId cx
      then (if Some (tab_id (se_tab e)) = cx_activeTabId cx then 0 else 1) else 2)"

definition position_order :: "switcher_context \<Rightarrow> switcher_entry \<Rightarrow> switcher_entry \<Rightarrow> int" where
  "position_order cx =
     cmp_or (\<lambda>l r. entry_context cx l - entry_context cx r)
    (cmp_or (\<lambda>l r. se_serverPosition l - se_serverPosition r)
    (cmp_or (\<lambda>l r. ses_position (se_session l) - ses_position (se_session r))
    (cmp_or (\<lambda>l r. tab_position (se_tab l) - tab_position (se_tab r))
            (\<lambda>l r. term_position (se_terminal l) - term_position (se_terminal r)))))"

definition fallback_order ::
    "(string \<Rightarrow> string \<Rightarrow> int) \<Rightarrow> switcher_context \<Rightarrow> switcher_entry \<Rightarrow> switcher_entry \<Rightarrow> int" where
  "fallback_order localeCompare cx =
     cmp_or (position_order cx)
    (cmp_or (\<lambda>l r. localeCompare (fi_serverId (se_identity l)) (fi_serverId (se_identity r)))
            (\<lambda>l r. localeCompare (term_id (se_terminal l)) (term_id (se_terminal r))))"

definition stableFallbackOrder ::
    "(string \<Rightarrow> string \<Rightarrow> int) \<Rightarrow> switcher_entry list \<Rightarrow> switcher_context \<Rightarrow> switcher_entry list" where
  "stableFallbackOrder localeCompare entries cx = js_sort (fallback_order localeCompare cx) entries"

definition searchableEntry :: "switcher_entry \<Rightarrow> bool \<Rightarrow> ranked_entry" where
  "searchableEntry e recent =
     (let preview = terminalStatusPreview (se_terminal e) in
      \<lparr>re_entry = e, re_statusPreview = preview, re_recent = recent, re_section = None,
       re_searchText = join_with '' '' [se_title e, se_serverName e, ses_title (se_session e),
         tab_title (se_tab e), sp_label preview, ''terminal'']\<rparr>)"

section \<open>Ranking\<close>

abbreviation entry_key :: "switcher_entry \<Rightarrow> string" where
  "entry_key e \<equiv> terminalFocusIdentityKey (se_identity e)"

definition recency_ranked ::
    "(string \<Rightarrow> string \<Rightarrow> int) \<Rightarrow> switcher_entry list \<Rightarrow> focus_history \<Rightarrow> switcher_context \<Rightarrow> ranked_entry list" where
  "recency_ranked localeCompare entries h cx =
     (let fallback = stableFallbackOrder localeCompare entries cx;
          byIdentity = map_from (map (\<lambda>e. (entry_key e, e)) fallback);
          rankedIdentities = rank_history h (map se_identity fallback)
      in concat (map (\<lambda>i. case map_of byIdentity (terminalFocusIdentityKey i) of
                            Some e \<Rightarrow> [searchableEntry e (has_focus h i)] | None \<Rightarrow> []) rankedIdentities))"

definition mru_position :: "ranked_entry list \<Rightarrow> ranked_entry \<Rightarrow> int" where
  "mru_position ranked r =
     (case map_of (map_from (zip (map (\<lambda>x. term_id (se_terminal (re_entry x))) ranked) [0..<length ranked]))
             (term_id (se_terminal (re_entry r))) of
        Some n \<Rightarrow> int n | None \<Rightarrow> max_safe)"

definition search_order ::
    "(string \<Rightarrow> string \<Rightarrow> int) \<Rightarrow> ranked_entry list \<Rightarrow> ranked_entry \<times> int \<Rightarrow> ranked_entry \<times> int \<Rightarrow> int" where
  "search_order localeCompare ranked =
     cmp_or (\<lambda>l r. snd l - snd r)
    (cmp_or (\<lambda>l r. mru_position ranked (fst l) - mru_position ranked (fst r))
            (\<lambda>l r. localeCompare (re_searchText (fst l)) (re_searchText (fst r))))"

text \<open>The section headings: the flags tell which section has begun.\<close>

fun add_sections :: "bool \<Rightarrow> bool \<Rightarrow> ranked_entry list \<Rightarrow> ranked_entry list" where
  "add_sections recentStarted otherStarted [] = []"
| "add_sections recentStarted otherStarted (r # rs) =
     (if re_recent r \<and> \<not> recentStarted then
        r\<lparr>re_section := Some RecentSection\<rparr> # add_sections True otherStarted rs
      else if \<not> re_recent r \<and> \<not> otherStarted then
        r\<lparr>re_section := Some OtherTerminals\<rparr> # add_sections recentStarted True rs
      else r # add_sections recentStarted otherStarted rs)"

definition rankTerminalSwitcherEntries ::
    "(string \<Rightarrow> string \<Rightarrow> int) \<Rightarrow> switcher_entry list \<Rightarrow> focus_history \<Rightarrow> switcher_context \<Rightarrow> string \<Rightarrow>
     ranked_entry list" where
  "rankTerminalSwitcherEntries localeCompare entries h cx query =
     (let ranked = recency_ranked localeCompare entries h cx;
          trimmedQuery = trim query
      in if trimmedQuery \<noteq> [] then
           map fst (js_sort (search_order localeCompare ranked) (scored_items re_searchText trimmedQuery ranked))
         else add_sections False False ranked)"

section \<open>The orders are consistent\<close>

lemma js_comparator_position: "js_comparator (position_order cx)"
  unfolding position_order_def by (intro js_comparator_or js_comparator_diff)

interpretation positions: js_comparator "position_order cx" for cx
  by (rule js_comparator_position)

lemma js_comparator_fallback: "js_comparator localeCompare \<Longrightarrow> js_comparator (fallback_order localeCompare cx)"
  unfolding fallback_order_def
  by (intro js_comparator_or positions.js_comparator_axioms
      js_comparator_key [where f = "\<lambda>e. fi_serverId (se_identity e)"]
      js_comparator_key [where f = "\<lambda>e. term_id (se_terminal e)"])

lemma js_comparator_search: "js_comparator localeCompare \<Longrightarrow> js_comparator (search_order localeCompare ranked)"
  unfolding search_order_def
  by (intro js_comparator_or js_comparator_diff js_comparator_key [where f = "\<lambda>r. re_searchText (fst r)"])


section \<open>The recency order in closed form\<close>

lemma firsts_distinct: "distinct xs \<Longrightarrow> firsts seen xs = filter (\<lambda>x. x \<notin> seen) xs"
proof (induction xs arbitrary: seen)
  case (Cons x xs)
  then have "filter (\<lambda>y. y \<notin> insert x seen) xs = filter (\<lambda>y. y \<notin> seen) xs"
    by (intro filter_cong) auto
  with Cons show ?case by auto
qed simp

definition entry_of :: "switcher_entry list \<Rightarrow> string \<Rightarrow> switcher_entry" where
  "entry_of es k = the (map_of (map (\<lambda>e. (entry_key e, e)) es) k)"

lemma entry_of_in:
  assumes "distinct (map entry_key es)" "e \<in> set es"
  shows "entry_of es (entry_key e) = e"
proof -
  have "map_of (map (\<lambda>e. (entry_key e, e)) es) (entry_key e) = Some e"
    by (rule map_of_is_SomeI) (use assms in \<open>auto simp: comp_def\<close>)
  then show ?thesis by (simp add: entry_of_def)
qed

lemma entry_of_key:
  "distinct (map entry_key es) \<Longrightarrow> k \<in> set (map entry_key es) \<Longrightarrow> entry_key (entry_of es k) = k \<and> entry_of es k \<in> set es"
  using entry_of_in by auto

lemma has_focus_iff: "has_focus h i \<longleftrightarrow> terminalFocusIdentityKey i \<in> set (identity_keys h)"
  unfolding has_focus_def list_ex_iff set_map image_iff by metis

lemma concat_map_single:
  "(\<And>x. x \<in> set xs \<Longrightarrow> f x = [g x]) \<Longrightarrow> concat (map f xs) = map g xs"
  by (induction xs) auto

lemma recency_ranked_eq:
  assumes h: "history_ok h" and es: "distinct (map entry_key entries)"
    and fb: "fb = stableFallbackOrder localeCompare entries cx" "mset fb = mset entries"
  shows "recency_ranked localeCompare entries h cx =
     map (\<lambda>k. searchableEntry (entry_of fb k) True)
       (filter (\<lambda>k. k \<in> set (map entry_key entries)) (identity_keys h))
     @ map (\<lambda>e. searchableEntry e False) (filter (\<lambda>e. entry_key e \<notin> set (identity_keys h)) fb)"
proof -
  have dfb: "distinct (map entry_key fb)" and sfb: "set fb = set entries"
    using es fb(2) by (metis distinct_map mset_eq_imp_distinct_iff mset_map set_map set_mset_mset)
      (metis fb(2) set_mset_mset)
  let ?ids = "map se_identity fb"
  have ids: "identity_keys ?ids = map entry_key fb" by simp
  define f where "f = (\<lambda>k. searchableEntry (entry_of fb k) (k \<in> set (identity_keys h)))"
  have "recency_ranked localeCompare entries h cx = map f (identity_keys (rank_history h ?ids))"
  proof -
    have lookup: "map_of (map_from (map (\<lambda>e. (entry_key e, e)) fb)) k = Some (entry_of fb k)"
      if "k \<in> set (map entry_key fb)" for k
    proof -
      have "map_ok (map (\<lambda>e. (entry_key e, e)) fb)" using dfb by (simp add: comp_def)
      then have "map_of (map_from (map (\<lambda>e. (entry_key e, e)) fb)) = map_of (map (\<lambda>e. (entry_key e, e)) fb)"
        by (simp add: fun_eq_iff jsmap map_of_rev_distinct)
      moreover have "map_of (map (\<lambda>e. (entry_key e, e)) fb) k \<noteq> None"
        using that by (auto simp: map_of_eq_None_iff image_image)
      ultimately show ?thesis by (auto simp: entry_of_def)
    qed
    have "terminalFocusIdentityKey i \<in> set (map entry_key fb)" if "i \<in> set (rank_history h ?ids)" for i
      using that rank_history_eq [of h ?ids] by auto
    then have "recency_ranked localeCompare entries h cx =
        map (f \<circ> terminalFocusIdentityKey) (rank_history h ?ids)"
      unfolding recency_ranked_def fb(1) [symmetric] Let_def
      by (intro concat_map_single) (simp only: lookup, simp add: f_def has_focus_iff)
    then show ?thesis by simp
  qed
  also have "identity_keys (rank_history h ?ids) =
      filter (\<lambda>k. k \<in> set (map entry_key entries)) (identity_keys h)
      @ filter (\<lambda>k. k \<notin> set (identity_keys h)) (map entry_key fb)"
  proof -
    have "distinct (identity_keys h)" using h by (simp add: history_ok_def)
    then have "identity_keys (rank_history h ?ids) =
        filter (\<lambda>k. k \<in> set (map entry_key fb)) (identity_keys h)
        @ filter (\<lambda>k. k \<notin> set (filter (\<lambda>k. k \<in> set (map entry_key fb)) (identity_keys h))) (map entry_key fb)"
      using rank_history_eq [of h ?ids] dfb unfolding ids
      by (simp add: firsts_append firsts_id firsts_distinct)
    moreover have "filter (\<lambda>k. k \<notin> set (filter (\<lambda>k. k \<in> set (map entry_key fb)) (identity_keys h))) (map entry_key fb)
        = filter (\<lambda>k. k \<notin> set (identity_keys h)) (map entry_key fb)"
      by (rule filter_cong) auto
    ultimately show ?thesis by (simp add: sfb)
  qed
  also have "map f \<dots> = map (\<lambda>k. searchableEntry (entry_of fb k) True)
       (filter (\<lambda>k. k \<in> set (map entry_key entries)) (identity_keys h))
     @ map (\<lambda>e. searchableEntry e False) (filter (\<lambda>e. entry_key e \<notin> set (identity_keys h)) fb)"
  proof -
    have "map f (filter (\<lambda>k. k \<notin> set (identity_keys h)) (map entry_key fb)) =
        map (\<lambda>e. searchableEntry e False) (filter (\<lambda>e. entry_key e \<notin> set (identity_keys h)) fb)"
      unfolding filter_map comp_def map_map by (rule map_cong) (auto simp: f_def entry_of_in [OF dfb])
    moreover have "map f (filter (\<lambda>k. k \<in> set (map entry_key entries)) (identity_keys h)) =
        map (\<lambda>k. searchableEntry (entry_of fb k) True) (filter (\<lambda>k. k \<in> set (map entry_key entries)) (identity_keys h))"
      by (rule map_cong) (auto simp: f_def)
    ultimately show ?thesis by simp
  qed
  finally show ?thesis .
qed


section \<open>Sections\<close>

definition heading :: "bool \<Rightarrow> switcher_section \<Rightarrow> nat \<Rightarrow> switcher_section option list" where
  "heading started sec n = (if started \<or> n = 0 then replicate n None else Some sec # replicate (n - 1) None)"

lemma heading_Suc:
  "heading False sec (Suc n) = Some sec # heading True sec n" "heading True sec (Suc n) = None # heading True sec n"
  by (simp_all add: heading_def)

lemma image_filter: "{k \<in> K. k \<in> f ` A} = f ` {x \<in> A. f x \<in> K}"
  by auto

lemma mset_partition_list: "mset (filter P xs) + mset (filter (\<lambda>x. \<not> P x) xs) = mset xs"
  by (induction xs) auto

lemma add_sections_entries: "map re_entry (add_sections a b rs) = map re_entry rs"
  by (induction a b rs rule: add_sections.induct) simp_all

lemma add_sections_recent: "map re_recent (add_sections a b rs) = map re_recent rs"
  by (induction a b rs rule: add_sections.induct) simp_all

lemma add_sections_other:
  "\<forall>r \<in> set os. \<not> re_recent r \<and> re_section r = None \<Longrightarrow>
     map re_section (add_sections a b os) = heading b OtherTerminals (length os)"
  by (induction os arbitrary: b) (auto simp: heading_Suc heading_def)

lemma add_sections_eq:
  "\<forall>r \<in> set rs. re_recent r \<and> re_section r = None \<Longrightarrow>
   \<forall>r \<in> set os. \<not> re_recent r \<and> re_section r = None \<Longrightarrow>
     map re_section (add_sections a False (rs @ os)) =
       heading a RecentSection (length rs) @ heading False OtherTerminals (length os)"
proof (induction rs arbitrary: a)
  case Nil
  then show ?case by (simp add: add_sections_other heading_def)
next
  case (Cons r rs)
  then show ?case by (cases a) (simp_all add: heading_Suc)
qed

lemma searchableEntry_simps [simp]:
  "re_entry (searchableEntry e b) = e" "re_recent (searchableEntry e b) = b"
  "re_section (searchableEntry e b) = None"
  by (simp_all add: searchableEntry_def Let_def)

lemma mset_recent_others:
  assumes dfb: "distinct (map entry_key fb)" and dks: "distinct ks"
  shows "mset (map (entry_of fb) (filter (\<lambda>k. k \<in> set (map entry_key fb)) ks)
      @ filter (\<lambda>e. entry_key e \<notin> set ks) fb) = mset fb"
proof -
  let ?recent = "filter (\<lambda>k. k \<in> set (map entry_key fb)) ks"
  let ?in = "filter (\<lambda>e. entry_key e \<in> set ks) fb"
  have "set ?recent = set (map entry_key ?in)" by (simp add: image_filter)
  moreover have "distinct (map entry_key ?in)" using dfb by (simp add: distinct_map_filter)
  ultimately have "mset ?recent = mset (map entry_key ?in)"
    using dks set_eq_iff_mset_eq_distinct distinct_filter by blast
  then have "mset (map (entry_of fb) ?recent) = mset (map (entry_of fb) (map entry_key ?in))"
    by (metis mset_map)
  also have "map (entry_of fb) (map entry_key ?in) = ?in"
    using entry_of_in [OF dfb] by (auto intro!: map_idI)
  finally show ?thesis unfolding mset_append using mset_partition_list by metis
qed

text \<open>
  the switcher without a query. Every entry is listed exactly once: first the entries whose
  terminals are in the focus history, most recent first and under one heading, then the
  others in the fallback order under another; the fallback order is sorted by the active window,
  the server, session, tab and terminal positions.
\<close>

theorem switcher_recency_order:
  assumes "js_comparator localeCompare" "history_ok h" "distinct (map entry_key entries)" "trim query = []"
  shows "let r = rankTerminalSwitcherEntries localeCompare entries h cx query;
      fb = stableFallbackOrder localeCompare entries cx;
      recent = filter (\<lambda>k. k \<in> set (map entry_key entries)) (identity_keys h);
      others = filter (\<lambda>e. entry_key e \<notin> set (identity_keys h)) fb
    in map (entry_key \<circ> re_entry) r = recent @ map entry_key others
     \<and> mset (map re_entry r) = mset entries
     \<and> map re_recent r = replicate (length recent) True @ replicate (length others) False
     \<and> map re_section r = heading False RecentSection (length recent) @ heading False OtherTerminals (length others)
     \<and> sorted_wrt (\<lambda>a b. position_order cx a b \<le> 0) fb"
proof -
  define fb where "fb = stableFallbackOrder localeCompare entries cx"
  define recent where "recent = filter (\<lambda>k. k \<in> set (map entry_key entries)) (identity_keys h)"
  define others where "others = filter (\<lambda>e. entry_key e \<notin> set (identity_keys h)) fb"
  note cmp = js_comparator_fallback [OF assms(1), of cx]
  have mset_fb: "mset fb = mset entries"
    unfolding fb_def stableFallbackOrder_def by (rule js_comparator.mset_js_sort [OF cmp])
  have set_fb: "set fb = set entries" using mset_fb by (rule mset_eq_setD)
  have dfb: "distinct (map entry_key fb)"
    using assms(3) mset_fb by (metis mset_map mset_eq_imp_distinct_iff)
  define ranked where "ranked = recency_ranked localeCompare entries h cx"
  have ranked: "ranked = map (\<lambda>k. searchableEntry (entry_of fb k) True) recent
      @ map (\<lambda>e. searchableEntry e False) others"
    using recency_ranked_eq [OF assms(2,3) fb_def mset_fb]
    unfolding ranked_def recent_def others_def by blast
  have r: "rankTerminalSwitcherEntries localeCompare entries h cx query = add_sections False False ranked"
    using assms(4) by (simp add: rankTerminalSwitcherEntries_def ranked_def Let_def)
  have entries_r: "map re_entry ranked = map (entry_of fb) recent @ others"
    by (simp add: ranked comp_def)
  have rk: "\<forall>k \<in> set recent. entry_key (entry_of fb k) = k \<and> entry_of fb k \<in> set fb"
    using entry_of_key [OF dfb] set_fb by (auto simp: recent_def)
  have keys: "map (entry_key \<circ> re_entry) ranked = recent @ map entry_key others"
    using rk unfolding ranked by (simp add: comp_def map_idI)
  have "mset (map re_entry ranked) = mset fb"
    unfolding entries_r others_def recent_def
    using mset_recent_others [OF dfb, of "identity_keys h"] assms(2) by (simp add: history_ok_def set_fb)
  moreover have "map re_recent ranked = replicate (length recent) True @ replicate (length others) False"
    by (simp add: ranked comp_def map_replicate_const)
  moreover have "map re_section (add_sections False False ranked) =
      heading False RecentSection (length recent) @ heading False OtherTerminals (length others)"
    unfolding ranked by (subst add_sections_eq) auto
  moreover have "sorted_wrt (\<lambda>a b. position_order cx a b \<le> 0) fb"
    using js_comparator.ordered_js_sort [OF cmp, of entries] unfolding fb_def stableFallbackOrder_def
    by (rule sorted_wrt_mono_rel [rotated]) (auto simp: fallback_order_def cmp_or_def split: if_splits)
  ultimately show ?thesis
    using keys mset_fb
    unfolding Let_def r fb_def [symmetric] recent_def [symmetric] others_def [symmetric]
    by (simp add: add_sections_entries add_sections_recent flip: map_map)
qed


section \<open>Searching\<close>

lemma mru_position_nth:
  assumes "distinct (map (\<lambda>x. term_id (se_terminal (re_entry x))) ranked)" "i < length ranked"
  shows "mru_position ranked (ranked ! i) = int i"
proof -
  let ?ids = "map (\<lambda>x. term_id (se_terminal (re_entry x))) ranked"
  have ok: "map_ok (zip ?ids [0..<length ranked])" using assms(1) by simp
  have "(?ids ! i, i) \<in> set (zip ?ids [0..<length ranked])"
    using assms(2) by (auto simp: set_zip intro!: exI [of _ i])
  then have "map_of (zip ?ids [0..<length ranked]) (?ids ! i) = Some i"
    using ok by (rule map_of_is_SomeI [rotated])
  with ok assms(2) show ?thesis by (simp add: mru_position_def jsmap map_of_rev_distinct)
qed

text \<open>
  the switcher with a query. It lists exactly the entries whose text matches, by fuzzy score, and
  among equal scores in the recency order.
\<close>

theorem switcher_search_order:
  assumes "js_comparator localeCompare" "trim query \<noteq> []"
    "distinct (map (\<lambda>x. term_id (se_terminal (re_entry x))) (recency_ranked localeCompare entries h cx))"
  shows "let ranked = recency_ranked localeCompare entries h cx;
      r = rankTerminalSwitcherEntries localeCompare entries h cx query;
      score = \<lambda>x. the (fuzzyScore (trim query) (re_searchText x))
    in mset r = mset (filter (\<lambda>x. fuzzyScore (trim query) (re_searchText x) \<noteq> None) ranked)
     \<and> sorted_wrt (\<lambda>a b. score a < score b \<or> score a = score b \<and>
          (\<exists>i j. i \<le> j \<and> j < length ranked \<and> ranked ! i = a \<and> ranked ! j = b)) r"
proof -
  define ranked where "ranked = recency_ranked localeCompare entries h cx"
  let ?cmp = "search_order localeCompare ranked"
  let ?zs = "scored_items re_searchText (trim query) ranked"
  let ?before = "\<lambda>a b. \<exists>i j. i \<le> j \<and> j < length ranked \<and> ranked ! i = a \<and> ranked ! j = b"
  have c: "js_comparator ?cmp" by (rule js_comparator_search [OF assms(1)])
  have r: "rankTerminalSwitcherEntries localeCompare entries h cx query = map fst (js_sort ?cmp ?zs)"
    using assms(2) by (simp add: rankTerminalSwitcherEntries_def ranked_def Let_def)
  have "mset (map fst (js_sort ?cmp ?zs)) = mset (map fst ?zs)"
    by (simp add: js_comparator.mset_js_sort [OF c])
  moreover have "sorted_wrt (\<lambda>a b. snd a < snd b \<or> snd a = snd b \<and> ?before (fst a) (fst b)) (js_sort ?cmp ?zs)"
  proof (rule sorted_wrt_mono_rel [OF _ js_comparator.ordered_js_sort [OF c]])
    fix a b
    assume in_z: "a \<in> set (js_sort ?cmp ?zs)" "b \<in> set (js_sort ?cmp ?zs)" and le: "?cmp a b \<le> 0"
    then have "fst a \<in> set (map fst ?zs)" "fst b \<in> set (map fst ?zs)" by (auto simp: set_js_sort)
    then have "fst a \<in> set ranked" "fst b \<in> set ranked" by (auto simp: set_scored_items(1))
    then obtain i j where ij: "i < length ranked" "ranked ! i = fst a" "j < length ranked" "ranked ! j = fst b"
      by (metis in_set_conv_nth)
    with assms(3) have "mru_position ranked (fst a) = int i" "mru_position ranked (fst b) = int j"
      using mru_position_nth [of ranked i] mru_position_nth [of ranked j] by (simp_all add: ranked_def [symmetric])
    with le have "snd a < snd b \<or> snd a = snd b \<and> i \<le> j"
      by (auto simp: search_order_def cmp_or_def split: if_splits)
    with ij show "snd a < snd b \<or> snd a = snd b \<and> ?before (fst a) (fst b)" by blast
  qed
  then have "sorted_wrt (\<lambda>a b. the (fuzzyScore (trim query) (re_searchText (fst a)))
        < the (fuzzyScore (trim query) (re_searchText (fst b)))
      \<or> the (fuzzyScore (trim query) (re_searchText (fst a)))
        = the (fuzzyScore (trim query) (re_searchText (fst b))) \<and> ?before (fst a) (fst b)) (js_sort ?cmp ?zs)"
    by (rule sorted_wrt_mono_rel [rotated]) (auto simp: set_js_sort dest!: set_scored_items(2))
  ultimately show ?thesis
    unfolding Let_def r ranked_def [symmetric] by (simp add: set_scored_items(1) sorted_wrt_map)
qed


definition sample_entry :: "string \<Rightarrow> int \<Rightarrow> switcher_entry" where
  "sample_entry t n = \<lparr>se_identity = sample_identity t, se_terminal = sample_terminal t n 0,
     se_session = sample_session, se_tab = sample_tab ''tab-1'' 0, se_serverName = ''local'',
     se_serverPosition = 0, se_title = t\<rparr>"

lemma switcher_recency_order_witness:
  "let r = rankTerminalSwitcherEntries code_unit_compare [sample_entry ''term-b'' 1, sample_entry ''term-a'' 2]
         [sample_identity ''term-a''] \<lparr>cx_activeSessionId = None, cx_activeTabId = None\<rparr> ''''
   in mset (map re_entry r) = mset [sample_entry ''term-b'' 1, sample_entry ''term-a'' 2]
    \<and> map re_recent r = [True, False]"
proof -
  have keys: "entry_key (sample_entry ''term-b'' 1) \<noteq> entry_key (sample_entry ''term-a'' 2)"
    by code_simp
  have t: "trim '''' = []" by code_simp
  let ?es = "[sample_entry ''term-b'' 1, sample_entry ''term-a'' 2]"
  let ?cx = "\<lparr>cx_activeSessionId = None, cx_activeTabId = None\<rparr>"
  have d: "distinct (map entry_key ?es)" using keys by simp
  note order = switcher_recency_order [OF js_comparator_code_unit sample_ok d t, of ?cx, unfolded Let_def]
  have k: "terminalFocusIdentityKey (sample_identity ''term-a'') = entry_key (sample_entry ''term-a'' 2)"
    by (simp add: sample_entry_def)
  have "mset (stableFallbackOrder code_unit_compare ?es ?cx) = mset ?es"
    unfolding stableFallbackOrder_def
    by (rule js_comparator.mset_js_sort [OF js_comparator_fallback [OF js_comparator_code_unit]])
  then have "mset (filter (\<lambda>e. entry_key e \<noteq> entry_key (sample_entry ''term-a'' 2)) (stableFallbackOrder code_unit_compare ?es ?cx))
      = {#sample_entry ''term-b'' 1#}"
    using keys by (simp add: mset_filter)
  then have "length (filter (\<lambda>e. entry_key e \<noteq> entry_key (sample_entry ''term-a'' 2)) (stableFallbackOrder code_unit_compare ?es ?cx)) = 1"
    by (metis size_mset size_single)
  with order k show ?thesis by (simp add: Let_def)
qed

lemma switcher_search_order_witness:
  "let cx = \<lparr>cx_activeSessionId = None, cx_activeTabId = None\<rparr>;
       ranked = recency_ranked code_unit_compare [sample_entry ''term-a'' 1] [] cx
   in mset (rankTerminalSwitcherEntries code_unit_compare [sample_entry ''term-a'' 1] [] cx ''term'') =
      mset (filter (\<lambda>x. fuzzyScore (trim ''term'') (re_searchText x) \<noteq> None) ranked)"
proof -
  have t: "trim ''term'' \<noteq> []" by code_simp
  have d: "distinct (map (\<lambda>x. term_id (se_terminal (re_entry x)))
      (recency_ranked code_unit_compare [sample_entry ''term-a'' 1] [] \<lparr>cx_activeSessionId = None, cx_activeTabId = None\<rparr>))"
    by (simp add: recency_ranked_def stableFallbackOrder_def js_sort_def map_from_def rank_history_def has_focus_def Let_def)
  from switcher_search_order [OF js_comparator_code_unit t d] show ?thesis unfolding Let_def by blast
qed

end
