(* ===== verification/Lister_Tree.thy ===== *)
theory Lister_Tree
  imports Fuzzy_Filter
begin

text \<open>
  The state of an expandable tree, \<^verbatim>\<open>packages/yaade-ui/src/lister/tree-state.ts\<close>: the cache of loaded
  children, the requests in flight, the expanded nodes and the flattened rows.

  \<^item> The data source is an environment: what \<open>getChildren\<close> returns is an argument of the
    operation that calls it, and what a promise settles with is an event. The part of
    \<open>ensureChildren\<close> after its \<open>await\<close> is an operation of its own.
  \<^item> A \<open>Set\<close> is a list without duplicates in insertion order. The listeners that were called are
    recorded in the state.
  \<^item> \<open>flatten\<close> recurses to the depth of the loaded tree. Its definition has fuel for the depth;
    \<open>None\<close> stands for the exhausted stack of a cyclic tree.
\<close>

record 'd lister_node =
  ln_id :: string
  ln_data :: 'd
  ln_isBranch :: bool
  ln_searchText :: string

datatype 'd children = NoChildren | Loaded "'d lister_node list" | Promised

record ('d, 's, 'l) tree_state =
  ts_source :: 's
  ts_childCache :: "(string, 'd lister_node list) jsmap"
  ts_loading :: "(string, nat) jsmap"
  ts_expanded :: "string list"
  ts_listeners :: "'l list"
  ts_generation :: nat
  ts_calls :: "'l list"

record 'd flat_entry =
  fe_node :: "'d lister_node"
  fe_depth :: nat
  fe_expanded :: bool
  fe_loading :: bool

definition set_add :: "'a \<Rightarrow> 'a list \<Rightarrow> 'a list" where
  "set_add x xs = (if x \<in> set xs then xs else xs @ [x])"

definition newTree :: "'s \<Rightarrow> string list \<Rightarrow> ('d, 's, 'l) tree_state" where
  "newTree source initiallyExpanded = \<lparr>ts_source = source, ts_childCache = [], ts_loading = [],
     ts_expanded = fold set_add initiallyExpanded [], ts_listeners = [], ts_generation = 0, ts_calls = []\<rparr>"

definition setSource :: "'s \<Rightarrow> ('d, 's, 'l) tree_state \<Rightarrow> ('d, 's, 'l) tree_state" where
  "setSource next s = s\<lparr>ts_source := next\<rparr>"

definition subscribe_tree :: "'l \<Rightarrow> ('d, 's, 'l) tree_state \<Rightarrow> ('d, 's, 'l) tree_state" where
  "subscribe_tree fn s = s\<lparr>ts_listeners := set_add fn (ts_listeners s)\<rparr>"

definition unsubscribe_tree :: "'l \<Rightarrow> ('d, 's, 'l) tree_state \<Rightarrow> ('d, 's, 'l) tree_state" where
  "unsubscribe_tree fn s = s\<lparr>ts_listeners := filter (\<lambda>l. l \<noteq> fn) (ts_listeners s)\<rparr>"

definition notify :: "('d, 's, 'l) tree_state \<Rightarrow> ('d, 's, 'l) tree_state" where
  "notify s = s\<lparr>ts_calls := ts_calls s @ ts_listeners s\<rparr>"

text \<open>The requests the code waits for: the node and the generation at the time of the request.\<close>

type_synonym request = "string \<times> nat"

definition ensureChildren ::
    "string \<Rightarrow> 'd children \<Rightarrow> ('d, 's, 'l) tree_state \<Rightarrow> ('d, 's, 'l) tree_state \<times> request list" where
  "ensureChildren i result s =
     (if map_has (ts_childCache s) i \<or> map_of (ts_loading s) i = Some (ts_generation s) then (s, [])
      else case result of
        NoChildren \<Rightarrow> (s, [])
      | Loaded ns \<Rightarrow> (notify (s\<lparr>ts_childCache := map_set i ns (ts_childCache s)\<rparr>), [])
      | Promised \<Rightarrow> (notify (s\<lparr>ts_loading := map_set i (ts_generation s) (ts_loading s)\<rparr>), [(i, ts_generation s)]))"

text \<open>The promise of a request settles: with entries, or rejected (\<open>None\<close>).\<close>

definition childrenSettled ::
    "request \<Rightarrow> 'd lister_node list option \<Rightarrow> ('d, 's, 'l) tree_state \<Rightarrow> ('d, 's, 'l) tree_state" where
  "childrenSettled r result s =
     (let (i, generation) = r;
          s1 = (case result of
                  Some entries \<Rightarrow> if ts_generation s = generation
                                  then s\<lparr>ts_childCache := map_set i entries (ts_childCache s)\<rparr> else s
                | None \<Rightarrow> s)
      in if map_of (ts_loading s1) i = Some generation
         then notify (s1\<lparr>ts_loading := map_delete i (ts_loading s1)\<rparr>) else s1)"

definition toggle ::
    "string \<Rightarrow> 'd children \<Rightarrow> ('d, 's, 'l) tree_state \<Rightarrow> ('d, 's, 'l) tree_state \<times> request list" where
  "toggle i result s =
     (if i \<in> set (ts_expanded s) then (notify (s\<lparr>ts_expanded := filter (\<lambda>e. e \<noteq> i) (ts_expanded s)\<rparr>), [])
      else ensureChildren i result (notify (s\<lparr>ts_expanded := set_add i (ts_expanded s)\<rparr>)))"

definition setExpanded :: "string list \<Rightarrow> ('d, 's, 'l) tree_state \<Rightarrow> ('d, 's, 'l) tree_state" where
  "setExpanded ids s = notify (s\<lparr>ts_expanded := fold set_add ids []\<rparr>)"

definition expandedIds :: "('d, 's, 'l) tree_state \<Rightarrow> string list" where
  "expandedIds s = ts_expanded s"

definition invalidate :: "('d, 's, 'l) tree_state \<Rightarrow> ('d, 's, 'l) tree_state" where
  "invalidate s = notify (s\<lparr>ts_generation := Suc (ts_generation s), ts_childCache := [], ts_loading := []\<rparr>)"

text \<open>\<open>answers\<close> is what \<open>getChildren\<close> returns for each expanded node.\<close>

fun ensure_all ::
    "(string \<Rightarrow> 'd children) \<Rightarrow> string list \<Rightarrow> ('d, 's, 'l) tree_state \<Rightarrow> ('d, 's, 'l) tree_state \<times> request list" where
  "ensure_all answers [] s = (s, [])"
| "ensure_all answers (i # ids) s =
     (let (s1, q1) = ensureChildren i (answers i) s; (s2, q2) = ensure_all answers ids s1 in (s2, q1 @ q2))"

definition reloadExpanded ::
    "(string \<Rightarrow> 'd children) \<Rightarrow> ('d, 's, 'l) tree_state \<Rightarrow> ('d, 's, 'l) tree_state \<times> request list" where
  "reloadExpanded answers s = ensure_all answers (ts_expanded s) (invalidate s)"

definition flat_row :: "('d, 's, 'l) tree_state \<Rightarrow> nat \<Rightarrow> 'd lister_node \<Rightarrow> 'd flat_entry" where
  "flat_row s depth n = \<lparr>fe_node = n, fe_depth = depth, fe_expanded = ln_id n \<in> set (ts_expanded s),
     fe_loading = map_has (ts_loading s) (ln_id n)\<rparr>"

definition open_children :: "('d, 's, 'l) tree_state \<Rightarrow> 'd lister_node \<Rightarrow> 'd lister_node list" where
  "open_children s n =
     (if ln_isBranch n \<and> ln_id n \<in> set (ts_expanded s)
      then (case map_of (ts_childCache s) (ln_id n) of Some cs \<Rightarrow> cs | None \<Rightarrow> []) else [])"

fun walk :: "nat \<Rightarrow> ('d, 's, 'l) tree_state \<Rightarrow> 'd lister_node list \<Rightarrow> nat \<Rightarrow> 'd flat_entry list option" where
  "walk fuel s [] depth = Some []"
| "walk 0 s (n # ns) depth = None"
| "walk (Suc fuel) s (n # ns) depth =
     (case walk fuel s (open_children s n) (Suc depth) of
        None \<Rightarrow> None
      | Some sub \<Rightarrow>
          (case walk (Suc fuel) s ns depth of
             None \<Rightarrow> None | Some rest \<Rightarrow> Some (flat_row s depth n # sub @ rest)))"

definition flatten :: "nat \<Rightarrow> 'd lister_node list \<Rightarrow> ('d, 's, 'l) tree_state \<Rightarrow> 'd flat_entry list option" where
  "flatten fuel roots s = walk fuel s roots 0"

section \<open>Requests and the cache\<close>

text \<open>
  A run of the tree: the state, the requests in flight and, as a record of what happened, every
  answer with the generation in which it was asked for.
\<close>

record ('d, 's, 'l) tree_run =
  tr_state :: "('d, 's, 'l) tree_state"
  tr_pending :: "request list"
  tr_answers :: "(string \<times> nat \<times> 'd lister_node list) list"

definition answer_log :: "string \<Rightarrow> 'd children \<Rightarrow> ('d, 's, 'l) tree_state \<Rightarrow> (string \<times> nat \<times> 'd lister_node list) list" where
  "answer_log i result s = (case result of Loaded ns \<Rightarrow> [(i, ts_generation s, ns)] | _ \<Rightarrow> [])"

inductive tree_step :: "('d, 's, 'l) tree_run \<Rightarrow> ('d, 's, 'l) tree_run \<Rightarrow> bool" where
  ensure: "ensureChildren i result (tr_state w) = (s', q) \<Longrightarrow>
     tree_step w \<lparr>tr_state = s', tr_pending = tr_pending w @ q,
       tr_answers = tr_answers w @ answer_log i result (tr_state w)\<rparr>"
| toggle: "toggle i result (tr_state w) = (s', q) \<Longrightarrow>
     tree_step w \<lparr>tr_state = s', tr_pending = tr_pending w @ q,
       tr_answers = tr_answers w @ answer_log i result (tr_state w)\<rparr>"
| settle: "r \<in> set (tr_pending w) \<Longrightarrow>
     tree_step w \<lparr>tr_state = childrenSettled r result (tr_state w), tr_pending = remove1 r (tr_pending w),
       tr_answers = tr_answers w @ (case result of Some ns \<Rightarrow> [(fst r, snd r, ns)] | None \<Rightarrow> [])\<rparr>"
| reload: "reloadExpanded answers (tr_state w) = (s', q) \<Longrightarrow>
     tree_step w \<lparr>tr_state = s', tr_pending = tr_pending w @ q,
       tr_answers = tr_answers w @ concat (map (\<lambda>i. answer_log i (answers i) s') (ts_expanded s'))\<rparr>"
| expand: "tree_step w (w\<lparr>tr_state := setExpanded ids (tr_state w)\<rparr>)"
| invalidate: "tree_step w (w\<lparr>tr_state := invalidate (tr_state w)\<rparr>)"
| source: "tree_step w (w\<lparr>tr_state := setSource src (tr_state w)\<rparr>)"
| listen: "tree_step w (w\<lparr>tr_state := subscribe_tree fn (tr_state w)\<rparr>)"
| unlisten: "tree_step w (w\<lparr>tr_state := unsubscribe_tree fn (tr_state w)\<rparr>)"


definition tree_ok :: "('d, 's, 'l) tree_state \<Rightarrow> request list \<Rightarrow> (string \<times> nat \<times> 'd lister_node list) list \<Rightarrow> bool" where
  "tree_ok s pending answers \<longleftrightarrow>
     distinct pending \<and> map_ok (ts_loading s) \<and> map_ok (ts_childCache s) \<and>
     (\<forall>r \<in> set pending. snd r \<le> ts_generation s) \<and>
     (\<forall>i g. map_of (ts_loading s) i = Some g \<longleftrightarrow> g = ts_generation s \<and> (i, g) \<in> set pending) \<and>
     (\<forall>i ns. map_of (ts_childCache s) i = Some ns \<longrightarrow> (i, ts_generation s, ns) \<in> set answers)"

declare map_of_eq_Some_iff [simp del]

lemma tree_ok_cong:
  "ts_loading s = ts_loading t \<Longrightarrow> ts_childCache s = ts_childCache t \<Longrightarrow> ts_generation s = ts_generation t \<Longrightarrow>
     tree_ok s q a = tree_ok t q a"
  by (simp add: tree_ok_def)

lemma tree_ok_mono: "tree_ok s q a \<Longrightarrow> set a \<subseteq> set b \<Longrightarrow> tree_ok s q b"
  unfolding tree_ok_def by blast

lemma notify_simps [simp]:
  "ts_loading (notify s) = ts_loading s" "ts_childCache (notify s) = ts_childCache s"
  "ts_generation (notify s) = ts_generation s" "ts_expanded (notify s) = ts_expanded s"
  by (simp_all add: notify_def)

lemma tree_ok_notify [simp]: "tree_ok (notify s) q a = tree_ok s q a"
  by (rule tree_ok_cong) simp_all

lemma tree_ok_updates [simp]:
  "tree_ok (s\<lparr>ts_expanded := e\<rparr>) q a = tree_ok s q a"
  "tree_ok (s\<lparr>ts_source := src\<rparr>) q a = tree_ok s q a"
  "tree_ok (s\<lparr>ts_listeners := ls\<rparr>) q a = tree_ok s q a"
  by (simp_all add: tree_ok_def)

lemma tree_ok_ensure:
  assumes "tree_ok s q a" "ensureChildren i result s = (s', q')"
  shows "tree_ok s' (q @ q') (a @ answer_log i result s)" "ts_generation s' = ts_generation s"
    "ts_expanded s' = ts_expanded s"
proof -
  have "(s' = s \<and> q' = []) \<or>
      (\<exists>ns. result = Loaded ns \<and> q' = [] \<and> s' = notify (s\<lparr>ts_childCache := map_set i ns (ts_childCache s)\<rparr>)) \<or>
      (q' = [(i, ts_generation s)] \<and> map_of (ts_loading s) i \<noteq> Some (ts_generation s) \<and>
        s' = notify (s\<lparr>ts_loading := map_set i (ts_generation s) (ts_loading s)\<rparr>))"
  proof (cases "map_has (ts_childCache s) i \<or> map_of (ts_loading s) i = Some (ts_generation s)")
    case True
    with assms(2) show ?thesis unfolding ensureChildren_def by simp
  next
    case False
    with assms(2) show ?thesis unfolding ensureChildren_def by (cases result) simp_all
  qed
  then consider (same) "s' = s" "q' = []"
    | (now) ns where "result = Loaded ns" "q' = []"
        "s' = notify (s\<lparr>ts_childCache := map_set i ns (ts_childCache s)\<rparr>)"
    | (later) "q' = [(i, ts_generation s)]" "map_of (ts_loading s) i \<noteq> Some (ts_generation s)"
        "s' = notify (s\<lparr>ts_loading := map_set i (ts_generation s) (ts_loading s)\<rparr>)"
    by blast
  note cases = this
  show "ts_generation s' = ts_generation s" by (cases rule: cases) simp_all
  show "ts_expanded s' = ts_expanded s" by (cases rule: cases) simp_all
  show "tree_ok s' (q @ q') (a @ answer_log i result s)"
  proof (cases rule: cases)
    case same
    with assms(1) show ?thesis using tree_ok_mono [of s q a] by simp
  next
    case now
    with assms(1) show ?thesis
      by (auto simp: tree_ok_def jsmap answer_log_def distinct_update split: if_splits)
  next
    case later
    with assms(1) have "(i, ts_generation s) \<notin> set q" by (auto simp: tree_ok_def)
    with later assms(1) show ?thesis
      by (auto simp: tree_ok_def jsmap distinct_update split: if_splits)
  qed
qed

lemma tree_ok_ensure_all:
  "tree_ok s q a \<Longrightarrow> ensure_all answers ids s = (s', q') \<Longrightarrow>
     tree_ok s' (q @ q') (a @ concat (map (\<lambda>i. answer_log i (answers i) s) ids))
     \<and> ts_generation s' = ts_generation s \<and> ts_expanded s' = ts_expanded s"
proof (induction answers ids s arbitrary: q a s' q' rule: ensure_all.induct)
  case (2 answers i ids s)
  obtain s1 q1 where 1: "ensureChildren i (answers i) s = (s1, q1)" by fastforce
  obtain q2 where 2: "ensure_all answers ids s1 = (s', q2)" "q' = q1 @ q2"
    using "2.prems"(2) 1 by (auto split: prod.splits)
  note ok = tree_ok_ensure [OF "2.prems"(1) 1]
  have "answer_log j (answers j) s1 = answer_log j (answers j) s" for j
    using ok(2) by (simp add: answer_log_def split: children.split)
  with "2.IH" [OF 1 [symmetric] refl ok(1) 2(1)] 2(2) ok show ?case by simp
qed simp

lemma tree_ok_invalidate: "tree_ok s q a \<Longrightarrow> tree_ok (invalidate s) q a"
  unfolding invalidate_def tree_ok_notify by (fastforce simp: tree_ok_def)

lemma tree_ok_settled:
  assumes "tree_ok s q a" "r \<in> set q"
  shows "tree_ok (childrenSettled r result s) (remove1 r q) (a @ (case result of Some ns \<Rightarrow> [(fst r, snd r, ns)] | None \<Rightarrow> []))"
proof -
  obtain i g where r: "r = (i, g)" by fastforce
  have dist: "distinct q" using assms(1) by (simp add: tree_ok_def)
  define s1 where "s1 = (case result of
      Some entries \<Rightarrow> if ts_generation s = g then s\<lparr>ts_childCache := map_set i entries (ts_childCache s)\<rparr> else s
    | None \<Rightarrow> s)"
  have s1: "ts_loading s1 = ts_loading s" "ts_generation s1 = ts_generation s"
    by (simp_all add: s1_def split: option.split)
  have cache: "\<forall>j ns. map_of (ts_childCache s1) j = Some ns \<longrightarrow>
      (j, ts_generation s, ns) \<in> set (a @ (case result of Some ns \<Rightarrow> [(i, g, ns)] | None \<Rightarrow> []))"
    "map_ok (ts_childCache s1)"
    using assms(1) by (auto simp: tree_ok_def s1_def jsmap distinct_update split: option.splits if_splits)
  have eq: "childrenSettled r result s = (if map_of (ts_loading s1) i = Some g
      then notify (s1\<lparr>ts_loading := map_delete i (ts_loading s1)\<rparr>) else s1)"
    unfolding childrenSettled_def r prod.case Let_def s1_def [symmetric] by simp
  show ?thesis
  proof (cases "g = ts_generation s")
    case True
    with assms r s1 have "map_of (ts_loading s1) i = Some g" by (auto simp: tree_ok_def)
    with assms(1) cache s1 True show ?thesis
      unfolding eq by (auto simp: tree_ok_def r jsmap dist distinct_delete split: if_splits)
  next
    case False
    with assms(1) s1 have "map_of (ts_loading s1) i \<noteq> Some g" by (auto simp: tree_ok_def)
    with assms(1) cache s1 False show ?thesis
      unfolding eq by (auto simp: tree_ok_def r dist)
  qed
qed


definition run_ok :: "('d, 's, 'l) tree_run \<Rightarrow> bool" where
  "run_ok w \<longleftrightarrow> tree_ok (tr_state w) (tr_pending w) (tr_answers w)"

lemma run_ok_step: "tree_step w w' \<Longrightarrow> run_ok w \<Longrightarrow> run_ok w'"
proof (induction rule: tree_step.induct)
  case (ensure i result w s' q)
  then show ?case using tree_ok_ensure(1) by (fastforce simp: run_ok_def)
next
  case (toggle i result w s' q)
  show ?case
  proof (cases "i \<in> set (ts_expanded (tr_state w))")
    case True
    with toggle have "s' = notify ((tr_state w)\<lparr>ts_expanded := filter (\<lambda>e. e \<noteq> i) (ts_expanded (tr_state w))\<rparr>)" "q = []"
      by (simp_all add: toggle_def)
    with toggle.prems show ?thesis
      by (simp add: run_ok_def tree_ok_mono [where a = "tr_answers w"])
  next
    case False
    define s1 where "s1 = notify ((tr_state w)\<lparr>ts_expanded := set_add i (ts_expanded (tr_state w))\<rparr>)"
    have "tree_ok s1 (tr_pending w) (tr_answers w)"
      using toggle.prems by (simp add: run_ok_def s1_def)
    moreover have "ensureChildren i result s1 = (s', q)"
      using toggle.hyps False by (simp add: toggle_def s1_def)
    moreover have "answer_log i result s1 = answer_log i result (tr_state w)"
      by (simp add: answer_log_def s1_def split: children.split)
    ultimately show ?thesis using tree_ok_ensure(1) by (fastforce simp: run_ok_def)
  qed
next
  case (settle r w result)
  then show ?case using tree_ok_settled [of "tr_state w" "tr_pending w" "tr_answers w" r result]
    by (simp add: run_ok_def)
next
  case (reload answers w s' q)
  have "tree_ok (invalidate (tr_state w)) (tr_pending w) (tr_answers w)"
    using reload.prems tree_ok_invalidate by (auto simp: run_ok_def)
  from tree_ok_ensure_all [OF this reload.hyps [unfolded reloadExpanded_def]]
  have ok: "tree_ok s' (tr_pending w @ q) (tr_answers w @
        concat (map (\<lambda>i. answer_log i (answers i) (invalidate (tr_state w))) (ts_expanded (tr_state w))))"
    and s': "ts_generation s' = ts_generation (invalidate (tr_state w))" "ts_expanded s' = ts_expanded (tr_state w)"
    by (simp_all add: invalidate_def)
  have "answer_log i (answers i) s' = answer_log i (answers i) (invalidate (tr_state w))" for i
    using s'(1) by (simp add: answer_log_def split: children.split)
  with ok s' show ?case by (simp add: run_ok_def)
next
  case (expand w ids)
  then show ?case by (simp add: run_ok_def setExpanded_def)
next
  case (invalidate w)
  then show ?case by (simp add: run_ok_def tree_ok_invalidate)
next
  case (source w src)
  then show ?case by (simp add: run_ok_def setSource_def)
next
  case (listen w fn)
  then show ?case by (simp add: run_ok_def subscribe_tree_def)
next
  case (unlisten w fn)
  then show ?case by (simp add: run_ok_def unsubscribe_tree_def)
qed

definition fresh_run :: "'s \<Rightarrow> string list \<Rightarrow> ('d, 's, 'l) tree_run" where
  "fresh_run source ids = \<lparr>tr_state = newTree source ids, tr_pending = [], tr_answers = []\<rparr>"

lemma run_ok_reachable: "tree_step\<^sup>*\<^sup>* (fresh_run source ids) w \<Longrightarrow> run_ok w"
proof (induction rule: rtranclp_induct)
  case base
  then show ?case by (simp add: run_ok_def fresh_run_def newTree_def tree_ok_def)
next
  case (step w w')
  then show ?case using run_ok_step by blast
qed

text \<open>
  C38: loading and staleness in every reachable state of the tree, whatever order requests settle in.
  A node shows its spinner exactly while a request of the current generation is in flight for
  it, never two at once; and cached children are always an answer to a request made since the
  last invalidation, so a slow answer from before a reload is never shown.
\<close>

theorem tree_no_stale_children:
  assumes "tree_step\<^sup>*\<^sup>* (fresh_run source ids) w"
  shows "(\<forall>i. map_has (ts_loading (tr_state w)) i \<longleftrightarrow> (i, ts_generation (tr_state w)) \<in> set (tr_pending w))
    \<and> distinct (tr_pending w)
    \<and> (\<forall>i ns. map_of (ts_childCache (tr_state w)) i = Some ns \<longrightarrow>
          (i, ts_generation (tr_state w), ns) \<in> set (tr_answers w))"
  using run_ok_reachable [OF assms] by (auto simp: run_ok_def tree_ok_def)

section \<open>Flattened rows\<close>

lemma walk_length: "walk fuel s ns d = Some rs \<Longrightarrow> \<forall>r \<in> set rs. d \<le> fe_depth r"
  by (induction fuel s ns d arbitrary: rs rule: walk.induct)
    (fastforce split: option.splits simp: flat_row_def)+

text \<open>A tree whose loaded part has no cycle: every open child has a smaller rank.\<close>

definition ranked_tree :: "('d, 's, 'l) tree_state \<Rightarrow> ('d lister_node \<Rightarrow> nat) \<Rightarrow> bool" where
  "ranked_tree s rnk \<longleftrightarrow> (\<forall>n. \<forall>c \<in> set (open_children s n). rnk c < rnk n)"

lemma walk_total:
  "ranked_tree s rnk \<Longrightarrow> \<forall>n \<in> set ns. rnk n < fuel \<Longrightarrow> \<exists>rs. walk fuel s ns d = Some rs"
proof (induction fuel s ns d rule: walk.induct)
  case (3 fuel s n ns d)
  have "\<forall>c \<in> set (open_children s n). rnk c < fuel"
    using 3(3,4) by (fastforce simp: ranked_tree_def)
  with 3(1) [OF 3(3)] obtain sub where sub: "walk fuel s (open_children s n) (Suc d) = Some sub" by blast
  with 3 show ?case by fastforce
qed auto


lemma parent_of_append:
  assumes "parent_of ds i p" "i < length ds"
  shows "parent_of (as @ ds @ bs) (length as + i) (length as + p)"
proof -
  from assms have p: "p < i" "p < length ds" by (auto simp: parent_of_def)
  have "ds ! i \<le> (as @ ds @ bs) ! k" if k: "length as + p < k" "k < length as + i" for k
  proof -
    from k obtain j where "k = length as + j" "p < j" "j < i"
      by (metis add_less_cancel_left le_add1 le_Suc_ex less_imp_le order_trans)
    with assms show ?thesis by (auto simp: parent_of_def nth_append)
  qed
  with assms p show ?thesis by (auto simp: parent_of_def nth_append)
qed

definition hangs :: "('d, 's, 'l) tree_state \<Rightarrow> 'd flat_entry list \<Rightarrow> nat \<Rightarrow> bool" where
  "hangs s rs i \<longleftrightarrow> (\<exists>p. parent_of (map fe_depth rs) i p \<and>
     fe_node (rs ! i) \<in> set (open_children s (fe_node (rs ! p))))"

lemma hangs_append:
  assumes "hangs s rs i" "i < length rs"
  shows "hangs s (as @ rs @ bs) (length as + i)"
proof -
  from assms(1) obtain p where p: "parent_of (map fe_depth rs) i p"
    "fe_node (rs ! i) \<in> set (open_children s (fe_node (rs ! p)))" by (auto simp: hangs_def)
  then have "p < i" by (simp add: parent_of_def)
  with p assms(2) parent_of_append [OF p(1), of "map fe_depth as" "map fe_depth bs"] show ?thesis
    unfolding hangs_def by (intro exI [of _ "length as + p"]) (simp add: nth_append)
qed

lemma walk_structure:
  "walk fuel s ns d = Some rs \<Longrightarrow> i < length rs \<Longrightarrow>
     (fe_depth (rs ! i) = d \<and> fe_node (rs ! i) \<in> set ns) \<or> hangs s rs i"
proof (induction fuel s ns d arbitrary: rs i rule: walk.induct)
  case (3 fuel s n ns d)
  from "3.prems"(1) obtain sub rest where
    sub: "walk fuel s (open_children s n) (Suc d) = Some sub" and
    rest: "walk (Suc fuel) s ns d = Some rest" and rs: "rs = flat_row s d n # sub @ rest"
    by (auto split: option.splits)
  consider "i = 0" | j where "i = Suc j" "j < length sub"
    | j where "i = Suc (length sub) + j" "j < length rest"
    using "3.prems"(2) rs
    by (cases i) (auto, metis add_diff_inverse_nat add_less_cancel_left)
  then show ?case
  proof cases
    case 1
    then show ?thesis by (simp add: rs flat_row_def)
  next
    case 2
    from "3.IH"(1) [OF sub 2(2)] show ?thesis
    proof
      assume here: "fe_depth (sub ! j) = Suc d \<and> fe_node (sub ! j) \<in> set (open_children s n)"
      have "Suc d \<le> fe_depth (sub ! k)" if "k < length sub" for k
        using walk_length [OF sub] that by simp
      with here 2 have "parent_of (map fe_depth rs) i 0"
        by (auto simp: parent_of_def rs flat_row_def nth_append nth_Cons' nth_map)
      with here 2 show ?thesis
        by (auto simp: hangs_def rs flat_row_def nth_append)
    next
      assume "hangs s sub j"
      from hangs_append [OF this 2(2), of "[flat_row s d n]" rest] 2 show ?thesis by (simp add: rs)
    qed
  next
    case 3
    from "3.IH"(2) [OF sub rest 3(2)] show ?thesis
    proof
      assume "fe_depth (rest ! j) = d \<and> fe_node (rest ! j) \<in> set ns"
      with 3 show ?thesis by (simp add: rs nth_append)
    next
      assume "hangs s rest j"
      from hangs_append [OF this 3(2), of "flat_row s d n # sub" "[]"] 3 show ?thesis by (simp add: rs)
    qed
  qed
qed simp_all



definition sample_node :: "string \<Rightarrow> bool \<Rightarrow> nat lister_node" where
  "sample_node i b = \<lparr>ln_id = i, ln_data = 0, ln_isBranch = b, ln_searchText = i\<rparr>"

definition sample_tree_state :: "(nat, nat, nat) tree_state" where
  "sample_tree_state = fst (toggle ''src'' (Loaded [sample_node ''a'' False]) (newTree 0 []))"

lemma open_children_cases:
  "open_children s n = [] \<or>
     ln_isBranch n \<and> map_of (ts_childCache s) (ln_id n) = Some (open_children s n)"
  by (simp add: open_children_def split: option.split)


definition sample_tree_run :: "(nat, nat, nat) tree_run" where
  "sample_tree_run = (let (s, q) = toggle ''src'' Promised (newTree 0 [])
     in \<lparr>tr_state = s, tr_pending = q, tr_answers = []\<rparr>)"

lemma sample_tree_run_reachable: "tree_step\<^sup>*\<^sup>* (fresh_run 0 []) sample_tree_run"
proof -
  obtain s q where t: "toggle ''src'' Promised (newTree 0 [] :: (nat, nat, nat) tree_state) = (s, q)" by fastforce
  have "tree_step (fresh_run 0 []) sample_tree_run"
    using tree_step.toggle [of "''src''" Promised "fresh_run 0 [] :: (nat, nat, nat) tree_run" s q] t
    by (simp add: fresh_run_def sample_tree_run_def answer_log_def)
  then show ?thesis by blast
qed

lemma tree_no_stale_children_witness:
  "map_has (ts_loading (tr_state sample_tree_run)) ''src'' \<longleftrightarrow>
     (''src'', ts_generation (tr_state sample_tree_run)) \<in> set (tr_pending sample_tree_run)"
  using tree_no_stale_children [OF sample_tree_run_reachable] by blast

end
