(* ===== verification/Server_Definitions.thy ===== *)
theory Server_Definitions
  imports Focus_History Fuzzy_Filter
begin

text \<open>
  The servers a client knows, the first part of
  \<^verbatim>\<open>packages/yaade-host-client/src/multi-server.ts\<close>: normalising a definition, decoding a stored
  list, and loading and saving the list with bearer tokens kept in session storage only.

  \<^item> A JSON value is a datatype; the members of an object have distinct names. Names inherited
    from \<open>Object.prototype\<close> are ignored.
  \<^item> \<open>JSON.parse\<close> and \<open>JSON.stringify\<close> are parameters, as are the URL functions of the platform:
    \<open>normalizeUrl\<close> is \<open>normalizeHostBaseUrl\<close> (\<open>None\<close> where it throws) and \<open>hostname\<close> is
    \<open>new URL(url).hostname\<close>.
  \<^item> A storage is absent or a \<open>web_storage\<close>; reading or writing it may throw.
\<close>

section \<open>JSON values\<close>

datatype json = JNull | JBool bool | JNum jsnum | JStr string | JArr "json list" | JObj "(string \<times> json) list"

fun isRecord :: "json \<Rightarrow> bool" where
  "isRecord (JObj _) = True"
| "isRecord _ = False"

fun member :: "json \<Rightarrow> string \<Rightarrow> json option" where
  "member (JObj kvs) k = map_of kvs k"
| "member _ k = None"

fun nonEmptyString :: "json option \<Rightarrow> string option" where
  "nonEmptyString (Some (JStr s)) = (if trim s \<noteq> [] then Some (trim s) else None)"
| "nonEmptyString _ = None"

section \<open>Definitions\<close>

record server_definition =
  sd_id :: string
  sd_name :: string
  sd_url :: string
  sd_token :: "string option"

definition SERVER_ID_PATTERN :: "string \<Rightarrow> bool" where
  "SERVER_ID_PATTERN s \<longleftrightarrow> 1 \<le> length s \<and> length s \<le> 48 \<and> list_all id_char s"

definition normalizeServerDefinition ::
    "(string \<Rightarrow> string option) \<Rightarrow> (string \<Rightarrow> string) \<Rightarrow> json \<Rightarrow> server_definition option" where
  "normalizeServerDefinition normalizeUrl hostname raw =
     (if \<not> isRecord raw then None
      else case nonEmptyString (member raw ''url'') of
        None \<Rightarrow> None
      | Some rawUrl \<Rightarrow>
          (case normalizeUrl rawUrl of
             None \<Rightarrow> None
           | Some url \<Rightarrow>
               let name = (case nonEmptyString (member raw ''name'') of Some n \<Rightarrow> n | None \<Rightarrow> hostname url)
               in case nonEmptyString (member raw ''id'') of
                    None \<Rightarrow> None
                  | Some i \<Rightarrow>
                      if \<not> SERVER_ID_PATTERN i then None
                      else Some \<lparr>sd_id = i, sd_name = name, sd_url = url,
                                 sd_token = nonEmptyString (member raw ''token'')\<rparr>))"

fun decode_loop ::
    "(json \<Rightarrow> server_definition option) \<Rightarrow> json list \<Rightarrow> string set \<Rightarrow> string set \<Rightarrow> server_definition list" where
  "decode_loop normalise [] seen urls = []"
| "decode_loop normalise (v # vs) seen urls =
     (case normalise v of
        None \<Rightarrow> decode_loop normalise vs seen urls
      | Some d \<Rightarrow>
          if sd_id d \<in> seen \<or> sd_url d \<in> urls then decode_loop normalise vs seen urls
          else d # decode_loop normalise vs (insert (sd_id d) seen) (insert (sd_url d) urls))"

fun stored_values :: "json \<Rightarrow> json list" where
  "stored_values (JArr vs) = vs"
| "stored_values (JObj kvs) = (case map_of kvs ''servers'' of Some (JArr vs) \<Rightarrow> vs | _ \<Rightarrow> [])"
| "stored_values _ = []"

definition decodeStoredServerDefinitions ::
    "(string \<Rightarrow> string option) \<Rightarrow> (string \<Rightarrow> string) \<Rightarrow> json \<Rightarrow> server_definition list" where
  "decodeStoredServerDefinitions normalizeUrl hostname raw =
     decode_loop (normalizeServerDefinition normalizeUrl hostname) (stored_values raw) {} {}"

section \<open>Storage\<close>

definition SERVER_STORAGE_KEY :: string where
  "SERVER_STORAGE_KEY = ''yaade:server-definitions''"

definition LEGACY_TOKEN_SESSION_KEY :: string where
  "LEGACY_TOKEN_SESSION_KEY = ''yaade:legacy-server-tokens''"

type_synonym token_map = "(string, string) jsmap"

text \<open>\<open>raw ? JSON.parse(raw) : fallback\<close> on what \<open>getItem\<close> returned.\<close>

definition parse_or :: "(string \<Rightarrow> json option) \<Rightarrow> json \<Rightarrow> string option \<Rightarrow> json option" where
  "parse_or parse fallback raw = (if truthy raw then parse (the raw) else Some fallback)"

fun token_entries :: "(string \<times> json) list \<Rightarrow> (string \<times> string) list" where
  "token_entries [] = []"
| "token_entries ((k, JStr s) # kvs) = (if trim s \<noteq> [] then (k, s) # token_entries kvs else token_entries kvs)"
| "token_entries (_ # kvs) = token_entries kvs"

definition sessionTokenMap :: "(string \<Rightarrow> json option) \<Rightarrow> web_storage option \<Rightarrow> token_map" where
  "sessionTokenMap parse session =
     (case session of
        None \<Rightarrow> []
      | Some s \<Rightarrow>
          (case getItem s LEGACY_TOKEN_SESSION_KEY of
             None \<Rightarrow> []
           | Some raw \<Rightarrow>
               (case parse_or parse (JObj []) raw of
                  Some (JObj kvs) \<Rightarrow> map_from (token_entries kvs)
                | _ \<Rightarrow> [])))"

definition tokens_json :: "token_map \<Rightarrow> json" where
  "tokens_json tokens = JObj (map (\<lambda>(k, t). (k, JStr t)) tokens)"

definition saveSessionTokenMap :: "(json \<Rightarrow> string) \<Rightarrow> token_map \<Rightarrow> web_storage option \<Rightarrow> web_storage option" where
  "saveSessionTokenMap stringify tokens session =
     (case session of
        None \<Rightarrow> None
      | Some s \<Rightarrow>
          (case setItem s LEGACY_TOKEN_SESSION_KEY (stringify (tokens_json tokens)) of
             None \<Rightarrow> Some s | Some s' \<Rightarrow> Some s'))"

text \<open>A definition without its token, as it is persisted.\<close>

definition definition_json :: "server_definition \<Rightarrow> json" where
  "definition_json d = JObj [(''id'', JStr (sd_id d)), (''name'', JStr (sd_name d)), (''url'', JStr (sd_url d))]"

text \<open>The loop that moves tokens of stored definitions to the session and restores them from it.\<close>

fun migrate :: "server_definition list \<Rightarrow> token_map \<Rightarrow> bool \<Rightarrow> server_definition list \<times> token_map \<times> bool" where
  "migrate [] tokens migrated = ([], tokens, migrated)"
| "migrate (d # ds) tokens migrated =
     (let (tokens, migrated) =
            (case sd_token d of
               Some t \<Rightarrow> if truthy (Some t) \<and> \<not> truthy (map_of tokens (sd_id d))
                         then (map_set (sd_id d) t tokens, True) else (tokens, migrated)
             | None \<Rightarrow> (tokens, migrated));
          d' = (if truthy (sd_token d) \<or> \<not> truthy (map_of tokens (sd_id d)) then d
                else d\<lparr>sd_token := map_of tokens (sd_id d)\<rparr>);
          (ds', tokens', migrated') = migrate ds tokens migrated
      in (d' # ds', tokens', migrated'))"

text \<open>The result, and the local and the session storage after the call.\<close>

definition loadStoredServerDefinitions ::
    "(string \<Rightarrow> string option) \<Rightarrow> (string \<Rightarrow> string) \<Rightarrow> (string \<Rightarrow> json option) \<Rightarrow> (json \<Rightarrow> string) \<Rightarrow>
     web_storage option \<Rightarrow> web_storage option \<Rightarrow>
     server_definition list \<times> web_storage option \<times> web_storage option" where
  "loadStoredServerDefinitions normalizeUrl hostname parse stringify storage session =
     (case storage of
        None \<Rightarrow> ([], storage, session)
      | Some st \<Rightarrow>
          (case getItem st SERVER_STORAGE_KEY of
             None \<Rightarrow> ([], storage, session)
           | Some raw \<Rightarrow>
               (case parse_or parse (JArr []) raw of
                  None \<Rightarrow> ([], storage, session)
                | Some v \<Rightarrow>
                    let (result, tokens, migrated) =
                          migrate (decodeStoredServerDefinitions normalizeUrl hostname v)
                                  (sessionTokenMap parse session) False
                    in if migrated then
                         let session' = saveSessionTokenMap stringify tokens session
                         in case setItem st SERVER_STORAGE_KEY (stringify (JArr (map definition_json result))) of
                              None \<Rightarrow> ([], storage, session')
                            | Some st' \<Rightarrow> (result, Some st', session')
                       else (result, storage, session))))"

definition with_tokens :: "server_definition list \<Rightarrow> token_map \<Rightarrow> token_map" where
  "with_tokens ds tokens =
     fold (\<lambda>d m. if truthy (sd_token d) then map_set (sd_id d) (the (sd_token d)) m else m) ds tokens"

definition saveStoredServerDefinitions ::
    "(string \<Rightarrow> json option) \<Rightarrow> (json \<Rightarrow> string) \<Rightarrow> server_definition list \<Rightarrow> web_storage option \<Rightarrow>
     web_storage option \<Rightarrow> web_storage option \<times> web_storage option" where
  "saveStoredServerDefinitions parse stringify definitions storage session =
     (case storage of
        None \<Rightarrow> (storage, session)
      | Some st \<Rightarrow>
          let tokens = with_tokens definitions (sessionTokenMap parse session);
              session' = saveSessionTokenMap stringify tokens session
          in case setItem st SERVER_STORAGE_KEY (stringify (JArr (map definition_json definitions))) of
               None \<Rightarrow> (storage, session')
             | Some st' \<Rightarrow> (Some st', session'))"


section \<open>Decoding\<close>

lemma normalise_id: "normalizeServerDefinition nu hn v = Some d \<Longrightarrow> SERVER_ID_PATTERN (sd_id d)"
  by (auto simp: normalizeServerDefinition_def Let_def split: if_splits option.splits)

lemma decode_loop_from: "d \<in> set (decode_loop f vs seen urls) \<Longrightarrow> \<exists>v \<in> set vs. f v = Some d"
  by (induction f vs seen urls rule: decode_loop.induct) (auto split: option.splits if_splits)

lemma decode_loop_facts:
  "distinct (map sd_id (decode_loop f vs seen urls)) \<and> distinct (map sd_url (decode_loop f vs seen urls))
   \<and> sd_id ` set (decode_loop f vs seen urls) \<inter> seen = {} \<and> sd_url ` set (decode_loop f vs seen urls) \<inter> urls = {}"
  by (induction f vs seen urls rule: decode_loop.induct) (auto split: option.splits)

lemma decode_loop_covers:
  "v \<in> set vs \<Longrightarrow> f v = Some d \<Longrightarrow>
     sd_id d \<in> seen \<union> sd_id ` set (decode_loop f vs seen urls)
     \<or> sd_url d \<in> urls \<union> sd_url ` set (decode_loop f vs seen urls)"
proof (induction f vs seen urls rule: decode_loop.induct)
  case (2 f w vs seen urls)
  show ?case
  proof (cases "f w")
    case None
    with 2 show ?thesis by auto
  next
    case (Some e)
    show ?thesis
    proof (cases "v = w")
      case True
      with 2(5) Some show ?thesis by auto
    next
      case False
      with 2(4) have "v \<in> set vs" by simp
      with 2(2) [OF Some _ _ 2(5)] 2(3) [OF Some _ _ 2(5)] Some show ?thesis
        by (cases "sd_id e \<in> seen \<or> sd_url e \<in> urls") auto
    qed
  qed
qed simp

lemma decode_loop_all:
  "(\<And>v. v \<in> set vs \<Longrightarrow> f v = Some (g v)) \<Longrightarrow> distinct (map (sd_id \<circ> g) vs) \<Longrightarrow> distinct (map (sd_url \<circ> g) vs) \<Longrightarrow>
   (sd_id \<circ> g) ` set vs \<inter> seen = {} \<Longrightarrow> (sd_url \<circ> g) ` set vs \<inter> urls = {} \<Longrightarrow>
     decode_loop f vs seen urls = map g vs"
proof (induction vs arbitrary: seen urls)
  case (Cons v vs)
  have "decode_loop f vs (insert (sd_id (g v)) seen) (insert (sd_url (g v)) urls) = map g vs"
    by (rule Cons.IH) (use Cons.prems in auto)
  with Cons.prems show ?case by auto
qed simp


section \<open>Saving and loading\<close>

text \<open>What the settings form and \<open>normalizeServerDefinition\<close> both produce.\<close>

definition definition_ok :: "(string \<Rightarrow> string option) \<Rightarrow> server_definition \<Rightarrow> bool" where
  "definition_ok nu d \<longleftrightarrow> SERVER_ID_PATTERN (sd_id d) \<and> trim (sd_name d) = sd_name d \<and> sd_name d \<noteq> []
     \<and> trim (sd_url d) = sd_url d \<and> sd_url d \<noteq> [] \<and> nu (sd_url d) = Some (sd_url d)
     \<and> (case sd_token d of None \<Rightarrow> True | Some t \<Rightarrow> trim t \<noteq> [])"

lemma dropWhile_none: "list_all (\<lambda>c. \<not> P c) s \<Longrightarrow> dropWhile P s = s"
  by (cases s) auto

lemma id_char_no_space: "id_char c \<Longrightarrow> \<not> is_space c"
  by (auto simp: id_char_def is_space_def Let_def)

lemma trim_id: "list_all id_char s \<Longrightarrow> trim s = s"
proof -
  assume "list_all id_char s"
  then have "list_all (\<lambda>c. \<not> is_space c) s" by (auto simp: list_all_iff id_char_no_space)
  then show ?thesis by (simp add: trim_def dropWhile_none list_all_rev)
qed

lemma normalise_definition_json:
  "definition_ok nu d \<Longrightarrow> normalizeServerDefinition nu hn (definition_json d) = Some (d\<lparr>sd_token := None\<rparr>)"
  by (auto simp: definition_ok_def SERVER_ID_PATTERN_def normalizeServerDefinition_def definition_json_def
      trim_id Let_def)

lemma decode_saved:
  assumes "list_all (definition_ok nu) ds" "distinct (map sd_id ds)" "distinct (map sd_url ds)"
  shows "decodeStoredServerDefinitions nu hn (JArr (map definition_json ds)) = map (\<lambda>d. d\<lparr>sd_token := None\<rparr>) ds"
proof -
  define dec where "dec = (\<lambda>v. the (normalizeServerDefinition nu hn v))"
  have dec: "normalizeServerDefinition nu hn (definition_json d) = Some (d\<lparr>sd_token := None\<rparr>)" if "d \<in> set ds" for d
    using that assms(1) normalise_definition_json by (auto simp: list_all_iff)
  then have b: "dec (definition_json d) = d\<lparr>sd_token := None\<rparr>" if "d \<in> set ds" for d
    using that by (simp add: dec_def)
  have "decode_loop (normalizeServerDefinition nu hn) (map definition_json ds) {} {} = map dec (map definition_json ds)"
  proof (rule decode_loop_all)
    show "normalizeServerDefinition nu hn v = Some (dec v)" if "v \<in> set (map definition_json ds)" for v
      using that dec b by auto
    have eqs: "map (sd_id \<circ> dec) (map definition_json ds) = map sd_id ds"
      "map (sd_url \<circ> dec) (map definition_json ds) = map sd_url ds"
      using b by auto
    from assms(2,3) show "distinct (map (sd_id \<circ> dec) (map definition_json ds))"
      "distinct (map (sd_url \<circ> dec) (map definition_json ds))" by (simp_all only: eqs)
  qed simp_all
  then show ?thesis using b by (simp add: decodeStoredServerDefinitions_def)
qed

lemma migrate_no_tokens:
  "list_all (\<lambda>d. sd_token d = None) ds \<Longrightarrow> (\<forall>k. map_of tokens k \<noteq> Some '''') \<Longrightarrow>
     migrate ds tokens m = (map (\<lambda>d. d\<lparr>sd_token := map_of tokens (sd_id d)\<rparr>) ds, tokens, m)"
  by (induction ds) (auto simp: truthy_def)

lemma with_tokens_lookup:
  "distinct (map sd_id ds) \<Longrightarrow> list_all (\<lambda>d. sd_token d \<noteq> Some '''') ds \<Longrightarrow>
     map_of (with_tokens ds tokens) k =
       (case find (\<lambda>d. sd_id d = k \<and> sd_token d \<noteq> None) ds of Some d \<Rightarrow> sd_token d | None \<Rightarrow> map_of tokens k)"
  unfolding with_tokens_def
proof (induction ds arbitrary: tokens)
  case (Cons d ds)
  have none: "find (\<lambda>e. sd_id e = sd_id d \<and> sd_token e \<noteq> None) ds = None"
    using Cons.prems(1) by (auto simp: find_None_iff image_iff)
  show ?case
  proof (cases "sd_token d")
    case None
    with Cons show ?thesis by (simp add: truthy_def)
  next
    case (Some t)
    with Cons.prems(2) have t: "truthy (sd_token d)" by (simp add: truthy_def)
    show ?thesis
    proof (cases "k = sd_id d")
      case True
      with Cons none Some t show ?thesis by (simp add: jsmap)
    next
      case False
      with Cons Some t show ?thesis by (simp add: jsmap split: option.split)
    qed
  qed
qed simp


lemma token_entries_json: "\<forall>(k, t) \<in> set tokens. trim t \<noteq> [] \<Longrightarrow> token_entries (map (\<lambda>(k, t). (k, JStr t)) tokens) = tokens"
  by (induction tokens) auto

lemma token_entries_nonblank: "\<forall>(k, t) \<in> set (token_entries kvs). trim t \<noteq> []"
  by (induction kvs rule: token_entries.induct) auto

lemma sessionTokenMap_ok: "map_ok (sessionTokenMap parse session) \<and> (\<forall>(k, t) \<in> set (sessionTokenMap parse session). trim t \<noteq> [])"
proof -
  have "\<forall>(k, t) \<in> set (map_from (token_entries kvs)). trim t \<noteq> []" for kvs
    using token_entries_nonblank set_map_from by blast
  then show ?thesis by (auto simp: sessionTokenMap_def split: option.split json.split)
qed

lemma with_tokens_ok:
  "map_ok tokens \<Longrightarrow> \<forall>(k, t) \<in> set tokens. trim t \<noteq> [] \<Longrightarrow> list_all (definition_ok nu) ds \<Longrightarrow>
     map_ok (with_tokens ds tokens) \<and> (\<forall>(k, t) \<in> set (with_tokens ds tokens). trim t \<noteq> [])"
  unfolding with_tokens_def
proof (induction ds arbitrary: tokens)
  case (Cons d ds)
  show ?case
  proof (cases "truthy (sd_token d)")
    case True
    then obtain t where t: "sd_token d = Some t" by (auto simp: truthy_def)
    with Cons.prems(3) have "trim t \<noteq> []" by (simp add: definition_ok_def)
    with Cons.prems(2) have "\<forall>(k, t) \<in> set (map_set (sd_id d) t tokens). trim t \<noteq> []"
      using set_map_set [of "sd_id d" t tokens] by blast
    from Cons.IH [OF map_ok_set [OF Cons.prems(1)] this] Cons.prems(3) True t show ?thesis by simp
  next
    case False
    with Cons show ?thesis by simp
  qed
qed simp

lemma map_from_id: "map_ok kvs \<Longrightarrow> map_from kvs = kvs"
proof -
  have "map_ok (m @ kvs) \<Longrightarrow> fold (\<lambda>kv m. map_set (fst kv) (snd kv) m) kvs m = m @ kvs" for m
  proof (induction kvs arbitrary: m)
    case (Cons kv kvs)
    have "map_set k v m = m @ [(k, v)]" if "k \<notin> fst ` set m" for k :: 'a and v :: 'b
      using that by (induction m) auto
    with Cons.prems have "map_set (fst kv) (snd kv) m = m @ [kv]" by simp
    with Cons show ?case by simp
  qed simp
  from this [of "[]"] show "map_ok kvs \<Longrightarrow> ?thesis" by (simp add: map_from_def)
qed

lemma truthy_Some: "truthy (Some s) \<longleftrightarrow> s \<noteq> []"
  by (simp add: truthy_def)

lemma sessionTokenMap_saved:
  assumes "readable s" "map_ok tokens" "\<forall>(k, t) \<in> set tokens. trim t \<noteq> []"
    "accepts s (stringify (tokens_json tokens))" "stringify (tokens_json tokens) \<noteq> []"
    "parse (stringify (tokens_json tokens)) = Some (tokens_json tokens)"
  shows "\<exists>s'. saveSessionTokenMap stringify tokens (Some s) = Some s' \<and> sessionTokenMap parse (Some s') = tokens"
  using assms
  by (auto simp: saveSessionTokenMap_def setItem_def sessionTokenMap_def getItem_def parse_or_def truthy_Some
      tokens_json_def token_entries_json map_from_id)

text \<open>
  what a client saves is what it loads, except for tokens. The loaded list has the saved
  definitions in order; a definition that was saved without a token gets the one that the
  session remembers for its id, so a token removed in the settings comes back.
\<close>

theorem server_storage_roundtrip:
  assumes ds: "list_all (definition_ok nu) ds" "distinct (map sd_id ds)" "distinct (map sd_url ds)"
    and local: "readable st" "accepts st (stringify (JArr (map definition_json ds)))"
      "stringify (JArr (map definition_json ds)) \<noteq> []"
      "parse (stringify (JArr (map definition_json ds))) = Some (JArr (map definition_json ds))"
    and session: "readable se" "tokens = with_tokens ds (sessionTokenMap parse (Some se))"
      "accepts se (stringify (tokens_json tokens))" "stringify (tokens_json tokens) \<noteq> []"
      "parse (stringify (tokens_json tokens)) = Some (tokens_json tokens)"
  shows "case saveStoredServerDefinitions parse stringify ds (Some st) (Some se) of (st', se') \<Rightarrow>
    loadStoredServerDefinitions nu hn parse stringify st' se' =
      (map (\<lambda>d. d\<lparr>sd_token := (case sd_token d of Some t \<Rightarrow> Some t
                              | None \<Rightarrow> map_of (sessionTokenMap parse (Some se)) (sd_id d))\<rparr>) ds, st', se')"
proof -
  let ?text = "stringify (JArr (map definition_json ds))"
  note old = sessionTokenMap_ok [of parse "Some se"]
  have ok: "map_ok tokens" "\<forall>(k, t) \<in> set tokens. trim t \<noteq> []"
    using with_tokens_ok [OF _ _ ds(1)] old session(2) by blast+
  then obtain se' where se': "saveSessionTokenMap stringify tokens (Some se) = Some se'"
    "sessionTokenMap parse (Some se') = tokens"
    using sessionTokenMap_saved [of se tokens stringify parse] session by blast
  have blank: "trim '''' = []" by (simp add: trim_def)
  have nonempty: "\<forall>k. map_of tokens k \<noteq> Some ''''"
    using ok(2) blank by (auto dest: map_of_SomeD)
  have saved: "saveStoredServerDefinitions parse stringify ds (Some st) (Some se) =
      (Some (st\<lparr>items := (items st)(SERVER_STORAGE_KEY \<mapsto> ?text)\<rparr>), Some se')"
    using local(2) se'(1) session(2) by (simp add: saveStoredServerDefinitions_def setItem_def)
  have looked: "map_of tokens (sd_id d) = (case sd_token d of Some t \<Rightarrow> Some t
      | None \<Rightarrow> map_of (sessionTokenMap parse (Some se)) (sd_id d))" if d: "d \<in> set ds" for d
  proof -
    have "list_all (\<lambda>d. sd_token d \<noteq> Some '''') ds"
      using ds(1) blank by (auto simp: list_all_iff definition_ok_def)
    note lookup = with_tokens_lookup [OF ds(2) this]
    have same: "e = d" if "e \<in> set ds" "sd_id e = sd_id d" for e
      using ds(2) that d by (auto simp: distinct_map inj_on_def)
    show ?thesis
    proof (cases "sd_token d")
      case None
      then have "find (\<lambda>e. sd_id e = sd_id d \<and> sd_token e \<noteq> None) ds = None"
        using same by (auto simp: find_None_iff)
      with lookup None session(2) show ?thesis by simp
    next
      case (Some t)
      with d same have "find (\<lambda>e. sd_id e = sd_id d \<and> sd_token e \<noteq> None) ds = Some d"
        by (intro find_unique) auto
      with lookup Some session(2) show ?thesis by simp
    qed
  qed
  have "migrate (map (\<lambda>d. d\<lparr>sd_token := None\<rparr>) ds) tokens False =
      (map (\<lambda>d. d\<lparr>sd_token := map_of tokens (sd_id d)\<rparr>) ds, tokens, False)"
    by (subst migrate_no_tokens) (use nonempty in \<open>auto simp: list_all_iff\<close>)
  then show ?thesis
    using local se'(2) looked
    by (simp add: saved loadStoredServerDefinitions_def getItem_def parse_or_def truthy_Some decode_saved [OF ds])
qed


lemma migrate_erase:
  "map (\<lambda>d. d\<lparr>sd_token := None\<rparr>) (fst (migrate ds tokens m)) = map (\<lambda>d. d\<lparr>sd_token := None\<rparr>) ds"
proof (induction ds arbitrary: tokens m)
  case (Cons d ds)
  then show ?case by (simp add: Let_def split_beta)
qed simp

lemma definition_json_erase [simp]: "definition_json (d\<lparr>sd_token := t\<rparr>) = definition_json d"
  by (simp add: definition_json_def)

lemma migrate_json: "map definition_json (fst (migrate ds tokens m)) = map definition_json ds"
proof -
  have "map (definition_json \<circ> (\<lambda>d. d\<lparr>sd_token := None\<rparr>)) (fst (migrate ds tokens m)) =
      map (definition_json \<circ> (\<lambda>d. d\<lparr>sd_token := None\<rparr>)) ds"
    using migrate_erase [of ds tokens m] by (metis map_map)
  then show ?thesis by (simp add: comp_def)
qed

text \<open>
  bearer tokens do not reach the persistent storage. What saving writes there does not depend on
  the tokens of the definitions; loading leaves it alone or rewrites it with definitions that
  carry no token.
\<close>

theorem tokens_not_persisted:
  "fst (saveStoredServerDefinitions parse stringify ds storage session) =
     fst (saveStoredServerDefinitions parse stringify (map (\<lambda>d. d\<lparr>sd_token := t d\<rparr>) ds) storage session)
   \<and> (let st' = fst (snd (loadStoredServerDefinitions nu hn parse stringify storage session)) in
        st' = storage \<or> (\<exists>st vs. storage = Some st \<and>
          st' = setItem st SERVER_STORAGE_KEY (stringify (JArr (map definition_json
                  (decodeStoredServerDefinitions nu hn vs))))))"
proof
  show "fst (saveStoredServerDefinitions parse stringify ds storage session) =
     fst (saveStoredServerDefinitions parse stringify (map (\<lambda>d. d\<lparr>sd_token := t d\<rparr>) ds) storage session)"
    by (auto simp: saveStoredServerDefinitions_def Let_def comp_def split: option.split)
  show "let st' = fst (snd (loadStoredServerDefinitions nu hn parse stringify storage session)) in
        st' = storage \<or> (\<exists>st vs. storage = Some st \<and>
          st' = setItem st SERVER_STORAGE_KEY (stringify (JArr (map definition_json
                  (decodeStoredServerDefinitions nu hn vs)))))"
  proof (cases storage)
    case None
    then show ?thesis by (simp add: loadStoredServerDefinitions_def)
  next
    case (Some st)
    show ?thesis
    proof (cases "\<exists>raw v. getItem st SERVER_STORAGE_KEY = Some raw \<and> parse_or parse (JArr []) raw = Some v")
      case False
      with Some show ?thesis by (auto simp: loadStoredServerDefinitions_def split: option.split)
    next
      case True
      then obtain raw v where v: "getItem st SERVER_STORAGE_KEY = Some raw" "parse_or parse (JArr []) raw = Some v"
        by blast
      let ?ds = "decodeStoredServerDefinitions nu hn v"
      have "fst (snd (loadStoredServerDefinitions nu hn parse stringify storage session)) \<in>
          {storage, setItem st SERVER_STORAGE_KEY (stringify (JArr (map definition_json ?ds)))}"
        using v Some migrate_json [of ?ds "sessionTokenMap parse session" False]
        by (auto simp: loadStoredServerDefinitions_def Let_def split_beta split: option.split)
      with Some show ?thesis unfolding Let_def by blast
    qed
  qed
qed

lemma migrate_migrates:
  "d \<in> set ds \<Longrightarrow> sd_token d = Some t \<Longrightarrow> t \<noteq> [] \<Longrightarrow> distinct (map sd_id ds) \<Longrightarrow>
     map_of tokens (sd_id d) = None \<Longrightarrow> snd (snd (migrate ds tokens m))"
proof (induction ds arbitrary: tokens m)
  case (Cons e ds)
  have keep: "m' \<Longrightarrow> snd (snd (migrate ds' tokens' m'))" for ds' tokens' m'
    by (induction ds' arbitrary: tokens' m') (auto simp: Let_def split_beta split: option.splits)
  show ?case
  proof (cases "d = e")
    case True
    with Cons.prems show ?thesis
      by (simp add: truthy_def Let_def split_beta keep)
  next
    case False
    with Cons.prems(1,4) have "d \<in> set ds" "sd_id e \<noteq> sd_id d" by auto
    with Cons show ?thesis
      by (auto simp: Let_def split_beta jsmap split: option.splits)
  qed
qed simp

text \<open>
  when a list that still holds tokens cannot be rewritten without them, because the persistent
  storage refuses the write, loading discards the list it has just decoded: no server is
  available.
\<close>

theorem failed_migration_drops_servers:
  assumes "getItem st SERVER_STORAGE_KEY = Some raw" "parse_or parse (JArr []) raw = Some v"
    "d \<in> set (decodeStoredServerDefinitions nu hn v)" "sd_token d = Some t" "t \<noteq> []"
    "map_of (sessionTokenMap parse session) (sd_id d) = None" "\<forall>text. \<not> accepts st text"
  shows "fst (loadStoredServerDefinitions nu hn parse stringify (Some st) session) = []"
proof -
  have "distinct (map sd_id (decodeStoredServerDefinitions nu hn v))"
    using decode_loop_facts unfolding decodeStoredServerDefinitions_def by blast
  from migrate_migrates [OF assms(3-5) this assms(6), of False] assms(1,2,7) show ?thesis
    by (simp add: loadStoredServerDefinitions_def Let_def split_beta setItem_def)
qed


section \<open>Witnesses\<close>

definition sample_server :: "string option \<Rightarrow> server_definition" where
  "sample_server t = \<lparr>sd_id = ''srv-1'', sd_name = ''dev'', sd_url = ''http://a'', sd_token = t\<rparr>"

definition sample_tokens :: token_map where
  "sample_tokens = [(''srv-1'', ''secret'')]"

definition sample_list :: json where
  "sample_list = JArr [definition_json (sample_server None)]"

definition sample_token_list :: json where
  "sample_token_list = JArr [JObj [(''id'', JStr ''srv-1''), (''name'', JStr ''dev''), (''url'', JStr ''http://a''),
     (''token'', JStr ''secret'')]]"

text \<open>A text of one letter for each of the JSON values of the witnesses.\<close>

definition sample_stringify :: "json \<Rightarrow> string" where
  "sample_stringify j = (if j = tokens_json sample_tokens then ''t'' else if j = sample_list then ''d'' else ''x'')"

definition sample_parse :: "string \<Rightarrow> json option" where
  "sample_parse s = (if s = ''t'' then Some (tokens_json sample_tokens) else if s = ''d'' then Some sample_list
     else if s = ''l'' then Some sample_token_list else None)"

definition sample_local :: web_storage where
  "sample_local = \<lparr>items = Map.empty, readable = True, accepts = (\<lambda>_. True)\<rparr>"

definition sample_session_storage :: web_storage where
  "sample_session_storage = \<lparr>items = [LEGACY_TOKEN_SESSION_KEY \<mapsto> ''t''], readable = True, accepts = (\<lambda>_. True)\<rparr>"

lemma sample_token_map: "sessionTokenMap sample_parse (Some sample_session_storage) = sample_tokens"
  by code_simp

text \<open>The token ``secret'' was removed from the definition before saving; loading gives it back.\<close>

lemma server_storage_roundtrip_witness:
  "case saveStoredServerDefinitions sample_parse sample_stringify [sample_server None] (Some sample_local)
          (Some sample_session_storage) of (st', se') \<Rightarrow>
     fst (loadStoredServerDefinitions Some id sample_parse sample_stringify st' se') = [sample_server (Some ''secret'')]"
proof -
  have json: "JArr (map definition_json [sample_server None]) = sample_list"
    "sample_stringify sample_list = ''d''" "sample_stringify (tokens_json sample_tokens) = ''t''"
    "sample_parse ''d'' = Some sample_list" "sample_parse ''t'' = Some (tokens_json sample_tokens)"
    by code_simp+
  have ok: "list_all (definition_ok Some) [sample_server None]" by code_simp
  have tokens: "sample_tokens = with_tokens [sample_server None] (sessionTokenMap sample_parse (Some sample_session_storage))"
    unfolding sample_token_map by code_simp
  have st: "readable sample_local" "accepts sample_local s" "readable sample_session_storage"
    "accepts sample_session_storage s" for s
    by (simp_all add: sample_local_def sample_session_storage_def)
  have "map_of sample_tokens ''srv-1'' = Some ''secret''" by (simp add: sample_tokens_def)
  then show ?thesis
    using server_storage_roundtrip [of Some "[sample_server None]" sample_local sample_stringify sample_parse
        sample_session_storage sample_tokens id, unfolded json sample_token_map] ok tokens st json
    by (simp add: sample_token_map split_beta sample_server_def)
qed

lemma failed_migration_drops_servers_witness:
  "fst (loadStoredServerDefinitions Some id sample_parse sample_stringify
     (Some \<lparr>items = [SERVER_STORAGE_KEY \<mapsto> ''l''], readable = True, accepts = (\<lambda>_. False)\<rparr>) None) = []"
proof (rule failed_migration_drops_servers)
  show "getItem \<lparr>items = [SERVER_STORAGE_KEY \<mapsto> ''l''], readable = True, accepts = (\<lambda>_. False)\<rparr> SERVER_STORAGE_KEY
      = Some (Some ''l'')" by (simp add: getItem_def)
  show "parse_or sample_parse (JArr []) (Some ''l'') = Some sample_token_list"
    by (simp add: parse_or_def truthy_Some sample_parse_def)
  have "decodeStoredServerDefinitions Some id sample_token_list = [sample_server (Some ''secret'')]" by code_simp
  then show "sample_server (Some ''secret'') \<in> set (decodeStoredServerDefinitions Some id sample_token_list)" by simp
  show "sd_token (sample_server (Some ''secret'')) = Some ''secret''" by (simp add: sample_server_def)
  show "map_of (sessionTokenMap sample_parse None) (sd_id (sample_server (Some ''secret''))) = None"
    by (simp add: sessionTokenMap_def)
qed simp_all


end
