(* ===== verification/Multi_Server.thy ===== *)
theory Multi_Server
  imports Server_Definitions
begin

text \<open>
  One client for several hosts, the class \<open>MultiServerHostClient\<close> of
  \<^verbatim>\<open>packages/yaade-host-client/src/multi-server.ts\<close>. It keeps a connection per server, renames the
  identifiers of every host but the current one so that they do not clash, remembers which
  server owns each identifier, and sends each command to the owner under its local name.

  \<^item> The transports, the hosts' APIs and \<open>fetch\<close> are the environment: a method that waits for a
    host is a request (the server and the call it is sent, or the error thrown before) and an
    operation on the reply.
  \<^item> The callbacks a method calls are recorded in \<open>mc_log\<close>.
  \<^item> The schema decoders \<open>publicSessionId\<close>, \<open>publicTabId\<close> and \<open>publicMuxTerminalId\<close> check the
    pattern of an identifier; on the identifiers they are applied to here they succeed
    (\<open>scopedId_pattern\<close>), so they are the identity.
\<close>

section \<open>State\<close>

datatype server_status =
    Connecting | Authenticating | Synchronizing | Connected | Offline | Incompatible | Revoked

record owner =
  ow_serverId :: string
  ow_localId :: string

abbreviation owns :: "string \<Rightarrow> string \<Rightarrow> owner" where
  "owns s l \<equiv> \<lparr>ow_serverId = s, ow_localId = l\<rparr>"

record managed_connection =
  cn_definition :: server_definition
  cn_status :: server_status
  cn_sessionCount :: nat
  cn_error :: "string option"

record connection_info =
  ci_id :: string
  ci_name :: string
  ci_url :: string
  ci_status :: server_status
  ci_sessionCount :: nat
  ci_error :: "string option"

record multi_snapshot =
  ms_connections :: "connection_info list"
  ms_activeServerId :: "string option"
  ms_generation :: nat

datatype 'l client_call =
    CallListener 'l
  | CallMuxEvent 'l mux_event
  | CallExit 'l string int
  | SetYaade 'l string
  | CloseTransport string

record 'l multi_client =
  mc_currentServerId :: string
  mc_connections :: "(string, managed_connection) jsmap"
  mc_listeners :: "'l list"
  mc_muxEventListeners :: "'l list"
  mc_sessionOwners :: "(string, owner) jsmap"
  mc_tabOwners :: "(string, owner) jsmap"
  mc_muxTerminalOwners :: "(string, owner) jsmap"
  mc_ptyOwners :: "(string, owner) jsmap"
  mc_terminalExitListeners :: "'l list"
  mc_activeServerId :: "string option"
  mc_generation :: nat
  mc_globalTarget :: "'l option"
  mc_ports :: "string option"
  mc_snapshot :: multi_snapshot
  mc_log :: "'l client_call list"

datatype multi_error =
    NoServers | ServerGone | SessionUnavailable | WindowUnavailable | TerminalUnavailable
  | CrossServerMove | Unreachable

section \<open>Connections and snapshots\<close>

definition connectionInfo :: "'l multi_client \<Rightarrow> string \<Rightarrow> connection_info option" where
  "connectionInfo c i = map_option (\<lambda>n.
     \<lparr>ci_id = sd_id (cn_definition n), ci_name = sd_name (cn_definition n), ci_url = sd_url (cn_definition n),
      ci_status = cn_status n, ci_sessionCount = cn_sessionCount n,
      ci_error = (if truthy (cn_error n) then cn_error n else None)\<rparr>) (map_of (mc_connections c) i)"

definition makeMultiSnapshot :: "'l multi_client \<Rightarrow> multi_snapshot" where
  "makeMultiSnapshot c = \<lparr>ms_connections = somes (map (connectionInfo c) (map_keys (mc_connections c))),
     ms_activeServerId = mc_activeServerId c, ms_generation = mc_generation c\<rparr>"

definition publish_client :: "'l multi_client \<Rightarrow> 'l multi_client" where
  "publish_client c = c\<lparr>mc_log := mc_log c @ map CallListener (mc_listeners c)\<rparr>"

definition refresh_client :: "'l multi_client \<Rightarrow> 'l multi_client" where
  "refresh_client c = publish_client (c\<lparr>mc_snapshot := makeMultiSnapshot c\<rparr>)"

text \<open>\<open>mc_ports\<close> names the server whose API the shared ports object holds.\<close>

definition publishGlobal :: "'l multi_client \<Rightarrow> 'l multi_client" where
  "publishGlobal c =
     (let c1 = (case mc_activeServerId c of
                  Some a \<Rightarrow> if map_has (mc_connections c) a then c\<lparr>mc_ports := Some a\<rparr> else c
                | None \<Rightarrow> c)
      in case (mc_globalTarget c1, mc_ports c1) of
           (Some g, Some p) \<Rightarrow> c1\<lparr>mc_log := mc_log c1 @ [SetYaade g p]\<rparr>
         | _ \<Rightarrow> c1)"

definition subscribe_client :: "'l \<Rightarrow> 'l multi_client \<Rightarrow> 'l multi_client" where
  "subscribe_client l c = c\<lparr>mc_listeners := (if l \<in> set (mc_listeners c) then mc_listeners c else mc_listeners c @ [l])\<rparr>"

definition unsubscribe_client :: "'l \<Rightarrow> 'l multi_client \<Rightarrow> 'l multi_client" where
  "unsubscribe_client l c = c\<lparr>mc_listeners := filter (\<lambda>x. x \<noteq> l) (mc_listeners c)\<rparr>"

definition onMuxEvent :: "'l \<Rightarrow> 'l multi_client \<Rightarrow> 'l multi_client" where
  "onMuxEvent l c = c\<lparr>mc_muxEventListeners :=
     (if l \<in> set (mc_muxEventListeners c) then mc_muxEventListeners c else mc_muxEventListeners c @ [l])\<rparr>"

definition onExit :: "'l \<Rightarrow> 'l multi_client \<Rightarrow> 'l multi_client" where
  "onExit l c = c\<lparr>mc_terminalExitListeners :=
     (if l \<in> set (mc_terminalExitListeners c) then mc_terminalExitListeners c else mc_terminalExitListeners c @ [l])\<rparr>"

definition setGlobalTarget :: "'l option \<Rightarrow> 'l multi_client \<Rightarrow> 'l multi_client" where
  "setGlobalTarget g c = publishGlobal (c\<lparr>mc_globalTarget := g\<rparr>)"

definition getServerDefinitions :: "'l multi_client \<Rightarrow> server_definition list" where
  "getServerDefinitions c =
     filter (\<lambda>d. sd_id d \<noteq> mc_currentServerId c) (map cn_definition (map_values (mc_connections c)))"

definition createConnection :: "server_definition \<Rightarrow> managed_connection" where
  "createConnection d = \<lparr>cn_definition = d, cn_status = Connecting, cn_sessionCount = 0, cn_error = None\<rparr>"

text \<open>A definition read as an object.\<close>

definition definition_value :: "server_definition \<Rightarrow> json" where
  "definition_value d = JObj ([(''id'', JStr (sd_id d)), (''name'', JStr (sd_name d)), (''url'', JStr (sd_url d))]
     @ (case sd_token d of None \<Rightarrow> [] | Some t \<Rightarrow> [(''token'', JStr t)]))"

fun desired_loop ::
    "(json \<Rightarrow> server_definition option) \<Rightarrow> string \<Rightarrow> server_definition list \<Rightarrow>
     (string, server_definition) jsmap \<Rightarrow> (string, server_definition) jsmap" where
  "desired_loop normalise current [] desired = desired"
| "desired_loop normalise current (d # ds) desired =
     (case normalise (definition_value d) of
        None \<Rightarrow> desired_loop normalise current ds desired
      | Some n \<Rightarrow>
          if sd_id n = current \<or> map_has desired (sd_id n) then desired_loop normalise current ds desired
          else if list_ex (\<lambda>e. sd_url e = sd_url n) (map_values desired) then desired_loop normalise current ds desired
          else desired_loop normalise current ds (map_set (sd_id n) n desired))"

definition outdated :: "(string, server_definition) jsmap \<Rightarrow> string \<times> managed_connection \<Rightarrow> bool" where
  "outdated desired = (\<lambda>(i, n). case map_of desired i of
     None \<Rightarrow> True
   | Some d \<Rightarrow> sd_url d \<noteq> sd_url (cn_definition n) \<or> sd_token d \<noteq> sd_token (cn_definition n))"

definition syncDefinitions ::
    "(json \<Rightarrow> server_definition option) \<Rightarrow> server_definition \<Rightarrow> server_definition list \<Rightarrow>
     'l multi_client \<Rightarrow> 'l multi_client" where
  "syncDefinitions normalise current definitions c =
     (let desired = desired_loop normalise (sd_id current) definitions [(sd_id current, current)];
          gone = filter (outdated desired) (mc_connections c);
          kept = filter (\<lambda>e. \<not> outdated desired e) (mc_connections c);
          conns = fold (\<lambda>d m. if map_has m (sd_id d) then m else map_set (sd_id d) (createConnection d) m)
                       (map_values desired) kept;
          active = (case mc_activeServerId c of
                      Some a \<Rightarrow> if truthy (Some a) \<and> map_has conns a then Some a else Some (sd_id current)
                    | None \<Rightarrow> Some (sd_id current))
      in c\<lparr>mc_connections := conns, mc_activeServerId := active,
           mc_log := mc_log c @ map (\<lambda>e. CloseTransport (fst e)) gone\<rparr>)"

definition selectServer :: "string \<Rightarrow> 'l multi_client \<Rightarrow> 'l multi_client" where
  "selectServer i c =
     (if \<not> map_has (mc_connections c) i then c
      else if mc_activeServerId c = Some i then publishGlobal c
      else refresh_client (publishGlobal (c\<lparr>mc_activeServerId := Some i\<rparr>)))"

definition setServers ::
    "(json \<Rightarrow> server_definition option) \<Rightarrow> server_definition list \<Rightarrow> 'l multi_client \<Rightarrow> 'l multi_client" where
  "setServers normalise definitions c =
     (case map_of (mc_connections c) (mc_currentServerId c) of
        None \<Rightarrow> c
      | Some n \<Rightarrow>
          let c1 = syncDefinitions normalise (cn_definition n) definitions c;
              c2 = c1\<lparr>mc_generation := mc_generation c1 + 1\<rparr>;
              c3 = c2\<lparr>mc_snapshot := makeMultiSnapshot c2\<rparr>
          in publish_client (publishGlobal c3))"

definition newMultiServerHostClient ::
    "(json \<Rightarrow> server_definition option) \<Rightarrow> server_definition \<Rightarrow> server_definition list \<Rightarrow> 'l option \<Rightarrow> 'l multi_client" where
  "newMultiServerHostClient normalise current servers target =
     (let c0 = \<lparr>mc_currentServerId = sd_id current, mc_connections = [], mc_listeners = [], mc_muxEventListeners = [],
                mc_sessionOwners = [], mc_tabOwners = [], mc_muxTerminalOwners = [], mc_ptyOwners = [],
                mc_terminalExitListeners = [], mc_activeServerId = None, mc_generation = 0,
                mc_globalTarget = target, mc_ports = None,
                mc_snapshot = \<lparr>ms_connections = [], ms_activeServerId = None, ms_generation = 0\<rparr>, mc_log = []\<rparr>;
          c1 = (syncDefinitions normalise current servers c0)\<lparr>mc_ports := Some (sd_id current)\<rparr>;
          c2 = c1\<lparr>mc_snapshot := makeMultiSnapshot c1\<rparr>
      in selectServer (sd_id current) c2)"

text \<open>\<open>activeConnection\<close>: the active server, else the first.\<close>

definition activeConnection :: "'l multi_client \<Rightarrow> multi_error + string" where
  "activeConnection c =
     (case mc_activeServerId c of
        Some a \<Rightarrow> if map_has (mc_connections c) a then Inr a
                  else (case mc_connections c of [] \<Rightarrow> Inl NoServers | e # _ \<Rightarrow> Inr (fst e))
      | None \<Rightarrow> (case mc_connections c of [] \<Rightarrow> Inl NoServers | e # _ \<Rightarrow> Inr (fst e)))"

section \<open>Events of a connection\<close>

definition update_connection ::
    "string \<Rightarrow> (managed_connection \<Rightarrow> managed_connection) \<Rightarrow> 'l multi_client \<Rightarrow> 'l multi_client" where
  "update_connection i f c =
     (case map_of (mc_connections c) i of
        None \<Rightarrow> c | Some n \<Rightarrow> c\<lparr>mc_connections := map_set i (f n) (mc_connections c)\<rparr>)"

definition connection_status :: "string \<Rightarrow> managed_connection \<Rightarrow> managed_connection" where
  "connection_status status n =
     (if status = ''connected'' then n\<lparr>cn_status := Connected, cn_error := None\<rparr>
      else if status = ''synchronizing'' then n\<lparr>cn_status := Synchronizing\<rparr>
      else if status = ''disconnected'' then
        (if cn_status n \<noteq> Revoked \<and> cn_status n \<noteq> Incompatible then n\<lparr>cn_status := Offline\<rparr> else n)
      else n)"

definition protocol_error :: "string \<Rightarrow> managed_connection \<Rightarrow> managed_connection" where
  "protocol_error message n =
     (let n1 = (if index_of ''incompatible'' (toLowerCase message) \<noteq> None then n\<lparr>cn_status := Incompatible\<rparr>
                else if index_of ''revoked'' (toLowerCase message) \<noteq> None then n\<lparr>cn_status := Revoked\<rparr> else n)
      in n1\<lparr>cn_error := (if message \<noteq> [] then Some message else cn_error n1)\<rparr>)"

definition onConnectionStatus :: "string \<Rightarrow> string \<Rightarrow> 'l multi_client \<Rightarrow> 'l multi_client" where
  "onConnectionStatus i status c =
     (if map_has (mc_connections c) i then refresh_client (update_connection i (connection_status status) c) else c)"

definition onProtocolError :: "string \<Rightarrow> string \<Rightarrow> 'l multi_client \<Rightarrow> 'l multi_client" where
  "onProtocolError i message c =
     (if map_has (mc_connections c) i then refresh_client (update_connection i (protocol_error message) c) else c)"

section \<open>Public identifiers\<close>

definition scopedId :: "string \<Rightarrow> string \<Rightarrow> string \<Rightarrow> string" where
  "scopedId p serverId localId = p @ ''-'' @ serverId @ ''--'' @ drop (length p + 1) localId"

definition scopedTerminalId :: "string \<Rightarrow> string \<Rightarrow> string" where
  "scopedTerminalId serverId terminalId = ''term-'' @ serverId @ ''--'' @ terminalId"

definition keepLocalIds :: "'l multi_client \<Rightarrow> string \<Rightarrow> bool" where
  "keepLocalIds c s \<longleftrightarrow> s = mc_currentServerId c"

definition scopePtyId :: "'l multi_client \<Rightarrow> string \<Rightarrow> string \<Rightarrow> string" where
  "scopePtyId c s l = (if s = mc_currentServerId c then l else scopedTerminalId s l)"

definition own_session :: "string \<Rightarrow> owner \<Rightarrow> 'l multi_client \<Rightarrow> 'l multi_client" where
  "own_session i ow c = c\<lparr>mc_sessionOwners := map_set i ow (mc_sessionOwners c)\<rparr>"

definition own_tab :: "string \<Rightarrow> owner \<Rightarrow> 'l multi_client \<Rightarrow> 'l multi_client" where
  "own_tab i ow c = c\<lparr>mc_tabOwners := map_set i ow (mc_tabOwners c)\<rparr>"

definition own_terminal :: "string \<Rightarrow> owner \<Rightarrow> 'l multi_client \<Rightarrow> 'l multi_client" where
  "own_terminal i ow c = c\<lparr>mc_muxTerminalOwners := map_set i ow (mc_muxTerminalOwners c)\<rparr>"

definition own_pty :: "string \<Rightarrow> owner \<Rightarrow> 'l multi_client \<Rightarrow> 'l multi_client" where
  "own_pty i ow c = c\<lparr>mc_ptyOwners := map_set i ow (mc_ptyOwners c)\<rparr>"

text \<open>\<open>x ? scopedId(...) : x\<close> on an optional identifier.\<close>

definition scope_opt :: "string \<Rightarrow> string \<Rightarrow> string option \<Rightarrow> string option" where
  "scope_opt p s x = (if truthy x then Some (scopedId p s (the x)) else x)"

definition scopeSession :: "string \<Rightarrow> app_session \<Rightarrow> 'l multi_client \<Rightarrow> 'l multi_client \<times> app_session" where
  "scopeSession s ses c =
     (let ow = owns s (ses_id ses);
          c1 = own_session (ses_id ses) ow c
      in if keepLocalIds c s then (c1, ses)
         else let i = scopedId ''ses'' s (ses_id ses)
              in (own_session i ow c1,
                  ses\<lparr>ses_id := i, ses_activeTabId := scope_opt ''tab'' s (ses_activeTabId ses),
                      ses_activeMuxTerminalId := scope_opt ''term'' s (ses_activeMuxTerminalId ses)\<rparr>))"

definition scopeTab :: "string \<Rightarrow> session_tab \<Rightarrow> 'l multi_client \<Rightarrow> 'l multi_client \<times> session_tab" where
  "scopeTab s tab c =
     (let ow = owns s (tab_id tab);
          so = owns s (tab_sessionId tab);
          c2 = own_session (tab_sessionId tab) so (own_tab (tab_id tab) ow c)
      in if keepLocalIds c s then (c2, tab)
         else let i = scopedId ''tab'' s (tab_id tab);
                  si = scopedId ''ses'' s (tab_sessionId tab)
              in (own_session si so (own_tab i ow c2),
                  tab\<lparr>tab_id := i, tab_sessionId := si,
                      tab_activeMuxTerminalId := scope_opt ''term'' s (tab_activeMuxTerminalId tab)\<rparr>))"

definition scopeProcessOutput :: "'l multi_client \<Rightarrow> string \<Rightarrow> terminal_output \<Rightarrow> terminal_output" where
  "scopeProcessOutput c s out =
     out\<lparr>terminalInstanceId := scopedTerminalId s (terminalInstanceId out),
         ptyId := (if truthy (ptyId out) then Some (scopePtyId c s (the (ptyId out))) else ptyId out)\<rparr>"

definition scopeMuxTerminal :: "string \<Rightarrow> mux_terminal \<Rightarrow> 'l multi_client \<Rightarrow> 'l multi_client \<times> mux_terminal" where
  "scopeMuxTerminal s t c =
     (let ow = owns s (term_id t);
          so = owns s (term_sessionId t);
          pty = ptyId (term_output t);
          c2 = own_session (term_sessionId t) so (own_terminal (term_id t) ow c);
          c3 = (if truthy pty then own_pty (the pty) (owns s (the pty)) c2 else c2)
      in if keepLocalIds c s then (c3, t)
         else let i = scopedId ''term'' s (term_id t);
                  si = scopedId ''ses'' s (term_sessionId t);
                  c5 = own_session si so (own_terminal i ow c3);
                  c6 = (if truthy pty then own_pty (scopePtyId c s (the pty)) (owns s (the pty)) c5 else c5)
              in (c6, t\<lparr>term_id := i, term_sessionId := si, term_tabId := scope_opt ''tab'' s (term_tabId t),
                        term_output := scopeProcessOutput c s (term_output t)\<rparr>))"

fun scope_all :: "('a \<Rightarrow> 'l multi_client \<Rightarrow> 'l multi_client \<times> 'a) \<Rightarrow> 'a list \<Rightarrow> 'l multi_client \<Rightarrow>
    'l multi_client \<times> 'a list" where
  "scope_all f [] c = (c, [])"
| "scope_all f (x # xs) c = (let (c1, y) = f x c; (c2, ys) = scope_all f xs c1 in (c2, y # ys))"

record session_snapshot =
  sn_session :: app_session
  sn_tabs :: "session_tab list option"
  sn_muxTerminals :: "mux_terminal list"

definition scopeSnapshot :: "string \<Rightarrow> session_snapshot \<Rightarrow> 'l multi_client \<Rightarrow> 'l multi_client \<times> session_snapshot" where
  "scopeSnapshot s sn c =
     (let (c1, ses) = scopeSession s (sn_session sn) c;
          (c2, tabs) = (case sn_tabs sn of
             None \<Rightarrow> (c1, None)
           | Some ts \<Rightarrow> (let (c', ts') = scope_all (scopeTab s) ts c1 in (c', Some ts')));
          (c3, terms) = scope_all (scopeMuxTerminal s) (sn_muxTerminals sn) c2
      in (c3, \<lparr>sn_session = ses, sn_tabs = tabs, sn_muxTerminals = terms\<rparr>))"

definition public_terminal :: "'l multi_client \<Rightarrow> string \<Rightarrow> terminal_id \<Rightarrow> terminal_id" where
  "public_terminal c s i = (if keepLocalIds c s then i else scopedId ''term'' s i)"

fun scopeEvent :: "string \<Rightarrow> mux_event \<Rightarrow> 'l multi_client \<Rightarrow> 'l multi_client \<times> mux_event" where
  "scopeEvent s (SessionCreated b x) c = (let (c', y) = scopeSession s x c in (c', SessionCreated b y))"
| "scopeEvent s (SessionUpdated b x) c = (let (c', y) = scopeSession s x c in (c', SessionUpdated b y))"
| "scopeEvent s (SessionArchived b x) c = (let (c', y) = scopeSession s x c in (c', SessionArchived b y))"
| "scopeEvent s (SessionRestored b x) c = (let (c', y) = scopeSession s x c in (c', SessionRestored b y))"
| "scopeEvent s (SessionTabCreated b x) c = (let (c', y) = scopeTab s x c in (c', SessionTabCreated b y))"
| "scopeEvent s (SessionTabUpdated b x) c = (let (c', y) = scopeTab s x c in (c', SessionTabUpdated b y))"
| "scopeEvent s (SessionTabArchived b x) c = (let (c', y) = scopeTab s x c in (c', SessionTabArchived b y))"
| "scopeEvent s (MuxTerminalCreated b i x) c =
     (let (c', y) = scopeMuxTerminal s x c in (c', MuxTerminalCreated b (public_terminal c s i) y))"
| "scopeEvent s (MuxTerminalUpdated b i x) c =
     (let (c', y) = scopeMuxTerminal s x c in (c', MuxTerminalUpdated b (public_terminal c s i) y))"
| "scopeEvent s (TerminalOutputChanged b i out) c =
     ((if truthy (ptyId out)
       then own_pty (if keepLocalIds c s then the (ptyId out) else scopePtyId c s (the (ptyId out)))
                    (owns s (the (ptyId out))) c
       else c),
      TerminalOutputChanged b (public_terminal c s i)
        (if keepLocalIds c s then out else scopeProcessOutput c s out))"
| "scopeEvent s (MuxTerminalArchived b i) c = (c, MuxTerminalArchived b (public_terminal c s i))"

text \<open>The host handlers of a connection: an event, and the exit of a pty.\<close>

definition receiveMuxEvent :: "string \<Rightarrow> mux_event \<Rightarrow> 'l multi_client \<Rightarrow> 'l multi_client" where
  "receiveMuxEvent s e c =
     (if \<not> map_has (mc_connections c) s then c
      else let (c', scoped) = scopeEvent s e c
           in c'\<lparr>mc_log := mc_log c' @ map (\<lambda>l. CallMuxEvent l scoped) (mc_muxEventListeners c')\<rparr>)"

definition receiveExit :: "string \<Rightarrow> string \<Rightarrow> int \<Rightarrow> 'l multi_client \<Rightarrow> 'l multi_client" where
  "receiveExit s pty code c =
     (if \<not> map_has (mc_connections c) s then c
      else c\<lparr>mc_log := mc_log c @ map (\<lambda>l. CallExit l (scopePtyId c s pty) code) (mc_terminalExitListeners c)\<rparr>)"

section \<open>Owners\<close>

definition connectionForOwner :: "'l multi_client \<Rightarrow> owner \<Rightarrow> multi_error + string" where
  "connectionForOwner c ow =
     (if map_has (mc_connections c) (ow_serverId ow) then Inr (ow_serverId ow) else Inl ServerGone)"

definition ownerForSession :: "'l multi_client \<Rightarrow> session_id \<Rightarrow> multi_error + owner" where
  "ownerForSession c i = (case map_of (mc_sessionOwners c) i of None \<Rightarrow> Inl SessionUnavailable | Some ow \<Rightarrow> Inr ow)"

definition ownerForTab :: "'l multi_client \<Rightarrow> tab_id \<Rightarrow> multi_error + owner" where
  "ownerForTab c i = (case map_of (mc_tabOwners c) i of None \<Rightarrow> Inl WindowUnavailable | Some ow \<Rightarrow> Inr ow)"

definition ownerForMuxTerminal :: "'l multi_client \<Rightarrow> terminal_id \<Rightarrow> multi_error + owner" where
  "ownerForMuxTerminal c i =
     (case map_of (mc_muxTerminalOwners c) i of None \<Rightarrow> Inl TerminalUnavailable | Some ow \<Rightarrow> Inr ow)"

definition ownerForPty :: "'l multi_client \<Rightarrow> string \<Rightarrow> multi_error + owner" where
  "ownerForPty c i =
     (case map_of (mc_ptyOwners c) i of
        Some ow \<Rightarrow> Inr ow
      | None \<Rightarrow> (case activeConnection c of Inl e \<Rightarrow> Inl e | Inr s \<Rightarrow> Inr (owns s i)))"

definition selectSession_server :: "session_id \<Rightarrow> 'l multi_client \<Rightarrow> 'l multi_client" where
  "selectSession_server i c = (case map_of (mc_sessionOwners c) i of None \<Rightarrow> c | Some ow \<Rightarrow> selectServer (ow_serverId ow) c)"

definition selectTab_server :: "tab_id \<Rightarrow> 'l multi_client \<Rightarrow> 'l multi_client" where
  "selectTab_server i c = (case map_of (mc_tabOwners c) i of None \<Rightarrow> c | Some ow \<Rightarrow> selectServer (ow_serverId ow) c)"

definition selectMuxTerminal_server :: "terminal_id \<Rightarrow> 'l multi_client \<Rightarrow> 'l multi_client" where
  "selectMuxTerminal_server i c =
     (case map_of (mc_muxTerminalOwners c) i of None \<Rightarrow> c | Some ow \<Rightarrow> selectServer (ow_serverId ow) c)"

definition serverForSession :: "'l multi_client \<Rightarrow> session_id \<Rightarrow> connection_info option" where
  "serverForSession c i =
     (case map_of (mc_sessionOwners c) i of None \<Rightarrow> None | Some ow \<Rightarrow> connectionInfo c (ow_serverId ow))"

section \<open>Requests and replies\<close>

definition and_then :: "'e + 'a \<Rightarrow> ('a \<Rightarrow> 'e + 'b) \<Rightarrow> 'e + 'b" where
  "and_then r f = (case r of Inl e \<Rightarrow> Inl e | Inr x \<Rightarrow> f x)"

lemma and_then_simps [simp]: "and_then (Inl e) f = Inl e" "and_then (Inr x) f = f x"
  by (simp_all add: and_then_def)

lemma and_then_Inr: "and_then r f = Inr y \<longleftrightarrow> (\<exists>x. r = Inr x \<and> f x = Inr y)"
  by (cases r) auto

fun each :: "('a \<Rightarrow> 'e + 'b) \<Rightarrow> 'a list \<Rightarrow> 'e + 'b list" where
  "each f [] = Inr []"
| "each f (x # xs) = and_then (f x) (\<lambda>y. and_then (each f xs) (\<lambda>ys. Inr (y # ys)))"

text \<open>The local identifiers of public ones; an absent or empty one stays.\<close>

definition local_session :: "'l multi_client \<Rightarrow> session_id \<Rightarrow> multi_error + session_id" where
  "local_session c i = and_then (ownerForSession c i) (\<lambda>ow. Inr (ow_localId ow))"

definition local_tab :: "'l multi_client \<Rightarrow> tab_id \<Rightarrow> multi_error + tab_id" where
  "local_tab c i = and_then (ownerForTab c i) (\<lambda>ow. Inr (ow_localId ow))"

definition local_terminal :: "'l multi_client \<Rightarrow> terminal_id \<Rightarrow> multi_error + terminal_id" where
  "local_terminal c i = and_then (ownerForMuxTerminal c i) (\<lambda>ow. Inr (ow_localId ow))"

definition local_opt :: "(string \<Rightarrow> multi_error + string) \<Rightarrow> string option \<Rightarrow> multi_error + string option" where
  "local_opt f x = (if truthy x then and_then (f (the x)) (\<lambda>l. Inr (Some l)) else Inr x)"

text \<open>
  The tags without a case here (\<open>CreateSession\<close>, \<open>ReorderSessions\<close>, \<open>StopTerminal\<close>,
  \<open>RestartTerminal\<close>, \<open>SelectSessionTerminal\<close>, \<open>ListSessions\<close>, \<open>GetSession\<close>, \<open>GetTerminal\<close>) fall into
  the default of the switch and are returned as they are; the cases of the switch for
  \<open>CancelMuxTerminal\<close>, \<open>RestartMuxTerminal\<close> and \<open>SelectSessionMuxTerminal\<close> name no command of the
  protocol.
\<close>

fun toLocalCommand :: "'l multi_client \<Rightarrow> mux_command \<Rightarrow> multi_error + mux_command" where
  "toLocalCommand c (CreateSessionTab s t) = and_then (local_session c s) (\<lambda>l. Inr (CreateSessionTab l t))"
| "toLocalCommand c (RenameSessionTab i n) = and_then (local_tab c i) (\<lambda>l. Inr (RenameSessionTab l n))"
| "toLocalCommand c (SaveSessionTabLayout i j r) = and_then (local_tab c i) (\<lambda>l. Inr (SaveSessionTabLayout l j r))"
| "toLocalCommand c (ArchiveSessionTab i m) = and_then (local_tab c i) (\<lambda>l. Inr (ArchiveSessionTab l m))"
| "toLocalCommand c (ReorderSessionTabs s is) =
     and_then (local_session c s) (\<lambda>l. and_then (each (local_tab c) is) (\<lambda>ls. Inr (ReorderSessionTabs l ls)))"
| "toLocalCommand c (SelectSessionTab s i) =
     and_then (local_session c s) (\<lambda>l. and_then (local_opt (local_tab c) i) (\<lambda>li. Inr (SelectSessionTab l li)))"
| "toLocalCommand c (ArchiveSession s m) = and_then (local_session c s) (\<lambda>l. Inr (ArchiveSession l m))"
| "toLocalCommand c (RestoreSession s) = and_then (local_session c s) (\<lambda>l. Inr (RestoreSession l))"
| "toLocalCommand c (RenameSession s n) = and_then (local_session c s) (\<lambda>l. Inr (RenameSession l n))"
| "toLocalCommand c (CreateTerminal s i n inp) =
     and_then (local_session c s) (\<lambda>l. and_then (local_opt (local_tab c) i) (\<lambda>li. Inr (CreateTerminal l li n inp)))"
| "toLocalCommand c (ReorderTerminals s i ts) =
     and_then (local_session c s) (\<lambda>l. and_then (local_opt (local_tab c) i) (\<lambda>li.
       and_then (each (local_terminal c) ts) (\<lambda>lts. Inr (ReorderTerminals l li lts))))"
| "toLocalCommand c (MoveTerminalToTab t i) =
     and_then (ownerForMuxTerminal c t) (\<lambda>tow. and_then (ownerForTab c i) (\<lambda>iow.
       if ow_serverId tow \<noteq> ow_serverId iow then Inl CrossServerMove
       else Inr (MoveTerminalToTab (ow_localId tow) (ow_localId iow))))"

| "toLocalCommand c (CloseTerminal t) = and_then (local_terminal c t) (\<lambda>l. Inr (CloseTerminal l))"
| "toLocalCommand c command = Inr command"

text \<open>
  The methods of \<open>HostMux\<close> that go to one server. A request is the client after the code before the
  \<open>await\<close>, the server, and what it is sent. \<open>listSessions\<close> and \<open>reorderSessions\<close> ask several
  servers and have definitions of their own below; they are no calls of \<open>mux_send\<close>.
\<close>

datatype mux_call = MuxCommand mux_command | RenameTerminal terminal_id string

type_synonym 'l mux_request = "multi_error + ('l multi_client \<times> string \<times> mux_call)"

definition send_local :: "(owner \<Rightarrow> 'l multi_client \<Rightarrow> 'l multi_client) \<Rightarrow> (multi_error + owner) \<Rightarrow> mux_command \<Rightarrow>
    'l multi_client \<Rightarrow> 'l mux_request" where
  "send_local before ow command c =
     and_then ow (\<lambda>ow. and_then (connectionForOwner c ow) (\<lambda>s.
       let c1 = before ow c in
       and_then (toLocalCommand c1 command) (\<lambda>l. Inr (c1, s, MuxCommand l))))"

definition send_owned :: "(multi_error + owner) \<Rightarrow> (string \<Rightarrow> mux_call) \<Rightarrow> 'l multi_client \<Rightarrow> 'l mux_request" where
  "send_owned ow f c =
     and_then ow (\<lambda>ow. and_then (connectionForOwner c ow) (\<lambda>s. Inr (c, s, f (ow_localId ow))))"

abbreviation unchanged :: "owner \<Rightarrow> 'l multi_client \<Rightarrow> 'l multi_client" where
  "unchanged ow c \<equiv> c"

abbreviation select_owner :: "owner \<Rightarrow> 'l multi_client \<Rightarrow> 'l multi_client" where
  "select_owner ow \<equiv> selectServer (ow_serverId ow)"

fun mux_send :: "mux_call \<Rightarrow> 'l multi_client \<Rightarrow> 'l mux_request" where
  "mux_send (MuxCommand (CreateSessionTab s t)) c = send_local unchanged (ownerForSession c s) (CreateSessionTab s t) c"
| "mux_send (MuxCommand (RenameSessionTab i n)) c = send_local unchanged (ownerForTab c i) (RenameSessionTab i n) c"
| "mux_send (MuxCommand (SaveSessionTabLayout i j r)) c =
     send_local unchanged (ownerForTab c i) (SaveSessionTabLayout i j r) c"
| "mux_send (MuxCommand (ReorderSessionTabs s is)) c =
     send_local unchanged (ownerForSession c s) (ReorderSessionTabs s is) c"
| "mux_send (MuxCommand (ArchiveSessionTab i m)) c = send_local unchanged (ownerForTab c i) (ArchiveSessionTab i m) c"
| "mux_send (MuxCommand (SelectSessionTab s i)) c = send_local select_owner (ownerForSession c s) (SelectSessionTab s i) c"
| "mux_send (MuxCommand (ArchiveSession s m)) c = send_local unchanged (ownerForSession c s) (ArchiveSession s m) c"
| "mux_send (MuxCommand (RestoreSession s)) c = send_local unchanged (ownerForSession c s) (RestoreSession s) c"
| "mux_send (MuxCommand (CreateSession t)) c =
     and_then (activeConnection c) (\<lambda>s. Inr (c, s, MuxCommand (CreateSession t)))"
| "mux_send (MuxCommand (RenameSession s t)) c =
     send_owned (ownerForSession c s) (\<lambda>l. MuxCommand (RenameSession l t)) c"
| "mux_send (MuxCommand (GetSession s)) c = send_owned (ownerForSession c s) (\<lambda>l. MuxCommand (GetSession l)) c"
| "mux_send (MuxCommand (CreateTerminal s i n inp)) c =
     send_local select_owner (ownerForSession c s) (CreateTerminal s i n inp) c"
| "mux_send (MuxCommand (GetTerminal t)) c = send_owned (ownerForMuxTerminal c t) (\<lambda>l. MuxCommand (GetTerminal l)) c"
| "mux_send (MuxCommand (ReorderTerminals s i ts)) c =
     send_local unchanged (ownerForSession c s) (ReorderTerminals s i ts) c"
| "mux_send (MuxCommand (MoveTerminalToTab t i)) c =
     send_local unchanged (ownerForMuxTerminal c t) (MoveTerminalToTab t i) c"
| "mux_send (MuxCommand (SelectSessionTerminal s t)) c =
     and_then (ownerForSession c s) (\<lambda>ow. and_then (connectionForOwner c ow) (\<lambda>srv.
       let c1 = selectServer (ow_serverId ow) c in
       and_then (if truthy t then and_then (local_terminal c1 (the t)) (\<lambda>l. Inr (Some l)) else Inr None) (\<lambda>l.
         Inr (c1, srv, MuxCommand (SelectSessionTerminal (ow_localId ow) l)))))"
| "mux_send (MuxCommand (StopTerminal t r)) c =
     send_owned (ownerForMuxTerminal c t) (\<lambda>l. MuxCommand (StopTerminal l r)) c"
| "mux_send (MuxCommand (RestartTerminal t r)) c =
     send_owned (ownerForMuxTerminal c t) (\<lambda>l. MuxCommand (RestartTerminal l r)) c"
| "mux_send (MuxCommand (CloseTerminal t)) c =
     send_local unchanged (ownerForMuxTerminal c t) (CloseTerminal t) c"
| "mux_send (RenameTerminal t n) c = send_owned (ownerForMuxTerminal c t) (\<lambda>l. RenameTerminal l n) c"
| "mux_send (MuxCommand (ListSessions b)) c = Inl Unreachable"
| "mux_send (MuxCommand (ReorderSessions is)) c = Inl Unreachable"

text \<open>What a host answers, and the code after the \<open>await\<close>.\<close>

datatype mux_reply =
    SessionReply app_session
  | TabReply session_tab
  | TabsReply "session_tab list"
  | TerminalReply mux_terminal
  | TerminalsReply "mux_terminal list"
  | SnapshotReply "session_snapshot option"
  | MaybeTerminalReply "mux_terminal option"

fun mux_receive :: "string \<Rightarrow> mux_reply \<Rightarrow> 'l multi_client \<Rightarrow> 'l multi_client \<times> mux_reply" where
  "mux_receive s (SessionReply x) c = (let (c', y) = scopeSession s x c in (c', SessionReply y))"
| "mux_receive s (TabReply x) c = (let (c', y) = scopeTab s x c in (c', TabReply y))"
| "mux_receive s (TabsReply xs) c = (let (c', ys) = scope_all (scopeTab s) xs c in (c', TabsReply ys))"
| "mux_receive s (TerminalReply x) c = (let (c', y) = scopeMuxTerminal s x c in (c', TerminalReply y))"
| "mux_receive s (TerminalsReply xs) c =
     (let (c', ys) = scope_all (scopeMuxTerminal s) xs c in (c', TerminalsReply ys))"
| "mux_receive s (SnapshotReply (Some x)) c = (let (c', y) = scopeSnapshot s x c in (c', SnapshotReply (Some y)))"
| "mux_receive s (SnapshotReply None) c = (c, SnapshotReply None)"
| "mux_receive s (MaybeTerminalReply (Some x)) c =
     (let (c', y) = scopeMuxTerminal s x c in (c', MaybeTerminalReply (Some y)))"
| "mux_receive s (MaybeTerminalReply None) c = (c, MaybeTerminalReply None)"


section \<open>Methods that ask several servers\<close>

text \<open>
  \<open>listSessions\<close>: one connection's answer, which arrives in any order, and the end when all have
  arrived. An answer is the message of the error, or the snapshots of the host.
\<close>

definition session_count :: "session_snapshot list \<Rightarrow> nat" where
  "session_count sns = length (filter (\<lambda>sn. \<not> truthy (ses_archivedAt (sn_session sn))) sns)"

definition list_answer ::
    "string \<Rightarrow> string + session_snapshot list \<Rightarrow> 'l multi_client \<Rightarrow> 'l multi_client \<times> session_snapshot list" where
  "list_answer s answer c =
     (case answer of
        Inr sns \<Rightarrow>
          scope_all (scopeSnapshot s) sns
            (update_connection s (\<lambda>n. n\<lparr>cn_status := Connected, cn_error := None,
                                        cn_sessionCount := session_count sns\<rparr>) c)
      | Inl message \<Rightarrow> (update_connection s (\<lambda>n. n\<lparr>cn_status := Offline, cn_error := Some message\<rparr>) c, []))"

fun list_answers ::
    "(string \<times> (string + session_snapshot list)) list \<Rightarrow> 'l multi_client \<Rightarrow>
     'l multi_client \<times> (string \<times> session_snapshot list) list" where
  "list_answers [] c = (c, [])"
| "list_answers ((s, answer) # arrivals) c =
     (let (c1, sns) = list_answer s answer c; (c2, rest) = list_answers arrivals c1 in (c2, (s, sns) # rest))"

definition listSessions ::
    "(string \<times> (string + session_snapshot list)) list \<Rightarrow> 'l multi_client \<Rightarrow>
     'l multi_client \<times> (multi_error + session_snapshot list)" where
  "listSessions arrivals c =
     (let servers = map_keys (mc_connections c);
          (c1, results) = list_answers arrivals c;
          c2 = refresh_client c1;
          succeeded = length (filter (\<lambda>a. \<exists>sns. snd a = Inr sns) arrivals)
      in if succeeded = 0 \<and> mc_connections c2 \<noteq> [] then (c2, Inl Unreachable)
         else (c2, Inr (concat (map (\<lambda>s. case map_of results s of Some sns \<Rightarrow> sns | None \<Rightarrow> []) servers))))"

text \<open>\<open>reorderSessions\<close>: the local identifiers grouped by server in the order of their first mention.\<close>

fun group_sessions ::
    "'l multi_client \<Rightarrow> session_id list \<Rightarrow> (string, session_id list) jsmap \<Rightarrow>
     multi_error + (string, session_id list) jsmap" where
  "group_sessions c [] grouped = Inr grouped"
| "group_sessions c (i # is) grouped =
     and_then (ownerForSession c i) (\<lambda>ow.
       let ids = (case map_of grouped (ow_serverId ow) of Some ids \<Rightarrow> ids | None \<Rightarrow> [])
       in group_sessions c is (map_set (ow_serverId ow) (ids @ [ow_localId ow]) grouped))"

text \<open>\<open>reply\<close> is what a server answers to its part; parts of servers that are gone are skipped.\<close>

fun reorder_parts ::
    "(string \<Rightarrow> session_id list \<Rightarrow> app_session list) \<Rightarrow> (string \<times> session_id list) list \<Rightarrow> 'l multi_client \<Rightarrow>
     'l multi_client \<times> app_session list" where
  "reorder_parts reply [] c = (c, [])"
| "reorder_parts reply ((s, ids) # parts) c =
     (if \<not> map_has (mc_connections c) s then reorder_parts reply parts c
      else let (c1, xs) = scope_all (scopeSession s) (reply s ids) c;
               (c2, ys) = reorder_parts reply parts c1
           in (c2, xs @ ys))"

definition reorderSessions ::
    "(string \<Rightarrow> session_id list \<Rightarrow> app_session list) \<Rightarrow> session_id list \<Rightarrow> 'l multi_client \<Rightarrow>
     multi_error + ('l multi_client \<times> app_session list)" where
  "reorderSessions reply is c =
     and_then (group_sessions c is []) (\<lambda>grouped. Inr (reorder_parts reply grouped c))"

section \<open>Terminals\<close>

text \<open>
  Every method of \<open>HostTerminal\<close> but \<open>create\<close> and \<open>onExit\<close> passes its arguments to the same method
  of the owner's API, with the local identifier of the pty.
\<close>

definition terminal_send :: "string \<Rightarrow> 'l multi_client \<Rightarrow> multi_error + (string \<times> string)" where
  "terminal_send i c =
     and_then (ownerForPty c i) (\<lambda>ow. and_then (connectionForOwner c ow) (\<lambda>s. Inr (s, ow_localId ow)))"

text \<open>\<open>create\<close>: the server that is asked, and the code after its answer.\<close>

definition terminal_create_send :: "'l multi_client \<Rightarrow> multi_error + string" where
  "terminal_create_send c = activeConnection c"

definition terminal_created :: "string \<Rightarrow> string \<Rightarrow> 'l multi_client \<Rightarrow> 'l multi_client \<times> string" where
  "terminal_created s l c =
     (let i = scopePtyId c s l in (own_pty i (owns s l) c, i))"

section \<open>Testing a server\<close>

datatype server_test = TestOk nat | TestFailed string

text \<open>\<open>answer\<close> is what listing the sessions at a URL with a token gives: an error or their number.\<close>

definition testServer ::
    "(json \<Rightarrow> server_definition option) \<Rightarrow> (string \<Rightarrow> string option \<Rightarrow> string + nat) \<Rightarrow> server_definition \<Rightarrow> server_test" where
  "testServer normalise answer d =
     (case normalise (definition_value d) of
        None \<Rightarrow> TestFailed ''Enter a valid http or https server URL''
      | Some n \<Rightarrow> (case answer (sd_url n) (sd_token n) of Inl e \<Rightarrow> TestFailed e | Inr k \<Rightarrow> TestOk k))"


section \<open>Public identifiers determine the server\<close>

text \<open>Server ids in which the separator cannot be misread.\<close>

definition clean_server_id :: "string \<Rightarrow> bool" where
  "clean_server_id s \<longleftrightarrow> index_of ''--'' (s @ ''-'') = None"

lemma clean_split:
  "clean_server_id s \<Longrightarrow> clean_server_id t \<Longrightarrow> s @ ''--'' @ a = t @ ''--'' @ b \<Longrightarrow> s = t \<and> a = b"
proof (induction s arbitrary: t)
  case Nil
  show ?case
  proof (cases t)
    case (Cons x xs)
    with Nil show ?thesis by (cases xs) (auto simp: clean_server_id_def)
  qed (use Nil in auto)
next
  case (Cons c s)
  show ?case
  proof (cases t)
    case Nil
    with Cons.prems show ?thesis by (cases s) (auto simp: clean_server_id_def)
  next
    case t: (Cons d t')
    with Cons.prems have "clean_server_id s" "clean_server_id t'" "s @ ''--'' @ a = t' @ ''--'' @ b" "c = d"
      by (auto simp: clean_server_id_def split: if_splits)
    with Cons.IH [of t'] t show ?thesis by simp
  qed
qed

lemma scopedId_eq:
  assumes "matches_prefix (p @ ''-'') l"
  shows "scopedId p s l = p @ ''-'' @ s @ ''--'' @ drop (length p + 1) l"
    "l = p @ ''-'' @ drop (length p + 1) l"
  using assms append_take_drop_id [of "length p + 1" l] by (simp_all add: scopedId_def matches_prefix_def)

lemma scopedId_pattern:
  assumes "SERVER_ID_PATTERN s" "matches_prefix (p @ ''-'') l"
  shows "matches_prefix (p @ ''-'') (scopedId p s l)"
proof -
  have "id_char (CHR ''-'')" by code_simp
  with assms show ?thesis by (simp add: matches_prefix_def scopedId_def SERVER_ID_PATTERN_def)
qed

text \<open>
  a public identifier names its server and its local identifier: for server ids without two
  hyphens in a row and without one at the end, two identifiers that are renamed to the same
  public identifier are equal and of the same server. The renamed identifier has the pattern
  of its kind.
\<close>

theorem scopedId_injective:
  assumes "SERVER_ID_PATTERN s" "SERVER_ID_PATTERN t" "clean_server_id s" "clean_server_id t"
    "matches_prefix (p @ ''-'') l" "matches_prefix (p @ ''-'') m"
  shows "(scopedId p s l = scopedId p t m \<longleftrightarrow> s = t \<and> l = m) \<and> matches_prefix (p @ ''-'') (scopedId p s l)"
proof
  show "matches_prefix (p @ ''-'') (scopedId p s l)" by (rule scopedId_pattern [OF assms(1,5)])
  show "scopedId p s l = scopedId p t m \<longleftrightarrow> s = t \<and> l = m"
  proof
    assume "scopedId p s l = scopedId p t m"
    then have "s @ ''--'' @ drop (length p + 1) l = t @ ''--'' @ drop (length p + 1) m"
      by (simp add: scopedId_def)
    with clean_split [OF assms(3,4)] have "s = t" "drop (length p + 1) l = drop (length p + 1) m" by blast+
    with scopedId_eq(2) [OF assms(5)] scopedId_eq(2) [OF assms(6)] show "s = t \<and> l = m" by metis
  qed simp
qed

lemma scopedId_injective_witness:
  "scopedId ''ses'' ''srv-1'' ''ses-1'' \<noteq> scopedId ''ses'' ''srv-2'' ''ses-1''"
proof -
  have "SERVER_ID_PATTERN ''srv-1'' \<and> SERVER_ID_PATTERN ''srv-2'' \<and> clean_server_id ''srv-1''
      \<and> clean_server_id ''srv-2'' \<and> matches_prefix (''ses'' @ ''-'') ''ses-1''"
    by code_simp
  then show ?thesis
    using scopedId_injective [of "''srv-1''" "''srv-2''" "''ses''" "''ses-1''" "''ses-1''"] by simp
qed

text \<open>Without that, the pattern alone allows two servers to share a public identifier.\<close>

lemma scopedId_ambiguous:
  "SERVER_ID_PATTERN ''a'' \<and> SERVER_ID_PATTERN ''a--b'' \<and> SessionId ''ses-b--c'' \<and> SessionId ''ses-c''
   \<and> scopedId ''ses'' ''a'' ''ses-b--c'' = scopedId ''ses'' ''a--b'' ''ses-c''"
  by code_simp

section \<open>Ownership never changes hands\<close>

record universe =
  u_sessions :: "owner set"
  u_tabs :: "owner set"
  u_terminals :: "owner set"
  u_ptys :: "owner set"

text \<open>The identifiers under which an owner is entered: the local one and, for a remote, the public one.\<close>

definition id_names :: "string \<Rightarrow> string \<Rightarrow> owner \<Rightarrow> string set" where
  "id_names p current ow = {ow_localId ow} \<union>
     (if ow_serverId ow = current then {} else {scopedId p (ow_serverId ow) (ow_localId ow)})"

definition pty_names :: "string \<Rightarrow> owner \<Rightarrow> string set" where
  "pty_names current ow = {ow_localId ow} \<union>
     (if ow_serverId ow = current then {} else {scopedTerminalId (ow_serverId ow) (ow_localId ow)})"

definition unambiguous :: "(owner \<Rightarrow> string set) \<Rightarrow> owner set \<Rightarrow> bool" where
  "unambiguous names U \<longleftrightarrow> (\<forall>a \<in> U. \<forall>b \<in> U. a \<noteq> b \<longrightarrow> names a \<inter> names b = {})"

definition unambiguous_universe :: "string \<Rightarrow> universe \<Rightarrow> bool" where
  "unambiguous_universe cur U \<longleftrightarrow>
     unambiguous (id_names ''ses'' cur) (u_sessions U) \<and> unambiguous (id_names ''tab'' cur) (u_tabs U) \<and>
     unambiguous (id_names ''term'' cur) (u_terminals U) \<and> unambiguous (pty_names cur) (u_ptys U)"

inductive own_step :: "universe \<Rightarrow> 'l multi_client \<Rightarrow> 'l multi_client \<Rightarrow> bool" for U where
  session: "ow \<in> u_sessions U \<Longrightarrow> i \<in> id_names ''ses'' (mc_currentServerId c) ow \<Longrightarrow> own_step U c (own_session i ow c)"
| tab: "ow \<in> u_tabs U \<Longrightarrow> i \<in> id_names ''tab'' (mc_currentServerId c) ow \<Longrightarrow> own_step U c (own_tab i ow c)"
| terminal: "ow \<in> u_terminals U \<Longrightarrow> i \<in> id_names ''term'' (mc_currentServerId c) ow \<Longrightarrow>
    own_step U c (own_terminal i ow c)"
| pty: "ow \<in> u_ptys U \<Longrightarrow> i \<in> pty_names (mc_currentServerId c) ow \<Longrightarrow> own_step U c (own_pty i ow c)"
| other: "mc_currentServerId c' = mc_currentServerId c \<Longrightarrow> mc_sessionOwners c' = mc_sessionOwners c \<Longrightarrow>
    mc_tabOwners c' = mc_tabOwners c \<Longrightarrow> mc_muxTerminalOwners c' = mc_muxTerminalOwners c \<Longrightarrow>
    mc_ptyOwners c' = mc_ptyOwners c \<Longrightarrow> own_step U c c'"

abbreviation own_run :: "universe \<Rightarrow> 'l multi_client \<Rightarrow> 'l multi_client \<Rightarrow> bool" where
  "own_run U \<equiv> (own_step U)\<^sup>*\<^sup>*"

definition owners_ok :: "(owner \<Rightarrow> string set) \<Rightarrow> owner set \<Rightarrow> (string, owner) jsmap \<Rightarrow> bool" where
  "owners_ok names U m \<longleftrightarrow> (\<forall>k ow. map_of m k = Some ow \<longrightarrow> ow \<in> U \<and> k \<in> names ow)"

definition client_owners_ok :: "universe \<Rightarrow> 'l multi_client \<Rightarrow> bool" where
  "client_owners_ok U c \<longleftrightarrow>
     owners_ok (id_names ''ses'' (mc_currentServerId c)) (u_sessions U) (mc_sessionOwners c) \<and>
     owners_ok (id_names ''tab'' (mc_currentServerId c)) (u_tabs U) (mc_tabOwners c) \<and>
     owners_ok (id_names ''term'' (mc_currentServerId c)) (u_terminals U) (mc_muxTerminalOwners c) \<and>
     owners_ok (pty_names (mc_currentServerId c)) (u_ptys U) (mc_ptyOwners c)"

definition keeps_owners :: "'l multi_client \<Rightarrow> 'l multi_client \<Rightarrow> bool" where
  "keeps_owners c c' \<longleftrightarrow> mc_currentServerId c' = mc_currentServerId c \<and>
     map_of (mc_sessionOwners c) \<subseteq>\<^sub>m map_of (mc_sessionOwners c') \<and>
     map_of (mc_tabOwners c) \<subseteq>\<^sub>m map_of (mc_tabOwners c') \<and>
     map_of (mc_muxTerminalOwners c) \<subseteq>\<^sub>m map_of (mc_muxTerminalOwners c') \<and>
     map_of (mc_ptyOwners c) \<subseteq>\<^sub>m map_of (mc_ptyOwners c')"

lemma owners_ok_set:
  "owners_ok names U m \<Longrightarrow> ow \<in> U \<Longrightarrow> k \<in> names ow \<Longrightarrow> owners_ok names U (map_set k ow m)"
  by (auto simp: owners_ok_def jsmap)

lemma owners_keep:
  "owners_ok names U m \<Longrightarrow> unambiguous names U \<Longrightarrow> ow \<in> U \<Longrightarrow> k \<in> names ow \<Longrightarrow>
     map_of m \<subseteq>\<^sub>m map_of (map_set k ow m)"
  by (auto simp: map_le_def owners_ok_def unambiguous_def jsmap) blast

lemma own_step_keeps:
  assumes "own_step U c c'" "client_owners_ok U c" "unambiguous_universe (mc_currentServerId c) U"
  shows "client_owners_ok U c' \<and> keeps_owners c c'"
  using assms
proof (induction rule: own_step.induct)
  case (session ow i c)
  then show ?case
    using owners_ok_set owners_keep
    by (fastforce simp: client_owners_ok_def keeps_owners_def own_session_def unambiguous_universe_def)
next
  case (tab ow i c)
  then show ?case
    using owners_ok_set owners_keep
    by (fastforce simp: client_owners_ok_def keeps_owners_def own_tab_def unambiguous_universe_def)
next
  case (terminal ow i c)
  then show ?case
    using owners_ok_set owners_keep
    by (fastforce simp: client_owners_ok_def keeps_owners_def own_terminal_def unambiguous_universe_def)
next
  case (pty ow i c)
  then show ?case
    using owners_ok_set owners_keep
    by (fastforce simp: client_owners_ok_def keeps_owners_def own_pty_def unambiguous_universe_def)
next
  case (other c' c)
  then show ?case by (simp add: client_owners_ok_def keeps_owners_def)
qed

lemma keeps_owners_trans: "keeps_owners a b \<Longrightarrow> keeps_owners b c \<Longrightarrow> keeps_owners a c"
  unfolding keeps_owners_def by (auto intro: map_le_trans)

lemma own_run_keeps:
  "own_run U c c' \<Longrightarrow> client_owners_ok U c \<Longrightarrow> unambiguous_universe (mc_currentServerId c) U \<Longrightarrow>
     client_owners_ok U c' \<and> keeps_owners c c'"
proof (induction rule: rtranclp_induct)
  case base
  then show ?case by (simp add: keeps_owners_def)
next
  case (step b d)
  then have b: "client_owners_ok U b" "keeps_owners c b" by auto
  then have "unambiguous_universe (mc_currentServerId b) U" using step.prems(2) by (simp add: keeps_owners_def)
  with own_step_keeps [OF step.hyps(2) b(1)] b(2) keeps_owners_trans show ?case by blast
qed

lemma own_step_current: "own_step U c c' \<Longrightarrow> mc_currentServerId c' = mc_currentServerId c"
  by (induction rule: own_step.induct)
    (simp_all add: own_session_def own_tab_def own_terminal_def own_pty_def)

lemma own_run_current: "own_run U c c' \<Longrightarrow> mc_currentServerId c' = mc_currentServerId c"
  by (induction rule: rtranclp_induct) (simp_all add: own_step_current)


definition within_session :: "universe \<Rightarrow> string \<Rightarrow> app_session \<Rightarrow> bool" where
  "within_session U s x \<longleftrightarrow> owns s (ses_id x) \<in> u_sessions U"

definition within_tab :: "universe \<Rightarrow> string \<Rightarrow> session_tab \<Rightarrow> bool" where
  "within_tab U s x \<longleftrightarrow> owns s (tab_id x) \<in> u_tabs U \<and> owns s (tab_sessionId x) \<in> u_sessions U"

definition within_pty :: "universe \<Rightarrow> string \<Rightarrow> terminal_output \<Rightarrow> bool" where
  "within_pty U s x \<longleftrightarrow> (truthy (ptyId x) \<longrightarrow> owns s (the (ptyId x)) \<in> u_ptys U)"

definition within_terminal :: "universe \<Rightarrow> string \<Rightarrow> mux_terminal \<Rightarrow> bool" where
  "within_terminal U s x \<longleftrightarrow> owns s (term_id x) \<in> u_terminals U \<and> owns s (term_sessionId x) \<in> u_sessions U
     \<and> within_pty U s (term_output x)"

definition within_snapshot :: "universe \<Rightarrow> string \<Rightarrow> session_snapshot \<Rightarrow> bool" where
  "within_snapshot U s x \<longleftrightarrow> within_session U s (sn_session x)
     \<and> (\<forall>ts. sn_tabs x = Some ts \<longrightarrow> list_all (within_tab U s) ts) \<and> list_all (within_terminal U s) (sn_muxTerminals x)"

fun within_event :: "universe \<Rightarrow> string \<Rightarrow> mux_event \<Rightarrow> bool" where
  "within_event U s (SessionCreated b x) = within_session U s x"
| "within_event U s (SessionUpdated b x) = within_session U s x"
| "within_event U s (SessionArchived b x) = within_session U s x"
| "within_event U s (SessionRestored b x) = within_session U s x"
| "within_event U s (SessionTabCreated b x) = within_tab U s x"
| "within_event U s (SessionTabUpdated b x) = within_tab U s x"
| "within_event U s (SessionTabArchived b x) = within_tab U s x"
| "within_event U s (MuxTerminalCreated b i x) = within_terminal U s x"
| "within_event U s (MuxTerminalUpdated b i x) = within_terminal U s x"
| "within_event U s (TerminalOutputChanged b i x) = within_pty U s x"
| "within_event U s (MuxTerminalArchived b i) = True"

fun within_reply :: "universe \<Rightarrow> string \<Rightarrow> mux_reply \<Rightarrow> bool" where
  "within_reply U s (SessionReply x) = within_session U s x"
| "within_reply U s (TabReply x) = within_tab U s x"
| "within_reply U s (TabsReply xs) = list_all (within_tab U s) xs"
| "within_reply U s (TerminalReply x) = within_terminal U s x"
| "within_reply U s (TerminalsReply xs) = list_all (within_terminal U s) xs"
| "within_reply U s (SnapshotReply x) = (\<forall>y. x = Some y \<longrightarrow> within_snapshot U s y)"
| "within_reply U s (MaybeTerminalReply x) = (\<forall>y. x = Some y \<longrightarrow> within_terminal U s y)"

lemma own_names [simp]:
  "ow_localId ow \<in> id_names p cur ow" "ow_localId ow \<in> pty_names cur ow"
  "l \<in> id_names p cur (owns s l)" "l \<in> pty_names cur (owns s l)"
  "s \<noteq> cur \<Longrightarrow> scopedId p s l \<in> id_names p cur (owns s l)"
  "s \<noteq> cur \<Longrightarrow> scopedTerminalId s l \<in> pty_names cur (owns s l)"
  by (simp_all add: id_names_def pty_names_def)

lemma own_current [simp]:
  "mc_currentServerId (own_session i ow c) = mc_currentServerId c" "mc_currentServerId (own_tab i ow c) = mc_currentServerId c"
  "mc_currentServerId (own_terminal i ow c) = mc_currentServerId c" "mc_currentServerId (own_pty i ow c) = mc_currentServerId c"
  by (simp_all add: own_session_def own_tab_def own_terminal_def own_pty_def)

lemma own_runI:
  "own_run U c b \<Longrightarrow> ow \<in> u_sessions U \<Longrightarrow> i \<in> id_names ''ses'' (mc_currentServerId b) ow \<Longrightarrow> own_run U c (own_session i ow b)"
  "own_run U c b \<Longrightarrow> ow \<in> u_tabs U \<Longrightarrow> i \<in> id_names ''tab'' (mc_currentServerId b) ow \<Longrightarrow> own_run U c (own_tab i ow b)"
  "own_run U c b \<Longrightarrow> ow \<in> u_terminals U \<Longrightarrow> i \<in> id_names ''term'' (mc_currentServerId b) ow \<Longrightarrow>
     own_run U c (own_terminal i ow b)"
  "own_run U c b \<Longrightarrow> ow \<in> u_ptys U \<Longrightarrow> i \<in> pty_names (mc_currentServerId b) ow \<Longrightarrow> own_run U c (own_pty i ow b)"
  by (auto intro: rtranclp.rtrancl_into_rtrancl own_step.intros)

lemma own_run_session: "within_session U s x \<Longrightarrow> own_run U c (fst (scopeSession s x c))"
  unfolding scopeSession_def within_session_def Let_def keepLocalIds_def
  by (cases "s = mc_currentServerId c") (simp_all, (intro own_runI rtranclp.rtrancl_refl; simp)+)

lemma own_run_tab:
  assumes "within_tab U s x"
  shows "own_run U c (fst (scopeTab s x c))"
proof -
  let ?c2 = "own_session (tab_sessionId x) (owns s (tab_sessionId x)) (own_tab (tab_id x) (owns s (tab_id x)) c)"
  let ?c4 = "own_session (scopedId ''ses'' s (tab_sessionId x)) (owns s (tab_sessionId x))
    (own_tab (scopedId ''tab'' s (tab_id x)) (owns s (tab_id x)) ?c2)"
  have u: "owns s (tab_id x) \<in> u_tabs U" "owns s (tab_sessionId x) \<in> u_sessions U"
    using assms by (simp_all add: within_tab_def)
  have c2: "own_run U c ?c2"
    by (intro own_runI rtranclp.rtrancl_refl u; simp)
  moreover have "own_run U c ?c4" if "s \<noteq> mc_currentServerId c"
    by (intro own_runI c2 u; simp add: that)
  moreover have "fst (scopeTab s x c) = (if s = mc_currentServerId c then ?c2 else ?c4)"
    by (simp add: scopeTab_def Let_def keepLocalIds_def)
  ultimately show ?thesis by (metis (full_types))
qed

lemma own_run_pty:
  "own_run U c b \<Longrightarrow> (truthy p \<Longrightarrow> ow \<in> u_ptys U \<and> i \<in> pty_names (mc_currentServerId b) ow) \<Longrightarrow>
     own_run U c (if truthy p then own_pty i ow b else b)"
  by (auto intro: own_runI)

lemma own_run_terminal:
  assumes "within_terminal U s x"
  shows "own_run U c (fst (scopeMuxTerminal s x c))"
proof -
  let ?p = "ptyId (term_output x)"
  define c2 where "c2 = own_session (term_sessionId x) (owns s (term_sessionId x)) (own_terminal (term_id x) (owns s (term_id x)) c)"
  define c3 where "c3 = (if truthy ?p then own_pty (the ?p) (owns s (the ?p)) c2 else c2)"
  have cur: "mc_currentServerId c3 = mc_currentServerId c" by (simp add: c2_def c3_def)
  have "own_run U c c2"
    using assms unfolding within_terminal_def c2_def
    by (intro own_runI rtranclp.rtrancl_refl; simp)
  then have c3: "own_run U c c3"
    unfolding c3_def by (rule own_run_pty) (use assms in \<open>auto simp: within_terminal_def within_pty_def\<close>)
  show ?thesis
  proof (cases "keepLocalIds c s")
    case True
    with c3 show ?thesis
      unfolding scopeMuxTerminal_def Let_def c2_def [symmetric] c3_def [symmetric] by simp
  next
    case False
    define c5 where "c5 = own_session (scopedId ''ses'' s (term_sessionId x)) (owns s (term_sessionId x))
        (own_terminal (scopedId ''term'' s (term_id x)) (owns s (term_id x)) c3)"
    have "own_run U c c5"
      using assms False cur unfolding within_terminal_def keepLocalIds_def c5_def
      by (intro own_runI c3; simp)
    then have "own_run U c (if truthy ?p then own_pty (scopePtyId c s (the ?p)) (owns s (the ?p)) c5 else c5)"
      by (rule own_run_pty)
        (use assms False cur in \<open>auto simp: within_terminal_def within_pty_def c5_def scopePtyId_def keepLocalIds_def\<close>)
    with False show ?thesis
      unfolding scopeMuxTerminal_def Let_def c2_def [symmetric] c3_def [symmetric] c5_def [symmetric] by simp
  qed
qed

lemma own_run_scope_all:
  "(\<And>x c. x \<in> set xs \<Longrightarrow> own_run U c (fst (f x c))) \<Longrightarrow> own_run U c (fst (scope_all f xs c))"
proof (induction xs arbitrary: c)
  case (Cons x xs)
  have "own_run U c (fst (f x c))" "own_run U (fst (f x c)) (fst (scope_all f xs (fst (f x c))))"
    using Cons by auto
  then show ?case by (simp add: split_beta Let_def)
qed simp

lemma own_run_snapshot:
  assumes "within_snapshot U s x"
  shows "own_run U c (fst (scopeSnapshot s x c))"
proof -
  define c1 where "c1 = fst (scopeSession s (sn_session x) c)"
  define c2 where "c2 = (case sn_tabs x of None \<Rightarrow> c1 | Some ts \<Rightarrow> fst (scope_all (scopeTab s) ts c1))"
  have "own_run U c c1"
    using assms own_run_session unfolding c1_def within_snapshot_def by blast
  moreover have "own_run U c1 c2"
  proof (cases "sn_tabs x")
    case (Some ts)
    with assms have "list_all (within_tab U s) ts" by (simp add: within_snapshot_def)
    with Some show ?thesis by (auto simp: c2_def list_all_iff intro!: own_run_scope_all own_run_tab)
  qed (simp add: c2_def)
  moreover have "own_run U c2 (fst (scope_all (scopeMuxTerminal s) (sn_muxTerminals x) c2))"
    using assms by (auto simp: within_snapshot_def list_all_iff intro!: own_run_scope_all own_run_terminal)
  ultimately have "own_run U c (fst (scope_all (scopeMuxTerminal s) (sn_muxTerminals x) c2))"
    by (meson rtranclp_trans)
  moreover have "fst (scopeSnapshot s x c) = fst (scope_all (scopeMuxTerminal s) (sn_muxTerminals x) c2)"
    by (cases "sn_tabs x") (simp_all add: scopeSnapshot_def c1_def c2_def split_beta Let_def)
  ultimately show ?thesis by simp
qed

lemma own_run_event:
  assumes "within_event U s e"
  shows "own_run U c (fst (scopeEvent s e c))"
proof (cases e)
  case (TerminalOutputChanged b i out)
  have "own_run U c (if truthy (ptyId out) then own_pty (if keepLocalIds c s then the (ptyId out)
      else scopePtyId c s (the (ptyId out))) (owns s (the (ptyId out))) c else c)"
    by (rule own_run_pty)
      (use assms TerminalOutputChanged in \<open>auto simp: within_pty_def keepLocalIds_def scopePtyId_def\<close>)
  with TerminalOutputChanged show ?thesis by simp
qed (use assms own_run_session own_run_tab own_run_terminal in \<open>auto simp: split_beta Let_def\<close>)

lemma own_run_reply:
  assumes "within_reply U s r"
  shows "own_run U c (fst (mux_receive s r c))"
proof (cases r)
  case (SnapshotReply x)
  with assms own_run_snapshot show ?thesis by (cases x) (auto simp: split_beta Let_def)
next
  case (MaybeTerminalReply x)
  with assms own_run_terminal show ?thesis by (cases x) (auto simp: split_beta Let_def)
next
  case (TabsReply xs)
  with assms show ?thesis by (simp add: split_beta Let_def list_all_iff own_run_scope_all own_run_tab)
next
  case (TerminalsReply xs)
  with assms show ?thesis by (simp add: split_beta Let_def list_all_iff own_run_scope_all own_run_terminal)
qed (use assms own_run_session own_run_tab own_run_terminal in \<open>auto simp: split_beta Let_def\<close>)


section \<open>Runs\<close>

text \<open>
  What can happen to a client: its public methods, the code after their awaits, and the events of
  its connections. \<open>U\<close> holds the identifiers the hosts use. A late answer to \<open>listSessions\<close> is one whose
  connection was replaced while it was awaited: it changes the status of the old connection only.
  The parts of \<open>reorderSessions\<close> are separate replies.
\<close>

inductive multi_step ::
    "(json \<Rightarrow> server_definition option) \<Rightarrow> universe \<Rightarrow> 'l multi_client \<Rightarrow> 'l multi_client \<Rightarrow> bool" for normalise U where
  subscribe: "multi_step normalise U c (subscribe_client l c)"
| unsubscribe: "multi_step normalise U c (unsubscribe_client l c)"
| on_event: "multi_step normalise U c (onMuxEvent l c)"
| on_exit: "multi_step normalise U c (onExit l c)"
| target: "multi_step normalise U c (setGlobalTarget g c)"
| servers: "multi_step normalise U c (setServers normalise ds c)"
| select: "multi_step normalise U c (selectServer i c)"
| status: "multi_step normalise U c (onConnectionStatus s status c)"
| protocol: "multi_step normalise U c (onProtocolError s message c)"
| exit: "multi_step normalise U c (receiveExit s pty code c)"
| event: "within_event U s e \<Longrightarrow> multi_step normalise U c (receiveMuxEvent s e c)"
| send: "mux_send call c = Inr (c', s, l) \<Longrightarrow> multi_step normalise U c c'"
| receive: "within_reply U s r \<Longrightarrow> multi_step normalise U c (fst (mux_receive s r c))"
| answer: "(\<forall>sns. a = Inr sns \<longrightarrow> list_all (within_snapshot U s) sns) \<Longrightarrow>
    multi_step normalise U c (fst (list_answer s a c))"
| late_answer: "list_all (within_snapshot U s) sns \<Longrightarrow>
    multi_step normalise U c (fst (scope_all (scopeSnapshot s) sns c))"
| listed: "multi_step normalise U c (refresh_client c)"
| created: "owns s l \<in> u_ptys U \<Longrightarrow> multi_step normalise U c (fst (terminal_created s l c))"

abbreviation multi_run ::
    "(json \<Rightarrow> server_definition option) \<Rightarrow> universe \<Rightarrow> 'l multi_client \<Rightarrow> 'l multi_client \<Rightarrow> bool" where
  "multi_run normalise U \<equiv> (multi_step normalise U)\<^sup>*\<^sup>*"

definition same_owners :: "'l multi_client \<Rightarrow> 'l multi_client \<Rightarrow> bool" where
  "same_owners c c' \<longleftrightarrow> mc_currentServerId c' = mc_currentServerId c \<and> mc_sessionOwners c' = mc_sessionOwners c \<and>
     mc_tabOwners c' = mc_tabOwners c \<and> mc_muxTerminalOwners c' = mc_muxTerminalOwners c \<and>
     mc_ptyOwners c' = mc_ptyOwners c"

lemma same_owners_refl [simp]: "same_owners c c"
  by (simp add: same_owners_def)

lemma same_owners_trans: "same_owners a b \<Longrightarrow> same_owners b c \<Longrightarrow> same_owners a c"
  by (simp add: same_owners_def)

lemma own_run_same: "same_owners c c' \<Longrightarrow> own_run U c c'"
  by (rule r_into_rtranclp) (auto simp: same_owners_def intro: own_step.other)

lemma same_owners_globals [simp]:
  "same_owners c (publish_client c)" "same_owners c (refresh_client c)" "same_owners c (publishGlobal c)"
  by (auto simp: same_owners_def publish_client_def refresh_client_def publishGlobal_def Let_def split: option.split)

lemma same_owners_select [simp]: "same_owners c (selectServer i c)"
proof -
  have "same_owners c (c\<lparr>mc_activeServerId := Some i\<rparr>)" by (simp add: same_owners_def)
  then have "same_owners c (refresh_client (publishGlobal (c\<lparr>mc_activeServerId := Some i\<rparr>)))"
    by (rule same_owners_trans [OF same_owners_trans [OF _ same_owners_globals(3)] same_owners_globals(2)])
  then show ?thesis by (simp add: selectServer_def)
qed

lemma same_owners_update [simp]: "same_owners c (update_connection i f c)"
  by (auto simp: same_owners_def update_connection_def split: option.split)

lemma same_owners_setServers [simp]: "same_owners c (setServers normalise ds c)"
proof (cases "map_of (mc_connections c) (mc_currentServerId c)")
  case None
  then show ?thesis by (simp add: setServers_def)
next
  case (Some n)
  let ?c1 = "syncDefinitions normalise (cn_definition n) ds c"
  let ?c2 = "?c1\<lparr>mc_generation := mc_generation ?c1 + 1\<rparr>"
  have "same_owners c (?c2\<lparr>mc_snapshot := makeMultiSnapshot ?c2\<rparr>)"
    by (simp add: same_owners_def syncDefinitions_def Let_def)
  then have "same_owners c (publish_client (publishGlobal (?c2\<lparr>mc_snapshot := makeMultiSnapshot ?c2\<rparr>)))"
    using same_owners_trans same_owners_globals by blast
  with Some show ?thesis by (simp add: setServers_def Let_def)
qed

lemma same_owners_listeners [simp]:
  "same_owners c (subscribe_client l c)" "same_owners c (unsubscribe_client l c)"
  "same_owners c (onMuxEvent l c)" "same_owners c (onExit l c)" "same_owners c (receiveExit s pty code c)"
  by (simp_all add: subscribe_client_def unsubscribe_client_def onMuxEvent_def onExit_def receiveExit_def same_owners_def)

lemma same_owners_handlers [simp]:
  "same_owners c (onConnectionStatus s status c)" "same_owners c (onProtocolError s message c)"
  by (simp_all add: onConnectionStatus_def onProtocolError_def
      same_owners_trans [OF same_owners_update same_owners_globals(2)])

lemma same_owners_target [simp]: "same_owners c (setGlobalTarget g c)"
proof -
  have "same_owners c (c\<lparr>mc_globalTarget := g\<rparr>)" by (simp add: same_owners_def)
  from same_owners_trans [OF this same_owners_globals(3)] show ?thesis by (simp add: setGlobalTarget_def)
qed

lemma send_same_owners: "mux_send call c = Inr (c', s, l) \<Longrightarrow> same_owners c c'"
  by (induction call c rule: mux_send.induct)
    (auto simp: send_local_def send_owned_def and_then_Inr Let_def)

lemma own_run_step: "multi_step normalise U c c' \<Longrightarrow> own_run U c c'"
proof (induction rule: multi_step.induct)
  case (event s e c)
  show ?case
  proof (cases "map_has (mc_connections c) s")
    case True
    let ?c' = "fst (scopeEvent s e c)"
    have "same_owners ?c' (receiveMuxEvent s e c)"
      using True by (simp add: receiveMuxEvent_def split_beta Let_def same_owners_def)
    with own_run_event [OF event] own_run_same show ?thesis by (meson rtranclp_trans)
  qed (simp add: receiveMuxEvent_def)
next
  case (answer a s c)
  show ?case
  proof (cases a)
    case (Inr sns)
    with answer have "list_all (within_snapshot U s) sns" by simp
    let ?b = "update_connection s (\<lambda>n. n\<lparr>cn_status := Connected, cn_error := None,
        cn_sessionCount := session_count sns\<rparr>) c"
    have "own_run U c ?b" by (rule own_run_same) simp
    moreover have "own_run U ?b (fst (scope_all (scopeSnapshot s) sns ?b))"
      using \<open>list_all (within_snapshot U s) sns\<close>
      by (auto simp: list_all_iff intro!: own_run_scope_all own_run_snapshot)
    ultimately show ?thesis using Inr by (simp add: list_answer_def)
  qed (simp add: list_answer_def own_run_same)
next
  case (late_answer s sns c)
  then show ?case by (auto simp: list_all_iff intro!: own_run_scope_all own_run_snapshot)
next
  case (receive s r c)
  then show ?case by (rule own_run_reply)
next
  case (created s l c)
  then show ?case
    by (auto simp: terminal_created_def Let_def scopePtyId_def intro!: own_runI)
next
  case (send call c c' s l)
  then show ?case using send_same_owners own_run_same by blast
qed (simp_all add: own_run_same)

lemma own_run_multi: "multi_run normalise U c c' \<Longrightarrow> own_run U c c'"
  by (induction rule: rtranclp_induct) (auto dest: own_run_step)


lemma new_client_owners:
  "mc_sessionOwners (newMultiServerHostClient normalise current servers target) = []"
  "mc_tabOwners (newMultiServerHostClient normalise current servers target) = []"
  "mc_muxTerminalOwners (newMultiServerHostClient normalise current servers target) = []"
  "mc_ptyOwners (newMultiServerHostClient normalise current servers target) = []"
  "mc_currentServerId (newMultiServerHostClient normalise current servers target) = sd_id current"
proof -
  let ?c0 = "\<lparr>mc_currentServerId = sd_id current, mc_connections = [], mc_listeners = [], mc_muxEventListeners = [],
                mc_sessionOwners = [], mc_tabOwners = [], mc_muxTerminalOwners = [], mc_ptyOwners = [],
                mc_terminalExitListeners = [], mc_activeServerId = None, mc_generation = 0,
                mc_globalTarget = target, mc_ports = None,
                mc_snapshot = \<lparr>ms_connections = [], ms_activeServerId = None, ms_generation = 0\<rparr>, mc_log = []\<rparr>"
  let ?c1 = "(syncDefinitions normalise current servers ?c0)\<lparr>mc_ports := Some (sd_id current)\<rparr>"
  have "same_owners ?c0 (?c1\<lparr>mc_snapshot := makeMultiSnapshot ?c1\<rparr>)"
    by (simp add: same_owners_def syncDefinitions_def Let_def)
  then have "same_owners ?c0 (newMultiServerHostClient normalise current servers target)"
    unfolding newMultiServerHostClient_def Let_def by (rule same_owners_trans) simp
  then show "mc_sessionOwners (newMultiServerHostClient normalise current servers target) = []"
    "mc_tabOwners (newMultiServerHostClient normalise current servers target) = []"
    "mc_muxTerminalOwners (newMultiServerHostClient normalise current servers target) = []"
    "mc_ptyOwners (newMultiServerHostClient normalise current servers target) = []"
    "mc_currentServerId (newMultiServerHostClient normalise current servers target) = sd_id current"
    by (simp_all add: same_owners_def)
qed

lemma new_client_owners_ok: "client_owners_ok U (newMultiServerHostClient normalise current servers target)"
  by (simp add: client_owners_ok_def owners_ok_def new_client_owners)

lemma stable_owners:
  assumes "unambiguous_universe (sd_id current) U"
    and "multi_run normalise U (newMultiServerHostClient normalise current servers target) c"
    and "multi_run normalise U c c'"
  shows "client_owners_ok U c \<and>
    (\<forall>i ow. (ownerForSession c i = Inr ow \<longrightarrow> ownerForSession c' i = Inr ow) \<and>
            (ownerForTab c i = Inr ow \<longrightarrow> ownerForTab c' i = Inr ow) \<and>
            (ownerForMuxTerminal c i = Inr ow \<longrightarrow> ownerForMuxTerminal c' i = Inr ow) \<and>
            (map_of (mc_ptyOwners c) i = Some ow \<longrightarrow> ownerForPty c' i = Inr ow))"
proof -
  let ?n = "newMultiServerHostClient normalise current servers target"
  have "unambiguous_universe (mc_currentServerId ?n) U" using assms(1) by (simp add: new_client_owners)
  from own_run_keeps [OF own_run_multi [OF assms(2)] new_client_owners_ok this]
  have c: "client_owners_ok U c" "mc_currentServerId c = sd_id current"
    by (simp_all add: keeps_owners_def new_client_owners)
  with own_run_keeps [OF own_run_multi [OF assms(3)] c(1)] assms(1) have "keeps_owners c c'" by simp
  then have "map_of (mc_sessionOwners c) i = Some ow \<Longrightarrow> map_of (mc_sessionOwners c') i = Some ow"
    "map_of (mc_tabOwners c) i = Some ow \<Longrightarrow> map_of (mc_tabOwners c') i = Some ow"
    "map_of (mc_muxTerminalOwners c) i = Some ow \<Longrightarrow> map_of (mc_muxTerminalOwners c') i = Some ow"
    "map_of (mc_ptyOwners c) i = Some ow \<Longrightarrow> map_of (mc_ptyOwners c') i = Some ow" for i ow
    unfolding keeps_owners_def map_le_def by (metis domI)+
  then show ?thesis
    using c(1) by (simp add: ownerForSession_def ownerForTab_def ownerForMuxTerminal_def ownerForPty_def
        split: option.splits)
qed

text \<open>
  C28: once an identifier of a session, window, terminal or pty has an owner, no later event, reply
  or change of the servers gives it another, as long as the hosts' identifiers are unambiguous;
  and the owner is the one the identifier was made from.
\<close>

theorem owners_are_stable:
  assumes "unambiguous_universe (sd_id current) U"
    and "multi_run normalise U (newMultiServerHostClient normalise current servers target) c"
    and "multi_run normalise U c c'"
  shows "client_owners_ok U c \<and>
    (\<forall>i ow. (ownerForSession c i = Inr ow \<longrightarrow> ownerForSession c' i = Inr ow) \<and>
            (ownerForTab c i = Inr ow \<longrightarrow> ownerForTab c' i = Inr ow) \<and>
            (ownerForMuxTerminal c i = Inr ow \<longrightarrow> ownerForMuxTerminal c' i = Inr ow) \<and>
            (map_of (mc_ptyOwners c) i = Some ow \<longrightarrow> ownerForPty c' i = Inr ow))"
  by (rule stable_owners [OF assms])

lemma scopeSession_owner:
  "ownerForSession (fst (scopeSession s x c)) (ses_id (snd (scopeSession s x c))) = Inr (owns s (ses_id x))"
  by (simp add: scopeSession_def Let_def ownerForSession_def own_session_def jsmap)

lemma scopeMuxTerminal_owner:
  "ownerForMuxTerminal (fst (scopeMuxTerminal s x c)) (term_id (snd (scopeMuxTerminal s x c))) = Inr (owns s (term_id x))"
  by (simp add: scopeMuxTerminal_def Let_def ownerForMuxTerminal_def own_session_def own_pty_def own_terminal_def jsmap)



text \<open>
  without that assumption commands can go astray. A remote host's session is also entered under
  its unscoped local identifier, so a session of the current server with the same identifier is
  from then on taken for the remote's: its commands are sent to the wrong host.
\<close>

theorem remote_session_shadows_current:
  assumes "map_has (mc_connections c) b" "b \<noteq> mc_currentServerId c"
    and "ownerForSession c (ses_id x) = Inr (owns (mc_currentServerId c) (ses_id x))"
  shows "case mux_send (MuxCommand (RenameSession (ses_id x) title)) (fst (scopeSession b x c)) of
      Inr (c', s, l) \<Rightarrow> s = b \<and> l = MuxCommand (RenameSession (ses_id x) title)
    | Inl e \<Rightarrow> False"
  using assms
  by (simp add: send_owned_def connectionForOwner_def scopeSession_def keepLocalIds_def Let_def
      ownerForSession_def own_session_def jsmap)

section \<open>Connections\<close>

definition keyed_definitions :: "(string, server_definition) jsmap \<Rightarrow> bool" where
  "keyed_definitions m \<longleftrightarrow> map_ok m \<and> (\<forall>(i, d) \<in> set m. sd_id d = i) \<and> distinct (map sd_url (map_values m))"

lemma map_set_new: "k \<notin> set (map_keys m) \<Longrightarrow> map_set k v m = m @ [(k, v)]"
  by (induction m) auto

lemma keyed_desired:
  "keyed_definitions desired \<Longrightarrow> keyed_definitions (desired_loop normalise cur ds desired)
     \<and> map_of desired \<subseteq>\<^sub>m map_of (desired_loop normalise cur ds desired)"
proof (induction normalise cur ds desired rule: desired_loop.induct)
  case (2 normalise cur d ds desired)
  show ?case
  proof (cases "normalise (definition_value d)")
    case None
    with 2 show ?thesis by simp
  next
    case (Some n)
    let ?skip = "sd_id n = cur \<or> map_has desired (sd_id n)"
    let ?dup = "list_ex (\<lambda>e. sd_url e = sd_url n) (map_values desired)"
    show ?thesis
    proof (cases "?skip \<or> ?dup")
      case True
      with 2 Some show ?thesis by auto
    next
      case False
      then have new: "map_set (sd_id n) n desired = desired @ [(sd_id n, n)]"
        by (intro map_set_new) (simp add: map_of_eq_None_iff [symmetric])
      with False "2.prems" have k: "keyed_definitions (map_set (sd_id n) n desired)"
        by (auto simp: keyed_definitions_def list_ex_iff map_of_eq_None_iff)
      have "map_of desired \<subseteq>\<^sub>m map_of (map_set (sd_id n) n desired)"
        using False by (auto simp: map_le_def jsmap)
      with "2.IH"(4) [OF Some _ _ k] False Some show ?thesis by (auto intro: map_le_trans)
    qed
  qed
qed simp

definition add_missing :: "server_definition list \<Rightarrow> (string, managed_connection) jsmap \<Rightarrow> (string, managed_connection) jsmap" where
  "add_missing ds m = fold (\<lambda>d m. if map_has m (sd_id d) then m else map_set (sd_id d) (createConnection d) m) ds m"

lemma add_missing_ok: "map_ok m \<Longrightarrow> map_ok (add_missing ds m)"
  unfolding add_missing_def by (induction ds arbitrary: m) auto

lemma add_missing_lookup:
  "distinct (map sd_id ds) \<Longrightarrow> map_of (add_missing ds m) i =
     (case map_of m i of Some n \<Rightarrow> Some n
      | None \<Rightarrow> map_option createConnection (find (\<lambda>d. sd_id d = i) ds))"
  unfolding add_missing_def
proof (induction ds arbitrary: m)
  case (Cons d ds)
  have "find (\<lambda>e. sd_id e = sd_id d) ds = None"
    using Cons.prems by (auto simp: find_None_iff image_iff)
  with Cons show ?case by (auto simp: jsmap split: option.splits)
qed (simp split: option.split)

lemma find_values: "keyed_definitions m \<Longrightarrow> find (\<lambda>d. sd_id d = i) (map_values m) = map_of m i"
  by (induction m) (auto simp: keyed_definitions_def)

lemma map_of_filter_ok: "map_ok m \<Longrightarrow> map_of (filter P m) i =
   (case map_of m i of None \<Rightarrow> None | Some v \<Rightarrow> if P (i, v) then Some v else None)"
  by (induction m) (auto split: option.splits simp: map_of_eq_None_iff dest!: map_of_SomeD)

text \<open>What \<open>syncDefinitions\<close> is to make of the connections.\<close>

definition wanted_connection ::
    "(string, server_definition) jsmap \<Rightarrow> (string, managed_connection) jsmap \<Rightarrow> string \<Rightarrow> managed_connection option" where
  "wanted_connection desired old i =
     (case map_of desired i of
        None \<Rightarrow> None
      | Some d \<Rightarrow>
          (case map_of old i of
             Some n \<Rightarrow> if sd_url (cn_definition n) = sd_url d \<and> sd_token (cn_definition n) = sd_token d
                       then Some n else Some (createConnection d)
           | None \<Rightarrow> Some (createConnection d)))"

lemma keyed_values_distinct: "keyed_definitions m \<Longrightarrow> distinct (map sd_id (map_values m))"
proof -
  assume k: "keyed_definitions m"
  then have "map sd_id (map_values m) = map_keys m" by (auto simp: keyed_definitions_def)
  moreover have "distinct (map_keys m)" using k by (simp add: keyed_definitions_def)
  ultimately show ?thesis by (simp only:)
qed

lemma syncDefinitions_lookup:
  assumes "map_ok (mc_connections c)"
    and desired_def: "desired = desired_loop normalise (sd_id current) ds [(sd_id current, current)]"
  shows "map_of (mc_connections (syncDefinitions normalise current ds c)) i =
     wanted_connection desired (mc_connections c) i"
    "map_ok (mc_connections (syncDefinitions normalise current ds c))"
    "keyed_definitions desired" "map_of desired (sd_id current) = Some current"
proof -
  have k: "keyed_definitions desired \<and> map_of [(sd_id current, current)] \<subseteq>\<^sub>m map_of desired"
    unfolding desired_def by (rule keyed_desired) (simp add: keyed_definitions_def)
  then show kd: "keyed_definitions desired" and "map_of desired (sd_id current) = Some current"
    by (auto simp: map_le_def)
  let ?kept = "filter (\<lambda>e. \<not> outdated desired e) (mc_connections c)"
  have conns: "mc_connections (syncDefinitions normalise current ds c) = add_missing (map_values desired) ?kept"
    by (simp add: syncDefinitions_def Let_def add_missing_def desired_def)
  have okk: "map_ok ?kept" using assms(1) by (rule distinct_map_filter)
  then show "map_ok (mc_connections (syncDefinitions normalise current ds c))"
    by (simp add: conns add_missing_ok)
  show "map_of (mc_connections (syncDefinitions normalise current ds c)) i =
     wanted_connection desired (mc_connections c) i"
    unfolding conns add_missing_lookup [OF keyed_values_distinct [OF kd]] find_values [OF kd]
      map_of_filter_ok [OF assms(1)]
    by (auto simp: wanted_connection_def outdated_def split: option.splits)
qed


definition conns_ok :: "string \<Rightarrow> (string, managed_connection) jsmap \<Rightarrow> bool" where
  "conns_ok cur m \<longleftrightarrow> map_ok m \<and> map_has m cur
     \<and> (\<forall>i n. map_of m i = Some n \<longrightarrow> sd_id (cn_definition n) = i)
     \<and> (\<forall>i j n k. map_of m i = Some n \<and> map_of m j = Some k \<and> sd_url (cn_definition n) = sd_url (cn_definition k) \<longrightarrow> i = j)"

definition client_ok :: "'l multi_client \<Rightarrow> bool" where
  "client_ok c \<longleftrightarrow> conns_ok (mc_currentServerId c) (mc_connections c)
     \<and> (\<exists>a. mc_activeServerId c = Some a \<and> map_has (mc_connections c) a)
     \<and> mc_ports c = mc_activeServerId c"

lemma keyed_id: "keyed_definitions m \<Longrightarrow> map_of m i = Some d \<Longrightarrow> sd_id d = i"
  by (drule map_of_SomeD) (auto simp: keyed_definitions_def)

lemma wanted_facts:
  assumes "wanted_connection desired old i = Some n" "keyed_definitions desired"
    "\<forall>j m. map_of old j = Some m \<longrightarrow> sd_id (cn_definition m) = j"
  shows "\<exists>d. map_of desired i = Some d \<and> sd_url (cn_definition n) = sd_url d \<and> sd_id (cn_definition n) = i"
proof -
  from assms(1) obtain d where d: "map_of desired i = Some d" by (auto simp: wanted_connection_def split: option.splits)
  with assms(1) consider "n = createConnection d"
    | "map_of old i = Some n" "sd_url (cn_definition n) = sd_url d"
    by (cases "map_of old i") (auto simp: wanted_connection_def split: if_splits)
  then show ?thesis
    using d keyed_id [OF assms(2) d] assms(3) by cases (simp_all add: createConnection_def)
qed

lemma keyed_urls:
  assumes "keyed_definitions m" "map_of m i = Some d" "map_of m j = Some e" "sd_url d = sd_url e"
  shows "i = j"
proof -
  have "distinct (map (sd_url \<circ> snd) m)" using assms(1) by (simp add: keyed_definitions_def)
  moreover have "(i, d) \<in> set m" "(j, e) \<in> set m" using assms(2,3) by (auto dest: map_of_SomeD)
  ultimately have "(i, d) = (j, e)"
    using assms(4) unfolding distinct_map by (intro inj_onD [where f = "sd_url \<circ> snd" and A = "set m"]) simp_all
  then show ?thesis by simp
qed

lemma conns_ok_sync:
  assumes "map_ok (mc_connections c)" "\<forall>i n. map_of (mc_connections c) i = Some n \<longrightarrow> sd_id (cn_definition n) = i"
  shows "conns_ok (sd_id current) (mc_connections (syncDefinitions normalise current ds c))"
proof -
  let ?desired = "desired_loop normalise (sd_id current) ds [(sd_id current, current)]"
  let ?new = "mc_connections (syncDefinitions normalise current ds c)"
  note s = syncDefinitions_lookup [OF assms(1) refl]
  have "map_has ?new (sd_id current)"
    using s(4) by (simp add: s(1) wanted_connection_def split: option.split)
  moreover have facts: "\<exists>d. map_of ?desired i = Some d \<and> sd_url (cn_definition n) = sd_url d \<and> sd_id (cn_definition n) = i"
    if "map_of ?new i = Some n" for i n
    using wanted_facts [OF _ s(3) assms(2)] that by (simp only: s(1))
  moreover have "i = j" if "map_of ?new i = Some n" "map_of ?new j = Some k"
    "sd_url (cn_definition n) = sd_url (cn_definition k)" for i j n k
    using facts [OF that(1)] facts [OF that(2)] that(3) keyed_urls [OF s(3)] by metis
  ultimately show ?thesis using s(2) unfolding conns_ok_def by blast
qed

lemma sync_active:
  "\<exists>a. mc_activeServerId (syncDefinitions normalise current ds c) = Some a
     \<and> (a = sd_id current \<or> map_has (mc_connections (syncDefinitions normalise current ds c)) a)"
  by (auto simp: syncDefinitions_def Let_def split: option.split)

lemma publish_parts [simp]:
  "mc_connections (publish_client c) = mc_connections c" "mc_activeServerId (publish_client c) = mc_activeServerId c"
  "mc_ports (publish_client c) = mc_ports c" "mc_currentServerId (publish_client c) = mc_currentServerId c"
  "mc_connections (refresh_client c) = mc_connections c" "mc_activeServerId (refresh_client c) = mc_activeServerId c"
  "mc_ports (refresh_client c) = mc_ports c" "mc_currentServerId (refresh_client c) = mc_currentServerId c"
  by (simp_all add: publish_client_def refresh_client_def)

lemma publishGlobal_parts:
  "mc_connections (publishGlobal c) = mc_connections c" "mc_activeServerId (publishGlobal c) = mc_activeServerId c"
  "mc_currentServerId (publishGlobal c) = mc_currentServerId c"
  "mc_activeServerId c = Some a \<Longrightarrow> map_has (mc_connections c) a \<Longrightarrow> mc_ports (publishGlobal c) = Some a"
  by (auto simp: publishGlobal_def Let_def split: option.split)

lemma client_ok_cong:
  "mc_connections c' = mc_connections c \<Longrightarrow> mc_activeServerId c' = mc_activeServerId c \<Longrightarrow> mc_ports c' = mc_ports c \<Longrightarrow>
   mc_currentServerId c' = mc_currentServerId c \<Longrightarrow> client_ok c \<Longrightarrow> client_ok c'"
  by (simp add: client_ok_def)

lemma client_ok_publishGlobal:
  "conns_ok (mc_currentServerId c) (mc_connections c) \<Longrightarrow> mc_activeServerId c = Some a \<Longrightarrow> map_has (mc_connections c) a \<Longrightarrow>
     client_ok (publishGlobal c)"
  using publishGlobal_parts(4) [of c a] by (simp add: client_ok_def publishGlobal_parts(1-3))

lemma client_ok_refresh [simp]: "client_ok (refresh_client c) = client_ok c" "client_ok (publish_client c) = client_ok c"
  by (simp_all add: client_ok_def)

lemma client_ok_select:
  assumes "client_ok c"
  shows "client_ok (selectServer i c)"
proof (cases "map_has (mc_connections c) i")
  case True
  then have "client_ok (publishGlobal (c\<lparr>mc_activeServerId := Some i\<rparr>))"
    using assms by (intro client_ok_publishGlobal [of _ i]) (simp_all add: client_ok_def)
  moreover have "client_ok (publishGlobal c)"
    using assms client_ok_publishGlobal by (auto simp: client_ok_def)
  ultimately show ?thesis using assms by (simp add: selectServer_def)
qed (simp add: selectServer_def assms)

lemma client_ok_setServers:
  assumes "client_ok c"
  shows "client_ok (setServers normalise ds c)"
proof -
  from assms obtain n where n: "map_of (mc_connections c) (mc_currentServerId c) = Some n"
    and ok: "map_ok (mc_connections c)" "\<forall>i n. map_of (mc_connections c) i = Some n \<longrightarrow> sd_id (cn_definition n) = i"
    by (auto simp: client_ok_def conns_ok_def)
  then have cur: "sd_id (cn_definition n) = mc_currentServerId c" by blast
  let ?c1 = "syncDefinitions normalise (cn_definition n) ds c"
  let ?c2 = "?c1\<lparr>mc_generation := mc_generation ?c1 + 1\<rparr>"
  let ?c3 = "?c2\<lparr>mc_snapshot := makeMultiSnapshot ?c2\<rparr>"
  have conns: "conns_ok (mc_currentServerId c) (mc_connections ?c1)"
    using conns_ok_sync [OF ok, of "cn_definition n" normalise ds] cur by simp
  moreover obtain a where "mc_activeServerId ?c1 = Some a" "a = mc_currentServerId c \<or> map_has (mc_connections ?c1) a"
    using sync_active [of normalise "cn_definition n" ds c] cur by auto
  moreover have "mc_currentServerId ?c1 = mc_currentServerId c" by (simp add: syncDefinitions_def Let_def)
  ultimately have "client_ok (publishGlobal ?c3)"
    by (intro client_ok_publishGlobal [of _ a]) (auto simp: conns_ok_def)
  with n show ?thesis by (simp add: setServers_def Let_def)
qed

lemma client_ok_new: "client_ok (newMultiServerHostClient normalise current servers target)"
proof -
  define c0 where "c0 = \<lparr>mc_currentServerId = sd_id current, mc_connections = [], mc_listeners = [], mc_muxEventListeners = [],
                mc_sessionOwners = [], mc_tabOwners = [], mc_muxTerminalOwners = [], mc_ptyOwners = [],
                mc_terminalExitListeners = [], mc_activeServerId = None, mc_generation = 0,
                mc_globalTarget = target, mc_ports = None,
                mc_snapshot = \<lparr>ms_connections = [], ms_activeServerId = None, ms_generation = 0\<rparr>, mc_log = []\<rparr>"
  let ?c1 = "syncDefinitions normalise current servers c0"
  have conns: "conns_ok (sd_id current) (mc_connections ?c1)"
    by (rule conns_ok_sync) (simp_all add: c0_def)
  have active: "mc_activeServerId ?c1 = Some (sd_id current)" "mc_currentServerId ?c1 = sd_id current"
    by (simp_all add: syncDefinitions_def Let_def c0_def)
  have "client_ok (selectServer (sd_id current)
      (?c1\<lparr>mc_ports := Some (sd_id current), mc_snapshot := makeMultiSnapshot (?c1\<lparr>mc_ports := Some (sd_id current)\<rparr>)\<rparr>))"
    by (rule client_ok_select) (use conns active in \<open>auto simp: client_ok_def conns_ok_def\<close>)
  then show ?thesis by (simp add: newMultiServerHostClient_def Let_def c0_def)
qed


lemma client_ok_own [simp]:
  "client_ok (own_session i ow c) = client_ok c" "client_ok (own_tab i ow c) = client_ok c"
  "client_ok (own_terminal i ow c) = client_ok c" "client_ok (own_pty i ow c) = client_ok c"
  by (simp_all add: own_session_def own_tab_def own_terminal_def own_pty_def client_ok_def)

lemma client_ok_scope [simp]:
  "client_ok (fst (scopeSession s x c)) = client_ok c" "client_ok (fst (scopeTab s y c)) = client_ok c"
  "client_ok (fst (scopeMuxTerminal s z c)) = client_ok c"
  by (simp_all add: scopeSession_def scopeTab_def scopeMuxTerminal_def Let_def)

lemma client_ok_scope_all:
  "(\<And>x c. client_ok c \<Longrightarrow> client_ok (fst (f x c))) \<Longrightarrow> client_ok c \<Longrightarrow> client_ok (fst (scope_all f xs c))"
  by (induction xs arbitrary: c) (simp_all add: split_beta Let_def)

lemma client_ok_snapshot: "client_ok c \<Longrightarrow> client_ok (fst (scopeSnapshot s x c))"
  by (auto simp: scopeSnapshot_def split_beta Let_def intro!: client_ok_scope_all client_ok_scope split: option.split)

lemma client_ok_event: "client_ok c \<Longrightarrow> client_ok (fst (scopeEvent s e c))"
  by (cases e) (simp_all add: split_beta Let_def client_ok_scope)

lemma client_ok_reply: "client_ok c \<Longrightarrow> client_ok (fst (mux_receive s r c))"
proof (cases r)
  case (SnapshotReply x)
  then show "client_ok c \<Longrightarrow> ?thesis" by (cases x) (simp_all add: split_beta Let_def client_ok_snapshot)
next
  case (MaybeTerminalReply x)
  then show "client_ok c \<Longrightarrow> ?thesis" by (cases x) (simp_all add: split_beta Let_def client_ok_scope)
qed (simp_all add: split_beta Let_def client_ok_scope client_ok_scope_all)

lemma client_ok_update:
  assumes "client_ok c" "\<And>n. cn_definition (f n) = cn_definition n"
  shows "client_ok (update_connection i f c)"
proof (cases "map_of (mc_connections c) i")
  case (Some n)
  let ?new = "map_set i (f n) (mc_connections c)"
  have ok: "conns_ok (mc_currentServerId c) (mc_connections c)" using assms(1) by (simp add: client_ok_def)
  have def: "\<exists>k. map_of (mc_connections c) j = Some k \<and> cn_definition m = cn_definition k"
    if "map_of ?new j = Some m" for j m
    using that Some assms(2) by (auto simp: jsmap split: if_splits)
  have "map_ok ?new" using ok by (simp add: conns_ok_def)
  moreover have "map_has ?new (mc_currentServerId c)"
    using ok by (simp add: conns_ok_def jsmap del: map_of_eq_None_iff not_None_eq)
  moreover have "sd_id (cn_definition m) = j" if "map_of ?new j = Some m" for j m
    using def [OF that] ok by (auto simp: conns_ok_def)
  moreover have "j = j'" if "map_of ?new j = Some m" "map_of ?new j' = Some m'"
    "sd_url (cn_definition m) = sd_url (cn_definition m')" for j j' m m'
    using def [OF that(1)] def [OF that(2)] that(3) ok unfolding conns_ok_def by metis
  ultimately have "conns_ok (mc_currentServerId c) ?new" unfolding conns_ok_def by blast
  with assms(1) Some show ?thesis by (auto simp: update_connection_def client_ok_def jsmap)
qed (simp add: update_connection_def assms)

lemma send_client_ok: "mux_send call c = Inr (c', s, l) \<Longrightarrow> client_ok c \<Longrightarrow> client_ok c'"
  by (induction call c rule: mux_send.induct)
    (auto simp: send_local_def send_owned_def and_then_Inr Let_def client_ok_select)

lemma connection_handlers [simp]:
  "cn_definition (connection_status status n) = cn_definition n"
  "cn_definition (protocol_error message n) = cn_definition n"
  by (simp_all add: connection_status_def protocol_error_def Let_def)

lemma client_ok_step: "multi_step normalise U c c' \<Longrightarrow> client_ok c \<Longrightarrow> client_ok c'"
proof (induction rule: multi_step.induct)
  case (event s e c)
  then have "client_ok (fst (scopeEvent s e c))" by (simp add: client_ok_event)
  then show ?case using event.prems by (simp add: receiveMuxEvent_def split_beta Let_def client_ok_def)
next
  case (answer a s c)
  then show ?case
    by (cases a) (auto simp: list_answer_def intro!: client_ok_scope_all client_ok_snapshot client_ok_update)
next
  case (late_answer s sns c)
  then show ?case by (auto intro!: client_ok_scope_all client_ok_snapshot)
next
  case (send call c c' s l)
  then show ?case using send_client_ok by blast
next
  case (target c g)
  then obtain a where "mc_activeServerId c = Some a" "map_has (mc_connections c) a"
    "conns_ok (mc_currentServerId c) (mc_connections c)" by (auto simp: client_ok_def)
  then have "client_ok (publishGlobal (c\<lparr>mc_globalTarget := g\<rparr>))"
    by (intro client_ok_publishGlobal [of _ a]) simp_all
  then show ?case by (simp add: setGlobalTarget_def)
qed (simp_all add: client_ok_setServers client_ok_select client_ok_reply client_ok_update
    onConnectionStatus_def onProtocolError_def terminal_created_def Let_def,
    simp_all add: client_ok_def subscribe_client_def unsubscribe_client_def onMuxEvent_def onExit_def receiveExit_def)


lemma client_ok_run: "multi_run normalise U (newMultiServerHostClient normalise current servers target) c \<Longrightarrow> client_ok c"
  by (induction rule: rtranclp_induct) (simp_all add: client_ok_new client_ok_step)

text \<open>
  C11: whatever happens to a client, its connections stay sound. There is always one for the current
  host; each is entered under its own server's id; no two go to the same address; the active
  server is a connected one, and the API object the application reads is bound to that server.
\<close>

theorem client_connections_ok:
  assumes "multi_run normalise U (newMultiServerHostClient normalise current servers target) c"
  shows "map_ok (mc_connections c) \<and> map_has (mc_connections c) (sd_id current)
     \<and> (\<forall>i n. map_of (mc_connections c) i = Some n \<longrightarrow> sd_id (cn_definition n) = i)
     \<and> (\<forall>i j n k. map_of (mc_connections c) i = Some n \<and> map_of (mc_connections c) j = Some k
          \<and> sd_url (cn_definition n) = sd_url (cn_definition k) \<longrightarrow> i = j)
     \<and> (\<exists>a. mc_activeServerId c = Some a \<and> map_has (mc_connections c) a \<and> mc_ports c = Some a)"
proof -
  have "mc_currentServerId c = sd_id current"
    using own_run_current [OF own_run_multi [OF assms]] by (simp add: new_client_owners)
  with client_ok_run [OF assms] show ?thesis by (auto simp: client_ok_def conns_ok_def)
qed

lemma setServers_lookup:
  assumes "client_ok c" "map_of (mc_connections c) (mc_currentServerId c) = Some n"
  shows "map_of (mc_connections (setServers normalise ds c)) i = wanted_connection
      (desired_loop normalise (mc_currentServerId c) ds [(mc_currentServerId c, cn_definition n)]) (mc_connections c) i"
proof -
  have cur: "sd_id (cn_definition n) = mc_currentServerId c" and ok: "map_ok (mc_connections c)"
    using assms by (auto simp: client_ok_def conns_ok_def)
  show ?thesis
    using syncDefinitions_lookup(1) [OF ok refl, of normalise "cn_definition n" ds i] assms(2)
    by (simp add: setServers_def Let_def publishGlobal_parts cur)
qed

text \<open>
  changing the list of servers. Afterwards exactly the wanted servers are connected: the current
  one and, of the others in the list, those that are valid and repeat neither an id nor an
  address. A server whose address and token are unchanged keeps its connection as it is, with its
  status and its sessions; every other gets a fresh one that is connecting.
\<close>

theorem setServers_connections:
  assumes "multi_run normalise U (newMultiServerHostClient normalise current servers target) c"
    and "map_of (mc_connections c) (sd_id current) = Some n"
    and "desired = desired_loop normalise (sd_id current) ds [(sd_id current, cn_definition n)]"
  shows "map_of (mc_connections (setServers normalise ds c)) i =
     (case map_of desired i of
        None \<Rightarrow> None
      | Some d \<Rightarrow> Some (case map_of (mc_connections c) i of
             Some k \<Rightarrow> if sd_url (cn_definition k) = sd_url d \<and> sd_token (cn_definition k) = sd_token d
                       then k else createConnection d
           | None \<Rightarrow> createConnection d))"
proof -
  have "mc_currentServerId c = sd_id current"
    using own_run_current [OF own_run_multi [OF assms(1)]] by (simp add: new_client_owners)
  with setServers_lookup [OF client_ok_run [OF assms(1)]] assms(2,3) show ?thesis
    by (auto simp: wanted_connection_def split: option.split)
qed


text \<open>
  In particular a server that is only renamed keeps its old name until the client is made anew: the
  name is not compared.
\<close>

lemma rename_not_applied:
  assumes "client_ok c" "map_of (mc_connections c) (mc_currentServerId c) = Some n"
    "map_of (mc_connections c) i = Some k"
    "map_of (desired_loop normalise (mc_currentServerId c) ds [(mc_currentServerId c, cn_definition n)]) i =
       Some ((cn_definition k)\<lparr>sd_name := new_name\<rparr>)"
  shows "map_of (mc_connections (setServers normalise ds c)) i = Some k"
  using setServers_lookup [OF assms(1,2)] assms(3,4) by (simp add: wanted_connection_def)

section \<open>Examples\<close>

definition home_server :: server_definition where
  "home_server = \<lparr>sd_id = ''home'', sd_name = ''home'', sd_url = ''http://h'', sd_token = None\<rparr>"

definition away_server :: server_definition where
  "away_server = \<lparr>sd_id = ''srv'', sd_name = ''away'', sd_url = ''http://a'', sd_token = None\<rparr>"

definition sample_normalise :: "json \<Rightarrow> server_definition option" where
  "sample_normalise j = (if j = definition_value away_server then Some away_server else None)"

definition sample_client :: "string multi_client" where
  "sample_client = newMultiServerHostClient sample_normalise home_server [away_server] None"

definition away_session :: "string \<Rightarrow> app_session" where
  "away_session i = \<lparr>ses_id = i, ses_title = ''s'', ses_position = 0, ses_activeTabId = None,
     ses_activeMuxTerminalId = None, ses_revision = Some 1, ses_createdAt = ''1'', ses_updatedAt = ''1'',
     ses_archivedAt = None\<rparr>"

definition away_terminal :: mux_terminal where
  "away_terminal = \<lparr>term_id = ''term-9'', term_sessionId = ''ses-9'', term_tabId = None, term_title = ''t'',
     term_position = 0, term_status = StatusRunning, term_input = TerminalInput None, term_inputRevision = 0,
     term_output = \<lparr>terminalInstanceId = ''x'', ptyId = None, historyId = None, processIdentity = None,
       output_generation = 0, processState = ProcRunning, activityState = ActIdle, replayAvailable = True,
       exitCode = None, truncated = False\<rparr>,
     term_error = None, term_revision = 0, term_createdAt = ''1'', term_updatedAt = ''1'', term_startedAt = None,
     term_finishedAt = None, term_archivedAt = None\<rparr>"

definition sample_universe :: universe where
  "sample_universe = \<lparr>u_sessions = {owns ''home'' ''ses-1'', owns ''srv'' ''ses-9''}, u_tabs = {},
     u_terminals = {owns ''home'' ''term-1'', owns ''srv'' ''term-9''}, u_ptys = {}\<rparr>"

lemma sample_universe_ok:
  "unambiguous_universe (sd_id home_server) sample_universe"
  "within_session sample_universe ''srv'' (away_session ''ses-9'')" "within_terminal sample_universe ''srv'' away_terminal"
  by (simp_all add: unambiguous_universe_def unambiguous_def sample_universe_def home_server_def id_names_def
      scopedId_def away_session_def within_session_def within_terminal_def within_pty_def
      away_terminal_def truthy_def)

lemma sample_connections:
  "mc_connections sample_client = [(''home'', createConnection home_server), (''srv'', createConnection away_server)]"
  by (simp add: sample_client_def newMultiServerHostClient_def Let_def selectServer_def syncDefinitions_def
      sample_normalise_def home_server_def away_server_def publishGlobal_parts)

lemma sample_run:
  "multi_run sample_normalise sample_universe sample_client (fst (scopeSession ''srv'' (away_session ''ses-9'') sample_client))"
  "multi_run sample_normalise sample_universe sample_client (fst (scopeMuxTerminal ''srv'' away_terminal sample_client))"
proof -
  have "multi_step sample_normalise sample_universe sample_client
      (fst (mux_receive ''srv'' (SessionReply (away_session ''ses-9'')) sample_client))"
    "multi_step sample_normalise sample_universe sample_client
      (fst (mux_receive ''srv'' (TerminalReply away_terminal) sample_client))"
    using sample_universe_ok(2,3) by (intro multi_step.receive; simp)+
  then show "multi_run sample_normalise sample_universe sample_client (fst (scopeSession ''srv'' (away_session ''ses-9'') sample_client))"
    "multi_run sample_normalise sample_universe sample_client (fst (scopeMuxTerminal ''srv'' away_terminal sample_client))"
    by (auto simp: split_beta Let_def)
qed

lemma owners_are_stable_witness:
  "client_owners_ok sample_universe (fst (scopeSession ''srv'' (away_session ''ses-9'') sample_client))"
  using owners_are_stable [OF sample_universe_ok(1) sample_run(1) [unfolded sample_client_def] rtranclp.rtrancl_refl]
  by (simp add: sample_client_def)


lemma remote_session_shadows_current_witness:
  "case mux_send (MuxCommand (RenameSession ''ses-1'' ''t''))
      (fst (scopeSession ''srv'' (away_session ''ses-1'') (own_session ''ses-1'' (owns ''home'' ''ses-1'') sample_client))) of
    Inr (c', s, l) \<Rightarrow> s = ''srv'' | Inl e \<Rightarrow> False"
proof -
  let ?c = "own_session ''ses-1'' (owns ''home'' ''ses-1'') sample_client"
  have "mc_currentServerId ?c = ''home''" by (simp add: sample_client_def new_client_owners home_server_def)
  moreover have "mc_connections ?c = mc_connections sample_client" by (simp add: own_session_def)
  ultimately show ?thesis
    using remote_session_shadows_current [of ?c "''srv''" "away_session ''ses-1''" "''t''"]
    by (simp add: sample_connections away_session_def ownerForSession_def own_session_def jsmap split: sum.splits prod.splits)
qed

lemma client_connections_ok_witness:
  "map_has (mc_connections (setServers sample_normalise [] sample_client)) (sd_id home_server)"
proof -
  have "multi_run sample_normalise sample_universe sample_client (setServers sample_normalise [] sample_client)"
    by (rule r_into_rtranclp) (rule multi_step.servers)
  from client_connections_ok [OF this [unfolded sample_client_def]] show ?thesis
    unfolding sample_client_def by (elim conjE)
qed

lemma setServers_connections_witness:
  "map_of (mc_connections (setServers sample_normalise [away_server] sample_client)) ''srv'' =
     Some (createConnection away_server)"
proof -
  let ?d = "[(''home'', home_server), (''srv'', away_server)]"
  have run: "multi_run sample_normalise sample_universe
      (newMultiServerHostClient sample_normalise home_server [away_server] None) sample_client"
    by (simp add: sample_client_def)
  have home: "map_of (mc_connections sample_client) (sd_id home_server) = Some (createConnection home_server)"
    by (simp add: sample_connections home_server_def)
  have "?d = desired_loop sample_normalise (sd_id home_server) [away_server]
      [(sd_id home_server, cn_definition (createConnection home_server))]"
    by (simp add: sample_normalise_def home_server_def away_server_def createConnection_def)
  from setServers_connections [OF run home this, of "''srv''"] show ?thesis
    by (simp add: sample_connections createConnection_def)
qed

end
