(* ===== verification/Utf8.thy ===== *)
theory Utf8
  imports "HOL-Library.Word"
begin

text \<open>
  \<open>TextEncoder\<close> and \<open>TextDecoder\<close> of the platform for UTF-8, as the WHATWG Encoding standard defines
  them: strings are lists of UTF-16 code units, a lone surrogate is encoded as U+FFFD, the decoder
  replaces malformed sequences by U+FFFD and drops one leading byte order mark. Shown: encoding
  needs at most three bytes per code unit, so \<open>encodeInto\<close> a destination of that size is complete;
  and decoding an encoded string gives it back, lone surrogates and a leading mark apart.
\<close>

type_synonym utf16 = "16 word list"
type_synonym bytes = "8 word list"

section \<open>Code points\<close>

abbreviation REPLACEMENT :: nat where "REPLACEMENT \<equiv> 0xFFFD"
abbreviation BOM :: nat where "BOM \<equiv> 0xFEFF"

definition high_surrogate :: "16 word \<Rightarrow> bool" where
  "high_surrogate u \<longleftrightarrow> 0xD800 \<le> unat u \<and> unat u < 0xDC00"

definition low_surrogate :: "16 word \<Rightarrow> bool" where
  "low_surrogate u \<longleftrightarrow> 0xDC00 \<le> unat u \<and> unat u < 0xE000"

definition join_surrogates :: "16 word \<Rightarrow> 16 word \<Rightarrow> nat" where
  "join_surrogates h l = 0x10000 + (unat h - 0xD800) * 0x400 + (unat l - 0xDC00)"

text \<open>The scalar values of a string.\<close>

fun scalars :: "utf16 \<Rightarrow> nat list" where
  "scalars [] = []"
| "scalars [u] = [if high_surrogate u \<or> low_surrogate u then REPLACEMENT else unat u]"
| "scalars (u # v # us) =
     (if high_surrogate u \<and> low_surrogate v then join_surrogates u v # scalars us
      else (if high_surrogate u \<or> low_surrogate u then REPLACEMENT else unat u) # scalars (v # us))"

definition scalar_value :: "nat \<Rightarrow> bool" where
  "scalar_value c \<longleftrightarrow> c < 0xD800 \<or> 0xE000 \<le> c \<and> c < 0x110000"

definition utf16_point :: "nat \<Rightarrow> utf16" where
  "utf16_point c =
     (if c < 0x10000 then [word_of_nat c]
      else [word_of_nat (0xD800 + (c - 0x10000) div 0x400), word_of_nat (0xDC00 + (c - 0x10000) mod 0x400)])"

definition utf16_of :: "nat list \<Rightarrow> utf16" where
  "utf16_of cs = concat (map utf16_point cs)"

section \<open>Encoding\<close>

definition utf8_point :: "nat \<Rightarrow> nat list" where
  "utf8_point c =
     (if c < 0x80 then [c]
      else if c < 0x800 then [0xC0 + c div 0x40, 0x80 + c mod 0x40]
      else if c < 0x10000 then [0xE0 + c div 0x1000, 0x80 + c div 0x40 mod 0x40, 0x80 + c mod 0x40]
      else [0xF0 + c div 0x40000, 0x80 + c div 0x1000 mod 0x40, 0x80 + c div 0x40 mod 0x40, 0x80 + c mod 0x40])"

definition utf8_encode :: "utf16 \<Rightarrow> bytes" where
  "utf8_encode t = map word_of_nat (concat (map utf8_point (scalars t)))"

text \<open>\<open>encodeInto\<close> a destination of \<open>room\<close> bytes: what it writes. It stops before a code point that does not fit.\<close>

fun encode_points :: "nat \<Rightarrow> nat list \<Rightarrow> nat list" where
  "encode_points room [] = []"
| "encode_points room (c # cs) =
     (if length (utf8_point c) \<le> room then utf8_point c @ encode_points (room - length (utf8_point c)) cs else [])"

definition encodeInto :: "nat \<Rightarrow> utf16 \<Rightarrow> bytes" where
  "encodeInto room t = map word_of_nat (encode_points room (scalars t))"

section \<open>Decoding\<close>

text \<open>The decoder waits for the first byte of a sequence, or for \<open>n\<close> more, the next between two bounds.\<close>

datatype utf8_state = Start | Within nat nat nat nat

definition first_byte :: "nat \<Rightarrow> utf8_state \<times> nat list" where
  "first_byte b =
     (if b < 0x80 then (Start, [b])
      else if 0xC2 \<le> b \<and> b \<le> 0xDF then (Within 1 (b mod 0x20) 0x80 0xBF, [])
      else if 0xE0 \<le> b \<and> b \<le> 0xEF then
        (Within 2 (b mod 0x10) (if b = 0xE0 then 0xA0 else 0x80) (if b = 0xED then 0x9F else 0xBF), [])
      else if 0xF0 \<le> b \<and> b \<le> 0xF4 then
        (Within 3 (b mod 0x8) (if b = 0xF0 then 0x90 else 0x80) (if b = 0xF4 then 0x8F else 0xBF), [])
      else (Start, [REPLACEMENT]))"

fun next_byte :: "utf8_state \<Rightarrow> nat \<Rightarrow> utf8_state \<times> nat list" where
  "next_byte Start b = first_byte b"
| "next_byte (Within n c lower upper) b =
     (if lower \<le> b \<and> b \<le> upper then
        (if n = 1 then (Start, [c * 0x40 + b mod 0x40])
         else (Within (n - 1) (c * 0x40 + b mod 0x40) 0x80 0xBF, []))
      else apsnd ((#) REPLACEMENT) (first_byte b))"

fun decode_points :: "utf8_state \<Rightarrow> nat list \<Rightarrow> nat list" where
  "decode_points Start [] = []"
| "decode_points (Within n c lower upper) [] = [REPLACEMENT]"
| "decode_points st (b # bs) = (let (st', cs) = next_byte st b in cs @ decode_points st' bs)"

definition drop_bom :: "nat list \<Rightarrow> nat list" where
  "drop_bom cs = (case cs of c # cs' \<Rightarrow> if c = BOM then cs' else cs | [] \<Rightarrow> [])"

definition utf8_decode :: "bytes \<Rightarrow> utf16" where
  "utf8_decode bs = utf16_of (drop_bom (decode_points Start (map unat bs)))"

section \<open>Properties\<close>

lemma unat_16_less: "unat (u :: 16 word) < 0x10000"
  using unsigned_less [of u] by simp

lemma scalars_ok: "\<forall>c \<in> set (scalars t). scalar_value c"
proof (induction t rule: scalars.induct)
  case (2 u)
  then show ?case using unat_16_less [of u] by (auto simp: scalar_value_def high_surrogate_def low_surrogate_def)
next
  case (3 u v us)
  have "scalar_value (join_surrogates u v)" if "high_surrogate u" "low_surrogate v"
    using that by (auto simp: scalar_value_def high_surrogate_def low_surrogate_def join_surrogates_def)
  moreover have "scalar_value (if high_surrogate u \<or> low_surrogate u then REPLACEMENT else unat u)"
    using unat_16_less [of u] by (auto simp: scalar_value_def high_surrogate_def low_surrogate_def)
  ultimately show ?case using 3 by simp
qed simp

lemma utf8_point_length: "scalar_value c \<Longrightarrow> length (utf8_point c) \<le> (if c < 0x10000 then 3 else 4)"
  by (simp add: utf8_point_def)

lemma encode_points_all:
  "length (concat (map utf8_point cs)) \<le> room \<Longrightarrow> encode_points room cs = concat (map utf8_point cs)"
  by (induction cs arbitrary: room) auto

lemma utf8_encode_length: "length (utf8_encode t) \<le> 3 * length t"
proof -
  have "length (concat (map utf8_point (scalars t))) \<le> 3 * length t"
  proof (induction t rule: scalars.induct)
    case (2 u)
    then show ?case using unat_16_less [of u] by (simp add: utf8_point_def)
  next
    case (3 u v us)
    then show ?case using unat_16_less [of u] by (auto simp: utf8_point_def)
  qed simp
  then show ?thesis by (simp add: utf8_encode_def)
qed

lemma encodeInto_all: "3 * length t \<le> room \<Longrightarrow> encodeInto room t = utf8_encode t"
  using utf8_encode_length [of t] by (simp add: encodeInto_def utf8_encode_def encode_points_all)

lemma utf8_point_bytes: "scalar_value c \<Longrightarrow> \<forall>b \<in> set (utf8_point c). b < 0x100"
  by (auto simp: utf8_point_def scalar_value_def)

lemma mod_offset: "a < m \<Longrightarrow> (k * m + a) mod m = (a :: nat)"
  by simp

lemma split_64: "d < 0x40 \<Longrightarrow> (x * 0x40 + d) div 0x40 = x" "d < 0x40 \<Longrightarrow> (x * 0x40 + d) mod 0x40 = (d :: nat)"
  by simp_all

lemma div_chain: "c div 0x1000 = c div 0x40 div 0x40" "c div 0x40000 = c div 0x40 div 0x40 div (0x40 :: nat)"
  by (simp_all add: div_mult2_eq [symmetric])

lemma utf8_point_2:
  assumes "a < 0x20" "2 \<le> a" "d < 0x40"
  shows "utf8_point (a * 0x40 + d) = [0xC0 + a, 0x80 + d]"
proof -
  have "\<not> a * 0x40 + d < 0x80" "a * 0x40 + d < 0x800" using assms by linarith+
  then show ?thesis by (simp only: utf8_point_def split_64 [OF assms(3)] if_True if_False)
qed

lemma utf8_point_3:
  assumes "a < 0x10" "b < 0x40" "d < 0x40" "0x800 \<le> (a * 0x40 + b) * 0x40 + d"
  shows "utf8_point ((a * 0x40 + b) * 0x40 + d) = [0xE0 + a, 0x80 + b, 0x80 + d]"
proof -
  let ?c = "(a * 0x40 + b) * 0x40 + d"
  have "?c = a * 0x1000 + b * 0x40 + d" by simp
  then have "\<not> ?c < 0x80" "\<not> ?c < 0x800" "?c < 0x10000" using assms by linarith+
  then show ?thesis
    by (simp only: utf8_point_def div_chain split_64 [OF assms(3)] split_64 [OF assms(2)] if_True if_False)
qed

lemma utf8_point_4:
  assumes "b < 0x40" "e < 0x40" "d < 0x40" "0x10000 \<le> ((a * 0x40 + b) * 0x40 + e) * 0x40 + d"
  shows "utf8_point (((a * 0x40 + b) * 0x40 + e) * 0x40 + d) = [0xF0 + a, 0x80 + b, 0x80 + e, 0x80 + d]"
proof -
  let ?c = "((a * 0x40 + b) * 0x40 + e) * 0x40 + d"
  have "\<not> ?c < 0x80" "\<not> ?c < 0x800" "\<not> ?c < 0x10000" using assms(4) by linarith+
  then show ?thesis
    by (simp only: utf8_point_def div_chain split_64 [OF assms(3)] split_64 [OF assms(2)] split_64 [OF assms(1)]
        if_True if_False)
qed

lemma first_byte_2: "a < 0x20 \<Longrightarrow> 2 \<le> a \<Longrightarrow> first_byte (0xC0 + a) = (Within 1 a 0x80 0xBF, [])"
  using mod_offset [of a 32 6] by (simp add: first_byte_def)

lemma first_byte_3:
  "a < 0x10 \<Longrightarrow> first_byte (0xE0 + a) =
     (Within 2 a (if a = 0 then 0xA0 else 0x80) (if a = 13 then 0x9F else 0xBF), [])"
  using mod_offset [of a 16 14] by (simp add: first_byte_def)

lemma first_byte_4:
  "a < 5 \<Longrightarrow> first_byte (0xF0 + a) =
     (Within 3 a (if a = 0 then 0x90 else 0x80) (if a = 4 then 0x8F else 0xBF), [])"
  using mod_offset [of a 8 30] by (simp add: first_byte_def)

lemma next_byte_parts:
  assumes "d < 0x40" "lower \<le> 0x80 + d" "0x80 + d \<le> upper"
  shows "next_byte (Within n c lower upper) (0x80 + d) =
     (if n = 1 then (Start, [c * 0x40 + d]) else (Within (n - 1) (c * 0x40 + d) 0x80 0xBF, []))"
proof -
  have "(0x80 + d) mod 0x40 = d" using mod_offset [OF assms(1), of 2] by simp
  with assms show ?thesis by simp
qed

lemma decode_point:
  assumes "scalar_value c"
  shows "decode_points Start (utf8_point c @ bs) = c # decode_points Start bs"
proof -
  consider "c < 0x80" | "0x80 \<le> c" "c < 0x800" | "0x800 \<le> c" "c < 0x10000" | "0x10000 \<le> c" by linarith
  then show ?thesis
  proof cases
    case 1
    then show ?thesis by (simp add: utf8_point_def first_byte_def)
  next
    case 2
    define a d where "a = c div 0x40" and "d = c mod 0x40"
    have c: "c = a * 0x40 + d" and d: "d < 0x40" by (simp_all add: a_def d_def)
    with 2 have a: "2 \<le> a" "a < 0x20" by linarith+
    show ?thesis
      unfolding c utf8_point_2 [OF a(2,1) d]
      using a d by (simp add: first_byte_2 next_byte_parts del: next_byte.simps(2))
  next
    case 3
    define a b d where "a = c div 0x1000" and "b = c div 0x40 mod 0x40" and "d = c mod 0x40"
    have c: "c = (a * 0x40 + b) * 0x40 + d" and bd: "b < 0x40" "d < 0x40"
      unfolding a_def b_def d_def by (simp_all add: div_chain)
    have sum: "c = a * 0x1000 + b * 0x40 + d" using c by simp
    have a: "a < 0x10" using 3(2) sum by linarith
    have "a = 0 \<Longrightarrow> 0x20 \<le> b" using 3(1) bd sum by linarith
    moreover have "a = 13 \<Longrightarrow> b < 0x20" using assms bd sum unfolding scalar_value_def by linarith
    ultimately show ?thesis
      unfolding c utf8_point_3 [OF a bd 3(1) [unfolded c]]
      using a bd first_byte_3 [OF a] by (cases "a = 0"; cases "a = 13"; simp add: next_byte_parts del: next_byte.simps(2))
  next
    case 4
    define a b e d where "a = c div 0x40000" and "b = c div 0x1000 mod 0x40" and "e = c div 0x40 mod 0x40" and "d = c mod 0x40"
    have c: "c = ((a * 0x40 + b) * 0x40 + e) * 0x40 + d" and bd: "b < 0x40" "e < 0x40" "d < 0x40"
      unfolding a_def b_def e_def d_def by (simp_all add: div_chain)
    have sum: "c = a * 0x40000 + b * 0x1000 + e * 0x40 + d" using c by simp
    have a: "a < 5" using assms 4 sum unfolding scalar_value_def by linarith
    have "a = 0 \<Longrightarrow> 0x10 \<le> b" using 4 bd sum by linarith
    moreover have "a = 4 \<Longrightarrow> b < 0x10" using assms bd 4 sum unfolding scalar_value_def by linarith
    ultimately show ?thesis
      unfolding c utf8_point_4 [OF bd 4 [unfolded c]]
      using a bd first_byte_4 [OF a] by (cases "a = 0"; cases "a = 4"; simp add: next_byte_parts del: next_byte.simps(2))
  qed
qed

lemma decode_all: "\<forall>c \<in> set cs. scalar_value c \<Longrightarrow> decode_points Start (concat (map utf8_point cs)) = cs"
  by (induction cs) (simp_all add: decode_point)

lemma unat_bytes: "\<forall>b \<in> set bs. b < 0x100 \<Longrightarrow> map unat (map word_of_nat bs :: bytes) = bs"
  by (induction bs) (simp_all add: unat_of_nat)

lemma encoded_bytes: "\<forall>c \<in> set cs. scalar_value c \<Longrightarrow> \<forall>b \<in> set (concat (map utf8_point cs)). b < 0x100"
  using utf8_point_bytes by auto

text \<open>A string as its scalar values, the strings \<open>toWellFormed\<close> leaves alone.\<close>

definition to_well_formed :: "utf16 \<Rightarrow> utf16" where
  "to_well_formed t = utf16_of (scalars t)"

definition leading_bom :: "utf16 \<Rightarrow> bool" where
  "leading_bom t \<longleftrightarrow> (case t of [] \<Rightarrow> False | u # _ \<Rightarrow> unat u = BOM)"

theorem utf8_roundtrip: "utf8_decode (utf8_encode t) = utf16_of (drop_bom (scalars t))"
proof -
  have "map unat (utf8_encode t) = concat (map utf8_point (scalars t))"
    unfolding utf8_encode_def using unat_bytes [OF encoded_bytes [OF scalars_ok]] by simp
  then show ?thesis unfolding utf8_decode_def using decode_all [OF scalars_ok] by simp
qed

lemma scalars_bom: "scalars t = BOM # cs \<Longrightarrow> leading_bom t"
  by (cases t rule: scalars.cases)
    (auto simp: leading_bom_def join_surrogates_def split: if_splits)

lemma utf8_roundtrip_text: "\<not> leading_bom t \<Longrightarrow> utf8_decode (utf8_encode t) = to_well_formed t"
  using scalars_bom [of t]
  by (auto simp: utf8_roundtrip to_well_formed_def drop_bom_def split: list.split)

lemma join_surrogates_point:
  assumes "high_surrogate u" "low_surrogate v"
  shows "utf16_point (join_surrogates u v) = [u, v]"
proof -
  define h l where "h = unat u - 0xD800" and "l = unat v - 0xDC00"
  have u: "unat u = 0xD800 + h" "h < 0x400" and v: "unat v = 0xDC00 + l" "l < 0x400"
    using assms by (auto simp: h_def l_def high_surrogate_def low_surrogate_def)
  have "join_surrogates u v = 0x10000 + (h * 0x400 + l)" by (simp add: join_surrogates_def u v)
  moreover have "(h * 0x400 + l) div 0x400 = h" "(h * 0x400 + l) mod 0x400 = l" using v(2) by simp_all
  ultimately show ?thesis
    by (simp add: utf16_point_def u(1) [symmetric] v(1) [symmetric])
qed

text \<open>A string without lone surrogates is well-formed.\<close>

fun well_formed_text :: "utf16 \<Rightarrow> bool" where
  "well_formed_text [] = True"
| "well_formed_text [u] = (\<not> high_surrogate u \<and> \<not> low_surrogate u)"
| "well_formed_text (u # v # us) =
     (if high_surrogate u \<and> low_surrogate v then well_formed_text us
      else \<not> high_surrogate u \<and> \<not> low_surrogate u \<and> well_formed_text (v # us))"

lemma utf16_point_unit: "\<not> high_surrogate u \<Longrightarrow> \<not> low_surrogate u \<Longrightarrow> utf16_point (unat u) = [u]"
  using unat_16_less [of u] by (simp add: utf16_point_def)

lemma to_well_formed_id: "well_formed_text t \<Longrightarrow> to_well_formed t = t"
proof (induction t rule: well_formed_text.induct)
  case (2 u)
  then show ?case by (simp add: to_well_formed_def utf16_of_def utf16_point_unit)
next
  case (3 u v us)
  show ?case
  proof (cases "high_surrogate u \<and> low_surrogate v")
    case True
    with 3 show ?thesis by (simp add: to_well_formed_def utf16_of_def join_surrogates_point)
  next
    case False
    with 3 show ?thesis by (auto simp: to_well_formed_def utf16_of_def utf16_point_unit)
  qed
qed (simp add: to_well_formed_def utf16_of_def)

end
