(* ===== verification/Render_Update.thy ===== *)
theory Render_Update
  imports Prelude Utf8
begin

text \<open>
  The packed render updates a terminal worker sends to the main thread,
  \<^verbatim>\<open>packages/ghostty-core/src/render-update.ts\<close>: packing rows of cells into typed arrays, the ring of
  at most three slots whose storage an update borrows, and the validation of a received update.

  \<^item> A typed array is the list of its elements as words of its width; storing wraps. Its storage is
    not shared: an update holds the contents of its views, and the theorem on leases states that the
    slot they are views of is not written while the update is out.
  \<^item> Numbers that are sizes, tokens or counters are naturals, other fields of a snapshot integers.
    The bit operators work on 32-bit words.
  \<^item> \<open>clockNow\<close> is an argument.
\<close>

unbundle bit_operations_syntax

section \<open>Snapshots\<close>

record ghostty_color =
  cr :: int
  cg :: int
  cb :: int

record ghostty_cell =
  cell_text :: utf16
  cell_wide :: int
  cell_foreground :: ghostty_color
  cell_background :: ghostty_color
  cell_bold :: bool
  cell_italic :: bool
  cell_invisible :: bool
  cell_strikethrough :: bool
  cell_overline :: bool
  cell_underline :: int
  cell_selected :: bool

record ghostty_row =
  gr_cells :: "ghostty_cell list"
  gr_text :: utf16
  gr_isWrapContinuation :: bool
  gr_wrapsToNext :: bool

record ghostty_snapshot =
  gs_cols :: nat
  gs_rows :: nat
  gs_foreground :: ghostty_color
  gs_background :: ghostty_color
  gs_cursor :: ghostty_color
  gs_cursorX :: int
  gs_cursorY :: int
  gs_cursorVisible :: bool
  gs_cursorBlinking :: bool
  gs_cursorStyle :: int
  gs_dirtyRows :: "nat list"
  gs_rowData :: "ghostty_row list"

section \<open>Packing\<close>

definition GHOSTTY_RENDER_UPDATE_VERSION :: int where
  "GHOSTTY_RENDER_UPDATE_VERSION = 1"

text \<open>\<open>GHOSTTY_RENDER_STYLE\<close> and \<open>GHOSTTY_RENDER_ROW\<close>.\<close>

definition widthMask :: "32 word" where "widthMask = 3"
definition style_bold :: "32 word" where "style_bold = push_bit 2 1"
definition style_italic :: "32 word" where "style_italic = push_bit 3 1"
definition style_invisible :: "32 word" where "style_invisible = push_bit 4 1"
definition style_strikethrough :: "32 word" where "style_strikethrough = push_bit 5 1"
definition style_overline :: "32 word" where "style_overline = push_bit 6 1"
definition style_selected :: "32 word" where "style_selected = push_bit 7 1"
definition underlineShift :: nat where "underlineShift = 8"
definition underlineMask :: "32 word" where "underlineMask = push_bit 8 7"
definition wrapContinuation :: "32 word" where "wrapContinuation = 1"
definition wrapsToNext :: "32 word" where "wrapsToNext = push_bit 1 1"

definition packGhosttyColor :: "ghostty_color \<Rightarrow> 32 word" where
  "packGhosttyColor c =
     push_bit 16 (word_of_int (cr c) AND 0xff) OR push_bit 8 (word_of_int (cg c) AND 0xff) OR (word_of_int (cb c) AND 0xff)"

definition unpackGhosttyColor :: "32 word \<Rightarrow> ghostty_color" where
  "unpackGhosttyColor w =
     \<lparr>cr = uint (drop_bit 16 w AND 0xff), cg = uint (drop_bit 8 w AND 0xff), cb = uint (w AND 0xff)\<rparr>"

definition packGhosttyCellStyle :: "ghostty_cell \<Rightarrow> 32 word" where
  "packGhosttyCellStyle c =
     (word_of_int (cell_wide c) AND widthMask) OR
     (if cell_bold c then style_bold else 0) OR
     (if cell_italic c then style_italic else 0) OR
     (if cell_invisible c then style_invisible else 0) OR
     (if cell_strikethrough c then style_strikethrough else 0) OR
     (if cell_overline c then style_overline else 0) OR
     (if cell_selected c then style_selected else 0) OR
     push_bit underlineShift (word_of_int (cell_underline c) AND 7)"

section \<open>Updates\<close>

record render_update =
  ru_version :: int
  ru_frameId :: int
  ru_generation :: int
  ru_cols :: int
  ru_rows :: int
  ru_full :: bool
  ru_foreground :: int
  ru_background :: int
  ru_cursor :: int
  ru_cursorX :: int
  ru_cursorY :: int
  ru_cursorVisible :: bool
  ru_cursorBlinking :: bool
  ru_cursorStyle :: int
  ru_dirtyRows :: "32 word list"
  ru_rowFlags :: bytes
  ru_graphemeOffsets :: "32 word list"
  ru_graphemeLengths :: "32 word list"
  ru_foregrounds :: "32 word list"
  ru_backgrounds :: "32 word list"
  ru_styles :: "16 word list"
  ru_graphemes :: bytes

section \<open>Slots\<close>

record builder_slot =
  sl_id :: nat
  sl_inFlight :: bool
  sl_leaseToken :: nat
  sl_dirtyRows :: "32 word list"
  sl_rowFlags :: bytes
  sl_graphemeOffsets :: "32 word list"
  sl_graphemeLengths :: "32 word list"
  sl_foregrounds :: "32 word list"
  sl_backgrounds :: "32 word list"
  sl_styles :: "16 word list"
  sl_graphemes :: bytes
  sl_targetRows :: nat
  sl_targetCells :: nat
  sl_targetGraphemes :: nat

text \<open>The loop of \<open>nextCapacity\<close>; its capacity starts at one and is never zero.\<close>

function double_until :: "nat \<Rightarrow> nat \<Rightarrow> nat" where
  "double_until capacity required =
     (if 0 < capacity \<and> capacity < required then double_until (capacity * 2) required else capacity)"
  by auto
termination by (relation "measure (\<lambda>(capacity, required). required - capacity)") auto

declare double_until.simps [simp del]

definition nextCapacity :: "nat \<Rightarrow> nat" where
  "nextCapacity required = double_until 1 required"

text \<open>\<open>ensureU8\<close>, \<open>ensureU16\<close> and \<open>ensureU32\<close>, and whether the array was replaced.\<close>

definition enough :: "'a list \<Rightarrow> nat \<Rightarrow> bool" where
  "enough xs required \<longleftrightarrow> 0 < length xs \<and> required \<le> length xs"

definition ensure :: "'a :: zero list \<Rightarrow> nat \<Rightarrow> 'a list" where
  "ensure xs required = (if enough xs required then xs else replicate (nextCapacity required) 0)"

definition createBuilderSlot :: "nat \<Rightarrow> builder_slot" where
  "createBuilderSlot i = \<lparr>sl_id = i, sl_inFlight = False, sl_leaseToken = 0, sl_dirtyRows = [0], sl_rowFlags = [0],
     sl_graphemeOffsets = [0], sl_graphemeLengths = [0], sl_foregrounds = [0], sl_backgrounds = [0],
     sl_styles = [0], sl_graphemes = [0], sl_targetRows = 1, sl_targetCells = 1, sl_targetGraphemes = 1\<rparr>"

definition slotBytes :: "builder_slot \<Rightarrow> nat" where
  "slotBytes s = 4 * length (sl_dirtyRows s) + length (sl_rowFlags s) + 4 * length (sl_graphemeOffsets s)
     + 4 * length (sl_graphemeLengths s) + 4 * length (sl_foregrounds s) + 4 * length (sl_backgrounds s)
     + 2 * length (sl_styles s) + length (sl_graphemes s)"

definition usedSlotBytes :: "builder_slot \<Rightarrow> nat" where
  "usedSlotBytes s = sl_targetRows s * 5 + sl_targetCells s * 18 + sl_targetGraphemes s"

definition targetSlotBytes :: "builder_slot \<Rightarrow> nat" where
  "targetSlotBytes s =
     nextCapacity (sl_targetRows s * 2) * 5 + nextCapacity (sl_targetCells s * 2) * 18 + nextCapacity (sl_targetGraphemes s * 2)"

definition trimSlot :: "builder_slot \<Rightarrow> builder_slot" where
  "trimSlot s =
     (let rows = nextCapacity (sl_targetRows s * 2);
          cells = nextCapacity (sl_targetCells s * 2);
          graphemes = nextCapacity (sl_targetGraphemes s * 2)
      in s\<lparr>sl_dirtyRows := replicate rows 0, sl_rowFlags := replicate rows 0,
           sl_graphemeOffsets := replicate cells 0, sl_graphemeLengths := replicate cells 0,
           sl_foregrounds := replicate cells 0, sl_backgrounds := replicate cells 0,
           sl_styles := replicate cells 0, sl_graphemes := replicate graphemes 0\<rparr>)"


section \<open>Filling a slot\<close>

text \<open>\<open>xs[i]\<close>, \<open>undefined\<close> out of range, and \<open>xs.set(ys, i)\<close> where it fits.\<close>

definition item_at :: "'a list \<Rightarrow> nat \<Rightarrow> 'a option" where
  "item_at xs i = (if i < length xs then Some (xs ! i) else None)"

definition write_at :: "nat \<Rightarrow> 'a list \<Rightarrow> 'a list \<Rightarrow> 'a list" where
  "write_at i ys xs = take i xs @ ys @ drop (i + length ys) xs"

definition cell_at :: "ghostty_row option \<Rightarrow> nat \<Rightarrow> ghostty_cell option" where
  "cell_at row column = Option.bind row (\<lambda>r. item_at (gr_cells r) column)"

definition text_of :: "ghostty_cell option \<Rightarrow> utf16" where
  "text_of cell = (case cell of None \<Rightarrow> [] | Some c \<Rightarrow> cell_text c)"

definition update_rows :: "ghostty_snapshot \<Rightarrow> bool \<Rightarrow> nat list" where
  "update_rows s full = (if full then [0..<gs_rows s] else sort (gs_dirtyRows s))"

definition graphemeCapacity :: "ghostty_snapshot \<Rightarrow> nat list \<Rightarrow> nat" where
  "graphemeCapacity s rows =
     sum_list (map (\<lambda>i. case item_at (gs_rowData s) i of
                          None \<Rightarrow> 0
                        | Some r \<Rightarrow> sum_list (map (\<lambda>j. length (text_of (cell_at (Some r) j)) * 3) [0..<gs_cols s])) rows)"

definition ensure_slot :: "nat \<Rightarrow> nat \<Rightarrow> nat \<Rightarrow> builder_slot \<Rightarrow> builder_slot" where
  "ensure_slot rows cells graphemes s =
     s\<lparr>sl_dirtyRows := ensure (sl_dirtyRows s) rows, sl_rowFlags := ensure (sl_rowFlags s) rows,
       sl_graphemeOffsets := ensure (sl_graphemeOffsets s) cells, sl_graphemeLengths := ensure (sl_graphemeLengths s) cells,
       sl_foregrounds := ensure (sl_foregrounds s) cells, sl_backgrounds := ensure (sl_backgrounds s) cells,
       sl_styles := ensure (sl_styles s) cells, sl_graphemes := ensure (sl_graphemes s) graphemes\<rparr>"

text \<open>How many of the eight buffers that replaces.\<close>

definition replaced_buffers :: "nat \<Rightarrow> nat \<Rightarrow> nat \<Rightarrow> builder_slot \<Rightarrow> nat" where
  "replaced_buffers rows cells graphemes s = length (filter Not
     [enough (sl_dirtyRows s) rows, enough (sl_rowFlags s) rows, enough (sl_graphemeOffsets s) cells,
      enough (sl_graphemeLengths s) cells, enough (sl_foregrounds s) cells, enough (sl_backgrounds s) cells,
      enough (sl_styles s) cells, enough (sl_graphemes s) graphemes])"

text \<open>The body of the inner loop, with \<open>cellIndex\<close> and \<open>graphemeOffset\<close> in the state.\<close>

definition pack_cell :: "ghostty_snapshot \<Rightarrow> ghostty_cell option \<Rightarrow> builder_slot \<times> nat \<times> nat \<Rightarrow> builder_slot \<times> nat \<times> nat" where
  "pack_cell s cell = (\<lambda>(slot, cellIndex, off).
     let t = text_of cell;
         encoded = (if t = [] then [] else encodeInto (length (sl_graphemes slot) - off) t)
     in (slot\<lparr>sl_graphemes := write_at off encoded (sl_graphemes slot),
              sl_graphemeOffsets := (sl_graphemeOffsets slot)[cellIndex := word_of_nat off],
              sl_graphemeLengths := (sl_graphemeLengths slot)[cellIndex := word_of_nat (length encoded)],
              sl_foregrounds := (sl_foregrounds slot)[cellIndex := packGhosttyColor
                (case cell of Some c \<Rightarrow> cell_foreground c | None \<Rightarrow> gs_foreground s)],
              sl_backgrounds := (sl_backgrounds slot)[cellIndex := packGhosttyColor
                (case cell of Some c \<Rightarrow> cell_background c | None \<Rightarrow> gs_background s)],
              sl_styles := (sl_styles slot)[cellIndex := ucast
                (case cell of Some c \<Rightarrow> packGhosttyCellStyle c | None \<Rightarrow> 0)]\<rparr>,
         cellIndex + 1, off + length encoded))"

definition row_flag_bits :: "ghostty_row option \<Rightarrow> 32 word" where
  "row_flag_bits row =
     (case row of
        None \<Rightarrow> 0
      | Some r \<Rightarrow> (if gr_isWrapContinuation r then wrapContinuation else 0) OR (if gr_wrapsToNext r then wrapsToNext else 0))"

definition pack_row :: "ghostty_snapshot \<Rightarrow> nat \<times> nat \<Rightarrow> builder_slot \<times> nat \<times> nat \<Rightarrow> builder_slot \<times> nat \<times> nat" where
  "pack_row s = (\<lambda>(includedRow, rowIndex) (slot, cellIndex, off).
     let row = item_at (gs_rowData s) rowIndex;
         slot1 = slot\<lparr>sl_dirtyRows := (sl_dirtyRows slot)[includedRow := word_of_nat rowIndex],
                      sl_rowFlags := (sl_rowFlags slot)[includedRow := ucast (row_flag_bits row)]\<rparr>
     in fold (\<lambda>column. pack_cell s (cell_at row column)) [0..<gs_cols s] (slot1, cellIndex, off))"

definition pack_rows :: "ghostty_snapshot \<Rightarrow> nat list \<Rightarrow> builder_slot \<Rightarrow> builder_slot \<times> nat \<times> nat" where
  "pack_rows s rows slot = fold (pack_row s) (enumerate 0 rows) (slot, 0, 0)"

definition view_update :: "ghostty_snapshot \<Rightarrow> int \<Rightarrow> int \<Rightarrow> bool \<Rightarrow> nat \<Rightarrow> nat \<Rightarrow> nat \<Rightarrow> builder_slot \<Rightarrow> render_update" where
  "view_update s frameId generation full rows cells graphemes slot =
     \<lparr>ru_version = GHOSTTY_RENDER_UPDATE_VERSION, ru_frameId = frameId, ru_generation = generation,
      ru_cols = int (gs_cols s), ru_rows = int (gs_rows s), ru_full = full,
      ru_foreground = uint (packGhosttyColor (gs_foreground s)), ru_background = uint (packGhosttyColor (gs_background s)),
      ru_cursor = uint (packGhosttyColor (gs_cursor s)), ru_cursorX = gs_cursorX s, ru_cursorY = gs_cursorY s,
      ru_cursorVisible = gs_cursorVisible s, ru_cursorBlinking = gs_cursorBlinking s, ru_cursorStyle = gs_cursorStyle s,
      ru_dirtyRows = take rows (sl_dirtyRows slot), ru_rowFlags = take rows (sl_rowFlags slot),
      ru_graphemeOffsets = take cells (sl_graphemeOffsets slot), ru_graphemeLengths = take cells (sl_graphemeLengths slot),
      ru_foregrounds = take cells (sl_foregrounds slot), ru_backgrounds = take cells (sl_backgrounds slot),
      ru_styles = take cells (sl_styles slot), ru_graphemes = take graphemes (sl_graphemes slot)\<rparr>"


section \<open>The builder\<close>

record update_lease =
  ul_slotId :: nat
  ul_leaseToken :: nat
  ul_update :: render_update

record builder_diagnostics =
  bd_slotsCreated :: nat
  bd_backingBuffersAllocated :: nat
  bd_backingBytesAllocated :: int
  bd_leasesBuilt :: nat
  bd_leasesReclaimed :: nat
  bd_reclaimRejected :: nat
  bd_noFreeSlot :: nat
  bd_maxInFlight :: nat
  bd_idleTrims :: nat
  bd_idleBytesReclaimed :: int
  bd_idleRegrows :: nat

text \<open>\<open>owners\<close> is keyed by the update object; a slot and its token identify the object.\<close>

record render_builder =
  rb_slots :: "builder_slot list"
  rb_owners :: "(nat \<times> nat, update_lease) jsmap"
  rb_diagnostics :: builder_diagnostics
  rb_lastCapacityChangeAt :: rat
  rb_trimmedSinceGrowth :: bool

definition total_bytes :: "(builder_slot \<Rightarrow> nat) \<Rightarrow> render_builder \<Rightarrow> nat" where
  "total_bytes f b = sum_list (map f (rb_slots b))"

definition newRenderUpdateBuilder :: "int \<Rightarrow> render_builder" where
  "newRenderUpdateBuilder slotCount =
     (let count = nat (max 1 (min 3 slotCount));
          slots = map createBuilderSlot [0..<count]
      in \<lparr>rb_slots = slots, rb_owners = [],
          rb_diagnostics = \<lparr>bd_slotsCreated = count, bd_backingBuffersAllocated = count * 8,
            bd_backingBytesAllocated = int (sum_list (map slotBytes slots)), bd_leasesBuilt = 0, bd_leasesReclaimed = 0,
            bd_reclaimRejected = 0, bd_noFreeSlot = 0, bd_maxInFlight = 0, bd_idleTrims = 0, bd_idleBytesReclaimed = 0,
            bd_idleRegrows = 0\<rparr>,
          rb_lastCapacityChangeAt = 0, rb_trimmedSinceGrowth = False\<rparr>)"

definition hasFreeSlot :: "render_builder \<Rightarrow> bool" where
  "hasFreeSlot b \<longleftrightarrow> list_ex (\<lambda>s. \<not> sl_inFlight s) (rb_slots b)"

definition in_flight :: "render_builder \<Rightarrow> nat" where
  "in_flight b = length (filter sl_inFlight (rb_slots b))"

definition backingBytesUsed :: "render_builder \<Rightarrow> nat" where
  "backingBytesUsed b = total_bytes usedSlotBytes b"

definition put_slot :: "builder_slot \<Rightarrow> render_builder \<Rightarrow> render_builder" where
  "put_slot s b = b\<lparr>rb_slots := (rb_slots b)[sl_id s := s]\<rparr>"

text \<open>Counting what \<open>ensure\<close> replaced.\<close>

definition count_growth :: "rat \<Rightarrow> nat \<Rightarrow> int \<Rightarrow> render_builder \<Rightarrow> render_builder" where
  "count_growth now buffers growth b =
     (let d = rb_diagnostics b;
          d1 = d\<lparr>bd_backingBuffersAllocated := bd_backingBuffersAllocated d + buffers,
                 bd_backingBytesAllocated := bd_backingBytesAllocated d + growth\<rparr>
      in if growth > 0 then
           b\<lparr>rb_diagnostics := (if rb_trimmedSinceGrowth b then d1\<lparr>bd_idleRegrows := bd_idleRegrows d1 + 1\<rparr> else d1),
             rb_trimmedSinceGrowth := False, rb_lastCapacityChangeAt := now\<rparr>
         else b\<lparr>rb_diagnostics := d1\<rparr>)"

definition tryBuild ::
    "rat \<Rightarrow> ghostty_snapshot \<Rightarrow> int \<Rightarrow> int \<Rightarrow> bool \<Rightarrow> render_builder \<Rightarrow> render_builder \<times> update_lease option" where
  "tryBuild now s frameId generation full b =
     (case find (\<lambda>s. \<not> sl_inFlight s) (rb_slots b) of
        None \<Rightarrow> (b\<lparr>rb_diagnostics := (rb_diagnostics b)\<lparr>bd_noFreeSlot := bd_noFreeSlot (rb_diagnostics b) + 1\<rparr>\<rparr>, None)
      | Some slot \<Rightarrow>
          let rows = update_rows s full;
              cellCount = length rows * gs_cols s;
              capacity = graphemeCapacity s rows;
              slot1 = slot\<lparr>sl_inFlight := True, sl_leaseToken := sl_leaseToken slot + 1\<rparr>;
              slot2 = ensure_slot (length rows) cellCount capacity slot1;
              b1 = count_growth now (replaced_buffers (length rows) cellCount capacity slot1)
                     (int (slotBytes slot2) - int (slotBytes slot1)) b;
              slot3 = slot2\<lparr>sl_targetRows := max 1 (length rows), sl_targetCells := max 1 cellCount\<rparr>;
              (slot4, cellIndex, off) = pack_rows s rows slot3;
              update = view_update s frameId generation full (length rows) cellCount off slot4;
              slot5 = slot4\<lparr>sl_targetGraphemes := max 1 off\<rparr>;
              lease = \<lparr>ul_slotId = sl_id slot5, ul_leaseToken = sl_leaseToken slot5, ul_update = update\<rparr>;
              b2 = put_slot slot5 b1;
              b3 = b2\<lparr>rb_owners := map_set (sl_id slot5, sl_leaseToken slot5) lease (rb_owners b2)\<rparr>;
              d = rb_diagnostics b3
          in (b3\<lparr>rb_diagnostics := d\<lparr>bd_leasesBuilt := bd_leasesBuilt d + 1,
                                     bd_maxInFlight := max (bd_maxInFlight d) (in_flight b3)\<rparr>\<rparr>,
              Some lease))"

text \<open>\<open>build\<close> throws when all slots are in flight.\<close>

definition build_update ::
    "rat \<Rightarrow> ghostty_snapshot \<Rightarrow> int \<Rightarrow> int \<Rightarrow> bool \<Rightarrow> render_builder \<Rightarrow> render_builder \<times> render_update option" where
  "build_update now s frameId generation full b = apsnd (map_option ul_update) (tryBuild now s frameId generation full b)"

section \<open>Returning storage\<close>

text \<open>The bytes of an \<open>ArrayBuffer\<close>, least significant first, and the views made of them.\<close>

definition bytes_16 :: "16 word list \<Rightarrow> bytes" where
  "bytes_16 ws = concat (map (\<lambda>w. [ucast w, ucast (drop_bit 8 w)]) ws)"

definition bytes_32 :: "32 word list \<Rightarrow> bytes" where
  "bytes_32 ws = concat (map (\<lambda>w. [ucast w, ucast (drop_bit 8 w), ucast (drop_bit 16 w), ucast (drop_bit 24 w)]) ws)"

fun view_16 :: "bytes \<Rightarrow> 16 word list" where
  "view_16 (a # b # bs) = (ucast a OR push_bit 8 (ucast b)) # view_16 bs"
| "view_16 _ = []"

fun view_32 :: "bytes \<Rightarrow> 32 word list" where
  "view_32 (a # b # c # d # bs) =
     (ucast a OR push_bit 8 (ucast b) OR push_bit 16 (ucast c) OR push_bit 24 (ucast d)) # view_32 bs"
| "view_32 _ = []"

record update_buffers =
  ub_dirtyRows :: bytes
  ub_rowFlags :: bytes
  ub_graphemeOffsets :: bytes
  ub_graphemeLengths :: bytes
  ub_foregrounds :: bytes
  ub_backgrounds :: bytes
  ub_styles :: bytes
  ub_graphemes :: bytes

definition buffer_lengths :: "update_buffers \<Rightarrow> nat list" where
  "buffer_lengths bs = map length [ub_dirtyRows bs, ub_rowFlags bs, ub_graphemeOffsets bs, ub_graphemeLengths bs,
     ub_foregrounds bs, ub_backgrounds bs, ub_styles bs, ub_graphemes bs]"

definition validReturnedBuffers :: "update_buffers \<Rightarrow> bool" where
  "validReturnedBuffers bs \<longleftrightarrow> list_all (\<lambda>n. 0 < n) (buffer_lengths bs)
     \<and> length (ub_dirtyRows bs) mod 4 = 0 \<and> length (ub_graphemeOffsets bs) mod 4 = 0
     \<and> length (ub_graphemeLengths bs) mod 4 = 0 \<and> length (ub_foregrounds bs) mod 4 = 0
     \<and> length (ub_backgrounds bs) mod 4 = 0 \<and> length (ub_styles bs) mod 2 = 0"

definition reclaim :: "nat \<Rightarrow> nat \<Rightarrow> update_buffers \<Rightarrow> render_builder \<Rightarrow> render_builder \<times> bool" where
  "reclaim slotId leaseToken bs b =
     (let d = rb_diagnostics b;
          rejected = (b\<lparr>rb_diagnostics := d\<lparr>bd_reclaimRejected := bd_reclaimRejected d + 1\<rparr>\<rparr>, False)
      in case item_at (rb_slots b) slotId of
           None \<Rightarrow> rejected
         | Some s \<Rightarrow>
             if \<not> sl_inFlight s \<or> sl_leaseToken s \<noteq> leaseToken \<or> \<not> validReturnedBuffers bs then rejected
             else (b\<lparr>rb_slots := (rb_slots b)[slotId := s\<lparr>
                        sl_dirtyRows := view_32 (ub_dirtyRows bs), sl_rowFlags := ub_rowFlags bs,
                        sl_graphemeOffsets := view_32 (ub_graphemeOffsets bs),
                        sl_graphemeLengths := view_32 (ub_graphemeLengths bs),
                        sl_foregrounds := view_32 (ub_foregrounds bs), sl_backgrounds := view_32 (ub_backgrounds bs),
                        sl_styles := view_16 (ub_styles bs), sl_graphemes := ub_graphemes bs, sl_inFlight := False\<rparr>],
                     rb_diagnostics := d\<lparr>bd_leasesReclaimed := bd_leasesReclaimed d + 1\<rparr>\<rparr>, True))"

text \<open>The buffers an update's views are of: those of its slot, empty once they were transferred.\<close>

definition ghosttyRenderUpdateBuffers :: "builder_slot \<Rightarrow> update_buffers" where
  "ghosttyRenderUpdateBuffers s =
     \<lparr>ub_dirtyRows = bytes_32 (sl_dirtyRows s), ub_rowFlags = sl_rowFlags s,
      ub_graphemeOffsets = bytes_32 (sl_graphemeOffsets s), ub_graphemeLengths = bytes_32 (sl_graphemeLengths s),
      ub_foregrounds = bytes_32 (sl_foregrounds s), ub_backgrounds = bytes_32 (sl_backgrounds s),
      ub_styles = bytes_16 (sl_styles s), ub_graphemes = sl_graphemes s\<rparr>"

definition release_update :: "nat \<times> nat \<Rightarrow> render_builder \<Rightarrow> render_builder" where
  "release_update u b =
     (case map_of (rb_owners b) u of
        None \<Rightarrow> b
      | Some lease \<Rightarrow>
          fst (reclaim (ul_slotId lease) (ul_leaseToken lease)
                 (ghosttyRenderUpdateBuffers (rb_slots b ! ul_slotId lease))
                 (b\<lparr>rb_owners := map_delete u (rb_owners b)\<rparr>)))"

text \<open>Transferring an update to another thread detaches the buffers of its slot.\<close>

definition transfer_slot :: "nat \<Rightarrow> render_builder \<Rightarrow> render_builder" where
  "transfer_slot i b =
     b\<lparr>rb_slots := (rb_slots b)[i := (rb_slots b ! i)\<lparr>sl_dirtyRows := [], sl_rowFlags := [], sl_graphemeOffsets := [],
         sl_graphemeLengths := [], sl_foregrounds := [], sl_backgrounds := [], sl_styles := [], sl_graphemes := []\<rparr>]\<rparr>"

section \<open>Giving back idle storage\<close>

record idle_input =
  ii_now :: rat
  ii_allocatedBytes :: nat
  ii_targetBytes :: nat
  ii_inFlight :: nat
  ii_queued :: nat
  ii_lastActivityAt :: rat
  ii_lastResizeAt :: rat

record idle_policy =
  idleMs :: rat
  cooldownMs :: rat
  minimumReclaimBytes :: nat
  shrinkRatio :: nat

definition IDLE_RECLAIM_POLICY :: idle_policy where
  "IDLE_RECLAIM_POLICY = \<lparr>idleMs = 30000, cooldownMs = 60000, minimumReclaimBytes = 1024 * 1024, shrinkRatio = 4\<rparr>"

definition shouldReclaimIdleCapacity :: "idle_input \<Rightarrow> idle_policy \<Rightarrow> bool" where
  "shouldReclaimIdleCapacity i p =
     (if ii_inFlight i > 0 \<or> ii_queued i > 0 then False
      else if ii_allocatedBytes i \<le> ii_targetBytes i then False
      else if ii_now i - ii_lastActivityAt i < idleMs p then False
      else if ii_now i - ii_lastResizeAt i < cooldownMs p then False
      else if ii_allocatedBytes i < ii_targetBytes i * shrinkRatio p then False
      else minimumReclaimBytes p \<le> ii_allocatedBytes i - ii_targetBytes i)"

definition trimIdle :: "rat \<Rightarrow> rat \<Rightarrow> render_builder \<Rightarrow> render_builder \<times> bool" where
  "trimIdle lastActivityAt now b =
     (let allocated = total_bytes slotBytes b
      in if \<not> shouldReclaimIdleCapacity
              \<lparr>ii_now = now, ii_allocatedBytes = allocated, ii_targetBytes = total_bytes targetSlotBytes b,
               ii_inFlight = in_flight b, ii_queued = 0, ii_lastActivityAt = lastActivityAt,
               ii_lastResizeAt = rb_lastCapacityChangeAt b\<rparr> IDLE_RECLAIM_POLICY
         then (b, False)
         else let b1 = b\<lparr>rb_slots := map trimSlot (rb_slots b)\<rparr>;
                  freed = int allocated - int (total_bytes slotBytes b1);
                  d = rb_diagnostics b
              in (b1\<lparr>rb_diagnostics := d\<lparr>bd_backingBytesAllocated := bd_backingBytesAllocated d - freed,
                       bd_backingBuffersAllocated := bd_backingBuffersAllocated d + length (rb_slots b) * 8,
                       bd_idleTrims := bd_idleTrims d + 1, bd_idleBytesReclaimed := bd_idleBytesReclaimed d + freed\<rparr>,
                     rb_lastCapacityChangeAt := now, rb_trimmedSinceGrowth := True\<rparr>, True))"


section \<open>What an update contains\<close>

definition snapshot_cells :: "ghostty_snapshot \<Rightarrow> nat list \<Rightarrow> ghostty_cell option list" where
  "snapshot_cells s rows = concat (map (\<lambda>i. map (cell_at (item_at (gs_rowData s) i)) [0..<gs_cols s]) rows)"

definition cell_bytes :: "ghostty_cell option \<Rightarrow> bytes" where
  "cell_bytes cell = utf8_encode (text_of cell)"

fun offsets_from :: "nat \<Rightarrow> ghostty_cell option list \<Rightarrow> nat list" where
  "offsets_from off [] = []"
| "offsets_from off (c # cs) = off # offsets_from (off + length (cell_bytes c)) cs"

definition cell_fg :: "ghostty_snapshot \<Rightarrow> ghostty_cell option \<Rightarrow> 32 word" where
  "cell_fg s cell = packGhosttyColor (case cell of Some c \<Rightarrow> cell_foreground c | None \<Rightarrow> gs_foreground s)"

definition cell_bg :: "ghostty_snapshot \<Rightarrow> ghostty_cell option \<Rightarrow> 32 word" where
  "cell_bg s cell = packGhosttyColor (case cell of Some c \<Rightarrow> cell_background c | None \<Rightarrow> gs_background s)"

definition cell_style :: "ghostty_cell option \<Rightarrow> 16 word" where
  "cell_style cell = ucast (case cell of Some c \<Rightarrow> packGhosttyCellStyle c | None \<Rightarrow> 0)"

definition packed_update :: "ghostty_snapshot \<Rightarrow> int \<Rightarrow> int \<Rightarrow> bool \<Rightarrow> render_update" where
  "packed_update s frameId generation full =
     (let rows = update_rows s full; cells = snapshot_cells s rows in
     \<lparr>ru_version = GHOSTTY_RENDER_UPDATE_VERSION, ru_frameId = frameId, ru_generation = generation,
      ru_cols = int (gs_cols s), ru_rows = int (gs_rows s), ru_full = full,
      ru_foreground = uint (packGhosttyColor (gs_foreground s)), ru_background = uint (packGhosttyColor (gs_background s)),
      ru_cursor = uint (packGhosttyColor (gs_cursor s)), ru_cursorX = gs_cursorX s, ru_cursorY = gs_cursorY s,
      ru_cursorVisible = gs_cursorVisible s, ru_cursorBlinking = gs_cursorBlinking s, ru_cursorStyle = gs_cursorStyle s,
      ru_dirtyRows = map word_of_nat rows,
      ru_rowFlags = map (\<lambda>i. ucast (row_flag_bits (item_at (gs_rowData s) i))) rows,
      ru_graphemeOffsets = map word_of_nat (offsets_from 0 cells),
      ru_graphemeLengths = map (\<lambda>c. word_of_nat (length (cell_bytes c))) cells,
      ru_foregrounds = map (cell_fg s) cells, ru_backgrounds = map (cell_bg s) cells,
      ru_styles = map cell_style cells, ru_graphemes = concat (map cell_bytes cells)\<rparr>)"

lemma length_write_at [simp]: "i + length ys \<le> length xs \<Longrightarrow> length (write_at i ys xs) = length xs"
  by (simp add: write_at_def)

lemma write_at_Nil [simp]: "write_at i [] xs = xs"
  by (simp add: write_at_def)

lemma write_at_Cons: "k < length xs \<Longrightarrow> write_at (Suc k) ys (xs[k := y]) = write_at k (y # ys) xs"
  by (simp add: write_at_def take_Suc_conv_app_nth)

lemma write_at_append:
  "k + length ys \<le> length xs \<Longrightarrow> write_at (k + length ys) zs (write_at k ys xs) = write_at k (ys @ zs) xs"
  by (simp add: write_at_def ac_simps)

lemma take_write_at: "length ys \<le> length xs \<Longrightarrow> n = length ys \<Longrightarrow> take n (write_at 0 ys xs) = ys"
  by (simp add: write_at_def)

lemma length_offsets_from [simp]: "length (offsets_from off cs) = length cs"
  by (induction cs arbitrary: off) auto

text \<open>A slot with room for \<open>n\<close> cells from \<open>k\<close> and \<open>m\<close> bytes from \<open>off\<close>.\<close>

definition has_room :: "builder_slot \<Rightarrow> nat \<Rightarrow> nat \<Rightarrow> bool" where
  "has_room slot cells graphemes \<longleftrightarrow> cells \<le> length (sl_graphemeOffsets slot) \<and> cells \<le> length (sl_graphemeLengths slot)
     \<and> cells \<le> length (sl_foregrounds slot) \<and> cells \<le> length (sl_backgrounds slot) \<and> cells \<le> length (sl_styles slot)
     \<and> graphemes \<le> length (sl_graphemes slot)"

definition fill_cells :: "ghostty_snapshot \<Rightarrow> ghostty_cell option list \<Rightarrow> nat \<Rightarrow> nat \<Rightarrow> builder_slot \<Rightarrow> builder_slot" where
  "fill_cells s cs k off slot =
     slot\<lparr>sl_graphemes := write_at off (concat (map cell_bytes cs)) (sl_graphemes slot),
          sl_graphemeOffsets := write_at k (map word_of_nat (offsets_from off cs)) (sl_graphemeOffsets slot),
          sl_graphemeLengths := write_at k (map (\<lambda>c. word_of_nat (length (cell_bytes c))) cs) (sl_graphemeLengths slot),
          sl_foregrounds := write_at k (map (cell_fg s) cs) (sl_foregrounds slot),
          sl_backgrounds := write_at k (map (cell_bg s) cs) (sl_backgrounds slot),
          sl_styles := write_at k (map cell_style cs) (sl_styles slot)\<rparr>"

definition text_units :: "ghostty_cell option list \<Rightarrow> nat" where
  "text_units cs = sum_list (map (\<lambda>c. length (text_of c)) cs)"

lemma text_units_simps [simp]:
  "text_units [] = 0" "text_units (c # cs) = length (text_of c) + text_units cs"
  "text_units (cs @ ds) = text_units cs + text_units ds"
  by (simp_all add: text_units_def)

lemma cell_bytes_length: "length (cell_bytes c) \<le> 3 * length (text_of c)"
  by (simp add: cell_bytes_def utf8_encode_length)

lemma all_bytes_length: "length (concat (map cell_bytes cs)) \<le> 3 * text_units cs"
proof (induction cs)
  case (Cons c cs)
  then show ?case using cell_bytes_length [of c] by simp
qed simp

lemma write_one: "k < length xs \<Longrightarrow> xs[k := y] = write_at k [y] xs"
  using write_at_Cons [of k xs "[]" y] by simp

lemma pack_cell_fill:
  assumes "has_room slot (k + 1) (off + 3 * length (text_of c))"
  shows "pack_cell s c (slot, k, off) = (fill_cells s [c] k off slot, k + 1, off + length (cell_bytes c))"
proof -
  have "3 * length (text_of c) \<le> length (sl_graphemes slot) - off"
    using assms unfolding has_room_def by linarith
  then have "(if text_of c = [] then [] else encodeInto (length (sl_graphemes slot) - off) (text_of c)) = cell_bytes c"
    unfolding cell_bytes_def by (simp add: encodeInto_all utf8_encode_def)
  with assms show ?thesis
    by (simp add: pack_cell_def Let_def fill_cells_def has_room_def cell_fg_def cell_bg_def cell_style_def write_one)
qed

lemma fill_cells_room [simp]:
  assumes "has_room slot (k + length cs) (off + length (concat (map cell_bytes cs)))"
  shows "has_room (fill_cells s cs k off slot) n m = has_room slot n m"
  using assms by (simp add: has_room_def fill_cells_def)

lemma fill_cells_append:
  assumes "has_room slot (k + length cs) (off + length (concat (map cell_bytes cs)))"
  shows "fill_cells s ds (k + length cs) (off + length (concat (map cell_bytes cs))) (fill_cells s cs k off slot) =
     fill_cells s (cs @ ds) k off slot"
proof -
  have off: "offsets_from off (cs @ ds) = offsets_from off cs @ offsets_from (off + length (concat (map cell_bytes cs))) ds"
    by (induction cs arbitrary: off) (simp_all add: add.assoc)
  show ?thesis
    using assms
      write_at_append [of off "concat (map cell_bytes cs)" "sl_graphemes slot" "concat (map cell_bytes ds)"]
      write_at_append [of k "map word_of_nat (offsets_from off cs)" "sl_graphemeOffsets slot"]
      write_at_append [of k "map (cell_fg s) cs" "sl_foregrounds slot"]
      write_at_append [of k "map (cell_bg s) cs" "sl_backgrounds slot"]
      write_at_append [of k "map cell_style cs" "sl_styles slot"]
      write_at_append [of k "map (\<lambda>c. word_of_nat (length (cell_bytes c))) cs" "sl_graphemeLengths slot"]
    by (simp add: fill_cells_def has_room_def off)
qed


lemma has_room_mono: "has_room slot n m \<Longrightarrow> n' \<le> n \<Longrightarrow> m' \<le> m \<Longrightarrow> has_room slot n' m'"
  by (auto simp: has_room_def)

lemma fill_cells_Nil [simp]: "fill_cells s [] k off slot = slot"
  by (simp add: fill_cells_def)

lemma pack_cells:
  "has_room slot (k + length cs) (off + 3 * text_units cs) \<Longrightarrow>
   fold (pack_cell s) cs (slot, k, off) =
     (fill_cells s cs k off slot, k + length cs, off + length (concat (map cell_bytes cs)))"
proof (induction cs arbitrary: slot k off)
  case (Cons c cs)
  have b: "length (cell_bytes c) \<le> 3 * length (text_of c)" by (rule cell_bytes_length)
  have "has_room slot (k + 1) (off + 3 * length (text_of c))"
    by (rule has_room_mono [OF Cons.prems]) simp_all
  note first = pack_cell_fill [OF this, of s]
  have room: "has_room slot (k + length [c]) (off + length (concat (map cell_bytes [c])))"
    by (rule has_room_mono [OF Cons.prems]) (use b in simp_all)
  have "has_room (fill_cells s [c] k off slot) (k + 1 + length cs) (off + length (cell_bytes c) + 3 * text_units cs)"
    unfolding fill_cells_room [OF room] by (rule has_room_mono [OF Cons.prems]) (use b in simp_all)
  from Cons.IH [OF this] fill_cells_append [OF room, of s cs]
  show ?case by (simp add: first add.assoc)
qed simp

definition fill_rows :: "ghostty_snapshot \<Rightarrow> nat list \<Rightarrow> nat \<Rightarrow> builder_slot \<Rightarrow> builder_slot" where
  "fill_rows s rows m slot =
     slot\<lparr>sl_dirtyRows := write_at m (map word_of_nat rows) (sl_dirtyRows slot),
          sl_rowFlags := write_at m (map (\<lambda>i. ucast (row_flag_bits (item_at (gs_rowData s) i))) rows) (sl_rowFlags slot)\<rparr>"

lemma snapshot_cells_simps [simp]:
  "snapshot_cells s [] = []"
  "snapshot_cells s (i # rows) = map (cell_at (item_at (gs_rowData s) i)) [0..<gs_cols s] @ snapshot_cells s rows"
  by (simp_all add: snapshot_cells_def)

lemma length_snapshot_cells [simp]: "length (snapshot_cells s rows) = length rows * gs_cols s"
  by (induction rows) auto

lemma fill_independent:
  "fill_rows s rows m (fill_cells s cs k off slot) = fill_cells s cs k off (fill_rows s rows m slot)"
  "has_room (fill_rows s rows m slot) x y = has_room slot x y"
  "sl_dirtyRows (fill_cells s cs k off slot) = sl_dirtyRows slot"
  "sl_rowFlags (fill_cells s cs k off slot) = sl_rowFlags slot"
  by (simp_all add: fill_rows_def fill_cells_def has_room_def)

lemma fill_rows_Cons:
  assumes "m < length (sl_dirtyRows slot)" "m < length (sl_rowFlags slot)"
  shows "fill_rows s rows (Suc m) (slot\<lparr>sl_dirtyRows := (sl_dirtyRows slot)[m := word_of_nat i],
       sl_rowFlags := (sl_rowFlags slot)[m := ucast (row_flag_bits (item_at (gs_rowData s) i))]\<rparr>) =
     fill_rows s (i # rows) m slot"
  using assms by (simp add: fill_rows_def write_at_Cons)

lemma pack_rows_fill:
  assumes "m + length rows \<le> length (sl_dirtyRows slot)" "m + length rows \<le> length (sl_rowFlags slot)"
    "has_room slot (k + length rows * gs_cols s) (off + 3 * text_units (snapshot_cells s rows))"
  shows "fold (pack_row s) (enumerate m rows) (slot, k, off) =
     (fill_cells s (snapshot_cells s rows) k off (fill_rows s rows m slot), k + length rows * gs_cols s,
      off + length (concat (map cell_bytes (snapshot_cells s rows))))"
  using assms
proof (induction rows arbitrary: m slot k off)
  case Nil
  then show ?case by (simp add: fill_rows_def)
next
  case (Cons i rows)
  let ?row = "item_at (gs_rowData s) i"
  let ?cells = "map (cell_at ?row) [0..<gs_cols s]"
  let ?n = "length (concat (map cell_bytes ?cells))"
  define slot1 where "slot1 = slot\<lparr>sl_dirtyRows := (sl_dirtyRows slot)[m := word_of_nat i],
    sl_rowFlags := (sl_rowFlags slot)[m := ucast (row_flag_bits ?row)]\<rparr>"
  have lens: "length (sl_dirtyRows slot1) = length (sl_dirtyRows slot)" "length (sl_rowFlags slot1) = length (sl_rowFlags slot)"
    by (simp_all add: slot1_def)
  have room1: "has_room slot1 x y = has_room slot x y" for x y by (simp add: slot1_def has_room_def)
  have n: "?n \<le> 3 * text_units ?cells" by (rule all_bytes_length)
  have r1: "has_room slot1 (k + length ?cells) (off + 3 * text_units ?cells)"
    unfolding room1 by (rule has_room_mono [OF Cons.prems(3)]) simp_all
  have step: "pack_row s (m, i) (slot, k, off) = (fill_cells s ?cells k off slot1, k + length ?cells, off + ?n)"
    using pack_cells [OF r1, of s] by (simp add: pack_row_def Let_def slot1_def fold_map comp_def)
  have r2: "has_room slot1 (k + length ?cells) (off + ?n)"
    by (rule has_room_mono [OF r1]) (use n in simp_all)
  have r3: "has_room (fill_cells s ?cells k off slot1) (k + length ?cells + length rows * gs_cols s)
      (off + ?n + 3 * text_units (snapshot_cells s rows))"
    unfolding fill_cells_room [OF r2] room1 by (rule has_room_mono [OF Cons.prems(3)]) (use n in simp_all)
  have "fold (pack_row s) (enumerate (Suc m) rows) (fill_cells s ?cells k off slot1, k + length ?cells, off + ?n) =
      (fill_cells s (snapshot_cells s rows) (k + length ?cells) (off + ?n)
         (fill_rows s rows (Suc m) (fill_cells s ?cells k off slot1)), k + length ?cells + length rows * gs_cols s,
       off + ?n + length (concat (map cell_bytes (snapshot_cells s rows))))"
    by (rule Cons.IH) (use Cons.prems r3 lens in \<open>simp_all add: fill_independent\<close>)
  moreover have "fill_rows s rows (Suc m) slot1 = fill_rows s (i # rows) m slot"
    unfolding slot1_def using Cons.prems(1,2) by (intro fill_rows_Cons) simp_all
  moreover have "has_room (fill_rows s rows (Suc m) slot1) (k + length ?cells) (off + ?n)"
    using r2 by (simp add: fill_independent)
  ultimately show ?case
    using step fill_cells_append [of "fill_rows s rows (Suc m) slot1" k ?cells off s "snapshot_cells s rows"]
    by (simp add: fill_independent add.assoc)
qed


lemma nextCapacity_ge: "required \<le> nextCapacity required"
proof -
  have "0 < c \<Longrightarrow> required \<le> double_until c required" for c
    by (induction c required rule: double_until.induct) (subst double_until.simps, auto)
  then show ?thesis by (simp add: nextCapacity_def)
qed

lemma nextCapacity_pos: "0 < nextCapacity required"
proof -
  have "0 < c \<Longrightarrow> 0 < double_until c required" for c
    by (induction c required rule: double_until.induct) (subst double_until.simps, auto)
  then show ?thesis by (simp add: nextCapacity_def)
qed

lemma nextCapacity_less: "0 < required \<Longrightarrow> nextCapacity required < 2 * required"
proof -
  have "0 < c \<Longrightarrow> c < 2 * required \<Longrightarrow> double_until c required < 2 * required" for c
    by (induction c required rule: double_until.induct) (subst double_until.simps, auto)
  then show "0 < required \<Longrightarrow> ?thesis" by (simp add: nextCapacity_def)
qed

lemma ensure_room: "required \<le> length (ensure xs required)"
  using nextCapacity_ge by (simp add: ensure_def enough_def)

lemma ensure_slot_room:
  "has_room (ensure_slot rows cells graphemes s) cells graphemes"
  "rows \<le> length (sl_dirtyRows (ensure_slot rows cells graphemes s))"
  "rows \<le> length (sl_rowFlags (ensure_slot rows cells graphemes s))"
  by (simp_all add: ensure_slot_def has_room_def ensure_room)

lemma graphemeCapacity_units: "graphemeCapacity s rows = 3 * text_units (snapshot_cells s rows)"
proof -
  have zero: "text_units (map (cell_at None) js) = 0" for js
    by (induction js) (simp_all add: cell_at_def text_of_def)
  have sums: "sum_list (map (\<lambda>j. length (text_of (cell_at r j)) * 3) js) = 3 * text_units (map (cell_at r) js)" for r js
    by (induction js) simp_all
  show ?thesis
    by (induction rows) (simp_all add: graphemeCapacity_def zero sums split: option.split)
qed

lemma view_filled:
  assumes "length rows \<le> length (sl_dirtyRows slot)" "length rows \<le> length (sl_rowFlags slot)"
    "has_room slot (length rows * gs_cols s) (length (concat (map cell_bytes (snapshot_cells s rows))))"
    "rows = update_rows s full"
  shows "view_update s frameId generation full (length rows) (length rows * gs_cols s)
      (length (concat (map cell_bytes (snapshot_cells s rows))))
      (fill_cells s (snapshot_cells s rows) 0 0 (fill_rows s rows 0 slot)) = packed_update s frameId generation full"
  using assms
  by (simp add: view_update_def packed_update_def Let_def fill_cells_def fill_rows_def has_room_def take_write_at)

lemma fill_frame [simp]:
  "sl_id (fill_cells s cs k off slot) = sl_id slot" "sl_inFlight (fill_cells s cs k off slot) = sl_inFlight slot"
  "sl_leaseToken (fill_cells s cs k off slot) = sl_leaseToken slot"
  "sl_id (fill_rows s rows m slot) = sl_id slot" "sl_inFlight (fill_rows s rows m slot) = sl_inFlight slot"
  "sl_leaseToken (fill_rows s rows m slot) = sl_leaseToken slot"
  "sl_id (ensure_slot r c g slot) = sl_id slot" "sl_inFlight (ensure_slot r c g slot) = sl_inFlight slot"
  "sl_leaseToken (ensure_slot r c g slot) = sl_leaseToken slot"
  by (simp_all add: fill_cells_def fill_rows_def ensure_slot_def)

lemma count_growth_frame [simp]:
  "rb_slots (count_growth now n g b) = rb_slots b" "rb_owners (count_growth now n g b) = rb_owners b"
  by (simp_all add: count_growth_def Let_def)

text \<open>What building does to the slots: it fills one that is free and leaves the others as they are.\<close>

definition attached :: "builder_slot \<Rightarrow> bool" where
  "attached slot \<longleftrightarrow> sl_dirtyRows slot \<noteq> [] \<and> sl_rowFlags slot \<noteq> [] \<and> sl_graphemeOffsets slot \<noteq> [] \<and> sl_graphemeLengths slot \<noteq> []
     \<and> sl_foregrounds slot \<noteq> [] \<and> sl_backgrounds slot \<noteq> [] \<and> sl_styles slot \<noteq> [] \<and> sl_graphemes slot \<noteq> []"

lemma ensure_nonempty [simp]: "ensure xs n \<noteq> []"
  using nextCapacity_pos [of n] by (auto simp: ensure_def enough_def)

lemma ensure_slot_attached: "attached (ensure_slot r c g slot)"
  by (simp add: attached_def ensure_slot_def)

lemma fill_attached:
  assumes "m + length rows \<le> length (sl_dirtyRows slot)" "m + length rows \<le> length (sl_rowFlags slot)"
    "has_room slot (k + length cs) (off + length (concat (map cell_bytes cs)))" "attached slot"
  shows "attached (fill_cells s cs k off (fill_rows s rows m slot))"
proof -
  have len: "i + length ys \<le> length xs \<Longrightarrow> xs \<noteq> [] \<Longrightarrow> write_at i ys xs \<noteq> []" for i and xs ys :: "'a list"
    by (metis length_0_conv length_write_at)
  show ?thesis
    using assms len [of m _ "sl_dirtyRows slot"]
    by (simp add: attached_def fill_cells_def fill_rows_def has_room_def len)
qed

definition built_slot :: "ghostty_snapshot \<Rightarrow> bool \<Rightarrow> builder_slot \<Rightarrow> builder_slot \<Rightarrow> bool" where
  "built_slot s full slot slot' \<longleftrightarrow> sl_id slot' = sl_id slot \<and> sl_inFlight slot' \<and> sl_leaseToken slot' = sl_leaseToken slot + 1
     \<and> attached slot' \<and> (\<forall>frameId generation. view_update s frameId generation full (length (update_rows s full))
          (length (update_rows s full) * gs_cols s) (length (concat (map cell_bytes (snapshot_cells s (update_rows s full)))))
          slot' = packed_update s frameId generation full)"

lemma tryBuild_built:
  assumes "find (\<lambda>s. \<not> sl_inFlight s) (rb_slots b) = Some slot"
  shows "\<exists>slot'. built_slot s full slot slot' \<and>
     snd (tryBuild now s frameId generation full b) = Some \<lparr>ul_slotId = sl_id slot, ul_leaseToken = sl_leaseToken slot + 1,
       ul_update = packed_update s frameId generation full\<rparr> \<and>
     rb_slots (fst (tryBuild now s frameId generation full b)) = (rb_slots b)[sl_id slot := slot'] \<and>
     rb_owners (fst (tryBuild now s frameId generation full b)) = map_set (sl_id slot, sl_leaseToken slot + 1)
       \<lparr>ul_slotId = sl_id slot, ul_leaseToken = sl_leaseToken slot + 1,
        ul_update = packed_update s frameId generation full\<rparr> (rb_owners b)"
proof -
  let ?rows = "update_rows s full"
  let ?cells = "snapshot_cells s ?rows"
  let ?n = "length (concat (map cell_bytes ?cells))"
  let ?slot1 = "slot\<lparr>sl_inFlight := True, sl_leaseToken := sl_leaseToken slot + 1\<rparr>"
  let ?slot2 = "ensure_slot (length ?rows) (length ?rows * gs_cols s) (graphemeCapacity s ?rows) ?slot1"
  let ?slot3 = "?slot2\<lparr>sl_targetRows := max 1 (length ?rows), sl_targetCells := max 1 (length ?rows * gs_cols s)\<rparr>"
  let ?slot4 = "fill_cells s ?cells 0 0 (fill_rows s ?rows 0 ?slot3)"
  let ?slot5 = "?slot4\<lparr>sl_targetGraphemes := max 1 ?n\<rparr>"
  have room: "has_room ?slot3 (length ?rows * gs_cols s) (3 * text_units ?cells)"
    "length ?rows \<le> length (sl_dirtyRows ?slot3)" "length ?rows \<le> length (sl_rowFlags ?slot3)"
    using ensure_slot_room [of "length ?rows" "length ?rows * gs_cols s" "graphemeCapacity s ?rows" ?slot1]
    by (simp_all add: has_room_def graphemeCapacity_units)
  have pack: "pack_rows s ?rows ?slot3 = (?slot4, length ?rows * gs_cols s, ?n)"
    using pack_rows_fill [of 0 ?rows ?slot3 0 s 0] room by (simp add: pack_rows_def)
  have view: "view_update s f g full (length ?rows) (length ?rows * gs_cols s) ?n ?slot4 = packed_update s f g full" for f g
    by (rule view_filled [OF room(2,3) has_room_mono [OF room(1)] refl]) (use all_bytes_length [of ?cells] in simp_all)
  moreover have "view_update s f g full r c n ?slot5 = view_update s f g full r c n ?slot4" for f g r c n
    by (simp add: view_update_def)
  moreover have "attached ?slot4"
    by (rule fill_attached)
      (use room all_bytes_length [of ?cells] ensure_slot_attached in \<open>auto simp: has_room_def attached_def\<close>)
  then have "attached ?slot5" by (simp add: attached_def)
  ultimately have "built_slot s full slot ?slot5" by (simp add: built_slot_def)
  then show ?thesis
    by (intro exI [of _ ?slot5])
      (simp only: tryBuild_def assms option.case Let_def pack prod.case view, simp add: put_slot_def)
qed


section \<open>Validation\<close>

text \<open>A received value: an object with its fields, or something else.\<close>

datatype raw_field =
    RawNum jsnum | RawBool bool | RawU8 bytes | RawU16 "16 word list" | RawU32 "32 word list" | RawOther

datatype raw_value = RawObject "(string \<times> raw_field) list" | RawNotObject

fun raw_get :: "raw_value \<Rightarrow> string \<Rightarrow> raw_field option" where
  "raw_get (RawObject fs) k = map_of fs k"
| "raw_get RawNotObject k = None"

text \<open>\<open>"k" in value\<close> together with the type test on \<open>value.k\<close>.\<close>

definition isSafeInteger_field :: "raw_value \<Rightarrow> string \<Rightarrow> int option" where
  "isSafeInteger_field v k = (case raw_get v k of
     Some (RawNum n) \<Rightarrow> if is_safe_integer n then Some \<lfloor>num_of n\<rfloor> else None | _ \<Rightarrow> None)"

definition isColor :: "int \<Rightarrow> bool" where
  "isColor n \<longleftrightarrow> 0 \<le> n \<and> n \<le> 0xffffff"

definition int_field :: "raw_value \<Rightarrow> string \<Rightarrow> (int \<Rightarrow> bool) \<Rightarrow> bool" where
  "int_field v k P \<longleftrightarrow> (case isSafeInteger_field v k of Some n \<Rightarrow> P n | None \<Rightarrow> False)"

fun bool_field :: "raw_field option \<Rightarrow> bool option" where
  "bool_field (Some (RawBool b)) = Some b"
| "bool_field _ = None"

fun u8_field :: "raw_field option \<Rightarrow> bytes option" where
  "u8_field (Some (RawU8 xs)) = Some xs"
| "u8_field _ = None"

fun u16_field :: "raw_field option \<Rightarrow> 16 word list option" where
  "u16_field (Some (RawU16 xs)) = Some xs"
| "u16_field _ = None"

fun u32_field :: "raw_field option \<Rightarrow> 32 word list option" where
  "u32_field (Some (RawU32 xs)) = Some xs"
| "u32_field _ = None"

fun rows_ascending :: "int \<Rightarrow> int \<Rightarrow> 32 word list \<Rightarrow> bool" where
  "rows_ascending rows previousRow [] = True"
| "rows_ascending rows previousRow (row # rest) =
     (if uint row \<le> previousRow \<or> rows \<le> uint row then False else rows_ascending rows (uint row) rest)"

definition cell_valid :: "32 word list \<Rightarrow> 32 word list \<Rightarrow> 32 word list \<Rightarrow> 32 word list \<Rightarrow> bytes \<Rightarrow> nat \<Rightarrow> bool" where
  "cell_valid offsets lengths foregrounds backgrounds graphemes i =
     (case (item_at offsets i, item_at lengths i) of
        (Some off, Some len) \<Rightarrow>
          unat off + unat len \<le> length graphemes
          \<and> (case item_at foregrounds i of Some c \<Rightarrow> isColor (uint c) | None \<Rightarrow> False)
          \<and> (case item_at backgrounds i of Some c \<Rightarrow> isColor (uint c) | None \<Rightarrow> False)
      | _ \<Rightarrow> False)"

definition arrays_valid ::
    "int \<Rightarrow> int \<Rightarrow> bool \<Rightarrow> 32 word list \<Rightarrow> bytes \<Rightarrow> 32 word list \<Rightarrow> 32 word list \<Rightarrow> 32 word list \<Rightarrow> 32 word list \<Rightarrow>
     16 word list \<Rightarrow> bytes \<Rightarrow> bool" where
  "arrays_valid cols rows full dirtyRows rowFlags offsets lengths foregrounds backgrounds styles graphemes =
     (let rowCount = length dirtyRows; cellCount = int rowCount * cols in
      if length rowFlags \<noteq> rowCount \<or> int (length offsets) \<noteq> cellCount \<or> int (length lengths) \<noteq> cellCount
         \<or> int (length foregrounds) \<noteq> cellCount \<or> int (length backgrounds) \<noteq> cellCount
         \<or> int (length styles) \<noteq> cellCount \<or> (full \<and> int rowCount \<noteq> rows) then False
      else rows_ascending rows (- 1) dirtyRows
        \<and> list_all (cell_valid offsets lengths foregrounds backgrounds graphemes) [0..<nat cellCount])"

definition header_valid :: "raw_value \<Rightarrow> bool" where
  "header_valid v \<longleftrightarrow>
     raw_get v ''version'' = Some (RawNum (Fin (of_int GHOSTTY_RENDER_UPDATE_VERSION)))
     \<and> int_field v ''frameId'' (\<lambda>n. 1 \<le> n) \<and> int_field v ''generation'' (\<lambda>n. 1 \<le> n)
     \<and> int_field v ''cols'' (\<lambda>n. 1 \<le> n \<and> n \<le> 65535) \<and> int_field v ''rows'' (\<lambda>n. 1 \<le> n \<and> n \<le> 65535)
     \<and> bool_field (raw_get v ''full'') \<noteq> None
     \<and> int_field v ''foreground'' isColor \<and> int_field v ''background'' isColor \<and> int_field v ''cursor'' isColor
     \<and> int_field v ''cursorX'' (\<lambda>n. True) \<and> int_field v ''cursorY'' (\<lambda>n. True)
     \<and> bool_field (raw_get v ''cursorVisible'') \<noteq> None \<and> bool_field (raw_get v ''cursorBlinking'') \<noteq> None
     \<and> int_field v ''cursorStyle'' (\<lambda>n. True)"

definition validateGhosttyRenderUpdate :: "raw_value \<Rightarrow> bool" where
  "validateGhosttyRenderUpdate v \<longleftrightarrow> header_valid v \<and>
     (case (u32_field (raw_get v ''dirtyRows''), u8_field (raw_get v ''rowFlags''),
            u32_field (raw_get v ''graphemeOffsets''), u32_field (raw_get v ''graphemeLengths'')) of
        (Some dirtyRows, Some rowFlags, Some offsets, Some lengths) \<Rightarrow>
          (case (u32_field (raw_get v ''foregrounds''), u32_field (raw_get v ''backgrounds''),
                 u16_field (raw_get v ''styles''), u8_field (raw_get v ''graphemes'')) of
             (Some foregrounds, Some backgrounds, Some styles, Some graphemes) \<Rightarrow>
               arrays_valid (the (isSafeInteger_field v ''cols'')) (the (isSafeInteger_field v ''rows''))
                 (the (bool_field (raw_get v ''full''))) dirtyRows rowFlags offsets lengths foregrounds backgrounds
                 styles graphemes
           | _ \<Rightarrow> False)
      | _ \<Rightarrow> False)"

text \<open>An update as a value.\<close>

abbreviation raw_of_int :: "int \<Rightarrow> raw_field" where
  "raw_of_int n \<equiv> RawNum (Fin (of_int n))"

definition raw_of :: "render_update \<Rightarrow> raw_value" where
  "raw_of u = RawObject
     [(''version'', raw_of_int (ru_version u)), (''frameId'', raw_of_int (ru_frameId u)),
      (''generation'', raw_of_int (ru_generation u)), (''cols'', raw_of_int (ru_cols u)), (''rows'', raw_of_int (ru_rows u)),
      (''full'', RawBool (ru_full u)), (''foreground'', raw_of_int (ru_foreground u)),
      (''background'', raw_of_int (ru_background u)), (''cursor'', raw_of_int (ru_cursor u)),
      (''cursorX'', raw_of_int (ru_cursorX u)), (''cursorY'', raw_of_int (ru_cursorY u)),
      (''cursorVisible'', RawBool (ru_cursorVisible u)), (''cursorBlinking'', RawBool (ru_cursorBlinking u)),
      (''cursorStyle'', raw_of_int (ru_cursorStyle u)), (''dirtyRows'', RawU32 (ru_dirtyRows u)),
      (''rowFlags'', RawU8 (ru_rowFlags u)), (''graphemeOffsets'', RawU32 (ru_graphemeOffsets u)),
      (''graphemeLengths'', RawU32 (ru_graphemeLengths u)), (''foregrounds'', RawU32 (ru_foregrounds u)),
      (''backgrounds'', RawU32 (ru_backgrounds u)), (''styles'', RawU16 (ru_styles u)),
      (''graphemes'', RawU8 (ru_graphemes u))]"

definition safe_int :: "int \<Rightarrow> bool" where
  "safe_int n \<longleftrightarrow> \<bar>n\<bar> \<le> max_safe"

definition update_ok :: "render_update \<Rightarrow> bool" where
  "update_ok u \<longleftrightarrow> ru_version u = 1 \<and> 1 \<le> ru_frameId u \<and> safe_int (ru_frameId u)
     \<and> 1 \<le> ru_generation u \<and> safe_int (ru_generation u) \<and> 1 \<le> ru_cols u \<and> ru_cols u \<le> 65535
     \<and> 1 \<le> ru_rows u \<and> ru_rows u \<le> 65535 \<and> isColor (ru_foreground u) \<and> isColor (ru_background u) \<and> isColor (ru_cursor u)
     \<and> safe_int (ru_cursorX u) \<and> safe_int (ru_cursorY u) \<and> safe_int (ru_cursorStyle u)
     \<and> arrays_valid (ru_cols u) (ru_rows u) (ru_full u) (ru_dirtyRows u) (ru_rowFlags u) (ru_graphemeOffsets u)
          (ru_graphemeLengths u) (ru_foregrounds u) (ru_backgrounds u) (ru_styles u) (ru_graphemes u)"

lemma safe_of_int: "is_safe_integer (Fin (of_int n)) = safe_int n"
  by (simp add: safe_int_def)

lemma raw_int_field:
  "raw_get v k = Some (raw_of_int n) \<Longrightarrow> isSafeInteger_field v k = (if safe_int n then Some n else None)"
  by (simp add: isSafeInteger_field_def safe_of_int del: is_safe_integer.simps)

lemma small_safe: "1 \<le> n \<Longrightarrow> n \<le> 65535 \<Longrightarrow> safe_int n" "isColor n \<Longrightarrow> safe_int n"
  by (simp_all add: safe_int_def max_safe_def isColor_def)

lemma raw_of_fields:
  "raw_get (raw_of u) ''version'' = Some (raw_of_int (ru_version u))"
  "raw_get (raw_of u) ''frameId'' = Some (raw_of_int (ru_frameId u))"
  "raw_get (raw_of u) ''generation'' = Some (raw_of_int (ru_generation u))"
  "raw_get (raw_of u) ''cols'' = Some (raw_of_int (ru_cols u))"
  "raw_get (raw_of u) ''rows'' = Some (raw_of_int (ru_rows u))"
  "raw_get (raw_of u) ''full'' = Some (RawBool (ru_full u))"
  "raw_get (raw_of u) ''foreground'' = Some (raw_of_int (ru_foreground u))"
  "raw_get (raw_of u) ''background'' = Some (raw_of_int (ru_background u))"
  "raw_get (raw_of u) ''cursor'' = Some (raw_of_int (ru_cursor u))"
  "raw_get (raw_of u) ''cursorX'' = Some (raw_of_int (ru_cursorX u))"
  "raw_get (raw_of u) ''cursorY'' = Some (raw_of_int (ru_cursorY u))"
  "raw_get (raw_of u) ''cursorVisible'' = Some (RawBool (ru_cursorVisible u))"
  "raw_get (raw_of u) ''cursorBlinking'' = Some (RawBool (ru_cursorBlinking u))"
  "raw_get (raw_of u) ''cursorStyle'' = Some (raw_of_int (ru_cursorStyle u))"
  "raw_get (raw_of u) ''dirtyRows'' = Some (RawU32 (ru_dirtyRows u))"
  "raw_get (raw_of u) ''rowFlags'' = Some (RawU8 (ru_rowFlags u))"
  "raw_get (raw_of u) ''graphemeOffsets'' = Some (RawU32 (ru_graphemeOffsets u))"
  "raw_get (raw_of u) ''graphemeLengths'' = Some (RawU32 (ru_graphemeLengths u))"
  "raw_get (raw_of u) ''foregrounds'' = Some (RawU32 (ru_foregrounds u))"
  "raw_get (raw_of u) ''backgrounds'' = Some (RawU32 (ru_backgrounds u))"
  "raw_get (raw_of u) ''styles'' = Some (RawU16 (ru_styles u))"
  "raw_get (raw_of u) ''graphemes'' = Some (RawU8 (ru_graphemes u))"
  by (simp_all add: raw_of_def)

lemma header_raw_of:
  "header_valid (raw_of u) \<longleftrightarrow> ru_version u = 1 \<and> 1 \<le> ru_frameId u \<and> safe_int (ru_frameId u)
     \<and> 1 \<le> ru_generation u \<and> safe_int (ru_generation u) \<and> 1 \<le> ru_cols u \<and> ru_cols u \<le> 65535
     \<and> 1 \<le> ru_rows u \<and> ru_rows u \<le> 65535 \<and> isColor (ru_foreground u) \<and> isColor (ru_background u) \<and> isColor (ru_cursor u)
     \<and> safe_int (ru_cursorX u) \<and> safe_int (ru_cursorY u) \<and> safe_int (ru_cursorStyle u)"
  unfolding header_valid_def int_field_def
  using small_safe by (auto simp: raw_of_fields raw_int_field GHOSTTY_RENDER_UPDATE_VERSION_def split: if_splits)

lemma validate_raw_of: "validateGhosttyRenderUpdate (raw_of u) = update_ok u"
proof (cases "header_valid (raw_of u)")
  case True
  then have h: "1 \<le> ru_cols u" "ru_cols u \<le> 65535" "1 \<le> ru_rows u" "ru_rows u \<le> 65535" by (simp_all add: header_raw_of)
  have "safe_int (ru_cols u)" "safe_int (ru_rows u)" using small_safe(1) h by blast+
  with True show ?thesis
    by (simp add: validateGhosttyRenderUpdate_def raw_of_fields raw_int_field)
      (simp add: header_raw_of update_ok_def)
next
  case False
  then show ?thesis by (auto simp: validateGhosttyRenderUpdate_def update_ok_def header_raw_of)
qed


section \<open>Colours and styles\<close>

lemma mask_8: "(0xff :: 32 word) = mask 8"
  by (simp add: mask_eq_exp_minus_1)

lemma byte_mask: "uint (w AND 0xff :: 32 word) = uint w mod 256"
  unfolding mask_8 take_bit_eq_mask [symmetric] unsigned_take_bit_eq by (simp add: take_bit_eq_mod)

lemma three_bytes:
  fixes x y z :: "32 word"
  defines "w \<equiv> push_bit 16 (x AND mask 8) OR push_bit 8 (y AND mask 8) OR (z AND mask 8)"
  shows "drop_bit 16 w AND mask 8 = x AND mask 8" "drop_bit 8 w AND mask 8 = y AND mask 8"
    "w AND mask 8 = z AND mask 8" "take_bit 24 w = w"
  unfolding w_def by (rule bit_word_eqI; (simp only: bit_simps o_apply; auto))+

lemma color_bytes:
  "drop_bit 16 (packGhosttyColor c) AND 0xff = word_of_int (cr c) AND 0xff"
  "drop_bit 8 (packGhosttyColor c) AND 0xff = word_of_int (cg c) AND 0xff"
  "packGhosttyColor c AND 0xff = word_of_int (cb c) AND 0xff"
  unfolding packGhosttyColor_def mask_8 by (rule three_bytes)+

lemma packed_color_small: "isColor (uint (packGhosttyColor c))"
proof -
  have "take_bit 24 (packGhosttyColor c) = packGhosttyColor c"
    unfolding packGhosttyColor_def mask_8 by (rule three_bytes)
  then have "uint (packGhosttyColor c) = take_bit 24 (uint (packGhosttyColor c))"
    by (metis unsigned_take_bit_eq)
  then have "uint (packGhosttyColor c) < 2 ^ 24"
    by (metis take_bit_int_less_exp)
  then show ?thesis by (simp add: isColor_def)
qed


text \<open>The style of a cell as it is read back from the array of 16-bit words.\<close>

definition stored_style :: "ghostty_cell \<Rightarrow> 32 word" where
  "stored_style c = ucast (ucast (packGhosttyCellStyle c) :: 16 word)"

lemma flag_bit: "bit (if b then push_bit k 1 else 0 :: 32 word) n \<longleftrightarrow> b \<and> n = k \<and> n < 32"
  by (auto simp: bit_simps)

lemma flag_bits:
  "bit (if b then push_bit 2 1 else 0 :: 32 word) n \<longleftrightarrow> b \<and> n = 2"
  "bit (if b then push_bit 3 1 else 0 :: 32 word) n \<longleftrightarrow> b \<and> n = 3"
  "bit (if b then push_bit 4 1 else 0 :: 32 word) n \<longleftrightarrow> b \<and> n = 4"
  "bit (if b then push_bit 5 1 else 0 :: 32 word) n \<longleftrightarrow> b \<and> n = 5"
  "bit (if b then push_bit 6 1 else 0 :: 32 word) n \<longleftrightarrow> b \<and> n = 6"
  "bit (if b then push_bit 7 1 else 0 :: 32 word) n \<longleftrightarrow> b \<and> n = 7"
  unfolding flag_bit by auto

lemma style_bit:
  "bit (packGhosttyCellStyle c) n \<longleftrightarrow>
     n < 2 \<and> bit (cell_wide c) n \<or> cell_bold c \<and> n = 2 \<or> cell_italic c \<and> n = 3 \<or> cell_invisible c \<and> n = 4
     \<or> cell_strikethrough c \<and> n = 5 \<or> cell_overline c \<and> n = 6 \<or> cell_selected c \<and> n = 7
     \<or> 8 \<le> n \<and> n < 11 \<and> bit (cell_underline c) (n - 8)"
proof -
  have masks: "widthMask = mask 2" "(7 :: 32 word) = mask 3"
    by (simp_all add: widthMask_def mask_eq_exp_minus_1)
  have u: "bit (push_bit underlineShift (word_of_int (cell_underline c) AND 7 :: 32 word)) n \<longleftrightarrow>
      8 \<le> n \<and> n < 11 \<and> bit (cell_underline c) (n - 8)"
    unfolding masks underlineShift_def by (simp only: bit_simps o_apply; auto)
  have w: "bit (word_of_int (cell_wide c) AND widthMask) n \<longleftrightarrow> n < 2 \<and> bit (cell_wide c) n"
    unfolding masks by (simp only: bit_simps o_apply; auto)
  show ?thesis
    unfolding packGhosttyCellStyle_def style_bold_def style_italic_def style_invisible_def style_strikethrough_def
      style_overline_def style_selected_def bit_or_iff flag_bits u w disj_assoc by (rule refl)
qed

lemma stored_style_bit: "bit (stored_style c) n \<longleftrightarrow> bit (packGhosttyCellStyle c) n"
  unfolding stored_style_def by (simp only: bit_simps o_apply) (auto simp: style_bit)

lemma stored_style_flags:
  "stored_style c AND style_bold \<noteq> 0 \<longleftrightarrow> cell_bold c" "stored_style c AND style_italic \<noteq> 0 \<longleftrightarrow> cell_italic c"
  "stored_style c AND style_invisible \<noteq> 0 \<longleftrightarrow> cell_invisible c"
  "stored_style c AND style_strikethrough \<noteq> 0 \<longleftrightarrow> cell_strikethrough c"
  "stored_style c AND style_overline \<noteq> 0 \<longleftrightarrow> cell_overline c" "stored_style c AND style_selected \<noteq> 0 \<longleftrightarrow> cell_selected c"
  unfolding style_bold_def style_italic_def style_invisible_def style_strikethrough_def style_overline_def style_selected_def
    bit_iff_and_push_bit_not_eq_0 [symmetric] stored_style_bit style_bit by simp_all

lemma stored_style_numbers:
  "uint (stored_style c AND widthMask) = cell_wide c mod 4"
  "uint (drop_bit underlineShift (stored_style c AND underlineMask)) = cell_underline c mod 8"
proof -
  have m: "widthMask = mask 2" "underlineMask = push_bit 8 (mask 3)"
    by (simp_all add: widthMask_def underlineMask_def mask_eq_exp_minus_1)
  have "stored_style c AND widthMask = word_of_int (take_bit 2 (cell_wide c))"
    unfolding m by (rule bit_word_eqI; simp only: bit_simps o_apply stored_style_bit style_bit; auto)
  then show "uint (stored_style c AND widthMask) = cell_wide c mod 4"
    by (simp add: take_bit_eq_mod uint_word_of_int)
  have "drop_bit underlineShift (stored_style c AND underlineMask) = word_of_int (take_bit 3 (cell_underline c))"
    unfolding m underlineShift_def
    by (rule bit_word_eqI; simp only: bit_simps o_apply stored_style_bit style_bit; auto)
  then show "uint (drop_bit underlineShift (stored_style c AND underlineMask)) = cell_underline c mod 8"
    by (simp add: take_bit_eq_mod uint_word_of_int)
qed

lemma unpack_pack_color:
  "unpackGhosttyColor (packGhosttyColor c) = \<lparr>cr = cr c mod 256, cg = cg c mod 256, cb = cb c mod 256\<rparr>"
  unfolding unpackGhosttyColor_def color_bytes byte_mask by (simp add: uint_word_of_int mod_mod_cancel)


section \<open>Built updates are valid\<close>

definition snapshot_ok :: "ghostty_snapshot \<Rightarrow> bool" where
  "snapshot_ok s \<longleftrightarrow> 1 \<le> gs_cols s \<and> gs_cols s \<le> 65535 \<and> 1 \<le> gs_rows s \<and> gs_rows s \<le> 65535
     \<and> safe_int (gs_cursorX s) \<and> safe_int (gs_cursorY s) \<and> safe_int (gs_cursorStyle s)
     \<and> distinct (gs_dirtyRows s) \<and> (\<forall>i \<in> set (gs_dirtyRows s). i < gs_rows s)
     \<and> 3 * text_units (snapshot_cells s [0..<gs_rows s]) < 2 ^ 32"

lemma rows_ascending_sorted:
  "sorted_wrt (<) rows \<Longrightarrow> \<forall>i \<in> set rows. prev < int i \<and> i < n \<Longrightarrow> n \<le> 65535 \<Longrightarrow>
     rows_ascending (int n) prev (map word_of_nat rows)"
proof (induction rows arbitrary: prev)
  case (Cons i rows)
  then have "i < 2 ^ 32" by simp
  then have "uint (word_of_nat i :: 32 word) = int i" by (simp add: unsigned_of_nat take_bit_nat_eq_self)
  moreover have "rows_ascending (int n) (int i) (map word_of_nat rows)"
    by (rule Cons.IH) (use Cons.prems in auto)
  ultimately show ?case using Cons.prems by simp
qed simp

lemma update_rows_sorted:
  assumes "snapshot_ok s"
  shows "sorted_wrt (<) (update_rows s full)" "\<forall>i \<in> set (update_rows s full). i < gs_rows s"
    "distinct (update_rows s full)"
proof -
  have "distinct (update_rows s full) \<and> sorted (update_rows s full)"
    using assms by (simp add: update_rows_def snapshot_ok_def)
  then show "sorted_wrt (<) (update_rows s full)" "distinct (update_rows s full)"
    by (simp_all add: strict_sorted_iff)
  show "\<forall>i \<in> set (update_rows s full). i < gs_rows s"
    using assms by (auto simp: update_rows_def snapshot_ok_def)
qed

lemma text_units_rows: "text_units (snapshot_cells s rows) = sum_list (map (\<lambda>i. text_units (snapshot_cells s [i])) rows)"
  by (induction rows) simp_all

lemma update_text_small:
  assumes "snapshot_ok s"
  shows "3 * text_units (snapshot_cells s (update_rows s full)) < 2 ^ 32"
proof -
  let ?f = "\<lambda>i. text_units (snapshot_cells s [i])"
  have "sum_list (map ?f (update_rows s full)) = sum ?f (set (update_rows s full))"
    using update_rows_sorted(3) [OF assms] by (rule sum_list_distinct_conv_sum_set)
  also have "\<dots> \<le> sum ?f {0..<gs_rows s}"
    using update_rows_sorted(2) [OF assms] by (intro sum_mono2) auto
  also have "\<dots> = sum_list (map ?f [0..<gs_rows s])" by (simp add: interv_sum_list_conv_sum_set_nat)
  finally have "text_units (snapshot_cells s (update_rows s full)) \<le> text_units (snapshot_cells s [0..<gs_rows s])"
    by (simp only: text_units_rows [symmetric])
  moreover have "3 * text_units (snapshot_cells s [0..<gs_rows s]) < 2 ^ 32" using assms by (simp add: snapshot_ok_def)
  ultimately show ?thesis by linarith
qed

lemma offsets_from_nth:
  "i < length cs \<Longrightarrow> offsets_from off cs ! i = off + length (concat (map cell_bytes (take i cs)))"
  by (induction cs arbitrary: off i) (auto simp: nth_Cons split: nat.split)

lemma offset_in_bytes:
  assumes "i < length cs"
  shows "length (concat (map cell_bytes (take i cs))) + length (cell_bytes (cs ! i)) \<le> length (concat (map cell_bytes cs))"
proof -
  have "concat (map cell_bytes cs) = concat (map cell_bytes (take i cs)) @ cell_bytes (cs ! i) @ concat (map cell_bytes (drop (Suc i) cs))"
    using id_take_nth_drop [OF assms] by (metis concat.simps(2) concat_append list.simps(9) map_append)
  then show ?thesis by simp
qed

lemma small_word: "n < 2 ^ 32 \<Longrightarrow> unat (word_of_nat n :: 32 word) = n"
  by (simp add: unat_of_nat)

lemma packed_update_ok:
  assumes "snapshot_ok s" "1 \<le> frameId" "safe_int frameId" "1 \<le> generation" "safe_int generation"
  shows "update_ok (packed_update s frameId generation full)"
proof -
  let ?rows = "update_rows s full"
  let ?cells = "snapshot_cells s ?rows"
  let ?total = "length (concat (map cell_bytes ?cells))"
  have total: "?total < 2 ^ 32" using update_text_small [OF assms(1), of full] all_bytes_length [of ?cells] by linarith
  have "rows_ascending (int (gs_rows s)) (- 1) (map word_of_nat ?rows)"
    by (rule rows_ascending_sorted) (use update_rows_sorted [OF assms(1)] assms(1) in \<open>auto simp: snapshot_ok_def\<close>)
  moreover have "cell_valid (map word_of_nat (offsets_from 0 ?cells)) (map (\<lambda>c. word_of_nat (length (cell_bytes c))) ?cells)
      (map (cell_fg s) ?cells) (map (cell_bg s) ?cells) (concat (map cell_bytes ?cells)) i" if "i < length ?cells" for i
  proof -
    have le: "offsets_from 0 ?cells ! i + length (cell_bytes (?cells ! i)) \<le> ?total"
      using offset_in_bytes [OF that] by (simp add: offsets_from_nth [OF that])
    then have "unat (word_of_nat (offsets_from 0 ?cells ! i) :: 32 word) = offsets_from 0 ?cells ! i"
      "unat (word_of_nat (length (cell_bytes (?cells ! i))) :: 32 word) = length (cell_bytes (?cells ! i))"
      using total by (intro small_word; linarith)+
    with that le show ?thesis
      by (simp add: cell_valid_def item_at_def cell_fg_def cell_bg_def packed_color_small del: length_snapshot_cells)
  qed
  ultimately show ?thesis
    using assms
    by (simp add: update_ok_def packed_update_def Let_def arrays_valid_def snapshot_ok_def list_all_iff packed_color_small
        GHOSTTY_RENDER_UPDATE_VERSION_def update_rows_def nat_mult_distrib del: offsets_from.simps)
qed


text \<open>
  C34: building packs exactly the snapshot's rows, all of them for a full update and the dirty ones in
  order otherwise, whatever the slot held before, and what it packs passes the validation on the
  other side.
\<close>

theorem tryBuild_packs:
  assumes "snd (tryBuild now s frameId generation full b) = Some lease"
    and "snapshot_ok s" "1 \<le> frameId" "safe_int frameId" "1 \<le> generation" "safe_int generation"
  shows "ul_update lease = packed_update s frameId generation full
     \<and> validateGhosttyRenderUpdate (raw_of (ul_update lease))"
proof -
  from assms(1) obtain slot where "find (\<lambda>s. \<not> sl_inFlight s) (rb_slots b) = Some slot"
    by (auto simp: tryBuild_def split: option.splits)
  from tryBuild_built [OF this, of s full now frameId generation] assms(1)
  have "ul_update lease = packed_update s frameId generation full" by auto
  with packed_update_ok [OF assms(2-6)] show ?thesis by (simp add: validate_raw_of)
qed

section \<open>Leases\<close>

definition builder_ok :: "render_builder \<Rightarrow> bool" where
  "builder_ok b \<longleftrightarrow> (\<forall>i < length (rb_slots b). sl_id (rb_slots b ! i) = i)
     \<and> (\<forall>u l. map_of (rb_owners b) u = Some l \<longrightarrow> u = (ul_slotId l, ul_leaseToken l) \<and> ul_slotId l < length (rb_slots b))"

text \<open>The operations on a builder; \<open>I\<close> are the slots whose updates are transferred.\<close>

inductive builder_step :: "nat set \<Rightarrow> render_builder \<Rightarrow> render_builder \<Rightarrow> bool" for I where
  build: "builder_step I b (fst (tryBuild now s frameId generation full b))"
| reclaim: "builder_step I b (fst (reclaim i t bs b))"
| release: "builder_step I b (release_update u b)"
| trim: "builder_step I b (fst (trimIdle lastActivityAt now b))"
| transfer: "i \<in> I \<Longrightarrow> i < length (rb_slots b) \<Longrightarrow> builder_step I b (transfer_slot i b)"

lemma find_slot:
  assumes "builder_ok b" "find (\<lambda>s. \<not> sl_inFlight s) (rb_slots b) = Some slot"
  shows "sl_id slot < length (rb_slots b) \<and> rb_slots b ! sl_id slot = slot \<and> \<not> sl_inFlight slot"
proof -
  from assms(2) obtain i where "i < length (rb_slots b)" "\<not> sl_inFlight (rb_slots b ! i)" "slot = rb_slots b ! i"
    by (auto simp: find_Some_iff)
  with assms(1) show ?thesis by (auto simp: builder_ok_def)
qed

text \<open>A slot that is in flight under a token stays as it is, or the lease has ended.\<close>

definition lease_kept :: "nat \<Rightarrow> render_builder \<Rightarrow> render_builder \<Rightarrow> bool" where
  "lease_kept i b b' \<longleftrightarrow> rb_slots b' ! i = rb_slots b ! i
     \<or> sl_leaseToken (rb_slots b ! i) < sl_leaseToken (rb_slots b' ! i)
     \<or> sl_leaseToken (rb_slots b' ! i) = sl_leaseToken (rb_slots b ! i) \<and> \<not> sl_inFlight (rb_slots b' ! i)"

lemma reclaim_slots:
  "builder_ok b \<Longrightarrow> builder_ok (fst (reclaim i t bs b)) \<and> length (rb_slots (fst (reclaim i t bs b))) = length (rb_slots b)
     \<and> (\<forall>j < length (rb_slots b). lease_kept j b (fst (reclaim i t bs b)))"
  by (auto simp: reclaim_def Let_def builder_ok_def lease_kept_def item_at_def nth_list_update)

lemma trim_slots:
  "snd (trimIdle a now b) \<Longrightarrow> in_flight b = 0" "\<not> snd (trimIdle a now b) \<Longrightarrow> fst (trimIdle a now b) = b"
  by (auto simp: trimIdle_def Let_def shouldReclaimIdleCapacity_def split: if_splits)

lemma trim_frame:
  "rb_slots (fst (trimIdle a now b)) = (if snd (trimIdle a now b) then map trimSlot (rb_slots b) else rb_slots b)"
  "rb_owners (fst (trimIdle a now b)) = rb_owners b"
  by (simp_all add: trimIdle_def Let_def)

lemma trimSlot_frame [simp]:
  "sl_id (trimSlot s) = sl_id s" "sl_inFlight (trimSlot s) = sl_inFlight s" "sl_leaseToken (trimSlot s) = sl_leaseToken s"
  by (simp_all add: trimSlot_def Let_def)

lemma in_flight_0: "in_flight b = 0 \<Longrightarrow> i < length (rb_slots b) \<Longrightarrow> \<not> sl_inFlight (rb_slots b ! i)"
  by (auto simp: in_flight_def filter_empty_conv)

lemma builder_step_keeps:
  assumes "builder_step I b b'" "builder_ok b"
  shows "builder_ok b' \<and> length (rb_slots b') = length (rb_slots b)
     \<and> (\<forall>j < length (rb_slots b). j \<notin> I \<longrightarrow> lease_kept j b b')
     \<and> (\<forall>j < length (rb_slots b). sl_leaseToken (rb_slots b ! j) \<le> sl_leaseToken (rb_slots b' ! j))"
  using assms
proof (induction rule: builder_step.cases)
  case (build b0 now s f g full)
  show ?case
  proof (cases "find (\<lambda>s. \<not> sl_inFlight s) (rb_slots b)")
    case None
    with build show ?thesis by (auto simp: tryBuild_def builder_ok_def lease_kept_def)
  next
    case (Some slot)
    from find_slot [OF assms(2) this] tryBuild_built [OF this, of s full now f g] obtain slot' l
      where "built_slot s full slot slot'" "rb_slots b' = (rb_slots b)[sl_id slot := slot']"
        "rb_owners b' = map_set (sl_id slot, sl_leaseToken slot + 1) l (rb_owners b)"
        "ul_slotId l = sl_id slot" "ul_leaseToken l = sl_leaseToken slot + 1"
        "sl_id slot < length (rb_slots b)" "rb_slots b ! sl_id slot = slot"
      using build by (metis update_lease.select_convs(1,2))
    with assms(2) show ?thesis
      by (auto simp: built_slot_def builder_ok_def lease_kept_def nth_list_update jsmap)
  qed
next
  case (reclaim b0 i t bs)
  with reclaim_slots [OF assms(2), of i t bs] show ?thesis
    by (auto simp: lease_kept_def reclaim_def Let_def nth_list_update item_at_def)
next
  case (release b0 u)
  show ?case
  proof (cases "map_of (rb_owners b) u")
    case (Some l)
    let ?b = "b\<lparr>rb_owners := map_delete u (rb_owners b)\<rparr>"
    have "builder_ok ?b" using assms(2) by (auto simp: builder_ok_def jsmap)
    from reclaim_slots [OF this, of "ul_slotId l" "ul_leaseToken l"] Some release show ?thesis
      by (auto simp: release_update_def lease_kept_def reclaim_def Let_def nth_list_update item_at_def)
  qed (use release assms(2) in \<open>auto simp: release_update_def lease_kept_def\<close>)
next
  case (trim b0 a now)
  then show ?case
    using assms(2) trim_slots [of a now b] in_flight_0 [of b]
    by (auto simp: builder_ok_def trim_frame lease_kept_def)
next
  case (transfer i b0)
  then show ?case
    using assms(2) by (auto simp: transfer_slot_def builder_ok_def lease_kept_def nth_list_update)
qed


lemma builder_run_keeps:
  assumes "(builder_step I)\<^sup>*\<^sup>* b b'" "builder_ok b"
  shows "builder_ok b' \<and> length (rb_slots b') = length (rb_slots b)
     \<and> (\<forall>j < length (rb_slots b). j \<notin> I \<longrightarrow> lease_kept j b b')
     \<and> (\<forall>j < length (rb_slots b). sl_leaseToken (rb_slots b ! j) \<le> sl_leaseToken (rb_slots b' ! j))"
  using assms
proof (induction rule: rtranclp_induct)
  case base
  then show ?case by (simp add: lease_kept_def)
next
  case (step c d)
  then have c: "builder_ok c" "length (rb_slots c) = length (rb_slots b)"
    "\<forall>j < length (rb_slots b). j \<notin> I \<longrightarrow> lease_kept j b c"
    "\<forall>j < length (rb_slots b). sl_leaseToken (rb_slots b ! j) \<le> sl_leaseToken (rb_slots c ! j)" by auto
  note d = builder_step_keeps [OF step.hyps(2) c(1)]
  have "lease_kept j b d" if "j < length (rb_slots b)" "j \<notin> I" for j
  proof (cases "rb_slots c ! j = rb_slots b ! j")
    case True
    moreover have "lease_kept j c d" using d c(2) that by auto
    ultimately show ?thesis by (simp add: lease_kept_def)
  next
    case False
    have "lease_kept j b c" "lease_kept j c d" using c d that by auto
    with False show ?thesis unfolding lease_kept_def by auto
  qed
  moreover have "sl_leaseToken (rb_slots b ! j) \<le> sl_leaseToken (rb_slots d ! j)" if "j < length (rb_slots b)" for j
    using c d that le_trans by (metis (no_types, lifting))
  ultimately show ?case using d c(2) by simp
qed


lemma new_builder_ok: "builder_ok (newRenderUpdateBuilder n)"
  by (simp add: newRenderUpdateBuilder_def Let_def builder_ok_def createBuilderSlot_def)

text \<open>
  an update on loan is not written to. Whatever is built, returned with whatever token, released
  or trimmed in the meantime, as long as the slot is in flight under the token of the lease its
  views show the contents they had when the update was built.
\<close>

theorem lease_contents_stable:
  assumes "(builder_step I)\<^sup>*\<^sup>* (newRenderUpdateBuilder n) b"
    and "tryBuild now s frameId generation full b = (b1, Some lease)"
    and "(builder_step J)\<^sup>*\<^sup>* b1 b2" "ul_slotId lease \<notin> J"
    and "sl_inFlight (rb_slots b2 ! ul_slotId lease)" "sl_leaseToken (rb_slots b2 ! ul_slotId lease) = ul_leaseToken lease"
  shows "view_update s frameId generation full (length (update_rows s full)) (length (update_rows s full) * gs_cols s)
      (length (concat (map cell_bytes (snapshot_cells s (update_rows s full))))) (rb_slots b2 ! ul_slotId lease) =
    ul_update lease"
proof -
  have ok: "builder_ok b" using builder_run_keeps [OF assms(1) new_builder_ok] by blast
  from assms(2) obtain slot where slot: "find (\<lambda>s. \<not> sl_inFlight s) (rb_slots b) = Some slot"
    by (auto simp: tryBuild_def split: option.splits)
  from tryBuild_built [OF slot, of s full now frameId generation] assms(2) obtain slot' where
    s': "built_slot s full slot slot'" "lease = \<lparr>ul_slotId = sl_id slot, ul_leaseToken = sl_leaseToken slot + 1,
       ul_update = packed_update s frameId generation full\<rparr>" "rb_slots b1 = (rb_slots b)[sl_id slot := slot']"
    by auto
  have in_range: "sl_id slot < length (rb_slots b1)" "rb_slots b1 ! sl_id slot = slot'"
    using find_slot [OF ok slot] s'(3) by simp_all
  have "builder_step {} b b1" using builder_step.build [of "{}" b now s frameId generation full] assms(2) by simp
  then have "builder_ok b1" using builder_step_keeps ok by blast
  from builder_run_keeps [OF assms(3) this] in_range(1) assms(4) s'(2)
  have "lease_kept (sl_id slot) b1 b2" by simp
  then have "rb_slots b2 ! sl_id slot = slot'"
    using assms(5,6) s'(1,2) in_range by (auto simp: lease_kept_def built_slot_def)
  with s'(1,2) show ?thesis by (simp add: built_slot_def)
qed

lemma trimSlot_bytes: "slotBytes (trimSlot s) = targetSlotBytes s"
  by (simp add: slotBytes_def trimSlot_def targetSlotBytes_def Let_def)

text \<open>
  idle storage is given back only when that pays: nothing is in flight, the terminal has been
  idle for half a minute and the capacity unchanged for a minute; afterwards at most a quarter is
  left and at least a megabyte is freed. Otherwise nothing changes.
\<close>

theorem trimIdle_pays:
  "if snd (trimIdle lastActivityAt now b)
   then in_flight b = 0 \<and> 30000 \<le> now - lastActivityAt \<and> 60000 \<le> now - rb_lastCapacityChangeAt b
     \<and> 4 * total_bytes slotBytes (fst (trimIdle lastActivityAt now b)) \<le> total_bytes slotBytes b
     \<and> total_bytes slotBytes (fst (trimIdle lastActivityAt now b)) + 1048576 \<le> total_bytes slotBytes b
   else fst (trimIdle lastActivityAt now b) = b"
proof (cases "snd (trimIdle lastActivityAt now b)")
  case True
  have "map slotBytes (rb_slots (fst (trimIdle lastActivityAt now b))) = map targetSlotBytes (rb_slots b)"
    using True by (simp add: trim_frame trimSlot_bytes)
  then have after: "total_bytes slotBytes (fst (trimIdle lastActivityAt now b)) = total_bytes targetSlotBytes b"
    by (simp add: total_bytes_def)
  from True have "shouldReclaimIdleCapacity
      \<lparr>ii_now = now, ii_allocatedBytes = total_bytes slotBytes b, ii_targetBytes = total_bytes targetSlotBytes b,
       ii_inFlight = in_flight b, ii_queued = 0, ii_lastActivityAt = lastActivityAt,
       ii_lastResizeAt = rb_lastCapacityChangeAt b\<rparr> IDLE_RECLAIM_POLICY"
    by (simp add: trimIdle_def Let_def split: if_splits)
  with True after show ?thesis
    by (simp add: shouldReclaimIdleCapacity_def IDLE_RECLAIM_POLICY_def not_less not_le split: if_splits)
qed (use trim_slots in simp)

section \<open>Released storage\<close>

lemma word_bytes_16: "(ucast (ucast w :: 8 word) :: 16 word) OR push_bit 8 (ucast (ucast (drop_bit 8 w) :: 8 word)) = w"
  by (rule bit_word_eqI; simp only: bit_simps o_apply; auto)

lemma word_bytes_32:
  "(ucast (ucast w :: 8 word) :: 32 word) OR push_bit 8 (ucast (ucast (drop_bit 8 w) :: 8 word))
     OR push_bit 16 (ucast (ucast (drop_bit 16 w) :: 8 word)) OR push_bit 24 (ucast (ucast (drop_bit 24 w) :: 8 word)) = w"
proof (rule bit_word_eqI)
  fix n assume "n < LENGTH(32)"
  then have "n < 32" by simp
  then consider "n < 8" | "8 \<le> n" "n < 16" | "16 \<le> n" "n < 24" | "24 \<le> n" by linarith
  then consider "n < 8" | m where "n = 8 + m" "m < 8" | m where "n = 16 + m" "m < 8" | m where "n = 24 + m" "m < 8"
  proof cases
    case 2
    then obtain m where "n = 8 + m" using le_Suc_ex by blast
    with 2 that(2) show ?thesis by simp
  next
    case 3
    then obtain m where "n = 16 + m" using le_Suc_ex by blast
    with 3 that(3) show ?thesis by simp
  next
    case 4
    then obtain m where "n = 24 + m" using le_Suc_ex by blast
    with \<open>n < 32\<close> that(4) show ?thesis by simp
  qed (use that(1) in blast)
  then show "bit ((ucast (ucast w :: 8 word) :: 32 word) OR push_bit 8 (ucast (ucast (drop_bit 8 w) :: 8 word))
     OR push_bit 16 (ucast (ucast (drop_bit 16 w) :: 8 word)) OR push_bit 24 (ucast (ucast (drop_bit 24 w) :: 8 word))) n
     = bit w n"
    by cases (simp only: bit_simps o_apply; auto)+
qed

lemma view_bytes: "view_16 (bytes_16 ws) = ws" "view_32 (bytes_32 vs) = vs"
proof -
  show "view_16 (bytes_16 ws) = ws" by (induction ws) (simp_all add: bytes_16_def word_bytes_16)
  show "view_32 (bytes_32 vs) = vs" by (induction vs) (simp_all add: bytes_32_def word_bytes_32 [simplified or.assoc] or.assoc)
qed

lemma release_frees:
  assumes "map_of (rb_owners b) u = Some lease" "ul_slotId lease < length (rb_slots b)"
    "sl_inFlight (rb_slots b ! ul_slotId lease)" "sl_leaseToken (rb_slots b ! ul_slotId lease) = ul_leaseToken lease"
    "attached (rb_slots b ! ul_slotId lease)"
  shows "rb_slots (release_update u b) = (rb_slots b)[ul_slotId lease := (rb_slots b ! ul_slotId lease)\<lparr>sl_inFlight := False\<rparr>]"
proof -
  let ?s = "rb_slots b ! ul_slotId lease"
  have len: "length (bytes_32 ws) = 4 * length ws" "length (bytes_16 vs) = 2 * length vs" for ws vs
    by (induction ws; simp add: bytes_32_def) (induction vs; simp add: bytes_16_def)
  have "validReturnedBuffers (ghosttyRenderUpdateBuffers ?s)"
    using assms(5) by (simp add: validReturnedBuffers_def buffer_lengths_def ghosttyRenderUpdateBuffers_def len attached_def)
  with assms show ?thesis
    by (simp add: release_update_def reclaim_def Let_def item_at_def ghosttyRenderUpdateBuffers_def view_bytes)
qed


section \<open>Examples\<close>

definition one_cell_snapshot :: ghostty_snapshot where
  "one_cell_snapshot = \<lparr>gs_cols = 1, gs_rows = 1, gs_foreground = \<lparr>cr = 1, cg = 2, cb = 3\<rparr>,
     gs_background = \<lparr>cr = 1, cg = 2, cb = 3\<rparr>, gs_cursor = \<lparr>cr = 1, cg = 2, cb = 3\<rparr>, gs_cursorX = 0, gs_cursorY = 0,
     gs_cursorVisible = True, gs_cursorBlinking = False, gs_cursorStyle = 0, gs_dirtyRows = [], gs_rowData = []\<rparr>"

lemma one_cell_snapshot_ok: "snapshot_ok one_cell_snapshot"
  by (simp add: snapshot_ok_def one_cell_snapshot_def safe_int_def max_safe_def snapshot_cells_def cell_at_def item_at_def
      upt_rec text_of_def)

lemma one_cell_build:
  "\<exists>b lease. tryBuild 0 one_cell_snapshot 1 1 True (newRenderUpdateBuilder 1) = (b, Some lease)
     \<and> lease = \<lparr>ul_slotId = 0, ul_leaseToken = 1, ul_update = packed_update one_cell_snapshot 1 1 True\<rparr>
     \<and> sl_inFlight (rb_slots b ! 0) \<and> sl_leaseToken (rb_slots b ! 0) = 1"
proof -
  let ?b = "newRenderUpdateBuilder 1"
  have slots: "rb_slots ?b = [createBuilderSlot 0]" by (simp add: newRenderUpdateBuilder_def Let_def)
  then have "find (\<lambda>s. \<not> sl_inFlight s) (rb_slots ?b) = Some (createBuilderSlot 0)" by (simp add: createBuilderSlot_def)
  from tryBuild_built [OF this, of one_cell_snapshot True 0 1 1] slots show ?thesis
    by (cases "tryBuild 0 one_cell_snapshot 1 1 True ?b") (auto simp: built_slot_def createBuilderSlot_def)
qed

lemma tryBuild_packs_witness:
  "validateGhosttyRenderUpdate (raw_of (packed_update one_cell_snapshot 1 1 True))"
proof -
  obtain b lease where b: "tryBuild 0 one_cell_snapshot 1 1 True (newRenderUpdateBuilder 1) = (b, Some lease)"
    "lease = \<lparr>ul_slotId = 0, ul_leaseToken = 1, ul_update = packed_update one_cell_snapshot 1 1 True\<rparr>"
    using one_cell_build by blast
  then have "snd (tryBuild 0 one_cell_snapshot 1 1 True (newRenderUpdateBuilder 1)) = Some lease" by simp
  from tryBuild_packs [OF this one_cell_snapshot_ok] b(2) show ?thesis by (simp add: safe_int_def max_safe_def)
qed

lemma lease_contents_stable_witness:
  "\<exists>b :: render_builder. view_update one_cell_snapshot 1 1 True 1 1 0 (rb_slots b ! 0) = packed_update one_cell_snapshot 1 1 True"
proof -
  obtain b lease where b: "tryBuild 0 one_cell_snapshot 1 1 True (newRenderUpdateBuilder 1) = (b, Some lease)"
    "lease = \<lparr>ul_slotId = 0, ul_leaseToken = 1, ul_update = packed_update one_cell_snapshot 1 1 True\<rparr>"
    "sl_inFlight (rb_slots b ! 0)" "sl_leaseToken (rb_slots b ! 0) = 1"
    using one_cell_build by blast
  have units: "length (concat (map cell_bytes (snapshot_cells one_cell_snapshot (update_rows one_cell_snapshot True)))) = 0"
    using all_bytes_length [of "snapshot_cells one_cell_snapshot (update_rows one_cell_snapshot True)"]
    by (simp add: one_cell_snapshot_def update_rows_def cell_at_def item_at_def upt_rec text_of_def cell_bytes_def utf8_encode_def)
  have sizes: "length (update_rows one_cell_snapshot True) = 1" "gs_cols one_cell_snapshot = 1"
    by (simp_all add: one_cell_snapshot_def update_rows_def)
  show ?thesis
    using lease_contents_stable [OF rtranclp.rtrancl_refl b(1) rtranclp.rtrancl_refl, of "{}", unfolded units sizes] b(2-4)
    by (intro exI [of _ b]) simp
qed

end
