(* ===== verification/Viewport_Model.thy ===== *)
theory Viewport_Model
  imports Render_Update
begin

text \<open>
  The packed viewport the main thread keeps of a terminal,
  \<^verbatim>\<open>packages/ghostty-core/src/viewport-model.ts\<close>: applying updates row by row, decoding text on demand
  into a cache, and rebuilding rows of cells for callers that want them.

  \<^item> A typed array is the list of its elements; \<open>set\<close> beyond its end throws a range error, a single
    store beyond it does nothing.
  \<^item> Rows and columns given by callers are integers.
\<close>

section \<open>State\<close>

record viewport_model =
  vm_frameId :: int
  vm_generation :: int
  vm_cols :: nat
  vm_rows :: nat
  vm_foregroundPacked :: int
  vm_backgroundPacked :: int
  vm_cursorPacked :: int
  vm_cursorX :: int
  vm_cursorY :: int
  vm_cursorVisible :: bool
  vm_cursorBlinking :: bool
  vm_cursorStyle :: int
  vm_styles :: "16 word list"
  vm_foregrounds :: "32 word list"
  vm_backgrounds :: "32 word list"
  vm_graphemeOffsets :: "32 word list"
  vm_graphemeLengths :: "32 word list"
  vm_rowFlags :: bytes
  vm_rowVersions :: "32 word list"
  vm_rowGraphemes :: "bytes list"
  vm_decodedRows :: "utf16 option list option list"
  vm_compatibilityRows :: "ghostty_row option list"
  vm_compatibilityVersions :: "32 word list"
  vm_dirtyRows :: "nat list"
  vm_compatibilitySnapshotBuilds :: nat
  vm_decodedGraphemes :: nat

definition newViewport :: viewport_model where
  "newViewport = \<lparr>vm_frameId = 0, vm_generation = 0, vm_cols = 0, vm_rows = 0, vm_foregroundPacked = 0xe5e7eb,
     vm_backgroundPacked = 0, vm_cursorPacked = 0xe5e7eb, vm_cursorX = - 1, vm_cursorY = - 1, vm_cursorVisible = False,
     vm_cursorBlinking = False, vm_cursorStyle = 0, vm_styles = [], vm_foregrounds = [], vm_backgrounds = [],
     vm_graphemeOffsets = [], vm_graphemeLengths = [], vm_rowFlags = [], vm_rowVersions = [], vm_rowGraphemes = [],
     vm_decodedRows = [], vm_compatibilityRows = [], vm_compatibilityVersions = [], vm_dirtyRows = [],
     vm_compatibilitySnapshotBuilds = 0, vm_decodedGraphemes = 0\<rparr>"

section \<open>Reading cells\<close>

definition int_at :: "'a list \<Rightarrow> int \<Rightarrow> 'a option" where
  "int_at xs i = (if i < 0 then None else item_at xs (nat i))"

definition styleAt :: "viewport_model \<Rightarrow> int \<Rightarrow> int \<Rightarrow> 16 word" where
  "styleAt m row column = (case int_at (vm_styles m) (row * int (vm_cols m) + column) of Some w \<Rightarrow> w | None \<Rightarrow> 0)"

definition foregroundAt :: "viewport_model \<Rightarrow> int \<Rightarrow> int \<Rightarrow> int" where
  "foregroundAt m row column =
     (case int_at (vm_foregrounds m) (row * int (vm_cols m) + column) of Some w \<Rightarrow> uint w | None \<Rightarrow> vm_foregroundPacked m)"

definition backgroundAt :: "viewport_model \<Rightarrow> int \<Rightarrow> int \<Rightarrow> int" where
  "backgroundAt m row column =
     (case int_at (vm_backgrounds m) (row * int (vm_cols m) + column) of Some w \<Rightarrow> uint w | None \<Rightarrow> vm_backgroundPacked m)"

definition unpack_number :: "int \<Rightarrow> ghostty_color" where
  "unpack_number n = unpackGhosttyColor (word_of_int n)"

definition subarray :: "nat \<Rightarrow> nat \<Rightarrow> 'a list \<Rightarrow> 'a list" where
  "subarray a b xs = take (b - a) (drop a xs)"

definition or_empty :: "'a list option \<Rightarrow> 'a list" where
  "or_empty x = (case x of Some xs \<Rightarrow> xs | None \<Rightarrow> [])"

definition or_zero_word :: "'a :: len word option \<Rightarrow> nat" where
  "or_zero_word x = (case x of Some w \<Rightarrow> unat w | None \<Rightarrow> 0)"

text \<open>\<open>textAt\<close> fills the cache of its row.\<close>

definition decode_cell :: "viewport_model \<Rightarrow> nat \<Rightarrow> nat \<Rightarrow> utf16" where
  "decode_cell m row column =
     (let index = row * vm_cols m + column;
          off = or_zero_word (item_at (vm_graphemeOffsets m) index);
          len = or_zero_word (item_at (vm_graphemeLengths m) index);
          bytes = or_empty (item_at (vm_rowGraphemes m) row)
      in if len = 0 then [] else utf8_decode (subarray off (off + len) bytes))"

definition textAt :: "int \<Rightarrow> int \<Rightarrow> viewport_model \<Rightarrow> viewport_model \<times> utf16" where
  "textAt row column m =
     (if row < 0 \<or> row \<ge> int (vm_rows m) \<or> column < 0 \<or> column \<ge> int (vm_cols m) then (m, [])
      else let r = nat row; c = nat column;
               cache = (case item_at (vm_decodedRows m) r of Some (Some cache) \<Rightarrow> cache | _ \<Rightarrow> replicate (vm_cols m) None);
               m1 = m\<lparr>vm_decodedRows := (vm_decodedRows m)[r := Some cache]\<rparr>
           in case item_at cache c of
                Some (Some t) \<Rightarrow> (m1, t)
              | _ \<Rightarrow> let t = decode_cell m r c
                     in (m1\<lparr>vm_decodedRows := (vm_decodedRows m1)[r := Some (cache[c := Some t])],
                            vm_decodedGraphemes := vm_decodedGraphemes m1 + 1\<rparr>, t))"

text \<open>White space and line terminators of \<open>trimEnd\<close>.\<close>

definition js_space :: "16 word \<Rightarrow> bool" where
  "js_space u \<longleftrightarrow> unat u \<in> {9, 10, 11, 12, 13, 32, 0xA0, 0x1680, 0x2028, 0x2029, 0x202F, 0x205F, 0x3000, 0xFEFF}
     \<or> 0x2000 \<le> unat u \<and> unat u \<le> 0x200A"

definition trimEnd :: "utf16 \<Rightarrow> utf16" where
  "trimEnd t = rev (dropWhile js_space (rev t))"

definition or_space :: "utf16 \<Rightarrow> utf16" where
  "or_space t = (if t = [] then [32] else t)"

fun row_loop :: "int \<Rightarrow> nat list \<Rightarrow> viewport_model \<Rightarrow> viewport_model \<times> utf16" where
  "row_loop row [] m = (m, [])"
| "row_loop row (column # columns) m =
     (let (m1, t) = textAt row (int column) m; (m2, rest) = row_loop row columns m1 in (m2, or_space t @ rest))"

definition rowText :: "int \<Rightarrow> bool \<Rightarrow> viewport_model \<Rightarrow> viewport_model \<times> utf16" where
  "rowText row trimRight m =
     (if row < 0 \<or> row \<ge> int (vm_rows m) then (m, [])
      else let (m1, value) = row_loop row [0..<vm_cols m] m in (m1, if trimRight then trimEnd value else value))"

section \<open>Applying an update\<close>

definition allocate :: "nat \<Rightarrow> nat \<Rightarrow> viewport_model \<Rightarrow> viewport_model" where
  "allocate cols rows m =
     (let cells = cols * rows in
      m\<lparr>vm_cols := cols, vm_rows := rows, vm_styles := replicate cells 0, vm_foregrounds := replicate cells 0,
        vm_backgrounds := replicate cells 0, vm_graphemeOffsets := replicate cells 0,
        vm_graphemeLengths := replicate cells 0, vm_rowFlags := replicate rows 0, vm_rowVersions := replicate rows 0,
        vm_rowGraphemes := replicate rows [], vm_decodedRows := replicate rows None,
        vm_compatibilityRows := replicate rows None, vm_compatibilityVersions := replicate rows 0\<rparr>)"

datatype apply_outcome = Applied viewport_model | Refused viewport_model | RangeError

definition set_range :: "'a list \<Rightarrow> nat \<Rightarrow> 'a list \<Rightarrow> 'a list option" where
  "set_range xs i ys = (if i + length ys \<le> length xs then Some (write_at i ys xs) else None)"

text \<open>The length of the text of a row, \<open>None\<close> when a cell's text is not within the payload.\<close>

fun row_byte_length :: "render_update \<Rightarrow> nat \<Rightarrow> nat list \<Rightarrow> nat \<Rightarrow> nat option" where
  "row_byte_length u packedStart [] byteLength = Some byteLength"
| "row_byte_length u packedStart (column # columns) byteLength =
     (let off = or_zero_word (item_at (ru_graphemeOffsets u) (packedStart + column));
          len = or_zero_word (item_at (ru_graphemeLengths u) (packedStart + column))
      in if off + len > length (ru_graphemes u) then None
         else row_byte_length u packedStart columns (byteLength + len))"

fun copy_row ::
    "render_update \<Rightarrow> nat \<Rightarrow> nat \<Rightarrow> nat list \<Rightarrow> bytes \<times> nat \<times> 32 word list \<times> 32 word list \<Rightarrow>
     (bytes \<times> nat \<times> 32 word list \<times> 32 word list) option" where
  "copy_row u packedStart targetStart [] st = Some st"
| "copy_row u packedStart targetStart (column # columns) (rowBytes, targetOffset, offsets, lengths) =
     (let off = or_zero_word (item_at (ru_graphemeOffsets u) (packedStart + column));
          len = or_zero_word (item_at (ru_graphemeLengths u) (packedStart + column))
      in case set_range rowBytes targetOffset (subarray off (off + len) (ru_graphemes u)) of
           None \<Rightarrow> None
         | Some bytes \<Rightarrow>
             copy_row u packedStart targetStart columns
               (bytes, targetOffset + len, offsets[targetStart + column := word_of_nat targetOffset],
                lengths[targetStart + column := word_of_nat len]))"

definition apply_row :: "render_update \<Rightarrow> nat \<Rightarrow> viewport_model \<Rightarrow> apply_outcome" where
  "apply_row u includedRow m =
     (case item_at (ru_dirtyRows u) includedRow of
        None \<Rightarrow> Refused m
      | Some w \<Rightarrow>
          let row = unat w; cols = nat (ru_cols u);
              packedStart = includedRow * cols; packedEnd = packedStart + cols; targetStart = row * cols
          in if row \<ge> vm_rows m then Refused m
             else (case (set_range (vm_styles m) targetStart (subarray packedStart packedEnd (ru_styles u)),
                        set_range (vm_foregrounds m) targetStart (subarray packedStart packedEnd (ru_foregrounds u)),
                        set_range (vm_backgrounds m) targetStart (subarray packedStart packedEnd (ru_backgrounds u))) of
               (Some styles, Some foregrounds, Some backgrounds) \<Rightarrow>
                 let m1 = m\<lparr>vm_styles := styles, vm_foregrounds := foregrounds, vm_backgrounds := backgrounds\<rparr>
                 in (case row_byte_length u packedStart [0..<cols] 0 of
                       None \<Rightarrow> Refused m1
                     | Some byteLength \<Rightarrow>
                         (case copy_row u packedStart targetStart [0..<cols]
                                 (replicate byteLength 0, 0, vm_graphemeOffsets m1, vm_graphemeLengths m1) of
                            None \<Rightarrow> RangeError
                          | Some (rowBytes, targetOffset, offsets, lengths) \<Rightarrow>
                              Applied (m1\<lparr>vm_graphemeOffsets := offsets, vm_graphemeLengths := lengths,
                                vm_rowGraphemes := (vm_rowGraphemes m1)[row := rowBytes],
                                vm_rowFlags := (vm_rowFlags m1)[row :=
                                  (case item_at (ru_rowFlags u) includedRow of Some f \<Rightarrow> f | None \<Rightarrow> 0)],
                                vm_rowVersions := (vm_rowVersions m1)[row :=
                                  (case item_at (vm_rowVersions m1) row of Some v \<Rightarrow> v | None \<Rightarrow> 0) + 1],
                                vm_decodedRows := (vm_decodedRows m1)[row := None],
                                vm_compatibilityRows := (vm_compatibilityRows m1)[row := None]\<rparr>)))
             | _ \<Rightarrow> RangeError))"

fun apply_rows :: "render_update \<Rightarrow> nat list \<Rightarrow> viewport_model \<Rightarrow> apply_outcome" where
  "apply_rows u [] m = Applied m"
| "apply_rows u (includedRow # rest) m =
     (case apply_row u includedRow m of Applied m1 \<Rightarrow> apply_rows u rest m1 | r \<Rightarrow> r)"

definition take_header :: "render_update \<Rightarrow> viewport_model \<Rightarrow> viewport_model" where
  "take_header u m =
     m\<lparr>vm_frameId := ru_frameId u, vm_generation := ru_generation u, vm_foregroundPacked := ru_foreground u,
       vm_backgroundPacked := ru_background u, vm_cursorPacked := ru_cursor u, vm_cursorX := ru_cursorX u,
       vm_cursorY := ru_cursorY u, vm_cursorVisible := ru_cursorVisible u, vm_cursorBlinking := ru_cursorBlinking u,
       vm_cursorStyle := ru_cursorStyle u\<rparr>"

definition apply_update :: "render_update \<Rightarrow> viewport_model \<Rightarrow> apply_outcome" where
  "apply_update u m =
     (if \<not> validateGhosttyRenderUpdate (raw_of u) then Refused m
      else if ru_generation u < vm_generation m then Refused m
      else if ru_generation u = vm_generation m \<and> ru_frameId u \<le> vm_frameId m then Refused m
      else if ru_generation u > vm_generation m \<and> \<not> ru_full u then Refused m
      else let dimensionsChanged = (ru_cols u \<noteq> int (vm_cols m) \<or> ru_rows u \<noteq> int (vm_rows m))
           in if (ru_full u \<or> dimensionsChanged) \<and> \<not> ru_full u then Refused m
              else let m1 = (if ru_full u \<or> dimensionsChanged then allocate (nat (ru_cols u)) (nat (ru_rows u)) m else m)
                   in case apply_rows u [0..<length (ru_dirtyRows u)] (take_header u m1) of
                        Applied m2 \<Rightarrow> Applied (m2\<lparr>vm_dirtyRows := map unat (ru_dirtyRows u)\<rparr>)
                      | r \<Rightarrow> r)"

section \<open>Snapshots\<close>

definition cell_of_style :: "16 word \<Rightarrow> utf16 \<Rightarrow> ghostty_color \<Rightarrow> ghostty_color \<Rightarrow> ghostty_cell" where
  "cell_of_style w t fg bg =
     (let style = ucast w :: 32 word in
      \<lparr>cell_text = t, cell_wide = uint (style AND widthMask), cell_foreground = fg, cell_background = bg,
       cell_bold = (style AND style_bold \<noteq> 0), cell_italic = (style AND style_italic \<noteq> 0),
       cell_invisible = (style AND style_invisible \<noteq> 0), cell_strikethrough = (style AND style_strikethrough \<noteq> 0),
       cell_overline = (style AND style_overline \<noteq> 0),
       cell_underline = uint (drop_bit underlineShift (style AND underlineMask)),
       cell_selected = (style AND style_selected \<noteq> 0)\<rparr>)"

fun cells_loop :: "int \<Rightarrow> nat list \<Rightarrow> viewport_model \<Rightarrow> viewport_model \<times> ghostty_cell list" where
  "cells_loop row [] m = (m, [])"
| "cells_loop row (column # columns) m =
     (let (m1, t) = textAt row (int column) m;
          cell = cell_of_style (styleAt m1 row (int column)) t (unpack_number (foregroundAt m1 row (int column)))
                   (unpack_number (backgroundAt m1 row (int column)));
          (m2, cells) = cells_loop row columns m1
      in (m2, cell # cells))"

definition rebuild_row :: "nat \<Rightarrow> 32 word \<Rightarrow> viewport_model \<Rightarrow> viewport_model \<times> ghostty_row" where
  "rebuild_row row version m =
     (let (m1, cells) = cells_loop (int row) [0..<vm_cols m] m;
          flags = (case item_at (vm_rowFlags m1) row of Some f \<Rightarrow> ucast f | None \<Rightarrow> (0 :: 32 word));
          (m2, t) = rowText (int row) True m1;
          value = \<lparr>gr_cells = cells, gr_text = t, gr_isWrapContinuation = (flags AND wrapContinuation \<noteq> 0),
                   gr_wrapsToNext = (flags AND wrapsToNext \<noteq> 0)\<rparr>
      in (m2\<lparr>vm_compatibilityRows := (vm_compatibilityRows m2)[row := Some value],
             vm_compatibilityVersions := (vm_compatibilityVersions m2)[row := version]\<rparr>, value))"

definition materializeRow :: "nat \<Rightarrow> viewport_model \<Rightarrow> viewport_model \<times> ghostty_row" where
  "materializeRow row m =
     (let version = (case item_at (vm_rowVersions m) row of Some v \<Rightarrow> v | None \<Rightarrow> 0)
      in case item_at (vm_compatibilityRows m) row of
           Some (Some cached) \<Rightarrow>
             (if item_at (vm_compatibilityVersions m) row = Some version then (m, cached) else rebuild_row row version m)
         | _ \<Rightarrow> rebuild_row row version m)"

fun rows_loop :: "nat list \<Rightarrow> viewport_model \<Rightarrow> viewport_model \<times> ghostty_row list" where
  "rows_loop [] m = (m, [])"
| "rows_loop (row # rows) m =
     (let (m1, x) = materializeRow row m; (m2, xs) = rows_loop rows m1 in (m2, x # xs))"

definition viewport_snapshot :: "viewport_model \<Rightarrow> viewport_model \<times> ghostty_snapshot" where
  "viewport_snapshot m =
     (let (m1, rows) = rows_loop [0..<vm_rows m]
            (m\<lparr>vm_compatibilitySnapshotBuilds := vm_compatibilitySnapshotBuilds m + 1\<rparr>)
      in (m1, \<lparr>gs_cols = vm_cols m1, gs_rows = vm_rows m1, gs_foreground = unpack_number (vm_foregroundPacked m1),
               gs_background = unpack_number (vm_backgroundPacked m1), gs_cursor = unpack_number (vm_cursorPacked m1),
               gs_cursorX = vm_cursorX m1, gs_cursorY = vm_cursorY m1, gs_cursorVisible = vm_cursorVisible m1,
               gs_cursorBlinking = vm_cursorBlinking m1, gs_cursorStyle = vm_cursorStyle m1,
               gs_dirtyRows = vm_dirtyRows m1, gs_rowData = rows\<rparr>))"

definition spacerTail :: int where "spacerTail = 2"

fun buffer_row :: "int \<Rightarrow> nat list \<Rightarrow> viewport_model \<Rightarrow> viewport_model \<times> utf16" where
  "buffer_row row [] m = (m, [])"
| "buffer_row row (column # columns) m =
     (if uint ((ucast (styleAt m row (int column)) :: 32 word) AND widthMask) = spacerTail then buffer_row row columns m
      else let (m1, t) = textAt row (int column) m; (m2, rest) = buffer_row row columns m1
           in (m2, or_space t @ rest))"

fun buffer_rows :: "nat list \<Rightarrow> viewport_model \<Rightarrow> viewport_model \<times> utf16 list" where
  "buffer_rows [] m = (m, [])"
| "buffer_rows (row # rows) m =
     (let (m1, value) = buffer_row (int row) [0..<vm_cols m] m; (m2, rest) = buffer_rows rows m1
      in (m2, trimEnd value # rest))"

fun join_lines :: "utf16 list \<Rightarrow> utf16" where
  "join_lines [] = []"
| "join_lines [l] = l"
| "join_lines (l # ls) = l @ [10] @ join_lines ls"

definition bufferText :: "viewport_model \<Rightarrow> viewport_model \<times> utf16" where
  "bufferText m = apsnd join_lines (buffer_rows [0..<vm_rows m] m)"


section \<open>Applying is total and atomic\<close>

definition cell_seg :: "render_update \<Rightarrow> nat \<Rightarrow> bytes" where
  "cell_seg u i = subarray (unat (ru_graphemeOffsets u ! i)) (unat (ru_graphemeOffsets u ! i) + unat (ru_graphemeLengths u ! i))
     (ru_graphemes u)"

definition row_segs :: "render_update \<Rightarrow> nat \<Rightarrow> bytes list" where
  "row_segs u k = map (\<lambda>c. cell_seg u (k * nat (ru_cols u) + c)) [0..<nat (ru_cols u)]"

fun starts :: "nat \<Rightarrow> 'a list list \<Rightarrow> nat list" where
  "starts off [] = []"
| "starts off (x # xs) = off # starts (off + length x) xs"

lemma length_starts [simp]: "length (starts off xs) = length xs"
  by (induction xs arbitrary: off) auto

definition dirty_row :: "render_update \<Rightarrow> nat \<Rightarrow> nat" where
  "dirty_row u k = unat (ru_dirtyRows u ! k)"

definition put_row :: "render_update \<Rightarrow> nat \<Rightarrow> viewport_model \<Rightarrow> viewport_model" where
  "put_row u k m =
     (let row = dirty_row u k; cols = nat (ru_cols u); a = k * cols; b = a + cols; t = row * cols; segs = row_segs u k
      in m\<lparr>vm_styles := write_at t (subarray a b (ru_styles u)) (vm_styles m),
           vm_foregrounds := write_at t (subarray a b (ru_foregrounds u)) (vm_foregrounds m),
           vm_backgrounds := write_at t (subarray a b (ru_backgrounds u)) (vm_backgrounds m),
           vm_graphemeOffsets := write_at t (map word_of_nat (starts 0 segs)) (vm_graphemeOffsets m),
           vm_graphemeLengths := write_at t (map (\<lambda>s. word_of_nat (length s)) segs) (vm_graphemeLengths m),
           vm_rowGraphemes := (vm_rowGraphemes m)[row := concat segs],
           vm_rowFlags := (vm_rowFlags m)[row := ru_rowFlags u ! k],
           vm_rowVersions := (vm_rowVersions m)[row := vm_rowVersions m ! row + 1],
           vm_decodedRows := (vm_decodedRows m)[row := None],
           vm_compatibilityRows := (vm_compatibilityRows m)[row := None]\<rparr>)"

definition dims_ok :: "viewport_model \<Rightarrow> bool" where
  "dims_ok m \<longleftrightarrow>
     length (vm_styles m) = vm_cols m * vm_rows m \<and> length (vm_foregrounds m) = vm_cols m * vm_rows m
     \<and> length (vm_backgrounds m) = vm_cols m * vm_rows m \<and> length (vm_graphemeOffsets m) = vm_cols m * vm_rows m
     \<and> length (vm_graphemeLengths m) = vm_cols m * vm_rows m \<and> length (vm_rowFlags m) = vm_rows m
     \<and> length (vm_rowVersions m) = vm_rows m \<and> length (vm_rowGraphemes m) = vm_rows m
     \<and> length (vm_decodedRows m) = vm_rows m \<and> length (vm_compatibilityRows m) = vm_rows m
     \<and> length (vm_compatibilityVersions m) = vm_rows m"

lemma length_subarray [simp]: "b \<le> length xs \<Longrightarrow> length (subarray a b xs) = b - a"
  by (simp add: subarray_def)

lemma cell_valid_seg:
  assumes "cell_valid offsets lengths fgs bgs graphemes i"
  shows "i < length offsets" "i < length lengths" "unat (offsets ! i) + unat (lengths ! i) \<le> length graphemes"
  using assms by (auto simp: cell_valid_def item_at_def split: option.splits if_splits)

text \<open>The facts about a valid update that applying it needs.\<close>

lemma update_ok_parts:
  assumes "update_ok u"
  defines "n \<equiv> length (ru_dirtyRows u)" and "cols \<equiv> nat (ru_cols u)"
  shows "length (ru_rowFlags u) = n" "length (ru_graphemeOffsets u) = n * cols" "length (ru_graphemeLengths u) = n * cols"
    "length (ru_foregrounds u) = n * cols" "length (ru_backgrounds u) = n * cols" "length (ru_styles u) = n * cols"
    "ru_full u \<Longrightarrow> n = nat (ru_rows u)" "rows_ascending (ru_rows u) (- 1) (ru_dirtyRows u)"
    "\<And>i. i < n * cols \<Longrightarrow> unat (ru_graphemeOffsets u ! i) + unat (ru_graphemeLengths u ! i) \<le> length (ru_graphemes u)"
    "0 < cols" "cols \<le> 65535" "0 < nat (ru_rows u)" "nat (ru_rows u) \<le> 65535" "int cols = ru_cols u"
proof -
  have cols: "ru_cols u = int cols" "0 < cols" "cols \<le> 65535" using assms(1) by (simp_all add: update_ok_def cols_def nat_le_iff)
  then show "0 < cols" "cols \<le> 65535" "int cols = ru_cols u" by simp_all
  show "0 < nat (ru_rows u)" "nat (ru_rows u) \<le> 65535"
    using assms(1) by (simp_all add: update_ok_def nat_le_iff)
  have arrays: "arrays_valid (int cols) (ru_rows u) (ru_full u) (ru_dirtyRows u) (ru_rowFlags u) (ru_graphemeOffsets u)
      (ru_graphemeLengths u) (ru_foregrounds u) (ru_backgrounds u) (ru_styles u) (ru_graphemes u)"
    using assms(1) cols(1) by (simp add: update_ok_def)
  have eq: "int (length xs) = int n * int cols \<Longrightarrow> length xs = n * cols" for xs :: "'b list"
    by (metis of_nat_eq_iff of_nat_mult)
  from arrays show "length (ru_rowFlags u) = n" "length (ru_graphemeOffsets u) = n * cols" "length (ru_graphemeLengths u) = n * cols"
    "length (ru_foregrounds u) = n * cols" "length (ru_backgrounds u) = n * cols" "length (ru_styles u) = n * cols"
    "ru_full u \<Longrightarrow> n = nat (ru_rows u)" "rows_ascending (ru_rows u) (- 1) (ru_dirtyRows u)"
    by (auto simp: arrays_valid_def Let_def n_def [symmetric] intro!: eq split: if_splits)
  fix i assume "i < n * cols"
  then have "cell_valid (ru_graphemeOffsets u) (ru_graphemeLengths u) (ru_foregrounds u) (ru_backgrounds u) (ru_graphemes u) i"
    using arrays by (auto simp: arrays_valid_def Let_def n_def [symmetric] list_all_iff nat_mult_distrib split: if_splits)
  then show "unat (ru_graphemeOffsets u ! i) + unat (ru_graphemeLengths u ! i) \<le> length (ru_graphemes u)"
    by (rule cell_valid_seg(3))
qed

lemma rows_ascending_less: "rows_ascending rows prev ws \<Longrightarrow> \<forall>w \<in> set ws. prev < uint w \<and> uint w < rows"
proof (induction rows prev ws rule: rows_ascending.induct)
  case (2 rows prev w ws)
  then have w: "prev < uint w" "uint w < rows" and "\<forall>v \<in> set ws. uint w < uint v \<and> uint v < rows"
    by (simp_all split: if_splits)
  then have "\<forall>v \<in> set ws. prev < uint v \<and> uint v < rows" by auto
  with w show ?case by simp
qed simp

lemma rows_ascending_distinct: "rows_ascending rows prev ws \<Longrightarrow> distinct ws"
proof (induction rows prev ws rule: rows_ascending.induct)
  case (2 rows prev w ws)
  then have "rows_ascending rows (uint w) ws" by (simp split: if_splits)
  from 2 rows_ascending_less [OF this] show ?case by (auto split: if_splits)
qed simp

lemma dirty_row_less:
  assumes "update_ok u" "k < length (ru_dirtyRows u)"
  shows "dirty_row u k < nat (ru_rows u)"
proof -
  have "uint (ru_dirtyRows u ! k) < ru_rows u"
    using rows_ascending_less [OF update_ok_parts(8) [OF assms(1)]] assms(2) by simp
  then show ?thesis unfolding dirty_row_def unat_eq_nat_uint by (metis nat_less_eq_zless uint_ge_0)
qed


lemma row_byte_length_sum:
  assumes "\<forall>c \<in> set cs. p + c < length (ru_graphemeOffsets u) \<and> p + c < length (ru_graphemeLengths u)
     \<and> unat (ru_graphemeOffsets u ! (p + c)) + unat (ru_graphemeLengths u ! (p + c)) \<le> length (ru_graphemes u)"
  shows "row_byte_length u p cs n = Some (n + length (concat (map (\<lambda>c. cell_seg u (p + c)) cs)))"
  using assms
proof (induction cs arbitrary: n)
  case (Cons c cs)
  then show ?case by (simp add: item_at_def or_zero_word_def cell_seg_def not_less)
qed simp

lemma copy_row_fill:
  assumes "\<forall>i < n. p + i < length (ru_graphemeOffsets u) \<and> p + i < length (ru_graphemeLengths u)
     \<and> unat (ru_graphemeOffsets u ! (p + i)) + unat (ru_graphemeLengths u ! (p + i)) \<le> length (ru_graphemes u)"
    and "c \<le> n" "off + length (concat (map (\<lambda>c. cell_seg u (p + c)) [c..<n])) \<le> length bytes"
    "t + n \<le> length offsets" "t + n \<le> length lengths"
  shows "copy_row u p t [c..<n] (bytes, off, offsets, lengths) =
     Some (write_at off (concat (map (\<lambda>c. cell_seg u (p + c)) [c..<n])) bytes,
           off + length (concat (map (\<lambda>c. cell_seg u (p + c)) [c..<n])),
           write_at (t + c) (map word_of_nat (starts off (map (\<lambda>c. cell_seg u (p + c)) [c..<n]))) offsets,
           write_at (t + c) (map (\<lambda>c. word_of_nat (length (cell_seg u (p + c)))) [c..<n]) lengths)"
  using assms(2-5)
proof (induction "n - c" arbitrary: c bytes off offsets lengths)
  case 0
  then show ?case by simp
next
  case (Suc k)
  then have c: "c < n" "[c..<n] = c # [Suc c..<n]" by (simp_all add: upt_conv_Cons)
  let ?seg = "cell_seg u (p + c)"
  have pc: "p + c < length (ru_graphemeOffsets u)" "p + c < length (ru_graphemeLengths u)"
    "unat (ru_graphemeOffsets u ! (p + c)) + unat (ru_graphemeLengths u ! (p + c)) \<le> length (ru_graphemes u)"
    using assms(1) c(1) by auto
  then have len: "length ?seg = unat (ru_graphemeLengths u ! (p + c))" by (simp add: cell_seg_def)
  have step: "copy_row u p t [c..<n] (bytes, off, offsets, lengths) =
      copy_row u p t [Suc c..<n] (write_at off ?seg bytes, off + length ?seg,
        offsets[t + c := word_of_nat off], lengths[t + c := word_of_nat (length ?seg)])"
    using pc len Suc.prems(2) c
    by (simp add: item_at_def or_zero_word_def cell_seg_def [symmetric] set_range_def)
  have "copy_row u p t [Suc c..<n] (write_at off ?seg bytes, off + length ?seg,
        offsets[t + c := word_of_nat off], lengths[t + c := word_of_nat (length ?seg)]) =
     Some (write_at (off + length ?seg) (concat (map (\<lambda>c. cell_seg u (p + c)) [Suc c..<n])) (write_at off ?seg bytes),
           off + length ?seg + length (concat (map (\<lambda>c. cell_seg u (p + c)) [Suc c..<n])),
           write_at (t + Suc c) (map word_of_nat (starts (off + length ?seg) (map (\<lambda>c. cell_seg u (p + c)) [Suc c..<n])))
             (offsets[t + c := word_of_nat off]),
           write_at (t + Suc c) (map (\<lambda>c. word_of_nat (length (cell_seg u (p + c)))) [Suc c..<n])
             (lengths[t + c := word_of_nat (length ?seg)]))"
    by (rule Suc.hyps(1)) (use Suc.hyps(2) Suc.prems c in \<open>simp_all add: add.assoc\<close>)
  with step show ?case
    using Suc.prems c by (simp add: write_at_append write_at_Cons add.assoc)
qed

lemma segment_index: "k < n \<Longrightarrow> c < cols \<Longrightarrow> k * cols + c < n * (cols :: nat)"
  by (metis add.commute le_less_trans less_add_same_cancel1 less_le_not_le linorder_not_less mult.commute mult_le_mono1
      mult_Suc Suc_leI nat_add_left_cancel_less order_less_le_trans)

lemma range_in: "k < n \<Longrightarrow> k * cols + cols \<le> n * (cols :: nat)"
  by (metis Suc_leI add.commute mult_Suc mult_le_mono1)

lemma apply_row_put:
  assumes u: "update_ok u" and k: "k < length (ru_dirtyRows u)" and m: "dims_ok m"
    and d: "vm_cols m = nat (ru_cols u)" "vm_rows m = nat (ru_rows u)"
  shows "apply_row u k m = Applied (put_row u k m)"
proof -
  let ?cols = "nat (ru_cols u)"
  let ?row = "dirty_row u k"
  note p = update_ok_parts [OF u]
  have row: "?row < vm_rows m" using dirty_row_less [OF u k] d(2) by simp
  have fit: "k * ?cols + ?cols \<le> length (ru_dirtyRows u) * ?cols" "?row * ?cols + ?cols \<le> vm_cols m * vm_rows m"
    using range_in [OF k, of ?cols] range_in [OF row, of ?cols] d(1) by (simp_all add: mult.commute)
  have idx: "k * ?cols + c < length (ru_dirtyRows u) * ?cols" if "c < ?cols" for c using segment_index [OF k that] .
  have segs: "\<forall>c < ?cols. k * ?cols + c < length (ru_graphemeOffsets u) \<and> k * ?cols + c < length (ru_graphemeLengths u)
     \<and> unat (ru_graphemeOffsets u ! (k * ?cols + c)) + unat (ru_graphemeLengths u ! (k * ?cols + c)) \<le> length (ru_graphemes u)"
    using idx p(2,3,9) by simp
  have item: "item_at (ru_dirtyRows u) k = Some (ru_dirtyRows u ! k)" "unat (ru_dirtyRows u ! k) = ?row"
    using k by (simp_all add: item_at_def dirty_row_def)
  have lens: "row_byte_length u (k * ?cols) [0..<?cols] 0 = Some (length (concat (row_segs u k)))"
    using row_byte_length_sum [of "[0..<?cols]" "k * ?cols" u 0] segs by (simp add: row_segs_def)
  have copy: "copy_row u (k * ?cols) (?row * ?cols) [0..<?cols]
      (replicate (length (concat (row_segs u k))) 0, 0, vm_graphemeOffsets m, vm_graphemeLengths m) =
     Some (concat (row_segs u k), length (concat (row_segs u k)),
       write_at (?row * ?cols) (map word_of_nat (starts 0 (row_segs u k))) (vm_graphemeOffsets m),
       write_at (?row * ?cols) (map (\<lambda>s. word_of_nat (length s)) (row_segs u k)) (vm_graphemeLengths m))"
    using copy_row_fill [OF segs, of 0 0 "replicate (length (concat (row_segs u k))) 0" "?row * ?cols"
        "vm_graphemeOffsets m" "vm_graphemeLengths m"] m fit
    by (simp add: dims_ok_def row_segs_def comp_def write_at_def)
  have sets: "set_range (vm_styles m) (?row * ?cols) (subarray (k * ?cols) (k * ?cols + ?cols) (ru_styles u)) =
      Some (write_at (?row * ?cols) (subarray (k * ?cols) (k * ?cols + ?cols) (ru_styles u)) (vm_styles m))"
    "set_range (vm_foregrounds m) (?row * ?cols) (subarray (k * ?cols) (k * ?cols + ?cols) (ru_foregrounds u)) =
      Some (write_at (?row * ?cols) (subarray (k * ?cols) (k * ?cols + ?cols) (ru_foregrounds u)) (vm_foregrounds m))"
    "set_range (vm_backgrounds m) (?row * ?cols) (subarray (k * ?cols) (k * ?cols + ?cols) (ru_backgrounds u)) =
      Some (write_at (?row * ?cols) (subarray (k * ?cols) (k * ?cols + ?cols) (ru_backgrounds u)) (vm_backgrounds m))"
    using m fit p(4-6) by (simp_all add: set_range_def dims_ok_def)
  have flags: "item_at (ru_rowFlags u) k = Some (ru_rowFlags u ! k)" "item_at (vm_rowVersions m) ?row = Some (vm_rowVersions m ! ?row)"
    using k p(1) m row by (simp_all add: item_at_def dims_ok_def)
  have le: "\<not> ?row \<ge> vm_rows m" using row by simp
  show ?thesis
    unfolding apply_row_def item option.case Let_def sets prod.case if_not_P [OF le]
    by (simp add: lens copy flags put_row_def Let_def item)
qed


lemma put_row_frame [simp]:
  "vm_cols (put_row u k m) = vm_cols m" "vm_rows (put_row u k m) = vm_rows m"
  "vm_frameId (put_row u k m) = vm_frameId m" "vm_generation (put_row u k m) = vm_generation m"
  "vm_foregroundPacked (put_row u k m) = vm_foregroundPacked m" "vm_backgroundPacked (put_row u k m) = vm_backgroundPacked m"
  "vm_cursorPacked (put_row u k m) = vm_cursorPacked m" "vm_cursorX (put_row u k m) = vm_cursorX m"
  "vm_cursorY (put_row u k m) = vm_cursorY m" "vm_cursorVisible (put_row u k m) = vm_cursorVisible m"
  "vm_cursorBlinking (put_row u k m) = vm_cursorBlinking m" "vm_cursorStyle (put_row u k m) = vm_cursorStyle m"
  "vm_compatibilityVersions (put_row u k m) = vm_compatibilityVersions m"
  by (simp_all add: put_row_def Let_def)

lemma length_row_segs [simp]: "length (row_segs u k) = nat (ru_cols u)"
  by (simp add: row_segs_def)

lemma put_row_dims:
  assumes "update_ok u" "k < length (ru_dirtyRows u)" "dims_ok m" "vm_cols m = nat (ru_cols u)" "vm_rows m = nat (ru_rows u)"
  shows "dims_ok (put_row u k m)"
proof -
  let ?cols = "nat (ru_cols u)"
  have "k * ?cols + ?cols \<le> length (ru_dirtyRows u) * ?cols" by (rule range_in [OF assms(2)])
  moreover have "dirty_row u k * ?cols + ?cols \<le> ?cols * nat (ru_rows u)"
    using range_in [OF dirty_row_less [OF assms(1,2)], of ?cols] by (simp add: mult.commute)
  ultimately show ?thesis
    using assms(3-5) update_ok_parts(4-6) [OF assms(1)] by (simp add: dims_ok_def put_row_def Let_def)
qed

lemma apply_rows_put:
  assumes "update_ok u" "\<forall>k \<in> set ks. k < length (ru_dirtyRows u)" "dims_ok m"
    "vm_cols m = nat (ru_cols u)" "vm_rows m = nat (ru_rows u)"
  shows "apply_rows u ks m = Applied (fold (put_row u) ks m) \<and> dims_ok (fold (put_row u) ks m)"
  using assms(2-5)
proof (induction ks arbitrary: m)
  case (Cons k ks)
  then have "apply_row u k m = Applied (put_row u k m)" "dims_ok (put_row u k m)"
    using apply_row_put [OF assms(1)] put_row_dims [OF assms(1)] by simp_all
  with Cons show ?case by simp
qed simp

lemma fold_put_row_frame [simp]:
  "vm_cols (fold (put_row u) ks m) = vm_cols m" "vm_rows (fold (put_row u) ks m) = vm_rows m"
  "vm_frameId (fold (put_row u) ks m) = vm_frameId m" "vm_generation (fold (put_row u) ks m) = vm_generation m"
  "vm_foregroundPacked (fold (put_row u) ks m) = vm_foregroundPacked m"
  "vm_backgroundPacked (fold (put_row u) ks m) = vm_backgroundPacked m"
  "vm_cursorPacked (fold (put_row u) ks m) = vm_cursorPacked m" "vm_cursorX (fold (put_row u) ks m) = vm_cursorX m"
  "vm_cursorY (fold (put_row u) ks m) = vm_cursorY m" "vm_cursorVisible (fold (put_row u) ks m) = vm_cursorVisible m"
  "vm_cursorBlinking (fold (put_row u) ks m) = vm_cursorBlinking m" "vm_cursorStyle (fold (put_row u) ks m) = vm_cursorStyle m"
  by (induction ks arbitrary: m) simp_all

lemma take_header_frame [simp]:
  "dims_ok (take_header u m) = dims_ok m" "vm_cols (take_header u m) = vm_cols m" "vm_rows (take_header u m) = vm_rows m"
  by (simp_all add: take_header_def dims_ok_def)

lemma allocate_dims [simp]:
  "dims_ok (allocate cols rows m)" "vm_cols (allocate cols rows m) = cols" "vm_rows (allocate cols rows m) = rows"
  by (simp_all add: allocate_def Let_def dims_ok_def)

text \<open>Which updates are taken.\<close>

definition accepts :: "viewport_model \<Rightarrow> render_update \<Rightarrow> bool" where
  "accepts m u \<longleftrightarrow> update_ok u \<and>
     (if ru_full u then vm_generation m < ru_generation u \<or> (vm_generation m = ru_generation u \<and> vm_frameId m < ru_frameId u)
      else vm_generation m = ru_generation u \<and> vm_frameId m < ru_frameId u
        \<and> ru_cols u = int (vm_cols m) \<and> ru_rows u = int (vm_rows m))"

definition started :: "render_update \<Rightarrow> viewport_model \<Rightarrow> viewport_model" where
  "started u m = take_header u (if ru_full u then allocate (nat (ru_cols u)) (nat (ru_rows u)) m else m)"

definition updated :: "render_update \<Rightarrow> viewport_model \<Rightarrow> viewport_model" where
  "updated u m =
     (fold (put_row u) [0..<length (ru_dirtyRows u)] (started u m))\<lparr>vm_dirtyRows := map unat (ru_dirtyRows u)\<rparr>"

lemma dims_dirty [simp]: "dims_ok (m\<lparr>vm_dirtyRows := x\<rparr>) = dims_ok m"
  by (simp add: dims_ok_def)

lemma apply_update_total:
  assumes "dims_ok m"
  shows "apply_update u m = (if accepts m u then Applied (updated u m) else Refused m)"
    "accepts m u \<Longrightarrow> dims_ok (updated u m) \<and> vm_cols (updated u m) = nat (ru_cols u) \<and> vm_rows (updated u m) = nat (ru_rows u)
       \<and> vm_frameId (updated u m) = ru_frameId u \<and> vm_generation (updated u m) = ru_generation u"
proof -
  have started: "dims_ok (started u m)" "vm_cols (started u m) = nat (ru_cols u)" "vm_rows (started u m) = nat (ru_rows u)"
    if "accepts m u" using that assms by (auto simp: started_def accepts_def)
  have rows: "apply_rows u [0..<length (ru_dirtyRows u)] (started u m) =
      Applied (fold (put_row u) [0..<length (ru_dirtyRows u)] (started u m))
      \<and> dims_ok (fold (put_row u) [0..<length (ru_dirtyRows u)] (started u m))" if "accepts m u"
    using started [OF that] that by (intro apply_rows_put) (simp_all add: accepts_def)
  then show "apply_update u m = (if accepts m u then Applied (updated u m) else Refused m)"
    by (auto simp: apply_update_def accepts_def validate_raw_of started_def updated_def Let_def)
  show "dims_ok (updated u m) \<and> vm_cols (updated u m) = nat (ru_cols u) \<and> vm_rows (updated u m) = nat (ru_rows u)
       \<and> vm_frameId (updated u m) = ru_frameId u \<and> vm_generation (updated u m) = ru_generation u" if "accepts m u"
    using rows [OF that] started [OF that] by (simp add: updated_def) (simp add: started_def take_header_def)
qed


section \<open>What the viewport shows\<close>

definition plain_cell :: "viewport_model \<Rightarrow> nat \<Rightarrow> nat \<Rightarrow> ghostty_cell" where
  "plain_cell m r c = (let i = r * vm_cols m + c in
     cell_of_style (vm_styles m ! i) (decode_cell m r c) (unpackGhosttyColor (vm_foregrounds m ! i))
       (unpackGhosttyColor (vm_backgrounds m ! i)))"

definition row_text :: "utf16 list \<Rightarrow> utf16" where
  "row_text ts = trimEnd (concat (map or_space ts))"

definition plain_row :: "viewport_model \<Rightarrow> nat \<Rightarrow> ghostty_row" where
  "plain_row m r = (let flags = ucast (vm_rowFlags m ! r) :: 32 word in
     \<lparr>gr_cells = map (plain_cell m r) [0..<vm_cols m], gr_text = row_text (map (decode_cell m r) [0..<vm_cols m]),
      gr_isWrapContinuation = (flags AND wrapContinuation \<noteq> 0), gr_wrapsToNext = (flags AND wrapsToNext \<noteq> 0)\<rparr>)"

text \<open>Everything but the caches and counters.\<close>

definition same_screen :: "viewport_model \<Rightarrow> viewport_model \<Rightarrow> bool" where
  "same_screen m m' \<longleftrightarrow>
     vm_cols m' = vm_cols m \<and> vm_rows m' = vm_rows m \<and> vm_styles m' = vm_styles m \<and> vm_foregrounds m' = vm_foregrounds m
     \<and> vm_backgrounds m' = vm_backgrounds m \<and> vm_graphemeOffsets m' = vm_graphemeOffsets m
     \<and> vm_graphemeLengths m' = vm_graphemeLengths m \<and> vm_rowGraphemes m' = vm_rowGraphemes m \<and> vm_rowFlags m' = vm_rowFlags m
     \<and> vm_rowVersions m' = vm_rowVersions m \<and> vm_foregroundPacked m' = vm_foregroundPacked m
     \<and> vm_backgroundPacked m' = vm_backgroundPacked m \<and> vm_cursorPacked m' = vm_cursorPacked m \<and> vm_cursorX m' = vm_cursorX m
     \<and> vm_cursorY m' = vm_cursorY m \<and> vm_cursorVisible m' = vm_cursorVisible m \<and> vm_cursorBlinking m' = vm_cursorBlinking m
     \<and> vm_cursorStyle m' = vm_cursorStyle m \<and> vm_dirtyRows m' = vm_dirtyRows m \<and> vm_frameId m' = vm_frameId m
     \<and> vm_generation m' = vm_generation m"

lemma same_screen_refl [simp]: "same_screen m m"
  by (simp add: same_screen_def)

lemma same_screen_trans: "same_screen a b \<Longrightarrow> same_screen b c \<Longrightarrow> same_screen a c"
  by (simp add: same_screen_def)

lemma same_screen_views:
  assumes "same_screen m m'"
  shows "decode_cell m' r c = decode_cell m r c" "plain_cell m' r c = plain_cell m r c" "plain_row m' r = plain_row m r"
proof -
  have d: "decode_cell m' r c = decode_cell m r c" for c using assms by (simp add: same_screen_def decode_cell_def)
  show "decode_cell m' r c = decode_cell m r c" by (rule d)
  have c: "plain_cell m' r c = plain_cell m r c" for c
    using assms by (simp add: plain_cell_def d) (simp add: same_screen_def)
  show "plain_cell m' r c = plain_cell m r c" by (rule c)
  have "plain_cell m' r = plain_cell m r" "decode_cell m' r = decode_cell m r" using c d by blast+
  then show "plain_row m' r = plain_row m r" using assms by (simp add: plain_row_def same_screen_def)
qed

section \<open>The caches are never stale\<close>

definition caches_ok :: "viewport_model \<Rightarrow> bool" where
  "caches_ok m \<longleftrightarrow>
     (\<forall>r < vm_rows m. \<forall>cache. vm_decodedRows m ! r = Some cache \<longrightarrow> length cache = vm_cols m
        \<and> (\<forall>c < vm_cols m. \<forall>t. cache ! c = Some t \<longrightarrow> t = decode_cell m r c))
     \<and> (\<forall>r < vm_rows m. \<forall>x. vm_compatibilityRows m ! r = Some x \<longrightarrow> x = plain_row m r)"

definition viewport_ok :: "viewport_model \<Rightarrow> bool" where
  "viewport_ok m \<longleftrightarrow> dims_ok m \<and> caches_ok m"

lemma textAt_decodes:
  assumes "viewport_ok m" "r < vm_rows m" "c < vm_cols m"
  shows "snd (textAt (int r) (int c) m) = decode_cell m r c \<and> same_screen m (fst (textAt (int r) (int c) m))
     \<and> viewport_ok (fst (textAt (int r) (int c) m))"
proof -
  let ?cache = "case item_at (vm_decodedRows m) r of Some (Some cache) \<Rightarrow> cache | _ \<Rightarrow> replicate (vm_cols m) None"
  have r: "r < length (vm_decodedRows m)" using assms by (simp add: viewport_ok_def dims_ok_def)
  have cache: "length ?cache = vm_cols m" "\<And>c t. c < vm_cols m \<Longrightarrow> ?cache ! c = Some t \<Longrightarrow> t = decode_cell m r c"
    using assms r by (auto simp: viewport_ok_def caches_ok_def item_at_def split: option.splits)
  have set: "same_screen m m' \<and> viewport_ok m'"
    if "vm_decodedRows m' = (vm_decodedRows m)[r := Some cache']" "length cache' = vm_cols m"
      "\<And>c t. c < vm_cols m \<Longrightarrow> cache' ! c = Some t \<Longrightarrow> t = decode_cell m r c" "same_screen m m'"
      "vm_compatibilityRows m' = vm_compatibilityRows m" "vm_compatibilityVersions m' = vm_compatibilityVersions m" for m' cache'
  proof -
    have "dims_ok m'" using assms(1) that by (simp add: viewport_ok_def dims_ok_def same_screen_def)
    moreover have "vm_cols m' = vm_cols m" "vm_rows m' = vm_rows m" using that(4) by (simp_all add: same_screen_def)
    moreover have "caches_ok m'"
      using assms(1,2) r that(1-3,5) same_screen_views [OF that(4)] calculation(2,3)
      by (auto simp: viewport_ok_def caches_ok_def nth_list_update)
    ultimately show ?thesis using that(4) by (simp add: viewport_ok_def)
  qed
  show ?thesis
  proof (cases "item_at ?cache c")
    case None
    with cache(1) assms(3) show ?thesis by (simp add: item_at_def split: if_splits)
  next
    case (Some x)
    then have x: "?cache ! c = x" by (simp add: item_at_def split: if_splits)
    show ?thesis
    proof (cases x)
      case (Some t)
      then have "textAt (int r) (int c) m = (m\<lparr>vm_decodedRows := (vm_decodedRows m)[r := Some ?cache]\<rparr>, t)"
        using assms(2,3) \<open>item_at ?cache c = Some x\<close> by (simp add: textAt_def Let_def)
      moreover have "t = decode_cell m r c" using cache(2) assms(3) x Some by simp
      ultimately show ?thesis using set [of "m\<lparr>vm_decodedRows := (vm_decodedRows m)[r := Some ?cache]\<rparr>" ?cache] cache
        by (simp add: same_screen_def)
    next
      case None
      let ?cache' = "?cache[c := Some (decode_cell m r c)]"
      let ?m' = "m\<lparr>vm_decodedRows := (vm_decodedRows m)[r := Some ?cache'], vm_decodedGraphemes := vm_decodedGraphemes m + 1\<rparr>"
      have "textAt (int r) (int c) m = (?m', decode_cell m r c)"
        using assms(2,3) \<open>item_at ?cache c = Some x\<close> None by (simp add: textAt_def Let_def)
      moreover have "t = decode_cell m r j" if "j < vm_cols m" "?cache' ! j = Some t" for j t
      proof (cases "j = c")
        case True
        with that cache(1) show ?thesis by simp
      next
        case False
        with that(2) have "?cache ! j = Some t" by simp
        with cache(2) that(1) show ?thesis by simp
      qed
      ultimately show ?thesis using set [of ?m' ?cache'] cache(1)
        by (simp add: same_screen_def)
    qed
  qed
qed


lemma screen_dims: "same_screen m m' \<Longrightarrow> vm_cols m' = vm_cols m" "same_screen m m' \<Longrightarrow> vm_rows m' = vm_rows m"
  by (simp_all add: same_screen_def)

lemma row_loop_decodes:
  "viewport_ok m \<Longrightarrow> r < vm_rows m \<Longrightarrow> \<forall>c \<in> set cs. c < vm_cols m \<Longrightarrow>
     snd (row_loop (int r) cs m) = concat (map (\<lambda>c. or_space (decode_cell m r c)) cs)
     \<and> same_screen m (fst (row_loop (int r) cs m)) \<and> viewport_ok (fst (row_loop (int r) cs m))"
proof (induction cs arbitrary: m)
  case (Cons c cs)
  let ?m1 = "fst (textAt (int r) (int c) m)"
  have t: "snd (textAt (int r) (int c) m) = decode_cell m r c" "same_screen m ?m1" "viewport_ok ?m1"
    using textAt_decodes Cons.prems by simp_all
  note dims = screen_dims [OF t(2)]
  have "snd (row_loop (int r) cs ?m1) = concat (map (\<lambda>c. or_space (decode_cell ?m1 r c)) cs)
     \<and> same_screen ?m1 (fst (row_loop (int r) cs ?m1)) \<and> viewport_ok (fst (row_loop (int r) cs ?m1))"
    by (rule Cons.IH) (use t(3) dims Cons.prems in simp_all)
  with t same_screen_trans [OF t(2)] show ?case
    by (simp add: split_beta Let_def same_screen_views(1) [OF t(2)])
qed simp

lemma rowText_decodes:
  "viewport_ok m \<Longrightarrow> r < vm_rows m \<Longrightarrow>
     snd (rowText (int r) True m) = row_text (map (decode_cell m r) [0..<vm_cols m])
     \<and> same_screen m (fst (rowText (int r) True m)) \<and> viewport_ok (fst (rowText (int r) True m))"
  using row_loop_decodes [of m r "[0..<vm_cols m]"]
  by (simp add: rowText_def split_beta Let_def row_text_def comp_def)

lemma at_in_range:
  assumes "dims_ok m" "r < vm_rows m" "c < vm_cols m"
  shows "styleAt m (int r) (int c) = vm_styles m ! (r * vm_cols m + c)"
    "foregroundAt m (int r) (int c) = uint (vm_foregrounds m ! (r * vm_cols m + c))"
    "backgroundAt m (int r) (int c) = uint (vm_backgrounds m ! (r * vm_cols m + c))"
proof -
  have "r * vm_cols m + c < vm_cols m * vm_rows m"
    using segment_index [OF assms(2,3)] by (simp add: mult.commute)
  moreover have i: "int_at xs (int r * int (vm_cols m) + int c) = item_at xs (r * vm_cols m + c)" for xs :: "'a list"
  proof -
    have "nat (int r * int (vm_cols m) + int c) = r * vm_cols m + c"
      by (metis nat_int of_nat_add of_nat_mult)
    moreover have "\<not> int r * int (vm_cols m) + int c < 0" by (simp add: not_less)
    ultimately show ?thesis by (simp add: int_at_def)
  qed
  ultimately show "styleAt m (int r) (int c) = vm_styles m ! (r * vm_cols m + c)"
    "foregroundAt m (int r) (int c) = uint (vm_foregrounds m ! (r * vm_cols m + c))"
    "backgroundAt m (int r) (int c) = uint (vm_backgrounds m ! (r * vm_cols m + c))"
    using assms(1) by (simp_all add: styleAt_def foregroundAt_def backgroundAt_def i item_at_def dims_ok_def)
qed

lemma cells_loop_plain:
  "viewport_ok m \<Longrightarrow> r < vm_rows m \<Longrightarrow> \<forall>c \<in> set cs. c < vm_cols m \<Longrightarrow>
     snd (cells_loop (int r) cs m) = map (plain_cell m r) cs
     \<and> same_screen m (fst (cells_loop (int r) cs m)) \<and> viewport_ok (fst (cells_loop (int r) cs m))"
proof (induction cs arbitrary: m)
  case (Cons c cs)
  let ?m1 = "fst (textAt (int r) (int c) m)"
  have t: "snd (textAt (int r) (int c) m) = decode_cell m r c" "same_screen m ?m1" "viewport_ok ?m1"
    using textAt_decodes Cons.prems by simp_all
  note dims = screen_dims [OF t(2)]
  have "snd (cells_loop (int r) cs ?m1) = map (plain_cell ?m1 r) cs
     \<and> same_screen ?m1 (fst (cells_loop (int r) cs ?m1)) \<and> viewport_ok (fst (cells_loop (int r) cs ?m1))"
    by (rule Cons.IH) (use t(3) dims Cons.prems in simp_all)
  moreover have "cell_of_style (styleAt ?m1 (int r) (int c)) (decode_cell m r c) (unpack_number (foregroundAt ?m1 (int r) (int c)))
      (unpack_number (backgroundAt ?m1 (int r) (int c))) = plain_cell m r c"
    using at_in_range [of ?m1 r c] t dims Cons.prems same_screen_views(2) [OF t(2), of r c]
    by (simp add: viewport_ok_def unpack_number_def plain_cell_def Let_def same_screen_def)
  ultimately show ?case
    using t same_screen_trans [OF t(2)] by (simp add: split_beta Let_def same_screen_views(2) [OF t(2)])
qed simp

lemma viewport_ok_compat:
  assumes "viewport_ok m" "r < vm_rows m"
    and m': "m' = m\<lparr>vm_compatibilityRows := (vm_compatibilityRows m)[r := Some (plain_row m r)],
      vm_compatibilityVersions := (vm_compatibilityVersions m)[r := v]\<rparr>"
  shows "viewport_ok m'" "same_screen m m'"
proof -
  show same: "same_screen m m'" by (simp add: same_screen_def m')
  have "dims_ok m'" using assms(1) by (simp add: viewport_ok_def dims_ok_def m')
  moreover have "r < length (vm_compatibilityRows m)" using assms(1,2) by (simp add: viewport_ok_def dims_ok_def)
  then have "caches_ok m'"
    using assms(1,2) same_screen_views [OF same]
    by (auto simp: viewport_ok_def caches_ok_def nth_list_update m' split: if_splits)
  ultimately show "viewport_ok m'" by (simp add: viewport_ok_def)
qed

lemma rebuild_row_plain:
  assumes "viewport_ok m" "r < vm_rows m"
  shows "snd (rebuild_row r v m) = plain_row m r \<and> same_screen m (fst (rebuild_row r v m)) \<and> viewport_ok (fst (rebuild_row r v m))"
proof -
  define m1 where "m1 = fst (cells_loop (int r) [0..<vm_cols m] m)"
  define m2 where "m2 = fst (rowText (int r) True m1)"
  have c: "snd (cells_loop (int r) [0..<vm_cols m] m) = map (plain_cell m r) [0..<vm_cols m]" "same_screen m m1" "viewport_ok m1"
    using cells_loop_plain [OF assms, of "[0..<vm_cols m]"] by (simp_all add: m1_def)
  have t: "snd (rowText (int r) True m1) = row_text (map (decode_cell m r) [0..<vm_cols m])" "same_screen m m2" "viewport_ok m2"
    using rowText_decodes [of m1 r] c screen_dims [OF c(2)] assms(2) same_screen_views(1) [OF c(2)] same_screen_trans [OF c(2)]
    by (simp_all add: m2_def cong: map_cong)
  have flags: "item_at (vm_rowFlags m1) r = Some (vm_rowFlags m ! r)"
    using assms c(2) by (simp add: item_at_def viewport_ok_def dims_ok_def same_screen_def)
  have "snd (rebuild_row r v m) = plain_row m r"
    unfolding rebuild_row_def by (simp add: split_beta Let_def c(1) m1_def [symmetric] t(1) flags plain_row_def)
  moreover have "fst (rebuild_row r v m) = m2\<lparr>vm_compatibilityRows := (vm_compatibilityRows m2)[r := Some (plain_row m r)],
      vm_compatibilityVersions := (vm_compatibilityVersions m2)[r := v]\<rparr>"
    unfolding rebuild_row_def by (simp add: split_beta Let_def c(1) m1_def [symmetric] m2_def [symmetric] t(1) flags plain_row_def)
  moreover have "plain_row m2 r = plain_row m r" by (rule same_screen_views(3) [OF t(2)])
  ultimately show ?thesis
    using viewport_ok_compat [OF t(3) _ refl, of r v] assms(2) screen_dims [OF t(2)] same_screen_trans [OF t(2)] by simp
qed

lemma materializeRow_plain:
  assumes "viewport_ok m" "r < vm_rows m"
  shows "snd (materializeRow r m) = plain_row m r \<and> same_screen m (fst (materializeRow r m)) \<and> viewport_ok (fst (materializeRow r m))"
  using assms rebuild_row_plain [OF assms]
  by (auto simp: materializeRow_def Let_def item_at_def viewport_ok_def caches_ok_def dims_ok_def split: option.splits)

lemma rows_loop_plain:
  "viewport_ok m \<Longrightarrow> \<forall>r \<in> set rs. r < vm_rows m \<Longrightarrow>
     snd (rows_loop rs m) = map (plain_row m) rs \<and> same_screen m (fst (rows_loop rs m)) \<and> viewport_ok (fst (rows_loop rs m))"
proof (induction rs arbitrary: m)
  case (Cons r rs)
  let ?m1 = "fst (materializeRow r m)"
  have t: "snd (materializeRow r m) = plain_row m r" "same_screen m ?m1" "viewport_ok ?m1"
    using materializeRow_plain Cons.prems by simp_all
  have "snd (rows_loop rs ?m1) = map (plain_row ?m1) rs \<and> same_screen ?m1 (fst (rows_loop rs ?m1)) \<and> viewport_ok (fst (rows_loop rs ?m1))"
    by (rule Cons.IH) (use t(3) screen_dims [OF t(2)] Cons.prems in simp_all)
  with t same_screen_trans [OF t(2)] show ?case by (simp add: split_beta Let_def same_screen_views(3) [OF t(2)])
qed simp

text \<open>A snapshot of the viewport, without the caches.\<close>

definition plain_snapshot :: "viewport_model \<Rightarrow> ghostty_snapshot" where
  "plain_snapshot m = \<lparr>gs_cols = vm_cols m, gs_rows = vm_rows m, gs_foreground = unpack_number (vm_foregroundPacked m),
     gs_background = unpack_number (vm_backgroundPacked m), gs_cursor = unpack_number (vm_cursorPacked m),
     gs_cursorX = vm_cursorX m, gs_cursorY = vm_cursorY m, gs_cursorVisible = vm_cursorVisible m,
     gs_cursorBlinking = vm_cursorBlinking m, gs_cursorStyle = vm_cursorStyle m, gs_dirtyRows = vm_dirtyRows m,
     gs_rowData = map (plain_row m) [0..<vm_rows m]\<rparr>"

lemma counter_screen:
  "same_screen m (m\<lparr>vm_compatibilitySnapshotBuilds := n\<rparr>)"
  "viewport_ok (m\<lparr>vm_compatibilitySnapshotBuilds := n\<rparr>) = viewport_ok m"
proof -
  show same: "same_screen m (m\<lparr>vm_compatibilitySnapshotBuilds := n\<rparr>)" by (simp add: same_screen_def)
  show "viewport_ok (m\<lparr>vm_compatibilitySnapshotBuilds := n\<rparr>) = viewport_ok m"
    using same_screen_views [OF same] by (simp add: viewport_ok_def dims_ok_def caches_ok_def)
qed

lemma viewport_snapshot_plain:
  assumes "viewport_ok m"
  shows "snd (viewport_snapshot m) = plain_snapshot m \<and> same_screen m (fst (viewport_snapshot m)) \<and> viewport_ok (fst (viewport_snapshot m))"
proof -
  define m0 where "m0 = m\<lparr>vm_compatibilitySnapshotBuilds := vm_compatibilitySnapshotBuilds m + 1\<rparr>"
  define m1 where "m1 = fst (rows_loop [0..<vm_rows m] m0)"
  have m0: "same_screen m m0" "viewport_ok m0" "vm_rows m0 = vm_rows m"
    using counter_screen assms by (simp_all add: m0_def)
  have r: "snd (rows_loop [0..<vm_rows m] m0) = map (plain_row m) [0..<vm_rows m]" "same_screen m0 m1" "viewport_ok m1"
    using rows_loop_plain [OF m0(2), of "[0..<vm_rows m]"] m0(3) same_screen_views(3) [OF m0(1)]
    by (simp_all add: m1_def)
  have same: "same_screen m m1" by (rule same_screen_trans [OF m0(1) r(2)])
  have "viewport_snapshot m = (m1, \<lparr>gs_cols = vm_cols m1, gs_rows = vm_rows m1,
      gs_foreground = unpack_number (vm_foregroundPacked m1), gs_background = unpack_number (vm_backgroundPacked m1),
      gs_cursor = unpack_number (vm_cursorPacked m1), gs_cursorX = vm_cursorX m1, gs_cursorY = vm_cursorY m1,
      gs_cursorVisible = vm_cursorVisible m1, gs_cursorBlinking = vm_cursorBlinking m1,
      gs_cursorStyle = vm_cursorStyle m1, gs_dirtyRows = vm_dirtyRows m1,
      gs_rowData = map (plain_row m) [0..<vm_rows m]\<rparr>)"
    unfolding viewport_snapshot_def m0_def [symmetric] by (simp add: split_beta Let_def m1_def [symmetric] r(1))
  then show ?thesis using same r(3) by (simp add: plain_snapshot_def) (simp add: same_screen_def)
qed


section \<open>What an update changes\<close>

lemma nth_write_at:
  "i < length xs \<Longrightarrow> t + length ys \<le> length xs \<Longrightarrow>
     write_at t ys xs ! i = (if t \<le> i \<and> i < t + length ys then ys ! (i - t) else xs ! i)"
  by (auto simp: write_at_def nth_append min_def)

lemma row_index:
  assumes "c < (cols :: nat)"
  shows "k * cols \<le> r * cols + c \<and> r * cols + c < k * cols + cols \<longleftrightarrow> r = k"
proof
  assume a: "k * cols \<le> r * cols + c \<and> r * cols + c < k * cols + cols"
  have "(r * cols + c) div cols = r" using assms by simp
  moreover have "(r * cols + c) div cols = k"
    using a assms by (intro div_nat_eqI) (simp_all add: mult.commute)
  ultimately show "r = k" by simp
qed (use assms in simp)

definition seg_text :: "bytes \<Rightarrow> utf16" where
  "seg_text s = (if s = [] then [] else utf8_decode s)"

lemma starts_nth: "i < length xs \<Longrightarrow> starts off xs ! i = off + length (concat (take i xs))"
  by (induction xs arbitrary: off i) (auto simp: nth_Cons split: nat.split)

lemma take_nth_concat:
  assumes "i < length xs"
  shows "take (length (xs ! i)) (drop (length (concat (take i xs))) (concat xs)) = xs ! i"
    "length (concat (take i xs)) + length (xs ! i) \<le> length (concat xs)"
proof -
  have "concat xs = concat (take i xs) @ xs ! i @ concat (drop (Suc i) xs)"
    using id_take_nth_drop [OF assms] by (metis concat.simps(2) concat_append)
  then show "take (length (xs ! i)) (drop (length (concat (take i xs))) (concat xs)) = xs ! i"
    "length (concat (take i xs)) + length (xs ! i) \<le> length (concat xs)" by simp_all
qed

text \<open>The cells of the updated row are those of the update; other rows are as before.\<close>

lemma put_row_row:
  assumes u: "update_ok u" and k: "k < length (ru_dirtyRows u)" and m: "dims_ok m"
    and d: "vm_cols m = nat (ru_cols u)" "vm_rows m = nat (ru_rows u)"
    and r: "r < vm_rows m" and c: "c < vm_cols m"
  defines "i \<equiv> r * vm_cols m + c" and "j \<equiv> k * vm_cols m + c"
  shows "vm_styles (put_row u k m) ! i = (if r = dirty_row u k then ru_styles u ! j else vm_styles m ! i)"
    "vm_foregrounds (put_row u k m) ! i = (if r = dirty_row u k then ru_foregrounds u ! j else vm_foregrounds m ! i)"
    "vm_backgrounds (put_row u k m) ! i = (if r = dirty_row u k then ru_backgrounds u ! j else vm_backgrounds m ! i)"
    "vm_graphemeOffsets (put_row u k m) ! i =
       (if r = dirty_row u k then word_of_nat (starts 0 (row_segs u k) ! c) else vm_graphemeOffsets m ! i)"
    "vm_graphemeLengths (put_row u k m) ! i =
       (if r = dirty_row u k then word_of_nat (length (row_segs u k ! c)) else vm_graphemeLengths m ! i)"
    "vm_rowGraphemes (put_row u k m) ! r = (if r = dirty_row u k then concat (row_segs u k) else vm_rowGraphemes m ! r)"
    "vm_rowFlags (put_row u k m) ! r = (if r = dirty_row u k then ru_rowFlags u ! k else vm_rowFlags m ! r)"
    "vm_decodedRows (put_row u k m) ! r = (if r = dirty_row u k then None else vm_decodedRows m ! r)"
    "vm_compatibilityRows (put_row u k m) ! r = (if r = dirty_row u k then None else vm_compatibilityRows m ! r)"
proof -
  let ?cols = "nat (ru_cols u)"
  note p = update_ok_parts [OF u]
  have row: "dirty_row u k < vm_rows m" using dirty_row_less [OF u k] d(2) by simp
  have i: "i < vm_cols m * vm_rows m" unfolding i_def using segment_index [OF r c] by (simp add: mult.commute)
  have fit: "k * ?cols + ?cols \<le> length (ru_dirtyRows u) * ?cols" "dirty_row u k * ?cols + ?cols \<le> vm_cols m * vm_rows m"
    using range_in [OF k, of ?cols] range_in [OF row, of ?cols] d(1) by (simp_all add: mult.commute)
  have mine: "dirty_row u k * ?cols \<le> i \<and> i < dirty_row u k * ?cols + ?cols \<longleftrightarrow> r = dirty_row u k"
    unfolding i_def d(1) using row_index c d(1) by simp
  have w: "write_at (dirty_row u k * ?cols) ys xs ! i = (if r = dirty_row u k then ys ! c else xs ! i)"
    if "length ys = ?cols" "length xs = vm_cols m * vm_rows m" for xs ys :: "'a list"
    using nth_write_at [of i xs "dirty_row u k * ?cols" ys] that i fit(2) mine by (auto simp: i_def d(1))
  have sub: "subarray (k * ?cols) (k * ?cols + ?cols) xs ! c = xs ! j" "length (subarray (k * ?cols) (k * ?cols + ?cols) xs) = ?cols"
    if "length xs = length (ru_dirtyRows u) * ?cols" for xs :: "'b list"
  proof -
    have "k * ?cols \<le> length xs" "?cols \<le> length xs - k * ?cols" using that fit(1) by linarith+
    with c d(1) show "subarray (k * ?cols) (k * ?cols + ?cols) xs ! c = xs ! j"
      "length (subarray (k * ?cols) (k * ?cols + ?cols) xs) = ?cols"
      by (simp_all add: subarray_def j_def)
  qed
  show "vm_styles (put_row u k m) ! i = (if r = dirty_row u k then ru_styles u ! j else vm_styles m ! i)"
    "vm_foregrounds (put_row u k m) ! i = (if r = dirty_row u k then ru_foregrounds u ! j else vm_foregrounds m ! i)"
    "vm_backgrounds (put_row u k m) ! i = (if r = dirty_row u k then ru_backgrounds u ! j else vm_backgrounds m ! i)"
    "vm_graphemeOffsets (put_row u k m) ! i =
       (if r = dirty_row u k then word_of_nat (starts 0 (row_segs u k) ! c) else vm_graphemeOffsets m ! i)"
    "vm_graphemeLengths (put_row u k m) ! i =
       (if r = dirty_row u k then word_of_nat (length (row_segs u k ! c)) else vm_graphemeLengths m ! i)"
    using m c d(1) p(4-6) by (simp_all add: put_row_def Let_def w sub dims_ok_def)
  show "vm_rowGraphemes (put_row u k m) ! r = (if r = dirty_row u k then concat (row_segs u k) else vm_rowGraphemes m ! r)"
    "vm_rowFlags (put_row u k m) ! r = (if r = dirty_row u k then ru_rowFlags u ! k else vm_rowFlags m ! r)"
    "vm_decodedRows (put_row u k m) ! r = (if r = dirty_row u k then None else vm_decodedRows m ! r)"
    "vm_compatibilityRows (put_row u k m) ! r = (if r = dirty_row u k then None else vm_compatibilityRows m ! r)"
    using m row by (simp_all add: put_row_def Let_def dims_ok_def nth_list_update)
qed

text \<open>The text of a row of an update is short enough for its offsets.\<close>

definition texts_fit :: "render_update \<Rightarrow> bool" where
  "texts_fit u \<longleftrightarrow> (\<forall>k < length (ru_dirtyRows u). length (concat (row_segs u k)) < 2 ^ 32)"

lemma decode_cell_in_range:
  assumes "dims_ok m" "r < vm_rows m" "c < vm_cols m"
  defines "i \<equiv> r * vm_cols m + c"
  shows "decode_cell m r c = (if unat (vm_graphemeLengths m ! i) = 0 then []
     else utf8_decode (take (unat (vm_graphemeLengths m ! i)) (drop (unat (vm_graphemeOffsets m ! i)) (vm_rowGraphemes m ! r))))"
proof -
  have "i < vm_cols m * vm_rows m" unfolding i_def using segment_index [OF assms(2,3)] by (simp add: mult.commute)
  with assms show ?thesis
    by (simp add: decode_cell_def Let_def item_at_def or_zero_word_def or_empty_def dims_ok_def subarray_def)
qed

lemma put_row_decode:
  assumes u: "update_ok u" "texts_fit u" and k: "k < length (ru_dirtyRows u)" and m: "dims_ok m"
    and d: "vm_cols m = nat (ru_cols u)" "vm_rows m = nat (ru_rows u)"
    and r: "r < vm_rows m" and c: "c < vm_cols m"
  shows "decode_cell (put_row u k m) r c =
     (if r = dirty_row u k then seg_text (cell_seg u (k * vm_cols m + c)) else decode_cell m r c)"
proof -
  note p = put_row_row [OF u(1) k m d r c]
  note dec = decode_cell_in_range [OF put_row_dims [OF u(1) k m d], of r c]
  show ?thesis
  proof (cases "r = dirty_row u k")
    case True
    let ?segs = "row_segs u k"
    have cs: "c < length ?segs" using c d(1) by simp
    note t = take_nth_concat [OF cs]
    have "length (concat ?segs) < 2 ^ 32" using u(2) k by (simp add: texts_fit_def)
    then have "unat (word_of_nat (starts 0 ?segs ! c) :: 32 word) = length (concat (take c ?segs))"
      "unat (word_of_nat (length (?segs ! c)) :: 32 word) = length (?segs ! c)"
      using t(2) starts_nth [OF cs, of 0] by (simp_all add: small_word)
    moreover have "?segs ! c = cell_seg u (k * vm_cols m + c)" using c d(1) by (simp add: row_segs_def)
    ultimately show ?thesis
      using dec r c p(4-6) True t(1) by (simp add: seg_text_def)
  next
    case False
    with dec r c p(4-6) decode_cell_in_range [OF m r c] show ?thesis by simp
  qed
qed


definition shown_cell :: "render_update \<Rightarrow> nat \<Rightarrow> nat \<Rightarrow> ghostty_cell" where
  "shown_cell u k c = (let j = k * nat (ru_cols u) + c in
     cell_of_style (ru_styles u ! j) (seg_text (cell_seg u j)) (unpackGhosttyColor (ru_foregrounds u ! j))
       (unpackGhosttyColor (ru_backgrounds u ! j)))"

definition shown_row :: "render_update \<Rightarrow> nat \<Rightarrow> ghostty_row" where
  "shown_row u k = (let flags = ucast (ru_rowFlags u ! k) :: 32 word in
     \<lparr>gr_cells = map (shown_cell u k) [0..<nat (ru_cols u)],
      gr_text = row_text (map (\<lambda>c. seg_text (cell_seg u (k * nat (ru_cols u) + c))) [0..<nat (ru_cols u)]),
      gr_isWrapContinuation = (flags AND wrapContinuation \<noteq> 0), gr_wrapsToNext = (flags AND wrapsToNext \<noteq> 0)\<rparr>)"

text \<open>A model with the dimensions of an update.\<close>

definition update_fits :: "render_update \<Rightarrow> viewport_model \<Rightarrow> bool" where
  "update_fits u m \<longleftrightarrow> dims_ok m \<and> vm_cols m = nat (ru_cols u) \<and> vm_rows m = nat (ru_rows u)"

lemma map_if: "(\<And>x. x \<in> set xs \<Longrightarrow> f x = (if b then g x else h x)) \<Longrightarrow> map f xs = (if b then map g xs else map h xs)"
  by (cases b) simp_all

lemma put_row_plain:
  assumes u: "update_ok u" "texts_fit u" and k: "k < length (ru_dirtyRows u)" and m: "update_fits u m" and r: "r < vm_rows m"
  shows "plain_row (put_row u k m) r = (if r = dirty_row u k then shown_row u k else plain_row m r)"
proof -
  have f: "dims_ok m" "vm_cols m = nat (ru_cols u)" "vm_rows m = nat (ru_rows u)" using m by (simp_all add: update_fits_def)
  note p = put_row_row [OF u(1) k f r] and d = put_row_decode [OF u k f r]
  have "0 < vm_cols m" using update_ok_parts(10) [OF u(1)] f(2) by simp
  note flag = p(7) [OF this]
  have cell: "plain_cell (put_row u k m) r c = (if r = dirty_row u k then shown_cell u k c else plain_cell m r c)"
    if "c < vm_cols m" for c
    using p(1-3) [OF that] d [OF that] f(2) by (simp add: plain_cell_def shown_cell_def Let_def)
  have "map (plain_cell (put_row u k m) r) [0..<vm_cols m] =
      (if r = dirty_row u k then map (shown_cell u k) [0..<vm_cols m] else map (plain_cell m r) [0..<vm_cols m])"
    by (rule map_if) (rule cell, simp)
  moreover have "map (decode_cell (put_row u k m) r) [0..<vm_cols m] =
      (if r = dirty_row u k then map (\<lambda>c. seg_text (cell_seg u (k * vm_cols m + c))) [0..<vm_cols m]
       else map (decode_cell m r) [0..<vm_cols m])"
    by (rule map_if) (rule d, simp)
  ultimately show ?thesis
    using flag by (simp add: plain_row_def shown_row_def Let_def f(2) [symmetric])
qed

lemma put_row_fits: "update_ok u \<Longrightarrow> k < length (ru_dirtyRows u) \<Longrightarrow> update_fits u m \<Longrightarrow> update_fits u (put_row u k m)"
  by (simp add: update_fits_def put_row_dims)

lemma put_row_caches:
  assumes u: "update_ok u" "texts_fit u" and k: "k < length (ru_dirtyRows u)" and m: "update_fits u m" and c: "caches_ok m"
  shows "caches_ok (put_row u k m)"
proof -
  have f: "dims_ok m" "vm_cols m = nat (ru_cols u)" "vm_rows m = nat (ru_rows u)" using m by (simp_all add: update_fits_def)
  have pos: "0 < vm_cols m" using update_ok_parts(10) [OF u(1)] f(2) by simp
  show ?thesis
    unfolding caches_ok_def
  proof (intro conjI allI impI)
    fix r cache
    assume r: "r < vm_rows (put_row u k m)" and cache: "vm_decodedRows (put_row u k m) ! r = Some cache"
    then have r': "r < vm_rows m" by simp
    have other: "r \<noteq> dirty_row u k" "vm_decodedRows m ! r = Some cache"
      using put_row_row(8) [OF u(1) k f r' pos] cache by (auto split: if_splits)
    then show "length cache = vm_cols (put_row u k m)" using c r' by (simp add: caches_ok_def)
    fix j t assume "j < vm_cols (put_row u k m)" "cache ! j = Some t"
    then show "t = decode_cell (put_row u k m) r j"
      using put_row_decode [OF u k f r'] other c r' by (simp add: caches_ok_def)
  next
    fix r x
    assume r: "r < vm_rows (put_row u k m)" and x: "vm_compatibilityRows (put_row u k m) ! r = Some x"
    then have r': "r < vm_rows m" by simp
    have "r \<noteq> dirty_row u k" "vm_compatibilityRows m ! r = Some x"
      using put_row_row(9) [OF u(1) k f r' pos] x by (auto split: if_splits)
    then show "x = plain_row (put_row u k m) r"
      using put_row_plain [OF u k m r'] c r' by (simp add: caches_ok_def)
  qed
qed

lemma fold_put_row:
  assumes u: "update_ok u" "texts_fit u" and "\<forall>k \<in> set ks. k < length (ru_dirtyRows u)" "distinct (map (dirty_row u) ks)"
    and "update_fits u m" "caches_ok m"
  shows "update_fits u (fold (put_row u) ks m) \<and> caches_ok (fold (put_row u) ks m)
     \<and> (\<forall>k \<in> set ks. plain_row (fold (put_row u) ks m) (dirty_row u k) = shown_row u k)
     \<and> (\<forall>r < vm_rows m. r \<notin> dirty_row u ` set ks \<longrightarrow> plain_row (fold (put_row u) ks m) r = plain_row m r)"
  using assms(3-6)
proof (induction ks arbitrary: m)
  case (Cons k ks)
  let ?m = "put_row u k m"
  have k: "k < length (ru_dirtyRows u)" using Cons.prems by simp
  have ih: "update_fits u (fold (put_row u) ks ?m) \<and> caches_ok (fold (put_row u) ks ?m)
     \<and> (\<forall>k \<in> set ks. plain_row (fold (put_row u) ks ?m) (dirty_row u k) = shown_row u k)
     \<and> (\<forall>r < vm_rows ?m. r \<notin> dirty_row u ` set ks \<longrightarrow> plain_row (fold (put_row u) ks ?m) r = plain_row ?m r)"
    by (rule Cons.IH) (use Cons.prems k put_row_fits [OF u(1) k] put_row_caches [OF u k] in auto)
  have row: "dirty_row u k < vm_rows m" using dirty_row_less [OF u(1) k] Cons.prems(3) by (simp add: update_fits_def)
  moreover have "dirty_row u k \<notin> dirty_row u ` set ks" using Cons.prems(2) by simp
  ultimately have "plain_row (fold (put_row u) ks ?m) (dirty_row u k) = shown_row u k"
    using ih put_row_plain [OF u k Cons.prems(3) row] by simp
  moreover have "plain_row (fold (put_row u) ks ?m) r = plain_row m r" if "r < vm_rows m" "r \<notin> dirty_row u ` set (k # ks)" for r
    using ih that put_row_plain [OF u k Cons.prems(3) that(1)] by simp
  ultimately show ?case using ih by simp
qed simp

lemma rows_distinct: "update_ok u \<Longrightarrow> distinct (map (dirty_row u) [0..<length (ru_dirtyRows u)])"
proof -
  assume "update_ok u"
  then have "distinct (ru_dirtyRows u)" using rows_ascending_distinct update_ok_parts(8) by blast
  moreover have "map (dirty_row u) [0..<length (ru_dirtyRows u)] = map unat (ru_dirtyRows u)"
    by (intro nth_equalityI) (simp_all add: dirty_row_def)
  moreover have "inj_on unat (set (ru_dirtyRows u))" by (auto intro!: inj_onI simp: word_unat_eq_iff)
  ultimately show ?thesis by (simp add: distinct_map)
qed

lemma plain_row_header [simp]: "plain_row (take_header u m) r = plain_row m r" "caches_ok (take_header u m) = caches_ok m"
proof -
  have d: "decode_cell (take_header u m) r c = decode_cell m r c" for r c by (simp add: take_header_def decode_cell_def)
  have c: "plain_cell (take_header u m) r c = plain_cell m r c" for r c
    by (simp add: plain_cell_def d) (simp add: take_header_def)
  have "plain_cell (take_header u m) r = plain_cell m r" "decode_cell (take_header u m) r = decode_cell m r" for r
    using c d by blast+
  then show p: "plain_row (take_header u m) r = plain_row m r" for r
    by (simp add: plain_row_def) (simp add: take_header_def)
  show "caches_ok (take_header u m) = caches_ok m"
    by (simp add: caches_ok_def p d) (simp add: take_header_def)
qed

lemma plain_row_dirty [simp]:
  "plain_row (m\<lparr>vm_dirtyRows := x\<rparr>) r = plain_row m r" "caches_ok (m\<lparr>vm_dirtyRows := x\<rparr>) = caches_ok m"
proof -
  have d: "decode_cell (m\<lparr>vm_dirtyRows := x\<rparr>) r c = decode_cell m r c" for r c by (simp add: decode_cell_def)
  have c: "plain_cell (m\<lparr>vm_dirtyRows := x\<rparr>) r c = plain_cell m r c" for r c by (simp add: plain_cell_def d)
  have "plain_cell (m\<lparr>vm_dirtyRows := x\<rparr>) r = plain_cell m r" "decode_cell (m\<lparr>vm_dirtyRows := x\<rparr>) r = decode_cell m r" for r
    using c d by blast+
  then show p: "plain_row (m\<lparr>vm_dirtyRows := x\<rparr>) r = plain_row m r" for r by (simp add: plain_row_def)
  show "caches_ok (m\<lparr>vm_dirtyRows := x\<rparr>) = caches_ok m" by (simp add: caches_ok_def p d)
qed

lemma allocate_caches [simp]: "caches_ok (allocate cols rows m)"
  by (simp add: caches_ok_def allocate_def Let_def)

lemma updated_shows:
  assumes "accepts m u" "texts_fit u" "viewport_ok m"
  shows "viewport_ok (updated u m)"
    "k < length (ru_dirtyRows u) \<Longrightarrow> plain_row (updated u m) (dirty_row u k) = shown_row u k"
    "r < vm_rows m \<Longrightarrow> \<not> ru_full u \<Longrightarrow> r \<notin> dirty_row u ` {..<length (ru_dirtyRows u)} \<Longrightarrow>
       plain_row (updated u m) r = plain_row m r"
proof -
  have u: "update_ok u" using assms(1) by (simp add: accepts_def)
  have m: "update_fits u (started u m)" "caches_ok (started u m)"
    using assms by (auto simp: started_def update_fits_def accepts_def viewport_ok_def)
  note f = fold_put_row [OF u assms(2) _ rows_distinct [OF u] m]
  show "viewport_ok (updated u m)" using f by (simp add: updated_def viewport_ok_def update_fits_def)
  show "plain_row (updated u m) (dirty_row u k) = shown_row u k" if "k < length (ru_dirtyRows u)"
    using f that by (simp add: updated_def)
  show "plain_row (updated u m) r = plain_row m r"
    if "r < vm_rows m" "\<not> ru_full u" "r \<notin> dirty_row u ` {..<length (ru_dirtyRows u)}"
  proof -
    have "vm_rows (started u m) = vm_rows m" using that(2) by (simp add: started_def)
    moreover have "{..<length (ru_dirtyRows u)} = set [0..<length (ru_dirtyRows u)]" by auto
    ultimately have "plain_row (fold (put_row u) [0..<length (ru_dirtyRows u)] (started u m)) r = plain_row (started u m) r"
      using f that by simp
    with that(2) show ?thesis by (simp add: updated_def started_def)
  qed
qed


section \<open>What arrives of a snapshot\<close>

definition received_color :: "ghostty_color \<Rightarrow> ghostty_color" where
  "received_color c = \<lparr>cr = cr c mod 256, cg = cg c mod 256, cb = cb c mod 256\<rparr>"

text \<open>Text arrives without lone surrogates and without a byte order mark at its start.\<close>

definition received_text :: "utf16 \<Rightarrow> utf16" where
  "received_text t = utf16_of (drop_bom (scalars t))"

definition received_cell :: "ghostty_snapshot \<Rightarrow> ghostty_cell option \<Rightarrow> ghostty_cell" where
  "received_cell s cell =
     (case cell of
        None \<Rightarrow> \<lparr>cell_text = [], cell_wide = 0, cell_foreground = received_color (gs_foreground s),
                 cell_background = received_color (gs_background s), cell_bold = False, cell_italic = False,
                 cell_invisible = False, cell_strikethrough = False, cell_overline = False, cell_underline = 0,
                 cell_selected = False\<rparr>
      | Some c \<Rightarrow> c\<lparr>cell_text := received_text (cell_text c), cell_wide := cell_wide c mod 4,
                     cell_foreground := received_color (cell_foreground c),
                     cell_background := received_color (cell_background c), cell_underline := cell_underline c mod 8\<rparr>)"

definition received_row :: "ghostty_snapshot \<Rightarrow> nat \<Rightarrow> ghostty_row" where
  "received_row s i =
     (let row = item_at (gs_rowData s) i; cells = map (cell_at row) [0..<gs_cols s] in
      \<lparr>gr_cells = map (received_cell s) cells, gr_text = row_text (map (received_text \<circ> text_of) cells),
       gr_isWrapContinuation = (case row of Some r \<Rightarrow> gr_isWrapContinuation r | None \<Rightarrow> False),
       gr_wrapsToNext = (case row of Some r \<Rightarrow> gr_wrapsToNext r | None \<Rightarrow> False)\<rparr>)"

definition received :: "ghostty_snapshot \<Rightarrow> bool \<Rightarrow> ghostty_snapshot" where
  "received s full = \<lparr>gs_cols = gs_cols s, gs_rows = gs_rows s, gs_foreground = received_color (gs_foreground s),
     gs_background = received_color (gs_background s), gs_cursor = received_color (gs_cursor s),
     gs_cursorX = gs_cursorX s, gs_cursorY = gs_cursorY s, gs_cursorVisible = gs_cursorVisible s,
     gs_cursorBlinking = gs_cursorBlinking s, gs_cursorStyle = gs_cursorStyle s,
     gs_dirtyRows = update_rows s full, gs_rowData = map (received_row s) [0..<gs_rows s]\<rparr>"

lemma snapshot_cells_nth:
  "k < length rows \<Longrightarrow> c < gs_cols s \<Longrightarrow>
     snapshot_cells s rows ! (k * gs_cols s + c) = cell_at (item_at (gs_rowData s) (rows ! k)) c"
proof (induction rows arbitrary: k)
  case (Cons i rows)
  show ?case
  proof (cases k)
    case 0
    with Cons.prems show ?thesis by (simp add: nth_append)
  next
    case (Suc k')
    then have "k * gs_cols s + c = gs_cols s + (k' * gs_cols s + c)" by simp
    with Cons Suc show ?thesis by (simp add: nth_append)
  qed
qed simp

lemma seg_text_cell: "seg_text (cell_bytes cell) = received_text (text_of cell)"
proof -
  have "utf8_decode (cell_bytes cell) = received_text (text_of cell)"
    by (simp add: cell_bytes_def received_text_def utf8_roundtrip)
  moreover have "utf8_decode [] = []" by (simp add: utf8_decode_def drop_bom_def utf16_of_def)
  ultimately show ?thesis by (auto simp: seg_text_def)
qed

lemma cell_of_packed:
  "cell_of_style (cell_style cell) (received_text (text_of cell)) (unpackGhosttyColor (cell_fg s cell))
     (unpackGhosttyColor (cell_bg s cell)) = received_cell s cell"
proof (cases cell)
  case None
  then show ?thesis
    by (simp add: cell_of_style_def Let_def cell_style_def cell_fg_def cell_bg_def unpack_pack_color received_cell_def
        received_color_def received_text_def text_of_def drop_bom_def utf16_of_def)
next
  case (Some c)
  have "ucast (cell_style (Some c)) = stored_style c" by (simp add: cell_style_def stored_style_def)
  with Some show ?thesis
    by (cases c)
      (simp add: cell_of_style_def Let_def stored_style_flags stored_style_numbers cell_fg_def cell_bg_def
        unpack_pack_color received_cell_def received_color_def text_of_def del: drop_bit_and)
qed

lemma stored_row_flags:
  "((ucast (ucast (row_flag_bits row) :: 8 word) :: 32 word) AND wrapContinuation \<noteq> 0) =
     (case row of Some r \<Rightarrow> gr_isWrapContinuation r | None \<Rightarrow> False)"
  "((ucast (ucast (row_flag_bits row) :: 8 word) :: 32 word) AND wrapsToNext \<noteq> 0) =
     (case row of Some r \<Rightarrow> gr_wrapsToNext r | None \<Rightarrow> False)"
  by (auto simp: row_flag_bits_def wrapContinuation_def wrapsToNext_def split: option.split)

lemma packed_total:
  assumes "snapshot_ok s"
  shows "length (concat (map cell_bytes (snapshot_cells s (update_rows s full)))) < 2 ^ 32"
  using update_text_small [OF assms, of full] all_bytes_length [of "snapshot_cells s (update_rows s full)"] by linarith

lemma packed_seg:
  assumes ok: "snapshot_ok s" and in_range: "j < length (snapshot_cells s (update_rows s full))"
  shows "cell_seg (packed_update s f g full) j = cell_bytes (snapshot_cells s (update_rows s full) ! j)"
proof -
  let ?rows = "update_rows s full"
  let ?cells = "snapshot_cells s ?rows"
  let ?xs = "map cell_bytes ?cells"
  have j: "j < length ?xs" using in_range by simp
  note t = take_nth_concat [OF j]
  have o: "offsets_from 0 ?cells ! j = length (concat (take j ?xs))"
    using offsets_from_nth [OF in_range] by (simp add: take_map)
  have "unat (word_of_nat (offsets_from 0 ?cells ! j) :: 32 word) = length (concat (take j ?xs))"
    "unat (word_of_nat (length (cell_bytes (?cells ! j))) :: 32 word) = length (cell_bytes (?cells ! j))"
    using t(2) packed_total [OF ok, of full] in_range o by (intro trans [OF small_word]; simp)+
  with t(1) in_range show ?thesis
    by (simp add: cell_seg_def packed_update_def Let_def subarray_def)
qed

lemma packed_parts:
  assumes ok: "snapshot_ok s"
  shows "nat (ru_cols (packed_update s f g full)) = gs_cols s" "nat (ru_rows (packed_update s f g full)) = gs_rows s" "length (ru_dirtyRows (packed_update s f g full)) = length (update_rows s full)"
  "k < length (update_rows s full) \<Longrightarrow> dirty_row (packed_update s f g full) k = (update_rows s full) ! k"
proof -
  show "nat (ru_cols (packed_update s f g full)) = gs_cols s" "nat (ru_rows (packed_update s f g full)) = gs_rows s" "length (ru_dirtyRows (packed_update s f g full)) = length (update_rows s full)"
    by (simp_all add: packed_update_def Let_def)
  assume k: "k < length (update_rows s full)"
  then have "(update_rows s full) ! k < gs_rows s" "gs_rows s \<le> 65535" using update_rows_sorted(2) [OF ok, of full] ok by (simp_all add: snapshot_ok_def)
  then have "(update_rows s full) ! k < 2 ^ 32" by simp
  from small_word [OF this] k show "dirty_row (packed_update s f g full) k = (update_rows s full) ! k" by (simp add: dirty_row_def packed_update_def Let_def)
qed

lemma packed_row:
  assumes ok: "snapshot_ok s" and k: "k < length (update_rows s full)"
  shows "shown_row (packed_update s f g full) k = received_row s ((update_rows s full) ! k)"
proof -
  let ?row = "item_at (gs_rowData s) ((update_rows s full) ! k)"
  have j: "k * gs_cols s + c < length (snapshot_cells s (update_rows s full))" if "c < gs_cols s" for c
    using segment_index [OF k that] by simp
  have seg: "seg_text (cell_seg (packed_update s f g full) (k * gs_cols s + c)) = (received_text \<circ> text_of) (cell_at ?row c)" if "c < gs_cols s" for c
    using packed_seg [OF ok j [OF that]] snapshot_cells_nth [OF k that] by (simp add: seg_text_cell)
  have cell: "shown_cell (packed_update s f g full) k c = received_cell s (cell_at ?row c)" if "c < gs_cols s" for c
    using j [OF that] snapshot_cells_nth [OF k that] seg [OF that] cell_of_packed [of "cell_at ?row c" s]
    by (simp add: shown_cell_def Let_def packed_parts [OF ok]) (simp add: packed_update_def Let_def)
  have "ru_rowFlags (packed_update s f g full) ! k = ucast (row_flag_bits ?row)" using k by (simp add: packed_update_def Let_def)
  moreover have "map (\<lambda>c. seg_text (cell_seg (packed_update s f g full) (k * gs_cols s + c))) [0..<gs_cols s] =
      map (received_text \<circ> text_of) (map (cell_at ?row) [0..<gs_cols s])"
    using seg by simp
  moreover have "map (shown_cell (packed_update s f g full) k) [0..<gs_cols s] =
      map (received_cell s) (map (cell_at ?row) [0..<gs_cols s])"
    using cell by simp
  ultimately show ?thesis
    by (simp only: shown_row_def received_row_def Let_def packed_parts(1) [OF ok] stored_row_flags)
qed

lemma packed_texts_fit:
  assumes ok: "snapshot_ok s"
  shows "texts_fit (packed_update s f g full)"
  unfolding texts_fit_def
proof (intro allI impI)
  fix k assume "k < length (ru_dirtyRows (packed_update s f g full))"
  then have k: "k < length (update_rows s full)" by (simp add: packed_parts [OF ok])
  have j: "k * gs_cols s + c < length (snapshot_cells s (update_rows s full))" if "c < gs_cols s" for c
    using segment_index [OF k that] by simp
  have "row_segs (packed_update s f g full) k = map cell_bytes (snapshot_cells s [(update_rows s full) ! k])"
    using packed_seg [OF ok j] snapshot_cells_nth [OF k] by (simp add: row_segs_def packed_parts(1) [OF ok])
  then have "length (concat (row_segs (packed_update s f g full) k)) \<le> 3 * text_units (snapshot_cells s [update_rows s full ! k])"
    by (simp only: all_bytes_length)
  moreover have "text_units (snapshot_cells s [(update_rows s full) ! k]) \<le> text_units (snapshot_cells s (update_rows s full))"
    using member_le_sum_list [of "text_units (snapshot_cells s [(update_rows s full) ! k])" "map (\<lambda>i. text_units (snapshot_cells s [i])) (update_rows s full)"] k
    by (simp only: text_units_rows [of s "update_rows s full"] set_map) (simp add: nth_mem)
  ultimately show "length (concat (row_segs (packed_update s f g full) k)) < 2 ^ 32"
    using update_text_small [OF ok, of full] by linarith
qed


section \<open>From the worker's snapshot to the main thread's\<close>

text \<open>Frames a host draws: a partial one changes only rows it marks, on a screen of the same size.\<close>

fun frames_ok :: "ghostty_snapshot option \<Rightarrow> (ghostty_snapshot \<times> bool) list \<Rightarrow> bool" where
  "frames_ok prev [] = True"
| "frames_ok prev ((s, full) # fs) =
     (snapshot_ok s \<and>
      (full \<or> (case prev of None \<Rightarrow> False
               | Some p \<Rightarrow> gs_cols p = gs_cols s \<and> gs_rows p = gs_rows s
                   \<and> (\<forall>i < gs_rows s. i \<notin> set (gs_dirtyRows s) \<longrightarrow> received_row p i = received_row s i)))
      \<and> frames_ok (Some s) fs)"

text \<open>Each frame is built, applied and its storage released.\<close>

fun deliver ::
    "rat \<Rightarrow> int \<Rightarrow> int \<Rightarrow> (ghostty_snapshot \<times> bool) list \<Rightarrow> render_builder \<times> viewport_model \<Rightarrow>
     (render_builder \<times> viewport_model) option" where
  "deliver now g f [] st = Some st"
| "deliver now g f ((s, full) # fs) (b, m) =
     (case tryBuild now s f g full b of
        (b1, Some lease) \<Rightarrow>
          (case apply_update (ul_update lease) m of
             Applied m1 \<Rightarrow> deliver now g (f + 1) fs (release_update (ul_slotId lease, ul_leaseToken lease) b1, m1)
           | _ \<Rightarrow> None)
      | _ \<Rightarrow> None)"

lemma builder_cycle:
  assumes "builder_ok b" "hasFreeSlot b"
  shows "\<exists>b1 lease. tryBuild now s f g full b = (b1, Some lease) \<and> ul_update lease = packed_update s f g full
     \<and> builder_ok (release_update (ul_slotId lease, ul_leaseToken lease) b1)
     \<and> hasFreeSlot (release_update (ul_slotId lease, ul_leaseToken lease) b1)"
proof -
  have "find (\<lambda>s. \<not> sl_inFlight s) (rb_slots b) \<noteq> None"
    using assms(2) by (auto simp: hasFreeSlot_def find_None_iff list_ex_iff)
  then obtain slot where slot: "find (\<lambda>s. \<not> sl_inFlight s) (rb_slots b) = Some slot" by auto
  note fs = find_slot [OF assms(1) slot]
  obtain b1 r where br: "tryBuild now s f g full b = (b1, r)" by fastforce
  from tryBuild_built [OF slot, of s full now f g] br obtain slot' lease where
    l: "lease = \<lparr>ul_slotId = sl_id slot, ul_leaseToken = sl_leaseToken slot + 1, ul_update = packed_update s f g full\<rparr>"
    and s': "built_slot s full slot slot'" "r = Some lease" "rb_slots b1 = (rb_slots b)[sl_id slot := slot']"
      "rb_owners b1 = map_set (sl_id slot, sl_leaseToken slot + 1) lease (rb_owners b)"
    by auto
  let ?b2 = "release_update (ul_slotId lease, ul_leaseToken lease) b1"
  have at: "rb_slots b1 ! ul_slotId lease = slot'" "ul_slotId lease < length (rb_slots b1)" using fs s'(3) l by simp_all
  have "rb_slots ?b2 = (rb_slots b1)[ul_slotId lease := slot'\<lparr>sl_inFlight := False\<rparr>]"
    using release_frees [of b1 "(ul_slotId lease, ul_leaseToken lease)" lease] at s'(1,4) l
    by (simp add: built_slot_def jsmap)
  then have "hasFreeSlot ?b2"
    using at(2) unfolding hasFreeSlot_def list_ex_iff
    by (intro bexI [of _ "slot'\<lparr>sl_inFlight := False\<rparr>"]) (simp_all add: set_update_memI)
  moreover have "builder_step {} b b1" using builder_step.build [of "{}" b now s f g full] br by simp
  then have "builder_ok ?b2"
    using builder_step_keeps assms(1) builder_step.release by blast
  ultimately show ?thesis using br s'(2) l by auto
qed

lemma take_header_parts:
  "vm_foregroundPacked (updated u m) = ru_foreground u" "vm_backgroundPacked (updated u m) = ru_background u"
  "vm_cursorPacked (updated u m) = ru_cursor u" "vm_cursorX (updated u m) = ru_cursorX u" "vm_cursorY (updated u m) = ru_cursorY u"
  "vm_cursorVisible (updated u m) = ru_cursorVisible u" "vm_cursorBlinking (updated u m) = ru_cursorBlinking u"
  "vm_cursorStyle (updated u m) = ru_cursorStyle u" "vm_dirtyRows (updated u m) = map unat (ru_dirtyRows u)"
  by (simp_all add: updated_def started_def) (simp_all add: take_header_def)

lemma updated_packed:
  assumes ok: "snapshot_ok s" and m: "viewport_ok m" "accepts m (packed_update s f g full)"
    and rest: "\<not> full \<Longrightarrow> \<forall>i < gs_rows s. i \<notin> set (gs_dirtyRows s) \<longrightarrow> plain_row m i = received_row s i"
  shows "viewport_ok (updated (packed_update s f g full) m) \<and> plain_snapshot (updated (packed_update s f g full) m) = received s full"
proof -
  let ?u = "packed_update s f g full"
  let ?m = "updated ?u m"
  let ?rows = "update_rows s full"
  note parts = packed_parts [OF ok, where f = f and g = g and full = full]
  note seen = updated_shows [OF m(2) packed_texts_fit [OF ok] m(1)]
  have dims: "vm_cols ?m = gs_cols s" "vm_rows ?m = gs_rows s"
    using apply_update_total(2) [OF _ m(2)] m(1) by (simp_all add: viewport_ok_def parts)
  have row: "plain_row ?m i = received_row s i" if i: "i < gs_rows s" for i
  proof (cases "i \<in> set ?rows")
    case True
    then obtain k where k: "k < length ?rows" "?rows ! k = i" by (auto simp: in_set_conv_nth)
    with seen(2) [of k] parts packed_row [OF ok k(1)] show ?thesis by simp
  next
    case False
    then have "\<not> full" "i \<notin> set (gs_dirtyRows s)" using i by (auto simp: update_rows_def split: if_splits)
    moreover have "i \<notin> dirty_row ?u ` {..<length (ru_dirtyRows ?u)}" using False parts(3,4) by auto
    moreover have "vm_rows m = gs_rows s" "\<not> ru_full ?u"
      using m(2) \<open>\<not> full\<close> by (auto simp: accepts_def packed_update_def Let_def)
    ultimately show ?thesis using seen(3) [of i] rest i by simp
  qed
  have "map unat (ru_dirtyRows ?u) = ?rows"
    using parts(3,4) by (intro nth_equalityI) (simp_all add: dirty_row_def)
  moreover have "map (plain_row ?m) [0..<gs_rows s] = map (received_row s) [0..<gs_rows s]" using row by simp
  moreover have "unpack_number (uint (packGhosttyColor c)) = received_color c" for c
    by (simp add: unpack_number_def unpack_pack_color received_color_def)
  ultimately have "plain_snapshot ?m = received s full"
    by (simp add: plain_snapshot_def received_def dims take_header_parts) (simp add: packed_update_def Let_def)
  with seen(1) show ?thesis by simp
qed

lemma deliver_shows:
  assumes "frames_ok prev fs" "builder_ok b" "hasFreeSlot b" "viewport_ok m" "1 \<le> f" "f + int (length fs) \<le> max_safe"
    and "1 \<le> g" "safe_int g"
    and "case prev of None \<Rightarrow> vm_generation m < g
       | Some p \<Rightarrow> vm_generation m = g \<and> vm_frameId m < f \<and> (\<exists>full. plain_snapshot m = received p full)"
  shows "\<exists>b' m'. deliver now g f fs (b, m) = Some (b', m') \<and> viewport_ok m'
     \<and> (fs \<noteq> [] \<longrightarrow> plain_snapshot m' = received (fst (last fs)) (snd (last fs)))"
  using assms
proof (induction fs arbitrary: prev b m f)
  case (Cons x fs)
  obtain s full where x: "x = (s, full)" by fastforce
  from Cons.prems(1) x have ok: "snapshot_ok s" "frames_ok (Some s) fs" by simp_all
  obtain b1 lease where b1: "tryBuild now s f g full b = (b1, Some lease)" "ul_update lease = packed_update s f g full"
    "builder_ok (release_update (ul_slotId lease, ul_leaseToken lease) b1)" "hasFreeSlot (release_update (ul_slotId lease, ul_leaseToken lease) b1)"
    using builder_cycle [OF Cons.prems(2,3)] by blast
  let ?u = "packed_update s f g full"
  have uok: "update_ok ?u"
    using Cons.prems(5-8) by (intro packed_update_ok [OF ok(1)]) (simp_all add: safe_int_def)
  have prev: "\<not> full \<Longrightarrow> \<exists>p fl. prev = Some p \<and> plain_snapshot m = received p fl \<and> gs_cols p = gs_cols s \<and> gs_rows p = gs_rows s
      \<and> (\<forall>i < gs_rows s. i \<notin> set (gs_dirtyRows s) \<longrightarrow> received_row p i = received_row s i)"
    using Cons.prems(1,9) x by (auto split: option.splits)
  have dims: "\<not> full \<Longrightarrow> vm_cols m = gs_cols s \<and> vm_rows m = gs_rows s"
    and rest: "\<not> full \<Longrightarrow> \<forall>i < gs_rows s. i \<notin> set (gs_dirtyRows s) \<longrightarrow> plain_row m i = received_row s i"
    using prev by (auto simp: plain_snapshot_def received_def map_eq_conv)
  have "accepts m ?u"
    using uok dims Cons.prems(1,9) x by (auto simp: accepts_def packed_update_def Let_def split: option.splits)
  note up = updated_packed [OF ok(1) Cons.prems(4) this rest]
  note total = apply_update_total [of m ?u]
  have app: "apply_update ?u m = Applied (updated ?u m)" "vm_frameId (updated ?u m) = f" "vm_generation (updated ?u m) = g"
    using total Cons.prems(4) \<open>accepts m ?u\<close> by (simp_all add: viewport_ok_def packed_update_def Let_def)
  have "\<exists>b' m'. deliver now g (f + 1) fs (release_update (ul_slotId lease, ul_leaseToken lease) b1, updated ?u m) = Some (b', m') \<and> viewport_ok m'
     \<and> (fs \<noteq> [] \<longrightarrow> plain_snapshot m' = received (fst (last fs)) (snd (last fs)))"
    by (rule Cons.IH [OF ok(2) b1(3,4)]) (use up app Cons.prems(5-8) in auto)
  moreover have "deliver now g (f + 1) [] st = Some st" for st by simp
  ultimately show ?case
    using up by (cases "fs = []") (auto simp: x b1(1,2) app(1))
qed simp


definition visible_text :: "viewport_model \<Rightarrow> nat \<Rightarrow> utf16" where
  "visible_text m r = trimEnd (concat (map (\<lambda>c. or_space (decode_cell m r c))
     (filter (\<lambda>c. uint ((ucast (vm_styles m ! (r * vm_cols m + c)) :: 32 word) AND widthMask) \<noteq> spacerTail) [0..<vm_cols m])))"

lemma buffer_row_decodes:
  "viewport_ok m \<Longrightarrow> r < vm_rows m \<Longrightarrow> \<forall>c \<in> set cs. c < vm_cols m \<Longrightarrow>
     snd (buffer_row (int r) cs m) = concat (map (\<lambda>c. or_space (decode_cell m r c))
       (filter (\<lambda>c. uint ((ucast (vm_styles m ! (r * vm_cols m + c)) :: 32 word) AND widthMask) \<noteq> spacerTail) cs))
     \<and> same_screen m (fst (buffer_row (int r) cs m)) \<and> viewport_ok (fst (buffer_row (int r) cs m))"
proof (induction cs arbitrary: m)
  case (Cons c cs)
  let ?m1 = "fst (textAt (int r) (int c) m)"
  have st: "styleAt m (int r) (int c) = vm_styles m ! (r * vm_cols m + c)"
    using at_in_range(1) [of m r c] Cons.prems by (simp add: viewport_ok_def)
  have t: "snd (textAt (int r) (int c) m) = decode_cell m r c" "same_screen m ?m1" "viewport_ok ?m1"
    using textAt_decodes Cons.prems by simp_all
  note dims = screen_dims [OF t(2)]
  have styles: "vm_styles ?m1 = vm_styles m" using t(2) by (simp add: same_screen_def)
  have "snd (buffer_row (int r) cs ?m1) = concat (map (\<lambda>c. or_space (decode_cell ?m1 r c))
       (filter (\<lambda>c. uint ((ucast (vm_styles ?m1 ! (r * vm_cols ?m1 + c)) :: 32 word) AND widthMask) \<noteq> spacerTail) cs))
     \<and> same_screen ?m1 (fst (buffer_row (int r) cs ?m1)) \<and> viewport_ok (fst (buffer_row (int r) cs ?m1))"
    by (rule Cons.IH) (use t(3) dims Cons.prems in simp_all)
  moreover have "snd (buffer_row (int r) cs m) = concat (map (\<lambda>c. or_space (decode_cell m r c))
       (filter (\<lambda>c. uint ((ucast (vm_styles m ! (r * vm_cols m + c)) :: 32 word) AND widthMask) \<noteq> spacerTail) cs))
     \<and> same_screen m (fst (buffer_row (int r) cs m)) \<and> viewport_ok (fst (buffer_row (int r) cs m))"
    by (rule Cons.IH) (use Cons.prems in simp_all)
  ultimately show ?case
    using t same_screen_trans [OF t(2)] dims styles
    by (simp add: st split_beta Let_def same_screen_views(1) [OF t(2)])
qed simp

lemma buffer_rows_decodes:
  "viewport_ok m \<Longrightarrow> \<forall>r \<in> set rs. r < vm_rows m \<Longrightarrow>
     snd (buffer_rows rs m) = map (visible_text m) rs
     \<and> same_screen m (fst (buffer_rows rs m)) \<and> viewport_ok (fst (buffer_rows rs m))"
proof (induction rs arbitrary: m)
  case (Cons r rs)
  let ?m1 = "fst (buffer_row (int r) [0..<vm_cols m] m)"
  have t: "trimEnd (snd (buffer_row (int r) [0..<vm_cols m] m)) = visible_text m r" "same_screen m ?m1" "viewport_ok ?m1"
    using buffer_row_decodes [of m r "[0..<vm_cols m]"] Cons.prems by (simp_all add: visible_text_def)
  have "snd (buffer_rows rs ?m1) = map (visible_text ?m1) rs
     \<and> same_screen ?m1 (fst (buffer_rows rs ?m1)) \<and> viewport_ok (fst (buffer_rows rs ?m1))"
    by (rule Cons.IH) (use t(3) screen_dims [OF t(2)] Cons.prems in simp_all)
  moreover have "visible_text ?m1 = visible_text m"
    using t(2) by (auto simp: fun_eq_iff visible_text_def same_screen_views(1) [OF t(2)] same_screen_def)
  ultimately show ?case using t same_screen_trans [OF t(2)] by (simp add: split_beta Let_def)
qed simp

section \<open>Runs\<close>

text \<open>What happens to a viewport: updates arrive and readers ask.\<close>

inductive model_step :: "viewport_model \<Rightarrow> viewport_model \<Rightarrow> bool" where
  taken: "texts_fit u \<Longrightarrow> apply_update u m = Applied m' \<Longrightarrow> model_step m m'"
| refuse: "apply_update u m = Refused m' \<Longrightarrow> model_step m m'"
| read_text: "model_step m (fst (textAt row column m))"
| read_row: "model_step m (fst (rowText row trim m))"
| read_snapshot: "model_step m (fst (viewport_snapshot m))"
| read_buffer: "model_step m (fst (bufferText m))"

abbreviation model_run :: "viewport_model \<Rightarrow> viewport_model \<Rightarrow> bool" where
  "model_run \<equiv> model_step\<^sup>*\<^sup>*"

lemma new_viewport_ok: "viewport_ok newViewport"
  by (simp add: newViewport_def viewport_ok_def dims_ok_def caches_ok_def)

lemma textAt_ok: "viewport_ok m \<Longrightarrow> viewport_ok (fst (textAt row column m))"
proof (cases "row < 0 \<or> row \<ge> int (vm_rows m) \<or> column < 0 \<or> column \<ge> int (vm_cols m)")
  case False
  assume "viewport_ok m"
  moreover have "nat row < vm_rows m" "nat column < vm_cols m" using False by linarith+
  ultimately show ?thesis using False textAt_decodes [of m "nat row" "nat column"] by simp
qed (simp add: textAt_def)

lemma rowText_ok: "viewport_ok m \<Longrightarrow> viewport_ok (fst (rowText row trim m))"
proof (cases "row < 0 \<or> row \<ge> int (vm_rows m)")
  case False
  assume "viewport_ok m"
  moreover have "nat row < vm_rows m" using False by linarith
  ultimately show ?thesis using False row_loop_decodes [of m "nat row" "[0..<vm_cols m]"]
    by (simp add: rowText_def split_beta Let_def)
qed (simp add: rowText_def)

lemma model_step_ok: "model_step m m' \<Longrightarrow> viewport_ok m \<Longrightarrow> viewport_ok m'"
proof (induction rule: model_step.induct)
  case (taken u m m')
  then have "accepts m u" "m' = updated u m"
    using apply_update_total(1) [of m u] by (auto simp: viewport_ok_def split: if_splits)
  with taken updated_shows(1) show ?case by blast
next
  case (refuse u m m')
  then show ?case using apply_update_total(1) [of m u] by (auto simp: viewport_ok_def split: if_splits)
next
  case (read_snapshot m)
  then show ?case using viewport_snapshot_plain by blast
next
  case (read_buffer m)
  then show ?case using buffer_rows_decodes [of m "[0..<vm_rows m]"] by (simp add: bufferText_def apsnd_def map_prod_def split_beta)
qed (simp_all add: textAt_ok rowText_ok)

lemma model_run_ok: "model_run newViewport m \<Longrightarrow> viewport_ok m"
  by (induction rule: rtranclp_induct) (simp_all add: new_viewport_ok model_step_ok)

text \<open>
  reading is never stale. Whatever was read and cached before, a cell's text, a rebuilt snapshot and the
  text of the buffer are those of the packed screen at that moment, and reading changes nothing
  but the caches.
\<close>

theorem viewport_reads_fresh:
  assumes "model_run newViewport m"
  shows "snd (viewport_snapshot m) = plain_snapshot m \<and> same_screen m (fst (viewport_snapshot m))
     \<and> snd (bufferText m) = join_lines (map (visible_text m) [0..<vm_rows m])
     \<and> (r < vm_rows m \<and> c < vm_cols m \<longrightarrow> snd (textAt (int r) (int c) m) = decode_cell m r c)"
  using viewport_snapshot_plain [OF model_run_ok [OF assms]] textAt_decodes [OF model_run_ok [OF assms]]
    buffer_rows_decodes [OF model_run_ok [OF assms], of "[0..<vm_rows m]"]
  by (simp add: bufferText_def apsnd_def map_prod_def split_beta)

text \<open>
  C35: an update is taken whole or not at all. In every state a viewport can reach, an update that is
  malformed, older than the screen, or partial where a full one is needed leaves the viewport as it
  is; every other is applied to the end, without a range error or an early return between two rows.
\<close>

theorem apply_update_atomic:
  assumes "model_run newViewport m"
  shows "apply_update u m = (if accepts m u then Applied (updated u m) else Refused m)
     \<and> (accepts m u \<longrightarrow> viewport_ok newViewport \<and> dims_ok (updated u m)
          \<and> (vm_generation m < vm_generation (updated u m)
             \<or> vm_generation m = vm_generation (updated u m) \<and> vm_frameId m < vm_frameId (updated u m)))"
  using apply_update_total [of m u] model_run_ok [OF assms] new_viewport_ok
  by (auto simp: viewport_ok_def accepts_def split: if_splits)

text \<open>
  C3: the main thread shows what the worker saw. Frames that are packed into a ring of any size, applied
  and released one after the other all arrive, and the snapshot rebuilt from the viewport is the
  last frame's, cell by cell, up to the bytes a colour has and the lone surrogates a text cannot
  carry, although partial frames send only the rows they changed.
\<close>

theorem viewport_shows_frames:
  assumes "frames_ok None frames" "frames \<noteq> []" "1 \<le> f" "f + int (length frames) \<le> max_safe" "1 \<le> g" "safe_int g"
  shows "\<exists>b m. deliver now g f frames (newRenderUpdateBuilder n, newViewport) = Some (b, m)
     \<and> snd (viewport_snapshot m) = received (fst (last frames)) (snd (last frames))"
proof -
  have "hasFreeSlot (newRenderUpdateBuilder n)"
    unfolding hasFreeSlot_def list_ex_iff newRenderUpdateBuilder_def Let_def
    by (intro bexI [of _ "createBuilderSlot 0"]) (simp_all add: createBuilderSlot_def)
  from deliver_shows [OF assms(1) new_builder_ok this new_viewport_ok assms(3-6)] assms(2,5) viewport_snapshot_plain
  show ?thesis by (fastforce simp: newViewport_def)
qed

section \<open>Examples\<close>

definition sample_color :: ghostty_color where
  "sample_color = \<lparr>cr = 1, cg = 2, cb = 3\<rparr>"

definition sample_cell :: "utf16 \<Rightarrow> ghostty_cell" where
  "sample_cell t = \<lparr>cell_text = t, cell_wide = 0, cell_foreground = sample_color, cell_background = sample_color,
     cell_bold = True, cell_italic = False, cell_invisible = False, cell_strikethrough = False, cell_overline = False,
     cell_underline = 3, cell_selected = False\<rparr>"

definition sample_frame :: "utf16 \<Rightarrow> nat list \<Rightarrow> ghostty_snapshot" where
  "sample_frame t dirty = \<lparr>gs_cols = 1, gs_rows = 2, gs_foreground = sample_color, gs_background = sample_color,
     gs_cursor = sample_color, gs_cursorX = 0, gs_cursorY = 0, gs_cursorVisible = True, gs_cursorBlinking = False,
     gs_cursorStyle = 0, gs_dirtyRows = dirty,
     gs_rowData = [\<lparr>gr_cells = [sample_cell [0x41]], gr_text = [0x41], gr_isWrapContinuation = False, gr_wrapsToNext = True\<rparr>,
                   \<lparr>gr_cells = [sample_cell t], gr_text = t, gr_isWrapContinuation = True, gr_wrapsToNext = False\<rparr>]\<rparr>"

lemma sample_frame_ok: "distinct dirty \<Longrightarrow> \<forall>i \<in> set dirty. i < 2 \<Longrightarrow> length t \<le> 2 \<Longrightarrow> snapshot_ok (sample_frame t dirty)"
  by (simp add: snapshot_ok_def sample_frame_def safe_int_def max_safe_def snapshot_cells_def cell_at_def item_at_def
      upt_rec text_of_def sample_cell_def)

lemma sample_frames_ok: "frames_ok None [(sample_frame [0x42] [], True), (sample_frame [0x43] [1], False)]"
proof -
  have "received_row (sample_frame [0x42] []) 0 = received_row (sample_frame [0x43] [1]) 0"
    by (simp add: received_row_def sample_frame_def item_at_def received_cell_def Let_def cell_at_def)
  then show ?thesis
    by (auto simp: sample_frame_ok less_2_cases_iff) (auto simp: sample_frame_def less_2_cases_iff)
qed

lemma viewport_shows_frames_witness:
  "\<exists>b m. deliver 0 1 1 [(sample_frame [0x42] [], True), (sample_frame [0x43] [1], False)]
       (newRenderUpdateBuilder 1, newViewport) = Some (b, m)
     \<and> gs_dirtyRows (snd (viewport_snapshot m)) = [1]"
  using viewport_shows_frames [OF sample_frames_ok, of 1 1 0 1]
  by (force simp: safe_int_def max_safe_def received_def update_rows_def sample_frame_def)

lemma viewport_reads_fresh_witness: "snd (bufferText newViewport) = []"
  using viewport_reads_fresh [OF rtranclp.rtrancl_refl] by (simp add: newViewport_def)

lemma apply_update_atomic_witness:
  "apply_update (packed_update (sample_frame [] []) 1 1 False) newViewport = Refused newViewport"
  using apply_update_atomic [OF rtranclp.rtrancl_refl, of "packed_update (sample_frame [] []) 1 1 False"]
  by (simp add: accepts_def packed_update_def Let_def newViewport_def)

end
