(* ===== verification/Command_Catalog.thy ===== *)
theory Command_Catalog
  imports Js_String
begin

text \<open>
  The commands of the shell, \<^verbatim>\<open>packages/yaade-app/src/commands/catalog.ts\<close>, and the runtime that
  runs them when they are available, \<^verbatim>\<open>commands/runtime.ts\<close>. The union of command literals is a
  datatype whose constructors are the literals with an underscore for the dot. An absent optional
  field is \<open>None\<close>. The handlers are the caller's: a run of one is given by how it ends.
\<close>

section \<open>The catalogue\<close>

datatype commandId =
    CommandPalette_Show
  | Terminal_NewTerminal
  | Terminal_Next
  | Terminal_Previous
  | Tab_Next
  | Tab_Previous
  | Pane_Zoom
  | Pane_SplitRight
  | Pane_SplitDown
  | Terminal_Switch
  | Terminal_SwitchPrevious
  | Sidebar_Toggle
  | Session_Switch
  | Terminal_Jump
  | Terminal_JumpLive
  | Terminal_ToggleInspectionPause
  | Session_New
  | Tab_New
  | Tab_Close
  | Terminal_Close
  | Session_Close
  | Settings_Show
  | Keymap_Reset

text \<open>The literal of a command, as it is stored and shown in identifiers.\<close>

fun command_name :: "commandId \<Rightarrow> string" where
  "command_name CommandPalette_Show = ''commandPalette.show''"
| "command_name Terminal_NewTerminal = ''terminal.newTerminal''"
| "command_name Terminal_Next = ''terminal.next''"
| "command_name Terminal_Previous = ''terminal.previous''"
| "command_name Tab_Next = ''tab.next''"
| "command_name Tab_Previous = ''tab.previous''"
| "command_name Pane_Zoom = ''pane.zoom''"
| "command_name Pane_SplitRight = ''pane.splitRight''"
| "command_name Pane_SplitDown = ''pane.splitDown''"
| "command_name Terminal_Switch = ''terminal.switch''"
| "command_name Terminal_SwitchPrevious = ''terminal.switchPrevious''"
| "command_name Sidebar_Toggle = ''sidebar.toggle''"
| "command_name Session_Switch = ''session.switch''"
| "command_name Terminal_Jump = ''terminal.jump''"
| "command_name Terminal_JumpLive = ''terminal.jumpLive''"
| "command_name Terminal_ToggleInspectionPause = ''terminal.toggleInspectionPause''"
| "command_name Session_New = ''session.new''"
| "command_name Tab_New = ''tab.new''"
| "command_name Tab_Close = ''tab.close''"
| "command_name Terminal_Close = ''terminal.close''"
| "command_name Session_Close = ''session.close''"
| "command_name Settings_Show = ''settings.show''"
| "command_name Keymap_Reset = ''keymap.reset''"

definition COMMAND_IDS :: "commandId list" where
  "COMMAND_IDS =
     [CommandPalette_Show,
      Terminal_NewTerminal,
      Terminal_Next,
      Terminal_Previous,
      Tab_Next,
      Tab_Previous,
      Pane_Zoom,
      Pane_SplitRight,
      Pane_SplitDown,
      Terminal_Switch,
      Terminal_SwitchPrevious,
      Sidebar_Toggle,
      Session_Switch,
      Terminal_Jump,
      Terminal_JumpLive,
      Terminal_ToggleInspectionPause,
      Session_New,
      Tab_New,
      Tab_Close,
      Terminal_Close,
      Session_Close,
      Settings_Show,
      Keymap_Reset]"

datatype commandCategoryId = Category_Navigation | Category_Terminal | Category_Window | Category_Session | Category_Workspace

datatype commandIcon =
    Icon_Command
  | Icon_Terminal
  | Icon_ArrowRight
  | Icon_ArrowLeft
  | Icon_ArrowDown
  | Icon_Pause
  | Icon_WindowNext
  | Icon_WindowPrevious
  | Icon_Maximize
  | Icon_SplitRight
  | Icon_SplitDown
  | Icon_Search
  | Icon_Sidebar
  | Icon_Sessions
  | Icon_Plus
  | Icon_Close
  | Icon_Settings

datatype commandAvailabilityKey =
    Needs_Always
  | Needs_ActiveSession
  | Needs_ActiveTab
  | Needs_ActiveTerminal
  | Needs_AnyTerminal
  | Needs_MultipleTabs
  | Needs_MultipleTerminals
  | Needs_MultipleAvailableTerminals
  | Needs_SidebarLayout
  | Needs_ViewportNotLive
  | Needs_ViewportPausable

datatype repeatPolicy = Repeat_Allow | Repeat_Suppress

record command_descriptor =
  cd_id :: commandId
  cd_title :: string
  cd_category :: commandCategoryId
  cd_aliases :: "string list"
  cd_icon :: commandIcon
  cd_availability :: commandAvailabilityKey
  cd_repeat :: repeatPolicy
  cd_bindingId :: "string option"
  cd_palette :: "bool option"

definition COMMAND_CATEGORIES :: "(commandCategoryId \<times> string) list" where
  "COMMAND_CATEGORIES =
     [(Category_Navigation, ''Navigation''),
      (Category_Terminal, ''Terminal''),
      (Category_Window, ''Window''),
      (Category_Session, ''Session''),
      (Category_Workspace, ''Workspace'')]"

definition COMMAND_CATALOG :: "command_descriptor list" where
  "COMMAND_CATALOG =
     [\<lparr>cd_id = CommandPalette_Show, cd_title = ''Show commands'', cd_category = Category_Navigation,
        cd_aliases = [''command palette'', ''actions'', ''find command''],
        cd_icon = Icon_Command, cd_availability = Needs_Always, cd_repeat = Repeat_Suppress,
        cd_bindingId = Some ''prefix.commands'', cd_palette = Some False\<rparr>,
      \<lparr>cd_id = Terminal_Switch, cd_title = ''Switch terminal'', cd_category = Category_Navigation,
        cd_aliases = [''find terminal'', ''jump terminal'', ''terminal palette''],
        cd_icon = Icon_Search, cd_availability = Needs_AnyTerminal, cd_repeat = Repeat_Suppress,
        cd_bindingId = Some ''prefix.terminal.switch'', cd_palette = None\<rparr>,
      \<lparr>cd_id = Terminal_SwitchPrevious, cd_title = ''Switch to previous terminal'', cd_category = Category_Navigation,
        cd_aliases = [''last terminal'', ''toggle terminal'', ''back terminal''],
        cd_icon = Icon_WindowPrevious, cd_availability = Needs_MultipleAvailableTerminals, cd_repeat = Repeat_Suppress,
        cd_bindingId = Some ''prefix.terminal.switchPrevious'', cd_palette = None\<rparr>,
      \<lparr>cd_id = Session_Switch, cd_title = ''Switch session'', cd_category = Category_Navigation,
        cd_aliases = [''find session'', ''session palette'', ''workspace''],
        cd_icon = Icon_Sessions, cd_availability = Needs_Always, cd_repeat = Repeat_Suppress,
        cd_bindingId = Some ''prefix.session.switch'', cd_palette = None\<rparr>,
      \<lparr>cd_id = Terminal_Next, cd_title = ''Next terminal'', cd_category = Category_Navigation,
        cd_aliases = [''cycle terminal'', ''forward''],
        cd_icon = Icon_ArrowRight, cd_availability = Needs_MultipleTerminals, cd_repeat = Repeat_Allow,
        cd_bindingId = Some ''prefix.terminal.next'', cd_palette = None\<rparr>,
      \<lparr>cd_id = Terminal_Previous, cd_title = ''Previous terminal'', cd_category = Category_Navigation,
        cd_aliases = [''cycle terminal'', ''back''],
        cd_icon = Icon_ArrowLeft, cd_availability = Needs_MultipleTerminals, cd_repeat = Repeat_Allow,
        cd_bindingId = Some ''prefix.terminal.previous'', cd_palette = None\<rparr>,
      \<lparr>cd_id = Tab_Next, cd_title = ''Next Window'', cd_category = Category_Navigation,
        cd_aliases = [''cycle window'', ''next tab''],
        cd_icon = Icon_WindowNext, cd_availability = Needs_MultipleTabs, cd_repeat = Repeat_Allow,
        cd_bindingId = Some ''prefix.tab.next'', cd_palette = None\<rparr>,
      \<lparr>cd_id = Tab_Previous, cd_title = ''Previous Window'', cd_category = Category_Navigation,
        cd_aliases = [''cycle window'', ''previous tab''],
        cd_icon = Icon_WindowPrevious, cd_availability = Needs_MultipleTabs, cd_repeat = Repeat_Allow,
        cd_bindingId = Some ''prefix.tab.previous'', cd_palette = None\<rparr>,
      \<lparr>cd_id = Terminal_Jump, cd_title = ''Jump to terminal by position'', cd_category = Category_Navigation,
        cd_aliases = [''terminal number'', ''terminal index''],
        cd_icon = Icon_Terminal, cd_availability = Needs_AnyTerminal, cd_repeat = Repeat_Suppress,
        cd_bindingId = Some ''prefix.terminal.jump'', cd_palette = Some False\<rparr>,
      \<lparr>cd_id = Terminal_JumpLive, cd_title = ''Jump to live output'', cd_category = Category_Navigation,
        cd_aliases = [''scroll bottom'', ''latest output'', ''resume terminal''],
        cd_icon = Icon_ArrowDown, cd_availability = Needs_ViewportNotLive, cd_repeat = Repeat_Suppress,
        cd_bindingId = Some ''prefix.terminal.jumpLive'', cd_palette = None\<rparr>,
      \<lparr>cd_id = Terminal_ToggleInspectionPause, cd_title = ''Toggle output inspection pause'', cd_category = Category_Terminal,
        cd_aliases = [''pause output'', ''resume inspection'', ''freeze viewport''],
        cd_icon = Icon_Pause, cd_availability = Needs_ViewportPausable, cd_repeat = Repeat_Suppress,
        cd_bindingId = Some ''prefix.terminal.toggleInspectionPause'', cd_palette = None\<rparr>,
      \<lparr>cd_id = Terminal_NewTerminal, cd_title = ''New terminal'', cd_category = Category_Terminal,
        cd_aliases = [''create terminal'', ''shell''],
        cd_icon = Icon_Terminal, cd_availability = Needs_ActiveSession, cd_repeat = Repeat_Suppress,
        cd_bindingId = Some ''prefix.terminal.new'', cd_palette = None\<rparr>,
      \<lparr>cd_id = Terminal_Close, cd_title = ''Close terminal'', cd_category = Category_Terminal,
        cd_aliases = [''archive terminal'', ''stop terminal''],
        cd_icon = Icon_Close, cd_availability = Needs_ActiveTerminal, cd_repeat = Repeat_Suppress,
        cd_bindingId = Some ''prefix.terminal.close'', cd_palette = None\<rparr>,
      \<lparr>cd_id = Pane_Zoom, cd_title = ''Toggle pane zoom'', cd_category = Category_Terminal,
        cd_aliases = [''maximize pane'', ''restore pane''],
        cd_icon = Icon_Maximize, cd_availability = Needs_ActiveTerminal, cd_repeat = Repeat_Suppress,
        cd_bindingId = Some ''prefix.pane.zoom'', cd_palette = None\<rparr>,
      \<lparr>cd_id = Pane_SplitRight, cd_title = ''Split right'', cd_category = Category_Terminal,
        cd_aliases = [''split pane horizontal'', ''new pane right''],
        cd_icon = Icon_SplitRight, cd_availability = Needs_ActiveTab, cd_repeat = Repeat_Suppress,
        cd_bindingId = Some ''direct.pane.splitRight'', cd_palette = None\<rparr>,
      \<lparr>cd_id = Pane_SplitDown, cd_title = ''Split down'', cd_category = Category_Terminal,
        cd_aliases = [''split pane vertical'', ''new pane below''],
        cd_icon = Icon_SplitDown, cd_availability = Needs_ActiveTab, cd_repeat = Repeat_Suppress,
        cd_bindingId = Some ''direct.pane.splitDown'', cd_palette = None\<rparr>,
      \<lparr>cd_id = Tab_New, cd_title = ''New Window'', cd_category = Category_Window,
        cd_aliases = [''create window'', ''new tab''],
        cd_icon = Icon_Plus, cd_availability = Needs_ActiveSession, cd_repeat = Repeat_Suppress,
        cd_bindingId = Some ''prefix.tab.new'', cd_palette = None\<rparr>,
      \<lparr>cd_id = Tab_Close, cd_title = ''Close Window'', cd_category = Category_Window,
        cd_aliases = [''archive window'', ''close tab''],
        cd_icon = Icon_Close, cd_availability = Needs_ActiveTab, cd_repeat = Repeat_Suppress,
        cd_bindingId = Some ''prefix.tab.close'', cd_palette = None\<rparr>,
      \<lparr>cd_id = Session_New, cd_title = ''New session'', cd_category = Category_Session,
        cd_aliases = [''create session'', ''workspace''],
        cd_icon = Icon_Plus, cd_availability = Needs_Always, cd_repeat = Repeat_Suppress,
        cd_bindingId = Some ''prefix.session.new'', cd_palette = None\<rparr>,
      \<lparr>cd_id = Session_Close, cd_title = ''Close session'', cd_category = Category_Session,
        cd_aliases = [''archive session'', ''stop session''],
        cd_icon = Icon_Close, cd_availability = Needs_ActiveSession, cd_repeat = Repeat_Suppress,
        cd_bindingId = Some ''prefix.session.close'', cd_palette = None\<rparr>,
      \<lparr>cd_id = Sidebar_Toggle, cd_title = ''Toggle sidebar'', cd_category = Category_Workspace,
        cd_aliases = [''show sidebar'', ''hide sidebar'', ''navigation''],
        cd_icon = Icon_Sidebar, cd_availability = Needs_SidebarLayout, cd_repeat = Repeat_Suppress,
        cd_bindingId = Some ''direct.sidebar.toggle'', cd_palette = None\<rparr>,
      \<lparr>cd_id = Settings_Show, cd_title = ''Open settings'', cd_category = Category_Workspace,
        cd_aliases = [''preferences'', ''appearance'', ''servers''],
        cd_icon = Icon_Settings, cd_availability = Needs_Always, cd_repeat = Repeat_Suppress,
        cd_bindingId = Some ''direct.settings.show'', cd_palette = None\<rparr>,
      \<lparr>cd_id = Keymap_Reset, cd_title = ''Reset keyboard shortcuts'', cd_category = Category_Workspace,
        cd_aliases = [''restore keymap'', ''default bindings'', ''keyboard recovery''],
        cd_icon = Icon_Settings, cd_availability = Needs_Always, cd_repeat = Repeat_Suppress,
        cd_bindingId = Some ''prefix.keymap.reset'', cd_palette = None\<rparr>]"


text \<open>\<open>commandDescriptor\<close> throws for an identifier that the catalogue lacks.\<close>

definition find_descriptor :: "command_descriptor list \<Rightarrow> commandId \<Rightarrow> command_descriptor option" where
  "find_descriptor catalog c = find (\<lambda>d. cd_id d = c) catalog"

definition commandDescriptor :: "commandId \<Rightarrow> command_descriptor option" where
  "commandDescriptor c = find_descriptor COMMAND_CATALOG c"

fun category_name :: "commandCategoryId \<Rightarrow> string" where
  "category_name Category_Navigation = ''navigation''"
| "category_name Category_Terminal = ''terminal''"
| "category_name Category_Window = ''window''"
| "category_name Category_Session = ''session''"
| "category_name Category_Workspace = ''workspace''"

definition commandCategoryLabel :: "commandCategoryId \<Rightarrow> string" where
  "commandCategoryLabel c =
     (case map_of COMMAND_CATEGORIES c of Some label \<Rightarrow> label | None \<Rightarrow> category_name c)"

definition paletteCommandDescriptors :: "command_descriptor list" where
  "paletteCommandDescriptors = filter (\<lambda>d. cd_palette d \<noteq> Some False) COMMAND_CATALOG"

text \<open>The issues of \<open>validateCommandCatalog\<close>, with the identifier each message quotes.\<close>

datatype catalog_issue =
    Duplicate_Command_Id commandId
  | Missing_Command_Title commandId
  | Empty_Command_Alias commandId
  | Missing_Command_Descriptor commandId
  | Unknown_Command_Descriptor commandId

definition descriptor_issues :: "commandId list \<Rightarrow> command_descriptor \<Rightarrow> catalog_issue list" where
  "descriptor_issues ids d =
     (if cd_id d \<in> set ids then [Duplicate_Command_Id (cd_id d)] else [])
   @ (if trim (cd_title d) = [] then [Missing_Command_Title (cd_id d)] else [])
   @ (if list_ex (\<lambda>a. trim a = []) (cd_aliases d) then [Empty_Command_Alias (cd_id d)] else [])"

text \<open>The loop over the catalogue; \<open>ids\<close> is the set in insertion order.\<close>

fun catalog_loop ::
  "command_descriptor list \<Rightarrow> commandId list \<Rightarrow> catalog_issue list \<Rightarrow> commandId list \<times> catalog_issue list"
  where
  "catalog_loop [] ids issues = (ids, issues)"
| "catalog_loop (d # ds) ids issues =
     catalog_loop ds (if cd_id d \<in> set ids then ids else ids @ [cd_id d])
       (issues @ descriptor_issues ids d)"

definition validateCommandCatalog ::
  "command_descriptor list \<Rightarrow> commandId list \<Rightarrow> catalog_issue list" where
  "validateCommandCatalog catalog commandIds =
     (let (ids, issues) = catalog_loop catalog [] [] in
      issues
      @ map Missing_Command_Descriptor (filter (\<lambda>c. c \<notin> set ids) commandIds)
      @ map Unknown_Command_Descriptor (filter (\<lambda>c. c \<notin> set commandIds) ids))"

section \<open>Availability\<close>

datatype command_availability = Enabled | Disabled string

datatype viewportMode = Viewport_Live | Viewport_Inspecting | Viewport_Paused | Viewport_Unavailable

record commandContext =
  hasActiveSession :: bool
  hasActiveTab :: bool
  hasActiveTerminal :: bool
  availableTerminalCount :: nat
  activeTabTerminalCount :: nat
  tabCount :: nat
  cc_sidebarLayout :: bool
  cc_viewportMode :: viewportMode
  viewportCanPause :: bool

datatype commandSource = From_Keyboard | From_Palette | From_Pointer | From_Native_Menu | From_Which_Key

record commandInvocation =
  ci_source :: commandSource
  ci_jumpIndex :: "nat option"

datatype commandExecutionResult = Executed | Execution_Disabled string | Execution_Failed

definition enabled_if :: "bool \<Rightarrow> string \<Rightarrow> command_availability" where
  "enabled_if b reason = (if b then Enabled else Disabled reason)"

fun availabilityFor :: "commandAvailabilityKey \<Rightarrow> commandContext \<Rightarrow> command_availability" where
  "availabilityFor Needs_Always ctx = Enabled"
| "availabilityFor Needs_ActiveSession ctx =
     enabled_if (hasActiveSession ctx) ''Open or create a session first.''"
| "availabilityFor Needs_ActiveTab ctx =
     enabled_if (hasActiveTab ctx) ''Open or create a Window first.''"
| "availabilityFor Needs_ActiveTerminal ctx =
     enabled_if (hasActiveTerminal ctx) ''Focus a terminal first.''"
| "availabilityFor Needs_AnyTerminal ctx =
     enabled_if (0 < availableTerminalCount ctx) ''No terminals are available.''"
| "availabilityFor Needs_MultipleTabs ctx =
     enabled_if (1 < tabCount ctx) ''No other Window is available.''"
| "availabilityFor Needs_MultipleTerminals ctx =
     enabled_if (1 < activeTabTerminalCount ctx) ''No other terminal is available in this Window.''"
| "availabilityFor Needs_MultipleAvailableTerminals ctx =
     enabled_if (1 < availableTerminalCount ctx) ''No other terminal is available.''"
| "availabilityFor Needs_SidebarLayout ctx =
     enabled_if (cc_sidebarLayout ctx) ''Choose a sidebar layout in Settings first.''"
| "availabilityFor Needs_ViewportNotLive ctx =
     enabled_if (cc_viewportMode ctx = Viewport_Inspecting \<or> cc_viewportMode ctx = Viewport_Paused)
       ''The focused terminal is already showing live output.''"
| "availabilityFor Needs_ViewportPausable ctx =
     enabled_if (viewportCanPause ctx) ''The focused terminal has no scrollback to pause.''"

definition commandAvailability :: "command_descriptor \<Rightarrow> commandContext \<Rightarrow> command_availability" where
  "commandAvailability d ctx = availabilityFor (cd_availability d) ctx"

section \<open>The runtime\<close>

text \<open>How a run of a handler ends, and what \<open>execute\<close> calls, in order.\<close>

datatype handlerOutcome = Handler_Returns | Handler_Throws_Error string | Handler_Throws_Other

datatype runtime_call = Run_Handler commandId commandInvocation | Report_Error string

definition runtime_availability :: "commandContext \<Rightarrow> commandId \<Rightarrow> command_availability option" where
  "runtime_availability ctx c = map_option (\<lambda>d. commandAvailability d ctx) (commandDescriptor c)"

definition execute_command ::
  "commandContext \<Rightarrow> (commandId \<Rightarrow> commandInvocation \<Rightarrow> handlerOutcome) \<Rightarrow> commandId \<Rightarrow>
   commandInvocation \<Rightarrow> (commandExecutionResult \<times> runtime_call list) option" where
  "execute_command ctx handlers c i =
     (case runtime_availability ctx c of
        None \<Rightarrow> None
      | Some (Disabled reason) \<Rightarrow> Some (Execution_Disabled reason, [])
      | Some Enabled \<Rightarrow>
          (case handlers c i of
             Handler_Returns \<Rightarrow> Some (Executed, [Run_Handler c i])
           | Handler_Throws_Error msg \<Rightarrow> Some (Execution_Failed, [Run_Handler c i, Report_Error msg])
           | Handler_Throws_Other \<Rightarrow> Some (Execution_Failed,
               [Run_Handler c i, Report_Error ''The command could not be completed.''])))"

section \<open>Every command is described once\<close>

lemma COMMAND_IDS_all: "c \<in> set COMMAND_IDS"
  by (cases c) (simp_all add: COMMAND_IDS_def)

lemma command_name_distinct: "distinct (map command_name COMMAND_IDS)"
  by code_simp

lemma command_name_inj: "command_name a = command_name b \<Longrightarrow> a = b"
  using command_name_distinct COMMAND_IDS_all unfolding distinct_map inj_on_def by blast

lemma catalog_complete: "list_all (\<lambda>c. commandDescriptor c \<noteq> None) COMMAND_IDS"
  by code_simp

lemma commandDescriptor_total: "\<exists>d. commandDescriptor c = Some d \<and> cd_id d = c"
proof -
  from catalog_complete COMMAND_IDS_all obtain d where "commandDescriptor c = Some d"
    by (auto simp: list_all_iff)
  then show ?thesis
    by (auto simp: commandDescriptor_def find_descriptor_def dest: find_Some_D)
qed

text \<open>The loop collects the identifiers and appends the issues of each descriptor.\<close>

fun loop_issues :: "commandId list \<Rightarrow> command_descriptor list \<Rightarrow> catalog_issue list" where
  "loop_issues ids [] = []"
| "loop_issues ids (d # ds) =
     descriptor_issues ids d @ loop_issues (if cd_id d \<in> set ids then ids else ids @ [cd_id d]) ds"

lemma catalog_loop_issues: "snd (catalog_loop ds ids issues) = issues @ loop_issues ids ds"
  by (induction ds ids issues rule: catalog_loop.induct) simp_all

lemma catalog_loop_ids: "set (fst (catalog_loop ds ids issues)) = set ids \<union> cd_id ` set ds"
  by (induction ds ids issues rule: catalog_loop.induct) auto

definition descriptor_ok :: "command_descriptor \<Rightarrow> bool" where
  "descriptor_ok d \<longleftrightarrow> trim (cd_title d) \<noteq> [] \<and> list_all (\<lambda>a. trim a \<noteq> []) (cd_aliases d)"

lemma descriptor_issues_empty:
  "descriptor_issues ids d = [] \<longleftrightarrow> cd_id d \<notin> set ids \<and> descriptor_ok d"
  by (auto simp: descriptor_issues_def descriptor_ok_def list_all_iff list_ex_iff)

lemma loop_issues_empty:
  "loop_issues ids ds = [] \<longleftrightarrow>
     distinct (map cd_id ds) \<and> set ids \<inter> cd_id ` set ds = {} \<and> list_all descriptor_ok ds"
  by (induction ds arbitrary: ids) (auto simp: descriptor_issues_empty)

text \<open>
  The catalogue check accepts a catalogue exactly when its identifiers are those expected,
  each once, and no title and no alias is blank.
\<close>

theorem catalog_validation_exact:
  "validateCommandCatalog catalog ids = [] \<longleftrightarrow>
     distinct (map cd_id catalog) \<and> set (map cd_id catalog) = set ids \<and>
     list_all descriptor_ok catalog"
proof -
  obtain xs where xs: "catalog_loop catalog [] [] = (xs, loop_issues [] catalog)" "set xs = cd_id ` set catalog"
    using catalog_loop_issues [of catalog "[]" "[]"] catalog_loop_ids [of catalog "[]" "[]"]
    by (cases "catalog_loop catalog [] []") simp
  have "loop_issues [] catalog = [] \<longleftrightarrow> distinct (map cd_id catalog) \<and> list_all descriptor_ok catalog"
    by (simp add: loop_issues_empty)
  with xs show ?thesis
    by (auto simp: validateCommandCatalog_def filter_empty_conv)
qed

text \<open>
  Every command has exactly one descriptor in the shipped catalogue, which passes its own check,
  and its identifier is spelled differently from every other.
\<close>

theorem every_command_described:
  "(\<exists>d. commandDescriptor c = Some d \<and> cd_id d = c \<and> filter (\<lambda>e. cd_id e = c) COMMAND_CATALOG = [d])
   \<and> validateCommandCatalog COMMAND_CATALOG COMMAND_IDS = []
   \<and> map_of (map (\<lambda>k. (command_name k, k)) COMMAND_IDS) (command_name c) = Some c"
proof (intro conjI)
  have "list_all (\<lambda>c. filter (\<lambda>e. cd_id e = c) COMMAND_CATALOG
      = [the (commandDescriptor c)]) COMMAND_IDS"
    by code_simp
  then have "filter (\<lambda>e. cd_id e = c) COMMAND_CATALOG = [the (commandDescriptor c)]"
    using COMMAND_IDS_all by (auto simp: list_all_iff)
  with commandDescriptor_total [of c]
  show "\<exists>d. commandDescriptor c = Some d \<and> cd_id d = c \<and> filter (\<lambda>e. cd_id e = c) COMMAND_CATALOG = [d]"
    by auto
  show "validateCommandCatalog COMMAND_CATALOG COMMAND_IDS = []"
    by code_simp
  show "map_of (map (\<lambda>k. (command_name k, k)) COMMAND_IDS) (command_name c) = Some c"
    by (rule map_of_is_SomeI)
      (use command_name_distinct COMMAND_IDS_all [of c] in \<open>auto simp: o_def\<close>)
qed

text \<open>
  A command's handler runs exactly when the command is available in the context at the call;
  a refused command calls nothing and reports the reason, a failing handler is reported once.
\<close>

theorem execute_respects_availability:
  "\<exists>result calls. execute_command ctx handlers c i = Some (result, calls) \<and>
     (runtime_availability ctx c = Some Enabled \<longleftrightarrow> Run_Handler c i \<in> set calls) \<and>
     (result = Executed \<longleftrightarrow> runtime_availability ctx c = Some Enabled \<and> handlers c i = Handler_Returns) \<and>
     (result = Execution_Failed \<longleftrightarrow> (\<exists>msg. calls = [Run_Handler c i, Report_Error msg])) \<and>
     (\<forall>reason. result = Execution_Disabled reason \<longleftrightarrow>
        runtime_availability ctx c = Some (Disabled reason) \<and> calls = [])"
  using commandDescriptor_total [of c]
  by (auto simp: execute_command_def runtime_availability_def
      split: command_availability.split handlerOutcome.split)

end
