(* ===== verification/Key_Events.thy ===== *)
theory Key_Events
  imports Js_String
begin

text \<open>
  Key events against bindings, and the state of a chord, \<^verbatim>\<open>packages/yaade-workspace/src/context-keys.ts\<close>.
  A binding is a string such as \<open>Mod-Shift-d\<close>: modifiers and one key, joined by dashes. \<open>mac\<close> is the
  answer of \<open>isMacPlatform\<close>; times are integers (\<open>Date.now()\<close>).
\<close>

section \<open>Data\<close>

record keyEventLike =
  ke_key :: string
  ke_code :: string
  metaKey :: bool
  ctrlKey :: bool
  altKey :: bool
  shiftKey :: bool

definition MODIFIERS :: "string list" where
  "MODIFIERS = [''Mod'', ''Cmd'', ''Ctrl'', ''Alt'', ''Shift'']"

record parsedKeyPart =
  pk_modifiers :: "string list"
  pk_key :: string

record chordState =
  chord_prefix :: "string option"
  expiresAt :: int

definition CHORD_TIMEOUT_MS :: int where
  "CHORD_TIMEOUT_MS = 2500"

section \<open>Operations\<close>

definition contains :: "string \<Rightarrow> string \<Rightarrow> bool" where
  "contains t s \<longleftrightarrow> index_of t s \<noteq> None"

text \<open>\<open>navigator.platform\<close> and \<open>process.platform\<close>, where they exist.\<close>

definition isMacPlatform :: "string option \<Rightarrow> string option \<Rightarrow> bool" where
  "isMacPlatform navigator_platform process_platform =
     (case navigator_platform of
        Some p \<Rightarrow> if p \<noteq> [] then list_ex (\<lambda>t. contains t p) [''Mac'', ''iPhone'', ''iPad'', ''iPod'']
                  else process_platform = Some ''darwin''
      | None \<Rightarrow> process_platform = Some ''darwin'')"

text \<open>The loop over the segments: the modifiers found, and the last other segment.\<close>

fun part_loop :: "string list \<Rightarrow> string list \<Rightarrow> string \<Rightarrow> parsedKeyPart" where
  "part_loop [] modifiers k = \<lparr>pk_modifiers = modifiers, pk_key = k\<rparr>"
| "part_loop (s # segments) modifiers k =
     (if s \<in> set MODIFIERS then part_loop segments (List.insert s modifiers) k
      else part_loop segments modifiers s)"

definition parseKeyPart :: "string \<Rightarrow> parsedKeyPart" where
  "parseKeyPart part =
     (let p = part_loop (filter (\<lambda>s. s \<noteq> []) (split_on CHR ''-'' part)) [] []
      in if pk_key p = [] \<and> ends_with ''-'' part then p\<lparr>pk_key := ''-''\<rparr> else p)"

definition parseBindingKey :: "string \<Rightarrow> string list" where
  "parseBindingKey k = words_of (trim k)"

definition normalizeBindingKey :: "string \<Rightarrow> string" where
  "normalizeBindingKey k =
     (if k = ''Backquote'' then [CHR 0x60] else if length k = 1 then toLowerCase k else k)"

definition code_table :: "(string \<times> string) list" where
  "code_table =
     [(''Backquote'', [CHR 0x60]), (''Minus'', ''-''), (''Equal'', ''=''), (''BracketLeft'', ''[''),
      (''BracketRight'', '']''), (''Backslash'', [CHR 0x5C]), (''Semicolon'', '';''), (''Quote'', [CHR 0x27]),
      (''Comma'', '',''), (''Period'', ''.''), (''Slash'', ''/'')]"

definition keyFromCode :: "string \<Rightarrow> string option" where
  "keyFromCode code =
     (if starts_with ''Key'' code \<and> length code = 4 \<and> is_upper_letter (code ! 3)
        then Some (toLowerCase [code ! 3])
      else if starts_with ''Digit'' code \<and> length code = 6 \<and> is_digit (code ! 5) then Some [code ! 5]
      else map_of code_table code)"

definition eventKeyMatches :: "string \<Rightarrow> 'a keyEventLike_scheme \<Rightarrow> bool" where
  "eventKeyMatches expected e =
     (let want = normalizeBindingKey expected
      in if normalizeBindingKey (ke_key e) = want then True
         else case (if ke_code e \<noteq> [] then keyFromCode (ke_code e) else None) of
                Some k \<Rightarrow> normalizeBindingKey k = want
              | None \<Rightarrow> False)"

definition keyEventMatchesBindingPart :: "bool \<Rightarrow> 'a keyEventLike_scheme \<Rightarrow> string \<Rightarrow> bool" where
  "keyEventMatchesBindingPart mac e part =
     (let p = parseKeyPart part;
          needs = (\<lambda>m. m \<in> set (pk_modifiers p));
          wantMeta = (needs ''Cmd'' \<or> (needs ''Mod'' \<and> mac));
          wantCtrl = (needs ''Ctrl'' \<or> (needs ''Mod'' \<and> \<not> mac))
      in if needs ''Shift'' \<noteq> shiftKey e then False
         else if needs ''Alt'' \<noteq> altKey e then False
         else if wantMeta \<and> wantCtrl \<and> (\<not> metaKey e \<or> \<not> ctrlKey e) then False
         else if wantMeta \<and> \<not> wantCtrl \<and> \<not> metaKey e then False
         else if \<not> wantMeta \<and> wantCtrl \<and> (\<not> ctrlKey e \<or> metaKey e) then False
         else if \<not> wantMeta \<and> \<not> wantCtrl \<and> (metaKey e \<or> ctrlKey e) then False
         else eventKeyMatches (pk_key p) e)"

definition keyEventMatchesBinding :: "bool \<Rightarrow> 'a keyEventLike_scheme \<Rightarrow> string \<Rightarrow> bool" where
  "keyEventMatchesBinding mac e k =
     (case parseBindingKey k of [part] \<Rightarrow> keyEventMatchesBindingPart mac e part | _ \<Rightarrow> False)"

definition createChordState :: chordState where
  "createChordState = \<lparr>chord_prefix = None, expiresAt = 0\<rparr>"

definition chordIsActive :: "chordState \<Rightarrow> int \<Rightarrow> bool" where
  "chordIsActive s now \<longleftrightarrow> chord_prefix s \<noteq> None \<and> now < expiresAt s"

definition startChord :: "chordState \<Rightarrow> string \<Rightarrow> int \<Rightarrow> chordState" where
  "startChord s prefix now = s\<lparr>chord_prefix := Some prefix, expiresAt := now + CHORD_TIMEOUT_MS\<rparr>"

definition clearChord :: "chordState \<Rightarrow> chordState" where
  "clearChord s = s\<lparr>chord_prefix := None, expiresAt := 0\<rparr>"

end
