(* ===== verification/Keymap_Profile.thy ===== *)
theory Keymap_Profile
  imports Command_Catalog Key_Events
begin

text \<open>
  Keymap profiles, \<^verbatim>\<open>packages/yaade-app/src/keymap-profile.ts\<close>: the grammar of key chords, which
  chords may be bound, and the compilation of a user's overrides into a keymap. The types of the
  bindings are those of \<^verbatim>\<open>keybindings.ts\<close>.

  \<^item> A field that has only one value (\<open>context\<close>, and the empty list \<open>when\<close>) is left out.
  \<^item> \<open>JSON.stringify\<close> and the schema decoders are parameters.
  \<^item> The en dash of \<open>1-9\<close> in the code lies beyond the characters of the model; \<open>CHR 0x96\<close> stands
    for it, which the code treats no differently: it is no letter, dash, digit or white space.
\<close>

section \<open>Data\<close>

definition KEYMAP_PROFILE_VERSION :: nat where
  "KEYMAP_PROFILE_VERSION = 1"

definition MAX_KEYMAP_BINDINGS :: nat where
  "MAX_KEYMAP_BINDINGS = 128"

definition MAX_KEYMAP_JSON_BYTES :: nat where
  "MAX_KEYMAP_JSON_BYTES = 32 * 1024"

definition MAX_KEY_BINDING_LENGTH :: nat where
  "MAX_KEY_BINDING_LENGTH = 64"

datatype keymap_platform = Mac | Windows | Linux

record keymapOverride =
  ko_command :: commandId
  ko_binding :: "string option"
  confirmedRisky :: "bool option"

record keymapProfile =
  kp_version :: nat
  kp_leader :: string
  kp_bindings :: "keymapOverride list"
  confirmedLeaderRisky :: "bool option"

definition DEFAULT_KEYMAP_PROFILE :: keymapProfile where
  "DEFAULT_KEYMAP_PROFILE =
     \<lparr>kp_version = KEYMAP_PROFILE_VERSION, kp_leader = ''Mod-k'', kp_bindings = [],
      confirmedLeaderRisky = None\<rparr>"

datatype prefixGroup = Group_Open | Group_Navigate | Group_Actions

datatype keyRange = Terminal_Position

record prefixBinding =
  pb_id :: string
  pb_key :: string
  pb_command :: commandId
  pb_desc :: string
  pb_group :: prefixGroup
  pb_hud :: "bool option"
  pb_keyRange :: "keyRange option"
  pb_repeatable :: "bool option"

record directBinding =
  db_id :: string
  db_key :: string
  db_command :: commandId
  db_desc :: string
  db_repeatable :: "bool option"
  db_riskyReason :: "string option"

record contextBinding =
  cb_id :: string
  cb_key :: string
  cb_command :: commandId
  cb_desc :: string
  cb_riskyReason :: "string option"
  cb_repeatable :: "bool option"

record keymapCatalog =
  km_leader :: string
  prefixBindings :: "prefixBinding list"
  directBindings :: "directBinding list"
  contextBindings :: "contextBinding list"

record effectiveKeymap = keymapCatalog +
  km_source :: keymapProfile

datatype keymapRisk =
  Risk_Safe | Browser_Risky | Terminal_Reserved | Widget_Local | Os_Unavailable | Banned

record riskClassification =
  rc_risk :: keymapRisk
  rc_reason :: "string option"

datatype bindingKind = Kind_Leader | Kind_Direct | Kind_Prefix

datatype conflictCode =
    Binding_Limit | Binding_Too_Long | Invalid_Leader | Invalid_Binding
  | Immutable_Recovery_Binding | Duplicate_Command | Duplicate_Binding | Prefix_Ambiguity
  | Reserved_Binding | Risky_Confirmation_Required | Required_Command_Unreachable
  | Unsupported_Dynamic_Command

record keymapConflict =
  kc_code :: conflictCode
  kc_message :: string
  kc_command :: "commandId option"
  kc_binding :: "string option"
  kc_risk :: "keymapRisk option"

section \<open>The grammar of chords\<close>

definition MODIFIER_ORDER :: "string list" where
  "MODIFIER_ORDER = [''Mod'', ''Cmd'', ''Ctrl'', ''Alt'', ''Shift'']"

definition MODIFIER_NAMES :: "(string, string) jsmap" where
  "MODIFIER_NAMES = map_from (concat (map (\<lambda>m.
     [(toLowerCase m, m), (if m = ''Cmd'' then ''meta'' else toLowerCase m, m)]) MODIFIER_ORDER))"

definition NAMED_KEYS :: "(string, string) jsmap" where
  "NAMED_KEYS = map_from
     [(''esc'', ''Escape''), (''escape'', ''Escape''), (''enter'', ''Enter''), (''return'', ''Enter''),
      (''space'', ''Space''), (''tab'', ''Tab''), (''backspace'', ''Backspace''), (''delete'', ''Delete''),
      (''home'', ''Home''), (''end'', ''End''), (''arrowup'', ''ArrowUp''), (''arrowdown'', ''ArrowDown''),
      (''arrowleft'', ''ArrowLeft''), (''arrowright'', ''ArrowRight''), (''pageup'', ''PageUp''),
      (''pagedown'', ''PageDown'')]"

definition WIDGET_LOCAL_KEYS :: "string list" where
  "WIDGET_LOCAL_KEYS =
     [''Escape'', ''Enter'', ''Space'', ''Tab'', ''Home'', ''End'', ''ArrowUp'', ''ArrowDown'',
      ''ArrowLeft'', ''ArrowRight'', ''PageUp'', ''PageDown'']"

definition PRIMARY_UNAVAILABLE_KEYS :: "string list" where
  "PRIMARY_UNAVAILABLE_KEYS =
     [''0'', ''1'', ''2'', ''3'', ''4'', ''5'', ''6'', ''7'', ''8'', ''9'', ''='', ''-'', ''f'', ''l'', ''n'',
      ''p'', ''q'', ''r'', ''t'', ''w'']"

text \<open>The test against \<open>/^f(?:[1-9]|1[0-2])$/i\<close>.\<close>

definition is_function_key :: "string \<Rightarrow> bool" where
  "is_function_key s \<longleftrightarrow>
     (case s of
        [f, d] \<Rightarrow> f \<in> set ''fF'' \<and> d \<in> set ''123456789''
      | [f, d, e] \<Rightarrow> f \<in> set ''fF'' \<and> d = CHR ''1'' \<and> e \<in> set ''012''
      | _ \<Rightarrow> False)"

definition normalizedKey :: "string \<Rightarrow> string option" where
  "normalizedKey v =
     (let trimmed = trim v in
      if length trimmed = 1 \<and> trimmed \<noteq> '' '' then Some (toLowerCase trimmed)
      else case map_of NAMED_KEYS (toLowerCase trimmed) of
             Some named \<Rightarrow> Some named
           | None \<Rightarrow> if is_function_key trimmed then Some (toUpperCase trimmed) else None)"

text \<open>The loop over the modifiers of a chord: unknown and repeated ones are refused.\<close>

fun modifier_loop :: "string list \<Rightarrow> string list \<Rightarrow> string list option" where
  "modifier_loop [] modifiers = Some modifiers"
| "modifier_loop (raw # raws) modifiers =
     (case map_of MODIFIER_NAMES (toLowerCase raw) of
        None \<Rightarrow> None
      | Some m \<Rightarrow> if m \<in> set modifiers then None else modifier_loop raws (modifiers @ [m]))"

definition normalizeKeyChord :: "string \<Rightarrow> string option" where
  "normalizeKeyChord v =
     (let trimmed = trim v in
      if trimmed = [] \<or> MAX_KEY_BINDING_LENGTH < length trimmed \<or> list_ex is_space trimmed then None
      else
        let rawSegments = split_on CHR ''-'' trimmed;
            dash = ends_with ''-'' trimmed;
            rawKey = (if dash then ''-'' else List.last rawSegments);
            modifierSegments =
              (if dash then filter (\<lambda>s. s \<noteq> []) rawSegments else butlast rawSegments)
        in if rawKey = [] then None
           else case modifier_loop modifierSegments [] of
             None \<Rightarrow> None
           | Some modifiers \<Rightarrow>
               if ''Mod'' \<in> set modifiers \<and> (''Cmd'' \<in> set modifiers \<or> ''Ctrl'' \<in> set modifiers) then None
               else case normalizedKey rawKey of
                      None \<Rightarrow> None
                    | Some k \<Rightarrow> Some (js_join CHR ''-''
                        (filter (\<lambda>m. m \<in> set modifiers) MODIFIER_ORDER @ [k])))"

definition normalizePrefixKey :: "string \<Rightarrow> string option" where
  "normalizePrefixKey v =
     (case normalizeKeyChord v of
        None \<Rightarrow> None
      | Some chord \<Rightarrow>
          let segments = split_on CHR ''-'' chord;
              k = List.last segments;
              modifiers = butlast segments
          in if k = [] \<or> list_ex (\<lambda>m. m \<noteq> ''Shift'') modifiers then None
             else if k \<in> set WIDGET_LOCAL_KEYS \<or> length k \<noteq> 1 then None
             else Some (if modifiers = [] then k else ''Shift-'' @ toUpperCase k))"

text \<open>\<open>trimmed.split(/\s+/)\<close> of a string without white space around it is its words.\<close>

definition normalizeKeySequence :: "string \<Rightarrow> string option" where
  "normalizeKeySequence v =
     (let trimmed = trim v in
      if trimmed = [] \<or> MAX_KEY_BINDING_LENGTH < length trimmed then None
      else case words_of trimmed of
             [w] \<Rightarrow> normalizeKeyChord w
           | [l, w] \<Rightarrow>
               if toLowerCase l \<noteq> ''leader'' then None
               else map_option (\<lambda>k. ''Leader '' @ k) (normalizePrefixKey w)
           | _ \<Rightarrow> None)"

definition chordParts :: "string \<Rightarrow> string list \<times> string" where
  "chordParts binding =
     (let segments = split_on CHR ''-'' binding in (butlast segments, List.last segments))"

definition canonicalChordForPlatform :: "string \<Rightarrow> keymap_platform \<Rightarrow> string" where
  "canonicalChordForPlatform binding platform =
     (let (modifiers, k) = chordParts binding;
          resolved = map (\<lambda>m. if m \<noteq> ''Mod'' then m
                              else if platform = Mac then ''Cmd'' else ''Ctrl'') modifiers
      in js_join CHR ''-'' (resolved @ [k]))"

definition isPrimaryModifier :: "string list \<Rightarrow> keymap_platform \<Rightarrow> bool" where
  "isPrimaryModifier modifiers platform \<longleftrightarrow>
     ''Mod'' \<in> set modifiers \<or>
     (if platform = Mac then ''Cmd'' \<in> set modifiers else ''Ctrl'' \<in> set modifiers)"

section \<open>Which chords may be bound\<close>

text \<open>The test against \<open>/^(?:Mod|Ctrl)-[a-z]$/\<close>.\<close>

definition is_leader_chord :: "string \<Rightarrow> bool" where
  "is_leader_chord s \<longleftrightarrow>
     starts_with ''Mod-'' s \<and> length s = 5 \<and> is_lower_letter (s ! 4)
   \<or> starts_with ''Ctrl-'' s \<and> length s = 6 \<and> is_lower_letter (s ! 5)"

definition risk :: "keymapRisk \<Rightarrow> string \<Rightarrow> riskClassification" where
  "risk r reason = \<lparr>rc_risk = r, rc_reason = Some reason\<rparr>"

definition safe :: riskClassification where
  "safe = \<lparr>rc_risk = Risk_Safe, rc_reason = None\<rparr>"

definition classify_prefix :: "string \<Rightarrow> riskClassification" where
  "classify_prefix binding =
     (case normalizePrefixKey binding of
        None \<Rightarrow> risk Widget_Local ''Leader keys must be one printable key.''
      | Some normalized \<Rightarrow>
          if toLowerCase normalized = ''p''
          then risk Banned ''Prefix p is a removed alias and stays reserved.''
          else safe)"

text \<open>The guards of leaders and of direct chords, up to the ones they share.\<close>

definition kind_guard ::
  "bindingKind \<Rightarrow> keymap_platform \<Rightarrow> string \<Rightarrow> string list \<Rightarrow> riskClassification option" where
  "kind_guard kind platform normalized modifiers =
     (if kind = Kind_Leader then
        if \<not> is_leader_chord normalized then
          Some (risk Terminal_Reserved
            ''Leaders must be Mod-letter or Ctrl-letter chords with an exact control byte.'')
        else None
      else if normalized = ''Mod-k'' \<or> normalized = ''Mod-Shift-p'' then
        Some (risk Banned (normalized @ '' is a removed direct alias.''))
      else if \<not> isPrimaryModifier modifiers platform \<or> ''Alt'' \<in> set modifiers
          \<or> (''Ctrl'' \<in> set modifiers \<and> ''Mod'' \<notin> set modifiers) then
        Some (risk Terminal_Reserved
          ''Plain, Alt, and explicit terminal Ctrl chords pass through to the PTY.'')
      else None)"

definition classify_chord :: "string \<Rightarrow> bindingKind \<Rightarrow> keymap_platform \<Rightarrow> riskClassification" where
  "classify_chord binding kind platform =
     (case normalizeKeyChord binding of
        None \<Rightarrow> risk Widget_Local ''The chord is outside the key grammar.''
      | Some normalized \<Rightarrow>
          let (modifiers, k) = chordParts normalized in
          if k \<in> set WIDGET_LOCAL_KEYS then
            risk Widget_Local (k @ '' remains local to terminal and list widgets.'')
          else case kind_guard kind platform normalized modifiers of
            Some r \<Rightarrow> r
          | None \<Rightarrow>
              if ''Cmd'' \<in> set modifiers \<and> platform \<noteq> Mac then
                risk Os_Unavailable ''Cmd bindings are unavailable on this platform.''
              else if isPrimaryModifier modifiers platform \<and> k \<in> set PRIMARY_UNAVAILABLE_KEYS then
                risk Os_Unavailable (normalized @ '' is reserved by the browser or operating system.'')
              else if kind = Kind_Leader \<and> (normalized = ''Mod-k'' \<or> starts_with ''Ctrl-'' normalized) then safe
              else if normalized = ''Mod-,'' then safe
              else risk Browser_Risky
                (normalized @ '' may replace a browser shortcut and needs explicit confirmation.''))"

definition classifyKeyBinding :: "string \<Rightarrow> bindingKind \<Rightarrow> keymap_platform \<Rightarrow> riskClassification" where
  "classifyKeyBinding binding kind platform =
     (if kind = Kind_Prefix then classify_prefix binding else classify_chord binding kind platform)"

section \<open>Compiling a profile\<close>

definition command_title :: "commandId \<Rightarrow> string" where
  "command_title c = cd_title (the (commandDescriptor c))"

definition groupFor :: "commandId \<Rightarrow> prefixGroup" where
  "groupFor c =
     (case cd_category (the (commandDescriptor c)) of
        Category_Navigation \<Rightarrow> Group_Navigate
      | Category_Session \<Rightarrow> Group_Open
      | _ \<Rightarrow> Group_Actions)"

definition conflict ::
  "conflictCode \<Rightarrow> string \<Rightarrow> commandId option \<Rightarrow> string option \<Rightarrow> keymapRisk option \<Rightarrow> keymapConflict"
  where
  "conflict code message command binding r =
     \<lparr>kc_code = code, kc_message = message, kc_command = command, kc_binding = binding, kc_risk = r\<rparr>"

definition reason_or :: "riskClassification \<Rightarrow> string \<Rightarrow> string" where
  "reason_or c otherwise = (case rc_reason c of Some r \<Rightarrow> r | None \<Rightarrow> otherwise)"

definition limit_conflicts :: "(keymapProfile \<Rightarrow> string) \<Rightarrow> keymapProfile \<Rightarrow> keymapConflict list" where
  "limit_conflicts stringify profile =
     (if MAX_KEYMAP_BINDINGS < length (kp_bindings profile)
      then [conflict Binding_Limit (''Profiles may contain at most '' @ decimal MAX_KEYMAP_BINDINGS
              @ '' overrides.'') None None None] else [])
   @ (if MAX_KEYMAP_JSON_BYTES < length (stringify profile)
      then [conflict Binding_Limit ''The keymap profile exceeds the 32 KiB limit.'' None None None] else [])"

definition leader_conflicts :: "keymapProfile \<Rightarrow> keymap_platform \<Rightarrow> keymapConflict list" where
  "leader_conflicts profile platform =
     (case normalizeKeyChord (kp_leader profile) of
        None \<Rightarrow> [conflict Invalid_Leader ''The leader is not a valid key chord.'' None
                   (Some (kp_leader profile)) None]
      | Some leader \<Rightarrow>
          let c = classifyKeyBinding leader Kind_Leader platform in
          if rc_risk c = Browser_Risky \<and> confirmedLeaderRisky profile \<noteq> Some True then
            [conflict Risky_Confirmation_Required (reason_or c ''The leader needs confirmation.'')
               None (Some leader) (Some (rc_risk c))]
          else if rc_risk c \<noteq> Risk_Safe \<and> rc_risk c \<noteq> Browser_Risky then
            [conflict Reserved_Binding (reason_or c ''The leader is reserved.'')
               None (Some leader) (Some (rc_risk c))]
          else [])"

fun override_loop ::
  "keymapOverride list \<Rightarrow> (commandId, keymapOverride) jsmap \<Rightarrow> keymapConflict list \<Rightarrow>
   (commandId, keymapOverride) jsmap \<times> keymapConflict list" where
  "override_loop [] m cs = (m, cs)"
| "override_loop (ov # ovs) m cs =
     (if map_has m (ko_command ov)
      then override_loop ovs m (cs @ [conflict Duplicate_Command
             (command_title (ko_command ov) @ '' has more than one override.'')
             (Some (ko_command ov)) None None])
      else override_loop ovs (map_set (ko_command ov) ov m) cs)"

record compileState =
  cs_prefix :: "prefixBinding list"
  cs_direct :: "directBinding list"
  cs_conflicts :: "keymapConflict list"

definition refuse :: "keymapConflict \<Rightarrow> compileState \<Rightarrow> compileState" where
  "refuse c s = s\<lparr>cs_conflicts := cs_conflicts s @ [c]\<rparr>"

definition override_prefix :: "commandId \<Rightarrow> string \<Rightarrow> prefixBinding" where
  "override_prefix c k =
     \<lparr>pb_id = ''override.'' @ command_name c, pb_key = k, pb_command = c, pb_desc = command_title c,
      pb_group = groupFor c, pb_hud = None, pb_keyRange = None, pb_repeatable = None\<rparr>"

definition override_direct :: "commandId \<Rightarrow> string \<Rightarrow> riskClassification \<Rightarrow> directBinding" where
  "override_direct c sequence r =
     \<lparr>db_id = ''override.'' @ command_name c, db_key = sequence, db_command = c,
      db_desc = command_title c, db_repeatable = None,
      db_riskyReason = (if rc_risk r = Browser_Risky then rc_reason r else None)\<rparr>"

text \<open>The body of the loop over the overrides, with its early \<open>continue\<close>s, and of its last part.\<close>

definition compile_sequence ::
  "keymap_platform \<Rightarrow> keymapOverride \<Rightarrow> string \<Rightarrow> compileState \<Rightarrow> compileState" where
  "compile_sequence platform ov sequence s =
     (let c = ko_command ov in
      if starts_with ''Leader '' sequence then
        let k = drop 7 sequence;
            r = classifyKeyBinding k Kind_Prefix platform
        in if rc_risk r \<noteq> Risk_Safe then
             refuse (conflict Reserved_Binding (reason_or r ''The leader key is reserved.'')
               (Some c) (Some sequence) (Some (rc_risk r))) s
           else s\<lparr>cs_prefix := cs_prefix s @ [override_prefix c k]\<rparr>
      else
        let r = classifyKeyBinding sequence Kind_Direct platform in
        if rc_risk r = Browser_Risky \<and> confirmedRisky ov \<noteq> Some True then
          refuse (conflict Risky_Confirmation_Required (reason_or r ''The binding needs confirmation.'')
            (Some c) (Some sequence) (Some (rc_risk r))) s
        else if rc_risk r \<noteq> Risk_Safe \<and> rc_risk r \<noteq> Browser_Risky then
          refuse (conflict Reserved_Binding (reason_or r ''The binding is reserved.'')
            (Some c) (Some sequence) (Some (rc_risk r))) s
        else s\<lparr>cs_direct := cs_direct s @ [override_direct c sequence r]\<rparr>)"

definition compile_override :: "keymap_platform \<Rightarrow> keymapOverride \<Rightarrow> compileState \<Rightarrow> compileState" where
  "compile_override platform ov s =
     (let c = ko_command ov in
      if c = Settings_Show then
        refuse (conflict Immutable_Recovery_Binding
          ''Open settings keeps Mod-, as an immutable keyboard recovery path.'' (Some c) (ko_binding ov) None) s
      else case ko_binding ov of
        None \<Rightarrow> s
      | Some binding \<Rightarrow>
          if c = Terminal_Jump then
            refuse (conflict Unsupported_Dynamic_Command
              (''Terminal position jump keeps its 1'' @ [CHR 0x96] @ ''9 range binding.'')
              (Some c) (Some binding) None) s
          else if MAX_KEY_BINDING_LENGTH < length binding then
            refuse (conflict Binding_Too_Long ''Bindings may be at most 64 characters.''
              (Some c) (Some binding) None) s
          else case normalizeKeySequence binding of
            None \<Rightarrow> refuse (conflict Invalid_Binding (command_title c @ '' has an invalid binding.'')
                      (Some c) (Some binding) None) s
          | Some sequence \<Rightarrow> compile_sequence platform ov sequence s)"

text \<open>
  A loop that assigns keys: \<open>key\<close> gives the key of a binding, and a second claim is a conflict.
\<close>

fun assign_keys ::
  "('b \<Rightarrow> string) \<Rightarrow> ('b \<Rightarrow> string) \<Rightarrow> ('b \<Rightarrow> commandId) \<Rightarrow> 'b list \<Rightarrow> (string, commandId) jsmap \<Rightarrow>
   keymapConflict list \<Rightarrow> (string, commandId) jsmap \<times> keymapConflict list" where
  "assign_keys key shown command [] m cs = (m, cs)"
| "assign_keys key shown command (b # bs) m cs =
     (case map_of m (key b) of
        Some previous \<Rightarrow> assign_keys key shown command bs m (cs @ [conflict Duplicate_Binding
          (shown b @ '' is already assigned to '' @ command_title previous @ ''.'')
          (Some (command b)) (Some (shown b)) None])
      | None \<Rightarrow> assign_keys key shown command bs (map_set (key b) (command b) m) cs)"

definition prefix_key :: "prefixBinding \<Rightarrow> string" where
  "prefix_key b = (case normalizePrefixKey (pb_key b) of Some k \<Rightarrow> k | None \<Rightarrow> pb_key b)"

definition direct_key :: "keymap_platform \<Rightarrow> directBinding \<Rightarrow> string" where
  "direct_key platform b =
     canonicalChordForPlatform
       (case normalizeKeyChord (db_key b) of Some k \<Rightarrow> k | None \<Rightarrow> db_key b) platform"

definition ambiguity_conflicts ::
  "keymap_platform \<Rightarrow> string option \<Rightarrow> (string, commandId) jsmap \<Rightarrow> keymapConflict list" where
  "ambiguity_conflicts platform leader directKeys =
     (case leader of
        None \<Rightarrow> []
      | Some l \<Rightarrow>
          (case map_of directKeys (canonicalChordForPlatform l platform) of
             None \<Rightarrow> []
           | Some ambiguous \<Rightarrow> [conflict Prefix_Ambiguity
               (l @ '' cannot be both the leader and '' @ command_title ambiguous @ ''.'')
               (Some ambiguous) (Some l) None]))"

definition REQUIRED_COMMANDS :: "commandId list" where
  "REQUIRED_COMMANDS = [CommandPalette_Show, Settings_Show, Keymap_Reset]"

definition reachable_command :: "prefixBinding list \<Rightarrow> directBinding list \<Rightarrow> commandId \<Rightarrow> bool" where
  "reachable_command ps ds c \<longleftrightarrow>
     list_ex (\<lambda>b. pb_command b = c) ps \<or> list_ex (\<lambda>b. db_command b = c) ds"

definition required_conflicts :: "prefixBinding list \<Rightarrow> directBinding list \<Rightarrow> keymapConflict list" where
  "required_conflicts ps ds =
     map (\<lambda>c. conflict Required_Command_Unreachable
            (command_title c @ '' must keep a keyboard recovery path.'') (Some c) None None)
       (filter (\<lambda>c. \<not> reachable_command ps ds c) REQUIRED_COMMANDS)"

definition compileKeymap ::
  "(keymapProfile \<Rightarrow> string) \<Rightarrow> 'a keymapCatalog_scheme \<Rightarrow> keymapProfile \<Rightarrow> keymap_platform \<Rightarrow>
   keymapConflict list + effectiveKeymap" where
  "compileKeymap stringify defaults profile platform =
     (let leader = normalizeKeyChord (kp_leader profile);
          (overrides, conflicts0) = override_loop (kp_bindings profile) []
             (limit_conflicts stringify profile @ leader_conflicts profile platform);
          kept = (\<lambda>c. \<not> map_has overrides c);
          s = fold (compile_override platform) (map_values overrides)
                \<lparr>cs_prefix = filter (\<lambda>b. kept (pb_command b)) (prefixBindings defaults),
                 cs_direct = filter (\<lambda>b. kept (db_command b)) (directBindings defaults),
                 cs_conflicts = conflicts0\<rparr>;
          (prefixKeys, conflicts1) = assign_keys prefix_key pb_key pb_command (cs_prefix s) [] (cs_conflicts s);
          (directKeys, conflicts2) = assign_keys (direct_key platform) db_key db_command (cs_direct s) [] conflicts1;
          conflicts = conflicts2 @ ambiguity_conflicts platform leader directKeys
                      @ required_conflicts (cs_prefix s) (cs_direct s)
      in case leader of
           None \<Rightarrow> Inl conflicts
         | Some l \<Rightarrow>
             if conflicts \<noteq> [] then Inl conflicts
             else Inr \<lparr>km_leader = l, prefixBindings = cs_prefix s, directBindings = cs_direct s,
                       contextBindings = filter (\<lambda>b. kept (cb_command b)) (contextBindings defaults),
                       km_source = profile\<rparr>)"

section \<open>Stored profiles and captured keys\<close>

datatype profileDiagnostic = Profile_Empty | Profile_Oversized | Profile_Invalid | Profile_Newer_Version

definition decodeKeymapProfileJson ::
  "(string \<Rightarrow> keymapProfile option) \<Rightarrow> (string \<Rightarrow> jsnum option) \<Rightarrow> string option \<Rightarrow>
   profileDiagnostic + keymapProfile" where
  "decodeKeymapProfileJson decode probe raw =
     (case raw of
        None \<Rightarrow> Inl Profile_Empty
      | Some r \<Rightarrow>
          if MAX_KEYMAP_JSON_BYTES < utf8_bytes r then Inl Profile_Oversized
          else if trim r = [] then Inl Profile_Empty
          else case decode r of
            Some profile \<Rightarrow> Inr profile
          | None \<Rightarrow>
              (case probe r of
                 Some version \<Rightarrow> if js_less (js_int (int KEYMAP_PROFILE_VERSION)) version
                                 then Inl Profile_Newer_Version else Inl Profile_Invalid
               | None \<Rightarrow> Inl Profile_Invalid))"

definition matches_ignoring_case :: "string list \<Rightarrow> string \<Rightarrow> bool" where
  "matches_ignoring_case alternatives s \<longleftrightarrow>
     list_ex (\<lambda>t. contains (toLowerCase t) (toLowerCase s)) alternatives"

definition keymapPlatform :: "string \<Rightarrow> string \<Rightarrow> keymap_platform" where
  "keymapPlatform navigatorPlatform processPlatform =
     (if matches_ignoring_case [''Mac'', ''iPhone'', ''iPad'', ''iPod''] navigatorPlatform
         \<or> processPlatform = ''darwin'' then Mac
      else if matches_ignoring_case [''Win''] navigatorPlatform \<or> processPlatform = ''win32'' then Windows
      else Linux)"

definition bindingFromKeyboardEvent :: "'a keyEventLike_scheme \<Rightarrow> keymap_platform \<Rightarrow> string option" where
  "bindingFromKeyboardEvent e platform =
     (case (if ke_key e = '' '' then Some ''Space'' else normalizedKey (ke_key e)) of
        None \<Rightarrow> None
      | Some k \<Rightarrow>
          if k = ''Escape'' then None
          else
            let modifiers =
                 (if (if platform = Mac then metaKey e else ctrlKey e) then [''Mod''] else [])
               @ (if platform = Mac \<and> ctrlKey e then [''Ctrl''] else [])
               @ (if platform \<noteq> Mac \<and> metaKey e then [''Cmd''] else [])
               @ (if altKey e then [''Alt''] else [])
               @ (if shiftKey e then [''Shift''] else [])
            in normalizeKeyChord (js_join CHR ''-'' (modifiers @ [k])))"

section \<open>What one override adds\<close>

definition no_bindings :: compileState where
  "no_bindings = \<lparr>cs_prefix = [], cs_direct = [], cs_conflicts = []\<rparr>"

definition merge_state :: "compileState \<Rightarrow> compileState \<Rightarrow> compileState" where
  "merge_state s d = \<lparr>cs_prefix = cs_prefix s @ cs_prefix d, cs_direct = cs_direct s @ cs_direct d,
     cs_conflicts = cs_conflicts s @ cs_conflicts d\<rparr>"

lemma merge_state_sel [simp]:
  "cs_prefix (merge_state s d) = cs_prefix s @ cs_prefix d"
  "cs_direct (merge_state s d) = cs_direct s @ cs_direct d"
  "cs_conflicts (merge_state s d) = cs_conflicts s @ cs_conflicts d"
  by (simp_all add: merge_state_def)

lemma merge_state_base:
  "refuse c s = merge_state s (refuse c no_bindings)"
  "s\<lparr>cs_prefix := cs_prefix s @ [p]\<rparr> = merge_state s (no_bindings\<lparr>cs_prefix := cs_prefix no_bindings @ [p]\<rparr>)"
  "s\<lparr>cs_direct := cs_direct s @ [b]\<rparr> = merge_state s (no_bindings\<lparr>cs_direct := cs_direct no_bindings @ [b]\<rparr>)"
  "s = merge_state s no_bindings"
  by (simp_all add: refuse_def merge_state_def no_bindings_def)

lemma compile_sequence_merge:
  "compile_sequence platform ov sequence s = merge_state s (compile_sequence platform ov sequence no_bindings)"
  unfolding compile_sequence_def Let_def by (simp only: if_distrib [of "merge_state s"] merge_state_base [symmetric])

lemma compile_override_merge:
  "compile_override platform ov s = merge_state s (compile_override platform ov no_bindings)"
  unfolding compile_override_def Let_def
  by (simp only: if_distrib [of "merge_state s"] option.case_distrib [of "merge_state s"]
      merge_state_base [symmetric] compile_sequence_merge [symmetric])

lemma fold_compile_override:
  "cs_prefix (fold (compile_override platform) ovs s) =
     cs_prefix s @ concat (map (\<lambda>ov. cs_prefix (compile_override platform ov no_bindings)) ovs)"
  "cs_direct (fold (compile_override platform) ovs s) =
     cs_direct s @ concat (map (\<lambda>ov. cs_direct (compile_override platform ov no_bindings)) ovs)"
  "cs_conflicts (fold (compile_override platform) ovs s) =
     cs_conflicts s @ concat (map (\<lambda>ov. cs_conflicts (compile_override platform ov no_bindings)) ovs)"
proof (induction ovs arbitrary: s)
  case (Cons ov ovs)
  { case 1 show ?case by (simp add: Cons compile_override_merge [of platform ov s]) }
  { case 2 show ?case by (simp add: Cons compile_override_merge [of platform ov s]) }
  { case 3 show ?case by (simp add: Cons compile_override_merge [of platform ov s]) }
qed simp_all

text \<open>The loops that detect duplicates: they accept exactly lists without one, and then keep all.\<close>

lemma override_loop_conflicts: "\<exists>ds. snd (override_loop ovs m cs) = cs @ ds"
  by (induction ovs m cs rule: override_loop.induct) (auto simp: Let_def)

lemma override_loop_empty: "snd (override_loop ovs m cs) = [] \<Longrightarrow> cs = []"
  using override_loop_conflicts [of ovs m cs] by auto

lemma override_loop_ok:
  assumes "snd (override_loop ovs m cs) = []"
  shows "distinct (map ko_command ovs) \<and> set (map ko_command ovs) \<inter> set (map_keys m) = {} \<and> cs = []
     \<and> fst (override_loop ovs m cs) = m @ map (\<lambda>ov. (ko_command ov, ov)) ovs"
  using assms
proof (induction ovs m cs rule: override_loop.induct)
  case (2 ov ovs m cs)
  show ?case
  proof (cases "map_has m (ko_command ov)")
    case True
    with "2.prems" have False by (auto dest: override_loop_empty)
    then show ?thesis ..
  next
    case False
    then have new: "ko_command ov \<notin> set (map_keys m)" by (simp add: map_of_eq_None_iff)
    then have "map_set (ko_command ov) ov m = m @ [(ko_command ov, ov)]"
      by (induction m) auto
    with False "2.IH"(2) "2.prems" new show ?thesis by auto
  qed
qed simp

lemma assign_keys_conflicts: "\<exists>ds. snd (assign_keys key shown command bs m cs) = cs @ ds"
  by (induction key shown command bs m cs rule: assign_keys.induct) (auto split: option.splits)

lemma assign_keys_empty: "snd (assign_keys key shown command bs m cs) = [] \<Longrightarrow> cs = []"
  using assign_keys_conflicts [of key shown command bs m cs] by auto

lemma assign_keys_ok:
  assumes "snd (assign_keys key shown command bs m cs) = []"
  shows "distinct (map key bs) \<and> set (map key bs) \<inter> set (map_keys m) = {} \<and> cs = []
     \<and> fst (assign_keys key shown command bs m cs) = m @ map (\<lambda>b. (key b, command b)) bs"
  using assms
proof (induction key shown command bs m cs rule: assign_keys.induct)
  case (2 key shown command b bs m cs)
  show ?case
  proof (cases "map_of m (key b)")
    case (Some p)
    have False using "2.prems" unfolding assign_keys.simps Some option.case by (auto dest: assign_keys_empty)
    then show ?thesis ..
  next
    case None
    then have new: "key b \<notin> set (map_keys m)" by (simp add: map_of_eq_None_iff)
    then have "map_set (key b) (command b) m = m @ [(key b, command b)]"
      by (induction m) auto
    with None "2.IH"(1) "2.prems" new show ?thesis by auto
  qed
qed simp

section \<open>What a compiled keymap is\<close>

text \<open>
  The specification of an override that was accepted: the prefix and the direct bindings it stands for.
\<close>

definition leader_sequence :: "keymapOverride \<Rightarrow> string option" where
  "leader_sequence ov =
     (case Option.bind (ko_binding ov) normalizeKeySequence of
        Some q \<Rightarrow> if starts_with ''Leader '' q then Some (drop 7 q) else None | None \<Rightarrow> None)"

definition direct_sequence :: "keymapOverride \<Rightarrow> string option" where
  "direct_sequence ov =
     (case Option.bind (ko_binding ov) normalizeKeySequence of
        Some q \<Rightarrow> if starts_with ''Leader '' q then None else Some q | None \<Rightarrow> None)"

definition prefix_of_override :: "keymapOverride \<Rightarrow> prefixBinding list" where
  "prefix_of_override ov =
     (case leader_sequence ov of Some k \<Rightarrow> [override_prefix (ko_command ov) k] | None \<Rightarrow> [])"

definition direct_of_override :: "keymap_platform \<Rightarrow> keymapOverride \<Rightarrow> directBinding list" where
  "direct_of_override platform ov =
     (case direct_sequence ov of
        Some q \<Rightarrow> [override_direct (ko_command ov) q (classifyKeyBinding q Kind_Direct platform)]
      | None \<Rightarrow> [])"

text \<open>A classification that lets a chord be bound, given the user's confirmation.\<close>

definition permitted :: "riskClassification \<Rightarrow> bool option \<Rightarrow> bool" where
  "permitted r confirmed \<longleftrightarrow> rc_risk r = Risk_Safe \<or> rc_risk r = Browser_Risky \<and> confirmed = Some True"

definition override_valid :: "keymap_platform \<Rightarrow> keymapOverride \<Rightarrow> bool" where
  "override_valid platform ov \<longleftrightarrow>
     ko_command ov \<noteq> Settings_Show \<and>
     (ko_binding ov = None \<or>
      ko_command ov \<noteq> Terminal_Jump \<and> length (the (ko_binding ov)) \<le> MAX_KEY_BINDING_LENGTH \<and>
      (case leader_sequence ov of
         Some k \<Rightarrow> rc_risk (classifyKeyBinding k Kind_Prefix platform) = Risk_Safe
       | None \<Rightarrow> (case direct_sequence ov of
                    Some q \<Rightarrow> permitted (classifyKeyBinding q Kind_Direct platform) (confirmedRisky ov)
                  | None \<Rightarrow> False)))"

lemma refuse_no_bindings [simp]:
  "cs_conflicts (refuse c s) = cs_conflicts s @ [c]" "cs_prefix (refuse c s) = cs_prefix s"
  "cs_direct (refuse c s) = cs_direct s"
  by (simp_all add: refuse_def)

lemma no_bindings_sel [simp]:
  "cs_conflicts no_bindings = []" "cs_prefix no_bindings = []" "cs_direct no_bindings = []"
  by (simp_all add: no_bindings_def)

lemma compile_sequence_exact:
  "cs_conflicts (compile_sequence platform ov q no_bindings) = [] \<longleftrightarrow>
     (if starts_with ''Leader '' q
      then rc_risk (classifyKeyBinding (drop 7 q) Kind_Prefix platform) = Risk_Safe
      else permitted (classifyKeyBinding q Kind_Direct platform) (confirmedRisky ov))"
  "cs_conflicts (compile_sequence platform ov q no_bindings) = [] \<Longrightarrow>
     cs_prefix (compile_sequence platform ov q no_bindings) =
       (if starts_with ''Leader '' q then [override_prefix (ko_command ov) (drop 7 q)] else []) \<and>
     cs_direct (compile_sequence platform ov q no_bindings) =
       (if starts_with ''Leader '' q then []
        else [override_direct (ko_command ov) q (classifyKeyBinding q Kind_Direct platform)])"
  by (auto simp: compile_sequence_def Let_def permitted_def split: if_splits)

lemma compile_override_exact:
  "cs_conflicts (compile_override platform ov no_bindings) = [] \<longleftrightarrow> override_valid platform ov"
  "override_valid platform ov \<Longrightarrow>
     cs_prefix (compile_override platform ov no_bindings) = prefix_of_override ov \<and>
     cs_direct (compile_override platform ov no_bindings) = direct_of_override platform ov"
proof -
  show 1: "cs_conflicts (compile_override platform ov no_bindings) = [] \<longleftrightarrow> override_valid platform ov"
    by (auto simp: compile_override_def Let_def override_valid_def leader_sequence_def direct_sequence_def
        compile_sequence_exact(1) not_less split: option.splits if_splits)
  assume v: "override_valid platform ov"
  with 1 have e: "cs_conflicts (compile_override platform ov no_bindings) = []" by simp
  show "cs_prefix (compile_override platform ov no_bindings) = prefix_of_override ov \<and>
     cs_direct (compile_override platform ov no_bindings) = direct_of_override platform ov"
  proof (cases "ko_binding ov")
    case None
    with v show ?thesis
      by (simp add: compile_override_def override_valid_def prefix_of_override_def direct_of_override_def
          leader_sequence_def direct_sequence_def)
  next
    case (Some b)
    with v obtain q where q: "normalizeKeySequence b = Some q" "ko_command ov \<noteq> Settings_Show"
      "ko_command ov \<noteq> Terminal_Jump" "length b \<le> MAX_KEY_BINDING_LENGTH"
      by (auto simp: override_valid_def leader_sequence_def direct_sequence_def split: option.splits if_splits)
    with Some have c: "compile_override platform ov no_bindings = compile_sequence platform ov q no_bindings"
      by (simp add: compile_override_def Let_def)
    with compile_sequence_exact(2) [of platform ov q] e q(1) Some show ?thesis
      by (auto simp: prefix_of_override_def direct_of_override_def leader_sequence_def direct_sequence_def)
  qed
qed

lemma leader_conflicts_exact:
  "leader_conflicts profile platform = [] \<longleftrightarrow>
     (\<exists>l. normalizeKeyChord (kp_leader profile) = Some l \<and>
          permitted (classifyKeyBinding l Kind_Leader platform) (confirmedLeaderRisky profile))"
  by (auto simp: leader_conflicts_def Let_def permitted_def split: option.splits)

lemma limit_conflicts_exact:
  "limit_conflicts stringify profile = [] \<longleftrightarrow>
     length (kp_bindings profile) \<le> MAX_KEYMAP_BINDINGS \<and>
     length (stringify profile) \<le> MAX_KEYMAP_JSON_BYTES"
  by (auto simp: limit_conflicts_def)

text \<open>The predicate of profiles that compile over given defaults.\<close>

definition overridden :: "keymapProfile \<Rightarrow> commandId \<Rightarrow> bool" where
  "overridden profile c \<longleftrightarrow> c \<in> set (map ko_command (kp_bindings profile))"

definition effective_prefix :: "'a keymapCatalog_scheme \<Rightarrow> keymapProfile \<Rightarrow> prefixBinding list" where
  "effective_prefix defaults profile =
     filter (\<lambda>b. \<not> overridden profile (pb_command b)) (prefixBindings defaults)
     @ concat (map prefix_of_override (kp_bindings profile))"

definition effective_direct ::
  "'a keymapCatalog_scheme \<Rightarrow> keymapProfile \<Rightarrow> keymap_platform \<Rightarrow> directBinding list" where
  "effective_direct defaults profile platform =
     filter (\<lambda>b. \<not> overridden profile (db_command b)) (directBindings defaults)
     @ concat (map (direct_of_override platform) (kp_bindings profile))"

definition effective_context :: "'a keymapCatalog_scheme \<Rightarrow> keymapProfile \<Rightarrow> contextBinding list" where
  "effective_context defaults profile =
     filter (\<lambda>b. \<not> overridden profile (cb_command b)) (contextBindings defaults)"

definition profile_valid ::
  "(keymapProfile \<Rightarrow> string) \<Rightarrow> 'a keymapCatalog_scheme \<Rightarrow> keymapProfile \<Rightarrow> keymap_platform \<Rightarrow> string \<Rightarrow> bool"
  where
  "profile_valid stringify defaults profile platform l \<longleftrightarrow>
     length (kp_bindings profile) \<le> MAX_KEYMAP_BINDINGS \<and>
     length (stringify profile) \<le> MAX_KEYMAP_JSON_BYTES \<and>
     normalizeKeyChord (kp_leader profile) = Some l \<and>
     permitted (classifyKeyBinding l Kind_Leader platform) (confirmedLeaderRisky profile) \<and>
     distinct (map ko_command (kp_bindings profile)) \<and>
     list_all (override_valid platform) (kp_bindings profile) \<and>
     distinct (map prefix_key (effective_prefix defaults profile)) \<and>
     distinct (map (direct_key platform) (effective_direct defaults profile platform)) \<and>
     canonicalChordForPlatform l platform
       \<notin> set (map (direct_key platform) (effective_direct defaults profile platform)) \<and>
     list_all (reachable_command (effective_prefix defaults profile) (effective_direct defaults profile platform))
       REQUIRED_COMMANDS"

lemma override_loop_distinct:
  "distinct (map ko_command ovs) \<Longrightarrow> set (map ko_command ovs) \<inter> set (map_keys m) = {} \<Longrightarrow>
   override_loop ovs m cs = (m @ map (\<lambda>ov. (ko_command ov, ov)) ovs, cs)"
proof (induction ovs m cs rule: override_loop.induct)
  case (2 ov ovs m cs)
  then have new: "ko_command ov \<notin> set (map_keys m)" by simp
  then have "map_set (ko_command ov) ov m = m @ [(ko_command ov, ov)]"
    by (induction m) auto
  moreover from new have "\<not> map_has m (ko_command ov)" by (simp add: map_of_eq_None_iff)
  ultimately show ?case using 2 by simp
qed simp

lemma assign_keys_distinct:
  "distinct (map key bs) \<Longrightarrow> set (map key bs) \<inter> set (map_keys m) = {} \<Longrightarrow>
   assign_keys key shown command bs m cs = (m @ map (\<lambda>b. (key b, command b)) bs, cs)"
proof (induction key shown command bs m cs rule: assign_keys.induct)
  case (2 key shown command b bs m cs)
  then have new: "key b \<notin> set (map_keys m)" by simp
  then have "map_set (key b) (command b) m = m @ [(key b, command b)]"
    by (induction m) auto
  moreover from new have "map_of m (key b) = None" by (simp add: map_of_eq_None_iff)
  ultimately show ?case using 2 by simp
qed simp

lemma effects_of_valid:
  assumes "list_all (override_valid platform) ovs"
  shows "concat (map (\<lambda>ov. cs_prefix (compile_override platform ov no_bindings)) ovs)
           = concat (map prefix_of_override ovs)"
    and "concat (map (\<lambda>ov. cs_direct (compile_override platform ov no_bindings)) ovs)
           = concat (map (direct_of_override platform) ovs)"
    and "concat (map (\<lambda>ov. cs_conflicts (compile_override platform ov no_bindings)) ovs) = []"
  using assms compile_override_exact by (induction ovs) auto

lemma required_exact: "required_conflicts ps ds = [] \<longleftrightarrow> list_all (reachable_command ps ds) REQUIRED_COMMANDS"
  by (simp add: required_conflicts_def filter_empty_conv list_all_iff)

lemma ambiguity_exact:
  "ambiguity_conflicts platform (Some l) (map (\<lambda>b. (key b, command b)) bs) = [] \<longleftrightarrow>
     canonicalChordForPlatform l platform \<notin> set (map key bs)"
proof -
  have "map_of (map (\<lambda>b. (key b, command b)) bs) k = None \<longleftrightarrow> k \<notin> set (map key bs)" for k
    by (induction bs) auto
  from this [of "canonicalChordForPlatform l platform"] show ?thesis
    unfolding ambiguity_conflicts_def option.case
    by (cases "map_of (map (\<lambda>b. (key b, command b)) bs) (canonicalChordForPlatform l platform)") simp_all
qed

definition effective_keymap ::
  "'a keymapCatalog_scheme \<Rightarrow> keymapProfile \<Rightarrow> keymap_platform \<Rightarrow> string \<Rightarrow> effectiveKeymap" where
  "effective_keymap defaults profile platform l =
     \<lparr>km_leader = l, prefixBindings = effective_prefix defaults profile,
      directBindings = effective_direct defaults profile platform,
      contextBindings = effective_context defaults profile, km_source = profile\<rparr>"

lemma overridden_None:
  "map_of (map (\<lambda>ov. (ko_command ov, ov)) (kp_bindings profile)) c = None \<longleftrightarrow> \<not> overridden profile c"
proof -
  have "map_of (map (\<lambda>ov. (ko_command ov, ov)) ovs) c = None \<longleftrightarrow> c \<notin> set (map ko_command ovs)" for ovs
    by (induction ovs) auto
  from this [of "kp_bindings profile"] show ?thesis unfolding overridden_def .
qed

lemma overridden_map_of:
  "map_has (map (\<lambda>ov. (ko_command ov, ov)) (kp_bindings profile)) c \<longleftrightarrow> overridden profile c"
  unfolding overridden_None by (rule not_not)

lemma compile_valid:
  assumes "profile_valid stringify defaults profile platform l"
  shows "compileKeymap stringify defaults profile platform = Inr (effective_keymap defaults profile platform l)"
proof -
  let ?m = "map (\<lambda>ov. (ko_command ov, ov)) (kp_bindings profile)"
  let ?s = "fold (compile_override platform) (map_values ?m)
     \<lparr>cs_prefix = filter (\<lambda>b. \<not> map_has ?m (pb_command b)) (prefixBindings defaults),
      cs_direct = filter (\<lambda>b. \<not> map_has ?m (db_command b)) (directBindings defaults), cs_conflicts = []\<rparr>"
  note v = assms [unfolded profile_valid_def]
  have v0: "limit_conflicts stringify profile @ leader_conflicts profile platform = []"
    using v by (simp add: limit_conflicts_exact leader_conflicts_exact)
  have ovs: "override_loop (kp_bindings profile) [] [] = (?m, [])"
    using override_loop_distinct [of "kp_bindings profile" "[]"] v by simp
  have "map_values ?m = kp_bindings profile" by (simp add: o_def)
  with v effects_of_valid [of platform "kp_bindings profile"]
  have s: "cs_prefix ?s = effective_prefix defaults profile"
    "cs_direct ?s = effective_direct defaults profile platform" "cs_conflicts ?s = []"
    unfolding overridden_map_of
    by (simp_all add: fold_compile_override effective_prefix_def effective_direct_def)
  have ps: "assign_keys prefix_key pb_key pb_command (effective_prefix defaults profile) [] []
      = (map (\<lambda>b. (prefix_key b, pb_command b)) (effective_prefix defaults profile), [])"
    using assign_keys_distinct [of prefix_key "effective_prefix defaults profile" "[]"] v by simp
  have ds: "assign_keys (direct_key platform) db_key db_command (effective_direct defaults profile platform) [] []
      = (map (\<lambda>b. (direct_key platform b, db_command b)) (effective_direct defaults profile platform), [])"
    using assign_keys_distinct [of "direct_key platform" "effective_direct defaults profile platform" "[]"] v by simp
  have "ambiguity_conflicts platform (Some l)
      (map (\<lambda>b. (direct_key platform b, db_command b)) (effective_direct defaults profile platform)) = []"
    using v unfolding ambiguity_exact by simp
  with v v0 ovs s ps ds show ?thesis
    unfolding compileKeymap_def Let_def
    by (simp add: required_exact effective_keymap_def effective_context_def overridden_None
        del: map_of_eq_None_iff)
qed

lemma compile_Inr:
  assumes "compileKeymap stringify defaults profile platform = Inr km"
  shows "\<exists>l. profile_valid stringify defaults profile platform l"
proof -
  let ?cs = "limit_conflicts stringify profile @ leader_conflicts profile platform"
  let ?o = "override_loop (kp_bindings profile) [] ?cs"
  let ?s = "fold (compile_override platform) (map_values (fst ?o))
     \<lparr>cs_prefix = filter (\<lambda>b. \<not> map_has (fst ?o) (pb_command b)) (prefixBindings defaults),
      cs_direct = filter (\<lambda>b. \<not> map_has (fst ?o) (db_command b)) (directBindings defaults), cs_conflicts = snd ?o\<rparr>"
  let ?p = "assign_keys prefix_key pb_key pb_command (cs_prefix ?s) [] (cs_conflicts ?s)"
  let ?d = "assign_keys (direct_key platform) db_key db_command (cs_direct ?s) [] (snd ?p)"
  have all: "snd ?d @ ambiguity_conflicts platform (normalizeKeyChord (kp_leader profile)) (fst ?d)
      @ required_conflicts (cs_prefix ?s) (cs_direct ?s) = []"
    using assms unfolding compileKeymap_def Let_def split_beta by (auto split: option.splits if_splits)
  from all have d: "snd ?d = []" by simp
  note d' = assign_keys_ok [OF d]
  then have p: "snd ?p = []" by simp
  note p' = assign_keys_ok [OF p]
  then have s: "cs_conflicts ?s = []" by simp
  then have o: "snd ?o = []" by (simp add: fold_compile_override)
  note o' = override_loop_ok [OF o]
  then have m: "fst ?o = map (\<lambda>ov. (ko_command ov, ov)) (kp_bindings profile)"
    unfolding append_Nil by blast
  then have vs: "map_values (fst ?o) = kp_bindings profile" by (simp add: o_def)
  have ok: "list_all (override_valid platform) (kp_bindings profile)"
    using s unfolding vs fold_compile_override by (auto simp: list_all_iff compile_override_exact(1))
  from o' have c: "?cs = []" by simp
  then obtain l where l: "normalizeKeyChord (kp_leader profile) = Some l"
      "permitted (classifyKeyBinding l Kind_Leader platform) (confirmedLeaderRisky profile)"
    by (auto simp: leader_conflicts_exact)
  have e: "cs_prefix ?s = effective_prefix defaults profile"
    "cs_direct ?s = effective_direct defaults profile platform"
    unfolding fold_compile_override vs effects_of_valid [OF ok]
    unfolding m overridden_map_of by (simp_all add: effective_prefix_def effective_direct_def)
  have "canonicalChordForPlatform l platform
      \<notin> set (map (direct_key platform) (effective_direct defaults profile platform))"
  proof -
    have fd: "fst ?d = map (\<lambda>b. (direct_key platform b, db_command b)) (cs_direct ?s)"
      using d' unfolding append_Nil by blast
    have "ambiguity_conflicts platform (normalizeKeyChord (kp_leader profile)) (fst ?d) = []"
      using all unfolding append_is_Nil_conv by blast
    from this [unfolded fd] show ?thesis unfolding l(1) ambiguity_exact e .
  qed
  moreover have "list_all (reachable_command (effective_prefix defaults profile)
      (effective_direct defaults profile platform)) REQUIRED_COMMANDS"
    using all unfolding e by (simp add: required_exact)
  ultimately have "profile_valid stringify defaults profile platform l"
    using c l ok o' p' d' unfolding e profile_valid_def by (simp add: limit_conflicts_exact)
  then show ?thesis ..
qed

text \<open>
  C8: The compiler of keymaps is exact. It accepts a profile precisely when the profile is within its
  limits, its leader and every override are permitted, no command is overridden twice, no two
  bindings claim a key, the leader is not also bound, and the recovery commands stay reachable; and
  then the keymap consists of the defaults of the commands not overridden and of the overrides.
\<close>

theorem compileKeymap_exact:
  "compileKeymap stringify defaults profile platform = Inr km \<longleftrightarrow>
     (\<exists>l. profile_valid stringify defaults profile platform l \<and>
          km = effective_keymap defaults profile platform l)"
  using compile_valid [of stringify defaults profile platform] compile_Inr by fastforce

end
