(* ===== verification/Key_Dispatch.thy ===== *)
theory Key_Dispatch
  imports Keymap_Profile
begin

text \<open>
  The default bindings and what a key press does, \<^verbatim>\<open>packages/yaade-app/src/keybindings.ts\<close>, and the
  keymap that is installed, \<^verbatim>\<open>effective-keymap.ts\<close>. A press while the leader is pending is looked up
  among the prefix bindings, any other among the direct ones. The functions take the keymap that
  \<open>currentKeymap\<close> chooses, \<open>mac\<close> is the answer of \<open>isMacPlatform\<close>, and the mutable chord state is
  passed and returned.
\<close>

section \<open>The default keymap\<close>

definition SHELL_PREFIX :: string where
  "SHELL_PREFIX = ''Mod-k''"

text \<open>\<open>hud\<close> and \<open>repeatable\<close> are set by none of the bindings.\<close>

definition prefix_binding ::
  "string \<Rightarrow> string \<Rightarrow> commandId \<Rightarrow> prefixGroup \<Rightarrow> keyRange option \<Rightarrow> prefixBinding" where
  "prefix_binding i k c g r =
     \<lparr>pb_id = i, pb_key = k, pb_command = c, pb_desc = command_title c, pb_group = g,
      pb_hud = None, pb_keyRange = r, pb_repeatable = None\<rparr>"

definition direct_binding :: "string \<Rightarrow> string \<Rightarrow> commandId \<Rightarrow> string option \<Rightarrow> directBinding" where
  "direct_binding i k c r =
     \<lparr>db_id = i, db_key = k, db_command = c, db_desc = command_title c, db_repeatable = None,
      db_riskyReason = r\<rparr>"

definition MUX_SESSION_PREFIX_GROUPS :: "(prefixGroup \<times> string) list" where
  "MUX_SESSION_PREFIX_GROUPS =
     [(Group_Open, ''Open''), (Group_Navigate, ''Navigate''), (Group_Actions, ''Actions'')]"

definition MUX_SESSION_PREFIX_BINDINGS :: "prefixBinding list" where
  "MUX_SESSION_PREFIX_BINDINGS =
     [prefix_binding ''prefix.commands'' ''c'' CommandPalette_Show Group_Open None,
      prefix_binding ''prefix.terminal.new'' ''t'' Terminal_NewTerminal Group_Open None,
      prefix_binding ''prefix.terminal.switch'' ''u'' Terminal_Switch Group_Open None,
      prefix_binding ''prefix.terminal.switchPrevious'' ''b'' Terminal_SwitchPrevious Group_Navigate None,
      prefix_binding ''prefix.session.switch'' ''/'' Session_Switch Group_Open None,
      prefix_binding ''prefix.session.new'' ''s'' Session_New Group_Open None,
      prefix_binding ''prefix.tab.new'' ''w'' Tab_New Group_Open None,
      prefix_binding ''prefix.settings.show'' '','' Settings_Show Group_Open None,
      prefix_binding ''prefix.keymap.reset'' ''Shift-R'' Keymap_Reset Group_Actions None,
      prefix_binding ''prefix.terminal.next'' ''n'' Terminal_Next Group_Navigate None,
      prefix_binding ''prefix.terminal.previous'' ''Shift-N'' Terminal_Previous Group_Navigate None,
      prefix_binding ''prefix.tab.next'' '']'' Tab_Next Group_Navigate None,
      prefix_binding ''prefix.tab.previous'' ''['' Tab_Previous Group_Navigate None,
      prefix_binding ''prefix.terminal.jump'' (''1'' @ [CHR 0x96] @ ''9'') Terminal_Jump Group_Navigate (Some Terminal_Position),
      prefix_binding ''prefix.terminal.jumpLive'' ''g'' Terminal_JumpLive Group_Navigate None,
      prefix_binding ''prefix.terminal.toggleInspectionPause'' ''Shift-G'' Terminal_ToggleInspectionPause Group_Actions None,
      prefix_binding ''prefix.pane.zoom'' ''z'' Pane_Zoom Group_Actions None,
      prefix_binding ''prefix.terminal.close'' ''x'' Terminal_Close Group_Actions None,
      prefix_binding ''prefix.tab.close'' ''q'' Tab_Close Group_Actions None,
      prefix_binding ''prefix.session.close'' ''Shift-X'' Session_Close Group_Actions None]"

definition MUX_SESSION_DIRECT_BINDINGS :: "directBinding list" where
  "MUX_SESSION_DIRECT_BINDINGS =
     [direct_binding ''direct.pane.splitRight'' ''Mod-d'' Pane_SplitRight (Some ''Mod-d is the terminal multiplexer split chord.''),
      direct_binding ''direct.pane.splitDown'' ''Mod-Shift-d'' Pane_SplitDown (Some ''Mod-Shift-d is the terminal multiplexer split chord.''),
      direct_binding ''direct.sidebar.toggle'' ''Mod-b'' Sidebar_Toggle (Some ''Mod-b is the terminal multiplexer sidebar toggle chord.''),
      direct_binding ''direct.settings.show'' ''Mod-,'' Settings_Show None]"

definition MUX_SESSION_CONTEXT_BINDINGS :: "contextBinding list" where
  "MUX_SESSION_CONTEXT_BINDINGS = []"

definition DEFAULT_KEYMAP_CATALOG :: keymapCatalog where
  "DEFAULT_KEYMAP_CATALOG =
     \<lparr>km_leader = SHELL_PREFIX, prefixBindings = MUX_SESSION_PREFIX_BINDINGS,
      directBindings = MUX_SESSION_DIRECT_BINDINGS, contextBindings = MUX_SESSION_CONTEXT_BINDINGS\<rparr>"

definition MUX_SESSION_DUAL_PATH_COMMANDS :: "commandId list" where
  "MUX_SESSION_DUAL_PATH_COMMANDS = [Settings_Show]"

text \<open>The installed keymap is one variable, replaced as a whole.\<close>

type_synonym activeKeymap = "effectiveKeymap option"

definition installEffectiveKeymap :: "effectiveKeymap \<Rightarrow> activeKeymap" where
  "installEffectiveKeymap km = Some km"

definition currentKeymap :: "keymapCatalog option \<Rightarrow> activeKeymap \<Rightarrow> keymapCatalog" where
  "currentKeymap keymap active =
     (case keymap of Some k \<Rightarrow> k
      | None \<Rightarrow> (case active of Some km \<Rightarrow> keymapCatalog.truncate km | None \<Rightarrow> DEFAULT_KEYMAP_CATALOG))"

section \<open>Labels\<close>

definition muxSessionPrefixBindingKey :: "string \<Rightarrow> string \<Rightarrow> string" where
  "muxSessionPrefixBindingKey k prefix = prefix @ '' '' @ k"

definition muxSessionShortcutFor :: "commandId \<Rightarrow> 'a keymapCatalog_scheme \<Rightarrow> string option" where
  "muxSessionShortcutFor c current =
     (case find (\<lambda>b. pb_command b = c \<and> pb_hud b \<noteq> Some False) (prefixBindings current) of
        Some b \<Rightarrow> Some (muxSessionPrefixBindingKey (pb_key b) (km_leader current))
      | None \<Rightarrow> None)"

definition muxSessionDirectShortcutFor :: "commandId \<Rightarrow> 'a keymapCatalog_scheme \<Rightarrow> string option" where
  "muxSessionDirectShortcutFor c current =
     map_option db_key (find (\<lambda>b. db_command b = c) (directBindings current))"

definition muxSessionPrimaryShortcutFor :: "commandId \<Rightarrow> 'a keymapCatalog_scheme \<Rightarrow> string option" where
  "muxSessionPrimaryShortcutFor c current =
     (let by_id = (case cd_bindingId (the (commandDescriptor c)) of
            None \<Rightarrow> None
          | Some i \<Rightarrow>
              if i = [] then None
              else case find (\<lambda>b. db_id b = i) (directBindings current) of
                Some b \<Rightarrow> Some (db_key b)
              | None \<Rightarrow> map_option (\<lambda>b. muxSessionPrefixBindingKey (pb_key b) (km_leader current))
                          (find (\<lambda>b. pb_id b = i) (prefixBindings current)))
      in or_else by_id (or_else (muxSessionShortcutFor c current) (muxSessionDirectShortcutFor c current)))"

definition muxSessionHudBindings :: "'a keymapCatalog_scheme \<Rightarrow> prefixBinding list" where
  "muxSessionHudBindings current = filter (\<lambda>b. pb_hud b \<noteq> Some False) (prefixBindings current)"

section \<open>Matching\<close>

record muxKeyEvent = keyEventLike +
  ke_repeat :: bool
  isComposing :: bool

definition serializeMuxSessionPrefixKey :: "'a keyEventLike_scheme \<Rightarrow> string" where
  "serializeMuxSessionPrefixKey e =
     (if shiftKey e \<and> length (ke_key e) = 1 then ''Shift-'' @ toUpperCase (ke_key e)
      else if length (ke_key e) = 1 then toLowerCase (ke_key e)
      else ke_key e)"

definition isMuxSessionJumpKey :: "string \<Rightarrow> bool" where
  "isMuxSessionJumpKey k \<longleftrightarrow> length k = 1 \<and> k ! 0 \<in> set ''123456789''"

definition matchMuxSessionPrefixBinding :: "string \<Rightarrow> 'a keymapCatalog_scheme \<Rightarrow> prefixBinding option" where
  "matchMuxSessionPrefixBinding k current =
     (if isMuxSessionJumpKey k
      then find (\<lambda>b. pb_keyRange b = Some Terminal_Position) (prefixBindings current)
      else find (\<lambda>b. pb_keyRange b = None \<and> pb_key b = k) (prefixBindings current))"

definition matchMuxSessionDirectBinding ::
  "bool \<Rightarrow> 'b keyEventLike_scheme \<Rightarrow> 'a keymapCatalog_scheme \<Rightarrow> directBinding option" where
  "matchMuxSessionDirectBinding mac e current =
     find (\<lambda>b. keyEventMatchesBinding mac e (db_key b)) (directBindings current)"

definition matchMuxSessionContextBinding ::
  "'b keyEventLike_scheme \<Rightarrow> string option \<Rightarrow> 'a keymapCatalog_scheme \<Rightarrow> contextBinding option" where
  "matchMuxSessionContextBinding e kind current = None"

section \<open>One key press\<close>

record keydownContext =
  overlayOpen :: bool
  inEditable :: bool
  inTerminal :: bool
  inPrefixButton :: bool
  kd_zoomed :: bool
  kd_sidebarLayout :: "bool option"
  contextKind :: "string option"

datatype keydownResult =
    Prefix_Started string
  | Command_Key commandId "nat option"
  | Prefix_Literal string
  | Prefix_Cancelled
  | Consume

text \<open>\<open>commandResult\<close>, for the command of a binding and its \<open>repeatable\<close>.\<close>

definition commandResult ::
  "commandId \<Rightarrow> bool option \<Rightarrow> 'a muxKeyEvent_scheme \<Rightarrow> nat option \<Rightarrow> keydownResult" where
  "commandResult c repeatable e jumpIndex =
     (let allowed = (case repeatable of Some b \<Rightarrow> b
                     | None \<Rightarrow> cd_repeat (the (commandDescriptor c)) = Repeat_Allow)
      in if \<not> allowed \<and> ke_repeat e then Consume else Command_Key c jumpIndex)"

text \<open>The test against \<open>/^(?:Ctrl|Mod)-([a-z])$/i\<close> and the control byte of its letter.\<close>

definition prefixLiteralByte :: "string \<Rightarrow> string option" where
  "prefixLiteralByte prefix =
     (let p = toLowerCase (trim prefix);
          letter = (if starts_with ''ctrl-'' p \<and> length p = 6 then Some (p ! 5)
                    else if starts_with ''mod-'' p \<and> length p = 5 then Some (p ! 4) else None)
      in case letter of
           Some c \<Rightarrow> if is_lower_letter c then Some [char_of ((of_char c :: nat) - 96)] else None
         | None \<Rightarrow> None)"

definition resolve_pending ::
  "bool \<Rightarrow> 'b muxKeyEvent_scheme \<Rightarrow> chordState \<Rightarrow> keydownContext \<Rightarrow> 'a keymapCatalog_scheme \<Rightarrow>
   keydownResult option \<times> chordState" where
  "resolve_pending mac e s context current =
     (if ke_key e \<in> set [''Meta'', ''Control'', ''Alt'', ''Shift''] then (Some Consume, s)
      else if ke_key e = ''Escape'' then (Some Prefix_Cancelled, clearChord s)
      else if keyEventMatchesBinding mac e (km_leader current) then
        if ke_repeat e then (Some Consume, s)
        else
          (case (if inTerminal context then prefixLiteralByte (km_leader current) else None) of
             Some byte \<Rightarrow> (Some (Prefix_Literal byte), clearChord s)
           | None \<Rightarrow> (Some Prefix_Cancelled, clearChord s))
      else if metaKey e \<or> ctrlKey e \<or> altKey e then (Some Consume, clearChord s)
      else
        let k = serializeMuxSessionPrefixKey e in
        (case matchMuxSessionPrefixBinding k current of
           None \<Rightarrow> (Some Consume, clearChord s)
         | Some b \<Rightarrow>
             let jumpIndex = (if isMuxSessionJumpKey k then Some (of_char (k ! 0) - 48 - 1) else None)
             in (Some (commandResult (pb_command b) (pb_repeatable b) e jumpIndex), clearChord s)))"

definition resolve_idle ::
  "bool \<Rightarrow> 'b muxKeyEvent_scheme \<Rightarrow> chordState \<Rightarrow> keydownContext \<Rightarrow> int \<Rightarrow> 'a keymapCatalog_scheme \<Rightarrow>
   keydownResult option \<times> chordState" where
  "resolve_idle mac e s context now current =
     (if keyEventMatchesBinding mac e (km_leader current) then
        if ke_repeat e then (Some Consume, s)
        else (Some (Prefix_Started (km_leader current)), startChord s (km_leader current) now)
      else case matchMuxSessionContextBinding e (contextKind context) current of
        Some b \<Rightarrow> (Some (commandResult (cb_command b) (cb_repeatable b) e None), s)
      | None \<Rightarrow>
          (case matchMuxSessionDirectBinding mac e current of
             None \<Rightarrow> (None, s)
           | Some b \<Rightarrow>
               if db_command b = Sidebar_Toggle \<and> kd_sidebarLayout context = Some False then (None, s)
               else (Some (commandResult (db_command b) (db_repeatable b) e None), s)))"

definition resolveMuxSessionKeydown ::
  "bool \<Rightarrow> 'b muxKeyEvent_scheme \<Rightarrow> chordState \<Rightarrow> keydownContext \<Rightarrow> int \<Rightarrow> 'a keymapCatalog_scheme \<Rightarrow>
   keydownResult option \<times> chordState" where
  "resolveMuxSessionKeydown mac e s context now current =
     (if isComposing e then (None, clearChord s)
      else if overlayOpen context \<or> inEditable context \<or> inPrefixButton context then (None, clearChord s)
      else
        let prefixActive = chordIsActive s now;
            s1 = (if \<not> prefixActive \<and> chord_prefix s \<noteq> None then clearChord s else s)
        in if prefixActive then resolve_pending mac e s1 context current
           else resolve_idle mac e s1 context now current)"

section \<open>Validation of the default bindings\<close>

datatype bindingIssue =
    Duplicate_Binding_Id string
  | Duplicate_Binding_Key string
  | Banned_Prefix_Binding
  | Banned_Direct_Binding string
  | Missing_Risky_Reason string
  | Undeclared_Dual_Path commandId
  | Missing_Descriptor_Binding commandId string

record validation =
  va_ids :: "string list"
  va_prefixKeys :: "string list"
  va_directKeys :: "string list"
  va_paths :: "(commandId, nat) jsmap"
  va_issues :: "bindingIssue list"

definition record_binding ::
  "string \<Rightarrow> string \<Rightarrow> commandId \<Rightarrow> string list \<Rightarrow> validation \<Rightarrow> validation" where
  "record_binding i k c keys v =
     v\<lparr>va_issues := va_issues v @ (if i \<in> set (va_ids v) then [Duplicate_Binding_Id i] else [])
          @ (if k \<in> set keys then [Duplicate_Binding_Key k] else []),
       va_ids := va_ids v @ [i],
       va_paths := map_set c (case map_of (va_paths v) c of Some n \<Rightarrow> n + 1 | None \<Rightarrow> 1) (va_paths v)\<rparr>"

definition validate_prefix :: "validation \<Rightarrow> prefixBinding \<Rightarrow> validation" where
  "validate_prefix v b =
     (let v1 = record_binding (pb_id b) (pb_key b) (pb_command b) (va_prefixKeys v) v
      in v1\<lparr>va_prefixKeys := va_prefixKeys v1 @ [pb_key b],
            va_issues := va_issues v1 @ (if pb_key b = ''p'' then [Banned_Prefix_Binding] else [])\<rparr>)"

definition validate_direct :: "validation \<Rightarrow> directBinding \<Rightarrow> validation" where
  "validate_direct v b =
     (let v1 = record_binding (db_id b) (db_key b) (db_command b) (va_directKeys v) v
      in v1\<lparr>va_directKeys := va_directKeys v1 @ [db_key b],
            va_issues := va_issues v1
              @ (if db_key b = ''Mod-k'' \<or> db_key b = ''Mod-Shift-p'' then [Banned_Direct_Binding (db_key b)] else [])
              @ (case db_riskyReason b of Some r \<Rightarrow> if trim r = [] then [Missing_Risky_Reason (db_id b)] else []
                 | None \<Rightarrow> [])\<rparr>)"

definition validate_context :: "validation \<Rightarrow> contextBinding \<Rightarrow> validation" where
  "validate_context v b =
     (let v1 = record_binding (cb_id b) (cb_key b) (cb_command b) (va_directKeys v) v
      in v1\<lparr>va_directKeys := va_directKeys v1 @ [cb_key b]\<rparr>)"

definition validateMuxSessionBindings :: "bindingIssue list" where
  "validateMuxSessionBindings =
     (let v0 = \<lparr>va_ids = [], va_prefixKeys = [], va_directKeys = [], va_paths = [], va_issues = []\<rparr>;
          v = foldl validate_context (foldl validate_direct (foldl validate_prefix v0
                MUX_SESSION_PREFIX_BINDINGS) MUX_SESSION_DIRECT_BINDINGS) MUX_SESSION_CONTEXT_BINDINGS
      in va_issues v
         @ map (\<lambda>p. Undeclared_Dual_Path (fst p))
             (filter (\<lambda>p. 1 < snd p \<and> fst p \<notin> set MUX_SESSION_DUAL_PATH_COMMANDS) (va_paths v))
         @ concat (map (\<lambda>d. case cd_bindingId d of
               Some i \<Rightarrow> if i \<noteq> [] \<and> i \<notin> set (va_ids v) then [Missing_Descriptor_Binding (cd_id d) i] else []
             | None \<Rightarrow> []) COMMAND_CATALOG))"

end
