(* ===== verification/Key_Chords.thy ===== *)
theory Key_Chords
  imports Key_Dispatch
begin

text \<open>
  The canonical form of key chords: what \<open>normalizeKeyChord\<close> returns, that it is a normal form, and
  when an event matches a chord in it.
\<close>

section \<open>Canonical keys\<close>

definition canonical_key :: "string \<Rightarrow> bool" where
  "canonical_key k \<longleftrightarrow>
     normalizedKey k = Some k \<and> k \<noteq> [] \<and> length k \<le> 10 \<and> list_all (\<lambda>c. \<not> is_space c) k \<and>
     (CHR ''-'' \<notin> set k \<or> k = ''-'') \<and> k \<notin> set MODIFIERS"

lemma named_keys_canonical: "list_all canonical_key (map snd NAMED_KEYS)"
  by code_simp

lemma function_keys_canonical:
  "list_all canonical_key
     [''F1'', ''F2'', ''F3'', ''F4'', ''F5'', ''F6'', ''F7'', ''F8'', ''F9'', ''F10'', ''F11'', ''F12'']"
  by code_simp

lemma to_upper_concrete:
  "to_upper CHR ''f'' = ''F''" "to_upper CHR ''F'' = ''F''"
  "\<forall>d \<in> set ''0123456789''. to_upper d = [d]"
  by code_simp+

lemma function_key_cases:
  "is_function_key s \<Longrightarrow> toUpperCase s \<in> set
     [''F1'', ''F2'', ''F3'', ''F4'', ''F5'', ''F6'', ''F7'', ''F8'', ''F9'', ''F10'', ''F11'', ''F12'']"
  using to_upper_concrete
  by (auto simp: is_function_key_def toUpperCase_def split: list.splits)

lemma to_lower_cases:
  "to_lower c = c \<or>
   (of_char (to_lower c) :: nat) = of_char c + 32 \<and> 65 \<le> (of_char c :: nat) \<and> (of_char c :: nat) \<noteq> 160
     \<and> (of_char c :: nat) \<le> 222 \<and> (of_char (to_lower c) :: nat) \<noteq> 160"
proof (cases "65 \<le> (of_char c :: nat) \<and> (of_char c :: nat) \<le> 90
    \<or> 192 \<le> (of_char c :: nat) \<and> (of_char c :: nat) \<le> 222 \<and> (of_char c :: nat) \<noteq> 215")
  case True
  then have "to_lower c = char_of (of_char c + 32 :: nat)" by (simp add: to_lower_def Let_def)
  moreover from True have "of_char (char_of (of_char c + 32 :: nat) :: char) = (of_char c + 32 :: nat)"
    by auto
  ultimately show ?thesis using True by auto
next
  case False
  then have "to_lower c = c" unfolding to_lower_def Let_def by (rule if_not_P)
  then show ?thesis ..
qed

lemma to_lower_space: "is_space (to_lower c) \<longleftrightarrow> is_space c"
  using to_lower_cases [of c] by (auto simp: is_space_def Let_def)

lemma to_lower_dash: "to_lower c = CHR ''-'' \<longleftrightarrow> c = CHR ''-''"
  using to_lower_cases [of c]
proof
  assume b: "(of_char (to_lower c) :: nat) = of_char c + 32 \<and> 65 \<le> (of_char c :: nat)
    \<and> (of_char c :: nat) \<noteq> 160 \<and> (of_char c :: nat) \<le> 222 \<and> (of_char (to_lower c) :: nat) \<noteq> 160"
  have "(of_char CHR ''-'' :: nat) = 45" by simp
  with b have "to_lower c \<noteq> CHR ''-''" "c \<noteq> CHR ''-''" by force+
  then show ?thesis by simp
qed simp

lemma single_key_canonical:
  assumes "\<not> is_space c"
  shows "canonical_key [to_lower c]"
proof -
  have ns: "\<not> is_space (to_lower c)" using assms by (simp add: to_lower_space)
  then have "trim [to_lower c] = [to_lower c]" by (intro trim_no_space) simp
  moreover have "to_lower c \<noteq> CHR '' ''" using ns by (auto simp: is_space_def)
  ultimately have "normalizedKey [to_lower c] = Some [to_lower c]"
    by (simp add: normalizedKey_def Let_def toLowerCase_def)
  with ns show ?thesis by (auto simp: canonical_key_def MODIFIERS_def)
qed

lemma normalizedKey_canonical:
  assumes "normalizedKey v = Some k" "list_all (\<lambda>c. \<not> is_space c) v"
  shows "canonical_key k"
proof -
  have t: "trim v = v" using assms(2) by (intro trim_no_space) (simp add: list_all_iff)
  show ?thesis
  proof (cases "length v = 1")
    case True
    then obtain c where "v = [c]" by (auto simp: length_Suc_conv)
    moreover with assms(2) have "\<not> is_space c" by simp
    moreover from this have "c \<noteq> CHR '' ''" by (auto simp: is_space_def)
    ultimately show ?thesis
      using assms(1) t single_key_canonical [of c] by (simp add: normalizedKey_def Let_def toLowerCase_def)
  next
    case False
    show ?thesis
    proof (cases "map_of NAMED_KEYS (toLowerCase v)")
      case (Some n)
      then have "n \<in> set (map snd NAMED_KEYS)" by (force dest: map_of_SomeD)
      with named_keys_canonical have "canonical_key n" unfolding list_all_iff by blast
      with Some False assms(1) t show ?thesis by (simp add: normalizedKey_def Let_def)
    next
      case None
      with False assms(1) t have "is_function_key v" "k = toUpperCase v"
        by (auto simp: normalizedKey_def Let_def split: if_splits)
      with function_key_cases function_keys_canonical show ?thesis unfolding list_all_iff by blast
    qed
  qed
qed

section \<open>Canonical chords\<close>

definition canonical_mods :: "string list \<Rightarrow> bool" where
  "canonical_mods ms \<longleftrightarrow> ms = filter (\<lambda>m. m \<in> set ms) MODIFIER_ORDER \<and>
     \<not> (''Mod'' \<in> set ms \<and> (''Cmd'' \<in> set ms \<or> ''Ctrl'' \<in> set ms))"

definition chord :: "string list \<Rightarrow> string \<Rightarrow> string" where
  "chord ms k = js_join CHR ''-'' (ms @ [k])"

lemma modifiers_plain:
  "list_all (\<lambda>m. m \<noteq> [] \<and> CHR ''-'' \<notin> set m \<and> list_all (\<lambda>c. \<not> is_space c) m \<and> length m \<le> 5
      \<and> map_of MODIFIER_NAMES (toLowerCase m) = Some m \<and> m \<in> set MODIFIERS) MODIFIER_ORDER"
  by code_simp

lemma canonical_mods_subset: "canonical_mods ms \<Longrightarrow> set ms \<subseteq> set MODIFIER_ORDER"
  unfolding canonical_mods_def using filter_is_subset by metis

lemma MODIFIER_ORDER_distinct: "distinct MODIFIER_ORDER"
  by code_simp

lemma canonical_mods_distinct: "canonical_mods ms \<Longrightarrow> distinct ms"
  unfolding canonical_mods_def using MODIFIER_ORDER_distinct distinct_filter by metis

lemma canonical_mods_length:
  assumes "canonical_mods ms"
  shows "length ms \<le> 5"
proof -
  have "length ms = length (filter (\<lambda>m. m \<in> set ms) MODIFIER_ORDER)"
    using assms unfolding canonical_mods_def by metis
  also have "\<dots> \<le> length MODIFIER_ORDER" by (rule length_filter_le)
  finally show ?thesis by (simp add: MODIFIER_ORDER_def)
qed

lemma canonical_mods_plain:
  assumes "canonical_mods ms" "m \<in> set ms"
  shows "m \<noteq> []" "CHR ''-'' \<notin> set m" "\<forall>c \<in> set m. \<not> is_space c" "length m \<le> 5"
    "map_of MODIFIER_NAMES (toLowerCase m) = Some m" "m \<in> set MODIFIERS"
  using assms modifiers_plain canonical_mods_subset [OF assms(1)] by (auto simp: list_all_iff)

lemma split_on_last:
  "\<forall>w \<in> set ws. d \<notin> set w \<Longrightarrow> split_on d (js_join d (ws @ [[d]])) = ws @ [[], []]"
proof (induction ws)
  case (Cons w ws)
  then have "js_join d ((w # ws) @ [[d]]) = w @ d # js_join d (ws @ [[d]])"
    by (cases ws) simp_all
  with Cons show ?case by (simp add: split_on_append)
qed simp

lemma length_js_join: "length (js_join d ws) \<le> sum_list (map length ws) + length ws"
  by (induction d ws rule: js_join.induct) auto

lemma js_join_snoc: "ws \<noteq> [] \<Longrightarrow> js_join d (ws @ [k]) = js_join d ws @ d # k"
  by (induction d ws rule: js_join.induct) auto

lemma last_chord: "k \<noteq> [] \<Longrightarrow> chord ms k \<noteq> [] \<and> List.last (chord ms k) = List.last k"
  by (cases "ms = []") (simp_all add: chord_def js_join_snoc)

lemma ends_with_single: "s \<noteq> [] \<Longrightarrow> ends_with [d] s \<longleftrightarrow> List.last s = d"
  by (cases s rule: rev_cases) (auto simp: ends_with_def starts_with_def)

lemma ends_with_dash:
  assumes "canonical_key k"
  shows "ends_with ''-'' (chord ms k) \<longleftrightarrow> k = ''-''"
proof -
  have k: "k \<noteq> []" using assms by (simp add: canonical_key_def)
  then have "ends_with ''-'' (chord ms k) \<longleftrightarrow> List.last k = CHR ''-''"
    using ends_with_single last_chord [OF k] by metis
  also have "\<dots> \<longleftrightarrow> k = ''-''"
  proof
    assume "List.last k = CHR ''-''"
    with last_in_set [OF k] have "CHR ''-'' \<in> set k" by simp
    with assms show "k = ''-''" by (simp add: canonical_key_def)
  qed simp
  finally show ?thesis .
qed

lemma chord_no_space:
  assumes "canonical_mods ms" "canonical_key k"
  shows "\<forall>c \<in> set (chord ms k). \<not> is_space c"
proof
  fix c assume c: "c \<in> set (chord ms k)"
  have "\<not> is_space CHR ''-''" by code_simp
  moreover have "c = CHR ''-'' \<or> (\<exists>m \<in> set ms. c \<in> set m) \<or> c \<in> set k"
    using c set_js_join [of "CHR ''-''" "ms @ [k]"] by (auto simp: chord_def)
  ultimately show "\<not> is_space c"
    using canonical_mods_plain(3) [OF assms(1)] assms(2) by (auto simp: canonical_key_def list_all_iff)
qed

lemma length_chord:
  assumes "canonical_mods ms" "canonical_key k"
  shows "length (chord ms k) \<le> MAX_KEY_BINDING_LENGTH"
proof -
  have "sum_list (map length ms) \<le> sum_list (map (\<lambda>_. 5) ms)"
    using canonical_mods_plain(4) [OF assms(1)] by (intro sum_list_mono) simp
  then have "sum_list (map length ms) \<le> 5 * length ms" by (simp add: sum_list_triv)
  moreover have "length k \<le> 10" using assms(2) by (simp add: canonical_key_def)
  ultimately show ?thesis
    using length_js_join [of "CHR ''-''" "ms @ [k]"] canonical_mods_length [OF assms(1)]
    by (simp add: chord_def MAX_KEY_BINDING_LENGTH_def)
qed

lemma split_chord:
  assumes "canonical_mods ms" "canonical_key k"
  shows "split_on CHR ''-'' (chord ms k) = (if k = ''-'' then ms @ [[], []] else ms @ [k])"
proof (cases "k = ''-''")
  case True
  with split_on_last [of ms "CHR ''-''"] canonical_mods_plain(2) [OF assms(1)] show ?thesis
    by (simp add: chord_def)
next
  case False
  with assms(2) have "CHR ''-'' \<notin> set k" by (simp add: canonical_key_def)
  with False split_on_join [of "ms @ [k]" "CHR ''-''"] canonical_mods_plain(2) [OF assms(1)] show ?thesis
    by (simp add: chord_def)
qed

lemma modifier_loop_canonical:
  "\<forall>m \<in> set ms. map_of MODIFIER_NAMES (toLowerCase m) = Some m \<Longrightarrow> distinct (acc @ ms) \<Longrightarrow>
   modifier_loop ms acc = Some (acc @ ms)"
  by (induction ms arbitrary: acc) auto

lemma modifier_loop_sound:
  "modifier_loop raws acc = Some ms \<Longrightarrow> set acc \<subseteq> set MODIFIER_ORDER \<Longrightarrow> set ms \<subseteq> set MODIFIER_ORDER"
proof (induction raws arbitrary: acc)
  case (Cons raw raws)
  have "\<forall>m \<in> set (map snd MODIFIER_NAMES). m \<in> set MODIFIER_ORDER" by code_simp
  moreover from Cons.prems(1) obtain m where "map_of MODIFIER_NAMES (toLowerCase raw) = Some m"
    "modifier_loop raws (acc @ [m]) = Some ms"
    by (auto split: option.splits if_splits)
  moreover from this(1) have "m \<in> set (map snd MODIFIER_NAMES)" by (force dest: map_of_SomeD)
  ultimately show ?case using Cons.IH [of "acc @ [m]"] Cons.prems(2) by auto
qed simp

lemma set_split_on: "w \<in> set (split_on d t) \<Longrightarrow> set w \<subseteq> set t"
proof (induction t arbitrary: w)
  case (Cons a t)
  show ?case
  proof (cases "split_on d t")
    case Nil
    with Cons.prems show ?thesis by (auto split: if_splits)
  next
    case (Cons v vs)
    with Cons.IH have "\<forall>u \<in> set (v # vs). set u \<subseteq> set t" by metis
    with Cons.prems Cons show ?thesis by (auto split: if_splits)
  qed
qed simp

text \<open>A canonical chord is its own normal form, and every normal form is a canonical chord.\<close>

lemma normalize_chord:
  assumes "canonical_mods ms" "canonical_key k"
  shows "normalizeKeyChord (chord ms k) = Some (chord ms k)"
proof -
  have k: "k \<noteq> []" "normalizedKey k = Some k" using assms(2) by (auto simp: canonical_key_def)
  have t: "trim (chord ms k) = chord ms k"
    by (rule trim_no_space [OF chord_no_space [OF assms]])
  have ns: "\<not> list_ex is_space (chord ms k)"
    using chord_no_space [OF assms] by (simp add: list_ex_iff)
  have "filter (\<lambda>s. s \<noteq> []) (ms @ [[], []]) = ms"
    using canonical_mods_plain(1) [OF assms(1)] by (simp add: filter_id_conv)
  moreover have "modifier_loop ms [] = Some ms"
    using modifier_loop_canonical [of ms "[]"] canonical_mods_plain(5) [OF assms(1)]
      canonical_mods_distinct [OF assms(1)] by simp
  moreover have "js_join CHR ''-'' (filter (\<lambda>m. m \<in> set ms) MODIFIER_ORDER @ [k]) = chord ms k"
    using assms(1) unfolding canonical_mods_def chord_def by simp
  moreover have "\<not> (''Mod'' \<in> set ms \<and> (''Cmd'' \<in> set ms \<or> ''Ctrl'' \<in> set ms))"
    using assms(1) by (simp add: canonical_mods_def)
  ultimately show ?thesis
    using t ns k last_chord [OF k(1), of ms] length_chord [OF assms] split_chord [OF assms]
      ends_with_dash [OF assms(2), of ms]
    by (cases "k = ''-''") (simp_all add: normalizeKeyChord_def Let_def)
qed

lemma normalizeKeyChord_canonical:
  assumes "normalizeKeyChord v = Some c"
  shows "\<exists>ms k. c = chord ms k \<and> canonical_mods ms \<and> canonical_key k"
proof -
  define t where "t = trim v"
  define raw where "raw = (if ends_with ''-'' t then ''-'' else List.last (split_on CHR ''-'' t))"
  define segs where "segs = (if ends_with ''-'' t then filter (\<lambda>s. s \<noteq> []) (split_on CHR ''-'' t)
      else butlast (split_on CHR ''-'' t))"
  from assms obtain ms k where m: "modifier_loop segs [] = Some ms" "normalizedKey raw = Some k"
      "\<not> (''Mod'' \<in> set ms \<and> (''Cmd'' \<in> set ms \<or> ''Ctrl'' \<in> set ms))"
      "c = js_join CHR ''-'' (filter (\<lambda>m. m \<in> set ms) MODIFIER_ORDER @ [k])" "\<not> list_ex is_space t"
    unfolding normalizeKeyChord_def Let_def t_def [symmetric] raw_def [symmetric] segs_def [symmetric]
    by (auto split: option.splits if_splits)
  let ?ms = "filter (\<lambda>m. m \<in> set ms) MODIFIER_ORDER"
  have s: "set ?ms = set ms" using modifier_loop_sound [OF m(1)] by auto
  have "canonical_mods ?ms"
    unfolding canonical_mods_def s using m(3) by simp
  moreover have "list_all (\<lambda>c. \<not> is_space c) raw"
  proof -
    have "split_on CHR ''-'' t \<noteq> []" by (cases t) (auto split: list.splits)
    then have "set (List.last (split_on CHR ''-'' t)) \<subseteq> set t"
      by (rule set_split_on [OF last_in_set])
    then have "ends_with ''-'' t \<or> set raw \<subseteq> set t" by (simp add: raw_def)
    moreover have "\<not> is_space CHR ''-''" by code_simp
    ultimately show ?thesis using m(5) by (auto simp: raw_def list_all_iff list_ex_iff)
  qed
  with m(2) have "canonical_key k" by (rule normalizedKey_canonical)
  ultimately show ?thesis using m(4) unfolding chord_def by blast
qed

section \<open>Events against canonical chords\<close>

lemma part_loop_modifiers:
  "set ms \<subseteq> set MODIFIERS \<Longrightarrow> part_loop (ms @ rest) acc k = part_loop rest (fold List.insert ms acc) k"
  by (induction ms arbitrary: acc) auto

lemma set_fold_insert: "set (fold List.insert ms acc) = set ms \<union> set acc"
  by (induction ms arbitrary: acc) auto

lemma parseKeyPart_chord:
  assumes "canonical_mods ms" "canonical_key k"
  shows "pk_key (parseKeyPart (chord ms k)) = k \<and> set (pk_modifiers (parseKeyPart (chord ms k))) = set ms"
proof -
  have ms: "set ms \<subseteq> set MODIFIERS" using canonical_mods_plain(6) [OF assms(1)] by auto
  have f: "filter (\<lambda>s. s \<noteq> []) ms = ms"
    using canonical_mods_plain(1) [OF assms(1)] by (simp add: filter_id_conv)
  have k: "k \<noteq> []" "k \<notin> set MODIFIERS" using assms(2) by (auto simp: canonical_key_def)
  show ?thesis
  proof (cases "k = ''-''")
    case True
    with part_loop_modifiers [OF ms, of "[]" "[]" "[]"] f split_chord [OF assms] ends_with_dash [OF assms(2), of ms]
    show ?thesis by (simp add: parseKeyPart_def Let_def set_fold_insert)
  next
    case False
    with part_loop_modifiers [OF ms, of "[k]" "[]" "[]"] f split_chord [OF assms] k
    show ?thesis by (simp add: parseKeyPart_def Let_def set_fold_insert)
  qed
qed

lemma words_of_plain:
  assumes "w \<noteq> []" "\<forall>c \<in> set w. \<not> is_space c"
  shows "words_of w = [w]"
proof -
  obtain c cs where w: "w = c # cs" using assms(1) by (cases w) auto
  have "takeWhile (\<lambda>c. \<not> is_space c) w = w" "dropWhile (\<lambda>c. \<not> is_space c) w = []"
    using assms(2) by (simp_all add: takeWhile_eq_all_conv dropWhile_eq_Nil_conv)
  moreover have "dropWhile is_space w = w" using w assms(2) by simp
  moreover have "words_of [] = []" by (simp add: words_of.simps)
  ultimately show ?thesis using w by (subst words_of.simps) (simp split: list.split)
qed

text \<open>What each modifier of a canonical chord asks of an event.\<close>

definition wants_meta :: "bool \<Rightarrow> string list \<Rightarrow> bool" where
  "wants_meta mac ms \<longleftrightarrow> ''Cmd'' \<in> set ms \<or> (''Mod'' \<in> set ms \<and> mac)"

definition wants_ctrl :: "bool \<Rightarrow> string list \<Rightarrow> bool" where
  "wants_ctrl mac ms \<longleftrightarrow> ''Ctrl'' \<in> set ms \<or> (''Mod'' \<in> set ms \<and> \<not> mac)"

lemma match_chord:
  assumes "canonical_mods ms" "canonical_key k"
  shows "keyEventMatchesBinding mac e (chord ms k) \<longleftrightarrow>
     (''Shift'' \<in> set ms \<longleftrightarrow> shiftKey e) \<and> (''Alt'' \<in> set ms \<longleftrightarrow> altKey e) \<and>
     (wants_meta mac ms \<longrightarrow> metaKey e) \<and> (wants_ctrl mac ms \<longrightarrow> ctrlKey e) \<and>
     (\<not> wants_meta mac ms \<longrightarrow> \<not> metaKey e) \<and>
     (\<not> wants_ctrl mac ms \<and> \<not> wants_meta mac ms \<longrightarrow> \<not> ctrlKey e) \<and>
     eventKeyMatches k e"
proof -
  have "k \<noteq> []" using assms(2) by (simp add: canonical_key_def)
  with last_chord have "chord ms k \<noteq> []" by blast
  with chord_no_space [OF assms] have "parseBindingKey (chord ms k) = [chord ms k]"
    by (simp add: parseBindingKey_def trim_no_space words_of_plain)
  then show ?thesis
    using parseKeyPart_chord [OF assms]
    by (auto simp: keyEventMatchesBinding_def keyEventMatchesBindingPart_def Let_def wants_meta_def wants_ctrl_def)
qed

text \<open>\<open>chordParts\<close> loses a dash that is the key: it returns an empty key and an empty modifier.\<close>

lemma chordParts_chord:
  assumes "canonical_mods ms" "canonical_key k"
  shows "chordParts (chord ms k) = (if k = ''-'' then (ms @ [[]], []) else (ms, k))"
  by (simp add: chordParts_def split_chord [OF assms] butlast_append)

end
