(* ===== verification/Keymap_Behaviour.thy ===== *)
theory Keymap_Behaviour
  imports Key_Chords
begin

text \<open>
  What the keyboard does under a compiled keymap: which keys reach the terminal, which dispatch a
  command, and how long a leader stays pending.
\<close>

section \<open>Bindings of a compiled keymap\<close>

lemma chordParts_modifier:
  "canonical_mods ms \<Longrightarrow> canonical_key k \<Longrightarrow> m \<noteq> [] \<Longrightarrow>
   m \<in> set (fst (chordParts (chord ms k))) \<longleftrightarrow> m \<in> set ms"
  by (auto simp: chordParts_chord)

text \<open>A direct binding asks for the primary modifier of the platform, and not for \<open>Alt\<close>.\<close>

definition direct_ok :: "keymap_platform \<Rightarrow> string \<Rightarrow> bool" where
  "direct_ok platform key \<longleftrightarrow>
     (\<exists>ms k. key = chord ms k \<and> canonical_mods ms \<and> canonical_key k \<and> ''Alt'' \<notin> set ms \<and>
        (''Mod'' \<in> set ms \<or> platform = Mac \<and> ''Cmd'' \<in> set ms))"

lemma direct_okI:
  assumes "normalizeKeyChord v = Some q" "''Alt'' \<notin> set (fst (chordParts q))"
    "''Mod'' \<in> set (fst (chordParts q)) \<or> platform = Mac \<and> ''Cmd'' \<in> set (fst (chordParts q))"
  shows "direct_ok platform q"
proof -
  from normalizeKeyChord_canonical [OF assms(1)] obtain ms k
    where q: "q = chord ms k" "canonical_mods ms" "canonical_key k" by blast
  with assms(2,3) show ?thesis unfolding direct_ok_def by (auto simp: chordParts_modifier)
qed

lemma default_direct_ok: "b \<in> set MUX_SESSION_DIRECT_BINDINGS \<Longrightarrow> direct_ok platform (db_key b)"
proof -
  have "list_all (\<lambda>b. normalizeKeyChord (db_key b) = Some (db_key b)
      \<and> ''Alt'' \<notin> set (fst (chordParts (db_key b))) \<and> ''Mod'' \<in> set (fst (chordParts (db_key b))))
      MUX_SESSION_DIRECT_BINDINGS"
    by code_simp
  then show "b \<in> set MUX_SESSION_DIRECT_BINDINGS \<Longrightarrow> direct_ok platform (db_key b)"
    by (auto simp: list_all_iff intro: direct_okI)
qed

lemma normalizeKeySequence_cases:
  assumes "normalizeKeySequence v = Some q"
  shows "(\<exists>w. normalizeKeyChord w = Some q) \<or> (\<exists>w k. normalizePrefixKey w = Some k \<and> q = ''Leader '' @ k)"
  using assms by (auto simp: normalizeKeySequence_def Let_def split: if_splits list.splits)

lemma starts_with_self: "starts_with p (p @ s)"
  by (simp add: starts_with_def)

lemma direct_sequence_chord:
  assumes "direct_sequence ov = Some q"
  shows "\<exists>w. normalizeKeyChord w = Some q"
proof -
  from assms obtain v where "normalizeKeySequence v = Some q" "\<not> starts_with ''Leader '' q"
    by (cases "ko_binding ov") (auto simp: direct_sequence_def split: option.splits if_splits)
  with normalizeKeySequence_cases [of v q] starts_with_self [of "''Leader ''"] show ?thesis by metis
qed

lemma permitted_direct_ok:
  assumes "permitted (classifyKeyBinding q Kind_Direct platform) confirmed" "normalizeKeyChord q = Some q"
  shows "direct_ok platform q"
proof -
  obtain ms k where p: "chordParts q = (ms, k)" by (cases "chordParts q")
  with assms have "kind_guard Kind_Direct platform q ms = None"
    by (auto simp: classifyKeyBinding_def classify_chord_def permitted_def kind_guard_def risk_def
        Let_def split: option.splits if_splits)
  with p have "''Alt'' \<notin> set (fst (chordParts q))"
    "isPrimaryModifier (fst (chordParts q)) platform"
    "''Ctrl'' \<in> set (fst (chordParts q)) \<longrightarrow> ''Mod'' \<in> set (fst (chordParts q))"
    by (auto simp: kind_guard_def split: if_splits)
  then show ?thesis
    by (intro direct_okI [OF assms(2)]) (auto simp: isPrimaryModifier_def split: if_splits)
qed

lemma direct_bindings_ok:
  assumes "b \<in> set (effective_direct DEFAULT_KEYMAP_CATALOG profile platform)"
    "list_all (override_valid platform) (kp_bindings profile)"
  shows "direct_ok platform (db_key b)"
proof (cases "b \<in> set MUX_SESSION_DIRECT_BINDINGS")
  case False
  with assms(1) obtain ov where ov: "ov \<in> set (kp_bindings profile)" "b \<in> set (direct_of_override platform ov)"
    by (auto simp: effective_direct_def DEFAULT_KEYMAP_CATALOG_def)
  then obtain q where q: "direct_sequence ov = Some q"
      "b = override_direct (ko_command ov) q (classifyKeyBinding q Kind_Direct platform)"
    by (cases "direct_sequence ov") (simp_all add: direct_of_override_def)
  with direct_sequence_chord obtain w where w: "normalizeKeyChord w = Some q" by blast
  with normalizeKeyChord_canonical normalize_chord have n: "normalizeKeyChord q = Some q" by blast
  from q(1) have "leader_sequence ov = None"
    by (auto simp: leader_sequence_def direct_sequence_def split: option.splits if_splits)
  moreover have "ko_binding ov \<noteq> None" using q(1) by (cases "ko_binding ov") (simp_all add: direct_sequence_def)
  moreover have "override_valid platform ov" using ov(1) assms(2) by (simp add: list_all_iff)
  ultimately have "permitted (classifyKeyBinding q Kind_Direct platform) (confirmedRisky ov)"
    using q(1) by (auto simp: override_valid_def)
  with n q(2) show ?thesis by (simp add: override_direct_def permitted_direct_ok)
qed (rule default_direct_ok)

lemma direct_ok_match:
  assumes "direct_ok platform key" "keyEventMatchesBinding (platform = Mac) e key"
  shows "\<not> altKey e \<and> (if platform = Mac then metaKey e else ctrlKey e)"
  using assms by (auto simp: direct_ok_def match_chord wants_meta_def wants_ctrl_def)

section \<open>Leaders\<close>

text \<open>A leader is \<open>Mod\<close> or \<open>Ctrl\<close> with one letter.\<close>

lemma is_leader_chord_cases:
  assumes "is_leader_chord l"
  shows "\<exists>m c. m \<in> {''Mod'', ''Ctrl''} \<and> is_lower_letter c \<and> l = chord [m] [c]"
proof -
  have "\<exists>c. is_lower_letter c \<and> l = p @ [c]" if "starts_with p l" "length l = Suc (length p)"
      "is_lower_letter (l ! length p)" for p
  proof -
    have "l = take (length p) l @ [l ! length p]"
      using that(2) by (metis lessI take_Suc_conv_app_nth take_all_iff order_refl)
    with that(1,3) show ?thesis unfolding starts_with_def by metis
  qed
  note * = this
  have m: "''Mod-'' @ [c] = chord [''Mod''] [c]" "''Ctrl-'' @ [c] = chord [''Ctrl''] [c]" for c
    by (simp_all add: chord_def)
  from assms consider
      "starts_with ''Mod-'' l" "length l = Suc (length ''Mod-'')" "is_lower_letter (l ! length ''Mod-'')"
    | "starts_with ''Ctrl-'' l" "length l = Suc (length ''Ctrl-'')" "is_lower_letter (l ! length ''Ctrl-'')"
    unfolding is_leader_chord_def by (auto simp: numeral_eq_Suc)
  then show ?thesis
  proof cases
    case 1
    from * [OF this] m(1) show ?thesis by auto
  next
    case 2
    from * [OF this] m(2) show ?thesis by auto
  qed
qed

lemma lower_letter_key:
  assumes "is_lower_letter c"
  shows "canonical_key [c]" "to_lower c = c"
proof -
  have "97 \<le> (of_char c :: nat) \<and> (of_char c :: nat) \<le> 122" using assms by (simp add: is_lower_letter_def Let_def)
  then have "\<not> is_space c" "to_lower c = c" by (auto simp: is_space_def to_lower_def Let_def)
  with single_key_canonical [of c] show "canonical_key [c]" "to_lower c = c" by simp_all
qed

lemma leader_mods: "canonical_mods [''Mod'']" "canonical_mods [''Ctrl'']"
  by code_simp+

lemma valid_leader:
  assumes "permitted (classifyKeyBinding l Kind_Leader platform) confirmed"
  shows "is_leader_chord l \<or> (\<exists>n. normalizeKeyChord l = Some n \<and> is_leader_chord n)"
  using assms
  by (auto simp: classifyKeyBinding_def classify_chord_def permitted_def kind_guard_def risk_def
      Let_def split: option.splits if_splits prod.splits)

lemma compiled_leader:
  assumes "compileKeymap stringify defaults profile platform = Inr km"
  shows "\<exists>m c. m \<in> {''Mod'', ''Ctrl''} \<and> is_lower_letter c \<and> km_leader km = chord [m] [c]"
proof -
  from assms compile_Inr obtain l where v: "profile_valid stringify defaults profile platform l" by blast
  with compile_valid [OF v] assms have km: "km_leader km = l" by (simp add: effective_keymap_def)
  from v have n: "normalizeKeyChord (kp_leader profile) = Some l"
    "permitted (classifyKeyBinding l Kind_Leader platform) (confirmedLeaderRisky profile)"
    by (auto simp: profile_valid_def)
  from normalizeKeyChord_canonical [OF n(1)] normalize_chord have "normalizeKeyChord l = Some l" by blast
  with valid_leader [OF n(2)] have "is_leader_chord l" by auto
  with is_leader_chord_cases km show ?thesis by simp
qed

lemma leader_match_modifier:
  assumes "m \<in> {''Mod'', ''Ctrl''}" "is_lower_letter c" "keyEventMatchesBinding mac e (chord [m] [c])"
  shows "(metaKey e \<or> ctrlKey e) \<and> \<not> altKey e \<and> \<not> shiftKey e"
  using assms leader_mods lower_letter_key(1) [OF assms(2)]
  by (auto simp: match_chord wants_meta_def wants_ctrl_def)

section \<open>Prefix bindings\<close>

lemma valid_compiled:
  assumes "compileKeymap stringify defaults profile platform = Inr km"
  shows "\<exists>l. profile_valid stringify defaults profile platform l \<and>
     km = effective_keymap defaults profile platform l"
  using assms compile_Inr compile_valid by fastforce

text \<open>The prefix bindings of a compiled keymap have different keys, so a look-up finds the one meant.\<close>

lemma prefix_lookup:
  assumes "compileKeymap stringify defaults profile platform = Inr km"
    "b \<in> set (prefixBindings km)" "pb_keyRange b = None" "\<not> isMuxSessionJumpKey (pb_key b)"
  shows "matchMuxSessionPrefixBinding (pb_key b) km = Some b"
proof -
  from valid_compiled [OF assms(1)] have d: "distinct (map prefix_key (prefixBindings km))"
    by (auto simp: effective_keymap_def profile_valid_def)
  have "find (\<lambda>a. pb_keyRange a = None \<and> pb_key a = pb_key b) (prefixBindings km) = Some b"
  proof (rule find_unique [OF assms(2)])
    fix a assume a: "a \<in> set (prefixBindings km)" "pb_keyRange a = None \<and> pb_key a = pb_key b"
    from a(2) have "pb_key a = pb_key b" by simp
    then have "prefix_key a = prefix_key b" by (simp only: prefix_key_def)
    with d a(1) assms(2) show "a = b" by (simp add: distinct_map inj_on_def)
  qed (use assms(3) in simp)
  with assms(4) show ?thesis by (simp add: matchMuxSessionPrefixBinding_def)
qed

lemma normalizePrefixKey_cases:
  assumes "normalizePrefixKey v = Some k"
  shows "\<exists>r. length r = 1 \<and> (k = r \<or> k = ''Shift-'' @ toUpperCase r)"
proof -
  let ?r = "List.last (split_on CHR ''-'' (the (normalizeKeyChord v)))"
  have "length ?r = 1 \<and> (k = ?r \<or> k = ''Shift-'' @ toUpperCase ?r)"
    using assms by (auto simp: normalizePrefixKey_def Let_def split: option.splits if_splits)
  then show ?thesis by blast
qed

lemma normalizePrefixKey_shape:
  assumes "normalizePrefixKey v = Some k"
  shows "length k = 1 \<or> 7 \<le> length k"
proof -
  from normalizePrefixKey_cases [OF assms]
  obtain r where "length r = 1" "k = r \<or> k = ''Shift-'' @ toUpperCase r" by blast
  moreover have "1 \<le> length (toUpperCase r)" if "length r = 1" for r
    using that by (auto simp: length_Suc_conv toUpperCase_def to_upper_def Let_def)
  ultimately show ?thesis by auto
qed

definition special_keys :: "string list" where
  "special_keys = [''Meta'', ''Control'', ''Alt'', ''Shift'', ''Escape'']"

lemma special_keys_length: "list_all (\<lambda>k. length k \<noteq> 1 \<and> length k \<le> 7 \<and> (length k < 7 \<or> k = ''Control'')) special_keys"
  by code_simp

lemma prefix_key_not_special:
  assumes "b \<in> set (effective_prefix DEFAULT_KEYMAP_CATALOG profile)"
  shows "pb_key b \<notin> set special_keys"
proof (cases "b \<in> set MUX_SESSION_PREFIX_BINDINGS")
  case True
  have "list_all (\<lambda>b. pb_key b \<notin> set special_keys) MUX_SESSION_PREFIX_BINDINGS" by code_simp
  with True show ?thesis by (simp add: list_all_iff)
next
  case False
  with assms obtain ov where "b \<in> set (prefix_of_override ov)"
    by (auto simp: effective_prefix_def DEFAULT_KEYMAP_CATALOG_def)
  then obtain k where k: "leader_sequence ov = Some k" "pb_key b = k"
    by (cases "leader_sequence ov") (auto simp: prefix_of_override_def override_prefix_def)
  then obtain v q where q: "normalizeKeySequence v = Some q" "starts_with ''Leader '' q" "k = drop 7 q"
    by (cases "ko_binding ov") (auto simp: leader_sequence_def split: option.splits if_splits)
  show ?thesis
  proof (cases "\<exists>w. normalizeKeyChord w = Some q")
    case True
    then obtain ms kk where c: "q = chord ms kk" "canonical_mods ms" "canonical_key kk"
      using normalizeKeyChord_canonical by blast
    have "CHR '' '' \<in> set (take (length ''Leader '') q)" using q(2) by (simp add: starts_with_def)
    then have "CHR '' '' \<in> set q" by (rule in_set_takeD)
    with c chord_no_space [OF c(2,3)] have "\<not> is_space CHR '' ''" by blast
    moreover have "is_space CHR '' ''" by code_simp
    ultimately show ?thesis by simp
  next
    case False
    with normalizeKeySequence_cases [OF q(1)] obtain w k' where
      w: "normalizePrefixKey w = Some k'" "q = ''Leader '' @ k'" by blast
    with q(3) have "k = k'" by simp
    have "k' \<noteq> ''Control''" using normalizePrefixKey_cases [OF w(1)] by auto
    with special_keys_length normalizePrefixKey_shape [OF w(1)] \<open>k = k'\<close> k(2) show ?thesis
      by (auto simp: list_all_iff)
  qed
qed

lemma special_key_serialized:
  "ke_key e \<in> set special_keys \<Longrightarrow> serializeMuxSessionPrefixKey e = ke_key e"
  using special_keys_length by (auto simp: serializeMuxSessionPrefixKey_def list_all_iff)

definition unguarded :: "keydownContext \<Rightarrow> bool" where
  "unguarded context \<longleftrightarrow> \<not> overlayOpen context \<and> \<not> inEditable context \<and> \<not> inPrefixButton context"


text \<open>A press of the leader when none is pending, and the profile with \<open>Leader y\<close> for a new session.\<close>

definition key_event :: "string \<Rightarrow> string \<Rightarrow> bool \<Rightarrow> bool \<Rightarrow> muxKeyEvent" where
  "key_event k code ctrl shift = \<lparr>ke_key = k, ke_code = code, metaKey = False, ctrlKey = ctrl,
     altKey = False, shiftKey = shift, ke_repeat = False, isComposing = False\<rparr>"

definition terminal_context :: keydownContext where
  "terminal_context = \<lparr>overlayOpen = False, inEditable = False, inTerminal = True, inPrefixButton = False,
     kd_zoomed = False, kd_sidebarLayout = None, contextKind = None\<rparr>"

definition one_override :: "commandId \<Rightarrow> string \<Rightarrow> keymapProfile" where
  "one_override c binding = DEFAULT_KEYMAP_PROFILE\<lparr>kp_bindings :=
     [\<lparr>ko_command = c, ko_binding = Some binding, confirmedRisky = None\<rparr>]\<rparr>"

definition sample_keymap :: effectiveKeymap where
  "sample_keymap = effective_keymap DEFAULT_KEYMAP_CATALOG (one_override Session_New ''Leader y'') Linux ''Mod-k''"

lemma default_leader_ok:
  "normalizeKeyChord ''Mod-k'' = Some ''Mod-k''
   \<and> list_all (\<lambda>p. rc_risk (classifyKeyBinding ''Mod-k'' Kind_Leader p) = Risk_Safe) [Mac, Windows, Linux]"
  by code_simp

lemma default_direct_keys:
  "list_all (\<lambda>p. distinct (canonicalChordForPlatform ''Mod-k'' p # map (direct_key p) MUX_SESSION_DIRECT_BINDINGS))
     [Mac, Windows, Linux]"
  by code_simp

lemma platform_in: "p \<in> set [Mac, Windows, Linux]"
  by (cases p) simp_all

definition no_direct_change :: "keymapProfile \<Rightarrow> bool" where
  "no_direct_change profile \<longleftrightarrow>
     list_all (\<lambda>ov. direct_sequence ov = None \<and> ko_command ov \<notin> set (map db_command MUX_SESSION_DIRECT_BINDINGS))
       (kp_bindings profile)"

text \<open>A profile with the default leader and only leader sequences is accepted when its prefix keys differ.\<close>

lemma prefix_profile_valid:
  assumes "kp_leader profile = ''Mod-k''" "no_direct_change profile"
    "length (kp_bindings profile) \<le> MAX_KEYMAP_BINDINGS" "length (stringify profile) \<le> MAX_KEYMAP_JSON_BYTES"
    "distinct (map ko_command (kp_bindings profile))" "list_all (override_valid platform) (kp_bindings profile)"
    "distinct (map prefix_key (effective_prefix DEFAULT_KEYMAP_CATALOG profile))"
    "list_all (reachable_command (effective_prefix DEFAULT_KEYMAP_CATALOG profile) MUX_SESSION_DIRECT_BINDINGS)
       REQUIRED_COMMANDS"
  shows "profile_valid stringify DEFAULT_KEYMAP_CATALOG profile platform ''Mod-k''"
proof -
  have "concat (map (direct_of_override platform) (kp_bindings profile)) = []"
    using assms(2) by (simp add: no_direct_change_def list_all_iff direct_of_override_def)
  moreover have "filter (\<lambda>b. \<not> overridden profile (db_command b)) MUX_SESSION_DIRECT_BINDINGS
      = MUX_SESSION_DIRECT_BINDINGS"
  proof (rule filter_True, rule ballI)
    fix b assume "b \<in> set MUX_SESSION_DIRECT_BINDINGS"
    with assms(2) show "\<not> overridden profile (db_command b)"
      unfolding no_direct_change_def list_all_iff overridden_def set_map image_iff by metis
  qed
  ultimately have "effective_direct DEFAULT_KEYMAP_CATALOG profile platform = MUX_SESSION_DIRECT_BINDINGS"
    by (simp add: effective_direct_def DEFAULT_KEYMAP_CATALOG_def)
  moreover have "rc_risk (classifyKeyBinding ''Mod-k'' Kind_Leader platform) = Risk_Safe"
    using default_leader_ok platform_in [of platform] unfolding list_all_iff by blast
  moreover have "distinct (canonicalChordForPlatform ''Mod-k'' platform # map (direct_key platform) MUX_SESSION_DIRECT_BINDINGS)"
    using default_direct_keys platform_in [of platform] unfolding list_all_iff by blast
  ultimately show ?thesis
    using assms default_leader_ok by (simp add: profile_valid_def permitted_def)
qed

lemma sample_valid:
  "profile_valid (\<lambda>_. []) DEFAULT_KEYMAP_CATALOG (one_override Session_New ''Leader y'') Linux ''Mod-k''"
proof (rule prefix_profile_valid)
  let ?p = "one_override Session_New ''Leader y''"
  show "no_direct_change ?p" "list_all (override_valid Linux) (kp_bindings ?p)"
    "distinct (map prefix_key (effective_prefix DEFAULT_KEYMAP_CATALOG ?p))"
    by code_simp+
  show "list_all (reachable_command (effective_prefix DEFAULT_KEYMAP_CATALOG ?p)
      MUX_SESSION_DIRECT_BINDINGS) REQUIRED_COMMANDS" by code_simp
qed (simp_all add: one_override_def DEFAULT_KEYMAP_PROFILE_def MAX_KEYMAP_BINDINGS_def)

lemma sample_compiles:
  "compileKeymap (\<lambda>_. []) DEFAULT_KEYMAP_CATALOG (one_override Session_New ''Leader y'') Linux = Inr sample_keymap"
  unfolding sample_keymap_def by (rule compile_valid [OF sample_valid])

lemma sample_facts:
  "override_prefix Session_New ''y'' \<in> set (prefixBindings sample_keymap)"
  "pb_keyRange (override_prefix Session_New ''y'') = None"
  "\<not> isMuxSessionJumpKey (pb_key (override_prefix Session_New ''y''))"
  "km_leader sample_keymap = ''Mod-k''"
  "keyEventMatchesBinding False (key_event ''k'' ''KeyK'' True False) ''Mod-k''"
  "serializeMuxSessionPrefixKey (key_event ''y'' ''KeyY'' False False) = pb_key (override_prefix Session_New ''y'')"
  by code_simp+


section \<open>Keys that reach the terminal\<close>

lemma direct_unmatched:
  assumes "compileKeymap stringify DEFAULT_KEYMAP_CATALOG profile platform = Inr km"
    "altKey e \<or> \<not> (if platform = Mac then metaKey e else ctrlKey e)"
  shows "matchMuxSessionDirectBinding (platform = Mac) e km = None"
proof -
  from valid_compiled [OF assms(1)] obtain l where v: "profile_valid stringify DEFAULT_KEYMAP_CATALOG profile platform l"
      "km = effective_keymap DEFAULT_KEYMAP_CATALOG profile platform l" by blast
  have "\<not> keyEventMatchesBinding (platform = Mac) e (db_key b)" if "b \<in> set (directBindings km)" for b
  proof
    assume m: "keyEventMatchesBinding (platform = Mac) e (db_key b)"
    from that v have "direct_ok platform (db_key b)"
      by (intro direct_bindings_ok [of b profile]) (simp_all add: effective_keymap_def profile_valid_def)
    from direct_ok_match [OF this m] assms(2) show False by simp
  qed
  then show ?thesis by (simp add: matchMuxSessionDirectBinding_def find_None_iff)
qed

text \<open>
  C27: Plain, Alt and terminal Ctrl chords pass through to the terminal. Whatever the profile, a key
  pressed with Alt, or without the primary modifier of the platform, and which is not the leader, is
  not handled while no leader is pending.
\<close>

theorem terminal_keys_pass_through:
  assumes "compileKeymap stringify DEFAULT_KEYMAP_CATALOG profile platform = Inr km"
    "\<not> chordIsActive s now" "\<not> keyEventMatchesBinding (platform = Mac) e (km_leader km)"
    "altKey e \<or> \<not> (if platform = Mac then metaKey e else ctrlKey e)"
  shows "fst (resolveMuxSessionKeydown (platform = Mac) e s context now km) = None"
  using direct_unmatched [OF assms(1,4)] assms(2,3)
  by (simp add: resolveMuxSessionKeydown_def resolve_idle_def matchMuxSessionContextBinding_def Let_def)

theorem terminal_keys_pass_through_witness:
  "fst (resolveMuxSessionKeydown False (key_event ''c'' ''KeyC'' False False) createChordState
      terminal_context 5 sample_keymap) = None"
proof -
  have "\<not> chordIsActive createChordState 5" "\<not> keyEventMatchesBinding (Linux = Mac) (key_event ''c'' ''KeyC'' False False) (km_leader sample_keymap)"
    by code_simp+
  from terminal_keys_pass_through [OF sample_compiles this, of terminal_context] show ?thesis
    by (simp add: key_event_def)
qed

section \<open>The leader pressed twice\<close>

text \<open>
  Pressing the leader of any compiled keymap again, in a terminal and while it is pending, sends
  that leader's own control byte, the one of its letter, and ends the chord.
\<close>

theorem double_leader_sends_literal:
  assumes "compileKeymap stringify defaults profile platform = Inr km"
    "chordIsActive s now" "keyEventMatchesBinding mac e (km_leader km)" "\<not> ke_repeat e"
    "\<not> isComposing e" "ke_key e \<notin> set special_keys" "unguarded context" "inTerminal context"
  shows "\<exists>m c. km_leader km = chord [m] [c] \<and> is_lower_letter c \<and>
     resolveMuxSessionKeydown mac e s context now km
       = (Some (Prefix_Literal [char_of (of_char c - 96 :: nat)]), clearChord s)"
proof -
  from compiled_leader [OF assms(1)] obtain m c where mc: "m = ''Mod'' \<or> m = ''Ctrl''" "is_lower_letter c"
      "km_leader km = chord [m] [c]" by blast
  have ns: "trim (chord [m] [c]) = chord [m] [c]"
    using chord_no_space [of "[m]" "[c]"] mc(1) leader_mods lower_letter_key(1) [OF mc(2)]
    by (intro trim_no_space) blast
  have low: "to_lower c = c" by (rule lower_letter_key(2) [OF mc(2)])
  have tl: "toLowerCase ''Mod-'' = ''mod-''" "toLowerCase ''Ctrl-'' = ''ctrl-''" by code_simp+
  have lc: "toLowerCase (chord [m] [c]) = (if m = ''Mod'' then ''mod-'' else ''ctrl-'') @ [c]"
    using mc(1) low tl by (auto simp: chord_def toLowerCase_def)
  have "prefixLiteralByte (km_leader km) = Some [char_of (of_char c - 96 :: nat)]"
    using mc(1,2) unfolding mc(3) prefixLiteralByte_def ns lc
    by (auto simp: starts_with_def Let_def)
  with assms have "resolveMuxSessionKeydown mac e s context now km
       = (Some (Prefix_Literal [char_of (of_char c - 96 :: nat)]), clearChord s)"
    by (simp add: resolveMuxSessionKeydown_def resolve_pending_def unguarded_def special_keys_def Let_def)
  with mc show ?thesis by blast
qed

theorem double_leader_sends_literal_witness:
  "\<exists>m c. km_leader sample_keymap = chord [m] [c] \<and> is_lower_letter c \<and>
     resolveMuxSessionKeydown False (key_event ''k'' ''KeyK'' True False)
       (startChord createChordState ''Mod-k'' 100) terminal_context 200 sample_keymap
       = (Some (Prefix_Literal [char_of (of_char c - 96 :: nat)]),
          clearChord (startChord createChordState ''Mod-k'' 100))"
proof (rule double_leader_sends_literal [OF sample_compiles])
  show "chordIsActive (startChord createChordState ''Mod-k'' 100) 200"
    "keyEventMatchesBinding False (key_event ''k'' ''KeyK'' True False) (km_leader sample_keymap)"
    by code_simp+
qed (simp_all add: key_event_def special_keys_def unguarded_def terminal_context_def)

section \<open>How long a leader is pending\<close>

text \<open>Presses from the initial state, each with its context, time and result.\<close>

type_synonym key_history = "(muxKeyEvent \<times> keydownContext \<times> int \<times> keydownResult option) list"

inductive key_run :: "bool \<Rightarrow> keymapCatalog \<Rightarrow> key_history \<Rightarrow> chordState \<Rightarrow> bool" for mac current where
  run_start: "key_run mac current [] createChordState"
| run_press: "key_run mac current h s \<Longrightarrow> resolveMuxSessionKeydown mac e s context now current = (r, s') \<Longrightarrow>
    key_run mac current (h @ [(e, context, now, r)]) s'"

lemma resolve_keeps_pending:
  assumes "resolveMuxSessionKeydown mac e s context now current = (r, s')" "chord_prefix s' = Some p"
  shows "(r = Some (Prefix_Started (km_leader current)) \<and> p = km_leader current \<and> expiresAt s' = now + CHORD_TIMEOUT_MS)
    \<or> (r = Some Consume \<and> s' = s \<and> now < expiresAt s)"
proof -
  have c: "chord_prefix (clearChord x) = None" for x by (simp add: clearChord_def)
  show ?thesis
  proof (cases "isComposing e \<or> overlayOpen context \<or> inEditable context \<or> inPrefixButton context")
    case True
    with assms(1) have "s' = clearChord s"
      by (cases "isComposing e") (simp_all add: resolveMuxSessionKeydown_def)
    with assms(2) c [of s] show ?thesis by simp
  next
    case guards: False
    show ?thesis
    proof (cases "chordIsActive s now")
      case True
      then have "now < expiresAt s" by (simp add: chordIsActive_def)
      with True guards assms c [of s] show ?thesis
        by (auto simp: resolveMuxSessionKeydown_def resolve_pending_def Let_def split: if_splits option.splits)
    next
      case False
      define s0 where "s0 = (if chord_prefix s \<noteq> None then clearChord s else s)"
      have n: "chord_prefix s0 = None" by (simp add: s0_def c)
      from False guards assms(1) have "resolve_idle mac e s0 context now current = (r, s')"
        by (simp add: resolveMuxSessionKeydown_def s0_def)
      with n assms(2) show ?thesis
        by (auto simp: resolve_idle_def startChord_def split: if_splits option.splits)
    qed
  qed
qed

text \<open>
  C26: In every run of the keyboard a leader is pending only because of its own last press: it is the
  current leader, it expires 2500 milliseconds after that press, and every key since then was consumed
  (a modifier, or the leader held down) before that time. So one press captures at most one key.
\<close>

theorem pending_leader_is_fresh:
  assumes "key_run mac current h s" "chord_prefix s = Some p"
  shows "\<exists>h1 e context t h2. h = h1 @ (e, context, t, Some (Prefix_Started (km_leader current))) # h2 \<and>
     p = km_leader current \<and> expiresAt s = t + CHORD_TIMEOUT_MS \<and>
     list_all (\<lambda>(e', context', t', r'). r' = Some Consume \<and> t' < t + CHORD_TIMEOUT_MS) h2"
  using assms
proof (induction arbitrary: p rule: key_run.induct)
  case run_start
  then show ?case by (simp add: createChordState_def)
next
  case (run_press h s e ctx now r s')
  from resolve_keeps_pending [OF run_press.hyps(2) run_press.prems] show ?case
  proof
    assume "r = Some (Prefix_Started (km_leader current)) \<and> p = km_leader current
      \<and> expiresAt s' = now + CHORD_TIMEOUT_MS"
    then show ?thesis
      by (intro exI [of _ h] exI [of _ e] exI [of _ ctx] exI [of _ now] exI [of _ "[]"]) simp
  next
    assume k: "r = Some Consume \<and> s' = s \<and> now < expiresAt s"
    with run_press.IH run_press.prems obtain h1 e0 c0 t h2 where
      "h = h1 @ (e0, c0, t, Some (Prefix_Started (km_leader current))) # h2" "p = km_leader current"
      "expiresAt s = t + CHORD_TIMEOUT_MS"
      "list_all (\<lambda>(e', context', t', r'). r' = Some Consume \<and> t' < t + CHORD_TIMEOUT_MS) h2" by blast
    with k show ?thesis
      by (intro exI [of _ h1] exI [of _ e0] exI [of _ c0] exI [of _ t]
          exI [of _ "h2 @ [(e, ctx, now, r)]"]) simp
  qed
qed

lemma sample_press:
  "resolveMuxSessionKeydown False (key_event ''k'' ''KeyK'' True False) createChordState terminal_context 100
      DEFAULT_KEYMAP_CATALOG = (Some (Prefix_Started ''Mod-k''), startChord createChordState ''Mod-k'' 100)"
  by code_simp

theorem pending_leader_is_fresh_witness:
  "\<exists>h1 e context t h2. [(key_event ''k'' ''KeyK'' True False, terminal_context, 100 :: int, Some (Prefix_Started ''Mod-k''))]
       = h1 @ (e, context, t, Some (Prefix_Started (km_leader DEFAULT_KEYMAP_CATALOG))) # h2 \<and>
     ''Mod-k'' = km_leader DEFAULT_KEYMAP_CATALOG \<and>
     expiresAt (startChord createChordState ''Mod-k'' 100) = t + CHORD_TIMEOUT_MS \<and>
     list_all (\<lambda>(e', context', t', r'). r' = Some Consume \<and> t' < t + CHORD_TIMEOUT_MS) h2"
proof (rule pending_leader_is_fresh)
  show "key_run False DEFAULT_KEYMAP_CATALOG
      [(key_event ''k'' ''KeyK'' True False, terminal_context, 100, Some (Prefix_Started ''Mod-k''))]
      (startChord createChordState ''Mod-k'' 100)"
    using run_press [OF run_start sample_press] by simp
qed (simp add: startChord_def)

section \<open>Held keys\<close>

lemma default_repeatable:
  "list_all (\<lambda>b. pb_repeatable b = None) MUX_SESSION_PREFIX_BINDINGS
   \<and> list_all (\<lambda>b. db_repeatable b = None) MUX_SESSION_DIRECT_BINDINGS"
  by (simp add: MUX_SESSION_PREFIX_BINDINGS_def MUX_SESSION_DIRECT_BINDINGS_def prefix_binding_def direct_binding_def)

lemma compiled_repeatable:
  assumes "compileKeymap stringify DEFAULT_KEYMAP_CATALOG profile platform = Inr km"
  shows "b \<in> set (prefixBindings km) \<Longrightarrow> pb_repeatable b = None"
    and "d \<in> set (directBindings km) \<Longrightarrow> db_repeatable d = None"
  using valid_compiled [OF assms] default_repeatable
  by (auto simp: effective_keymap_def effective_prefix_def effective_direct_def DEFAULT_KEYMAP_CATALOG_def
      prefix_of_override_def direct_of_override_def override_prefix_def override_direct_def list_all_iff
      split: option.splits)

text \<open>
  A key that is held down runs a command again only if the command's descriptor allows it, under
  every profile and in every state; closing and opening never repeat.
\<close>

theorem held_key_repeats_only_allowed:
  assumes "compileKeymap stringify DEFAULT_KEYMAP_CATALOG profile platform = Inr km" "ke_repeat e"
    "fst (resolveMuxSessionKeydown mac e s context now km) = Some (Command_Key c j)"
  shows "cd_repeat (the (commandDescriptor c)) = Repeat_Allow"
proof -
  have r: "commandResult c' None e j' = Command_Key c j \<Longrightarrow> ?thesis" for c' j'
    using assms(2) by (auto simp: commandResult_def Let_def split: if_splits)
  have p: "pb_repeatable b = None" if "matchMuxSessionPrefixBinding k km = Some b" for k b
    using that compiled_repeatable(1) [OF assms(1)]
    by (auto simp: matchMuxSessionPrefixBinding_def dest!: find_Some_D split: if_splits)
  have d: "db_repeatable b = None" if "matchMuxSessionDirectBinding mac e km = Some b" for b
    using that compiled_repeatable(2) [OF assms(1)]
    by (auto simp: matchMuxSessionDirectBinding_def dest!: find_Some_D)
  from assms(3) show ?thesis
    unfolding resolveMuxSessionKeydown_def resolve_pending_def resolve_idle_def
      matchMuxSessionContextBinding_def Let_def
    by (auto simp: p d split: if_splits option.splits dest: r)
qed

lemma default_valid:
  assumes "length (stringify DEFAULT_KEYMAP_PROFILE) \<le> MAX_KEYMAP_JSON_BYTES"
  shows "profile_valid stringify DEFAULT_KEYMAP_CATALOG DEFAULT_KEYMAP_PROFILE platform ''Mod-k''"
proof (rule prefix_profile_valid)
  show "distinct (map prefix_key (effective_prefix DEFAULT_KEYMAP_CATALOG DEFAULT_KEYMAP_PROFILE))" by code_simp
  show "list_all (reachable_command (effective_prefix DEFAULT_KEYMAP_CATALOG DEFAULT_KEYMAP_PROFILE)
      MUX_SESSION_DIRECT_BINDINGS) REQUIRED_COMMANDS" by code_simp
qed (use assms in \<open>simp_all add: DEFAULT_KEYMAP_PROFILE_def no_direct_change_def\<close>)

lemma default_effective:
  "effective_keymap DEFAULT_KEYMAP_CATALOG DEFAULT_KEYMAP_PROFILE platform ''Mod-k''
     = \<lparr>km_leader = ''Mod-k'', prefixBindings = MUX_SESSION_PREFIX_BINDINGS,
        directBindings = MUX_SESSION_DIRECT_BINDINGS, contextBindings = [], km_source = DEFAULT_KEYMAP_PROFILE\<rparr>"
  by (simp add: effective_keymap_def effective_prefix_def effective_direct_def effective_context_def
      overridden_def DEFAULT_KEYMAP_PROFILE_def DEFAULT_KEYMAP_CATALOG_def MUX_SESSION_CONTEXT_BINDINGS_def)

lemma default_truncate:
  "keymapCatalog.truncate (effective_keymap DEFAULT_KEYMAP_CATALOG DEFAULT_KEYMAP_PROFILE platform ''Mod-k'')
     = DEFAULT_KEYMAP_CATALOG"
  unfolding default_effective
  by (simp add: keymapCatalog.truncate_def DEFAULT_KEYMAP_CATALOG_def SHELL_PREFIX_def
      MUX_SESSION_CONTEXT_BINDINGS_def)

lemma default_compiles:
  "compileKeymap (\<lambda>_. []) DEFAULT_KEYMAP_CATALOG DEFAULT_KEYMAP_PROFILE Linux
     = Inr (effective_keymap DEFAULT_KEYMAP_CATALOG DEFAULT_KEYMAP_PROFILE Linux ''Mod-k'')"
  by (rule compile_valid [OF default_valid]) simp

lemma held_next_terminal:
  "fst (resolveMuxSessionKeydown False ((key_event ''n'' ''KeyN'' False False)\<lparr>ke_repeat := True\<rparr>)
     (startChord createChordState ''Mod-k'' 100) terminal_context 200
     (effective_keymap DEFAULT_KEYMAP_CATALOG DEFAULT_KEYMAP_PROFILE Linux ''Mod-k''))
   = Some (Command_Key Terminal_Next None)"
  unfolding default_effective by code_simp

theorem held_key_repeats_only_allowed_witness:
  "cd_repeat (the (commandDescriptor Terminal_Next)) = Repeat_Allow"
  by (rule held_key_repeats_only_allowed [OF default_compiles _ held_next_terminal]) simp

text \<open>
  The shipped keymap is sound: its table passes its own check, and with no overrides it compiles to
  itself on every platform.
\<close>

theorem default_keymap_sound:
  assumes "length (stringify DEFAULT_KEYMAP_PROFILE) \<le> MAX_KEYMAP_JSON_BYTES"
  shows "validateMuxSessionBindings = [] \<and>
    (\<exists>km. compileKeymap stringify DEFAULT_KEYMAP_CATALOG DEFAULT_KEYMAP_PROFILE platform = Inr km \<and>
      keymapCatalog.truncate km = DEFAULT_KEYMAP_CATALOG)"
proof
  show "validateMuxSessionBindings = []" by code_simp
  show "\<exists>km. compileKeymap stringify DEFAULT_KEYMAP_CATALOG DEFAULT_KEYMAP_PROFILE platform = Inr km \<and>
      keymapCatalog.truncate km = DEFAULT_KEYMAP_CATALOG"
    using compile_valid [of stringify DEFAULT_KEYMAP_CATALOG DEFAULT_KEYMAP_PROFILE platform "''Mod-k''"]
      default_valid [of stringify platform] assms default_truncate [of platform] by blast
qed

theorem default_keymap_sound_witness:
  "validateMuxSessionBindings = [] \<and>
    (\<exists>km. compileKeymap (\<lambda>_. ''{}'') DEFAULT_KEYMAP_CATALOG DEFAULT_KEYMAP_PROFILE Mac = Inr km \<and>
      keymapCatalog.truncate km = DEFAULT_KEYMAP_CATALOG)"
  by (rule default_keymap_sound) (simp add: MAX_KEYMAP_JSON_BYTES_def)

section \<open>Normal forms\<close>

text \<open>
  Normal forms of chords are stable: normalizing one again returns it, so a stored chord means what
  it meant when it was entered.
\<close>

theorem normalizeKeyChord_idempotent:
  assumes "normalizeKeyChord v = Some c"
  shows "normalizeKeyChord c = Some c"
  using normalizeKeyChord_canonical [OF assms] normalize_chord by blast

theorem normalizeKeyChord_idempotent_witness: "normalizeKeyChord ''Mod-Shift-g'' = Some ''Mod-Shift-g''"
  by (rule normalizeKeyChord_idempotent [of "''shift-mod-G''"]) code_simp

section \<open>Two gaps\<close>

text \<open>
  A digit after the leader is accepted for any command, but the keys 1 to 9 are looked up as positions
  only. So the command palette, which the compiler promises to keep reachable, can be put on a key
  that jumps to a terminal.
\<close>

definition digit_keymap :: effectiveKeymap where
  "digit_keymap = effective_keymap DEFAULT_KEYMAP_CATALOG (one_override CommandPalette_Show ''Leader 5'') Mac ''Mod-k''"

lemma digit_valid:
  "profile_valid (\<lambda>_. []) DEFAULT_KEYMAP_CATALOG (one_override CommandPalette_Show ''Leader 5'') Mac ''Mod-k''"
proof (rule prefix_profile_valid)
  let ?p = "one_override CommandPalette_Show ''Leader 5''"
  show "no_direct_change ?p" "list_all (override_valid Mac) (kp_bindings ?p)"
    "distinct (map prefix_key (effective_prefix DEFAULT_KEYMAP_CATALOG ?p))"
    by code_simp+
  show "list_all (reachable_command (effective_prefix DEFAULT_KEYMAP_CATALOG ?p)
      MUX_SESSION_DIRECT_BINDINGS) REQUIRED_COMMANDS" by code_simp
qed (simp_all add: one_override_def DEFAULT_KEYMAP_PROFILE_def MAX_KEYMAP_BINDINGS_def)

lemma digit_shadowed: "matchMuxSessionPrefixBinding ''5'' digit_keymap \<noteq> None
  \<and> pb_command (the (matchMuxSessionPrefixBinding ''5'' digit_keymap)) = Terminal_Jump
  \<and> filter (\<lambda>b. pb_command b = CommandPalette_Show) (prefixBindings digit_keymap)
      = [override_prefix CommandPalette_Show ''5'']
  \<and> filter (\<lambda>b. db_command b = CommandPalette_Show) (directBindings digit_keymap) = []"
  by code_simp

text \<open>
  The recovery path of the command palette can be lost: the profile that binds it to the leader and
  5 compiles, has no other binding for it, and the key 5 jumps to a terminal.
\<close>

theorem digit_override_unreachable:
  "compileKeymap (\<lambda>_. []) DEFAULT_KEYMAP_CATALOG (one_override CommandPalette_Show ''Leader 5'') Mac = Inr digit_keymap
   \<and> filter (\<lambda>b. pb_command b = CommandPalette_Show) (prefixBindings digit_keymap)
       = [override_prefix CommandPalette_Show ''5'']
   \<and> filter (\<lambda>b. db_command b = CommandPalette_Show) (directBindings digit_keymap) = []
   \<and> map_option pb_command (matchMuxSessionPrefixBinding ''5'' digit_keymap) = Some Terminal_Jump"
  using digit_shadowed compile_valid [OF digit_valid] by (auto simp: digit_keymap_def)

text \<open>
  A dash as the key is lost when a chord is taken apart: \<open>Mod--\<close>, which the list of unavailable keys
  names, is classified as merely risky, and the leader cannot be followed by a dash at all.
\<close>

lemma dash_key_lost:
  "''-'' \<in> set PRIMARY_UNAVAILABLE_KEYS
   \<and> rc_risk (classifyKeyBinding ''Mod--'' Kind_Direct Mac) = Browser_Risky
   \<and> rc_risk (classifyKeyBinding ''Mod-='' Kind_Direct Mac) = Os_Unavailable
   \<and> normalizePrefixKey ''-'' = None \<and> normalizePrefixKey ''='' = Some ''=''"
  by code_simp

end
