(* ===== verification/Input_Writer.thy ===== *)
theory Input_Writer
  imports Prelude
begin

text \<open>
  The keyboard input of a terminal on its way to the host,
  \<^verbatim>\<open>packages/yaade-ui/src/panels/terminal-input-writer.ts\<close>. Input of one turn is coalesced, a microtask
  flushes it in chunks, and the chunks are sent one after the other.

  The promise chain \<open>writeTail\<close> is the send that runs and the queue of those behind it; a send that
  settles, well or not, lets the next one start. \<open>microtasks\<close> counts the flushes queued with
  \<open>queueMicrotask\<close>, which a direct \<open>flush\<close> does not take back. The calls a step makes are its output.
  A character stands for a code unit.
\<close>

section \<open>State and operations\<close>

definition MAX_INPUT_CHUNK :: nat where
  "MAX_INPUT_CHUNK = 64 * 1024"

datatype input_kind = Text_Input | Binary_Input

record pending_input =
  pi_kind :: input_kind
  pi_data :: string

record input_writer =
  iw_pending :: "pending_input list"
  iw_scheduled :: bool
  iw_disposed :: bool
  iw_queue :: "pending_input list"
  iw_running :: "pending_input option"
  iw_microtasks :: nat

datatype input_call = Call_Write string | Call_Write_Binary string | Call_On_Error

definition newInputWriter :: input_writer where
  "newInputWriter = \<lparr>iw_pending = [], iw_scheduled = False, iw_disposed = False, iw_queue = [],
     iw_running = None, iw_microtasks = 0\<rparr>"

text \<open>The slices of one input; the size is positive in every call.\<close>

function slices :: "nat \<Rightarrow> string \<Rightarrow> string list" where
  "slices n s = (if s = [] \<or> n = 0 then [] else take n s # slices n (drop n s))"
  by auto

termination
  by (relation "measure (\<lambda>(n, s). length s)") auto

declare slices.simps [simp del]

definition chunks_of :: "pending_input \<Rightarrow> pending_input list" where
  "chunks_of i =
     (let chunkSize = (if pi_kind i = Text_Input then MAX_INPUT_CHUNK else max 1 (length (pi_data i)))
      in map (\<lambda>c. \<lparr>pi_kind = pi_kind i, pi_data = c\<rparr>) (slices chunkSize (pi_data i)))"

definition flush_input :: "input_writer \<Rightarrow> input_writer" where
  "flush_input w =
     (let w1 = w\<lparr>iw_scheduled := False\<rparr> in
      if iw_disposed w1 \<or> iw_pending w1 = [] then w1
      else w1\<lparr>iw_pending := [], iw_queue := iw_queue w1 @ concat (map chunks_of (iw_pending w1))\<rparr>)"

definition schedule_input :: "input_writer \<Rightarrow> input_writer" where
  "schedule_input w =
     (if iw_scheduled w then w else w\<lparr>iw_scheduled := True, iw_microtasks := iw_microtasks w + 1\<rparr>)"

definition append_text :: "string \<Rightarrow> pending_input list \<Rightarrow> pending_input list" where
  "append_text d ps =
     (if ps \<noteq> [] \<and> pi_kind (List.last ps) = Text_Input
      then butlast ps @ [(List.last ps)\<lparr>pi_data := pi_data (List.last ps) @ d\<rparr>]
      else ps @ [\<lparr>pi_kind = Text_Input, pi_data = d\<rparr>])"

definition enqueue_input :: "string \<Rightarrow> input_writer \<Rightarrow> input_writer" where
  "enqueue_input d w =
     (if iw_disposed w \<or> d = [] then w
      else schedule_input (w\<lparr>iw_pending := append_text d (iw_pending w)\<rparr>))"

text \<open>\<open>has_binary\<close>: the writer was given a function for binary input.\<close>

definition enqueueBinary :: "bool \<Rightarrow> string \<Rightarrow> input_writer \<Rightarrow> input_writer" where
  "enqueueBinary has_binary d w =
     (if iw_disposed w \<or> d = [] \<or> \<not> has_binary then w
      else schedule_input (w\<lparr>iw_pending := iw_pending w @ [\<lparr>pi_kind = Binary_Input, pi_data = d\<rparr>]\<rparr>))"

definition dispose_input :: "input_writer \<Rightarrow> input_writer" where
  "dispose_input w = w\<lparr>iw_disposed := True, iw_pending := []\<rparr>"

text \<open>The body of \<open>send\<close>: a call when its turn comes, and the error report if it is rejected.\<close>

definition call_of :: "pending_input \<Rightarrow> input_call" where
  "call_of c = (if pi_kind c = Binary_Input then Call_Write_Binary (pi_data c) else Call_Write (pi_data c))"

definition start_send :: "input_writer \<Rightarrow> (input_writer \<times> input_call) option" where
  "start_send w =
     (case (iw_running w, iw_queue w) of
        (None, c # cs) \<Rightarrow> Some (w\<lparr>iw_running := Some c, iw_queue := cs\<rparr>, call_of c)
      | _ \<Rightarrow> None)"

definition settle_send :: "bool \<Rightarrow> input_writer \<Rightarrow> input_writer \<times> input_call list" where
  "settle_send ok w = (w\<lparr>iw_running := None\<rparr>, if ok then [] else [Call_On_Error])"

section \<open>Runs\<close>

datatype input_event =
    Ev_Enqueue string
  | Ev_Enqueue_Binary string
  | Ev_Flush
  | Ev_Microtask
  | Ev_Start
  | Ev_Settle bool
  | Ev_Dispose

inductive input_step ::
  "bool \<Rightarrow> input_writer \<Rightarrow> input_event \<Rightarrow> input_call list \<Rightarrow> input_writer \<Rightarrow> bool" for has_binary where
  step_enqueue: "input_step has_binary w (Ev_Enqueue d) [] (enqueue_input d w)"
| step_binary: "input_step has_binary w (Ev_Enqueue_Binary d) [] (enqueueBinary has_binary d w)"
| step_flush: "input_step has_binary w Ev_Flush [] (flush_input w)"
| step_microtask: "0 < iw_microtasks w \<Longrightarrow>
    input_step has_binary w Ev_Microtask [] (flush_input (w\<lparr>iw_microtasks := iw_microtasks w - 1\<rparr>))"
| step_start: "start_send w = Some (w', c) \<Longrightarrow> input_step has_binary w Ev_Start [c] w'"
| step_settle: "iw_running w \<noteq> None \<Longrightarrow> settle_send ok w = (w', cs) \<Longrightarrow>
    input_step has_binary w (Ev_Settle ok) cs w'"
| step_dispose: "input_step has_binary w Ev_Dispose [] (dispose_input w)"

inductive input_run ::
  "bool \<Rightarrow> input_event list \<Rightarrow> input_call list \<Rightarrow> input_writer \<Rightarrow> bool" for has_binary where
  input_start: "input_run has_binary [] [] newInputWriter"
| input_more: "input_run has_binary es cs w \<Longrightarrow> input_step has_binary w e c w' \<Longrightarrow>
    input_run has_binary (es @ [e]) (cs @ c) w'"

section \<open>What is sent\<close>

text \<open>Inputs as one stream of units, each tagged with its kind.\<close>

definition units_of :: "pending_input \<Rightarrow> (input_kind \<times> char) list" where
  "units_of i = map (\<lambda>c. (pi_kind i, c)) (pi_data i)"

definition stream_of :: "pending_input list \<Rightarrow> (input_kind \<times> char) list" where
  "stream_of ps = concat (map units_of ps)"

fun call_units :: "input_call \<Rightarrow> (input_kind \<times> char) list" where
  "call_units (Call_Write s) = map (\<lambda>c. (Text_Input, c)) s"
| "call_units (Call_Write_Binary s) = map (\<lambda>c. (Binary_Input, c)) s"
| "call_units Call_On_Error = []"

definition sent_stream :: "input_call list \<Rightarrow> (input_kind \<times> char) list" where
  "sent_stream cs = concat (map call_units cs)"

text \<open>What the events hand in before the writer is disposed.\<close>

fun handed_in :: "bool \<Rightarrow> input_event list \<Rightarrow> (input_kind \<times> char) list" where
  "handed_in hb [] = []"
| "handed_in hb (Ev_Enqueue d # es) = map (\<lambda>c. (Text_Input, c)) d @ handed_in hb es"
| "handed_in hb (Ev_Enqueue_Binary d # es) =
     (if hb then map (\<lambda>c. (Binary_Input, c)) d else []) @ handed_in hb es"
| "handed_in hb (Ev_Dispose # es) = []"
| "handed_in hb (_ # es) = handed_in hb es"

lemma stream_of_simps [simp]:
  "stream_of [] = []" "stream_of (p # ps) = units_of p @ stream_of ps"
  "stream_of (ps @ qs) = stream_of ps @ stream_of qs"
  by (simp_all add: stream_of_def)

lemma sent_stream_simps [simp]:
  "sent_stream [] = []" "sent_stream (c # cs) = call_units c @ sent_stream cs"
  "sent_stream (cs @ ds) = sent_stream cs @ sent_stream ds"
  by (simp_all add: sent_stream_def)

lemma call_units_call_of [simp]: "call_units (call_of c) = units_of c"
  by (cases "pi_kind c") (simp_all add: call_of_def units_of_def)

lemma concat_slices: "0 < n \<Longrightarrow> concat (slices n s) = s"
  by (induction n s rule: slices.induct) (auto simp: slices.simps)

lemma slices_bound: "c \<in> set (slices n s) \<Longrightarrow> c \<noteq> [] \<and> length c \<le> n"
proof (induction n s rule: slices.induct)
  case (1 n s)
  then show ?case by (cases "s = [] \<or> n = 0") (auto simp: slices.simps [of n s])
qed

lemma stream_of_chunks [simp]: "stream_of (chunks_of i) = units_of i"
proof -
  have "stream_of (map (\<lambda>c. \<lparr>pi_kind = k, pi_data = c\<rparr>) cs) = map (\<lambda>c. (k, c)) (concat cs)" for k cs
    by (induction cs) (simp_all add: units_of_def)
  then show ?thesis
    by (simp add: chunks_of_def Let_def concat_slices MAX_INPUT_CHUNK_def units_of_def)
qed

lemma stream_of_all_chunks [simp]: "stream_of (concat (map chunks_of ps)) = stream_of ps"
  by (induction ps) simp_all

lemma stream_append_text [simp]: "stream_of (append_text d ps) = stream_of ps @ map (\<lambda>c. (Text_Input, c)) d"
  by (cases ps rule: rev_cases) (simp_all add: append_text_def units_of_def)

section \<open>The invariant of a run\<close>

definition chunk_ok :: "pending_input \<Rightarrow> bool" where
  "chunk_ok c \<longleftrightarrow> pi_data c \<noteq> [] \<and> (pi_kind c = Text_Input \<longrightarrow> length (pi_data c) \<le> MAX_INPUT_CHUNK)"

fun call_ok :: "input_call \<Rightarrow> bool" where
  "call_ok (Call_Write s) \<longleftrightarrow> s \<noteq> [] \<and> length s \<le> MAX_INPUT_CHUNK"
| "call_ok (Call_Write_Binary s) \<longleftrightarrow> s \<noteq> []"
| "call_ok Call_On_Error \<longleftrightarrow> True"

lemma chunks_ok: "list_all chunk_ok (concat (map chunks_of ps))"
proof -
  have "chunk_ok c" if "c \<in> set (chunks_of i)" for c i
    using that slices_bound [of "pi_data c"]
    by (auto simp: chunks_of_def chunk_ok_def Let_def dest: slices_bound split: if_splits)
  then show ?thesis by (auto simp: list_all_iff)
qed

lemma call_ok_of: "chunk_ok c \<Longrightarrow> call_ok (call_of c)"
  by (cases "pi_kind c") (simp_all add: chunk_ok_def call_of_def)

lemma handed_in_snoc:
  "handed_in hb (es @ [e]) = handed_in hb es @ (if Ev_Dispose \<in> set es then [] else handed_in hb [e])"
  by (induction hb es rule: handed_in.induct) auto

definition input_inv :: "bool \<Rightarrow> input_event list \<Rightarrow> input_call list \<Rightarrow> input_writer \<Rightarrow> bool" where
  "input_inv hb es cs w \<longleftrightarrow>
     (iw_disposed w \<longleftrightarrow> Ev_Dispose \<in> set es) \<and>
     (\<exists>dropped. sent_stream cs @ stream_of (iw_queue w) @ stream_of (iw_pending w) @ dropped = handed_in hb es \<and>
        (\<not> iw_disposed w \<longrightarrow> dropped = [])) \<and>
     (iw_disposed w \<longrightarrow> iw_pending w = []) \<and>
     list_all chunk_ok (iw_queue w) \<and> list_all call_ok cs \<and>
     (iw_pending w \<noteq> [] \<longrightarrow> iw_scheduled w) \<and> (iw_scheduled w \<longrightarrow> 0 < iw_microtasks w)"

lemma flush_input_inv:
  assumes "input_inv hb es cs w"
  shows "input_inv hb es cs (flush_input (w\<lparr>iw_microtasks := n\<rparr>))"
  using assms chunks_ok [of "iw_pending w"]
  by (auto simp: input_inv_def flush_input_def Let_def)

lemma input_inv_flush_event:
  "e = Ev_Flush \<or> e = Ev_Microtask \<or> e = Ev_Start \<or> (\<exists>ok. e = Ev_Settle ok) \<Longrightarrow>
   input_inv hb es cs w \<Longrightarrow> input_inv hb (es @ [e]) cs w"
  by (auto simp: input_inv_def handed_in_snoc)

lemma input_inv_accept:
  assumes "input_inv hb es cs w" "\<not> iw_disposed w" "handed_in hb [e] = u" "e \<noteq> Ev_Dispose"
    "stream_of ps = stream_of (iw_pending w) @ u"
  shows "input_inv hb (es @ [e]) cs (schedule_input (w\<lparr>iw_pending := ps\<rparr>))"
  using assms by (auto simp: input_inv_def handed_in_snoc schedule_input_def)

lemma input_inv_ignored:
  assumes "input_inv hb es cs w" "e \<noteq> Ev_Dispose" "iw_disposed w \<or> handed_in hb [e] = []"
  shows "input_inv hb (es @ [e]) cs w"
  using assms by (auto simp: input_inv_def handed_in_snoc)

lemma input_inv_dispose:
  assumes "input_inv hb es cs w"
  shows "input_inv hb (es @ [Ev_Dispose]) cs (dispose_input w)"
proof -
  from assms obtain dropped where
    "sent_stream cs @ stream_of (iw_queue w) @ stream_of (iw_pending w) @ dropped = handed_in hb es"
    by (auto simp: input_inv_def)
  then have "\<exists>d. sent_stream cs @ stream_of (iw_queue w) @ d = handed_in hb (es @ [Ev_Dispose])"
    by (auto simp: handed_in_snoc)
  with assms show ?thesis by (auto simp: input_inv_def dispose_input_def)
qed

lemma input_step_inv:
  assumes "input_step hb w e c w'" "input_inv hb es cs w"
  shows "input_inv hb (es @ [e]) (cs @ c) w'"
  using assms(1)
proof (cases rule: input_step.cases)
  case (step_enqueue d)
  show ?thesis
  proof (cases "iw_disposed w \<or> d = []")
    case True
    with assms(2) step_enqueue input_inv_ignored [of hb es cs w e] show ?thesis
      by (auto simp: enqueue_input_def)
  next
    case False
    with assms(2) step_enqueue input_inv_accept [of hb es cs w e _ "append_text d (iw_pending w)"] show ?thesis
      by (simp add: enqueue_input_def)
  qed
next
  case (step_binary d)
  show ?thesis
  proof (cases "iw_disposed w \<or> d = [] \<or> \<not> hb")
    case True
    with assms(2) step_binary input_inv_ignored [of hb es cs w e] show ?thesis
      by (auto simp: enqueueBinary_def)
  next
    case False
    with assms(2) step_binary
      input_inv_accept [of hb es cs w e _ "iw_pending w @ [\<lparr>pi_kind = Binary_Input, pi_data = d\<rparr>]"]
    show ?thesis by (simp add: enqueueBinary_def units_of_def)
  qed
next
  case step_flush
  with flush_input_inv [OF assms(2), of "iw_microtasks w"] input_inv_flush_event [of e hb es cs w'] show ?thesis
    by simp
next
  case step_microtask
  with flush_input_inv [OF assms(2), of "iw_microtasks w - 1"] input_inv_flush_event [of e hb es cs w'] show ?thesis
    by simp
next
  case (step_start c')
  then obtain x xs where x: "iw_queue w = x # xs" "w' = w\<lparr>iw_running := Some x, iw_queue := xs\<rparr>" "c' = call_of x"
    by (auto simp: start_send_def split: option.splits list.splits)
  with assms(2) have "input_inv hb es (cs @ [c']) w'"
    by (auto simp: input_inv_def call_ok_of)
  with step_start input_inv_flush_event [of e hb es "cs @ [c']" w'] show ?thesis by simp
next
  case (step_settle ok)
  then have "sent_stream c = []" "list_all call_ok c" "w' = w\<lparr>iw_running := None\<rparr>"
    by (auto simp: settle_send_def)
  with assms(2) have "input_inv hb es (cs @ c) w'" by (simp add: input_inv_def) metis
  with step_settle input_inv_flush_event [of e hb es "cs @ c" w'] show ?thesis by simp
next
  case step_dispose
  with input_inv_dispose [OF assms(2)] show ?thesis by simp
qed

lemma input_run_inv: "input_run hb es cs w \<Longrightarrow> input_inv hb es cs w"
proof (induction rule: input_run.induct)
  case input_start
  show ?case by (simp add: input_inv_def newInputWriter_def)
next
  case (input_more es cs w e c w')
  from input_step_inv [OF input_more.hyps(2) input_more.IH] show ?case .
qed


definition sample_writer :: input_writer where
  "sample_writer = newInputWriter\<lparr>iw_pending := [\<lparr>pi_kind = Text_Input, pi_data = ''ls''\<rparr>],
     iw_scheduled := True, iw_microtasks := 1\<rparr>"


end
