(* ===== verification/Terminal_Ws.thy ===== *)
theory Terminal_Ws
  imports Terminal_Stream Utf8 Server_Definitions
begin

text \<open>
  The frames and messages of the older terminal stream, \<^verbatim>\<open>packages/yaade-rpc/src/terminal-ws.ts\<close>: output
  of a terminal in a binary frame, and the JSON messages around it. The routes are those of
  \<^verbatim>\<open>routes.ts\<close>, of which only the name and the \<open>realtime\<close> flag matter here. Sequence numbers that
  were decoded are integers; \<open>JSON.stringify\<close> is a parameter.
\<close>

section \<open>Binary frames\<close>

definition TERMINAL_DATA_FRAME_TYPE_V1 :: byte where
  "TERMINAL_DATA_FRAME_TYPE_V1 = 1"

definition TERMINAL_DATA_FRAME_TYPE :: byte where
  "TERMINAL_DATA_FRAME_TYPE = 2"

text \<open>\<open>setBigUint64\<close>, which keeps the low 64 bits, \<open>setUint16\<close> and the readers, all big-endian.\<close>

definition setUint64 :: "nat \<Rightarrow> byte list" where
  "setUint64 n = setUint32 (n div 2 ^ 32) @ setUint32 n"

definition getUint64 :: "byte list \<Rightarrow> nat \<Rightarrow> nat" where
  "getUint64 bs i = getUint32 bs i * 2 ^ 32 + getUint32 bs (i + 4)"

definition setUint16 :: "nat \<Rightarrow> byte list" where
  "setUint16 n = [of_nat (n div 2 ^ 8), of_nat n]"

definition getUint16 :: "byte list \<Rightarrow> nat \<Rightarrow> nat" where
  "getUint16 bs i = unat (bs ! i) * 2 ^ 8 + unat (bs ! (i + 1))"

definition toU64 :: "jsnum \<Rightarrow> nat" where
  "toU64 x = (case x of Fin q \<Rightarrow> if q \<le> 0 then 0 else nat \<lfloor>q\<rfloor> | _ \<Rightarrow> 0)"

definition fromU64 :: "nat \<Rightarrow> int" where
  "fromU64 n = (if max_safe < int n then max_safe else int n)"

record data_frame =
  df_eventSequence :: int
  df_terminalSequence :: int
  df_id :: utf16
  df_payload :: "byte list"

definition encodeTerminalDataFrame :: "jsnum \<Rightarrow> jsnum \<Rightarrow> utf16 \<Rightarrow> byte list \<Rightarrow> byte list option" where
  "encodeTerminalDataFrame eventSequence terminalSequence i payload =
     (let idBytes = utf8_encode i in
      if 65535 < length idBytes then None
      else Some ([TERMINAL_DATA_FRAME_TYPE] @ setUint64 (toU64 eventSequence)
             @ setUint64 (toU64 terminalSequence) @ setUint16 (length idBytes) @ idBytes @ payload))"

definition decodeTerminalDataFrame :: "byte list \<Rightarrow> data_frame option" where
  "decodeTerminalDataFrame buf =
     (if length buf < 11 then None
      else if buf ! 0 = TERMINAL_DATA_FRAME_TYPE then
        if length buf < 19 then None
        else
          let idLen = getUint16 buf 17 in
          if length buf < 19 + idLen then None
          else Some \<lparr>df_eventSequence = fromU64 (getUint64 buf 1), df_terminalSequence = fromU64 (getUint64 buf 9),
                 df_id = utf8_decode (take idLen (drop 19 buf)), df_payload = drop (19 + idLen) buf\<rparr>
      else if buf ! 0 \<noteq> TERMINAL_DATA_FRAME_TYPE_V1 then None
      else
        let idLen = getUint16 buf 9 in
        if length buf < 11 + idLen then None
        else Some \<lparr>df_eventSequence = int (getUint32 buf 1), df_terminalSequence = int (getUint32 buf 5),
               df_id = utf8_decode (take idLen (drop 11 buf)), df_payload = drop (11 + idLen) buf\<rparr>)"

section \<open>Messages\<close>

text \<open>The routes: name and \<open>realtime\<close>.\<close>

definition HOST_ROUTES :: "(string \<times> bool) list" where
  "HOST_ROUTES =
     [
      (''mux:listSessions'', False),
      (''mux:createSession'', False),
      (''mux:renameSession'', False),
      (''mux:reorderSessions'', False),
      (''mux:createTab'', False),
      (''mux:renameTab'', False),
      (''mux:saveTabLayout'', False),
      (''mux:reorderTabs'', False),
      (''mux:archiveTab'', False),
      (''mux:selectTab'', False),
      (''mux:archiveSession'', False),
      (''mux:restoreSession'', False),
      (''mux:getSession'', False),
      (''mux:createTerminal'', False),
      (''mux:reorderTerminals'', False),
      (''mux:moveTerminal'', False),
      (''mux:selectTerminal'', False),
      (''mux:getTerminal'', False),
      (''mux:stopTerminal'', False),
      (''mux:restartTerminal'', False),
      (''mux:closeTerminal'', False),
      (''mux:renameTerminal'', False),
      (''terminal:create'', False),
      (''terminal:write'', True),
      (''terminal:writeBinary'', True),
      (''terminal:resize'', True),
      (''terminal:setTheme'', False),
      (''terminal:acquireLease'', False),
      (''terminal:renewLease'', False),
      (''terminal:releaseLease'', False),
      (''terminal:requestControl'', False),
      (''terminal:transferControl'', False),
      (''terminal:listViewers'', False),
      (''terminal:ready'', True),
      (''terminal:detach'', True),
      (''terminal:attach'', True),
      (''terminal:readReplayPage'', False),
      (''terminal:getCwd'', False),
      (''terminal:getForegroundProcess'', False),
      (''terminal:dispose'', False)
]"

definition getHostRoute :: "string \<Rightarrow> bool option" where
  "getHostRoute channel = map_option snd (find (\<lambda>r. fst r = channel) HOST_ROUTES)"

definition HOST_ROUTE_CHANNELS :: "string list" where
  "HOST_ROUTE_CHANNELS = map fst HOST_ROUTES"

definition TERMINAL_WS_HOT_OPS :: "string list" where
  "TERMINAL_WS_HOT_OPS =
     filter (\<lambda>c. starts_with ''terminal:'' c \<and> getHostRoute c = Some True) HOST_ROUTE_CHANNELS"

record ws_position =
  ws_terminalId :: string
  ws_sequence :: jsnum

record ws_command =
  wc_requestId :: string
  wc_op :: string
  wc_args :: "json list"

datatype ws_result =
    Ws_Ok string "json option"
  | Ws_Error string string "string option"

definition encodeTerminalWsAck :: "(json \<Rightarrow> string) \<Rightarrow> string \<Rightarrow> jsnum \<Rightarrow> string" where
  "encodeTerminalWsAck stringify terminalId seq = stringify
     (JObj [(''type'', JStr ''terminal:ack''), (''terminalId'', JStr terminalId), (''sequence'', JNum seq)])"

text \<open>The two messages with a position share their checks; \<open>t\<close> is the type that is asked for.\<close>

definition decode_position :: "string \<Rightarrow> json \<Rightarrow> ws_position option" where
  "decode_position t raw =
     (if \<not> isRecord raw then None
      else case (member raw ''type'', member raw ''terminalId'', member raw ''sequence'') of
        (Some (JStr t'), Some (JStr i), Some (JNum n)) \<Rightarrow>
          if t' \<noteq> t \<or> i = [] \<or> \<not> is_safe_integer n \<or> js_less n (js_int 0) then None
          else Some \<lparr>ws_terminalId = i, ws_sequence = n\<rparr>
      | _ \<Rightarrow> None)"

definition tryDecodeTerminalWsAck :: "json \<Rightarrow> ws_position option" where
  "tryDecodeTerminalWsAck raw = decode_position ''terminal:ack'' raw"

definition tryDecodeTerminalReplayRequired :: "json \<Rightarrow> ws_position option" where
  "tryDecodeTerminalReplayRequired raw = decode_position ''terminal:replay-required'' raw"

definition isTerminalWsHotOp :: "json option \<Rightarrow> bool" where
  "isTerminalWsHotOp v =
     (case v of Some (JStr s) \<Rightarrow> starts_with ''terminal:'' s \<and> getHostRoute s = Some True | _ \<Rightarrow> False)"

definition encodeTerminalWsCommand :: "(json \<Rightarrow> string) \<Rightarrow> string \<Rightarrow> string \<Rightarrow> json list \<Rightarrow> string" where
  "encodeTerminalWsCommand stringify requestId op args = stringify
     (JObj [(''requestId'', JStr requestId), (''op'', JStr op), (''args'', JArr args)])"

definition tryDecodeTerminalWsCommand :: "json \<Rightarrow> ws_command option" where
  "tryDecodeTerminalWsCommand raw =
     (case (member raw ''requestId'', member raw ''op'', member raw ''args'') of
        (Some (JStr r), Some (JStr op), Some (JArr args)) \<Rightarrow>
          if r = [] \<or> \<not> isTerminalWsHotOp (Some (JStr op)) then None
          else Some \<lparr>wc_requestId = r, wc_op = op, wc_args = args\<rparr>
      | _ \<Rightarrow> None)"

definition tryDecodeTerminalWsResult :: "json \<Rightarrow> ws_result option" where
  "tryDecodeTerminalWsResult raw =
     (case (member raw ''type'', member raw ''requestId'', member raw ''ok'') of
        (Some (JStr t), Some (JStr r), Some (JBool ok)) \<Rightarrow>
          if t \<noteq> ''terminal:result'' then None
          else if ok then Some (Ws_Ok r (member raw ''value''))
          else (case member raw ''error'' of
                  Some e \<Rightarrow>
                    (case member e ''message'' of
                       Some (JStr m) \<Rightarrow> Some (Ws_Error r m
                         (case member e ''code'' of Some (JStr c) \<Rightarrow> Some c | _ \<Rightarrow> None))
                     | _ \<Rightarrow> None)
                | None \<Rightarrow> None)
      | _ \<Rightarrow> None)"

section \<open>Reading what was written\<close>

lemma getUint32_append: "getUint32 (xs @ ys) (length xs + k) = getUint32 ys k"
  by (simp add: getUint32_def nth_append add.assoc)

lemma getUint32_here: "n < 2 ^ 32 \<Longrightarrow> getUint32 (setUint32 n @ rest) 0 = n"
  using getUint32_setUint32 [of n 0 0 rest] getUint32_append [of "[0, 0]" "setUint32 n @ rest" 0]
  by (simp add: numeral_2_eq_2)

lemma getUint32_at: "n < 2 ^ 32 \<Longrightarrow> getUint32 (xs @ setUint32 n @ rest) (length xs) = n"
  using getUint32_append [of xs "setUint32 n @ rest" 0] getUint32_here [of n rest] by simp

lemma byte_of_mod: "a mod 256 = b mod 256 \<Longrightarrow> (of_nat a :: byte) = of_nat b"
  by (simp add: word_unat_eq_iff unat_of_nat)

lemma setUint32_low: "setUint32 n = setUint32 (n mod 2 ^ 32)"
proof -
  have d: "(n mod (a * b)) div a mod 256 = n div a mod 256" if "256 dvd b" "0 < a" for a b
    using that by (simp add: mod_mult2_eq mod_mod_cancel)
  have "(n mod 2 ^ 32) div 2 ^ 24 mod 256 = n div 2 ^ 24 mod 256"
    using d [of "2 ^ 8" "2 ^ 24"] by simp
  moreover have "(n mod 2 ^ 32) div 2 ^ 16 mod 256 = n div 2 ^ 16 mod 256"
    using d [of "2 ^ 16" "2 ^ 16"] by simp
  moreover have "(n mod 2 ^ 32) div 2 ^ 8 mod 256 = n div 2 ^ 8 mod 256"
    using d [of "2 ^ 24" "2 ^ 8"] by simp
  moreover have "(n mod 2 ^ 32) mod 256 = n mod 256" by (rule mod_mod_cancel) simp
  ultimately show ?thesis
    unfolding setUint32_def list.inject by (intro conjI byte_of_mod refl) (simp_all only:)
qed

lemma getUint64_at:
  assumes "n < 2 ^ 64"
  shows "getUint64 (xs @ setUint64 n @ rest) (length xs) = n"
proof -
  have hi: "n div 2 ^ 32 < 2 ^ 32" using assms by (simp add: less_mult_imp_div_less)
  have "getUint32 (xs @ setUint64 n @ rest) (length xs) = n div 2 ^ 32"
    using getUint32_at [OF hi, of xs "setUint32 n @ rest"] by (simp add: setUint64_def)
  moreover have "getUint32 (xs @ setUint64 n @ rest) (length xs + 4) = n mod 2 ^ 32"
    using getUint32_at [of "n mod 2 ^ 32" "xs @ setUint32 (n div 2 ^ 32)" rest] setUint32_low [of n]
    by (simp add: setUint64_def)
  ultimately show ?thesis unfolding getUint64_def by (simp only: div_mult_mod_eq)
qed

lemma getUint16_at:
  assumes "n < 2 ^ 16"
  shows "getUint16 (xs @ setUint16 n @ rest) (length xs) = n"
proof -
  have "n div 256 mod 256 = n div 256" using assms by (intro mod_less) simp
  then show ?thesis by (simp add: getUint16_def setUint16_def nth_append unat_of_nat)
qed

lemma setUint64_length [simp]: "length (setUint64 n) = 8"
  by (simp add: setUint64_def)

lemma setUint16_length [simp]: "length (setUint16 n) = 2"
  by (simp add: setUint16_def)

text \<open>The two layouts, as the readers see them.\<close>

lemma decode_v2:
  assumes "n < 2 ^ 64" "m < 2 ^ 64" "length ib < 2 ^ 16"
  shows "decodeTerminalDataFrame ([TERMINAL_DATA_FRAME_TYPE] @ setUint64 n @ setUint64 m @ setUint16 (length ib)
      @ ib @ payload)
    = Some \<lparr>df_eventSequence = fromU64 n, df_terminalSequence = fromU64 m, df_id = utf8_decode ib,
        df_payload = payload\<rparr>"
proof -
  let ?f = "[TERMINAL_DATA_FRAME_TYPE] @ setUint64 n @ setUint64 m @ setUint16 (length ib) @ ib @ payload"
  have "getUint64 ?f 1 = n"
    using getUint64_at [OF assms(1), of "[TERMINAL_DATA_FRAME_TYPE]"] by simp
  moreover have "getUint64 ?f 9 = m"
    using getUint64_at [OF assms(2), of "[TERMINAL_DATA_FRAME_TYPE] @ setUint64 n"] by simp
  moreover have "getUint16 ?f 17 = length ib"
    using getUint16_at [OF assms(3), of "[TERMINAL_DATA_FRAME_TYPE] @ setUint64 n @ setUint64 m"] by simp
  moreover have "drop (19 + length ib) ?f = payload"
    using append_eq_conv_conj [of "[TERMINAL_DATA_FRAME_TYPE] @ setUint64 n @ setUint64 m @ setUint16 (length ib) @ ib" payload ?f]
    by simp
  ultimately show ?thesis
    by (simp add: decodeTerminalDataFrame_def Let_def)
qed

lemma decode_v1:
  assumes "n < 2 ^ 32" "m < 2 ^ 32" "length ib < 2 ^ 16"
  shows "decodeTerminalDataFrame ([TERMINAL_DATA_FRAME_TYPE_V1] @ setUint32 n @ setUint32 m @ setUint16 (length ib)
      @ ib @ payload)
    = Some \<lparr>df_eventSequence = int n, df_terminalSequence = int m, df_id = utf8_decode ib,
        df_payload = payload\<rparr>"
proof -
  let ?f = "[TERMINAL_DATA_FRAME_TYPE_V1] @ setUint32 n @ setUint32 m @ setUint16 (length ib) @ ib @ payload"
  have "getUint32 ?f 1 = n"
    using getUint32_at [OF assms(1), of "[TERMINAL_DATA_FRAME_TYPE_V1]"] by simp
  moreover have "getUint32 ?f 5 = m"
    using getUint32_at [OF assms(2), of "[TERMINAL_DATA_FRAME_TYPE_V1] @ setUint32 n"] by simp
  moreover have "getUint16 ?f 9 = length ib"
    using getUint16_at [OF assms(3), of "[TERMINAL_DATA_FRAME_TYPE_V1] @ setUint32 n @ setUint32 m"] by simp
  moreover have "drop (11 + length ib) ?f = payload"
    using append_eq_conv_conj [of "[TERMINAL_DATA_FRAME_TYPE_V1] @ setUint32 n @ setUint32 m @ setUint16 (length ib) @ ib" payload ?f]
    by simp
  ultimately show ?thesis
    by (simp add: decodeTerminalDataFrame_def Let_def TERMINAL_DATA_FRAME_TYPE_def TERMINAL_DATA_FRAME_TYPE_V1_def)
qed

text \<open>
  C23: Round trip of the data frame. For safe sequence numbers and an id that is well-formed text, the
  frame of an output decodes to it, payload untouched; only an id of more than 65535 bytes is refused.
\<close>

theorem ws_frame_roundtrip:
  assumes "0 \<le> a" "a \<le> max_safe" "0 \<le> b" "b \<le> max_safe" "well_formed_text i" "\<not> leading_bom i"
  shows "Option.bind (encodeTerminalDataFrame (js_int a) (js_int b) i payload) decodeTerminalDataFrame =
    (if length (utf8_encode i) \<le> 65535
     then Some \<lparr>df_eventSequence = a, df_terminalSequence = b, df_id = i, df_payload = payload\<rparr> else None)"
proof -
  have u: "toU64 (js_int c) = nat c \<and> nat c < 2 ^ 64 \<and> fromU64 (nat c) = c" if "0 \<le> c" "c \<le> max_safe" for c
  proof -
    have "toU64 (js_int c) = nat c" using that(1) by (auto simp: toU64_def js_int_def)
    moreover have "nat c < 2 ^ 64" using that by (simp add: max_safe_def nat_less_iff)
    ultimately show ?thesis using that by (simp add: fromU64_def)
  qed
  have "utf8_decode (utf8_encode i) = i"
    using utf8_roundtrip_text [OF assms(6)] to_well_formed_id [OF assms(5)] by simp
  with u [OF assms(1,2)] u [OF assms(3,4)] decode_v2 [of "nat a" "nat b" "utf8_encode i" payload] show ?thesis
    by (auto simp: encodeTerminalDataFrame_def Let_def)
qed

theorem ws_frame_roundtrip_witness:
  "Option.bind (encodeTerminalDataFrame (js_int 7) (js_int 3) [116, 49] [27, 91]) decodeTerminalDataFrame =
    (if length (utf8_encode [116, 49]) \<le> 65535
     then Some \<lparr>df_eventSequence = 7, df_terminalSequence = 3, df_id = [116, 49], df_payload = [27, 91]\<rparr> else None)"
  by (rule ws_frame_roundtrip)
    (simp_all add: max_safe_def high_surrogate_def low_surrogate_def leading_bom_def)

section \<open>Which messages are accepted\<close>

definition ack_json :: "string \<Rightarrow> int \<Rightarrow> json" where
  "ack_json i n = JObj [(''type'', JStr ''terminal:ack''), (''terminalId'', JStr i), (''sequence'', JNum (js_int n))]"

definition command_json :: "string \<Rightarrow> string \<Rightarrow> json list \<Rightarrow> json" where
  "command_json r op args = JObj [(''requestId'', JStr r), (''op'', JStr op), (''args'', JArr args)]"

lemma hot_ops:
  "TERMINAL_WS_HOT_OPS = [''terminal:write'', ''terminal:writeBinary'', ''terminal:resize'', ''terminal:ready'',
     ''terminal:detach'', ''terminal:attach'']"
  by code_simp

lemma hot_op_iff:
  "isTerminalWsHotOp (Some (JStr s)) \<longleftrightarrow> s \<in> set TERMINAL_WS_HOT_OPS"
proof -
  have "s \<in> set HOST_ROUTE_CHANNELS" if "getHostRoute s = Some True"
    using that by (force simp: getHostRoute_def HOST_ROUTE_CHANNELS_def dest: find_Some_D)
  then show ?thesis by (auto simp: isTerminalWsHotOp_def TERMINAL_WS_HOT_OPS_def)
qed

text \<open>
  Acknowledgements and commands survive the wire, and nothing else gets in: what the two decoders
  accept has a terminal and a natural sequence number, or a request id and one of the six hot
  operations, and every such message that was encoded is decoded to itself.
\<close>

theorem ws_messages_exact:
  assumes "parse (stringify (ack_json i n)) = Some (ack_json i n)"
    and "parse (stringify (command_json r op args)) = Some (command_json r op args)"
  shows "(tryDecodeTerminalWsAck raw = Some p \<longrightarrow> ws_terminalId p \<noteq> [] \<and> is_safe_integer (ws_sequence p) \<and>
            \<not> js_less (ws_sequence p) (js_int 0))
    \<and> (tryDecodeTerminalWsCommand raw = Some c \<longrightarrow> wc_requestId c \<noteq> [] \<and> wc_op c \<in> set TERMINAL_WS_HOT_OPS)
    \<and> (i \<noteq> [] \<and> 0 \<le> n \<and> n \<le> max_safe \<longrightarrow>
         Option.bind (parse (encodeTerminalWsAck stringify i (js_int n))) tryDecodeTerminalWsAck
           = Some \<lparr>ws_terminalId = i, ws_sequence = js_int n\<rparr>)
    \<and> (r \<noteq> [] \<and> op \<in> set TERMINAL_WS_HOT_OPS \<longrightarrow>
         Option.bind (parse (encodeTerminalWsCommand stringify r op args)) tryDecodeTerminalWsCommand
           = Some \<lparr>wc_requestId = r, wc_op = op, wc_args = args\<rparr>)"
proof (intro conjI impI)
  show "ws_terminalId p \<noteq> []" "is_safe_integer (ws_sequence p)" "\<not> js_less (ws_sequence p) (js_int 0)"
    if "tryDecodeTerminalWsAck raw = Some p"
    using that by (auto simp: tryDecodeTerminalWsAck_def decode_position_def
        split: if_splits option.splits json.splits)
  show "wc_requestId c \<noteq> []" "wc_op c \<in> set TERMINAL_WS_HOT_OPS" if "tryDecodeTerminalWsCommand raw = Some c"
    using that by (auto simp: tryDecodeTerminalWsCommand_def hot_op_iff
        split: if_splits option.splits json.splits)
  show "Option.bind (parse (encodeTerminalWsAck stringify i (js_int n))) tryDecodeTerminalWsAck
      = Some \<lparr>ws_terminalId = i, ws_sequence = js_int n\<rparr>" if "i \<noteq> [] \<and> 0 \<le> n \<and> n \<le> max_safe"
    using that assms(1)
    by (simp add: encodeTerminalWsAck_def tryDecodeTerminalWsAck_def decode_position_def ack_json_def)
  show "Option.bind (parse (encodeTerminalWsCommand stringify r op args)) tryDecodeTerminalWsCommand
      = Some \<lparr>wc_requestId = r, wc_op = op, wc_args = args\<rparr>" if "r \<noteq> [] \<and> op \<in> set TERMINAL_WS_HOT_OPS"
    using that assms(2)
    by (simp add: encodeTerminalWsCommand_def tryDecodeTerminalWsCommand_def hot_op_iff command_json_def)
qed

definition sample_text :: "json \<Rightarrow> string" where
  "sample_text v = (if member v ''type'' = None then ''command'' else ''ack'')"

definition sample_value :: "string \<Rightarrow> json option" where
  "sample_value s = (if s = ''ack'' then Some (ack_json ''t1'' 4)
     else if s = ''command'' then Some (command_json ''r1'' ''terminal:write'' [JStr ''t1'']) else None)"

theorem ws_messages_exact_witness:
  "tryDecodeTerminalWsAck (ack_json ''t1'' 4) = Some \<lparr>ws_terminalId = ''t1'', ws_sequence = js_int 4\<rparr>
   \<and> Option.bind (sample_value (encodeTerminalWsCommand sample_text ''r1'' ''terminal:write'' [JStr ''t1'']))
       tryDecodeTerminalWsCommand
     = Some \<lparr>wc_requestId = ''r1'', wc_op = ''terminal:write'', wc_args = [JStr ''t1'']\<rparr>"
proof -
  have p: "sample_value (sample_text (ack_json ''t1'' 4)) = Some (ack_json ''t1'' 4)"
    "sample_value (sample_text (command_json ''r1'' ''terminal:write'' [JStr ''t1'']))
       = Some (command_json ''r1'' ''terminal:write'' [JStr ''t1''])"
    by (simp_all add: sample_value_def sample_text_def ack_json_def command_json_def)
  have "tryDecodeTerminalWsAck (ack_json ''t1'' 4) = Some \<lparr>ws_terminalId = ''t1'', ws_sequence = js_int 4\<rparr>"
    by (simp add: tryDecodeTerminalWsAck_def decode_position_def ack_json_def max_safe_def)
  moreover have "''terminal:write'' \<in> set TERMINAL_WS_HOT_OPS" by (simp add: hot_ops)
  ultimately show ?thesis
    using ws_messages_exact [OF p, THEN conjunct2, THEN conjunct2, THEN conjunct2] by simp
qed

end
