(* ===== verification/Gl_Batches.thy ===== *)
theory Gl_Batches
  imports Viewport_Model
begin

text \<open>
  The instance batches of the WebGL renderer,
  \<^verbatim>\<open>packages/ghostty-react/src/renderers/webgl2/batches.ts\<close>: growing arrays of single precision
  numbers, a fixed number of which describes one instance. Rectangles and glyphs share the code but
  for that number and the fields that are written; the shared part is defined once and instantiated
  for both classes. A constructor that throws gives \<open>None\<close>.
\<close>

section \<open>Single precision\<close>

text \<open>
  Storing into a \<open>Float32Array\<close> rounds to the nearest single precision number, ties to even.
  \<open>binade\<close> is the exponent of a positive number.
\<close>

fun bit_length :: "nat \<Rightarrow> nat" where
  "bit_length n = (if n = 0 then 0 else Suc (bit_length (n div 2)))"

declare bit_length.simps [simp del]

definition two_power :: "int \<Rightarrow> rat" where
  "two_power e = (if 0 \<le> e then 2 ^ nat e else 1 / 2 ^ nat (- e))"

definition binade :: "rat \<Rightarrow> int" where
  "binade q =
     (let (n, d) = quotient_of q;
          e = int (bit_length (nat n)) - int (bit_length (nat d))
      in if two_power e \<le> q then e else e - 1)"

definition round_half_even :: "rat \<Rightarrow> int" where
  "round_half_even q =
     (let f = \<lfloor>q\<rfloor>; r = q - of_int f in if r < 1 / 2 \<or> r = 1 / 2 \<and> even f then f else f + 1)"

definition fround :: "jsnum \<Rightarrow> jsnum" where
  "fround x =
     (case x of
        Fin q \<Rightarrow>
          if q = 0 then Fin 0
          else
            let ulp = two_power (max (binade \<bar>q\<bar> - 23) (- 149));
                m = of_int (round_half_even (\<bar>q\<bar> / ulp)) * ulp
            in if two_power 128 \<le> m then js_sign q else Fin (if q < 0 then - m else m)
      | _ \<Rightarrow> x)"

abbreviation zero_float :: jsnum where
  "zero_float \<equiv> Fin 0"

definition BYTES_PER_FLOAT :: nat where
  "BYTES_PER_FLOAT = 4"

section \<open>Batches\<close>

definition WEBGL_RECT_FLOATS :: nat where
  "WEBGL_RECT_FLOATS = 8"

definition WEBGL_GLYPH_FLOATS :: nat where
  "WEBGL_GLYPH_FLOATS = 13"

definition instanceCapacity :: "nat \<Rightarrow> nat \<Rightarrow> nat" where
  "instanceCapacity required maximum =
     min (double_until (min 64 maximum) (min required maximum)) maximum"

definition channel_value :: "nat \<Rightarrow> nat \<Rightarrow> jsnum" where
  "channel_value shift packed = Fin (of_nat (packed div 2 ^ shift mod 256) / 255)"

definition red_value :: "nat \<Rightarrow> jsnum" where "red_value = channel_value 16"
definition green_value :: "nat \<Rightarrow> jsnum" where "green_value = channel_value 8"
definition blue_value :: "nat \<Rightarrow> jsnum" where "blue_value = channel_value 0"

record gl_batch =
  gb_maximum :: nat
  gb_values :: "jsnum list"
  gb_count :: nat

definition new_batch :: "nat \<Rightarrow> jsnum \<Rightarrow> gl_batch option" where
  "new_batch fl maximumInstances =
     (if \<not> is_safe_integer maximumInstances \<or> js_less maximumInstances (js_int 0) then None
      else let n = nat (int_of maximumInstances) in
        Some \<lparr>gb_maximum = n, gb_values = replicate (fl * min 64 n) zero_float, gb_count = 0\<rparr>)"

definition batch_data :: "nat \<Rightarrow> gl_batch \<Rightarrow> jsnum list" where
  "batch_data fl b = take (gb_count b * fl) (gb_values b)"

definition batch_usedBytes :: "nat \<Rightarrow> gl_batch \<Rightarrow> nat" where
  "batch_usedBytes fl b = gb_count b * fl * BYTES_PER_FLOAT"

definition batch_allocatedBytes :: "gl_batch \<Rightarrow> nat" where
  "batch_allocatedBytes b = length (gb_values b) * BYTES_PER_FLOAT"

definition batch_targetAllocatedBytes :: "nat \<Rightarrow> gl_batch \<Rightarrow> nat" where
  "batch_targetAllocatedBytes fl b = instanceCapacity (gb_count b * 2) (gb_maximum b) * fl * BYTES_PER_FLOAT"

definition batch_clear :: "gl_batch \<Rightarrow> gl_batch" where
  "batch_clear b = b\<lparr>gb_count := 0\<rparr>"

text \<open>A copy of the data at the beginning of a new array; \<open>set\<close> on a typed array rounds nothing here.\<close>

definition moved_to :: "nat \<Rightarrow> jsnum list \<Rightarrow> jsnum list" where
  "moved_to n data = write_at 0 data (replicate n zero_float)"

definition batch_trimCapacity :: "nat \<Rightarrow> gl_batch \<Rightarrow> gl_batch \<times> nat" where
  "batch_trimCapacity fl b =
     (let targetLength = batch_targetAllocatedBytes fl b div BYTES_PER_FLOAT in
      if length (gb_values b) \<le> targetLength then (b, 0)
      else let b' = b\<lparr>gb_values := moved_to targetLength (batch_data fl b)\<rparr>
           in (b', batch_allocatedBytes b - batch_allocatedBytes b'))"

definition batch_reserve :: "nat \<Rightarrow> nat \<Rightarrow> gl_batch \<Rightarrow> gl_batch option" where
  "batch_reserve fl additional b =
     (let requiredInstances = gb_count b + additional in
      if gb_maximum b < requiredInstances then None
      else if requiredInstances * fl \<le> length (gb_values b) then Some b
      else Some (b\<lparr>gb_values :=
             moved_to (instanceCapacity requiredInstances (gb_maximum b) * fl) (batch_data fl b)\<rparr>))"

definition batch_append :: "nat \<Rightarrow> gl_batch \<Rightarrow> gl_batch \<Rightarrow> gl_batch option" where
  "batch_append fl other b =
     map_option (\<lambda>r. r\<lparr>gb_values := write_at (gb_count r * fl) (batch_data fl other) (gb_values r),
                      gb_count := gb_count r + gb_count other\<rparr>)
       (batch_reserve fl (gb_count other) b)"

definition batch_push :: "nat \<Rightarrow> jsnum list \<Rightarrow> gl_batch \<Rightarrow> gl_batch option" where
  "batch_push fl item b =
     map_option (\<lambda>r. r\<lparr>gb_values := write_at (gb_count r * fl) (map fround item) (gb_values r),
                      gb_count := gb_count r + 1\<rparr>)
       (batch_reserve fl 1 b)"

section \<open>The two classes\<close>

text \<open>A method that returns \<open>false\<close> leaves the batch as it is and is \<open>None\<close> here.\<close>

definition newRectBatch :: "jsnum \<Rightarrow> gl_batch option" where
  "newRectBatch = new_batch WEBGL_RECT_FLOATS"

definition rect_data :: "gl_batch \<Rightarrow> jsnum list" where
  "rect_data = batch_data WEBGL_RECT_FLOATS"

definition rect_trimCapacity :: "gl_batch \<Rightarrow> gl_batch \<times> nat" where
  "rect_trimCapacity = batch_trimCapacity WEBGL_RECT_FLOATS"

definition rect_append :: "gl_batch \<Rightarrow> gl_batch \<Rightarrow> gl_batch option" where
  "rect_append = batch_append WEBGL_RECT_FLOATS"

definition rect_push ::
  "jsnum \<Rightarrow> jsnum \<Rightarrow> jsnum \<Rightarrow> jsnum \<Rightarrow> jsnum \<Rightarrow> jsnum \<Rightarrow> jsnum \<Rightarrow> jsnum \<Rightarrow> gl_batch \<Rightarrow> gl_batch option" where
  "rect_push x y width height redValue greenValue blueValue alpha =
     batch_push WEBGL_RECT_FLOATS [x, y, width, height, redValue, greenValue, blueValue, alpha]"

definition rect_pushPacked ::
  "jsnum \<Rightarrow> jsnum \<Rightarrow> jsnum \<Rightarrow> jsnum \<Rightarrow> nat \<Rightarrow> jsnum \<Rightarrow> gl_batch \<Rightarrow> gl_batch option" where
  "rect_pushPacked x y width height color alpha =
     rect_push x y width height (red_value color) (green_value color) (blue_value color) alpha"

definition newGlyphBatch :: "jsnum \<Rightarrow> gl_batch option" where
  "newGlyphBatch = new_batch WEBGL_GLYPH_FLOATS"

definition glyph_data :: "gl_batch \<Rightarrow> jsnum list" where
  "glyph_data = batch_data WEBGL_GLYPH_FLOATS"

definition glyph_trimCapacity :: "gl_batch \<Rightarrow> gl_batch \<times> nat" where
  "glyph_trimCapacity = batch_trimCapacity WEBGL_GLYPH_FLOATS"

definition glyph_append :: "gl_batch \<Rightarrow> gl_batch \<Rightarrow> gl_batch option" where
  "glyph_append = batch_append WEBGL_GLYPH_FLOATS"

definition glyph_push ::
  "jsnum \<Rightarrow> jsnum \<Rightarrow> jsnum \<Rightarrow> jsnum \<Rightarrow> jsnum \<Rightarrow> jsnum \<Rightarrow> jsnum \<Rightarrow> jsnum \<Rightarrow>
   jsnum \<Rightarrow> jsnum \<Rightarrow> jsnum \<Rightarrow> jsnum \<Rightarrow> jsnum \<Rightarrow> gl_batch \<Rightarrow> gl_batch option" where
  "glyph_push x y width height u0 v0 u1 v1 redValue greenValue blueValue alpha colorGlyph =
     batch_push WEBGL_GLYPH_FLOATS
       [x, y, width, height, u0, v0, u1, v1, redValue, greenValue, blueValue, alpha, colorGlyph]"

definition glyph_pushPacked ::
  "jsnum \<Rightarrow> jsnum \<Rightarrow> jsnum \<Rightarrow> jsnum \<Rightarrow> jsnum \<Rightarrow> jsnum \<Rightarrow> jsnum \<Rightarrow> jsnum \<Rightarrow>
   nat \<Rightarrow> jsnum \<Rightarrow> jsnum \<Rightarrow> gl_batch \<Rightarrow> gl_batch option" where
  "glyph_pushPacked x y width height u0 v0 u1 v1 color alpha colorGlyph =
     glyph_push x y width height u0 v0 u1 v1 (red_value color) (green_value color) (blue_value color)
       alpha colorGlyph"

section \<open>What the operations keep\<close>

definition batch_ok :: "nat \<Rightarrow> gl_batch \<Rightarrow> bool" where
  "batch_ok fl b \<longleftrightarrow> gb_count b \<le> gb_maximum b \<and> gb_count b * fl \<le> length (gb_values b)
     \<and> length (gb_values b) \<le> gb_maximum b * fl"

lemma double_until_ge: "0 < c \<or> r = 0 \<Longrightarrow> r \<le> double_until c r"
  by (induction c r rule: double_until.induct) (subst double_until.simps, auto)

lemma instanceCapacity_le: "instanceCapacity required maximum \<le> maximum"
  by (simp add: instanceCapacity_def)

lemma instanceCapacity_ge: "required \<le> maximum \<Longrightarrow> required \<le> instanceCapacity required maximum"
  using double_until_ge [of "min 64 maximum" "min required maximum"]
  by (cases "maximum = 0") (auto simp: instanceCapacity_def)

lemma instanceCapacity_half: "n \<le> maximum \<Longrightarrow> n \<le> instanceCapacity (n * 2) maximum"
  using double_until_ge [of "min 64 maximum" "min (n * 2) maximum"]
  by (cases "maximum = 0") (auto simp: instanceCapacity_def)

lemma length_moved_to [simp]: "length data \<le> n \<Longrightarrow> length (moved_to n data) = n"
  by (simp add: moved_to_def)

lemma take_moved_to: "take (length data) (moved_to n data) = data"
  by (simp add: moved_to_def write_at_def)

lemma length_batch_data: "batch_ok fl b \<Longrightarrow> length (batch_data fl b) = gb_count b * fl"
  by (simp add: batch_ok_def batch_data_def)

lemma take_moved_data: "batch_ok fl b \<Longrightarrow> take (gb_count b * fl) (moved_to n (batch_data fl b)) = batch_data fl b"
  using take_moved_to [of "batch_data fl b" n] by (simp add: length_batch_data)

lemma data_moved:
  assumes "batch_ok fl b"
  shows "batch_data fl (b\<lparr>gb_values := moved_to n (batch_data fl b)\<rparr>) = batch_data fl b"
  unfolding batch_data_def [of fl "b\<lparr>gb_values := moved_to n (batch_data fl b)\<rparr>"]
  using take_moved_data [OF assms] by simp

lemma new_batch_ok: "new_batch fl m = Some b \<Longrightarrow> batch_ok fl b \<and> batch_data fl b = []"
  by (auto simp: new_batch_def batch_ok_def batch_data_def Let_def mult.commute split: if_splits)

lemma batch_clear_ok: "batch_ok fl b \<Longrightarrow> batch_ok fl (batch_clear b) \<and> batch_data fl (batch_clear b) = []"
  by (simp add: batch_clear_def batch_ok_def batch_data_def)

lemma batch_reserve_None: "batch_reserve fl k b = None \<longleftrightarrow> gb_maximum b < gb_count b + k"
  by (simp add: batch_reserve_def Let_def)

lemma batch_reserve_ok:
  assumes "batch_ok fl b" "batch_reserve fl k b = Some r"
  shows "gb_maximum r = gb_maximum b \<and> gb_count r = gb_count b \<and> batch_data fl r = batch_data fl b
    \<and> (gb_count b + k) * fl \<le> length (gb_values r) \<and> length (gb_values r) \<le> gb_maximum b * fl"
proof (cases "(gb_count b + k) * fl \<le> length (gb_values b)")
  case True
  with assms show ?thesis by (auto simp: batch_reserve_def Let_def batch_ok_def split: if_splits)
next
  case False
  let ?c = "instanceCapacity (gb_count b + k) (gb_maximum b)"
  from False assms(2) have le: "gb_count b + k \<le> gb_maximum b"
    and r: "r = b\<lparr>gb_values := moved_to (?c * fl) (batch_data fl b)\<rparr>"
    by (auto simp: batch_reserve_def Let_def split: if_splits)
  have c: "gb_count b + k \<le> ?c" "?c \<le> gb_maximum b"
    using instanceCapacity_ge [OF le] instanceCapacity_le by auto
  have len: "length (batch_data fl b) \<le> ?c * fl"
    using c(1) by (simp add: length_batch_data [OF assms(1)])
  have "batch_data fl r = batch_data fl b"
    by (simp add: r data_moved [OF assms(1)])
  moreover have "(gb_count b + k) * fl \<le> ?c * fl" "?c * fl \<le> gb_maximum b * fl"
    using c by (auto intro: mult_le_mono1)
  ultimately show ?thesis using len by (simp add: r)
qed

lemma write_data:
  assumes "gb_count r * fl + length ys \<le> length (gb_values r)" "length ys = k * fl"
  shows "take ((gb_count r + k) * fl) (write_at (gb_count r * fl) ys (gb_values r)) = batch_data fl r @ ys"
  using assms by (simp add: write_at_def batch_data_def add_mult_distrib)

lemma batch_extend_ok:
  assumes "batch_ok fl b" "batch_reserve fl k b = Some r" "length ys = k * fl"
    and b': "b' = r\<lparr>gb_values := write_at (gb_count r * fl) ys (gb_values r), gb_count := gb_count r + k\<rparr>"
  shows "batch_ok fl b' \<and> gb_count b' = gb_count b + k \<and> gb_maximum b' = gb_maximum b
    \<and> batch_data fl b' = batch_data fl b @ ys"
proof -
  have k: "gb_count b + k \<le> gb_maximum b" using assms(2) by (auto simp: batch_reserve_def Let_def split: if_splits)
  note r = batch_reserve_ok [OF assms(1,2)]
  have fit: "gb_count r * fl + length ys \<le> length (gb_values r)"
    using r assms(3) by (simp add: add_mult_distrib)
  have "batch_data fl b' = batch_data fl r @ ys"
    using write_data [OF fit assms(3)] by (simp add: b' batch_data_def)
  then show ?thesis using r k fit assms(3) by (simp add: b' batch_ok_def)
qed

lemma batch_push_ok:
  assumes "batch_ok fl b" "length item = fl" "batch_push fl item b = Some b'"
  shows "batch_ok fl b' \<and> gb_count b' = gb_count b + 1 \<and> gb_maximum b' = gb_maximum b
    \<and> batch_data fl b' = batch_data fl b @ map fround item"
proof -
  from assms(3) obtain r where r: "batch_reserve fl 1 b = Some r"
    "b' = r\<lparr>gb_values := write_at (gb_count r * fl) (map fround item) (gb_values r), gb_count := gb_count r + 1\<rparr>"
    by (auto simp: batch_push_def)
  show ?thesis using batch_extend_ok [OF assms(1) r(1) _ r(2)] assms(2) by simp
qed

lemma batch_push_None: "batch_push fl item b = None \<longleftrightarrow> gb_maximum b \<le> gb_count b"
  by (auto simp: batch_push_def batch_reserve_None)

lemma batch_append_ok:
  assumes "batch_ok fl b" "batch_ok fl other" "batch_append fl other b = Some b'"
  shows "batch_ok fl b' \<and> gb_count b' = gb_count b + gb_count other
    \<and> batch_data fl b' = batch_data fl b @ batch_data fl other"
proof -
  from assms(3) obtain r where r: "batch_reserve fl (gb_count other) b = Some r"
    "b' = r\<lparr>gb_values := write_at (gb_count r * fl) (batch_data fl other) (gb_values r),
           gb_count := gb_count r + gb_count other\<rparr>"
    by (auto simp: batch_append_def)
  show ?thesis using batch_extend_ok [OF assms(1) r(1) _ r(2)] length_batch_data [OF assms(2)] by simp
qed

lemma batch_trim_ok:
  assumes "batch_ok fl b" "batch_trimCapacity fl b = (b', n)"
  shows "batch_ok fl b' \<and> gb_count b' = gb_count b \<and> batch_data fl b' = batch_data fl b
    \<and> batch_allocatedBytes b = batch_allocatedBytes b' + n"
proof (cases "length (gb_values b) \<le> batch_targetAllocatedBytes fl b div BYTES_PER_FLOAT")
  case True
  with assms show ?thesis by (simp add: batch_trimCapacity_def)
next
  case False
  let ?c = "instanceCapacity (gb_count b * 2) (gb_maximum b)"
  from assms(1) have c: "gb_count b \<le> ?c" "?c \<le> gb_maximum b"
    using instanceCapacity_half [of "gb_count b" "gb_maximum b"] instanceCapacity_le by (auto simp: batch_ok_def)
  have t: "batch_targetAllocatedBytes fl b div BYTES_PER_FLOAT = ?c * fl"
    by (simp add: batch_targetAllocatedBytes_def BYTES_PER_FLOAT_def)
  have b': "b' = b\<lparr>gb_values := moved_to (?c * fl) (batch_data fl b)\<rparr>"
    and n: "n = batch_allocatedBytes b - batch_allocatedBytes b'"
    using False assms(2) unfolding batch_trimCapacity_def t by (auto simp: Let_def)
  have le: "gb_count b * fl \<le> ?c * fl" "?c * fl \<le> gb_maximum b * fl"
    using c by (auto intro: mult_le_mono1)
  have len: "length (gb_values b') = ?c * fl"
    using le(1) by (simp add: b' length_batch_data [OF assms(1)])
  have "batch_data fl b' = batch_data fl b"
    by (simp add: b' data_moved [OF assms(1)])
  moreover have "batch_allocatedBytes b' \<le> batch_allocatedBytes b"
    using False len unfolding t by (simp add: batch_allocatedBytes_def)
  ultimately show ?thesis
    using assms(1) le len n by (simp add: batch_ok_def b')
qed

end
