(* ===== verification/Retained_Scene.thy ===== *)
theory Retained_Scene
  imports Gl_Batches
begin

text \<open>
  The retained scene of the WebGL renderer,
  \<^verbatim>\<open>packages/ghostty-react/src/renderers/webgl2/retained-scene.ts\<close>, and the buffers it is uploaded
  to, \<^verbatim>\<open>webgl2-renderer.ts\<close>. A scene keeps, for each kind of primitive, the batches of all rows
  packed into one array, and plans what has to be uploaded when rows change.

  A batch is a value here. The renderer refills the batches of a changed row in place and names the
  row in the list of changes, so a list of changes stands for the rows as they are at the call.
  An operation that throws gives \<open>None\<close>; what it did to the arrays before is not modelled. The contents
  of a buffer of the graphics card are a list of numbers, zero where nothing was written.
\<close>

section \<open>One kind of primitive\<close>

record row_batches =
  rb_backgrounds :: gl_batch
  rb_decorations :: gl_batch
  rb_glyphs :: gl_batch

record row_change =
  rc_row :: int
  rc_batches :: row_batches

record row_range =
  rr_offset :: nat
  rr_count :: nat

datatype primitive_plan =
    Plan_None
  | Plan_Partial "(nat \<times> jsnum list) list"
  | Plan_Full "jsnum list"

record primitive_scene =
  ps_values :: "jsnum list"
  ps_ranges :: "row_range list"
  ps_count :: nat

definition newPrimitiveScene :: primitive_scene where
  "newPrimitiveScene = \<lparr>ps_values = [], ps_ranges = [], ps_count = 0\<rparr>"

definition checkedLength :: "nat \<Rightarrow> nat \<Rightarrow> nat option" where
  "checkedLength fl count =
     (if max_safe < int count \<or> max_safe < int (count * fl) then None else Some (count * fl))"

definition scene_data :: "nat \<Rightarrow> primitive_scene \<Rightarrow> jsnum list" where
  "scene_data fl s = take (ps_count s * fl) (ps_values s)"

definition scene_allocatedBytes :: "primitive_scene \<Rightarrow> nat" where
  "scene_allocatedBytes s = length (ps_values s) * BYTES_PER_FLOAT"

definition targetLength :: "nat \<Rightarrow> primitive_scene \<Rightarrow> nat option" where
  "targetLength fl s = map_option (double_until (64 * fl)) (checkedLength fl (ps_count s * 2))"

definition clear_primitive :: "primitive_scene \<Rightarrow> primitive_scene" where
  "clear_primitive s = s\<lparr>ps_ranges := [], ps_count := 0\<rparr>"

text \<open>\<open>select\<close> is the batch of a row that belongs to this kind. The first loop of \<open>replaceAll\<close>: the
  ranges and the number of instances.\<close>

fun collect_ranges ::
  "nat \<Rightarrow> (row_batches \<Rightarrow> gl_batch) \<Rightarrow> row_batches list \<Rightarrow> nat \<Rightarrow> (row_range list \<times> nat) option" where
  "collect_ranges fl select [] count = Some ([], count)"
| "collect_ranges fl select (row # rows) count =
     (let n = gb_count (select row) in
      if checkedLength fl n = None \<or> max_safe < int (count + n) then None
      else map_option (\<lambda>(rs, total). (\<lparr>rr_offset = count, rr_count = n\<rparr> # rs, total))
             (collect_ranges fl select rows (count + n)))"

text \<open>Writing the data of one row, refused when its length does not fit its range.\<close>

definition write_row :: "nat \<Rightarrow> gl_batch \<Rightarrow> row_range \<Rightarrow> jsnum list \<Rightarrow> jsnum list option" where
  "write_row fl batch rng values =
     (if length (batch_data fl batch) \<noteq> rr_count rng * fl then None
      else Some (write_at (rr_offset rng * fl) (batch_data fl batch) values))"

fun write_rows ::
  "nat \<Rightarrow> (row_batches \<Rightarrow> gl_batch) \<Rightarrow> (row_batches \<times> row_range) list \<Rightarrow> jsnum list \<Rightarrow> jsnum list option" where
  "write_rows fl select [] values = Some values"
| "write_rows fl select ((row, rng) # rest) values =
     (if rr_count rng = 0 then write_rows fl select rest values
      else Option.bind (write_row fl (select row) rng values) (write_rows fl select rest))"

definition replaceAll_primitive ::
  "nat \<Rightarrow> (row_batches \<Rightarrow> gl_batch) \<Rightarrow> row_batches list \<Rightarrow> primitive_scene \<Rightarrow> (primitive_scene \<times> primitive_plan) option" where
  "replaceAll_primitive fl select rows s =
     Option.bind (collect_ranges fl select rows 0) (\<lambda>(ranges, count).
       Option.bind (checkedLength fl count) (\<lambda>required.
         let room = (if length (ps_values s) < required
                     then replicate (double_until (max (64 * fl) (length (ps_values s))) required) zero_float
                     else ps_values s)
         in map_option (\<lambda>values. (\<lparr>ps_values = values, ps_ranges = ranges, ps_count = count\<rparr>,
                                  Plan_Full (take required values)))
              (write_rows fl select (zip rows ranges) room)))"

definition trim_primitive :: "nat \<Rightarrow> primitive_scene \<Rightarrow> (primitive_scene \<times> nat) option" where
  "trim_primitive fl s =
     map_option (\<lambda>target.
         if length (ps_values s) \<le> target then (s, 0)
         else (s\<lparr>ps_values := moved_to target (scene_data fl s)\<rparr>,
               length (ps_values s) * BYTES_PER_FLOAT - target * BYTES_PER_FLOAT))
       (targetLength fl s)"

text \<open>\<open>updateRows\<close>. A change whose row has no range, or another number of instances, makes it a
  replacement of everything.\<close>

definition range_of :: "primitive_scene \<Rightarrow> row_change \<Rightarrow> row_range option" where
  "range_of s c = int_at (ps_ranges s) (rc_row c)"

definition change_fits :: "(row_batches \<Rightarrow> gl_batch) \<Rightarrow> primitive_scene \<Rightarrow> row_change \<Rightarrow> bool" where
  "change_fits select s c =
     (case range_of s c of None \<Rightarrow> False | Some r \<Rightarrow> rr_count r = gb_count (select (rc_batches c)))"

fun write_changes ::
  "nat \<Rightarrow> (row_batches \<Rightarrow> gl_batch) \<Rightarrow> primitive_scene \<Rightarrow> int \<Rightarrow> row_change list \<Rightarrow> jsnum list \<Rightarrow>
   (jsnum list \<times> row_range list) option" where
  "write_changes fl select s previousRow [] values = Some (values, [])"
| "write_changes fl select s previousRow (c # cs) values =
     (if rc_row c = previousRow then write_changes fl select s previousRow cs values
      else case range_of s c of
        None \<Rightarrow> None
      | Some rng \<Rightarrow>
          if length (batch_data fl (select (rc_batches c))) \<noteq> rr_count rng * fl then None
          else if rr_count rng * fl = 0 then write_changes fl select s (rc_row c) cs values
          else Option.bind (write_row fl (select (rc_batches c)) rng values) (\<lambda>values'.
                 map_option (\<lambda>(vs, touched). (vs, rng # touched))
                   (write_changes fl select s (rc_row c) cs values')))"

fun merge_ranges :: "row_range list \<Rightarrow> row_range list \<Rightarrow> row_range list" where
  "merge_ranges merged [] = merged"
| "merge_ranges merged (rng # rest) =
     (case find_last (\<lambda>r. True) merged of
        Some previous \<Rightarrow>
          if rr_offset previous + rr_count previous = rr_offset rng
          then merge_ranges (butlast merged @ [\<lparr>rr_offset = rr_offset previous,
                 rr_count = rr_count previous + rr_count rng\<rparr>]) rest
          else merge_ranges (merged @ [rng]) rest
      | None \<Rightarrow> merge_ranges (merged @ [rng]) rest)"

definition upload_of :: "nat \<Rightarrow> jsnum list \<Rightarrow> row_range \<Rightarrow> nat \<times> jsnum list" where
  "upload_of fl values r = (rr_offset r * fl, take (rr_count r * fl) (drop (rr_offset r * fl) values))"

definition updateRows_primitive ::
  "nat \<Rightarrow> (row_batches \<Rightarrow> gl_batch) \<Rightarrow> row_change list \<Rightarrow> row_batches list \<Rightarrow> primitive_scene \<Rightarrow>
   (primitive_scene \<times> primitive_plan) option" where
  "updateRows_primitive fl select changes rows s =
     (if changes = [] then Some (s, Plan_None)
      else if \<not> list_all (change_fits select s) changes then replaceAll_primitive fl select rows s
      else map_option (\<lambda>(values, touched).
             (s\<lparr>ps_values := values\<rparr>,
              if touched = [] then Plan_None
              else Plan_Partial (map (upload_of fl values) (merge_ranges [] touched))))
           (write_changes fl select s (- 1) (js_sort (\<lambda>a b. rc_row a - rc_row b) changes) (ps_values s)))"

section \<open>The scene\<close>

record retained_scene =
  rs_rows :: "row_batches list"
  rs_backgrounds :: primitive_scene
  rs_decorations :: primitive_scene
  rs_glyphs :: primitive_scene

record scene_plan =
  sp_backgrounds :: primitive_plan
  sp_decorations :: primitive_plan
  sp_glyphs :: primitive_plan

definition newRetainedScene :: retained_scene where
  "newRetainedScene = \<lparr>rs_rows = [], rs_backgrounds = newPrimitiveScene,
     rs_decorations = newPrimitiveScene, rs_glyphs = newPrimitiveScene\<rparr>"

definition put_primitives ::
  "retained_scene \<Rightarrow> primitive_scene \<times> primitive_plan \<Rightarrow> primitive_scene \<times> primitive_plan \<Rightarrow>
   primitive_scene \<times> primitive_plan \<Rightarrow> retained_scene \<times> scene_plan" where
  "put_primitives s b d g =
     (s\<lparr>rs_backgrounds := fst b, rs_decorations := fst d, rs_glyphs := fst g\<rparr>,
      \<lparr>sp_backgrounds = snd b, sp_decorations = snd d, sp_glyphs = snd g\<rparr>)"

definition scene_replaceAll :: "row_batches list \<Rightarrow> retained_scene \<Rightarrow> (retained_scene \<times> scene_plan) option" where
  "scene_replaceAll rows s =
     Option.bind (replaceAll_primitive WEBGL_RECT_FLOATS rb_backgrounds rows (rs_backgrounds s)) (\<lambda>b.
       Option.bind (replaceAll_primitive WEBGL_RECT_FLOATS rb_decorations rows (rs_decorations s)) (\<lambda>d.
         map_option (\<lambda>g. put_primitives (s\<lparr>rs_rows := rows\<rparr>) b d g)
           (replaceAll_primitive WEBGL_GLYPH_FLOATS rb_glyphs rows (rs_glyphs s))))"

fun put_changes :: "row_change list \<Rightarrow> row_batches list \<Rightarrow> row_batches list option" where
  "put_changes [] rows = Some rows"
| "put_changes (c # cs) rows =
     (if rc_row c < 0 \<or> int (length rows) \<le> rc_row c then None
      else put_changes cs (rows[nat (rc_row c) := rc_batches c]))"

definition scene_updateRows :: "row_change list \<Rightarrow> retained_scene \<Rightarrow> (retained_scene \<times> scene_plan) option" where
  "scene_updateRows changes s =
     (if changes = []
      then Some (s, \<lparr>sp_backgrounds = Plan_None, sp_decorations = Plan_None, sp_glyphs = Plan_None\<rparr>)
      else Option.bind (put_changes changes (rs_rows s)) (\<lambda>rows.
        Option.bind (updateRows_primitive WEBGL_RECT_FLOATS rb_backgrounds changes rows (rs_backgrounds s)) (\<lambda>b.
          Option.bind (updateRows_primitive WEBGL_RECT_FLOATS rb_decorations changes rows (rs_decorations s)) (\<lambda>d.
            map_option (\<lambda>g. put_primitives (s\<lparr>rs_rows := rows\<rparr>) b d g)
              (updateRows_primitive WEBGL_GLYPH_FLOATS rb_glyphs changes rows (rs_glyphs s))))))"

definition scene_clear :: "retained_scene \<Rightarrow> retained_scene" where
  "scene_clear s = s\<lparr>rs_rows := [], rs_backgrounds := clear_primitive (rs_backgrounds s),
     rs_decorations := clear_primitive (rs_decorations s), rs_glyphs := clear_primitive (rs_glyphs s)\<rparr>"

definition trim_row :: "row_batches \<Rightarrow> row_batches \<times> nat" where
  "trim_row row =
     (let (b, i) = rect_trimCapacity (rb_backgrounds row);
          (d, j) = rect_trimCapacity (rb_decorations row);
          (g, k) = glyph_trimCapacity (rb_glyphs row)
      in (\<lparr>rb_backgrounds = b, rb_decorations = d, rb_glyphs = g\<rparr>, i + j + k))"

definition scene_trimCapacity :: "retained_scene \<Rightarrow> (retained_scene \<times> nat) option" where
  "scene_trimCapacity s =
     Option.bind (trim_primitive WEBGL_RECT_FLOATS (rs_backgrounds s)) (\<lambda>(b, i).
       Option.bind (trim_primitive WEBGL_RECT_FLOATS (rs_decorations s)) (\<lambda>(d, j).
         map_option (\<lambda>(g, k).
             (s\<lparr>rs_backgrounds := b, rs_decorations := d, rs_glyphs := g,
                rs_rows := map (fst \<circ> trim_row) (rs_rows s)\<rparr>,
              i + j + k + sum_list (map (snd \<circ> trim_row) (rs_rows s))))
           (trim_primitive WEBGL_GLYPH_FLOATS (rs_glyphs s))))"

definition row_allocatedBytes :: "row_batches \<Rightarrow> nat" where
  "row_allocatedBytes row = batch_allocatedBytes (rb_backgrounds row)
     + batch_allocatedBytes (rb_decorations row) + batch_allocatedBytes (rb_glyphs row)"

definition total_allocatedBytes :: "retained_scene \<Rightarrow> nat" where
  "total_allocatedBytes s = scene_allocatedBytes (rs_backgrounds s) + scene_allocatedBytes (rs_decorations s)
     + scene_allocatedBytes (rs_glyphs s) + sum_list (map row_allocatedBytes (rs_rows s))"

definition scene_usedBytes :: "retained_scene \<Rightarrow> nat" where
  "scene_usedBytes s = length (scene_data WEBGL_RECT_FLOATS (rs_backgrounds s)) * BYTES_PER_FLOAT
     + length (scene_data WEBGL_RECT_FLOATS (rs_decorations s)) * BYTES_PER_FLOAT
     + length (scene_data WEBGL_GLYPH_FLOATS (rs_glyphs s)) * BYTES_PER_FLOAT"

definition row_targetBytes :: "row_batches \<Rightarrow> nat" where
  "row_targetBytes row = batch_targetAllocatedBytes WEBGL_RECT_FLOATS (rb_backgrounds row)
     + batch_targetAllocatedBytes WEBGL_RECT_FLOATS (rb_decorations row)
     + batch_targetAllocatedBytes WEBGL_GLYPH_FLOATS (rb_glyphs row)"

definition total_targetBytes :: "retained_scene \<Rightarrow> nat option" where
  "total_targetBytes s =
     Option.bind (targetLength WEBGL_RECT_FLOATS (rs_backgrounds s)) (\<lambda>b.
       Option.bind (targetLength WEBGL_RECT_FLOATS (rs_decorations s)) (\<lambda>d.
         map_option (\<lambda>g. (b + d + g) * BYTES_PER_FLOAT + sum_list (map row_targetBytes (rs_rows s)))
           (targetLength WEBGL_GLYPH_FLOATS (rs_glyphs s))))"

section \<open>The buffers of the graphics card\<close>

record gl_buffer =
  bf_capacity :: nat
  bf_contents :: "jsnum list"

text \<open>\<open>bufferData\<close> with a size in bytes.\<close>

definition bufferData :: "nat \<Rightarrow> gl_buffer" where
  "bufferData bytes = \<lparr>bf_capacity = bytes, bf_contents = replicate (bytes div BYTES_PER_FLOAT) zero_float\<rparr>"

definition bufferSubData :: "nat \<Rightarrow> jsnum list \<Rightarrow> gl_buffer \<Rightarrow> gl_buffer" where
  "bufferSubData byteOffset data b =
     b\<lparr>bf_contents := write_at (byteOffset div BYTES_PER_FLOAT) data (bf_contents b)\<rparr>"

definition uploadFull :: "jsnum list \<Rightarrow> gl_buffer \<Rightarrow> gl_buffer" where
  "uploadFull data b =
     (let bytes = length data * BYTES_PER_FLOAT;
          b1 = (if bf_capacity b < bytes then bufferData (double_until 1024 bytes) else b)
      in if bytes = 0 then b1 else bufferSubData 0 data b1)"

definition uploadRange :: "nat \<Rightarrow> jsnum list \<Rightarrow> gl_buffer \<Rightarrow> gl_buffer option" where
  "uploadRange byteOffset data b =
     (if bf_capacity b < byteOffset + length data * BYTES_PER_FLOAT then None
      else if data = [] then Some b else Some (bufferSubData byteOffset data b))"

definition targetBufferCapacity :: "jsnum list \<Rightarrow> nat" where
  "targetBufferCapacity data =
     (if data = [] then 0 else double_until 1024 (length data * BYTES_PER_FLOAT * 2))"

definition trimGpuBuffer :: "jsnum list \<Rightarrow> gl_buffer \<Rightarrow> gl_buffer" where
  "trimGpuBuffer data b =
     (let target = targetBufferCapacity data in
      if bf_capacity b \<le> target then b
      else if data = [] then bufferData target else bufferSubData 0 data (bufferData target))"

record submit_stats =
  su_copyBytes :: nat
  su_uploadBytes :: nat
  su_uploadCalls :: nat
  su_fullUploads :: nat
  su_partialUploads :: nat
  su_compactions :: nat

fun upload_ranges :: "(nat \<times> jsnum list) list \<Rightarrow> gl_buffer \<Rightarrow> gl_buffer option" where
  "upload_ranges [] b = Some b"
| "upload_ranges ((offset, data) # rest) b =
     Option.bind (uploadRange (offset * BYTES_PER_FLOAT) data b) (upload_ranges rest)"

definition ranges_bytes :: "(nat \<times> jsnum list) list \<Rightarrow> nat" where
  "ranges_bytes rs = sum_list (map (\<lambda>r. length (snd r) * BYTES_PER_FLOAT) rs)"

fun submitPrimitive :: "primitive_plan \<Rightarrow> gl_buffer \<Rightarrow> (gl_buffer \<times> submit_stats) option" where
  "submitPrimitive Plan_None b =
     Some (b, \<lparr>su_copyBytes = 0, su_uploadBytes = 0, su_uploadCalls = 0, su_fullUploads = 0,
               su_partialUploads = 0, su_compactions = 0\<rparr>)"
| "submitPrimitive (Plan_Full data) b =
     (let bytes = length data * BYTES_PER_FLOAT; calls = (if 0 < bytes then 1 else 0) in
      Some (uploadFull data b, \<lparr>su_copyBytes = bytes, su_uploadBytes = bytes, su_uploadCalls = calls,
              su_fullUploads = calls, su_partialUploads = 0, su_compactions = 1\<rparr>))"
| "submitPrimitive (Plan_Partial rs) b =
     map_option (\<lambda>b'. (b', \<lparr>su_copyBytes = ranges_bytes rs, su_uploadBytes = ranges_bytes rs,
         su_uploadCalls = length rs, su_fullUploads = 0, su_partialUploads = length rs, su_compactions = 0\<rparr>))
       (upload_ranges rs b)"

section \<open>Packing all rows\<close>

definition counts_of :: "(row_batches \<Rightarrow> gl_batch) \<Rightarrow> row_batches list \<Rightarrow> nat list" where
  "counts_of select rows = map (gb_count \<circ> select) rows"

definition packed_rows :: "nat \<Rightarrow> (row_batches \<Rightarrow> gl_batch) \<Rightarrow> row_batches list \<Rightarrow> jsnum list" where
  "packed_rows fl select rows = concat (map (batch_data fl \<circ> select) rows)"

fun ranges_from :: "nat \<Rightarrow> nat list \<Rightarrow> row_range list" where
  "ranges_from k [] = []"
| "ranges_from k (n # ns) = \<lparr>rr_offset = k, rr_count = n\<rparr> # ranges_from (k + n) ns"

definition rows_ok :: "nat \<Rightarrow> (row_batches \<Rightarrow> gl_batch) \<Rightarrow> row_batches list \<Rightarrow> bool" where
  "rows_ok fl select rows \<longleftrightarrow> 0 < fl \<and> list_all (batch_ok fl \<circ> select) rows
     \<and> int (sum_list (counts_of select rows) * 2 * fl) \<le> max_safe"

definition primitive_ok :: "nat \<Rightarrow> (row_batches \<Rightarrow> gl_batch) \<Rightarrow> row_batches list \<Rightarrow> primitive_scene \<Rightarrow> bool" where
  "primitive_ok fl select rows s \<longleftrightarrow> ps_ranges s = ranges_from 0 (counts_of select rows)
     \<and> ps_count s = sum_list (counts_of select rows) \<and> ps_count s * fl \<le> length (ps_values s)
     \<and> scene_data fl s = packed_rows fl select rows"

lemma counts_of_simps [simp]:
  "counts_of select [] = []" "counts_of select (r # rs) = gb_count (select r) # counts_of select rs"
  "length (counts_of select rs) = length rs"
  by (simp_all add: counts_of_def)

lemma packed_rows_simps [simp]:
  "packed_rows fl select [] = []"
  "packed_rows fl select (r # rs) = batch_data fl (select r) @ packed_rows fl select rs"
  by (simp_all add: packed_rows_def)

lemma length_packed_rows:
  "list_all (batch_ok fl \<circ> select) rows \<Longrightarrow> length (packed_rows fl select rows) = sum_list (counts_of select rows) * fl"
  by (induction rows) (simp_all add: length_batch_data add_mult_distrib)

lemma length_ranges_from [simp]: "length (ranges_from k ns) = length ns"
  by (induction ns arbitrary: k) simp_all

lemma ranges_from_nth:
  "i < length ns \<Longrightarrow> ranges_from k ns ! i = \<lparr>rr_offset = k + sum_list (take i ns), rr_count = ns ! i\<rparr>"
  by (induction ns arbitrary: k i) (auto simp: nth_Cons split: nat.split)

lemma collect_ranges_ok:
  assumes "0 < fl" "int ((k + sum_list (counts_of select rows)) * fl) \<le> max_safe"
  shows "collect_ranges fl select rows k =
    Some (ranges_from k (counts_of select rows), k + sum_list (counts_of select rows))"
  using assms(2)
proof (induction rows arbitrary: k)
  case (Cons row rows)
  let ?n = "gb_count (select row)"
  have up: "x \<le> x * fl" for x using assms(1) by simp
  let ?total = "(k + sum_list (counts_of select (row # rows))) * fl"
  have "?n * fl \<le> ?total" "(k + ?n) * fl \<le> ?total" by (auto intro: mult_le_mono1)
  then have "x \<le> ?total" if "x \<in> {?n, ?n * fl, k + ?n}" for x
    using that le_trans [OF up [of ?n]] le_trans [OF up [of "k + ?n"]] by blast
  then have "int x \<le> max_safe" if "x \<in> {?n, ?n * fl, k + ?n}" for x
    using that Cons.prems of_nat_mono order_trans by metis
  then have "checkedLength fl ?n \<noteq> None" "\<not> max_safe < int (k + ?n)"
    unfolding checkedLength_def by (simp_all add: not_less del: of_nat_mult of_nat_add)
  moreover have "int ((k + ?n + sum_list (counts_of select rows)) * fl) \<le> max_safe"
    using Cons.prems by (simp add: add.assoc)
  ultimately show ?case by (simp add: Let_def Cons.IH add.assoc)
qed simp

lemma write_rows_ok:
  assumes "list_all (batch_ok fl \<circ> select) rows"
    "(k + sum_list (counts_of select rows)) * fl \<le> length vs"
  shows "write_rows fl select (zip rows (ranges_from k (counts_of select rows))) vs =
    Some (write_at (k * fl) (packed_rows fl select rows) vs)"
  using assms
proof (induction rows arbitrary: k vs)
  case (Cons row rows)
  let ?n = "gb_count (select row)" and ?d = "batch_data fl (select row)"
  have d: "length ?d = ?n * fl" using Cons.prems(1) by (simp add: length_batch_data)
  have room: "k * fl + length ?d \<le> length vs"
    using Cons.prems(2) by (simp add: d add_mult_distrib)
  have rest: "(k + ?n + sum_list (counts_of select rows)) * fl \<le> length vs"
    using Cons.prems(2) by (simp add: add.assoc)
  show ?case
  proof (cases "?n = 0")
    case True
    then show ?thesis using Cons rest d by simp
  next
    case False
    have "write_rows fl select (zip (row # rows) (ranges_from k (counts_of select (row # rows)))) vs
        = Some (write_at ((k + ?n) * fl) (packed_rows fl select rows) (write_at (k * fl) ?d vs))"
      using False Cons.IH [of "k + ?n" "write_at (k * fl) ?d vs"] Cons.prems(1) rest room
      by (simp add: write_row_def d)
    moreover have "write_at ((k + ?n) * fl) (packed_rows fl select rows) (write_at (k * fl) ?d vs)
        = write_at (k * fl) (packed_rows fl select (row # rows)) vs"
      using write_at_append [of "k * fl" ?d vs] room by (simp add: d add_mult_distrib)
    ultimately show ?thesis by simp
  qed
qed simp

lemma replaceAll_ok:
  assumes "rows_ok fl select rows"
  shows "\<exists>s'. replaceAll_primitive fl select rows s = Some (s', Plan_Full (packed_rows fl select rows))
    \<and> primitive_ok fl select rows s'"
proof -
  let ?ns = "counts_of select rows"
  let ?n = "sum_list ?ns"
  from assms have fl: "0 < fl" and ok: "list_all (batch_ok fl \<circ> select) rows" and
    twice: "int (?n * 2 * fl) \<le> max_safe" by (auto simp: rows_ok_def)
  have "?n * fl \<le> ?n * 2 * fl" by simp
  with twice have safe: "int (?n * fl) \<le> max_safe" by (meson of_nat_mono order_trans)
  have "?n \<le> ?n * fl" using fl by simp
  with safe have "int ?n \<le> max_safe" by (metis of_nat_mono order_trans)
  with safe have len: "checkedLength fl ?n = Some (?n * fl)"
    unfolding checkedLength_def by (simp add: not_less del: of_nat_mult)
  have collect: "collect_ranges fl select rows 0 = Some (ranges_from 0 ?ns, ?n)"
    using collect_ranges_ok [OF fl, of 0 select rows] safe by simp
  define room where "room = (if length (ps_values s) < ?n * fl
    then replicate (double_until (max (64 * fl) (length (ps_values s))) (?n * fl)) zero_float else ps_values s)"
  have room: "?n * fl \<le> length room"
  proof -
    have "0 < max (64 * fl) (length (ps_values s))" using fl by simp
    then show ?thesis using double_until_ge by (auto simp: room_def)
  qed
  have packed: "length (packed_rows fl select rows) = ?n * fl" by (rule length_packed_rows [OF ok])
  let ?vs = "write_at 0 (packed_rows fl select rows) room"
  have take_vs: "take (?n * fl) ?vs = packed_rows fl select rows"
    using take_write_at [of "packed_rows fl select rows" room] packed room by simp
  have "write_rows fl select (zip rows (ranges_from 0 ?ns)) room = Some ?vs"
    using write_rows_ok [OF ok, of 0 room] room by simp
  then have "replaceAll_primitive fl select rows s =
      Some (\<lparr>ps_values = ?vs, ps_ranges = ranges_from 0 ?ns, ps_count = ?n\<rparr>, Plan_Full (packed_rows fl select rows))"
    by (simp add: replaceAll_primitive_def collect len Let_def take_vs flip: room_def)
  moreover have "primitive_ok fl select rows \<lparr>ps_values = ?vs, ps_ranges = ranges_from 0 ?ns, ps_count = ?n\<rparr>"
    using packed room take_vs by (simp add: primitive_ok_def scene_data_def)
  ultimately show ?thesis by blast
qed

lemma trim_primitive_ok:
  assumes "primitive_ok fl select rows s" "list_all (batch_ok fl \<circ> select) rows" "trim_primitive fl s = Some (s', n)"
  shows "primitive_ok fl select rows s' \<and> scene_allocatedBytes s = scene_allocatedBytes s' + n"
proof (cases "n = 0 \<and> s' = s")
  case False
  from assms(3) obtain t where t: "targetLength fl s = Some t" by (auto simp: trim_primitive_def)
  from t have le: "ps_count s * fl \<le> t"
    using double_until_ge [of "64 * fl" "ps_count s * 2 * fl"]
    by (cases "fl = 0") (auto simp: targetLength_def checkedLength_def split: if_splits)
  from assms(3) t False have cut: "\<not> length (ps_values s) \<le> t"
    and s': "s' = s\<lparr>ps_values := moved_to t (scene_data fl s)\<rparr>"
    and n: "n = length (ps_values s) * BYTES_PER_FLOAT - t * BYTES_PER_FLOAT"
    by (auto simp: trim_primitive_def split: if_splits)
  have len: "length (scene_data fl s) = ps_count s * fl"
    using assms(1) by (auto simp: primitive_ok_def scene_data_def min_def)
  have "scene_data fl s' = scene_data fl s"
    using take_moved_to [of "scene_data fl s" t] by (simp add: s' scene_data_def [of fl "s\<lparr>ps_values := _\<rparr>"] len)
  with assms(1) le len cut show ?thesis
    by (simp add: primitive_ok_def s' n scene_allocatedBytes_def BYTES_PER_FLOAT_def)
qed (use assms(1) in simp)

section \<open>Updating rows\<close>

definition covered :: "nat \<Rightarrow> row_range list \<Rightarrow> nat \<Rightarrow> bool" where
  "covered fl rs j \<longleftrightarrow> (\<exists>r \<in> set rs. rr_offset r * fl \<le> j \<and> j < (rr_offset r + rr_count r) * fl)"

lemma covered_simps [simp]:
  "\<not> covered fl [] j"
  "covered fl (r # rs) j \<longleftrightarrow> rr_offset r * fl \<le> j \<and> j < (rr_offset r + rr_count r) * fl \<or> covered fl rs j"
  "covered fl (rs @ qs) j \<longleftrightarrow> covered fl rs j \<or> covered fl qs j"
  by (auto simp: covered_def)

lemma covered_join:
  assumes "rr_offset p + rr_count p = rr_offset r"
  shows "covered fl [\<lparr>rr_offset = rr_offset p, rr_count = rr_count p + rr_count r\<rparr>] j
    \<longleftrightarrow> covered fl [p, r] j"
proof -
  have "(rr_offset p + rr_count p) * fl = rr_offset r * fl" by (simp add: assms)
  moreover have "rr_offset p + (rr_count p + rr_count r) = rr_offset r + rr_count r" using assms by simp
  moreover have "rr_offset p * fl \<le> rr_offset r * fl" "rr_offset r * fl \<le> (rr_offset r + rr_count r) * fl"
    using assms by (auto intro: mult_le_mono1)
  ultimately show ?thesis by (simp only: covered_simps simp_thms row_range.simps) linarith
qed

lemma covered_merge: "covered fl (merge_ranges m rs) j \<longleftrightarrow> covered fl m j \<or> covered fl rs j"
proof (induction m rs rule: merge_ranges.induct)
  case (2 m r rs)
  show ?case
  proof (cases m rule: rev_cases)
    case Nil
    with 2 show ?thesis by (simp add: find_last_def)
  next
    case (snoc ps p)
    then have last: "find_last (\<lambda>r. True) m = Some p" by (simp add: find_last_def)
    show ?thesis
      using 2 last snoc covered_join [of p r fl j] by auto
  qed
qed simp

definition ranges_within :: "nat \<Rightarrow> row_range list \<Rightarrow> bool" where
  "ranges_within n rs \<longleftrightarrow> list_all (\<lambda>r. rr_offset r + rr_count r \<le> n) rs"

lemma within_merge: "ranges_within n m \<Longrightarrow> ranges_within n rs \<Longrightarrow> ranges_within n (merge_ranges m rs)"
proof (induction m rs rule: merge_ranges.induct)
  case (2 m r rs)
  show ?case
  proof (cases m rule: rev_cases)
    case Nil
    with 2 show ?thesis by (simp add: find_last_def ranges_within_def)
  next
    case (snoc ps p)
    then have last: "find_last (\<lambda>r. True) m = Some p" by (simp add: find_last_def)
    show ?thesis using 2 last snoc by (auto simp: ranges_within_def)
  qed
qed simp

text \<open>The array of a scene as the segments of its rows; \<open>put_segs\<close> replaces those in a set.\<close>

definition segs_ok :: "nat \<Rightarrow> nat list \<Rightarrow> jsnum list list \<Rightarrow> bool" where
  "segs_ok fl ns segs \<longleftrightarrow> map length segs = map (\<lambda>n. n * fl) ns"

definition put_segs :: "(int \<Rightarrow> jsnum list) \<Rightarrow> int set \<Rightarrow> jsnum list list \<Rightarrow> jsnum list list" where
  "put_segs f S segs = map (\<lambda>i. if int i \<in> S then f (int i) else segs ! i) [0..<length segs]"

lemma segs_length: "segs_ok fl ns segs \<Longrightarrow> length segs = length ns"
  unfolding segs_ok_def by (drule arg_cong [of _ _ length]) simp

lemma segs_nth:
  assumes "segs_ok fl ns segs" "i < length ns"
  shows "length (segs ! i) = ns ! i * fl"
proof -
  have "map length segs ! i = map (\<lambda>n. n * fl) ns ! i" using assms(1) by (simp add: segs_ok_def)
  then show ?thesis using assms(2) segs_length [OF assms(1)] by simp
qed

lemma segs_take: "segs_ok fl ns segs \<Longrightarrow> length (concat (take i segs)) = sum_list (take i ns) * fl"
proof (induction i)
  case (Suc i)
  show ?case
  proof (cases "i < length ns")
    case True
    then show ?thesis
      using Suc segs_length [OF Suc.prems] segs_nth [OF Suc.prems True]
      by (simp add: take_Suc_conv_app_nth add_mult_distrib)
  qed (use Suc segs_length [OF Suc.prems] in simp)
qed simp

lemma segs_total: "segs_ok fl ns segs \<Longrightarrow> length (concat segs) = sum_list ns * fl"
  using segs_take [of fl ns segs "length segs"] segs_length [of fl ns segs] by simp

lemma segs_update: "segs_ok fl ns segs \<Longrightarrow> length y = length (segs ! i) \<Longrightarrow> segs_ok fl ns (segs[i := y])"
  unfolding segs_ok_def by (simp add: map_update) (metis length_map list_update_id map_update)

lemma write_segment:
  assumes "segs_ok fl ns segs" "i < length ns" "length y = length (segs ! i)"
  shows "write_at (sum_list (take i ns) * fl) y (concat segs @ rest) = concat (segs[i := y]) @ rest"
proof -
  have i: "i < length segs" using assms(1,2) by (simp add: segs_length)
  have "concat segs = concat (take i segs) @ segs ! i @ concat (drop (Suc i) segs)"
    using id_take_nth_drop [OF i] by (metis concat.simps(2) concat_append)
  moreover have "concat (segs[i := y]) = concat (take i segs) @ y @ concat (drop (Suc i) segs)"
    by (simp add: upd_conv_take_nth_drop [OF i])
  moreover note segs_take [OF assms(1), of i]
  ultimately show ?thesis using assms(3) by (simp add: write_at_def)
qed

lemma put_segs_insert:
  assumes "0 \<le> r" "nat r < length segs"
  shows "put_segs f (insert r S) segs = put_segs f S (segs[nat r := f r])"
  using assms by (auto simp: put_segs_def nth_list_update intro!: nth_equalityI)

lemma put_segs_same: "(\<And>i. i < length segs \<Longrightarrow> int i \<in> S \<Longrightarrow> f (int i) = segs ! i) \<Longrightarrow> put_segs f S segs = segs"
  by (auto simp: put_segs_def intro!: nth_equalityI)

lemma put_segs_present:
  assumes "nat r < length segs" "segs ! nat r = f r" "0 \<le> r"
  shows "put_segs f (insert r S) segs = put_segs f S segs"
  using assms by (auto simp: put_segs_def intro!: nth_equalityI)

lemma range_at:
  assumes "ps_ranges s = ranges_from 0 ns"
  shows "range_of s c = (if 0 \<le> rc_row c \<and> nat (rc_row c) < length ns
    then Some \<lparr>rr_offset = sum_list (take (nat (rc_row c)) ns), rr_count = ns ! nat (rc_row c)\<rparr> else None)"
  using assms by (simp add: range_of_def int_at_def item_at_def ranges_from_nth)

lemma prefix_le: "i < length ns \<Longrightarrow> sum_list (take i ns) + ns ! i \<le> sum_list (ns :: nat list)"
proof -
  assume "i < length ns"
  then have "sum_list (take i ns) + ns ! i = sum_list (take (Suc i) ns)" by (simp add: take_Suc_conv_app_nth)
  also have "\<dots> \<le> sum_list (take (Suc i) ns @ drop (Suc i) ns)" by (simp only: sum_list_append le_add1)
  finally show ?thesis by simp
qed

lemma write_changes_ok:
  assumes "ps_ranges s = ranges_from 0 ns" "segs_ok fl ns segs"
    and "\<And>c. c \<in> set cs \<Longrightarrow> 0 \<le> rc_row c \<and> nat (rc_row c) < length ns
      \<and> batch_data fl (select (rc_batches c)) = f (rc_row c) \<and> length (f (rc_row c)) = ns ! nat (rc_row c) * fl"
    and "0 \<le> prev \<Longrightarrow> nat prev < length ns \<and> segs ! nat prev = f prev"
  shows "\<exists>touched. write_changes fl select s prev cs (concat segs @ rest) =
      Some (concat (put_segs f (rc_row ` set cs) segs) @ rest, touched)
    \<and> segs_ok fl ns (put_segs f (rc_row ` set cs) segs)
    \<and> ranges_within (sum_list ns) touched
    \<and> (\<forall>j < sum_list ns * fl. \<not> covered fl touched j \<longrightarrow>
         concat (put_segs f (rc_row ` set cs) segs) ! j = concat segs ! j)"
  using assms(2-)
proof (induction cs arbitrary: prev segs)
  case Nil
  have "put_segs f {} segs = segs" by (rule put_segs_same) simp
  with Nil show ?case by (simp add: ranges_within_def)
next
  case (Cons c cs)
  let ?r = "nat (rc_row c)" and ?d = "f (rc_row c)"
  note len = segs_length [OF Cons.prems(1)]
  from Cons.prems(2) [of c] have r: "0 \<le> rc_row c" "?r < length ns" "batch_data fl (select (rc_batches c)) = ?d"
    "length ?d = ns ! ?r * fl" by auto
  have same: "length ?d = length (segs ! ?r)" using r segs_nth [OF Cons.prems(1)] by simp
  show ?case
  proof (cases "rc_row c = prev")
    case True
    with Cons.prems(3) r have "segs ! ?r = ?d" by simp
    then have "put_segs f (rc_row ` set (c # cs)) segs = put_segs f (rc_row ` set cs) segs"
      using put_segs_present [of "rc_row c" segs f] r len by simp
    with True Cons.IH [OF Cons.prems(1) Cons.prems(2) Cons.prems(3)] show ?thesis by simp
  next
    case False
    let ?segs = "segs[?r := ?d]"
    let ?rng = "\<lparr>rr_offset = sum_list (take ?r ns), rr_count = ns ! ?r\<rparr>"
    have ok: "segs_ok fl ns ?segs" by (rule segs_update [OF Cons.prems(1) same])
    have put: "put_segs f (rc_row ` set (c # cs)) segs = put_segs f (rc_row ` set cs) ?segs"
      using put_segs_insert [of "rc_row c" segs f] r len by simp
    obtain touched where t: "write_changes fl select s (rc_row c) cs (concat ?segs @ rest) =
        Some (concat (put_segs f (rc_row ` set cs) ?segs) @ rest, touched)"
      "segs_ok fl ns (put_segs f (rc_row ` set cs) ?segs)" "ranges_within (sum_list ns) touched"
      "\<forall>j < sum_list ns * fl. \<not> covered fl touched j \<longrightarrow>
         concat (put_segs f (rc_row ` set cs) ?segs) ! j = concat ?segs ! j"
      using Cons.IH [OF ok, of "rc_row c"] Cons.prems(2) r len by auto
    have at: "range_of s c = Some ?rng" using r range_at [OF assms(1)] by simp
    show ?thesis
    proof (cases "ns ! ?r * fl = 0")
      case True
      then have "?d = []" "segs ! ?r = []" using same r(4) by (simp_all only: length_0_conv [symmetric])
      then have "segs ! ?r = ?d" by simp
      then have "?segs = segs" by (metis list_update_id)
      then show ?thesis using False True at r t put by simp
    next
      case pos: False
      have w: "write_row fl (select (rc_batches c)) ?rng (concat segs @ rest) = Some (concat ?segs @ rest)"
        using write_segment [OF Cons.prems(1) r(2) same] r by (simp add: write_row_def)
      have "write_changes fl select s prev (c # cs) (concat segs @ rest) =
          Some (concat (put_segs f (rc_row ` set cs) ?segs) @ rest, ?rng # touched)"
        using False pos at r t(1) w by simp
      moreover have "ranges_within (sum_list ns) (?rng # touched)"
        using t(3) prefix_le [OF r(2)] by (simp add: ranges_within_def)
      moreover have "concat ?segs ! j = concat segs ! j"
        if "j < sum_list ns * fl" "\<not> covered fl [?rng] j" for j
      proof -
        have "concat ?segs = write_at (sum_list (take ?r ns) * fl) ?d (concat segs)"
          using write_segment [OF Cons.prems(1) r(2) same, of "[]"] by simp
        moreover have "sum_list (take ?r ns) * fl + length ?d \<le> length (concat segs)"
          using mult_le_mono1 [OF prefix_le [OF r(2)], of fl] r
          by (simp add: segs_total [OF Cons.prems(1)] add_mult_distrib)
        ultimately show ?thesis
          using that nth_write_at [of j "concat segs" "sum_list (take ?r ns) * fl" ?d] r
          by (auto simp: segs_total [OF Cons.prems(1)] add_mult_distrib)
      qed
      ultimately show ?thesis using put t(2,4) by auto
    qed
  qed
qed

section \<open>What the buffers hold\<close>

definition buffer_ok :: "gl_buffer \<Rightarrow> bool" where
  "buffer_ok b \<longleftrightarrow> bf_capacity b = length (bf_contents b) * BYTES_PER_FLOAT"

definition buffer_shows :: "jsnum list \<Rightarrow> gl_buffer \<Rightarrow> bool" where
  "buffer_shows data b \<longleftrightarrow> buffer_ok b \<and> length data \<le> length (bf_contents b)
     \<and> take (length data) (bf_contents b) = data"

lemma double_until_dvd: "k dvd c \<Longrightarrow> k dvd double_until c r"
  by (induction c r rule: double_until.induct) (subst double_until.simps, auto)

lemma bufferData_ok: "4 dvd n \<Longrightarrow> buffer_ok (bufferData n)"
  by (simp add: buffer_ok_def bufferData_def BYTES_PER_FLOAT_def)

lemma bufferSubData_ok:
  "buffer_ok b \<Longrightarrow> k + length data \<le> length (bf_contents b) \<Longrightarrow> buffer_ok (bufferSubData (k * BYTES_PER_FLOAT) data b)"
  by (simp add: buffer_ok_def bufferSubData_def BYTES_PER_FLOAT_def)

lemma uploadFull_shows: "buffer_ok b \<Longrightarrow> buffer_shows data (uploadFull data b)"
proof -
  assume b: "buffer_ok b"
  let ?n = "length data * BYTES_PER_FLOAT"
  let ?b = "if bf_capacity b < ?n then bufferData (double_until 1024 ?n) else b"
  have "4 dvd double_until 1024 ?n" by (rule double_until_dvd) simp
  then have ok: "buffer_ok ?b" using b bufferData_ok by simp
  have "?n \<le> bf_capacity ?b"
    using double_until_ge [of 1024 ?n] by (simp add: bufferData_def)
  with ok have room: "length data \<le> length (bf_contents ?b)" by (simp add: buffer_ok_def BYTES_PER_FLOAT_def)
  show ?thesis
  proof (cases "data = []")
    case True
    then show ?thesis using ok by (simp add: uploadFull_def buffer_shows_def)
  next
    case False
    then have u: "uploadFull data b = bufferSubData 0 data ?b"
      by (simp add: uploadFull_def Let_def BYTES_PER_FLOAT_def)
    have "buffer_ok (bufferSubData 0 data ?b)" using bufferSubData_ok [OF ok, of 0 data] room by simp
    moreover have "bf_contents (bufferSubData 0 data ?b) = write_at 0 data (bf_contents ?b)"
      by (simp add: bufferSubData_def)
    ultimately show ?thesis
      unfolding u buffer_shows_def using room take_write_at [of data "bf_contents ?b"] by simp
  qed
qed

lemma trimGpuBuffer_shows: "buffer_shows data b \<Longrightarrow> buffer_shows data (trimGpuBuffer data b)"
proof -
  assume b: "buffer_shows data b"
  let ?t = "targetBufferCapacity data"
  have "4 dvd ?t" unfolding targetBufferCapacity_def using double_until_dvd [of 4 1024] by simp
  then have ok: "buffer_ok (bufferData ?t)" by (rule bufferData_ok)
  have "length data * BYTES_PER_FLOAT \<le> bf_capacity (bufferData ?t)"
    using double_until_ge [of 1024 "length data * BYTES_PER_FLOAT * 2"]
    by (auto simp: bufferData_def targetBufferCapacity_def)
  with ok have room: "length data \<le> length (bf_contents (bufferData ?t))"
    by (simp add: buffer_ok_def BYTES_PER_FLOAT_def)
  have "buffer_shows data (bufferSubData 0 data (bufferData ?t))"
    using bufferSubData_ok [OF ok, of 0 data] room take_write_at [of data "bf_contents (bufferData ?t)"]
    by (simp add: buffer_shows_def bufferSubData_def)
  with b ok show ?thesis
    by (cases "data = []") (auto simp: trimGpuBuffer_def Let_def buffer_shows_def)
qed

lemma upload_ranges_ok:
  assumes "ranges_within n rs" "n * fl \<le> length vs" "buffer_ok b" "n * fl \<le> length (bf_contents b)"
  shows "\<exists>b'. upload_ranges (map (upload_of fl vs) rs) b = Some b' \<and> buffer_ok b'
    \<and> length (bf_contents b') = length (bf_contents b)
    \<and> (\<forall>j < length (bf_contents b). bf_contents b' ! j = (if covered fl rs j then vs ! j else bf_contents b ! j))"
  using assms
proof (induction rs arbitrary: b)
  case (Cons r rs)
  let ?o = "rr_offset r * fl" and ?n = "rr_count r * fl"
  let ?d = "take ?n (drop ?o vs)"
  have "(rr_offset r + rr_count r) * fl \<le> n * fl"
    using Cons.prems(1) by (intro mult_le_mono1) (simp add: ranges_within_def)
  then have le: "?o + ?n \<le> n * fl" by (simp add: add_mult_distrib)
  have len: "length ?d = ?n" using le Cons.prems(2) by simp
  have room: "?o + length ?d \<le> length (bf_contents b)" using le len Cons.prems(4) by simp
  define b1 where "b1 = (if ?d = [] then b else bufferSubData (?o * BYTES_PER_FLOAT) ?d b)"
  have up: "uploadRange (?o * BYTES_PER_FLOAT) ?d b = Some b1"
    using room Cons.prems(3) by (simp add: uploadRange_def b1_def buffer_ok_def BYTES_PER_FLOAT_def)
  have ok: "buffer_ok b1" using bufferSubData_ok [OF Cons.prems(3) room] Cons.prems(3) by (simp add: b1_def)
  have con: "bf_contents b1 = write_at ?o ?d (bf_contents b)"
    by (simp add: b1_def bufferSubData_def BYTES_PER_FLOAT_def)
  then have l: "length (bf_contents b1) = length (bf_contents b)" using room by simp
  have nth: "bf_contents b1 ! j = (if covered fl [r] j then vs ! j else bf_contents b ! j)"
    if "j < length (bf_contents b)" for j
    using that nth_write_at [OF that room] len le Cons.prems(2) unfolding con
    by (auto simp: add_mult_distrib)
  have "ranges_within n rs" using Cons.prems(1) by (simp add: ranges_within_def)
  from Cons.IH [OF this Cons.prems(2) ok] Cons.prems(4) l
  obtain b' where b': "upload_ranges (map (upload_of fl vs) rs) b1 = Some b'" "buffer_ok b'"
    "length (bf_contents b') = length (bf_contents b)"
    "\<forall>j < length (bf_contents b). bf_contents b' ! j = (if covered fl rs j then vs ! j else bf_contents b1 ! j)"
    by auto
  have "upload_ranges (map (upload_of fl vs) (r # rs)) b = Some b'"
    using up b'(1) by (simp add: upload_of_def)
  then show ?case using b' nth by auto
qed simp

lemma take_eq_nth: "n \<le> length xs \<Longrightarrow> n \<le> length ys \<Longrightarrow> (\<And>j. j < n \<Longrightarrow> xs ! j = ys ! j) \<Longrightarrow> take n xs = take n ys"
  by (rule nth_equalityI) auto

section \<open>The rows after a list of changes\<close>

definition change_at :: "row_change list \<Rightarrow> nat \<Rightarrow> row_batches option" where
  "change_at cs i = map_option rc_batches (find (\<lambda>c. rc_row c = int i) cs)"

definition rows_after :: "row_change list \<Rightarrow> row_batches list \<Rightarrow> row_batches list" where
  "rows_after cs rows =
     map (\<lambda>i. case change_at cs i of Some b \<Rightarrow> b | None \<Rightarrow> rows ! i) [0..<length rows]"

text \<open>Changes within \<open>n\<close> rows that agree where they name the same row.\<close>

definition changes_ok :: "nat \<Rightarrow> row_change list \<Rightarrow> bool" where
  "changes_ok n cs \<longleftrightarrow> list_all (\<lambda>c. 0 \<le> rc_row c \<and> rc_row c < int n) cs
     \<and> list_all (\<lambda>c. list_all (\<lambda>d. rc_row c = rc_row d \<longrightarrow> rc_batches c = rc_batches d) cs) cs"

lemma changes_agree:
  "changes_ok n cs \<Longrightarrow> c \<in> set cs \<Longrightarrow> d \<in> set cs \<Longrightarrow> rc_row c = rc_row d \<Longrightarrow> rc_batches c = rc_batches d"
  unfolding changes_ok_def list_all_iff by blast

lemma changes_range: "changes_ok n cs \<Longrightarrow> c \<in> set cs \<Longrightarrow> 0 \<le> rc_row c \<and> nat (rc_row c) < n"
  by (auto simp: changes_ok_def list_all_iff)

lemma change_at_Some:
  assumes "changes_ok n cs" "c \<in> set cs"
  shows "change_at cs (nat (rc_row c)) = Some (rc_batches c)"
proof -
  have "\<exists>d. find (\<lambda>d. rc_row d = int (nat (rc_row c))) cs = Some d"
    using assms changes_range [OF assms] by (cases "find (\<lambda>d. rc_row d = int (nat (rc_row c))) cs")
      (auto simp: find_None_iff)
  then obtain d where d: "find (\<lambda>d. rc_row d = int (nat (rc_row c))) cs = Some d" by blast
  from find_Some_D [OF d] changes_range [OF assms] have "d \<in> set cs" "rc_row d = rc_row c" by auto
  with changes_agree [OF assms(1) this(1) assms(2)] d show ?thesis by (simp add: change_at_def)
qed

lemma change_at_None: "change_at cs i = None \<longleftrightarrow> int i \<notin> rc_row ` set cs"
  by (force simp: change_at_def find_None_iff image_iff)

lemma length_rows_after [simp]: "length (rows_after cs rows) = length rows"
  by (simp add: rows_after_def)

lemma rows_after_nth: "i < length rows \<Longrightarrow>
  rows_after cs rows ! i = (case change_at cs i of Some b \<Rightarrow> b | None \<Rightarrow> rows ! i)"
  by (simp add: rows_after_def split: option.split)

lemma put_changes_ok:
  assumes "changes_ok (length rows) cs"
  shows "put_changes cs rows = Some (rows_after cs rows)"
proof -
  have "put_changes ds xs = Some (map (\<lambda>i. if int i \<in> rc_row ` set ds then the (change_at cs i) else xs ! i) [0..<length xs])"
    if "set ds \<subseteq> set cs" "length xs = length rows" for ds xs
    using that
  proof (induction ds arbitrary: xs)
    case Nil
    show ?case by (simp add: map_nth)
  next
    case (Cons d ds)
    from Cons.prems have d: "d \<in> set cs" by simp
    note r = changes_range [OF assms d]
    have "xs[nat (rc_row d) := rc_batches d] ! i = (if i = nat (rc_row d) then the (change_at cs i) else xs ! i)"
      if "i < length xs" for i
      using that change_at_Some [OF assms d] by (auto simp: nth_list_update)
    then have "map (\<lambda>i. if int i \<in> rc_row ` set ds then the (change_at cs i) else xs[nat (rc_row d) := rc_batches d] ! i) [0..<length xs]
        = map (\<lambda>i. if int i \<in> rc_row ` set (d # ds) then the (change_at cs i) else xs ! i) [0..<length xs]"
      using r by auto
    moreover have "\<not> (rc_row d < 0 \<or> int (length xs) \<le> rc_row d)" using r Cons.prems(2) by linarith
    ultimately show ?case using Cons.IH [of "xs[nat (rc_row d) := rc_batches d]"] Cons.prems by simp
  qed
  from this [of cs rows] have "put_changes cs rows =
      Some (map (\<lambda>i. if int i \<in> rc_row ` set cs then the (change_at cs i) else rows ! i) [0..<length rows])" by simp
  moreover have "(if int i \<in> rc_row ` set cs then the (change_at cs i) else rows ! i)
      = (case change_at cs i of Some b \<Rightarrow> b | None \<Rightarrow> rows ! i)" for i
    using change_at_None [of cs i] by (cases "change_at cs i") auto
  ultimately show ?thesis by (simp add: rows_after_def)
qed

lemma counts_nth: "i < length rows \<Longrightarrow> counts_of select rows ! i = gb_count (select (rows ! i))"
  by (simp add: counts_of_def)

lemma rows_ok_nth: "rows_ok fl select rows \<Longrightarrow> i < length rows \<Longrightarrow> batch_ok fl (select (rows ! i))"
  by (simp add: rows_ok_def list_all_length)

lemma segs_of_rows:
  "rows_ok fl select rows \<Longrightarrow> segs_ok fl (counts_of select rows) (map (batch_data fl \<circ> select) rows)"
  by (auto simp: segs_ok_def counts_of_def rows_ok_def list_all_iff length_batch_data)

lemma update_partial_ok:
  assumes ok: "primitive_ok fl select rows s" "rows_ok fl select rows" "rows_ok fl select (rows_after cs rows)"
    and cs: "changes_ok (length rows) cs" "list_all (change_fits select s) cs" "cs \<noteq> []"
  shows "\<exists>s' p. updateRows_primitive fl select cs (rows_after cs rows) s = Some (s', p)
    \<and> primitive_ok fl select (rows_after cs rows) s'
    \<and> (\<forall>b. buffer_shows (packed_rows fl select rows) b \<longrightarrow>
         (\<exists>b' st. submitPrimitive p b = Some (b', st) \<and> buffer_shows (packed_rows fl select (rows_after cs rows)) b'))"
proof -
  let ?rows' = "rows_after cs rows" and ?ns = "counts_of select rows"
  let ?segs = "map (batch_data fl \<circ> select) rows" and ?n = "sum_list (counts_of select rows)"
  let ?sorted = "js_sort (\<lambda>a b. rc_row a - rc_row b) cs"
  define f where "f r = batch_data fl (select (the (change_at cs (nat r))))" for r
  define rest where "rest = drop (ps_count s * fl) (ps_values s)"
  from ok(1) have rngs: "ps_ranges s = ranges_from 0 ?ns" and count: "ps_count s = ?n"
    and vs: "ps_values s = concat ?segs @ rest"
    unfolding primitive_ok_def scene_data_def rest_def packed_rows_def by (auto, metis append_take_drop_id)
  have fits: "select_row = gb_count (select (rc_batches c))"
    if "c \<in> set cs" "select_row = ?ns ! nat (rc_row c)" for c select_row
    using that cs(2) changes_range [OF cs(1), of c] range_at [OF rngs, of c]
    by (auto simp: list_all_iff change_fits_def)
  have change: "0 \<le> rc_row c \<and> nat (rc_row c) < length ?ns \<and> batch_data fl (select (rc_batches c)) = f (rc_row c)
      \<and> length (f (rc_row c)) = ?ns ! nat (rc_row c) * fl" if c: "c \<in> set ?sorted" for c
  proof -
    from c have c: "c \<in> set cs" by (simp add: set_js_sort)
    note r = changes_range [OF cs(1) c]
    have "?rows' ! nat (rc_row c) = rc_batches c" using r change_at_Some [OF cs(1) c] by (simp add: rows_after_nth)
    then have "batch_ok fl (select (rc_batches c))" using rows_ok_nth [OF ok(3), of "nat (rc_row c)"] r by simp
    then show ?thesis using r fits [OF c refl] change_at_Some [OF cs(1) c] by (simp add: f_def length_batch_data)
  qed
  let ?segs' = "put_segs f (rc_row ` set cs) ?segs"
  obtain touched where t: "write_changes fl select s (- 1) ?sorted (concat ?segs @ rest) = Some (concat ?segs' @ rest, touched)"
    "segs_ok fl ?ns ?segs'" "ranges_within ?n touched"
    "\<forall>j < ?n * fl. \<not> covered fl touched j \<longrightarrow> concat ?segs' ! j = concat ?segs ! j"
    using write_changes_ok [OF rngs segs_of_rows [OF ok(2)], of ?sorted select f "- 1" rest] change
    by (auto simp: set_js_sort)
  have at: "change_at cs i = Some (rc_batches c) \<and> nat (rc_row c) = i"
    if "c \<in> set cs" "int i = rc_row c" for i c
  proof -
    from that(2) have "nat (rc_row c) = i" by linarith
    then show ?thesis using change_at_Some [OF cs(1) that(1)] by simp
  qed
  have counts: "counts_of select ?rows' = ?ns"
  proof (rule nth_equalityI)
    fix i assume i: "i < length (counts_of select ?rows')"
    show "counts_of select ?rows' ! i = ?ns ! i"
    proof (cases "int i \<in> rc_row ` set cs")
      case True
      then obtain c where c: "c \<in> set cs" "int i = rc_row c" by blast
      have ch: "change_at cs i = Some (rc_batches c)" and r: "nat (rc_row c) = i" using at [OF c] by blast+
      have "gb_count (select (rc_batches c)) = ?ns ! i" using fits [OF c(1), of "?ns ! i"] r by simp
      then show ?thesis using ch i by (simp add: counts_nth rows_after_nth)
    next
      case False
      then show ?thesis using change_at_None [of cs i] i by (simp add: counts_nth rows_after_nth)
    qed
  qed simp
  have segs: "?segs' = map (batch_data fl \<circ> select) ?rows'"
  proof (rule nth_equalityI)
    fix i assume i: "i < length ?segs'"
    show "?segs' ! i = map (batch_data fl \<circ> select) ?rows' ! i"
      using i change_at_None [of cs i] by (cases "change_at cs i") (simp_all add: put_segs_def rows_after_nth f_def)
  qed (simp add: put_segs_def)
  let ?vs = "concat ?segs' @ rest"
  have total: "length (concat ?segs') = ?n * fl" "length (concat ?segs) = ?n * fl"
    using segs_total [OF t(2)] segs_total [OF segs_of_rows [OF ok(2)]] by auto
  define plan where "plan = (if touched = [] then Plan_None else Plan_Partial (map (upload_of fl ?vs) (merge_ranges [] touched)))"
  have upd: "updateRows_primitive fl select cs ?rows' s = Some (s\<lparr>ps_values := ?vs\<rparr>, plan)"
    using cs t(1) by (simp add: updateRows_primitive_def vs plan_def)
  have "primitive_ok fl select ?rows' (s\<lparr>ps_values := ?vs\<rparr>)"
    using rngs count counts total by (simp add: primitive_ok_def scene_data_def segs packed_rows_def)
  moreover have "\<exists>b' st. submitPrimitive plan b = Some (b', st) \<and> buffer_shows (packed_rows fl select ?rows') b'"
    if b: "buffer_shows (packed_rows fl select rows) b" for b
  proof (cases "touched = []")
    case True
    with t(4) have "concat ?segs' = concat ?segs" using total by (intro nth_equalityI) auto
    then have "packed_rows fl select ?rows' = packed_rows fl select rows"
      by (simp only: packed_rows_def segs)
    with b True show ?thesis by (simp add: plan_def)
  next
    case False
    let ?merged = "merge_ranges [] touched"
    have w: "ranges_within ?n ?merged" by (rule within_merge) (simp_all add: t(3) ranges_within_def [of _ "[]"])
    have old: "buffer_ok b" "?n * fl \<le> length (bf_contents b)" "take (?n * fl) (bf_contents b) = concat ?segs"
      using b total(2) by (simp_all add: buffer_shows_def packed_rows_def)
    obtain b' where b': "upload_ranges (map (upload_of fl ?vs) ?merged) b = Some b'" "buffer_ok b'"
      "length (bf_contents b') = length (bf_contents b)"
      "\<forall>j < length (bf_contents b). bf_contents b' ! j = (if covered fl ?merged j then ?vs ! j else bf_contents b ! j)"
      using upload_ranges_ok [OF w _ old(1,2), of ?vs] total(1) by auto
    have "take (?n * fl) (bf_contents b') = take (?n * fl) ?vs"
    proof (rule take_eq_nth)
      fix j assume j: "j < ?n * fl"
      then have "bf_contents b ! j = concat ?segs ! j" using old(3) nth_take [OF j, of "bf_contents b"] by simp
      with j b'(4) t(4) old(2) total show "bf_contents b' ! j = ?vs ! j"
        by (simp add: covered_merge nth_append)
    qed (use b'(3) old(2) total in simp_all)
    then have "buffer_shows (concat ?segs') b'"
      using b'(2,3) old(2) total(1) by (simp add: buffer_shows_def)
    with b'(1) False show ?thesis by (simp add: plan_def segs packed_rows_def)
  qed
  ultimately show ?thesis using upd by blast
qed

lemma update_primitive_ok:
  assumes "primitive_ok fl select rows s" "rows_ok fl select rows" "rows_ok fl select (rows_after cs rows)"
    and "changes_ok (length rows) cs" "cs \<noteq> []"
  shows "\<exists>s' p. updateRows_primitive fl select cs (rows_after cs rows) s = Some (s', p)
    \<and> primitive_ok fl select (rows_after cs rows) s'
    \<and> (\<forall>b. buffer_shows (packed_rows fl select rows) b \<longrightarrow>
         (\<exists>b' st. submitPrimitive p b = Some (b', st) \<and> buffer_shows (packed_rows fl select (rows_after cs rows)) b'))"
proof (cases "list_all (change_fits select s) cs")
  case True
  then show ?thesis using update_partial_ok assms by blast
next
  case False
  then have "updateRows_primitive fl select cs (rows_after cs rows) s = replaceAll_primitive fl select (rows_after cs rows) s"
    using assms(5) by (simp add: updateRows_primitive_def)
  with replaceAll_ok [OF assms(3), of s] show ?thesis
    using uploadFull_shows by (auto simp: Let_def buffer_shows_def [of "packed_rows fl select rows"])
qed

lemma trim_primitive_total:
  assumes "primitive_ok fl select rows s" "rows_ok fl select rows"
  shows "\<exists>s' n. trim_primitive fl s = Some (s', n) \<and> primitive_ok fl select rows s'
    \<and> scene_allocatedBytes s = scene_allocatedBytes s' + n"
proof -
  from assms(2) have fl: "0 < fl" and ok: "list_all (batch_ok fl \<circ> select) rows"
    and safe: "int (ps_count s * 2 * fl) \<le> max_safe"
    using assms(1) by (auto simp: rows_ok_def primitive_ok_def)
  have "ps_count s * 2 \<le> ps_count s * 2 * fl" using fl by simp
  with safe have "int (ps_count s * 2) \<le> max_safe" by (meson of_nat_mono order_trans)
  with safe have "checkedLength fl (ps_count s * 2) = Some (ps_count s * 2 * fl)"
    unfolding checkedLength_def by (simp add: not_less del: of_nat_mult)
  then obtain s' n where "trim_primitive fl s = Some (s', n)"
    by (cases "length (ps_values s) \<le> double_until (64 * fl) (ps_count s * 2 * fl)")
      (auto simp: trim_primitive_def targetLength_def)
  then show ?thesis using trim_primitive_ok [OF assms(1) ok] by blast
qed

section \<open>The whole scene\<close>

record scene_buffers =
  sb_backgrounds :: gl_buffer
  sb_decorations :: gl_buffer
  sb_glyphs :: gl_buffer

definition add_stats :: "submit_stats \<Rightarrow> submit_stats \<Rightarrow> submit_stats" where
  "add_stats a b = \<lparr>su_copyBytes = su_copyBytes a + su_copyBytes b,
     su_uploadBytes = su_uploadBytes a + su_uploadBytes b, su_uploadCalls = su_uploadCalls a + su_uploadCalls b,
     su_fullUploads = su_fullUploads a + su_fullUploads b,
     su_partialUploads = su_partialUploads a + su_partialUploads b,
     su_compactions = su_compactions a + su_compactions b\<rparr>"

definition submitScene :: "scene_plan \<Rightarrow> scene_buffers \<Rightarrow> (scene_buffers \<times> submit_stats) option" where
  "submitScene p g =
     Option.bind (submitPrimitive (sp_backgrounds p) (sb_backgrounds g)) (\<lambda>(b, i).
       Option.bind (submitPrimitive (sp_decorations p) (sb_decorations g)) (\<lambda>(d, j).
         map_option (\<lambda>(c, k). (\<lparr>sb_backgrounds = b, sb_decorations = d, sb_glyphs = c\<rparr>,
             add_stats (add_stats i j) k))
           (submitPrimitive (sp_glyphs p) (sb_glyphs g))))"

definition trim_buffers :: "retained_scene \<Rightarrow> scene_buffers \<Rightarrow> scene_buffers" where
  "trim_buffers s g =
     \<lparr>sb_backgrounds = trimGpuBuffer (scene_data WEBGL_RECT_FLOATS (rs_backgrounds s)) (sb_backgrounds g),
      sb_decorations = trimGpuBuffer (scene_data WEBGL_RECT_FLOATS (rs_decorations s)) (sb_decorations g),
      sb_glyphs = trimGpuBuffer (scene_data WEBGL_GLYPH_FLOATS (rs_glyphs s)) (sb_glyphs g)\<rparr>"

text \<open>The rows fit the scene; the scene has packed them; the buffers begin with them.\<close>

definition scene_rows_ok :: "row_batches list \<Rightarrow> bool" where
  "scene_rows_ok rows \<longleftrightarrow> rows_ok WEBGL_RECT_FLOATS rb_backgrounds rows
     \<and> rows_ok WEBGL_RECT_FLOATS rb_decorations rows \<and> rows_ok WEBGL_GLYPH_FLOATS rb_glyphs rows"

definition scene_ok :: "retained_scene \<Rightarrow> bool" where
  "scene_ok s \<longleftrightarrow> scene_rows_ok (rs_rows s)
     \<and> primitive_ok WEBGL_RECT_FLOATS rb_backgrounds (rs_rows s) (rs_backgrounds s)
     \<and> primitive_ok WEBGL_RECT_FLOATS rb_decorations (rs_rows s) (rs_decorations s)
     \<and> primitive_ok WEBGL_GLYPH_FLOATS rb_glyphs (rs_rows s) (rs_glyphs s)"

definition buffers_show :: "row_batches list \<Rightarrow> scene_buffers \<Rightarrow> bool" where
  "buffers_show rows g \<longleftrightarrow> buffer_shows (packed_rows WEBGL_RECT_FLOATS rb_backgrounds rows) (sb_backgrounds g)
     \<and> buffer_shows (packed_rows WEBGL_RECT_FLOATS rb_decorations rows) (sb_decorations g)
     \<and> buffer_shows (packed_rows WEBGL_GLYPH_FLOATS rb_glyphs rows) (sb_glyphs g)"

lemma new_scene_ok: "scene_ok newRetainedScene"
  by (simp add: scene_ok_def newRetainedScene_def newPrimitiveScene_def primitive_ok_def scene_data_def
      scene_rows_ok_def rows_ok_def WEBGL_RECT_FLOATS_def WEBGL_GLYPH_FLOATS_def max_safe_def)

lemma buffer_shows_ok: "buffer_shows data b \<Longrightarrow> buffer_ok b"
  by (simp add: buffer_shows_def)

lemma submit_full: "buffer_shows old b \<Longrightarrow> \<exists>b' st. submitPrimitive (Plan_Full data) b = Some (b', st) \<and> buffer_shows data b'"
  using uploadFull_shows [OF buffer_shows_ok] by (simp add: Let_def)

lemma scene_replaceAll_ok:
  assumes "scene_rows_ok rows" "buffers_show old g"
  shows "\<exists>s' p g' st. scene_replaceAll rows s = Some (s', p) \<and> submitScene p g = Some (g', st)
    \<and> rs_rows s' = rows \<and> scene_ok s' \<and> buffers_show rows g'"
proof -
  from assms(1) have r: "rows_ok WEBGL_RECT_FLOATS rb_backgrounds rows"
    "rows_ok WEBGL_RECT_FLOATS rb_decorations rows" "rows_ok WEBGL_GLYPH_FLOATS rb_glyphs rows"
    by (simp_all add: scene_rows_ok_def)
  from assms(2) have o: "buffer_shows (packed_rows WEBGL_RECT_FLOATS rb_backgrounds old) (sb_backgrounds g)"
    "buffer_shows (packed_rows WEBGL_RECT_FLOATS rb_decorations old) (sb_decorations g)"
    "buffer_shows (packed_rows WEBGL_GLYPH_FLOATS rb_glyphs old) (sb_glyphs g)"
    by (simp_all add: buffers_show_def)
  obtain b d c where "replaceAll_primitive WEBGL_RECT_FLOATS rb_backgrounds rows (rs_backgrounds s) =
        Some (b, Plan_Full (packed_rows WEBGL_RECT_FLOATS rb_backgrounds rows))"
      "primitive_ok WEBGL_RECT_FLOATS rb_backgrounds rows b"
    and "replaceAll_primitive WEBGL_RECT_FLOATS rb_decorations rows (rs_decorations s) =
        Some (d, Plan_Full (packed_rows WEBGL_RECT_FLOATS rb_decorations rows))"
      "primitive_ok WEBGL_RECT_FLOATS rb_decorations rows d"
    and "replaceAll_primitive WEBGL_GLYPH_FLOATS rb_glyphs rows (rs_glyphs s) =
        Some (c, Plan_Full (packed_rows WEBGL_GLYPH_FLOATS rb_glyphs rows))"
      "primitive_ok WEBGL_GLYPH_FLOATS rb_glyphs rows c"
    using replaceAll_ok [OF r(1)] replaceAll_ok [OF r(2)] replaceAll_ok [OF r(3)] by metis
  moreover obtain b' d' c' i j k where
    "submitPrimitive (Plan_Full (packed_rows WEBGL_RECT_FLOATS rb_backgrounds rows)) (sb_backgrounds g) = Some (b', i)"
    "buffer_shows (packed_rows WEBGL_RECT_FLOATS rb_backgrounds rows) b'"
    "submitPrimitive (Plan_Full (packed_rows WEBGL_RECT_FLOATS rb_decorations rows)) (sb_decorations g) = Some (d', j)"
    "buffer_shows (packed_rows WEBGL_RECT_FLOATS rb_decorations rows) d'"
    "submitPrimitive (Plan_Full (packed_rows WEBGL_GLYPH_FLOATS rb_glyphs rows)) (sb_glyphs g) = Some (c', k)"
    "buffer_shows (packed_rows WEBGL_GLYPH_FLOATS rb_glyphs rows) c'"
    using submit_full [OF o(1)] submit_full [OF o(2)] submit_full [OF o(3)] by metis
  ultimately show ?thesis
    using assms(1) by (simp add: scene_replaceAll_def submitScene_def put_primitives_def scene_ok_def buffers_show_def
        del: submitPrimitive.simps)
qed

lemma scene_updateRows_ok:
  assumes "scene_ok s" "buffers_show (rs_rows s) g" "changes_ok (length (rs_rows s)) cs"
    "scene_rows_ok (rows_after cs (rs_rows s))"
  shows "\<exists>s' p g' st. scene_updateRows cs s = Some (s', p) \<and> submitScene p g = Some (g', st)
    \<and> rs_rows s' = rows_after cs (rs_rows s) \<and> scene_ok s' \<and> buffers_show (rs_rows s') g'"
proof (cases "cs = []")
  case True
  then have "rows_after cs (rs_rows s) = rs_rows s"
    by (auto simp: rows_after_def change_at_def intro: nth_equalityI)
  with True assms show ?thesis by (simp add: scene_updateRows_def submitScene_def buffers_show_def)
next
  case False
  let ?rows = "rs_rows s" and ?rows' = "rows_after cs (rs_rows s)"
  note defs = scene_ok_def scene_rows_ok_def buffers_show_def
  obtain b p where b: "updateRows_primitive WEBGL_RECT_FLOATS rb_backgrounds cs ?rows' (rs_backgrounds s) = Some (b, p)"
    "primitive_ok WEBGL_RECT_FLOATS rb_backgrounds ?rows' b"
    "\<exists>b' i. submitPrimitive p (sb_backgrounds g) = Some (b', i)
       \<and> buffer_shows (packed_rows WEBGL_RECT_FLOATS rb_backgrounds ?rows') b'"
    using update_primitive_ok [of WEBGL_RECT_FLOATS rb_backgrounds ?rows "rs_backgrounds s" cs] assms False
    unfolding defs by metis
  obtain d q where d: "updateRows_primitive WEBGL_RECT_FLOATS rb_decorations cs ?rows' (rs_decorations s) = Some (d, q)"
    "primitive_ok WEBGL_RECT_FLOATS rb_decorations ?rows' d"
    "\<exists>b' i. submitPrimitive q (sb_decorations g) = Some (b', i)
       \<and> buffer_shows (packed_rows WEBGL_RECT_FLOATS rb_decorations ?rows') b'"
    using update_primitive_ok [of WEBGL_RECT_FLOATS rb_decorations ?rows "rs_decorations s" cs] assms False
    unfolding defs by metis
  obtain c r where c: "updateRows_primitive WEBGL_GLYPH_FLOATS rb_glyphs cs ?rows' (rs_glyphs s) = Some (c, r)"
    "primitive_ok WEBGL_GLYPH_FLOATS rb_glyphs ?rows' c"
    "\<exists>b' i. submitPrimitive r (sb_glyphs g) = Some (b', i)
       \<and> buffer_shows (packed_rows WEBGL_GLYPH_FLOATS rb_glyphs ?rows') b'"
    using update_primitive_ok [of WEBGL_GLYPH_FLOATS rb_glyphs ?rows "rs_glyphs s" cs] assms False
    unfolding defs by metis
  show ?thesis
    using b d c False assms(4) put_changes_ok [OF assms(3)]
    by (auto simp: scene_updateRows_def submitScene_def put_primitives_def scene_ok_def buffers_show_def)
qed

lemma trim_row_parts:
  assumes "batch_ok WEBGL_RECT_FLOATS (rb_backgrounds row)" "batch_ok WEBGL_RECT_FLOATS (rb_decorations row)"
    "batch_ok WEBGL_GLYPH_FLOATS (rb_glyphs row)"
  shows "batch_ok WEBGL_RECT_FLOATS (rb_backgrounds (fst (trim_row row)))
    \<and> gb_count (rb_backgrounds (fst (trim_row row))) = gb_count (rb_backgrounds row)
    \<and> batch_data WEBGL_RECT_FLOATS (rb_backgrounds (fst (trim_row row))) = batch_data WEBGL_RECT_FLOATS (rb_backgrounds row)
    \<and> batch_ok WEBGL_RECT_FLOATS (rb_decorations (fst (trim_row row)))
    \<and> gb_count (rb_decorations (fst (trim_row row))) = gb_count (rb_decorations row)
    \<and> batch_data WEBGL_RECT_FLOATS (rb_decorations (fst (trim_row row))) = batch_data WEBGL_RECT_FLOATS (rb_decorations row)
    \<and> batch_ok WEBGL_GLYPH_FLOATS (rb_glyphs (fst (trim_row row)))
    \<and> gb_count (rb_glyphs (fst (trim_row row))) = gb_count (rb_glyphs row)
    \<and> batch_data WEBGL_GLYPH_FLOATS (rb_glyphs (fst (trim_row row))) = batch_data WEBGL_GLYPH_FLOATS (rb_glyphs row)"
  using batch_trim_ok [OF assms(1)] batch_trim_ok [OF assms(2)] batch_trim_ok [OF assms(3)]
  by (cases "rect_trimCapacity (rb_backgrounds row)"; cases "rect_trimCapacity (rb_decorations row)";
      cases "glyph_trimCapacity (rb_glyphs row)")
    (simp add: trim_row_def rect_trimCapacity_def glyph_trimCapacity_def)

lemma trim_rows_packed:
  assumes "\<And>row. row \<in> set rows \<Longrightarrow> batch_ok fl (select (h row)) \<and> gb_count (select (h row)) = gb_count (select row)
      \<and> batch_data fl (select (h row)) = batch_data fl (select row)"
  shows "counts_of select (map h rows) = counts_of select rows \<and> packed_rows fl select (map h rows) = packed_rows fl select rows
    \<and> (rows_ok fl select rows \<longrightarrow> rows_ok fl select (map h rows))"
proof -
  have "counts_of select (map h rows) = counts_of select rows" "packed_rows fl select (map h rows) = packed_rows fl select rows"
    using assms by (simp_all add: counts_of_def packed_rows_def cong: map_cong)
  moreover have "list_all (batch_ok fl \<circ> select) (map h rows)" using assms by (auto simp: list_all_iff)
  ultimately show ?thesis by (simp add: rows_ok_def)
qed

lemma primitive_cong:
  "counts_of select rows' = counts_of select rows \<Longrightarrow> packed_rows fl select rows' = packed_rows fl select rows \<Longrightarrow>
     primitive_ok fl select rows' s \<longleftrightarrow> primitive_ok fl select rows s"
  by (simp only: primitive_ok_def)

lemma scene_trim_ok:
  assumes "scene_ok s" "buffers_show (rs_rows s) g"
  shows "\<exists>s' n. scene_trimCapacity s = Some (s', n) \<and> scene_ok s' \<and> rs_rows s' = map (fst \<circ> trim_row) (rs_rows s)
    \<and> buffers_show (rs_rows s') (trim_buffers s' g)"
proof -
  let ?h = "fst \<circ> trim_row"
  from assms(1) have p: "primitive_ok WEBGL_RECT_FLOATS rb_backgrounds (rs_rows s) (rs_backgrounds s)"
    "primitive_ok WEBGL_RECT_FLOATS rb_decorations (rs_rows s) (rs_decorations s)"
    "primitive_ok WEBGL_GLYPH_FLOATS rb_glyphs (rs_rows s) (rs_glyphs s)"
    and r: "rows_ok WEBGL_RECT_FLOATS rb_backgrounds (rs_rows s)" "rows_ok WEBGL_RECT_FLOATS rb_decorations (rs_rows s)"
    "rows_ok WEBGL_GLYPH_FLOATS rb_glyphs (rs_rows s)" by (simp_all add: scene_ok_def scene_rows_ok_def)
  obtain b i d j c k where b: "trim_primitive WEBGL_RECT_FLOATS (rs_backgrounds s) = Some (b, i)"
      "primitive_ok WEBGL_RECT_FLOATS rb_backgrounds (rs_rows s) b"
    and d: "trim_primitive WEBGL_RECT_FLOATS (rs_decorations s) = Some (d, j)"
      "primitive_ok WEBGL_RECT_FLOATS rb_decorations (rs_rows s) d"
    and c: "trim_primitive WEBGL_GLYPH_FLOATS (rs_glyphs s) = Some (c, k)"
      "primitive_ok WEBGL_GLYPH_FLOATS rb_glyphs (rs_rows s) c"
    using trim_primitive_total [OF p(1) r(1)] trim_primitive_total [OF p(2) r(2)] trim_primitive_total [OF p(3) r(3)]
    by blast
  have ok: "batch_ok WEBGL_RECT_FLOATS (rb_backgrounds row)" "batch_ok WEBGL_RECT_FLOATS (rb_decorations row)"
    "batch_ok WEBGL_GLYPH_FLOATS (rb_glyphs row)" if "row \<in> set (rs_rows s)" for row
    using that r by (auto simp: rows_ok_def list_all_iff)
  note rows = trim_rows_packed [of "rs_rows s" WEBGL_RECT_FLOATS rb_backgrounds ?h]
    trim_rows_packed [of "rs_rows s" WEBGL_RECT_FLOATS rb_decorations ?h]
    trim_rows_packed [of "rs_rows s" WEBGL_GLYPH_FLOATS rb_glyphs ?h]
  have parts: "counts_of rb_backgrounds (map ?h (rs_rows s)) = counts_of rb_backgrounds (rs_rows s)"
    "packed_rows WEBGL_RECT_FLOATS rb_backgrounds (map ?h (rs_rows s)) = packed_rows WEBGL_RECT_FLOATS rb_backgrounds (rs_rows s)"
    "counts_of rb_decorations (map ?h (rs_rows s)) = counts_of rb_decorations (rs_rows s)"
    "packed_rows WEBGL_RECT_FLOATS rb_decorations (map ?h (rs_rows s)) = packed_rows WEBGL_RECT_FLOATS rb_decorations (rs_rows s)"
    "counts_of rb_glyphs (map ?h (rs_rows s)) = counts_of rb_glyphs (rs_rows s)"
    "packed_rows WEBGL_GLYPH_FLOATS rb_glyphs (map ?h (rs_rows s)) = packed_rows WEBGL_GLYPH_FLOATS rb_glyphs (rs_rows s)"
    "scene_rows_ok (map ?h (rs_rows s))"
    using rows trim_row_parts [OF ok] r by (simp_all add: scene_rows_ok_def)
  define s' where "s' = s\<lparr>rs_backgrounds := b, rs_decorations := d, rs_glyphs := c, rs_rows := map ?h (rs_rows s)\<rparr>"
  have "scene_ok s'"
    using parts(7) b(2) d(2) c(2) primitive_cong [OF parts(1,2)] primitive_cong [OF parts(3,4)]
      primitive_cong [OF parts(5,6)] by (simp add: scene_ok_def s'_def)
  moreover have "buffers_show (rs_rows s') (trim_buffers s' g)"
    using assms(2) parts b(2) d(2) c(2) trimGpuBuffer_shows
    by (simp add: buffers_show_def trim_buffers_def s'_def primitive_ok_def)
  ultimately show ?thesis using b(1) d(1) c(1) by (simp add: scene_trimCapacity_def s'_def)
qed

section \<open>Frames\<close>

text \<open>What the renderer does with the scene: a full frame, a frame with changed rows, giving back idle
  storage, and invalidating the scene.\<close>

datatype gl_frame =
    Gl_Full "row_batches list"
  | Gl_Changes "row_change list"
  | Gl_Trim
  | Gl_Invalidate

definition no_buffers :: scene_buffers where
  "no_buffers = \<lparr>sb_backgrounds = bufferData 0, sb_decorations = bufferData 0, sb_glyphs = bufferData 0\<rparr>"

definition submit_plan ::
  "(retained_scene \<times> scene_plan) option \<Rightarrow> scene_buffers \<Rightarrow> (retained_scene \<times> scene_buffers) option" where
  "submit_plan r g = Option.bind r (\<lambda>(s, p). map_option (\<lambda>(g', st). (s, g')) (submitScene p g))"

fun gl_step :: "gl_frame \<Rightarrow> retained_scene \<times> scene_buffers \<Rightarrow> (retained_scene \<times> scene_buffers) option" where
  "gl_step (Gl_Full rows) (s, g) = submit_plan (scene_replaceAll rows s) g"
| "gl_step (Gl_Changes cs) (s, g) = submit_plan (scene_updateRows cs s) g"
| "gl_step Gl_Trim (s, g) = map_option (\<lambda>(s', n). (s', trim_buffers s' g)) (scene_trimCapacity s)"
| "gl_step Gl_Invalidate (s, g) = Some (scene_clear s, g)"

fun gl_run :: "gl_frame list \<Rightarrow> retained_scene \<times> scene_buffers \<Rightarrow> (retained_scene \<times> scene_buffers) option" where
  "gl_run [] st = Some st"
| "gl_run (f # fs) st = Option.bind (gl_step f st) (gl_run fs)"

text \<open>The rows a frame asks for, and when it may be asked.\<close>

fun frame_rows :: "gl_frame \<Rightarrow> row_batches list \<Rightarrow> row_batches list" where
  "frame_rows (Gl_Full rows') rows = rows'"
| "frame_rows (Gl_Changes cs) rows = rows_after cs rows"
| "frame_rows Gl_Trim rows = map (fst \<circ> trim_row) rows"
| "frame_rows Gl_Invalidate rows = []"

fun frame_ok :: "gl_frame \<Rightarrow> row_batches list \<Rightarrow> bool" where
  "frame_ok (Gl_Full rows') rows \<longleftrightarrow> scene_rows_ok rows'"
| "frame_ok (Gl_Changes cs) rows \<longleftrightarrow> changes_ok (length rows) cs \<and> scene_rows_ok (rows_after cs rows)"
| "frame_ok Gl_Trim rows \<longleftrightarrow> True"
| "frame_ok Gl_Invalidate rows \<longleftrightarrow> True"

fun gl_frames_ok :: "gl_frame list \<Rightarrow> row_batches list \<Rightarrow> bool" where
  "gl_frames_ok [] rows \<longleftrightarrow> True"
| "gl_frames_ok (f # fs) rows \<longleftrightarrow> frame_ok f rows \<and> gl_frames_ok fs (frame_rows f rows)"

definition rows_of_frames :: "gl_frame list \<Rightarrow> row_batches list \<Rightarrow> row_batches list" where
  "rows_of_frames fs rows = fold frame_rows fs rows"

lemma scene_clear_ok:
  "buffers_show rows g \<Longrightarrow> scene_ok (scene_clear s) \<and> rs_rows (scene_clear s) = [] \<and> buffers_show [] g"
  by (simp add: scene_clear_def clear_primitive_def scene_ok_def primitive_ok_def scene_data_def
      scene_rows_ok_def rows_ok_def buffers_show_def buffer_shows_def WEBGL_RECT_FLOATS_def
      WEBGL_GLYPH_FLOATS_def max_safe_def)

lemma gl_step_ok:
  assumes "scene_ok s" "buffers_show (rs_rows s) g" "frame_ok f (rs_rows s)"
  shows "\<exists>s' g'. gl_step f (s, g) = Some (s', g') \<and> scene_ok s' \<and> rs_rows s' = frame_rows f (rs_rows s)
    \<and> buffers_show (rs_rows s') g'"
proof (cases f)
  case (Gl_Full rows)
  with assms scene_replaceAll_ok [of rows "rs_rows s" g s] show ?thesis by (auto simp: submit_plan_def)
next
  case (Gl_Changes cs)
  with assms scene_updateRows_ok [of s g cs] show ?thesis by (auto simp: submit_plan_def)
next
  case Gl_Trim
  with assms scene_trim_ok [of s g] show ?thesis by auto
next
  case Gl_Invalidate
  with assms scene_clear_ok [of "rs_rows s" g s] show ?thesis by auto
qed

lemma gl_run_ok:
  "scene_ok s \<Longrightarrow> buffers_show (rs_rows s) g \<Longrightarrow> gl_frames_ok fs (rs_rows s) \<Longrightarrow>
     \<exists>s' g'. gl_run fs (s, g) = Some (s', g') \<and> scene_ok s' \<and> rs_rows s' = rows_of_frames fs (rs_rows s)
       \<and> buffers_show (rs_rows s') g'"
proof (induction fs arbitrary: s g)
  case (Cons f fs)
  from gl_step_ok [of s g f] Cons.prems obtain s1 g1 where
    step: "gl_step f (s, g) = Some (s1, g1)" "scene_ok s1" "rs_rows s1 = frame_rows f (rs_rows s)"
    "buffers_show (rs_rows s1) g1" by auto
  with Cons.IH [OF step(2,4)] Cons.prems show ?case by (auto simp: rows_of_frames_def)
qed (simp add: rows_of_frames_def)

lemma no_buffers_show: "buffers_show [] no_buffers"
  by (simp add: buffers_show_def no_buffers_def buffer_shows_def bufferData_def buffer_ok_def)

text \<open>
  C4: The graphics card always holds what the rows say. From a new renderer, through any sequence of full
  frames, frames that change some rows, idle trims and invalidations, no operation throws, and after
  each the three buffers begin with the instances of all rows in order, although a frame with
  changes uploads only the ranges that were touched.
\<close>

theorem scene_shows_rows:
  assumes "gl_frames_ok fs []"
  shows "\<exists>s g. gl_run fs (newRetainedScene, no_buffers) = Some (s, g)
    \<and> rs_rows s = rows_of_frames fs []
    \<and> ps_count (rs_backgrounds s) = sum_list (counts_of rb_backgrounds (rs_rows s))
    \<and> ps_count (rs_decorations s) = sum_list (counts_of rb_decorations (rs_rows s))
    \<and> ps_count (rs_glyphs s) = sum_list (counts_of rb_glyphs (rs_rows s))
    \<and> buffers_show (rs_rows s) g"
proof -
  have "rs_rows newRetainedScene = []" by (simp add: newRetainedScene_def)
  with gl_run_ok [OF new_scene_ok, of no_buffers fs] no_buffers_show assms
  obtain s g where "gl_run fs (newRetainedScene, no_buffers) = Some (s, g)" "scene_ok s"
    "rs_rows s = rows_of_frames fs []" "buffers_show (rs_rows s) g" by auto
  then show ?thesis by (auto simp: scene_ok_def primitive_ok_def)
qed

definition sample_rects :: "rat \<Rightarrow> gl_batch" where
  "sample_rects x = \<lparr>gb_maximum = 2, gb_values = replicate 8 (Fin x) @ replicate 8 zero_float, gb_count = 1\<rparr>"

definition sample_row :: "rat \<Rightarrow> row_batches" where
  "sample_row x = \<lparr>rb_backgrounds = sample_rects x,
     rb_decorations = \<lparr>gb_maximum = 0, gb_values = [], gb_count = 0\<rparr>,
     rb_glyphs = \<lparr>gb_maximum = 0, gb_values = [], gb_count = 0\<rparr>\<rparr>"

definition sample_gl_frames :: "gl_frame list" where
  "sample_gl_frames = [Gl_Full [sample_row 1, sample_row 2],
     Gl_Changes [\<lparr>rc_row = 1, rc_batches = sample_row 3\<rparr>], Gl_Trim]"

lemma sample_gl_frames_ok: "gl_frames_ok sample_gl_frames []"
  by code_simp

lemma sample_gl_rows:
  "packed_rows WEBGL_RECT_FLOATS rb_backgrounds (rows_of_frames sample_gl_frames []) = replicate 8 (Fin 1) @ replicate 8 (Fin 3)"
  by code_simp

theorem scene_shows_rows_witness:
  "\<exists>s g. gl_run sample_gl_frames (newRetainedScene, no_buffers) = Some (s, g)
    \<and> take 16 (bf_contents (sb_backgrounds g)) = replicate 8 (Fin 1) @ replicate 8 (Fin 3)"
proof -
  from scene_shows_rows [OF sample_gl_frames_ok] obtain s g where
    run: "gl_run sample_gl_frames (newRetainedScene, no_buffers) = Some (s, g)"
    and "rs_rows s = rows_of_frames sample_gl_frames []" "buffers_show (rs_rows s) g" by blast
  then have "buffer_shows (replicate 8 (Fin 1) @ replicate 8 (Fin 3)) (sb_backgrounds g)"
    by (simp only: buffers_show_def sample_gl_rows)
  then have "take 16 (bf_contents (sb_backgrounds g)) = replicate 8 (Fin 1) @ replicate 8 (Fin 3)"
    unfolding buffer_shows_def by (elim conjE) (simp only: length_append length_replicate, simp)
  with run show ?thesis by blast
qed

end
