(* ===== verification/Glyph_Atlas.thy ===== *)
theory Glyph_Atlas
  imports Gl_Batches
begin

text \<open>
  The glyph atlas of the WebGL renderer,
  \<^verbatim>\<open>packages/ghostty-react/src/renderers/webgl2/glyph-atlas.ts\<close>: glyphs are drawn once into a
  texture, in shelves from the top, and found again under a key; when the texture is full the atlas
  forgets everything and begins again, with a new generation.

  The texture is a function from pixels to what was drawn there: a pixel of the canvas of a key. The
  key is the tuple that the code joins with NUL characters, which no font family contains. Metrics and
  pixel ratio are finite. Whether a text has a pictograph is a table of the platform and an argument.
  Creating a canvas or a texture succeeds. A call that throws gives \<open>None\<close>.
\<close>

section \<open>State\<close>

definition ATLAS_PADDING :: nat where
  "ATLAS_PADDING = 2"

definition DEFAULT_ATLAS_SIZE :: nat where
  "DEFAULT_ATLAS_SIZE = 1024"

definition MAX_SCRATCH_CANVASES :: nat where
  "MAX_SCRATCH_CANVASES = 4"

record atlas_entry =
  ae_u0 :: rat
  ae_v0 :: rat
  ae_u1 :: rat
  ae_v1 :: rat
  ae_colorGlyph :: bool

record cell_metrics =
  cm_width :: rat
  cm_height :: rat
  cm_baseline :: rat

record glyph_request =
  gr_text :: utf16
  gr_cellSpan :: nat
  gr_metrics :: cell_metrics
  gr_family :: string
  gr_size :: rat
  gr_bold :: bool
  gr_italic :: bool
  gr_pixelRatio :: rat

record glyph_key =
  gk_family :: string
  gk_size :: rat
  gk_weight :: nat
  gk_italic :: bool
  gk_pixelRatio :: rat
  gk_cellSpan :: nat
  gk_color :: bool
  gk_text :: utf16

record drawn_pixel =
  dp_key :: glyph_key
  dp_x :: nat
  dp_y :: nat

record glyph_atlas =
  at_size :: nat
  at_entries :: "(glyph_key, atlas_entry) jsmap"
  at_scratch :: "(nat, nat \<times> nat) jsmap"
  at_nextX :: nat
  at_nextY :: nat
  at_shelfHeight :: nat
  at_generation :: nat
  at_uploads :: nat
  at_resets :: nat
  at_allocatedBytes :: nat
  at_texture :: "nat \<times> nat \<Rightarrow> drawn_pixel option"

section \<open>Operations\<close>

definition allocateTexture :: "glyph_atlas \<Rightarrow> glyph_atlas" where
  "allocateTexture a = a\<lparr>at_texture := (\<lambda>p. None), at_allocatedBytes := at_size a * at_size a * 4\<rparr>"

definition newGlyphAtlas :: "nat \<Rightarrow> nat \<Rightarrow> glyph_atlas" where
  "newGlyphAtlas maximumSize maxTextureSize =
     allocateTexture \<lparr>at_size = max 256 (min maximumSize maxTextureSize), at_entries = [], at_scratch = [],
       at_nextX = 0, at_nextY = 0, at_shelfHeight = 0, at_generation = 1, at_uploads = 0, at_resets = 0,
       at_allocatedBytes = 0, at_texture = (\<lambda>p. None)\<rparr>"

definition scratchAllocatedBytes :: "glyph_atlas \<Rightarrow> nat" where
  "scratchAllocatedBytes a = sum_list (map (\<lambda>c. fst c * snd c * 4) (map_values (at_scratch a)))"

definition occupancy :: "glyph_atlas \<Rightarrow> rat" where
  "occupancy a = of_nat (at_nextY a * at_size a + at_nextX a * max 1 (at_shelfHeight a)) / of_nat (at_size a * at_size a)"

definition atlas_clear :: "glyph_atlas \<Rightarrow> glyph_atlas" where
  "atlas_clear a = allocateTexture (a\<lparr>at_entries := [], at_nextX := 0, at_nextY := 0, at_shelfHeight := 0,
     at_generation := at_generation a + 1\<rparr>)"

definition resetForPressure :: "glyph_atlas \<Rightarrow> glyph_atlas" where
  "resetForPressure a = atlas_clear (a\<lparr>at_resets := at_resets a + 1\<rparr>)"

definition trimScratch :: "glyph_atlas \<Rightarrow> glyph_atlas \<times> nat" where
  "trimScratch a = (a\<lparr>at_scratch := []\<rparr>, scratchAllocatedBytes a)"

definition dispose_atlas :: "glyph_atlas \<Rightarrow> glyph_atlas" where
  "dispose_atlas a = a\<lparr>at_entries := [], at_scratch := [], at_allocatedBytes := 0\<rparr>"

text \<open>\<open>Math.ceil(Math.log2(n))\<close> of a positive integer.\<close>

definition ceil_log2 :: "nat \<Rightarrow> nat" where
  "ceil_log2 n = bit_length (n - 1)"

definition scratchFor :: "nat \<Rightarrow> nat \<Rightarrow> glyph_atlas \<Rightarrow> glyph_atlas \<times> nat \<times> nat" where
  "scratchFor width height a =
     (let bucket = min (MAX_SCRATCH_CANVASES - 1) (ceil_log2 width - 4) in
      case map_of (at_scratch a) bucket of
        Some (w, h) \<Rightarrow>
          if width \<le> w \<and> height \<le> h then (a, w, h)
          else let c = (max width w, max height h) in (a\<lparr>at_scratch := map_set bucket c (at_scratch a)\<rparr>, c)
      | None \<Rightarrow> (a\<lparr>at_scratch := map_set bucket (width, height) (at_scratch a)\<rparr>, width, height))"

definition key_of :: "(utf16 \<Rightarrow> bool) \<Rightarrow> glyph_request \<Rightarrow> glyph_key" where
  "key_of pictograph o' = \<lparr>gk_family = gr_family o', gk_size = gr_size o', gk_weight = (if gr_bold o' then 700 else 400),
     gk_italic = gr_italic o', gk_pixelRatio = gr_pixelRatio o', gk_cellSpan = gr_cellSpan o',
     gk_color = pictograph (gr_text o'), gk_text = gr_text o'\<rparr>"

text \<open>The shelf on which a canvas of this size goes, after a reset when none has room.\<close>

definition next_shelf :: "nat \<Rightarrow> glyph_atlas \<Rightarrow> glyph_atlas" where
  "next_shelf width a =
     (if at_size a < at_nextX a + width
      then a\<lparr>at_nextX := 0, at_nextY := at_nextY a + at_shelfHeight a, at_shelfHeight := 0\<rparr> else a)"

definition make_room :: "nat \<Rightarrow> nat \<Rightarrow> glyph_atlas \<Rightarrow> glyph_atlas" where
  "make_room width height a =
     (let b = next_shelf width a in if at_size b < at_nextY b + height then resetForPressure b else b)"

text \<open>\<open>texSubImage2D\<close> of a canvas on which the glyph of \<open>key\<close> was drawn.\<close>

definition upload_canvas ::
  "glyph_key \<Rightarrow> nat \<Rightarrow> nat \<Rightarrow> nat \<Rightarrow> nat \<Rightarrow> (nat \<times> nat \<Rightarrow> drawn_pixel option) \<Rightarrow> (nat \<times> nat \<Rightarrow> drawn_pixel option)" where
  "upload_canvas key x y width height t =
     (\<lambda>(px, py). if x \<le> px \<and> px < x + width \<and> y \<le> py \<and> py < y + height
        then Some \<lparr>dp_key = key, dp_x = px - x, dp_y = py - y\<rparr> else t (px, py))"

definition place_glyph ::
  "glyph_key \<Rightarrow> nat \<Rightarrow> nat \<Rightarrow> nat \<Rightarrow> nat \<Rightarrow> glyph_atlas \<Rightarrow> glyph_atlas \<times> atlas_entry" where
  "place_glyph key width height canvasWidth canvasHeight a =
     (let x = at_nextX a; y = at_nextY a; n = of_nat (at_size a);
          entry = \<lparr>ae_u0 = of_nat (x + ATLAS_PADDING) / n, ae_v0 = of_nat (y + ATLAS_PADDING) / n,
            ae_u1 = of_nat (x + ATLAS_PADDING + width) / n, ae_v1 = of_nat (y + ATLAS_PADDING + height) / n,
            ae_colorGlyph = gk_color key\<rparr>
      in (a\<lparr>at_texture := upload_canvas key x y canvasWidth canvasHeight (at_texture a),
            at_uploads := at_uploads a + 1, at_entries := map_set key entry (at_entries a),
            at_nextX := x + canvasWidth, at_shelfHeight := max (at_shelfHeight a) canvasHeight\<rparr>, entry))"

definition pixels :: "rat \<Rightarrow> nat" where
  "pixels q = nat (max 1 \<lceil>q\<rceil>)"

definition atlas_get :: "(utf16 \<Rightarrow> bool) \<Rightarrow> glyph_request \<Rightarrow> glyph_atlas \<Rightarrow> (glyph_atlas \<times> atlas_entry) option" where
  "atlas_get pictograph o' a =
     (let key = key_of pictograph o' in
      case map_of (at_entries a) key of
        Some cached \<Rightarrow> Some (a\<lparr>at_entries := map_set key cached (map_delete key (at_entries a))\<rparr>, cached)
      | None \<Rightarrow>
          let width = pixels (cm_width (gr_metrics o') * of_nat (gr_cellSpan o') * gr_pixelRatio o');
              height = pixels (cm_height (gr_metrics o') * gr_pixelRatio o');
              atlasWidth = width + ATLAS_PADDING * 2;
              atlasHeight = height + ATLAS_PADDING * 2
          in if at_size a < atlasWidth \<or> at_size a < atlasHeight then None
             else let (b, canvasWidth, canvasHeight) = scratchFor atlasWidth atlasHeight a
                  in Some (place_glyph key width height canvasWidth canvasHeight
                       (make_room canvasWidth canvasHeight b)))"

section \<open>What the atlas guarantees\<close>

text \<open>A pixel that is sampled through an entry, and the drawing it should show.\<close>

definition sampled :: "nat \<Rightarrow> atlas_entry \<Rightarrow> nat \<Rightarrow> nat \<Rightarrow> bool" where
  "sampled n e px py \<longleftrightarrow> ae_u0 e * of_nat n \<le> of_nat px \<and> of_nat px < ae_u1 e * of_nat n
     \<and> ae_v0 e * of_nat n \<le> of_nat py \<and> of_nat py < ae_v1 e * of_nat n"

definition entry_shows :: "glyph_atlas \<Rightarrow> glyph_key \<Rightarrow> atlas_entry \<Rightarrow> bool" where
  "entry_shows a key e \<longleftrightarrow>
     (\<forall>px py. sampled (at_size a) e px py \<longrightarrow>
        (\<exists>p. at_texture a (px, py) = Some p \<and> dp_key p = key
           \<and> of_nat (dp_x p) = of_nat px - ae_u0 e * of_nat (at_size a) + of_nat ATLAS_PADDING
           \<and> of_nat (dp_y p) = of_nat py - ae_v0 e * of_nat (at_size a) + of_nat ATLAS_PADDING))"

text \<open>Entries come from a place on a shelf that is already used.\<close>

definition entry_at :: "nat \<Rightarrow> nat \<Rightarrow> nat \<Rightarrow> nat \<Rightarrow> nat \<Rightarrow> atlas_entry \<Rightarrow> bool" where
  "entry_at n x y w h e \<longleftrightarrow> ae_u0 e = of_nat (x + ATLAS_PADDING) / of_nat n
     \<and> ae_v0 e = of_nat (y + ATLAS_PADDING) / of_nat n
     \<and> ae_u1 e = of_nat (x + ATLAS_PADDING + w) / of_nat n
     \<and> ae_v1 e = of_nat (y + ATLAS_PADDING + h) / of_nat n"

definition used_area :: "glyph_atlas \<Rightarrow> nat \<Rightarrow> nat \<Rightarrow> nat \<Rightarrow> nat \<Rightarrow> bool" where
  "used_area a x y w h \<longleftrightarrow> x + w \<le> at_size a \<and>
     (y + h \<le> at_nextY a \<or> x + w \<le> at_nextX a \<and> y + h \<le> at_nextY a + at_shelfHeight a)"

definition placed_ok :: "glyph_atlas \<Rightarrow> glyph_key \<Rightarrow> atlas_entry \<Rightarrow> bool" where
  "placed_ok a key e \<longleftrightarrow>
     (\<exists>x y w h. entry_at (at_size a) x y w h e \<and> 0 < w \<and> 0 < h
        \<and> used_area a x y (w + 2 * ATLAS_PADDING) (h + 2 * ATLAS_PADDING)
        \<and> (\<forall>px py. x \<le> px \<and> px < x + w + 2 * ATLAS_PADDING \<and> y \<le> py \<and> py < y + h + 2 * ATLAS_PADDING \<longrightarrow>
             at_texture a (px, py) = Some \<lparr>dp_key = key, dp_x = px - x, dp_y = py - y\<rparr>))"

definition atlas_ok :: "glyph_atlas \<Rightarrow> bool" where
  "atlas_ok a \<longleftrightarrow> 0 < at_size a \<and> map_ok (at_entries a)
     \<and> at_nextX a \<le> at_size a \<and> at_nextY a + at_shelfHeight a \<le> at_size a
     \<and> list_all (\<lambda>(b, w, h). w \<le> at_size a \<and> h \<le> at_size a) (at_scratch a)
     \<and> list_all (\<lambda>(k, e). placed_ok a k e) (at_entries a)"

lemma used_area_mono:
  "used_area a x y w h \<Longrightarrow> at_size b = at_size a \<Longrightarrow> at_nextY a \<le> at_nextY b \<Longrightarrow>
     at_nextY a + at_shelfHeight a \<le> at_nextY b
     \<or> at_nextX a \<le> at_nextX b \<and> at_nextY a = at_nextY b \<and> at_shelfHeight a \<le> at_shelfHeight b \<Longrightarrow>
     used_area b x y w h"
  by (auto simp: used_area_def)

lemma placed_mono:
  assumes "placed_ok a k e" "at_size b = at_size a" "at_nextY a \<le> at_nextY b"
    "at_nextY a + at_shelfHeight a \<le> at_nextY b
     \<or> at_nextX a \<le> at_nextX b \<and> at_nextY a = at_nextY b \<and> at_shelfHeight a \<le> at_shelfHeight b"
    "\<And>x y w h px py. used_area a x y w h \<Longrightarrow> x \<le> px \<Longrightarrow> px < x + w \<Longrightarrow> y \<le> py \<Longrightarrow> py < y + h \<Longrightarrow>
       at_texture b (px, py) = at_texture a (px, py)"
  shows "placed_ok b k e"
proof -
  from assms(1) obtain x y w h where p: "entry_at (at_size a) x y w h e" "0 < w" "0 < h"
    "used_area a x y (w + 2 * ATLAS_PADDING) (h + 2 * ATLAS_PADDING)"
    "\<And>px py. x \<le> px \<Longrightarrow> px < x + w + 2 * ATLAS_PADDING \<Longrightarrow> y \<le> py \<Longrightarrow> py < y + h + 2 * ATLAS_PADDING \<Longrightarrow>
       at_texture a (px, py) = Some \<lparr>dp_key = k, dp_x = px - x, dp_y = py - y\<rparr>"
    unfolding placed_ok_def by blast
  have "used_area b x y (w + 2 * ATLAS_PADDING) (h + 2 * ATLAS_PADDING)"
    using used_area_mono [OF p(4) assms(2-4)] .
  moreover have "at_texture b (px, py) = Some \<lparr>dp_key = k, dp_x = px - x, dp_y = py - y\<rparr>"
    if "x \<le> px" "px < x + w + 2 * ATLAS_PADDING" "y \<le> py" "py < y + h + 2 * ATLAS_PADDING" for px py
    using p(5) [OF that] assms(5) [OF p(4) that(1)] that by (simp add: add.assoc)
  ultimately show ?thesis
    unfolding placed_ok_def using p(1-3) assms(2) by (intro exI [of _ x] exI [of _ y] exI [of _ w] exI [of _ h]) auto
qed

lemma clear_ok: "0 < at_size a \<Longrightarrow> list_all (\<lambda>(b, w, h). w \<le> at_size a \<and> h \<le> at_size a) (at_scratch a) \<Longrightarrow> atlas_ok (atlas_clear a)"
  by (simp add: atlas_ok_def atlas_clear_def allocateTexture_def)

lemma new_atlas_ok: "atlas_ok (newGlyphAtlas m t)"
  by (simp add: atlas_ok_def newGlyphAtlas_def allocateTexture_def)

lemma trimScratch_ok: "atlas_ok a \<Longrightarrow> atlas_ok (fst (trimScratch a))"
  by (simp add: atlas_ok_def trimScratch_def placed_ok_def used_area_def)

lemma scratchFor_ok:
  assumes "atlas_ok a" "width \<le> at_size a" "height \<le> at_size a" "scratchFor width height a = (b, w, h)"
  shows "\<exists>s. b = a\<lparr>at_scratch := s\<rparr> \<and> list_all (\<lambda>(b, w, h). w \<le> at_size a \<and> h \<le> at_size a) s
    \<and> width \<le> w \<and> w \<le> at_size a \<and> height \<le> h \<and> h \<le> at_size a"
proof -
  let ?k = "min (MAX_SCRATCH_CANVASES - 1) (ceil_log2 width - 4)"
  let ?ok = "\<lambda>(b :: nat, w, h). w \<le> at_size a \<and> h \<le> at_size a"
  have s: "\<And>x. x \<in> set (at_scratch a) \<Longrightarrow> ?ok x" using assms(1) by (auto simp: atlas_ok_def list_all_iff)
  have put: "list_all ?ok (map_set ?k c (at_scratch a))" if "fst c \<le> at_size a" "snd c \<le> at_size a" for c
    using that s set_map_set [of ?k c "at_scratch a"] by (auto simp: list_all_iff split_beta)
  show ?thesis
  proof (cases "map_of (at_scratch a) ?k")
    case None
    then have "b = a\<lparr>at_scratch := map_set ?k (width, height) (at_scratch a)\<rparr>" "w = width" "h = height"
      using assms(4) by (auto simp: scratchFor_def Let_def)
    then show ?thesis using put [of "(width, height)"] assms(2,3) by auto
  next
    case (Some c)
    have c: "fst c \<le> at_size a" "snd c \<le> at_size a" using s [OF map_of_SomeD [OF Some]] by (auto simp: split_beta)
    show ?thesis
    proof (cases "width \<le> fst c \<and> height \<le> snd c")
      case True
      then have "b = a" "w = fst c" "h = snd c" using assms(4) Some by (auto simp: scratchFor_def Let_def split_beta)
      then show ?thesis using True c assms(1) by (auto simp: atlas_ok_def intro!: exI [of _ "at_scratch a"])
    next
      case False
      then have "b = a\<lparr>at_scratch := map_set ?k (max width (fst c), max height (snd c)) (at_scratch a)\<rparr>"
        "w = max width (fst c)" "h = max height (snd c)"
        using assms(4) Some by (auto simp: scratchFor_def Let_def split_beta)
      then show ?thesis using put [of "(max width (fst c), max height (snd c))"] c assms(2,3) by auto
    qed
  qed
qed

lemma next_shelf_ok: "atlas_ok a \<Longrightarrow> w \<le> at_size a \<Longrightarrow>
  atlas_ok (next_shelf w a) \<and> at_nextX (next_shelf w a) + w \<le> at_size a"
proof -
  assume a: "atlas_ok a" and w: "w \<le> at_size a"
  show ?thesis
  proof (cases "at_size a < at_nextX a + w")
    case True
    let ?b = "a\<lparr>at_nextX := 0, at_nextY := at_nextY a + at_shelfHeight a, at_shelfHeight := 0\<rparr>"
    have b: "next_shelf w a = ?b" using True by (simp add: next_shelf_def)
    have "placed_ok ?b k e" if "placed_ok a k e" for k e
      by (rule placed_mono [OF that]) simp_all
    then show ?thesis using a w unfolding b by (auto simp: atlas_ok_def list_all_iff)
  qed (use a in \<open>simp add: next_shelf_def\<close>)
qed

lemma next_shelf_frame [simp]:
  "at_size (next_shelf w a) = at_size a" "at_entries (next_shelf w a) = at_entries a"
  "at_scratch (next_shelf w a) = at_scratch a" "at_generation (next_shelf w a) = at_generation a"
  by (simp_all add: next_shelf_def)

lemma make_room_ok:
  assumes "atlas_ok a" "w \<le> at_size a" "h \<le> at_size a"
  shows "atlas_ok (make_room w h a) \<and> at_size (make_room w h a) = at_size a
    \<and> at_nextX (make_room w h a) + w \<le> at_size a \<and> at_nextY (make_room w h a) + h \<le> at_size a
    \<and> (at_generation (make_room w h a) = at_generation a \<and> at_entries (make_room w h a) = at_entries a
       \<or> at_generation (make_room w h a) = at_generation a + 1 \<and> at_entries (make_room w h a) = [])"
proof -
  note s = next_shelf_ok [OF assms(1,2)]
  show ?thesis
  proof (cases "at_size a < at_nextY (next_shelf w a) + h")
    case True
    have "atlas_ok (resetForPressure (next_shelf w a))"
      unfolding resetForPressure_def using s by (intro clear_ok) (auto simp: atlas_ok_def)
    then show ?thesis using True assms by (simp add: make_room_def Let_def resetForPressure_def atlas_clear_def allocateTexture_def)
  qed (use s in \<open>simp add: make_room_def Let_def\<close>)
qed

lemma place_glyph_ok:
  assumes a: "atlas_ok a" and room: "at_nextX a + cw \<le> at_size a" "at_nextY a + ch \<le> at_size a"
    and size: "0 < w" "0 < h" "w + 2 * ATLAS_PADDING \<le> cw" "h + 2 * ATLAS_PADDING \<le> ch"
    and place: "place_glyph key w h cw ch a = (b, e)"
  shows "atlas_ok b \<and> placed_ok b key e \<and> at_size b = at_size a \<and> at_generation b = at_generation a
    \<and> at_entries b = map_set key e (at_entries a)"
proof -
  let ?x = "at_nextX a" and ?y = "at_nextY a"
  have e: "entry_at (at_size a) ?x ?y w h e"
    and b: "b = a\<lparr>at_texture := upload_canvas key ?x ?y cw ch (at_texture a), at_uploads := at_uploads a + 1,
      at_entries := map_set key e (at_entries a), at_nextX := ?x + cw, at_shelfHeight := max (at_shelfHeight a) ch\<rparr>"
    using place by (auto simp: place_glyph_def Let_def entry_at_def)
  have new: "placed_ok b key e"
    unfolding placed_ok_def using e room size
    by (intro exI [of _ ?x] exI [of _ ?y] exI [of _ w] exI [of _ h]) (auto simp: b used_area_def upload_canvas_def)
  have old: "placed_ok b k f" if "placed_ok a k f" for k f
    by (rule placed_mono [OF that]) (auto simp: b used_area_def upload_canvas_def)
  have entries: "at_entries b = map_set key e (at_entries a)" by (simp add: b)
  have "placed_ok b k f" if "(k, f) \<in> set (at_entries b)" for k f
    using that a new old set_map_set [of key e "at_entries a"]
    unfolding entries atlas_ok_def list_all_iff by blast
  then have "list_all (\<lambda>(k, f). placed_ok b k f) (at_entries b)" by (simp add: list_all_iff split_beta)
  moreover have "at_nextY a + max (at_shelfHeight a) ch \<le> at_size a"
    using a room(2) by (simp add: atlas_ok_def max_def)
  ultimately have "atlas_ok b" using a room(1) by (simp add: atlas_ok_def b)
  with new show ?thesis by (simp add: b)
qed

lemma placed_shows: "0 < at_size a \<Longrightarrow> placed_ok a k e \<Longrightarrow> entry_shows a k e"
proof -
  assume size: "0 < at_size a" and placed: "placed_ok a k e"
  then obtain x y w h where p: "entry_at (at_size a) x y w h e"
    "\<And>px py. x \<le> px \<Longrightarrow> px < x + w + 2 * ATLAS_PADDING \<Longrightarrow> y \<le> py \<Longrightarrow> py < y + h + 2 * ATLAS_PADDING \<Longrightarrow>
       at_texture a (px, py) = Some \<lparr>dp_key = k, dp_x = px - x, dp_y = py - y\<rparr>"
    unfolding placed_ok_def by blast
  have uv: "ae_u0 e * of_nat (at_size a) = of_nat (x + ATLAS_PADDING)" "ae_v0 e * of_nat (at_size a) = of_nat (y + ATLAS_PADDING)"
    "ae_u1 e * of_nat (at_size a) = of_nat (x + ATLAS_PADDING + w)" "ae_v1 e * of_nat (at_size a) = of_nat (y + ATLAS_PADDING + h)"
    using p(1) size by (simp_all add: entry_at_def)
  show ?thesis
    unfolding entry_shows_def
  proof (intro allI impI)
    fix px py assume s: "sampled (at_size a) e px py"
    then have r: "x + ATLAS_PADDING \<le> px" "px < x + ATLAS_PADDING + w" "y + ATLAS_PADDING \<le> py" "py < y + ATLAS_PADDING + h"
      unfolding sampled_def uv of_nat_le_iff of_nat_less_iff by auto
    then have "at_texture a (px, py) = Some \<lparr>dp_key = k, dp_x = px - x, dp_y = py - y\<rparr>"
      by (intro p(2)) auto
    moreover have "(of_nat (px - x) :: rat) = of_nat px - of_nat (x + ATLAS_PADDING) + of_nat ATLAS_PADDING"
      "(of_nat (py - y) :: rat) = of_nat py - of_nat (y + ATLAS_PADDING) + of_nat ATLAS_PADDING"
      using r by (simp_all add: of_nat_diff)
    ultimately show "\<exists>p. at_texture a (px, py) = Some p \<and> dp_key p = k
        \<and> of_nat (dp_x p) = of_nat px - ae_u0 e * of_nat (at_size a) + of_nat ATLAS_PADDING
        \<and> of_nat (dp_y p) = of_nat py - ae_v0 e * of_nat (at_size a) + of_nat ATLAS_PADDING"
      unfolding uv by simp
  qed
qed

lemma pixels_pos: "0 < pixels q"
  by (simp add: pixels_def)

definition keeps_entries :: "glyph_atlas \<Rightarrow> glyph_atlas \<Rightarrow> bool" where
  "keeps_entries a b \<longleftrightarrow> at_generation a \<le> at_generation b \<and>
     (at_generation b = at_generation a \<longrightarrow>
        (\<forall>k e. map_of (at_entries a) k = Some e \<longrightarrow> map_of (at_entries b) k = Some e))"

lemma atlas_get_ok:
  assumes a: "atlas_ok a" and get: "atlas_get pictograph r a = Some (b, e)"
  shows "atlas_ok b \<and> at_size b = at_size a \<and> map_of (at_entries b) (key_of pictograph r) = Some e \<and> keeps_entries a b"
proof (cases "map_of (at_entries a) (key_of pictograph r)")
  case (Some cached)
  let ?k = "key_of pictograph r"
  from Some get have b: "b = a\<lparr>at_entries := map_set ?k cached (map_delete ?k (at_entries a))\<rparr>" "e = cached"
    by (auto simp: atlas_get_def Let_def)
  have same: "map_of (at_entries b) = map_of (at_entries a)"
    using Some by (auto simp: b jsmap fun_eq_iff)
  have mok: "map_ok (at_entries a)" "map_ok (at_entries b)" using a by (auto simp: atlas_ok_def b)
  have "set (at_entries b) = set (at_entries a)"
    using map_of_eq_Some_iff [OF mok(1)] map_of_eq_Some_iff [OF mok(2)] same by auto
  moreover have "placed_ok b = placed_ok a" by (simp add: b placed_ok_def used_area_def fun_eq_iff)
  ultimately have "atlas_ok b" using a mok by (simp add: atlas_ok_def list_all_iff) (simp add: b)
  moreover have "at_generation b = at_generation a" "at_size b = at_size a" by (simp_all add: b)
  ultimately show ?thesis using Some same b(2) by (simp add: keeps_entries_def)
next
  case None
  let ?k = "key_of pictograph r"
  let ?w = "pixels (cm_width (gr_metrics r) * of_nat (gr_cellSpan r) * gr_pixelRatio r)"
  let ?h = "pixels (cm_height (gr_metrics r) * gr_pixelRatio r)"
  obtain s cw ch where sc: "scratchFor (?w + ATLAS_PADDING * 2) (?h + ATLAS_PADDING * 2) a = (s, cw, ch)"
    by (metis prod_cases3)
  from None get sc have fit: "?w + ATLAS_PADDING * 2 \<le> at_size a" "?h + ATLAS_PADDING * 2 \<le> at_size a"
    and place: "place_glyph ?k ?w ?h cw ch (make_room cw ch s) = (b, e)"
    by (auto simp: atlas_get_def Let_def split: if_splits)
  from scratchFor_ok [OF a fit sc] obtain m where s: "s = a\<lparr>at_scratch := m\<rparr>"
    "list_all (\<lambda>(b, w, h). w \<le> at_size a \<and> h \<le> at_size a) m"
    "?w + ATLAS_PADDING * 2 \<le> cw" "cw \<le> at_size a" "?h + ATLAS_PADDING * 2 \<le> ch" "ch \<le> at_size a" by blast
  have "placed_ok s = placed_ok a" by (simp add: s(1) placed_ok_def used_area_def fun_eq_iff)
  then have ok: "atlas_ok s" using a s(2) by (simp add: atlas_ok_def s(1))
  have frame: "at_size s = at_size a" "at_generation s = at_generation a" "at_entries s = at_entries a"
    by (simp_all add: s(1))
  have "cw \<le> at_size s" "ch \<le> at_size s" using s(4,6) frame by simp_all
  note room = make_room_ok [OF ok this]
  have p: "atlas_ok b \<and> placed_ok b ?k e \<and> at_size b = at_size (make_room cw ch s)
      \<and> at_generation b = at_generation (make_room cw ch s) \<and> at_entries b = map_set ?k e (at_entries (make_room cw ch s))"
    using room s(3,5) pixels_pos by (intro place_glyph_ok [OF _ _ _ _ _ _ _ place]) auto
  have "map_of (at_entries b) ?k = Some e" using p by (simp add: jsmap)
  moreover have "keeps_entries a b"
    using room p None frame by (auto simp: keeps_entries_def jsmap)
  ultimately show ?thesis using p room frame by simp
qed

section \<open>Runs\<close>

text \<open>A call of \<open>get\<close> that throws leaves the atlas alone.\<close>

datatype atlas_op = At_Get glyph_request | At_Clear | At_Trim

fun atlas_do :: "(utf16 \<Rightarrow> bool) \<Rightarrow> atlas_op \<Rightarrow> glyph_atlas \<Rightarrow> glyph_atlas" where
  "atlas_do pictograph (At_Get r) a = (case atlas_get pictograph r a of Some (b, e) \<Rightarrow> b | None \<Rightarrow> a)"
| "atlas_do pictograph At_Clear a = atlas_clear a"
| "atlas_do pictograph At_Trim a = fst (trimScratch a)"

definition atlas_after :: "(utf16 \<Rightarrow> bool) \<Rightarrow> atlas_op list \<Rightarrow> nat \<Rightarrow> nat \<Rightarrow> glyph_atlas" where
  "atlas_after pictograph ops maximumSize maxTextureSize =
     fold (atlas_do pictograph) ops (newGlyphAtlas maximumSize maxTextureSize)"

lemma atlas_do_ok: "atlas_ok a \<Longrightarrow> atlas_ok (atlas_do pictograph op a)"
proof (cases op)
  case (At_Get r)
  assume "atlas_ok a"
  then show ?thesis using At_Get atlas_get_ok by (auto split: option.split)
next
  case At_Clear
  assume "atlas_ok a"
  then show ?thesis using At_Clear clear_ok [of a] by (simp add: atlas_ok_def)
next
  case At_Trim
  assume "atlas_ok a"
  then show ?thesis using At_Trim trimScratch_ok by simp
qed

lemma atlas_after_ok: "atlas_ok (atlas_after pictograph ops m t)"
proof -
  have "atlas_ok a \<Longrightarrow> atlas_ok (fold (atlas_do pictograph) ops a)" for a
    by (induction ops arbitrary: a) (auto intro: atlas_do_ok)
  then show ?thesis using new_atlas_ok by (simp add: atlas_after_def)
qed

lemma entries_show: "atlas_ok a \<Longrightarrow> map_of (at_entries a) k = Some e \<Longrightarrow> entry_shows a k e"
  by (auto simp: atlas_ok_def list_all_iff dest!: map_of_SomeD intro!: placed_shows)

text \<open>
  C20: A glyph is never drawn over while the atlas still hands it out. After any operations, every pixel that
  an entry of the atlas samples holds the drawing of that entry's own key; a request that succeeds
  returns such an entry for its key; and as long as the generation stays the same, every entry handed
  out before is still there.
\<close>

theorem atlas_shows_glyphs:
  assumes "map_of (at_entries (atlas_after pictograph ops m t)) key = Some old"
    and "atlas_get pictograph r (atlas_after pictograph ops m t) = Some (b, e)"
  shows "entry_shows (atlas_after pictograph ops m t) key old
    \<and> map_of (at_entries b) (key_of pictograph r) = Some e
    \<and> entry_shows b (key_of pictograph r) e
    \<and> (at_generation b = at_generation (atlas_after pictograph ops m t) \<longrightarrow>
         map_of (at_entries b) key = Some old \<and> entry_shows b key old)"
proof -
  note ok = atlas_after_ok [of pictograph ops m t]
  note get = atlas_get_ok [OF ok assms(2)]
  show ?thesis
    using entries_show [OF ok assms(1)] get assms(1) entries_show [of b] by (simp add: keeps_entries_def)
qed

definition sample_request :: "16 word \<Rightarrow> glyph_request" where
  "sample_request c = \<lparr>gr_text = [c], gr_cellSpan = 1,
     gr_metrics = \<lparr>cm_width = 8, cm_height = 16, cm_baseline = 12\<rparr>, gr_family = ''mono'', gr_size = 13,
     gr_bold = False, gr_italic = False, gr_pixelRatio = 2\<rparr>"

definition no_pictograph :: "utf16 \<Rightarrow> bool" where
  "no_pictograph s = False"

definition sample_atlas :: glyph_atlas where
  "sample_atlas = atlas_after no_pictograph [At_Get (sample_request 65)] 256 256"

lemmas atlas_eval = atlas_after_def newGlyphAtlas_def allocateTexture_def sample_request_def no_pictograph_def
  atlas_get_def key_of_def scratchFor_def make_room_def next_shelf_def resetForPressure_def atlas_clear_def
  place_glyph_def pixels_def ceil_log2_def bit_length.simps MAX_SCRATCH_CANVASES_def ATLAS_PADDING_def Let_def

lemma sample_old: "map_of (at_entries sample_atlas) (key_of no_pictograph (sample_request 65)) =
    Some \<lparr>ae_u0 = 2 / 256, ae_v0 = 2 / 256, ae_u1 = 18 / 256, ae_v1 = 34 / 256, ae_colorGlyph = False\<rparr>"
  by (simp add: sample_atlas_def atlas_eval)

lemma sample_new: "\<exists>b. atlas_get no_pictograph (sample_request 66) sample_atlas =
    Some (b, \<lparr>ae_u0 = 22 / 256, ae_v0 = 2 / 256, ae_u1 = 38 / 256, ae_v1 = 34 / 256, ae_colorGlyph = False\<rparr>)
  \<and> at_generation b = at_generation sample_atlas"
  by (simp add: sample_atlas_def atlas_eval)

theorem atlas_shows_glyphs_witness:
  "\<exists>b. map_of (at_entries b) (key_of no_pictograph (sample_request 65)) =
      Some \<lparr>ae_u0 = 2 / 256, ae_v0 = 2 / 256, ae_u1 = 18 / 256, ae_v1 = 34 / 256, ae_colorGlyph = False\<rparr>
    \<and> entry_shows b (key_of no_pictograph (sample_request 66))
      \<lparr>ae_u0 = 22 / 256, ae_v0 = 2 / 256, ae_u1 = 38 / 256, ae_v1 = 34 / 256, ae_colorGlyph = False\<rparr>"
proof -
  from sample_new obtain b where b: "atlas_get no_pictograph (sample_request 66) sample_atlas =
      Some (b, \<lparr>ae_u0 = 22 / 256, ae_v0 = 2 / 256, ae_u1 = 38 / 256, ae_v1 = 34 / 256, ae_colorGlyph = False\<rparr>)"
    "at_generation b = at_generation sample_atlas" by blast
  from atlas_shows_glyphs [OF sample_old [unfolded sample_atlas_def] b(1) [unfolded sample_atlas_def]] b(2)
  show ?thesis unfolding sample_atlas_def by blast
qed

end
