(* ===== verification/Mux_Client.thy ===== *)
theory Mux_Client
  imports Mux_Store
begin

text \<open>
  The client of the host's control plane, \<^verbatim>\<open>packages/yaade-app/src/mux/mux-client.ts\<close>: it feeds the store
  with the host's events, fetches snapshots after a reconnect or a gap in the revisions, and closes
  terminals and tabs optimistically.

  A method that waits for the host is split at its \<open>await\<close>: what it does up to the request, which yields
  an operation in flight, and what it does when the reply comes, a value or a rejection. Replies come in
  any order. A promise that is rejected runs its \<open>finally\<close> together with the code before it.
\<close>

section \<open>State\<close>

record mux_snapshot =
  sn_session :: app_session
  sn_terminals :: "mux_terminal list"
  sn_tabs :: "session_tab list option"

text \<open>What waits for a reply. A close that failed waits for the session it is reconciled with.\<close>

datatype client_op =
    Op_Hydrate revision_snapshot "nat option"
  | Op_Session session_id
  | Op_Gap_Terminal terminal_id
  | Op_Close_Terminal terminal_id nat session_id
  | Op_Close_Terminal_Failed terminal_id nat
  | Op_Close_Tab tab_id nat session_id
  | Op_Close_Tab_Failed tab_id nat

record mux_client =
  mc_store :: mux_store
  mc_disposed :: bool
  mc_listening :: bool
  mc_gapHandler :: bool
  mc_reconcilePromise :: "nat option"
  mc_nextPromise :: nat

definition newMuxClient :: "mux_store \<Rightarrow> mux_client" where
  "newMuxClient s = \<lparr>mc_store = s, mc_disposed = False, mc_listening = False, mc_gapHandler = True,
     mc_reconcilePromise = None, mc_nextPromise = 0\<rparr>"

abbreviation put_store :: "mux_store \<Rightarrow> mux_client \<Rightarrow> mux_client" where
  "put_store s c \<equiv> c\<lparr>mc_store := s\<rparr>"

section \<open>Operations\<close>

definition start_client :: "mux_client \<Rightarrow> mux_client" where
  "start_client c = c\<lparr>mc_disposed := False, mc_gapHandler := True, mc_listening := True\<rparr>"

definition stop_events :: "mux_client \<Rightarrow> mux_client" where
  "stop_events c = c\<lparr>mc_listening := False\<rparr>"

definition dispose_client :: "mux_client \<Rightarrow> mux_client" where
  "dispose_client c = c\<lparr>mc_disposed := True, mc_listening := False, mc_reconcilePromise := None,
     mc_gapHandler := False, mc_store := clearPendingCloses (mc_store c)\<rparr>"

definition begin_hydrate :: "nat option \<Rightarrow> mux_client \<Rightarrow> mux_client \<times> client_op option" where
  "begin_hydrate promise c =
     (if mc_disposed c then (c, None)
      else let s = mc_store c; baseline = captureRevisions s;
               s1 = (if view_connection (published s) \<noteq> Offline then setConnection s Reconciling else s)
           in (put_store s1 c, Some (Op_Hydrate baseline promise)))"

definition replaceSnapshots :: "mux_snapshot list \<Rightarrow> revision_snapshot \<Rightarrow> mux_store \<Rightarrow> mux_store" where
  "replaceSnapshots snapshots baseline s =
     mergeSnapshot s (map sn_session snapshots) (concat (map sn_terminals snapshots))
       (concat (map (\<lambda>sn. case sn_tabs sn of Some ts \<Rightarrow> ts | None \<Rightarrow> []) snapshots))
       (\<exists>sn \<in> set snapshots. sn_tabs sn \<noteq> None) baseline"

definition settle_promise :: "nat option \<Rightarrow> mux_client \<Rightarrow> mux_client" where
  "settle_promise promise c =
     (if promise \<noteq> None \<and> mc_reconcilePromise c = promise then c\<lparr>mc_reconcilePromise := None\<rparr> else c)"

definition finish_hydrate ::
  "revision_snapshot \<Rightarrow> nat option \<Rightarrow> mux_snapshot list option \<Rightarrow> mux_client \<Rightarrow> mux_client" where
  "finish_hydrate baseline promise reply c =
     settle_promise promise
       (if mc_disposed c then c
        else case reply of
          Some snapshots \<Rightarrow> put_store (setConnection (replaceSnapshots snapshots baseline (mc_store c)) Connected) c
        | None \<Rightarrow> put_store (setConnection (mc_store c) Offline) c)"

definition begin_reconcile :: "mux_client \<Rightarrow> mux_client \<times> client_op option" where
  "begin_reconcile c =
     (if mc_disposed c \<or> mc_reconcilePromise c \<noteq> None then (c, None)
      else let (c1, op) = begin_hydrate (Some (mc_nextPromise c)) c
           in (c1\<lparr>mc_reconcilePromise := Some (mc_nextPromise c), mc_nextPromise := mc_nextPromise c + 1\<rparr>, op))"

definition begin_session :: "session_id \<Rightarrow> mux_client \<Rightarrow> client_op option" where
  "begin_session i c = (if mc_disposed c then None else Some (Op_Session i))"

text \<open>\<open>reply\<close>: rejected, no such session, or its snapshot.\<close>

definition finish_session :: "mux_snapshot option option \<Rightarrow> mux_client \<Rightarrow> mux_client" where
  "finish_session reply c =
     (case reply of
        Some (Some sn) \<Rightarrow>
          if mc_disposed c then c
          else put_store (replaceSession (mc_store c) (sn_session sn) (sn_terminals sn) (sn_tabs sn)) c
      | _ \<Rightarrow> c)"

definition begin_closeTerminal :: "terminal_id \<Rightarrow> mux_client \<Rightarrow> mux_client \<times> client_op option" where
  "begin_closeTerminal i c =
     (if mc_disposed c then (c, None)
      else case map_of (terminalsById (published (mc_store c))) i of
        None \<Rightarrow> (c, None)
      | Some t \<Rightarrow>
          (case stageTerminalClose (mc_store c) i of
             (s, None) \<Rightarrow> (put_store s c, None)
           | (s, Some m) \<Rightarrow> (put_store s c, Some (Op_Close_Terminal i m (term_sessionId t)))))"

text \<open>The \<open>finally\<close> of a close that failed.\<close>

definition settle_failed_terminal :: "terminal_id \<Rightarrow> nat \<Rightarrow> mux_client \<Rightarrow> mux_client" where
  "settle_failed_terminal i m c =
     (case map_of (terminalsById (published (mc_store c))) i of
        Some t \<Rightarrow> if truthy (term_archivedAt t) then put_store (confirmTerminalClose (mc_store c) i m) c
                  else put_store (rollbackTerminalClose (mc_store c) i m) c
      | None \<Rightarrow> put_store (rollbackTerminalClose (mc_store c) i m) c)"

definition finish_closeTerminal ::
  "terminal_id \<Rightarrow> nat \<Rightarrow> mux_terminal option \<Rightarrow> mux_client \<Rightarrow> mux_client \<times> client_op option" where
  "finish_closeTerminal i m reply c =
     (case reply of
        Some archived \<Rightarrow>
          if mc_disposed c then (c, None)
          else (put_store (confirmTerminalClose (replaceMuxTerminal (mc_store c) archived) i m) c, None)
      | None \<Rightarrow>
          if mc_disposed c then (settle_failed_terminal i m c, None)
          else (c, Some (Op_Close_Terminal_Failed i m)))"

definition begin_closeTab :: "tab_id \<Rightarrow> mux_client \<Rightarrow> mux_client \<times> client_op option" where
  "begin_closeTab i c =
     (if mc_disposed c then (c, None)
      else case map_of (tabsById (published (mc_store c))) i of
        None \<Rightarrow> (c, None)
      | Some t \<Rightarrow>
          (case stageTabClose (mc_store c) i of
             (s, None) \<Rightarrow> (put_store s c, None)
           | (s, Some m) \<Rightarrow> (put_store s c, Some (Op_Close_Tab i m (tab_sessionId t)))))"

definition settle_failed_tab :: "tab_id \<Rightarrow> nat \<Rightarrow> mux_client \<Rightarrow> mux_client" where
  "settle_failed_tab i m c =
     (case map_of (tabsById (published (mc_store c))) i of
        Some t \<Rightarrow> if truthy (tab_archivedAt t) then put_store (confirmTabClose (mc_store c) i m) c
                  else put_store (rollbackTabClose (mc_store c) i m) c
      | None \<Rightarrow> put_store (rollbackTabClose (mc_store c) i m) c)"

definition finish_closeTab ::
  "tab_id \<Rightarrow> nat \<Rightarrow> session_tab option \<Rightarrow> mux_client \<Rightarrow> mux_client \<times> client_op option" where
  "finish_closeTab i m reply c =
     (case reply of
        Some archived \<Rightarrow>
          if mc_disposed c then (c, None)
          else (put_store (confirmTabClose (replaceTab (mc_store c) archived) i m) c, None)
      | None \<Rightarrow>
          if mc_disposed c then (settle_failed_tab i m c, None)
          else (c, Some (Op_Close_Tab_Failed i m)))"

text \<open>\<open>reconcileGap\<close> up to its request. The store calls it before it takes the event over.\<close>

definition begin_gap :: "revision_gap \<Rightarrow> mux_client \<Rightarrow> client_op option" where
  "begin_gap gap c =
     (case gap_entity gap of
        GapSession \<Rightarrow> begin_session (gap_id gap) c
      | GapTab \<Rightarrow> (case map_of (tabsById (published (mc_store c))) (gap_id gap) of
                     Some t \<Rightarrow> begin_session (tab_sessionId t) c | None \<Rightarrow> None)
      | GapTerminal \<Rightarrow> Some (Op_Gap_Terminal (gap_id gap)))"

definition finish_gap_terminal :: "mux_terminal option option \<Rightarrow> mux_client \<Rightarrow> mux_client" where
  "finish_gap_terminal reply c =
     (case reply of
        Some (Some t) \<Rightarrow> if mc_disposed c then c else put_store (replaceMuxTerminalIfNewer (mc_store c) t) c
      | _ \<Rightarrow> c)"

definition receive_mux_event :: "mux_event \<Rightarrow> mux_client \<Rightarrow> mux_client \<times> client_op option" where
  "receive_mux_event ev c =
     (let (s, gap) = apply_event (mc_store c) ev
      in (put_store s c,
          case gap of None \<Rightarrow> None | Some g \<Rightarrow> if mc_gapHandler c then begin_gap g c else None))"

definition activeMuxTerminal :: "mux_view \<Rightarrow> session_id \<Rightarrow> mux_terminal option" where
  "activeMuxTerminal v i =
     (let tab = (if activeSessionId v = Some i then activeTabId v
                 else Option.bind (map_of (sessionsById v) i) ses_activeTabId);
          ids = (case tab of Some t \<Rightarrow> get_list (terminalIdsByTab v) t | None \<Rightarrow> []);
          active = Option.bind tab (\<lambda>t. Option.bind (map_of (tabsById v) t) tab_activeMuxTerminalId);
          chosen = (case active of Some a \<Rightarrow> if a \<in> set ids then Some a else first_of ids | None \<Rightarrow> first_of ids)
      in Option.bind chosen (map_of (terminalsById v)))"

section \<open>Runs\<close>

datatype client_event =
    Cl_Start
  | Cl_Stop_Events
  | Cl_Dispose
  | Cl_Event mux_event
  | Cl_Reconnected
  | Cl_Hydrate
  | Cl_Reconcile_Session session_id
  | Cl_Close_Terminal terminal_id
  | Cl_Close_Tab tab_id
  | Cl_Snapshots "mux_snapshot list option"
  | Cl_Session "mux_snapshot option option"
  | Cl_Terminal "mux_terminal option option"
  | Cl_Terminal_Closed "mux_terminal option"
  | Cl_Tab_Closed "session_tab option"
  | Cl_Select_Session session_id
  | Cl_Select_Tab tab_id
  | Cl_Select_Terminal terminal_id

definition add_op :: "client_op option \<Rightarrow> client_op list \<Rightarrow> client_op list" where
  "add_op op ops = (case op of Some x \<Rightarrow> ops @ [x] | None \<Rightarrow> ops)"

inductive client_step ::
  "mux_client \<Rightarrow> client_op list \<Rightarrow> client_event \<Rightarrow> mux_client \<Rightarrow> client_op list \<Rightarrow> bool" where
  cl_start: "client_step c ops Cl_Start (start_client c) ops"
| cl_stop: "client_step c ops Cl_Stop_Events (stop_events c) ops"
| cl_dispose: "client_step c ops Cl_Dispose (dispose_client c) ops"
| cl_event: "mc_listening c \<Longrightarrow> receive_mux_event ev c = (c', op) \<Longrightarrow>
    client_step c ops (Cl_Event ev) c' (add_op op ops)"
| cl_reconnected: "mc_listening c \<Longrightarrow> begin_reconcile c = (c', op) \<Longrightarrow>
    client_step c ops Cl_Reconnected c' (add_op op ops)"
| cl_hydrate: "begin_hydrate None c = (c', op) \<Longrightarrow> client_step c ops Cl_Hydrate c' (add_op op ops)"
| cl_reconcile_session: "client_step c ops (Cl_Reconcile_Session i) c (add_op (begin_session i c) ops)"
| cl_close_terminal: "begin_closeTerminal i c = (c', op) \<Longrightarrow>
    client_step c ops (Cl_Close_Terminal i) c' (add_op op ops)"
| cl_close_tab: "begin_closeTab i c = (c', op) \<Longrightarrow> client_step c ops (Cl_Close_Tab i) c' (add_op op ops)"
| cl_snapshots: "client_step c (as @ Op_Hydrate baseline promise # bs) (Cl_Snapshots reply)
    (finish_hydrate baseline promise reply c) (as @ bs)"
| cl_session: "client_step c (as @ Op_Session i # bs) (Cl_Session reply) (finish_session reply c) (as @ bs)"
| cl_terminal: "client_step c (as @ Op_Gap_Terminal i # bs) (Cl_Terminal reply)
    (finish_gap_terminal reply c) (as @ bs)"
| cl_terminal_closed: "finish_closeTerminal i m reply c = (c', op) \<Longrightarrow>
    client_step c (as @ Op_Close_Terminal i m ses # bs) (Cl_Terminal_Closed reply) c' (add_op op (as @ bs))"
| cl_terminal_failed: "client_step c (as @ Op_Close_Terminal_Failed i m # bs) (Cl_Session reply)
    (settle_failed_terminal i m (finish_session reply c)) (as @ bs)"
| cl_tab_closed: "finish_closeTab i m reply c = (c', op) \<Longrightarrow>
    client_step c (as @ Op_Close_Tab i m ses # bs) (Cl_Tab_Closed reply) c' (add_op op (as @ bs))"
| cl_tab_failed: "client_step c (as @ Op_Close_Tab_Failed i m # bs) (Cl_Session reply)
    (settle_failed_tab i m (finish_session reply c)) (as @ bs)"
| cl_select_session: "client_step c ops (Cl_Select_Session i) (put_store (selectSession (mc_store c) i) c) ops"
| cl_select_tab: "client_step c ops (Cl_Select_Tab i) (put_store (selectTab (mc_store c) i) c) ops"
| cl_select_terminal: "client_step c ops (Cl_Select_Terminal i) (put_store (selectMuxTerminal (mc_store c) i) c) ops"

inductive client_run :: "client_event list \<Rightarrow> mux_client \<Rightarrow> client_op list \<Rightarrow> bool" where
  client_new: "client_run [] (newMuxClient new_store) []"
| client_more: "client_run es c ops \<Longrightarrow> client_step c ops e c' ops' \<Longrightarrow> client_run (es @ [e]) c' ops'"

section \<open>What an operation of the store leaves pending\<close>

definition shrinks :: "mux_store \<Rightarrow> mux_store \<Rightarrow> bool" where
  "shrinks s s' \<longleftrightarrow>
     set (pendingTerminalCloses s') \<subseteq> set (pendingTerminalCloses s)
     \<and> set (pendingTabCloses s') \<subseteq> set (pendingTabCloses s)
     \<and> (map_ok (pendingTerminalCloses s) \<longrightarrow> map_ok (pendingTerminalCloses s'))
     \<and> (map_ok (pendingTabCloses s) \<longrightarrow> map_ok (pendingTabCloses s'))"

named_theorems shrink "operations of the store after which no more closes are pending"

lemma shrinks_refl [shrink]: "shrinks s s"
  by (simp add: shrinks_def)

lemma shrinks_trans: "shrinks s s1 \<Longrightarrow> shrinks s1 s2 \<Longrightarrow> shrinks s s2"
  by (auto simp: shrinks_def)

lemma shrinks_same:
  "pendingTerminalCloses s' = pendingTerminalCloses s \<Longrightarrow> pendingTabCloses s' = pendingTabCloses s \<Longrightarrow> shrinks s s'"
  by (simp add: shrinks_def)

lemma delete_subset: "set (map_delete k m) \<subseteq> set m"
  by (auto simp: AList.delete_eq)

lemma shrinks_setConnection [shrink]: "shrinks s (setConnection s con)"
  by (rule shrinks_same) (simp_all add: setConnection_def frame)

lemma shrinks_select [shrink]:
  "shrinks s (selectSession s i)" "shrinks s (selectTab s i)" "shrinks s (selectMuxTerminal s i)"
  by (rule shrinks_same; simp add: selectSession_def selectTab_def selectMuxTerminal_def Let_def frame split: option.split)+

lemma shrinks_confirm [shrink]:
  "shrinks s (confirmTerminalClose s i m)" "shrinks s (confirmTabClose s i m)"
  "shrinks s (rollbackTerminalClose s i m)" "shrinks s (rollbackTabClose s i m)"
  by (auto simp: shrinks_def confirmTerminalClose_def confirmTabClose_def rollbackTerminalClose_def
      rollbackTabClose_def frame dest: subsetD [OF delete_subset])

lemma shrinks_finished:
  "pendingTerminalCloses t = pendingTerminalCloses s \<Longrightarrow> pendingTabCloses t = pendingTabCloses s \<Longrightarrow>
     shrinks s (clearAuthoritativelyFinishedCloses t)"
  by (auto simp: shrinks_def clearAuthoritativelyFinishedCloses_def distinct_map_filter)

lemma shrinks_then:
  "shrinks s t \<Longrightarrow> pendingTerminalCloses s' = pendingTerminalCloses t \<Longrightarrow>
     pendingTabCloses s' = pendingTabCloses t \<Longrightarrow> shrinks s s'"
  by (simp add: shrinks_def)

lemma shrinks_replace_all [shrink]: "shrinks s (replace_all s ss ts tabs)"
  unfolding replace_all_def Let_def
  by (rule shrinks_then, rule shrinks_finished) (simp_all add: frame)

lemma shrinks_mergeSnapshot [shrink]: "shrinks s (mergeSnapshot s ss ts tabs hasTabs baseline)"
  unfolding mergeSnapshot_def Let_def
  by (rule shrinks_then, rule shrinks_finished) (simp_all add: frame)

lemma shrinks_replace [shrink]:
  "shrinks s (replaceMuxTerminal s t)" "shrinks s (replaceMuxTerminalIfNewer s t)"
  "shrinks s (replaceSession s session ts opt_tabs)"
  by (simp_all add: replaceMuxTerminal_def replaceMuxTerminalIfNewer_def replaceSession_def Let_def shrink split: option.split)

lemma shrinks_replaceTab [shrink]: "shrinks s (replaceTab s t)"
  by (auto simp: shrinks_def replaceTab_def Let_def frame dest: subsetD [OF delete_subset] split: option.split)

lemma shrinks_apply_body: "shrinks s (apply_body s e)"
  by (cases e) (auto simp: shrinks_def apply_terminal_def apply_tab_def Let_def frame
      dest: subsetD [OF delete_subset] split: option.splits)

lemma shrinks_apply_event [shrink]: "shrinks s (fst (apply_event s e))"
proof -
  have "shrinks (s\<lparr>revisions := r\<rparr>) (apply_body (s\<lparr>revisions := r\<rparr>) e)" for r by (rule shrinks_apply_body)
  then show ?thesis by (simp add: apply_event_def Let_def shrinks_def frame)
qed

section \<open>Closes in flight\<close>

text \<open>A request in flight that settles the pending close \<open>m\<close> of the terminal or the tab \<open>i\<close>.\<close>

definition settles_terminal :: "client_op list \<Rightarrow> terminal_id \<Rightarrow> nat \<Rightarrow> bool" where
  "settles_terminal ops i m \<longleftrightarrow>
     (\<exists>ses. Op_Close_Terminal i m ses \<in> set ops) \<or> Op_Close_Terminal_Failed i m \<in> set ops"

definition settles_tab :: "client_op list \<Rightarrow> tab_id \<Rightarrow> nat \<Rightarrow> bool" where
  "settles_tab ops i m \<longleftrightarrow> (\<exists>ses. Op_Close_Tab i m ses \<in> set ops) \<or> Op_Close_Tab_Failed i m \<in> set ops"

definition closes_ok :: "mux_client \<Rightarrow> client_op list \<Rightarrow> bool" where
  "closes_ok c ops \<longleftrightarrow>
     (let s = mc_store c in
      map_ok (pendingTerminalCloses s) \<and> map_ok (pendingTabCloses s)
      \<and> (\<forall>(i, m) \<in> set (pendingTerminalCloses s). settles_terminal ops i m)
      \<and> (\<forall>(i, m) \<in> set (pendingTabCloses s). settles_tab ops i m)
      \<and> (mc_disposed c \<longrightarrow> pendingTerminalCloses s = [] \<and> pendingTabCloses s = []))"

text \<open>A step keeps this when it adds no pending close, and drops only requests whose closes are settled.\<close>

lemma closes_ok_shrink:
  assumes "closes_ok c ops" "shrinks (mc_store c) (mc_store c')" "mc_disposed c' \<longrightarrow> mc_disposed c"
    "\<And>i m. (i, m) \<in> set (pendingTerminalCloses (mc_store c')) \<Longrightarrow> settles_terminal ops i m \<Longrightarrow> settles_terminal ops' i m"
    "\<And>i m. (i, m) \<in> set (pendingTabCloses (mc_store c')) \<Longrightarrow> settles_tab ops i m \<Longrightarrow> settles_tab ops' i m"
  shows "closes_ok c' ops'"
proof -
  have "(i, m) \<in> set (pendingTerminalCloses (mc_store c')) \<Longrightarrow> settles_terminal ops i m"
    and "(i, m) \<in> set (pendingTabCloses (mc_store c')) \<Longrightarrow> settles_tab ops i m" for i m
    using assms(1,2) by (auto simp: closes_ok_def shrinks_def Let_def)
  with assms show ?thesis by (auto simp: closes_ok_def shrinks_def Let_def)
qed

lemma settles_more:
  "settles_terminal ops i m \<Longrightarrow> settles_terminal (add_op op ops) i m"
  "settles_tab ops i m \<Longrightarrow> settles_tab (add_op op ops) i m"
  by (auto simp: settles_terminal_def settles_tab_def add_op_def split: option.split)

lemma closes_ok_add:
  assumes "closes_ok c ops" "shrinks (mc_store c) (mc_store c')" "mc_disposed c' \<longrightarrow> mc_disposed c"
  shows "closes_ok c' (add_op op ops)"
  using assms by (rule closes_ok_shrink) (simp_all add: settles_more)

lemma settled_pending:
  "map_ok p \<Longrightarrow> (i, m) \<notin> set (map_delete i p)"
  by (auto simp: AList.delete_eq)

lemma confirmed:
  "map_ok (pendingTerminalCloses s) \<Longrightarrow> (i, m) \<notin> set (pendingTerminalCloses (confirmTerminalClose s i m))"
  "map_ok (pendingTerminalCloses s) \<Longrightarrow> (i, m) \<notin> set (pendingTerminalCloses (rollbackTerminalClose s i m))"
  "map_ok (pendingTabCloses s) \<Longrightarrow> (i, m) \<notin> set (pendingTabCloses (confirmTabClose s i m))"
  "map_ok (pendingTabCloses s) \<Longrightarrow> (i, m) \<notin> set (pendingTabCloses (rollbackTabClose s i m))"
  by (auto simp: confirmTerminalClose_def rollbackTerminalClose_def confirmTabClose_def rollbackTabClose_def
      settled_pending frame)

lemma settles_drop:
  "settles_terminal (as @ op # bs) j n \<longleftrightarrow>
     (\<exists>ses. op = Op_Close_Terminal j n ses) \<or> op = Op_Close_Terminal_Failed j n \<or> settles_terminal (as @ bs) j n"
  "settles_tab (as @ op # bs) j n \<longleftrightarrow>
     (\<exists>ses. op = Op_Close_Tab j n ses) \<or> op = Op_Close_Tab_Failed j n \<or> settles_tab (as @ bs) j n"
  by (auto simp: settles_terminal_def settles_tab_def)

text \<open>The methods that stage no close.\<close>

definition calm :: "mux_client \<Rightarrow> mux_client \<Rightarrow> bool" where
  "calm c c' \<longleftrightarrow> shrinks (mc_store c) (mc_store c') \<and> mc_disposed c' = mc_disposed c"

lemma calm_hydrate: "calm c (fst (begin_hydrate promise c))" "calm c (finish_hydrate baseline promise reply c)"
  by (auto simp: calm_def begin_hydrate_def finish_hydrate_def settle_promise_def replaceSnapshots_def Let_def shrink
      intro: shrinks_trans [OF _ shrinks_setConnection] split: option.split)

lemma calm_reconcile: "calm c (fst (begin_reconcile c))"
  using calm_hydrate(1) [of c "Some (mc_nextPromise c)"]
  by (auto simp: calm_def begin_reconcile_def shrink Let_def split: prod.split)

lemma calm_session: "calm c (finish_session reply c)" "calm c (finish_gap_terminal reply' c)"
  by (auto simp: calm_def finish_session_def finish_gap_terminal_def shrink split: option.split)

lemma calm_event: "calm c (fst (receive_mux_event ev c))"
  using shrinks_apply_event [of "mc_store c" ev] by (auto simp: calm_def receive_mux_event_def Let_def split: prod.splits)

lemma calm_failed: "calm c (settle_failed_terminal i m c)" "calm c (settle_failed_tab i m c)"
  by (auto simp: calm_def settle_failed_terminal_def settle_failed_tab_def shrink split: option.split)

lemma calm_trans: "calm c c1 \<Longrightarrow> calm c1 c2 \<Longrightarrow> calm c c2"
  by (auto simp: calm_def intro: shrinks_trans)

lemma calm_add: "closes_ok c ops \<Longrightarrow> calm c c' \<Longrightarrow> closes_ok c' (add_op op ops)"
  by (rule closes_ok_add) (auto simp: calm_def)

text \<open>A reply to a request whose close, if it has one, is pending no longer.\<close>

lemma closes_ok_reply:
  assumes "closes_ok c (as @ op # bs)" "calm c c'"
    "\<And>i m. settles_terminal [op] i m \<Longrightarrow> (i, m) \<notin> set (pendingTerminalCloses (mc_store c'))"
    "\<And>i m. settles_tab [op] i m \<Longrightarrow> (i, m) \<notin> set (pendingTabCloses (mc_store c'))"
  shows "closes_ok c' (as @ bs)"
  using assms(1)
proof (rule closes_ok_shrink)
  show "shrinks (mc_store c) (mc_store c')" "mc_disposed c' \<longrightarrow> mc_disposed c" using assms(2) by (simp_all add: calm_def)
qed (use assms(3,4) in \<open>auto simp: settles_drop settles_terminal_def settles_tab_def\<close>)

lemma settles_one:
  "settles_terminal [op] i m \<longleftrightarrow> (\<exists>ses. op = Op_Close_Terminal i m ses) \<or> op = Op_Close_Terminal_Failed i m"
  "settles_tab [op] i m \<longleftrightarrow> (\<exists>ses. op = Op_Close_Tab i m ses) \<or> op = Op_Close_Tab_Failed i m"
  by (auto simp: settles_terminal_def settles_tab_def)

lemma closes_ok_maps:
  "closes_ok c ops \<Longrightarrow> calm c c' \<Longrightarrow>
     map_ok (pendingTerminalCloses (mc_store c')) \<and> map_ok (pendingTabCloses (mc_store c'))"
  by (auto simp: closes_ok_def calm_def shrinks_def Let_def)

lemma failed_settles:
  "map_ok (pendingTerminalCloses (mc_store c)) \<Longrightarrow>
     (i, m) \<notin> set (pendingTerminalCloses (mc_store (settle_failed_terminal i m c)))"
  "map_ok (pendingTabCloses (mc_store c)) \<Longrightarrow> (i, m) \<notin> set (pendingTabCloses (mc_store (settle_failed_tab i m c)))"
  by (auto simp: settle_failed_terminal_def settle_failed_tab_def dest: confirmed split: option.splits if_splits)

lemma failed_terminal_ok:
  assumes "closes_ok c (as @ Op_Close_Terminal_Failed i m # bs)"
  shows "closes_ok (settle_failed_terminal i m (finish_session reply c)) (as @ bs)"
  using assms
  by (rule closes_ok_reply)
    (auto simp: settles_one failed_settles closes_ok_maps [OF assms calm_session(1)]
      intro: calm_trans [OF calm_session(1) calm_failed(1)])

lemma failed_tab_ok:
  assumes "closes_ok c (as @ Op_Close_Tab_Failed i m # bs)"
  shows "closes_ok (settle_failed_tab i m (finish_session reply c)) (as @ bs)"
  using assms
  by (rule closes_ok_reply)
    (auto simp: settles_one failed_settles closes_ok_maps [OF assms calm_session(1)]
      intro: calm_trans [OF calm_session(1) calm_failed(2)])

lemma closes_ok_disposed: "mc_disposed c \<Longrightarrow> closes_ok c ops \<Longrightarrow> closes_ok c ops'"
  by (simp add: closes_ok_def Let_def)

text \<open>The end of the request itself: its close is settled, or a session is asked for to settle it.\<close>

lemma closed_terminal_ok:
  assumes "closes_ok c (as @ Op_Close_Terminal i m ses # bs)" "finish_closeTerminal i m reply c = (c', op)"
  shows "closes_ok c' (add_op op (as @ bs))"
proof (cases reply)
  case (Some archived)
  show ?thesis
  proof (cases "mc_disposed c")
    case True
    with Some assms show ?thesis by (auto simp: finish_closeTerminal_def add_op_def intro: closes_ok_disposed)
  next
    case False
    have c': "c' = put_store (confirmTerminalClose (replaceMuxTerminal (mc_store c) archived) i m) c" "op = None"
      using assms(2) Some False by (auto simp: finish_closeTerminal_def)
    have "calm c (put_store (replaceMuxTerminal (mc_store c) archived) c)" by (simp add: calm_def shrink)
    then have "map_ok (pendingTerminalCloses (replaceMuxTerminal (mc_store c) archived))"
      using closes_ok_maps [OF assms(1)] by fastforce
    then have "closes_ok c' (as @ bs)"
      by (intro closes_ok_reply [OF assms(1)])
        (auto simp: c' calm_def settles_one confirmed intro: shrinks_trans shrink)
    then show ?thesis using c' by (simp add: add_op_def)
  qed
next
  case None
  show ?thesis
  proof (cases "mc_disposed c")
    case True
    with None assms(2) have c': "c' = settle_failed_terminal i m c" "op = None" by (auto simp: finish_closeTerminal_def)
    have "calm c c'" "mc_disposed c'" using True by (simp_all add: c' calm_failed) (simp add: calm_failed(1) [unfolded calm_def])
    then have "closes_ok c' (add_op None (as @ Op_Close_Terminal i m ses # bs))" by (intro calm_add [OF assms(1)])
    then show ?thesis using \<open>mc_disposed c'\<close> closes_ok_disposed by blast
  next
    case False
    with None assms(2) have "c' = c" "op = Some (Op_Close_Terminal_Failed i m)" by (auto simp: finish_closeTerminal_def)
    then show ?thesis
      by (auto simp: add_op_def settles_terminal_def settles_tab_def shrink intro!: closes_ok_shrink [OF assms(1)])
  qed
qed

lemma closed_tab_ok:
  assumes "closes_ok c (as @ Op_Close_Tab i m ses # bs)" "finish_closeTab i m reply c = (c', op)"
  shows "closes_ok c' (add_op op (as @ bs))"
proof (cases reply)
  case (Some archived)
  show ?thesis
  proof (cases "mc_disposed c")
    case True
    with Some assms show ?thesis by (auto simp: finish_closeTab_def add_op_def intro: closes_ok_disposed)
  next
    case False
    have c': "c' = put_store (confirmTabClose (replaceTab (mc_store c) archived) i m) c" "op = None"
      using assms(2) Some False by (auto simp: finish_closeTab_def)
    have "calm c (put_store (replaceTab (mc_store c) archived) c)" by (simp add: calm_def shrink)
    then have "map_ok (pendingTabCloses (replaceTab (mc_store c) archived))"
      using closes_ok_maps [OF assms(1)] by fastforce
    then have "closes_ok c' (as @ bs)"
      by (intro closes_ok_reply [OF assms(1)])
        (auto simp: c' calm_def settles_one confirmed intro: shrinks_trans shrink)
    then show ?thesis using c' by (simp add: add_op_def)
  qed
next
  case None
  show ?thesis
  proof (cases "mc_disposed c")
    case True
    with None assms(2) have c': "c' = settle_failed_tab i m c" "op = None" by (auto simp: finish_closeTab_def)
    have "calm c c'" "mc_disposed c'" using True by (simp_all add: c' calm_failed) (simp add: calm_failed(2) [unfolded calm_def])
    then have "closes_ok c' (add_op None (as @ Op_Close_Tab i m ses # bs))" by (intro calm_add [OF assms(1)])
    then show ?thesis using \<open>mc_disposed c'\<close> closes_ok_disposed by blast
  next
    case False
    with None assms(2) have "c' = c" "op = Some (Op_Close_Tab_Failed i m)" by (auto simp: finish_closeTab_def)
    then show ?thesis
      by (auto simp: add_op_def settles_terminal_def settles_tab_def shrink intro!: closes_ok_shrink [OF assms(1)])
  qed
qed

text \<open>Staging adds one pending close and the request that settles it.\<close>

lemma staged_terminal_ok:
  assumes "closes_ok c ops" "begin_closeTerminal i c = (c', op)"
  shows "closes_ok c' (add_op op ops)"
proof -
  have unstaged: "stageTerminalClose s i = (s', None) \<Longrightarrow> s' = s" for s s'
    by (auto simp: stageTerminalClose_def Let_def split: option.splits if_splits)
  have staged: "set (pendingTerminalCloses s') \<subseteq> insert (i, m) (set (pendingTerminalCloses s))
      \<and> pendingTabCloses s' = pendingTabCloses s \<and> (map_ok (pendingTerminalCloses s) \<longrightarrow> map_ok (pendingTerminalCloses s'))"
    if "stageTerminalClose s i = (s', Some m)" for s s' m
    using that set_map_set [of i m "pendingTerminalCloses s"]
    by (auto simp: stageTerminalClose_def Let_def frame split: option.splits if_splits)
  show ?thesis
  proof (cases op)
    case None
    with assms(2) have "calm c c'"
      by (auto simp: begin_closeTerminal_def calm_def shrink dest: unstaged split: option.splits if_splits prod.splits)
    with calm_add [OF assms(1)] show ?thesis by blast
  next
    case (Some x)
    with assms(2) obtain s' m ses where c': "c' = put_store s' c" "x = Op_Close_Terminal i m ses" "\<not> mc_disposed c"
      and s': "stageTerminalClose (mc_store c) i = (s', Some m)"
      by (auto simp: begin_closeTerminal_def split: option.splits if_splits prod.splits)
    have "settles_terminal (add_op op ops) j n" if "(j, n) \<in> set (pendingTerminalCloses s')" for j n
    proof (cases "(j, n) = (i, m)")
      case True
      then show ?thesis by (auto simp: Some c' settles_terminal_def add_op_def)
    next
      case False
      with that staged [OF s'] have "(j, n) \<in> set (pendingTerminalCloses (mc_store c))" by blast
      with assms(1) show ?thesis by (auto simp: closes_ok_def Let_def intro: settles_more)
    qed
    with staged [OF s'] assms(1) c' show ?thesis by (auto simp: closes_ok_def Let_def intro: settles_more)
  qed
qed

lemma staged_tab_ok:
  assumes "closes_ok c ops" "begin_closeTab i c = (c', op)"
  shows "closes_ok c' (add_op op ops)"
proof -
  have unstaged: "stageTabClose s i = (s', None) \<Longrightarrow> s' = s" for s s'
    by (auto simp: stageTabClose_def Let_def split: option.splits if_splits)
  have staged: "set (pendingTabCloses s') \<subseteq> insert (i, m) (set (pendingTabCloses s))
      \<and> pendingTerminalCloses s' = pendingTerminalCloses s \<and> (map_ok (pendingTabCloses s) \<longrightarrow> map_ok (pendingTabCloses s'))"
    if "stageTabClose s i = (s', Some m)" for s s' m
    using that set_map_set [of i m "pendingTabCloses s"]
    by (auto simp: stageTabClose_def Let_def frame split: option.splits if_splits)
  show ?thesis
  proof (cases op)
    case None
    with assms(2) have "calm c c'"
      by (auto simp: begin_closeTab_def calm_def shrink dest: unstaged split: option.splits if_splits prod.splits)
    with calm_add [OF assms(1)] show ?thesis by blast
  next
    case (Some x)
    with assms(2) obtain s' m ses where c': "c' = put_store s' c" "x = Op_Close_Tab i m ses" "\<not> mc_disposed c"
      and s': "stageTabClose (mc_store c) i = (s', Some m)"
      by (auto simp: begin_closeTab_def split: option.splits if_splits prod.splits)
    have "settles_tab (add_op op ops) j n" if "(j, n) \<in> set (pendingTabCloses s')" for j n
    proof (cases "(j, n) = (i, m)")
      case True
      then show ?thesis by (auto simp: Some c' settles_tab_def add_op_def)
    next
      case False
      with that staged [OF s'] have "(j, n) \<in> set (pendingTabCloses (mc_store c))" by blast
      with assms(1) show ?thesis by (auto simp: closes_ok_def Let_def intro: settles_more)
    qed
    with staged [OF s'] assms(1) c' show ?thesis by (auto simp: closes_ok_def Let_def intro: settles_more)
  qed
qed

lemma add_op_None: "add_op None ops = ops"
  by (simp add: add_op_def)

lemma closes_ok_reply_calm:
  assumes "closes_ok c (as @ op # bs)" "calm c c'"
    "case op of Op_Hydrate _ _ \<Rightarrow> True | Op_Session _ \<Rightarrow> True | Op_Gap_Terminal _ \<Rightarrow> True | _ \<Rightarrow> False"
  shows "closes_ok c' (as @ bs)"
  using assms by (intro closes_ok_reply [OF assms(1,2)]) (auto simp: settles_one)

lemma client_step_closes_ok: "client_step c ops e c' ops' \<Longrightarrow> closes_ok c ops \<Longrightarrow> closes_ok c' ops'"
proof (induction rule: client_step.induct)
  case (cl_start c ops)
  then show ?case by (simp add: closes_ok_def start_client_def Let_def)
next
  case (cl_stop c ops)
  then show ?case by (simp add: closes_ok_def stop_events_def Let_def)
next
  case (cl_dispose c ops)
  then show ?case by (simp add: closes_ok_def dispose_client_def clearPendingCloses_def Let_def frame)
next
  case (cl_event c ev c' op ops)
  with calm_add [OF cl_event.prems calm_event [of c ev]] show ?case by simp
next
  case (cl_reconnected c c' op ops)
  with calm_add [OF cl_reconnected.prems calm_reconcile] show ?case by simp
next
  case (cl_hydrate c c' op ops)
  with calm_add [OF cl_hydrate.prems calm_hydrate(1) [of c None]] show ?case by simp
next
  case (cl_reconcile_session c ops i)
  then show ?case by (rule calm_add) (simp add: calm_def shrink)
next
  case (cl_select_session c ops i)
  then show ?case by (rule calm_add [where op = None, unfolded add_op_None]) (simp add: calm_def shrink)
next
  case (cl_select_tab c ops i)
  then show ?case by (rule calm_add [where op = None, unfolded add_op_None]) (simp add: calm_def shrink)
next
  case (cl_select_terminal c ops i)
  then show ?case by (rule calm_add [where op = None, unfolded add_op_None]) (simp add: calm_def shrink)
next
  case (cl_snapshots c as baseline promise bs reply)
  then show ?case by (rule closes_ok_reply_calm) (simp_all add: calm_hydrate)
next
  case (cl_session c as i bs reply)
  then show ?case by (rule closes_ok_reply_calm) (simp_all add: calm_session)
next
  case (cl_terminal c as i bs reply)
  then show ?case by (rule closes_ok_reply_calm) (simp_all add: calm_session)
qed (simp_all add: staged_terminal_ok staged_tab_ok closed_terminal_ok closed_tab_ok failed_terminal_ok failed_tab_ok)

lemma client_run_closes_ok: "client_run es c ops \<Longrightarrow> closes_ok c ops"
proof (induction rule: client_run.induct)
  case client_new
  show ?case by (simp add: closes_ok_def newMuxClient_def new_store_def mux_view.defs Let_def)
next
  case (client_more es c ops e c' ops')
  then show ?case by (blast intro: client_step_closes_ok)
qed


definition sample_closing :: "mux_client \<times> client_op list" where
  "sample_closing =
     (let sn = \<lparr>sn_session = sample_session, sn_terminals = [sample_terminal ''term-a'' 1 1], sn_tabs = None\<rparr>;
          (c1, op1) = begin_hydrate None (newMuxClient new_store);
          c2 = finish_hydrate (captureRevisions new_store) None (Some [sn]) c1;
          (c3, op3) = begin_closeTerminal ''term-a'' c2
      in (c3, add_op op3 []))"

definition sample_closing_events :: "client_event list" where
  "sample_closing_events = [Cl_Hydrate,
     Cl_Snapshots (Some [\<lparr>sn_session = sample_session, sn_terminals = [sample_terminal ''term-a'' 1 1], sn_tabs = None\<rparr>]),
     Cl_Close_Terminal ''term-a'']"

lemma sample_closing_run: "client_run sample_closing_events (fst sample_closing) (snd sample_closing)"
proof -
  let ?sn = "\<lparr>sn_session = sample_session, sn_terminals = [sample_terminal ''term-a'' 1 1], sn_tabs = None\<rparr>"
  obtain c1 where b: "begin_hydrate None (newMuxClient new_store) = (c1, Some (Op_Hydrate (captureRevisions new_store) None))"
    by (simp add: begin_hydrate_def newMuxClient_def Let_def)
  define c2 where "c2 = finish_hydrate (captureRevisions new_store) None (Some [?sn]) c1"
  have "client_run ([] @ [Cl_Hydrate]) c1 (add_op (Some (Op_Hydrate (captureRevisions new_store) None)) [])"
    by (rule client_more [OF client_new cl_hydrate [OF b]])
  then have "client_run [Cl_Hydrate] c1 ([] @ Op_Hydrate (captureRevisions new_store) None # [])"
    by (simp only: add_op_def option.case append.simps)
  from client_more [OF this cl_snapshots [where reply = "Some [?sn]"]]
  have run2: "client_run [Cl_Hydrate, Cl_Snapshots (Some [?sn])] c2 []"
    by (simp only: c2_def append.simps)
  define c3 where "c3 = fst (begin_closeTerminal ''term-a'' c2)"
  define op3 where "op3 = snd (begin_closeTerminal ''term-a'' c2)"
  have b3: "begin_closeTerminal ''term-a'' c2 = (c3, op3)" by (simp only: c3_def op3_def prod.collapse)
  have closing: "sample_closing = (c3, add_op op3 [])"
    unfolding sample_closing_def Let_def b prod.case c2_def [symmetric] b3 ..
  from client_more [OF run2 cl_close_terminal [OF b3]]
  have "client_run sample_closing_events c3 (add_op op3 [])"
    by (simp only: sample_closing_events_def append.simps)
  then show ?thesis by (simp add: closing)
qed


end
