(* ===== verification/Renderer_Controller.thy ===== *)
theory Renderer_Controller
  imports Prelude
begin

text \<open>
  The owner of a terminal's renderer,
  \<^verbatim>\<open>packages/ghostty-react/src/renderers/renderer-controller.ts\<close>: it passes operations on to the active
  renderer and replaces that renderer when an operation fails or its graphics context is lost.

  Creating a renderer is asynchronous. The function \<open>recover\<close> is suspended at its \<open>await\<close> with the
  backends that are still to be tried; when it has returned, the handler of \<open>finally\<close> is yet to run,
  which is the empty list of attempts. What the controller does to renderers and callbacks is a log. The
  callbacks of a replacement may throw, which the outcome of the event says; disposing does not throw.
\<close>

section \<open>State\<close>

datatype renderer_kind = Webgl2 | Canvas2d

record renderer_ref =
  rn_id :: nat
  rn_kind :: renderer_kind

datatype controller_state = St_Ready | St_Recovering | St_Fallback | St_Unavailable | St_Disposed

record recovery =
  ry_token :: nat
  ry_preferred :: renderer_kind
  ry_attempts :: "renderer_kind list"

record controller =
  co_active :: "renderer_ref option"
  co_state :: controller_state
  co_generation :: nat
  co_recoveryCount :: nat
  co_lastErrorClass :: "string option"
  co_fallbackReason :: "string option"
  co_recovery :: "recovery option"
  co_recoveryToken :: nat

datatype controller_call =
    Log_Created renderer_ref
  | Call_Create renderer_kind
  | Call_Operation renderer_ref string
  | Call_Dispose_Renderer renderer_ref
  | Call_Activate renderer_ref "renderer_ref option"
  | Call_Full_Repaint
  | Call_Listen renderer_ref
  | Call_Unlisten renderer_ref

section \<open>Operations\<close>

definition installContextListeners :: "renderer_ref \<Rightarrow> controller_call list" where
  "installContextListeners r = (if rn_kind r = Webgl2 then [Call_Listen r] else [])"

definition removeContextListeners :: "renderer_ref option \<Rightarrow> controller_call list" where
  "removeContextListeners r =
     (case r of Some x \<Rightarrow> if rn_kind x = Webgl2 then [Call_Unlisten x] else [] | None \<Rightarrow> [])"

definition newController :: "renderer_ref \<Rightarrow> controller \<times> controller_call list" where
  "newController initial =
     (\<lparr>co_active = Some initial, co_state = St_Ready, co_generation = 1, co_recoveryCount = 0,
       co_lastErrorClass = None, co_fallbackReason = None, co_recovery = None, co_recoveryToken = 0\<rparr>,
      installContextListeners initial)"

definition requestRecovery :: "string \<Rightarrow> string option \<Rightarrow> controller \<Rightarrow> controller \<times> controller_call list" where
  "requestRecovery reason errorName c =
     (if co_state c = St_Disposed \<or> co_recovery c \<noteq> None then (c, [])
      else
        let preferred = (case co_active c of Some r \<Rightarrow> rn_kind r | None \<Rightarrow> Canvas2d);
            attempts = (if preferred = Webgl2 then [Webgl2, Canvas2d] else [Canvas2d])
        in (c\<lparr>co_lastErrorClass := errorName, co_fallbackReason := Some reason, co_state := St_Recovering,
              co_recoveryCount := co_recoveryCount c + 1, co_recoveryToken := co_recoveryToken c + 1,
              co_recovery := Some \<lparr>ry_token = co_recoveryToken c + 1, ry_preferred = preferred,
                ry_attempts = attempts\<rparr>\<rparr>, [Call_Create (hd attempts)]))"

text \<open>\<open>handleFailure\<close>: an error that is no \<open>Error\<close> is wrapped in one, so it always has a name.\<close>

definition handleFailure :: "string \<Rightarrow> string \<Rightarrow> controller \<Rightarrow> controller \<times> controller_call list" where
  "handleFailure operation errorName c = requestRecovery operation (Some errorName) c"

text \<open>\<open>run\<close> and the methods that call it; the outcome is the error an operation fails with.\<close>

definition run_operation :: "string \<Rightarrow> string option \<Rightarrow> controller \<Rightarrow> controller \<times> controller_call list" where
  "run_operation operation outcome c =
     (case co_active c of
        None \<Rightarrow> (c, [])
      | Some r \<Rightarrow>
          if co_state c = St_Disposed then (c, [])
          else case outcome of
            None \<Rightarrow> (c, [Call_Operation r operation])
          | Some e \<Rightarrow> let (c', calls) = handleFailure operation e c in (c', Call_Operation r operation # calls))"

definition render_operation :: "string option \<Rightarrow> controller \<Rightarrow> controller \<times> controller_call list" where
  "render_operation outcome c =
     (if co_state c \<noteq> St_Ready \<and> co_state c \<noteq> St_Fallback then (c, []) else run_operation ''render'' outcome c)"

definition dispose_controller :: "controller \<Rightarrow> controller \<times> controller_call list" where
  "dispose_controller c =
     (if co_state c = St_Disposed then (c, [])
      else (c\<lparr>co_state := St_Disposed, co_recoveryToken := co_recoveryToken c + 1, co_active := None\<rparr>,
            case co_active c of None \<Rightarrow> []
            | Some r \<Rightarrow> removeContextListeners (Some r) @ [Call_Dispose_Renderer r]))"

text \<open>The rest of \<open>recover\<close> after an attempt failed, and after its last statement.\<close>

definition set_attempts :: "renderer_kind list \<Rightarrow> controller \<Rightarrow> controller" where
  "set_attempts ks c = c\<lparr>co_recovery := map_option (\<lambda>y. y\<lparr>ry_attempts := ks\<rparr>) (co_recovery c)\<rparr>"

definition next_attempt :: "nat \<Rightarrow> renderer_kind list \<Rightarrow> controller \<Rightarrow> controller \<times> controller_call list" where
  "next_attempt token rest c =
     (case rest of
        [] \<Rightarrow> (set_attempts [] (if token = co_recoveryToken c \<and> co_state c \<noteq> St_Disposed
                                then c\<lparr>co_state := St_Unavailable\<rparr> else c), [])
      | k # ks \<Rightarrow> (set_attempts rest c, [Call_Create k]))"

datatype activation = Activation_Ok | Activate_Throws string | Repaint_Throws string

datatype create_result = Created renderer_ref activation | Create_Failed string

definition activate :: "renderer_kind \<Rightarrow> recovery \<Rightarrow> renderer_ref \<Rightarrow> controller \<Rightarrow> controller" where
  "activate backend y next' c =
     c\<lparr>co_active := Some next', co_generation := co_generation c + 1,
       co_state := (if backend = ry_preferred y then St_Ready else St_Fallback),
       co_fallbackReason := (if backend = ry_preferred y then None else co_fallbackReason c)\<rparr>"

definition dispose_previous :: "renderer_ref option \<Rightarrow> controller_call list" where
  "dispose_previous r = (case r of Some x \<Rightarrow> [Call_Dispose_Renderer x] | None \<Rightarrow> [])"

definition settle_create :: "create_result \<Rightarrow> controller \<Rightarrow> (controller \<times> controller_call list) option" where
  "settle_create result c =
     (case co_recovery c of
        None \<Rightarrow> None
      | Some y \<Rightarrow>
          (case ry_attempts y of
             [] \<Rightarrow> None
           | backend # rest \<Rightarrow>
               Some (case result of
                 Create_Failed e \<Rightarrow> next_attempt (ry_token y) rest (c\<lparr>co_lastErrorClass := Some e\<rparr>)
               | Created r outcome \<Rightarrow>
                   if ry_token y \<noteq> co_recoveryToken c \<or> co_state c = St_Disposed
                   then (set_attempts [] c, [Log_Created r, Call_Dispose_Renderer r])
                   else
                     let c1 = activate backend y r c;
                         calls = Log_Created r # removeContextListeners (co_active c) @ installContextListeners r
                           @ [Call_Activate r (co_active c)]
                     in case outcome of
                          Activation_Ok \<Rightarrow>
                            (set_attempts [] c1, calls @ dispose_previous (co_active c) @ [Call_Full_Repaint])
                        | Activate_Throws e \<Rightarrow>
                            (let (c2, more) = next_attempt (ry_token y) rest (c1\<lparr>co_lastErrorClass := Some e\<rparr>)
                             in (c2, calls @ more))
                        | Repaint_Throws e \<Rightarrow>
                            (let (c2, more) = next_attempt (ry_token y) rest (c1\<lparr>co_lastErrorClass := Some e\<rparr>)
                             in (c2, calls @ dispose_previous (co_active c) @ [Call_Full_Repaint] @ more)))))"

definition settle_finally :: "controller \<Rightarrow> controller option" where
  "settle_finally c =
     (case co_recovery c of
        None \<Rightarrow> None
      | Some y \<Rightarrow>
          if ry_attempts y \<noteq> [] then None
          else Some (if ry_token y = co_recoveryToken c then c\<lparr>co_recovery := None\<rparr> else c))"

text \<open>The listeners of the active renderer's canvas.\<close>

definition onContextLost :: "controller \<Rightarrow> controller \<times> controller_call list" where
  "onContextLost c = requestRecovery ''context-lost'' None c"

definition onContextRestored :: "controller \<Rightarrow> controller \<times> controller_call list" where
  "onContextRestored c =
     (if co_state c = St_Recovering then requestRecovery ''context-restored'' None c else (c, []))"

section \<open>Runs\<close>

text \<open>\<open>Ev_Late_Failure\<close>: a promise of the font or the capture is rejected, whatever is active by then.\<close>

datatype controller_event =
    Ce_Operation string "string option"
  | Ce_Render "string option"
  | Ce_Late_Failure string string
  | Ce_Request string "string option"
  | Ce_Context_Lost
  | Ce_Context_Restored
  | Ce_Created create_result
  | Ce_Finally
  | Ce_Dispose

fun live_after :: "renderer_ref set \<Rightarrow> controller_call \<Rightarrow> renderer_ref set" where
  "live_after S (Log_Created r) = insert r S"
| "live_after S (Call_Dispose_Renderer r) = S - {r}"
| "live_after S _ = S"

fun listening_after :: "renderer_ref set \<Rightarrow> controller_call \<Rightarrow> renderer_ref set" where
  "listening_after S (Call_Listen r) = insert r S"
| "listening_after S (Call_Unlisten r) = S - {r}"
| "listening_after S _ = S"

definition live :: "controller_call list \<Rightarrow> renderer_ref set" where
  "live tr = foldl live_after {} tr"

definition listening :: "controller_call list \<Rightarrow> renderer_ref set" where
  "listening tr = foldl listening_after {} tr"

inductive controller_step ::
  "controller \<Rightarrow> controller_call list \<Rightarrow> controller_event \<Rightarrow> controller \<Rightarrow> controller_call list \<Rightarrow> bool" where
  ce_operation: "run_operation name outcome c = (c', calls) \<Longrightarrow>
    controller_step c tr (Ce_Operation name outcome) c' (tr @ calls)"
| ce_render: "render_operation outcome c = (c', calls) \<Longrightarrow>
    controller_step c tr (Ce_Render outcome) c' (tr @ calls)"
| ce_late: "handleFailure name e c = (c', calls) \<Longrightarrow>
    controller_step c tr (Ce_Late_Failure name e) c' (tr @ calls)"
| ce_request: "requestRecovery reason e c = (c', calls) \<Longrightarrow>
    controller_step c tr (Ce_Request reason e) c' (tr @ calls)"
| ce_lost: "listening tr \<noteq> {} \<Longrightarrow> onContextLost c = (c', calls) \<Longrightarrow>
    controller_step c tr Ce_Context_Lost c' (tr @ calls)"
| ce_restored: "listening tr \<noteq> {} \<Longrightarrow> onContextRestored c = (c', calls) \<Longrightarrow>
    controller_step c tr Ce_Context_Restored c' (tr @ calls)"
| ce_created: "(\<And>r outcome. result = Created r outcome \<Longrightarrow> Log_Created r \<notin> set tr) \<Longrightarrow>
    settle_create result c = Some (c', calls) \<Longrightarrow>
    controller_step c tr (Ce_Created result) c' (tr @ calls)"
| ce_finally: "settle_finally c = Some c' \<Longrightarrow> controller_step c tr Ce_Finally c' tr"
| ce_dispose: "dispose_controller c = (c', calls) \<Longrightarrow> controller_step c tr Ce_Dispose c' (tr @ calls)"

inductive controller_run ::
  "controller_event list \<Rightarrow> controller \<Rightarrow> controller_call list \<Rightarrow> bool" where
  controller_start: "newController initial = (c, calls) \<Longrightarrow> controller_run [] c (Log_Created initial # calls)"
| controller_more: "controller_run es c tr \<Longrightarrow> controller_step c tr e c' tr' \<Longrightarrow>
    controller_run (es @ [e]) c' tr'"

section \<open>One renderer at a time\<close>

lemma live_append [simp]: "live (tr @ calls) = foldl live_after (live tr) calls"
  by (simp add: live_def)

lemma listening_append [simp]: "listening (tr @ calls) = foldl listening_after (listening tr) calls"
  by (simp add: listening_def)

definition listens :: "renderer_ref \<Rightarrow> renderer_ref set" where
  "listens r = (if rn_kind r = Webgl2 then {r} else {})"

definition owner_ok :: "controller \<Rightarrow> controller_call list \<Rightarrow> bool" where
  "owner_ok c tr \<longleftrightarrow>
     (case co_active c of
        None \<Rightarrow> co_state c = St_Disposed \<and> live tr = {} \<and> listening tr = {}
      | Some r \<Rightarrow> co_state c \<noteq> St_Disposed \<and> live tr = {r} \<and> listening tr = listens r \<and> Log_Created r \<in> set tr)"

definition recovery_ok :: "controller \<Rightarrow> bool" where
  "recovery_ok c \<longleftrightarrow>
     (co_state c = St_Recovering \<longrightarrow> (\<exists>y. co_recovery c = Some y \<and> ry_attempts y \<noteq> []))
     \<and> (\<forall>y. co_recovery c = Some y \<and> co_state c \<noteq> St_Disposed \<longrightarrow> ry_token y = co_recoveryToken c)
     \<and> (\<forall>y. co_recovery c = Some y \<longrightarrow> length (ry_attempts y) \<le> 2)"

text \<open>Calls that neither create nor dispose, nor touch listeners.\<close>

definition quiet :: "controller_call list \<Rightarrow> bool" where
  "quiet calls \<longleftrightarrow> list_all (\<lambda>x. (\<exists>k. x = Call_Create k) \<or> (\<exists>r s. x = Call_Operation r s)
     \<or> (\<exists>r p. x = Call_Activate r p) \<or> x = Call_Full_Repaint) calls"

lemma quiet_simps [simp]:
  "quiet []" "quiet (Call_Create k # cs) \<longleftrightarrow> quiet cs" "quiet (Call_Operation r s # cs) \<longleftrightarrow> quiet cs"
  "quiet (Call_Activate r p # cs) \<longleftrightarrow> quiet cs" "quiet (Call_Full_Repaint # cs) \<longleftrightarrow> quiet cs"
  by (auto simp: quiet_def)

lemma quiet_sets: "quiet calls \<Longrightarrow> foldl live_after S calls = S \<and> foldl listening_after S calls = S"
  by (induction calls) (auto simp: quiet_def)

lemma owner_quiet:
  "owner_ok c tr \<Longrightarrow> quiet calls \<Longrightarrow> co_active c' = co_active c \<Longrightarrow>
     (co_state c' = St_Disposed \<longleftrightarrow> co_state c = St_Disposed) \<Longrightarrow> owner_ok c' (tr @ calls)"
  by (auto simp: owner_ok_def quiet_sets split: option.splits)

lemma request_keeps:
  "requestRecovery reason e c = (c', calls) \<Longrightarrow> recovery_ok c \<Longrightarrow>
     recovery_ok c' \<and> quiet calls \<and> co_active c' = co_active c \<and> (co_state c' = St_Disposed \<longleftrightarrow> co_state c = St_Disposed)"
  by (auto simp: requestRecovery_def recovery_ok_def Let_def split: if_splits option.splits)

lemma run_keeps:
  "run_operation name outcome c = (c', calls) \<Longrightarrow> recovery_ok c \<Longrightarrow>
     recovery_ok c' \<and> quiet calls \<and> co_active c' = co_active c \<and> (co_state c' = St_Disposed \<longleftrightarrow> co_state c = St_Disposed)"
  by (auto simp: run_operation_def handleFailure_def split: option.splits if_splits prod.splits dest!: request_keeps)

lemma set_attempts_frame [simp]:
  "co_active (set_attempts ks c) = co_active c" "co_state (set_attempts ks c) = co_state c"
  "co_recoveryToken (set_attempts ks c) = co_recoveryToken c"
  "co_recovery (set_attempts ks c) = map_option (\<lambda>y. y\<lparr>ry_attempts := ks\<rparr>) (co_recovery c)"
  by (simp_all add: set_attempts_def)

lemma next_keeps:
  assumes "next_attempt token rest c = (c', calls)" "co_recovery c = Some y" "ry_token y = token"
    "co_state c \<noteq> St_Disposed \<Longrightarrow> token = co_recoveryToken c" "length rest \<le> 2"
  shows "recovery_ok c' \<and> quiet calls \<and> co_active c' = co_active c \<and> (co_state c' = St_Disposed \<longleftrightarrow> co_state c = St_Disposed)"
  using assms by (cases rest) (auto simp: next_attempt_def recovery_ok_def split: if_splits)

lemma settle_create_recovery:
  assumes "recovery_ok c" "settle_create result c = Some (c', calls)"
  shows "recovery_ok c'"
proof -
  from assms(2) obtain y k rest where y: "co_recovery c = Some y" "ry_attempts y = k # rest"
    by (auto simp: settle_create_def split: option.splits list.splits)
  then have len: "length rest \<le> 2" and tok: "co_state c \<noteq> St_Disposed \<Longrightarrow> ry_token y = co_recoveryToken c"
    using assms(1) by (auto simp: recovery_ok_def)
  show ?thesis
  proof (cases result)
    case (Create_Failed e)
    then have "next_attempt (ry_token y) rest (c\<lparr>co_lastErrorClass := Some e\<rparr>) = (c', calls)"
      using assms(2) y by (simp add: settle_create_def)
    then show ?thesis
      using next_keeps [of "ry_token y" rest "c\<lparr>co_lastErrorClass := Some e\<rparr>" c' calls y] y tok len by simp
  next
    case (Created r outcome)
    show ?thesis
    proof (cases "ry_token y \<noteq> co_recoveryToken c \<or> co_state c = St_Disposed")
      case True
      then have "c' = set_attempts [] c" using Created assms(2) y by (simp add: settle_create_def)
      then show ?thesis using True assms(1) tok y by (auto simp: recovery_ok_def)
    next
      case False
      have rec: "recovery_ok (set_attempts [] (activate k y r c))"
        using False y by (auto simp: recovery_ok_def activate_def)
      have "recovery_ok d" if "next_attempt (ry_token y) rest ((activate k y r c)\<lparr>co_lastErrorClass := Some e\<rparr>) = (d, more)"
        for d more e
        using next_keeps [OF that, of y] y False len by (simp add: activate_def)
      then show ?thesis using rec Created assms(2) y False
        by (auto simp: settle_create_def Let_def split: activation.splits prod.splits)
    qed
  qed
qed

lemma controller_step_recovery: "controller_step c tr e c' tr' \<Longrightarrow> recovery_ok c \<Longrightarrow> recovery_ok c'"
proof (induction rule: controller_step.induct)
  case (ce_operation name outcome c c' calls tr)
  then show ?case using run_keeps by blast
next
  case (ce_render outcome c c' calls tr)
  then show ?case using run_keeps by (auto simp: render_operation_def split: if_splits)
next
  case (ce_late name e c c' calls tr)
  then show ?case using request_keeps by (auto simp: handleFailure_def)
next
  case (ce_request reason e c c' calls tr)
  then show ?case using request_keeps by blast
next
  case (ce_lost tr c c' calls)
  then show ?case using request_keeps by (auto simp: onContextLost_def)
next
  case (ce_restored tr c c' calls)
  then show ?case using request_keeps by (auto simp: onContextRestored_def split: if_splits)
next
  case (ce_created result tr c c' calls)
  then show ?case using settle_create_recovery by blast
next
  case (ce_finally c c' tr)
  then show ?case by (auto simp: settle_finally_def recovery_ok_def split: option.splits if_splits)
next
  case (ce_dispose c c' calls tr)
  then show ?case by (auto simp: dispose_controller_def recovery_ok_def split: if_splits)
qed

lemma controller_run_recovery: "controller_run es c tr \<Longrightarrow> recovery_ok c"
proof (induction rule: controller_run.induct)
  case (controller_start initial c calls)
  then show ?case by (auto simp: newController_def recovery_ok_def)
next
  case (controller_more es c tr e c' tr')
  then show ?case using controller_step_recovery by blast
qed

lemma replaced_sets:
  assumes "owner_ok c tr" "co_state c \<noteq> St_Disposed" "Log_Created r \<notin> set tr"
  shows "foldl live_after (live tr) (Log_Created r # removeContextListeners (co_active c) @ installContextListeners r
      @ [Call_Activate r (co_active c)] @ dispose_previous (co_active c)) = {r}
    \<and> foldl listening_after (listening tr) (Log_Created r # removeContextListeners (co_active c) @ installContextListeners r
      @ [Call_Activate r (co_active c)] @ dispose_previous (co_active c)) = listens r"
proof -
  from assms obtain a where a: "co_active c = Some a" "live tr = {a}" "listening tr = listens a" "Log_Created a \<in> set tr"
    by (auto simp: owner_ok_def split: option.splits)
  with assms(3) have "r \<noteq> a" by auto
  with a show ?thesis
    by (auto simp: removeContextListeners_def installContextListeners_def dispose_previous_def listens_def)
qed

lemma settle_create_owner:
  assumes "owner_ok c tr" "recovery_ok c" "settle_create result c = Some (c', calls)"
    and fresh: "\<And>r outcome. result = Created r outcome \<Longrightarrow> Log_Created r \<notin> set tr"
    and safe: "\<And>r e. result \<noteq> Created r (Activate_Throws e)"
  shows "owner_ok c' (tr @ calls)"
proof -
  from assms(3) obtain y k rest where y: "co_recovery c = Some y" "ry_attempts y = k # rest"
    by (auto simp: settle_create_def split: option.splits list.splits)
  then have len: "length rest \<le> 2" and tok: "co_state c \<noteq> St_Disposed \<Longrightarrow> ry_token y = co_recoveryToken c"
    using assms(2) by (auto simp: recovery_ok_def)
  show ?thesis
  proof (cases result)
    case (Create_Failed e)
    then have "next_attempt (ry_token y) rest (c\<lparr>co_lastErrorClass := Some e\<rparr>) = (c', calls)"
      using assms(3) y by (simp add: settle_create_def)
    from next_keeps [OF this, of y] y tok len show ?thesis using owner_quiet [OF assms(1)] by simp
  next
    case (Created r outcome)
    note new = fresh [OF Created]
    show ?thesis
    proof (cases "co_state c = St_Disposed")
      case True
      then have "c' = set_attempts [] c" "calls = [Log_Created r, Call_Dispose_Renderer r]"
        using Created assms(3) y by (simp_all add: settle_create_def)
      with True assms(1) new show ?thesis by (auto simp: owner_ok_def split: option.splits)
    next
      case False
      let ?calls = "Log_Created r # removeContextListeners (co_active c) @ installContextListeners r
        @ [Call_Activate r (co_active c)] @ dispose_previous (co_active c)"
      note sets = replaced_sets [OF assms(1) False new]
      have replaced: "owner_ok d (tr @ ?calls @ more)"
        if "quiet more" "co_active d = Some r" "co_state d \<noteq> St_Disposed" for d more
        using sets quiet_sets [OF that(1)] that(2,3) by (simp add: owner_ok_def)
      show ?thesis
      proof (cases outcome)
        case Activation_Ok
        then have "c' = set_attempts [] (activate k y r c)" "calls = ?calls @ [Call_Full_Repaint]"
          using Created assms(3) y False tok by (simp_all add: settle_create_def Let_def)
        then show ?thesis using replaced [of "[Call_Full_Repaint]" c'] by (simp add: activate_def)
      next
        case (Activate_Throws e)
        then show ?thesis using safe Created by blast
      next
        case (Repaint_Throws e)
        obtain d more where n: "next_attempt (ry_token y) rest ((activate k y r c)\<lparr>co_lastErrorClass := Some e\<rparr>) = (d, more)"
          by force
        have "c' = d" "calls = ?calls @ Call_Full_Repaint # more"
          using Created assms(3) y False tok Repaint_Throws n by (simp_all add: settle_create_def Let_def)
        moreover have "quiet more" "co_active d = Some r" "co_state d \<noteq> St_Disposed"
          using next_keeps [OF n, of y] y tok False len by (simp_all add: activate_def)
        ultimately show ?thesis using replaced [of "Call_Full_Repaint # more" d] by simp
      qed
    qed
  qed
qed

definition activation_safe :: "controller_event \<Rightarrow> bool" where
  "activation_safe e = (case e of Ce_Created (Created r (Activate_Throws x)) \<Rightarrow> False | _ \<Rightarrow> True)"

lemma controller_step_owner:
  "controller_step c tr e c' tr' \<Longrightarrow> recovery_ok c \<Longrightarrow> activation_safe e \<Longrightarrow> owner_ok c tr \<Longrightarrow> owner_ok c' tr'"
proof (induction rule: controller_step.induct)
  case (ce_operation name outcome c c' calls tr)
  then show ?case using run_keeps owner_quiet by blast
next
  case (ce_render outcome c c' calls tr)
  then show ?case using run_keeps owner_quiet by (auto simp: render_operation_def split: if_splits)
next
  case (ce_late name e c c' calls tr)
  then show ?case using request_keeps owner_quiet unfolding handleFailure_def by blast
next
  case (ce_request reason e c c' calls tr)
  then show ?case using request_keeps owner_quiet by blast
next
  case (ce_lost tr c c' calls)
  then show ?case using request_keeps owner_quiet unfolding onContextLost_def by blast
next
  case (ce_restored tr c c' calls)
  then show ?case using request_keeps owner_quiet by (auto simp: onContextRestored_def split: if_splits)
next
  case (ce_created result tr c c' calls)
  have "result \<noteq> Created r (Activate_Throws x)" for r x
    using ce_created.prems(2) by (auto simp: activation_safe_def)
  then show ?case using settle_create_owner ce_created by blast
next
  case (ce_finally c c' tr)
  then show ?case by (auto simp: settle_finally_def owner_ok_def split: option.splits if_splits)
next
  case (ce_dispose c c' calls tr)
  then show ?case
    by (auto simp: dispose_controller_def owner_ok_def removeContextListeners_def listens_def split: if_splits option.splits)
qed

lemma controller_run_owner: "controller_run es c tr \<Longrightarrow> list_all activation_safe es \<Longrightarrow> owner_ok c tr"
proof (induction rule: controller_run.induct)
  case (controller_start initial c calls)
  then show ?case
    by (auto simp: newController_def owner_ok_def live_def listening_def listens_def installContextListeners_def)
next
  case (controller_more es c tr e c' tr')
  then show ?case using controller_step_owner controller_run_recovery by auto
qed


text \<open>The steps as a function, for evaluating runs.\<close>

definition logged ::
  "controller_call list \<Rightarrow> controller \<times> controller_call list \<Rightarrow> (controller \<times> controller_call list) option" where
  "logged tr r = Some (fst r, tr @ snd r)"

definition fresh_result :: "create_result \<Rightarrow> controller_call list \<Rightarrow> bool" where
  "fresh_result result tr = (case result of Created r x \<Rightarrow> Log_Created r \<notin> set tr | Create_Failed e \<Rightarrow> True)"

fun controller_do ::
  "controller_event \<Rightarrow> controller \<times> controller_call list \<Rightarrow> (controller \<times> controller_call list) option" where
  "controller_do (Ce_Operation name outcome) (c, tr) = logged tr (run_operation name outcome c)"
| "controller_do (Ce_Render outcome) (c, tr) = logged tr (render_operation outcome c)"
| "controller_do (Ce_Late_Failure name e) (c, tr) = logged tr (handleFailure name e c)"
| "controller_do (Ce_Request reason e) (c, tr) = logged tr (requestRecovery reason e c)"
| "controller_do Ce_Context_Lost (c, tr) = (if listening tr = {} then None else logged tr (onContextLost c))"
| "controller_do Ce_Context_Restored (c, tr) = (if listening tr = {} then None else logged tr (onContextRestored c))"
| "controller_do (Ce_Created result) (c, tr) =
     (if fresh_result result tr then Option.bind (settle_create result c) (logged tr) else None)"
| "controller_do Ce_Finally (c, tr) = map_option (\<lambda>c'. (c', tr)) (settle_finally c)"
| "controller_do Ce_Dispose (c, tr) = logged tr (dispose_controller c)"

fun controller_does ::
  "controller_event list \<Rightarrow> controller \<times> controller_call list \<Rightarrow> (controller \<times> controller_call list) option" where
  "controller_does [] s = Some s"
| "controller_does (e # es) s = Option.bind (controller_do e s) (controller_does es)"

lemma controller_do_step: "controller_do e (c, tr) = Some (c', tr') \<Longrightarrow> controller_step c tr e c' tr'"
proof (cases e)
  case (Ce_Created result)
  assume "controller_do e (c, tr) = Some (c', tr')"
  with Ce_Created obtain d calls where "settle_create result c = Some (d, calls)" "c' = d" "tr' = tr @ calls"
    "fresh_result result tr" by (auto simp: logged_def bind_eq_Some_conv split: if_splits)
  then show ?thesis unfolding Ce_Created by (auto simp: fresh_result_def intro!: ce_created)
qed (auto simp: logged_def split: if_splits intro!: controller_step.intros intro: prod.collapse)

lemma controller_does_run:
  "controller_run es c tr \<Longrightarrow> controller_does fs (c, tr) = Some (c', tr') \<Longrightarrow> controller_run (es @ fs) c' tr'"
proof (induction fs arbitrary: es c tr)
  case (Cons f fs)
  then obtain c1 tr1 where step: "controller_do f (c, tr) = Some (c1, tr1)" "controller_does fs (c1, tr1) = Some (c', tr')"
    by (auto simp: bind_eq_Some_conv)
  from Cons.IH [OF controller_more [OF Cons.prems(1) controller_do_step [OF step(1)]] step(2)] show ?case by simp
qed simp

definition sample_renderer :: "nat \<Rightarrow> renderer_kind \<Rightarrow> renderer_ref" where
  "sample_renderer i k = \<lparr>rn_id = i, rn_kind = k\<rparr>"

definition fresh_start :: "renderer_ref \<Rightarrow> controller \<times> controller_call list" where
  "fresh_start r = (fst (newController r), Log_Created r # snd (newController r))"

lemma fresh_start_run: "controller_run [] (fst (fresh_start r)) (snd (fresh_start r))"
  by (simp add: fresh_start_def controller_start)

lemma does_run: "controller_does es (fresh_start r) = Some s \<Longrightarrow> controller_run es (fst s) (snd s)"
  using controller_does_run [OF fresh_start_run, of es r "fst s" "snd s"] by simp

definition fallback_events :: "controller_event list" where
  "fallback_events = [Ce_Context_Lost, Ce_Created (Create_Failed ''Error''),
     Ce_Created (Created (sample_renderer 1 Canvas2d) Activation_Ok), Ce_Finally]"

definition fallback_end :: "controller \<times> controller_call list" where
  "fallback_end = the (controller_does fallback_events (fresh_start (sample_renderer 0 Webgl2)))"


section \<open>A recovery ends\<close>

fun settle_all :: "create_result list \<Rightarrow> controller \<Rightarrow> controller" where
  "settle_all [] c = c"
| "settle_all (r # rs) c = (case settle_create r c of None \<Rightarrow> c | Some (c', calls) \<Rightarrow> settle_all rs c')"

lemma next_state:
  "next_attempt token rest c = (c', calls) \<Longrightarrow>
     co_state c' = (if rest = [] \<and> token = co_recoveryToken c \<and> co_state c \<noteq> St_Disposed then St_Unavailable else co_state c)"
  by (cases rest) (auto simp: next_attempt_def)

lemma settle_settled:
  assumes "settle_create r c = Some (c', calls)" "co_state c \<noteq> St_Recovering" "co_state c \<noteq> St_Disposed"
  shows "co_state c' \<noteq> St_Recovering \<and> co_state c' \<noteq> St_Disposed"
  using assms
  by (auto simp: settle_create_def Let_def activate_def dest!: next_state
      split: option.splits list.splits create_result.splits if_splits activation.splits prod.splits)

lemma settle_all_settled:
  "co_state c \<noteq> St_Recovering \<Longrightarrow> co_state c \<noteq> St_Disposed \<Longrightarrow>
     co_state (settle_all rs c) \<noteq> St_Recovering \<and> co_state (settle_all rs c) \<noteq> St_Disposed"
  by (induction rs arbitrary: c) (auto split: option.split dest: settle_settled)

lemma settle_recovering:
  assumes "co_state c = St_Recovering" "co_recovery c = Some y" "ry_token y = co_recoveryToken c"
    "ry_attempts y = k # rest" "settle_create r c = Some (c', calls)"
  shows "if (\<exists>e. r = Create_Failed e) \<and> rest \<noteq> []
    then co_state c' = St_Recovering \<and> co_recoveryToken c' = co_recoveryToken c
       \<and> co_recovery c' = Some (y\<lparr>ry_attempts := rest\<rparr>)
    else co_state c' \<noteq> St_Recovering \<and> co_state c' \<noteq> St_Disposed"
  using assms
  by (cases rest) (auto simp: settle_create_def Let_def activate_def next_attempt_def
      split: create_result.splits if_splits activation.splits prod.splits)

lemma settle_all_ends:
  "co_state c = St_Recovering \<Longrightarrow> co_recovery c = Some y \<Longrightarrow> ry_token y = co_recoveryToken c \<Longrightarrow>
     ry_attempts y \<noteq> [] \<Longrightarrow> length (ry_attempts y) \<le> length rs \<Longrightarrow>
     co_state (settle_all rs c) \<noteq> St_Recovering \<and> co_state (settle_all rs c) \<noteq> St_Disposed"
proof (induction rs arbitrary: c y)
  case (Cons r rs)
  then obtain k rest where k: "ry_attempts y = k # rest" by (cases "ry_attempts y") auto
  have "settle_create r c \<noteq> None" using Cons.prems(2) k by (simp add: settle_create_def)
  then obtain c' calls where s: "settle_create r c = Some (c', calls)" by auto
  note settle = settle_recovering [OF Cons.prems(1-3) k s]
  show ?case
  proof (cases "(\<exists>e. r = Create_Failed e) \<and> rest \<noteq> []")
    case True
    with settle Cons.IH [of c' "y\<lparr>ry_attempts := rest\<rparr>"] Cons.prems(3,5) k s show ?thesis by simp
  next
    case False
    with settle settle_all_settled [of c' rs] s show ?thesis by simp
  qed
qed simp

text \<open>
  A recovery ends. In every run, when the controller is recovering, the results of two attempts to
  create a renderer, whatever they are, leave it ready, on the fallback, or unavailable.
\<close>

theorem recovery_ends:
  assumes "controller_run es c tr" "co_state c = St_Recovering" "2 \<le> length results"
  shows "co_state (settle_all results c) \<in> {St_Ready, St_Fallback, St_Unavailable}"
proof -
  from controller_run_recovery [OF assms(1)] assms(2) obtain y where
    "co_recovery c = Some y" "ry_attempts y \<noteq> []" "ry_token y = co_recoveryToken c" "length (ry_attempts y) \<le> 2"
    by (auto simp: recovery_ok_def)
  with settle_all_ends [of c y results] assms(2,3) show ?thesis
    by (cases "co_state (settle_all results c)") auto
qed

theorem recovery_ends_witness:
  "co_state (settle_all [Create_Failed ''Error'', Create_Failed ''Error'']
      (fst (requestRecovery ''render'' None (fst (fresh_start (sample_renderer 0 Webgl2)))))) \<in> {St_Ready, St_Fallback, St_Unavailable}"
proof (rule recovery_ends)
  let ?c = "fst (fresh_start (sample_renderer 0 Webgl2))" and ?tr = "snd (fresh_start (sample_renderer 0 Webgl2))"
  let ?r = "requestRecovery ''render'' None ?c"
  show "controller_run ([] @ [Ce_Request ''render'' None]) (fst ?r) (?tr @ snd ?r)"
    by (rule controller_more [OF fresh_start_run ce_request]) simp
  show "co_state (fst ?r) = St_Recovering" by code_simp
qed simp

section \<open>Two things the controller does not do\<close>

text \<open>
  A restored context never starts a recovery: the handler asks for one only while a recovery is under way,
  and then the request is ignored.
\<close>

theorem context_restored_does_nothing:
  assumes "controller_run es c tr"
  shows "onContextRestored c = (c, [])"
  using controller_run_recovery [OF assms]
  by (auto simp: onContextRestored_def requestRecovery_def recovery_ok_def)

theorem context_restored_does_nothing_witness:
  "onContextRestored (fst (fresh_start (sample_renderer 0 Webgl2))) = (fst (fresh_start (sample_renderer 0 Webgl2)), [])"
  by (rule context_restored_does_nothing [OF fresh_start_run])

text \<open>
  When the callback that activates a replacement throws, the renderer that was replaced is not disposed
  of: the next attempt disposes of the replacement instead.
\<close>

definition leak_events :: "controller_event list" where
  "leak_events = [Ce_Context_Lost, Ce_Created (Created (sample_renderer 1 Webgl2) (Activate_Throws ''Error'')),
     Ce_Created (Created (sample_renderer 2 Canvas2d) Activation_Ok), Ce_Finally]"

theorem activation_error_leaks:
  "\<exists>c tr. controller_run leak_events c tr \<and> co_active c = Some (sample_renderer 2 Canvas2d)
    \<and> live tr = {sample_renderer 0 Webgl2, sample_renderer 2 Canvas2d}"
proof -
  let ?s = "the (controller_does leak_events (fresh_start (sample_renderer 0 Webgl2)))"
  have "controller_does leak_events (fresh_start (sample_renderer 0 Webgl2)) = Some ?s" by code_simp
  then have "controller_run leak_events (fst ?s) (snd ?s)" by (rule does_run)
  moreover have "co_active (fst ?s) = Some (sample_renderer 2 Canvas2d)" by code_simp
  moreover have "live (snd ?s) = {sample_renderer 0 Webgl2, sample_renderer 2 Canvas2d}" by code_simp
  ultimately show ?thesis by blast
qed

end
