(* ===== verification/Terminal_Pipeline.thy ===== *)
theory Terminal_Pipeline
  imports Prelude "HOL-Library.Sublist"
begin

text \<open>
  The accounting of terminal output on its way from the socket to the screen,
  \<^verbatim>\<open>packages/ghostty-react/src/scheduler/terminal-frame-scheduler.ts\<close>: a bounded list of records,
  one for each message received, the times at which it passed the stages, and running totals.

  The clock is an argument of every operation and never negative; \<open>-1\<close> stands for a stage not yet
  passed, as in the code. Sizes in bytes are finite. The class changes its records in place; a record is
  found again by its sequence number.
\<close>

section \<open>State\<close>

definition METRICS_CAPACITY :: nat where
  "METRICS_CAPACITY = 512"

record presentation_sample =
  sm_surfaceInstanceId :: nat
  sm_runtimeGeneration :: nat
  sm_rendererGeneration :: nat
  sm_modelFrameId :: nat
  sm_geometryGeneration :: nat
  sm_modelAppliedAt :: rat
  sm_renderStartedAt :: rat
  sm_submittedAt :: rat
  sm_nextPaintObservedAt :: rat

record pipeline_record =
  pr_sequence :: nat
  pr_bytes :: nat
  pr_postedBytes :: nat
  pr_receivedAt :: rat
  pr_postedAt :: rat
  pr_parsedAt :: rat
  pr_modelAppliedAt :: rat
  pr_renderStartedAt :: rat
  pr_submittedAt :: rat
  pr_nextPaintObservedAt :: rat
  pr_surfaceInstanceId :: nat
  pr_runtimeGeneration :: nat
  pr_rendererGeneration :: nat
  pr_modelFrameId :: nat
  pr_geometryGeneration :: nat

record pipeline =
  pp_records :: "pipeline_record list"
  pp_sequence :: nat
  pp_receivedBytes :: nat
  pp_postedBytes :: nat
  pp_parsedBytes :: nat
  pp_presentedBytes :: nat
  pp_pendingBytes :: nat
  pp_maxPendingBytes :: nat
  pp_lastSubmittedModelFrame :: nat
  pp_lastNextPaintObservedFrame :: nat

definition newPipeline :: pipeline where
  "newPipeline = \<lparr>pp_records = [], pp_sequence = 0, pp_receivedBytes = 0, pp_postedBytes = 0,
     pp_parsedBytes = 0, pp_presentedBytes = 0, pp_pendingBytes = 0, pp_maxPendingBytes = 0,
     pp_lastSubmittedModelFrame = 0, pp_lastNextPaintObservedFrame = 0\<rparr>"

section \<open>Operations\<close>

text \<open>\<open>Math.max(0, Math.trunc(bytes))\<close>.\<close>

definition whole_bytes :: "rat \<Rightarrow> nat" where
  "whole_bytes q = nat \<lfloor>q\<rfloor>"

definition record_parsed :: "pipeline_record \<Rightarrow> bool" where
  "record_parsed r \<longleftrightarrow> 0 \<le> pr_parsedAt r"

definition record_presented :: "pipeline_record \<Rightarrow> bool" where
  "record_presented r \<longleftrightarrow> 0 \<le> pr_nextPaintObservedAt r"

text \<open>One round of \<open>trim\<close>: the first parsed record goes, or else the oldest.\<close>

fun drop_first :: "('a \<Rightarrow> bool) \<Rightarrow> 'a list \<Rightarrow> 'a list" where
  "drop_first p [] = []"
| "drop_first p (x # xs) = (if p x then xs else x # drop_first p xs)"

definition drop_record :: "pipeline_record list \<Rightarrow> pipeline_record list" where
  "drop_record rs = (if list_ex record_parsed rs then drop_first record_parsed rs else drop 1 rs)"

lemma drop_first_length: "list_ex p xs \<Longrightarrow> Suc (length (drop_first p xs)) = length xs"
  by (induction xs) auto

lemma drop_record_length: "length (drop_record rs) = length rs - 1"
  using drop_first_length [of record_parsed rs] by (auto simp: drop_record_def)

function trim_records :: "nat \<Rightarrow> pipeline_record list \<Rightarrow> pipeline_record list" where
  "trim_records capacity rs = (if capacity < length rs then trim_records capacity (drop_record rs) else rs)"
  by auto

termination
  by (relation "measure (\<lambda>(c, rs). length rs)") (auto simp: drop_record_length)

declare trim_records.simps [simp del]

definition new_record :: "nat \<Rightarrow> nat \<Rightarrow> rat \<Rightarrow> pipeline_record" where
  "new_record sequence bytes now = \<lparr>pr_sequence = sequence, pr_bytes = bytes, pr_postedBytes = 0,
     pr_receivedAt = now, pr_postedAt = - 1, pr_parsedAt = - 1, pr_modelAppliedAt = - 1,
     pr_renderStartedAt = - 1, pr_submittedAt = - 1, pr_nextPaintObservedAt = - 1, pr_surfaceInstanceId = 0,
     pr_runtimeGeneration = 0, pr_rendererGeneration = 0, pr_modelFrameId = 0, pr_geometryGeneration = 0\<rparr>"

definition received_bytes :: "nat \<Rightarrow> rat \<Rightarrow> rat \<Rightarrow> pipeline \<Rightarrow> pipeline \<times> nat" where
  "received_bytes capacity now bytes p =
     (let n = whole_bytes bytes; sequence = pp_sequence p + 1;
          pending = pp_pendingBytes p + n
      in (p\<lparr>pp_sequence := sequence,
            pp_records := trim_records capacity (pp_records p @ [new_record sequence n now]),
            pp_receivedBytes := pp_receivedBytes p + n, pp_pendingBytes := pending,
            pp_maxPendingBytes := max (pp_maxPendingBytes p) pending\<rparr>, sequence))"

fun post_records :: "rat \<Rightarrow> nat \<Rightarrow> pipeline_record list \<Rightarrow> pipeline_record list \<times> nat" where
  "post_records timestamp remaining [] = ([], 0)"
| "post_records timestamp remaining (r # rs) =
     (if remaining = 0 then (r # rs, 0)
      else let available = pr_bytes r - pr_postedBytes r in
        if available = 0 then (let (rs', n) = post_records timestamp remaining rs in (r # rs', n))
        else let amount = min available remaining;
                 r' = r\<lparr>pr_postedBytes := pr_postedBytes r + amount,
                        pr_postedAt := (if pr_postedAt r < 0 then max (pr_receivedAt r) timestamp else pr_postedAt r)\<rparr>;
                 (rs', n) = post_records timestamp (remaining - amount) rs
             in (r' # rs', amount + n))"

definition posted_bytes :: "rat \<Rightarrow> rat \<Rightarrow> pipeline \<Rightarrow> pipeline" where
  "posted_bytes now bytes p =
     (let (rs, n) = post_records now (whole_bytes bytes) (pp_records p)
      in p\<lparr>pp_records := rs, pp_postedBytes := pp_postedBytes p + n\<rparr>)"

text \<open>The first record with the sequence number of the token, if it is there and not yet parsed.\<close>

definition put_record :: "pipeline_record \<Rightarrow> pipeline_record list \<Rightarrow> pipeline_record list" where
  "put_record r rs = map (\<lambda>x. if pr_sequence x = pr_sequence r then r else x) rs"

definition parsed_token :: "rat \<Rightarrow> nat \<Rightarrow> pipeline \<Rightarrow> pipeline" where
  "parsed_token now token p =
     (case find (\<lambda>r. pr_sequence r = token) (pp_records p) of
        None \<Rightarrow> p
      | Some r \<Rightarrow>
          if record_parsed r then p
          else p\<lparr>pp_records := put_record (r\<lparr>pr_parsedAt := max (pr_receivedAt r) now\<rparr>) (pp_records p),
                 pp_parsedBytes := pp_parsedBytes p + pr_bytes r,
                 pp_pendingBytes := pp_pendingBytes p - pr_bytes r\<rparr>)"

definition sample_or :: "('a \<Rightarrow> 'b) \<Rightarrow> 'a option \<Rightarrow> 'b \<Rightarrow> 'b" where
  "sample_or f sample d = (case sample of Some s \<Rightarrow> f s | None \<Rightarrow> d)"

definition presents :: "presentation_sample option \<Rightarrow> pipeline_record \<Rightarrow> bool" where
  "presents sample r \<longleftrightarrow> record_parsed r \<and> \<not> record_presented r
     \<and> (case sample of None \<Rightarrow> True
         | Some s \<Rightarrow> pr_runtimeGeneration r = 0 \<or> pr_runtimeGeneration r = sm_runtimeGeneration s)"

definition present_record :: "rat \<Rightarrow> presentation_sample option \<Rightarrow> pipeline_record \<Rightarrow> pipeline_record" where
  "present_record fallback sample r =
     (let modelApplied = max (pr_parsedAt r) (sample_or sm_modelAppliedAt sample fallback);
          renderStarted = max modelApplied (sample_or sm_renderStartedAt sample fallback);
          submitted = max renderStarted (sample_or sm_submittedAt sample fallback)
      in r\<lparr>pr_surfaceInstanceId := sample_or sm_surfaceInstanceId sample (pr_surfaceInstanceId r),
           pr_runtimeGeneration := sample_or sm_runtimeGeneration sample (pr_runtimeGeneration r),
           pr_rendererGeneration := sample_or sm_rendererGeneration sample (pr_rendererGeneration r),
           pr_modelFrameId := sample_or sm_modelFrameId sample (pr_modelFrameId r),
           pr_geometryGeneration := sample_or sm_geometryGeneration sample (pr_geometryGeneration r),
           pr_modelAppliedAt := modelApplied, pr_renderStartedAt := renderStarted, pr_submittedAt := submitted,
           pr_nextPaintObservedAt := max submitted (sample_or sm_nextPaintObservedAt sample fallback)\<rparr>)"

definition presented_frame :: "rat \<Rightarrow> presentation_sample option \<Rightarrow> pipeline \<Rightarrow> pipeline" where
  "presented_frame now sample p =
     (let p1 = p\<lparr>pp_records := map (\<lambda>r. if presents sample r then present_record now sample r else r) (pp_records p),
                 pp_presentedBytes := pp_presentedBytes p
                   + sum_list (map pr_bytes (filter (presents sample) (pp_records p)))\<rparr>
      in case sample of
           None \<Rightarrow> p1
         | Some s \<Rightarrow> p1\<lparr>pp_lastSubmittedModelFrame := max (pp_lastSubmittedModelFrame p) (sm_modelFrameId s),
                       pp_lastNextPaintObservedFrame := max (pp_lastNextPaintObservedFrame p) (sm_modelFrameId s)\<rparr>)"

definition resetGeneration :: "pipeline \<Rightarrow> pipeline" where
  "resetGeneration p = p\<lparr>pp_records := [], pp_pendingBytes := 0\<rparr>"

section \<open>The snapshot\<close>

text \<open>The nearest-rank percentile. Sorting numbers by difference is sorting them.\<close>

definition percentile :: "rat list \<Rightarrow> rat \<Rightarrow> rat" where
  "percentile values fraction =
     (if values = [] then 0
      else let sorted_values = sort values;
               i = min (int (length sorted_values) - 1) (\<lceil>of_nat (length sorted_values) * fraction\<rceil> - 1)
           in if i < 0 then 0 else sorted_values ! nat i)"

record pipeline_snapshot =
  ss_retainedSamples :: nat
  ss_receivedBytes :: nat
  ss_postedBytes :: nat
  ss_parsedBytes :: nat
  ss_presentedBytes :: nat
  ss_pendingBytes :: nat
  ss_maxPendingBytes :: nat
  ss_oldestPendingAgeMs :: rat
  ss_receivedToParsed :: "rat \<times> rat \<times> rat"
  ss_parsedToSubmitted :: "rat \<times> rat \<times> rat"
  ss_receivedToPresented :: "rat \<times> rat \<times> rat"
  ss_frameDelay :: "rat \<times> rat \<times> rat"
  ss_lastSubmittedModelFrame :: nat
  ss_lastNextPaintObservedFrame :: nat

text \<open>The percentiles 50, 95 and 99 of one measure.\<close>

definition percentiles :: "rat list \<Rightarrow> rat \<times> rat \<times> rat" where
  "percentiles vs = (percentile vs (1 / 2), percentile vs (95 / 100), percentile vs (99 / 100))"

definition record_submitted :: "pipeline_record \<Rightarrow> bool" where
  "record_submitted r \<longleftrightarrow> 0 \<le> pr_submittedAt r"

definition pipeline_snapshot_at :: "rat \<Rightarrow> pipeline \<Rightarrow> pipeline_snapshot" where
  "pipeline_snapshot_at now p =
     (let rs = pp_records p in
      \<lparr>ss_retainedSamples = length rs, ss_receivedBytes = pp_receivedBytes p, ss_postedBytes = pp_postedBytes p,
       ss_parsedBytes = pp_parsedBytes p, ss_presentedBytes = pp_presentedBytes p,
       ss_pendingBytes = pp_pendingBytes p, ss_maxPendingBytes = pp_maxPendingBytes p,
       ss_oldestPendingAgeMs = (case find (\<lambda>r. \<not> record_parsed r) rs of
          Some r \<Rightarrow> max 0 (now - pr_receivedAt r) | None \<Rightarrow> 0),
       ss_receivedToParsed = percentiles (map (\<lambda>r. pr_parsedAt r - pr_receivedAt r) (filter record_parsed rs)),
       ss_parsedToSubmitted = percentiles (map (\<lambda>r. pr_submittedAt r - pr_parsedAt r) (filter record_submitted rs)),
       ss_receivedToPresented =
         percentiles (map (\<lambda>r. pr_nextPaintObservedAt r - pr_receivedAt r) (filter record_presented rs)),
       ss_frameDelay = percentiles (map (\<lambda>r. pr_nextPaintObservedAt r - pr_submittedAt r) (filter record_presented rs)),
       ss_lastSubmittedModelFrame = pp_lastSubmittedModelFrame p,
       ss_lastNextPaintObservedFrame = pp_lastNextPaintObservedFrame p\<rparr>)"

section \<open>Runs\<close>

datatype pipeline_event =
    Pe_Received rat
  | Pe_Posted rat
  | Pe_Parsed nat
  | Pe_Presented "presentation_sample option"
  | Pe_Reset

fun pipeline_step :: "nat \<Rightarrow> rat \<times> pipeline_event \<Rightarrow> pipeline \<Rightarrow> pipeline" where
  "pipeline_step capacity (now, Pe_Received bytes) p = fst (received_bytes capacity now bytes p)"
| "pipeline_step capacity (now, Pe_Posted bytes) p = posted_bytes now bytes p"
| "pipeline_step capacity (now, Pe_Parsed token) p = parsed_token now token p"
| "pipeline_step capacity (now, Pe_Presented sample) p = presented_frame now sample p"
| "pipeline_step capacity (now, Pe_Reset) p = resetGeneration p"

definition pipeline_run :: "nat \<Rightarrow> (rat \<times> pipeline_event) list \<Rightarrow> pipeline" where
  "pipeline_run capacity es = fold (pipeline_step capacity) es newPipeline"

section \<open>Invariants\<close>

text \<open>The times of a record are in the order of the stages, and no more was posted than received.\<close>

definition record_ok :: "pipeline_record \<Rightarrow> bool" where
  "record_ok r \<longleftrightarrow> 0 \<le> pr_receivedAt r \<and> pr_postedBytes r \<le> pr_bytes r
     \<and> (if 0 < pr_postedBytes r then pr_receivedAt r \<le> pr_postedAt r else pr_postedAt r = - 1)
     \<and> (if record_parsed r then pr_receivedAt r \<le> pr_parsedAt r else pr_parsedAt r = - 1)
     \<and> (if record_presented r
        then record_parsed r \<and> pr_parsedAt r \<le> pr_modelAppliedAt r
          \<and> pr_modelAppliedAt r \<le> pr_renderStartedAt r \<and> pr_renderStartedAt r \<le> pr_submittedAt r
          \<and> pr_submittedAt r \<le> pr_nextPaintObservedAt r
        else pr_submittedAt r = - 1)"

definition bytes_of :: "(pipeline_record \<Rightarrow> bool) \<Rightarrow> pipeline_record list \<Rightarrow> nat" where
  "bytes_of q rs = sum_list (map pr_bytes (filter q rs))"

definition pipeline_ok :: "nat \<Rightarrow> pipeline \<Rightarrow> bool" where
  "pipeline_ok capacity p \<longleftrightarrow> length (pp_records p) \<le> capacity
     \<and> list_all record_ok (pp_records p)
     \<and> sorted_wrt (<) (map pr_sequence (pp_records p))
     \<and> list_all (\<lambda>r. pr_sequence r \<le> pp_sequence p) (pp_records p)
     \<and> pp_parsedBytes p + bytes_of (\<lambda>r. \<not> record_parsed r) (pp_records p) \<le> pp_receivedBytes p
     \<and> pp_presentedBytes p + bytes_of (\<lambda>r. record_parsed r \<and> \<not> record_presented r) (pp_records p) \<le> pp_parsedBytes p
     \<and> pp_postedBytes p + sum_list (map (\<lambda>r. pr_bytes r - pr_postedBytes r) (pp_records p)) \<le> pp_receivedBytes p
     \<and> bytes_of (\<lambda>r. \<not> record_parsed r) (pp_records p) \<le> pp_pendingBytes p
     \<and> pp_pendingBytes p \<le> pp_maxPendingBytes p \<and> pp_maxPendingBytes p \<le> pp_receivedBytes p"

lemma bytes_of_simps [simp]:
  "bytes_of q [] = 0" "bytes_of q (r # rs) = (if q r then pr_bytes r else 0) + bytes_of q rs"
  "bytes_of q (rs @ ss) = bytes_of q rs + bytes_of q ss"
  by (simp_all add: bytes_of_def)

text \<open>Trimming only takes records away.\<close>

lemma subseq_drop_first: "subseq (drop_first q xs) xs"
  by (induction xs) auto

lemma subseq_drop_record: "subseq (drop_record rs) rs"
  by (cases rs) (auto simp: drop_record_def subseq_drop_first)

lemma subseq_trim: "subseq (trim_records capacity rs) rs"
proof (induction capacity rs rule: trim_records.induct)
  case (1 capacity rs)
  show ?case
  proof (cases "capacity < length rs")
    case True
    with 1 subseq_drop_record [of rs] show ?thesis
      by (subst trim_records.simps) (auto intro: subseq_order.order_trans)
  qed (simp add: trim_records.simps [of capacity rs])
qed

lemma trim_length: "length (trim_records capacity rs) \<le> capacity"
  by (induction capacity rs rule: trim_records.induct) (subst trim_records.simps, auto)

lemma subseq_keeps:
  "subseq xs ys \<Longrightarrow> set xs \<subseteq> set ys \<and> sum_list (map f xs) \<le> (sum_list (map f ys) :: nat)
     \<and> bytes_of q xs \<le> bytes_of q ys \<and> (sorted_wrt R (map g ys) \<longrightarrow> sorted_wrt R (map g xs))"
  by (induction rule: list_emb.induct) auto

lemma trim_set: "r \<in> set (trim_records capacity rs) \<Longrightarrow> r \<in> set rs"
  by (rule subsetD [OF conjunct1 [OF subseq_keeps [OF subseq_trim]]])

lemma received_ok: "pipeline_ok capacity p \<Longrightarrow> 0 \<le> now \<Longrightarrow> pipeline_ok capacity (fst (received_bytes capacity now bytes p))"
proof -
  assume p: "pipeline_ok capacity p" and now: "0 \<le> now"
  let ?n = "whole_bytes bytes"
  define x where "x = new_record (pp_sequence p + 1) ?n now"
  have x: "record_ok x" "\<not> record_parsed x" "pr_sequence x = pp_sequence p + 1" "pr_bytes x = ?n" "pr_postedBytes x = 0"
    using now by (simp_all add: x_def record_ok_def new_record_def record_parsed_def record_presented_def)
  define rs where "rs = trim_records capacity (pp_records p @ [x])"
  have keep: "set rs \<subseteq> set (pp_records p @ [x])" "sum_list (map f rs) \<le> sum_list (map f (pp_records p @ [x]))"
    "bytes_of q rs \<le> bytes_of q (pp_records p @ [x])"
    "sorted_wrt (<) (map pr_sequence (pp_records p @ [x])) \<Longrightarrow> sorted_wrt (<) (map pr_sequence rs)"
    for f :: "pipeline_record \<Rightarrow> nat" and q
    using subseq_keeps [OF subseq_trim [of capacity "pp_records p @ [x]"]] unfolding rs_def by blast+
  have all: "record_ok r \<and> pr_sequence r \<le> pp_sequence p + 1" if "r \<in> set rs" for r
  proof -
    from that keep(1) have "r \<in> set (pp_records p) \<or> r = x" by auto
    then show ?thesis using p x by (auto simp: pipeline_ok_def list_all_iff intro: le_SucI)
  qed
  have "sorted_wrt (<) (map pr_sequence (pp_records p @ [x]))"
    using p x(3) by (auto simp: pipeline_ok_def sorted_wrt_append list_all_iff less_Suc_eq_le)
  then have sorted: "sorted_wrt (<) (map pr_sequence rs)" by (rule keep(4))
  have bytes: "bytes_of (\<lambda>r. \<not> record_parsed r) rs \<le> bytes_of (\<lambda>r. \<not> record_parsed r) (pp_records p) + ?n"
    using keep(3) [of "\<lambda>r. \<not> record_parsed r"] x by simp
  moreover have "bytes_of (\<lambda>r. record_parsed r \<and> \<not> record_presented r) rs
       \<le> bytes_of (\<lambda>r. record_parsed r \<and> \<not> record_presented r) (pp_records p)"
    using keep(3) [of "\<lambda>r. record_parsed r \<and> \<not> record_presented r"] x by simp
  moreover have "sum_list (map (\<lambda>r. pr_bytes r - pr_postedBytes r) rs)
       \<le> sum_list (map (\<lambda>r. pr_bytes r - pr_postedBytes r) (pp_records p)) + ?n"
    using keep(2) [of "\<lambda>r. pr_bytes r - pr_postedBytes r"] x by simp
  moreover have "fst (received_bytes capacity now bytes p) = p\<lparr>pp_sequence := pp_sequence p + 1, pp_records := rs,
      pp_receivedBytes := pp_receivedBytes p + ?n, pp_pendingBytes := pp_pendingBytes p + ?n,
      pp_maxPendingBytes := max (pp_maxPendingBytes p) (pp_pendingBytes p + ?n)\<rparr>"
    by (simp add: received_bytes_def Let_def rs_def x_def)
  moreover have "length rs \<le> capacity" by (simp add: rs_def trim_length)
  moreover have "list_all record_ok rs" "list_all (\<lambda>r. pr_sequence r \<le> pp_sequence p + 1) rs"
    using all by (simp_all add: list_all_iff)
  moreover have "max (pp_maxPendingBytes p) (pp_pendingBytes p + ?n) \<le> pp_receivedBytes p + ?n"
    using p by (simp add: pipeline_ok_def)
  ultimately show ?thesis using p sorted by (simp add: pipeline_ok_def)
qed

lemma post_records_ok:
  assumes "list_all record_ok rs" "0 \<le> now" "post_records now remaining rs = (rs', n)"
  shows "list_all record_ok rs' \<and> map pr_sequence rs' = map pr_sequence rs \<and> n \<le> remaining
    \<and> bytes_of (\<lambda>r. \<not> record_parsed r) rs' = bytes_of (\<lambda>r. \<not> record_parsed r) rs
    \<and> bytes_of (\<lambda>r. record_parsed r \<and> \<not> record_presented r) rs' = bytes_of (\<lambda>r. record_parsed r \<and> \<not> record_presented r) rs
    \<and> n + sum_list (map (\<lambda>r. pr_bytes r - pr_postedBytes r) rs') = sum_list (map (\<lambda>r. pr_bytes r - pr_postedBytes r) rs)"
  using assms
proof (induction rs arbitrary: remaining rs' n)
  case (Cons r rs)
  show ?case
  proof (cases "remaining = 0")
    case False
    let ?available = "pr_bytes r - pr_postedBytes r"
    show ?thesis
    proof (cases "?available = 0")
      case True
      obtain ss k where s: "post_records now remaining rs = (ss, k)" by force
      show ?thesis using Cons.IH [OF _ Cons.prems(2) s] Cons.prems False True s by auto
    next
      case av: False
      let ?amount = "min ?available remaining"
      obtain ss k where s: "post_records now (remaining - ?amount) rs = (ss, k)" by force
      let ?r = "r\<lparr>pr_postedBytes := pr_postedBytes r + ?amount,
        pr_postedAt := (if pr_postedAt r < 0 then max (pr_receivedAt r) now else pr_postedAt r)\<rparr>"
      have res: "rs' = ?r # ss" "n = ?amount + k" using Cons.prems(3) False av s by (auto simp: Let_def)
      have r: "record_ok r" using Cons.prems(1) by simp
      have "0 < ?amount" "pr_postedBytes r + ?amount \<le> pr_bytes r" using av False by auto
      then have "record_ok ?r"
        using r by (auto simp: record_ok_def record_parsed_def record_presented_def split: if_splits)
      moreover have "record_parsed ?r = record_parsed r" "record_presented ?r = record_presented r"
        by (simp_all add: record_parsed_def record_presented_def)
      ultimately show ?thesis using Cons.IH [OF _ Cons.prems(2) s] Cons.prems(1) res av by auto
    qed
  qed (use Cons.prems in auto)
qed simp

lemma sequences_below: "list_all (\<lambda>r. pr_sequence r \<le> k) rs \<longleftrightarrow> list_all (\<lambda>i. i \<le> k) (map pr_sequence rs)"
  by (simp add: list_all_iff)

lemma posted_ok: "pipeline_ok capacity p \<Longrightarrow> 0 \<le> now \<Longrightarrow> pipeline_ok capacity (posted_bytes now bytes p)"
proof -
  assume p: "pipeline_ok capacity p" and now: "0 \<le> now"
  obtain rs n where r: "post_records now (whole_bytes bytes) (pp_records p) = (rs, n)" by force
  have ok: "list_all record_ok (pp_records p)" using p by (simp add: pipeline_ok_def)
  note post = post_records_ok [OF ok now r]
  from post have seqs: "map pr_sequence rs = map pr_sequence (pp_records p)" by simp
  then have "length rs = length (pp_records p)" by (metis length_map)
  moreover have "list_all (\<lambda>r. pr_sequence r \<le> pp_sequence p) rs"
    using p unfolding pipeline_ok_def sequences_below seqs by blast
  ultimately show ?thesis using p post seqs r by (simp add: pipeline_ok_def posted_bytes_def)
qed

lemma put_record_bytes:
  assumes "sorted_wrt (<) (map pr_sequence rs)" "find (\<lambda>r. pr_sequence r = token) rs = Some r"
    "pr_sequence x = pr_sequence r"
  shows "bytes_of q (put_record x rs) + (if q r then pr_bytes r else 0) = bytes_of q rs + (if q x then pr_bytes x else 0)
    \<and> sum_list (map f (put_record x rs)) + f r = sum_list (map f rs) + (f x :: nat)
    \<and> map pr_sequence (put_record x rs) = map pr_sequence rs \<and> set (put_record x rs) \<subseteq> insert x (set rs)"
  using assms
proof (induction rs)
  case (Cons y ys)
  show ?case
  proof (cases "pr_sequence y = token")
    case True
    then have y: "r = y" using Cons.prems(2) by simp
    have "put_record x ys = ys"
      unfolding put_record_def using Cons.prems(1,3) y by (intro map_idI) auto
    then have "put_record x (y # ys) = x # ys" using Cons.prems(3) y by (simp add: put_record_def)
    with y Cons.prems(3) show ?thesis by auto
  next
    case False
    then have f: "find (\<lambda>r. pr_sequence r = token) ys = Some r" using Cons.prems(2) by simp
    from find_Some_D [OF f] False have "pr_sequence y \<noteq> pr_sequence x" using Cons.prems(3) by simp
    then have "put_record x (y # ys) = y # put_record x ys" by (simp add: put_record_def)
    with Cons.IH [OF _ f Cons.prems(3)] Cons.prems(1) show ?thesis by auto
  qed
qed simp

lemma parsed_ok: "pipeline_ok capacity p \<Longrightarrow> 0 \<le> now \<Longrightarrow> pipeline_ok capacity (parsed_token now token p)"
proof -
  assume p: "pipeline_ok capacity p" and now: "0 \<le> now"
  show ?thesis
  proof (cases "find (\<lambda>r. pr_sequence r = token) (pp_records p)")
    case (Some r)
    show ?thesis
    proof (cases "record_parsed r")
      case False
      define x where "x = r\<lparr>pr_parsedAt := max (pr_receivedAt r) now\<rparr>"
      have r: "r \<in> set (pp_records p)" using find_Some_D [OF Some] by simp
      then have rok: "record_ok r" using p by (auto simp: pipeline_ok_def list_all_iff)
      have x: "record_ok x" "record_parsed x" "pr_bytes x = pr_bytes r" "pr_postedBytes x = pr_postedBytes r"
        "pr_sequence x = pr_sequence r" "record_presented x = record_presented r"
        using rok False now by (auto simp: x_def record_ok_def record_parsed_def record_presented_def split: if_splits)
      have np: "\<not> record_presented r" using rok False by (auto simp: record_ok_def split: if_splits)
      have "sorted_wrt (<) (map pr_sequence (pp_records p))" using p by (simp add: pipeline_ok_def)
      note put = put_record_bytes [OF this Some x(5)]
      define rs where "rs = put_record x (pp_records p)"
      have seqs: "map pr_sequence rs = map pr_sequence (pp_records p)" and sub: "set rs \<subseteq> insert x (set (pp_records p))"
        using put by (auto simp: rs_def)
      have bytes: "bytes_of (\<lambda>r. \<not> record_parsed r) rs + pr_bytes r = bytes_of (\<lambda>r. \<not> record_parsed r) (pp_records p)"
        "bytes_of (\<lambda>r. record_parsed r \<and> \<not> record_presented r) rs
           = bytes_of (\<lambda>r. record_parsed r \<and> \<not> record_presented r) (pp_records p) + pr_bytes r"
        "sum_list (map (\<lambda>r. pr_bytes r - pr_postedBytes r) rs) = sum_list (map (\<lambda>r. pr_bytes r - pr_postedBytes r) (pp_records p))"
        using put [where q = "\<lambda>r. \<not> record_parsed r"] put [where q = "\<lambda>r. record_parsed r \<and> \<not> record_presented r"]
          put [where f = "\<lambda>r. pr_bytes r - pr_postedBytes r"] False np x by (simp_all add: rs_def)
      have eq: "parsed_token now token p = p\<lparr>pp_records := rs, pp_parsedBytes := pp_parsedBytes p + pr_bytes r,
          pp_pendingBytes := pp_pendingBytes p - pr_bytes r\<rparr>"
        using Some False by (simp add: parsed_token_def rs_def x_def)
      have "length rs = length (pp_records p)" using seqs by (metis length_map)
      moreover have "list_all record_ok rs" using p x(1) sub by (auto simp: pipeline_ok_def list_all_iff)
      moreover have "list_all (\<lambda>r. pr_sequence r \<le> pp_sequence p) rs"
        using p unfolding pipeline_ok_def sequences_below seqs by blast
      moreover have "bytes_of (\<lambda>r. \<not> record_parsed r) rs \<le> pp_pendingBytes p - pr_bytes r"
        "pp_pendingBytes p - pr_bytes r \<le> pp_maxPendingBytes p"
        using p bytes(1) unfolding pipeline_ok_def by linarith+
      ultimately show ?thesis using p bytes seqs by (simp add: eq pipeline_ok_def)
    qed (use p Some in \<open>simp add: parsed_token_def\<close>)
  qed (use p in \<open>simp add: parsed_token_def\<close>)
qed

lemma present_record_ok:
  assumes "record_ok r" "presents sample r"
  shows "record_ok (present_record now sample r) \<and> record_parsed (present_record now sample r)
    \<and> record_presented (present_record now sample r)"
proof -
  have "0 \<le> pr_parsedAt r" "pr_receivedAt r \<le> pr_parsedAt r"
    using assms by (auto simp: presents_def record_ok_def record_parsed_def)
  moreover have "0 \<le> pr_receivedAt r" "pr_postedBytes r \<le> pr_bytes r"
    "if 0 < pr_postedBytes r then pr_receivedAt r \<le> pr_postedAt r else pr_postedAt r = - 1"
    using assms(1) by (simp_all add: record_ok_def)
  ultimately show ?thesis
    unfolding present_record_def Let_def record_ok_def record_parsed_def record_presented_def
    by (simp add: le_max_iff_disj)
qed

lemma present_frame [simp]:
  "pr_bytes (present_record now sample r) = pr_bytes r"
  "pr_postedBytes (present_record now sample r) = pr_postedBytes r"
  "pr_sequence (present_record now sample r) = pr_sequence r"
  by (simp_all add: present_record_def Let_def)

lemma present_bytes:
  "list_all record_ok rs \<Longrightarrow>
   rs' = map (\<lambda>r. if presents sample r then present_record now sample r else r) rs \<Longrightarrow>
   list_all record_ok rs' \<and> map pr_sequence rs' = map pr_sequence rs
   \<and> bytes_of (\<lambda>r. \<not> record_parsed r) rs' = bytes_of (\<lambda>r. \<not> record_parsed r) rs
   \<and> bytes_of (\<lambda>r. record_parsed r \<and> \<not> record_presented r) rs' + bytes_of (presents sample) rs
       = bytes_of (\<lambda>r. record_parsed r \<and> \<not> record_presented r) rs
   \<and> sum_list (map (\<lambda>r. pr_bytes r - pr_postedBytes r) rs') = sum_list (map (\<lambda>r. pr_bytes r - pr_postedBytes r) rs)"
proof (induction rs arbitrary: rs')
  case (Cons r rs)
  have "presents sample r \<Longrightarrow> record_parsed r \<and> \<not> record_presented r" by (simp add: presents_def)
  then show ?case
    using Cons.IH [OF _ refl] Cons.prems present_record_ok [of r sample now] by (auto simp: Let_def)
qed simp

lemma presented_ok: "pipeline_ok capacity p \<Longrightarrow> pipeline_ok capacity (presented_frame now sample p)"
proof -
  assume p: "pipeline_ok capacity p"
  define rs where "rs = map (\<lambda>r. if presents sample r then present_record now sample r else r) (pp_records p)"
  have "list_all record_ok (pp_records p)" using p by (simp add: pipeline_ok_def)
  note present = present_bytes [OF this rs_def]
  then have seqs: "map pr_sequence rs = map pr_sequence (pp_records p)" by simp
  have "length rs = length (pp_records p)" by (simp add: rs_def)
  moreover have "list_all (\<lambda>r. pr_sequence r \<le> pp_sequence p) rs"
    using p unfolding pipeline_ok_def sequences_below seqs by blast
  moreover have "pp_records (presented_frame now sample p) = rs"
    "pp_presentedBytes (presented_frame now sample p) = pp_presentedBytes p + bytes_of (presents sample) (pp_records p)"
    "pp_sequence (presented_frame now sample p) = pp_sequence p"
    "pp_receivedBytes (presented_frame now sample p) = pp_receivedBytes p"
    "pp_postedBytes (presented_frame now sample p) = pp_postedBytes p"
    "pp_parsedBytes (presented_frame now sample p) = pp_parsedBytes p"
    "pp_pendingBytes (presented_frame now sample p) = pp_pendingBytes p"
    "pp_maxPendingBytes (presented_frame now sample p) = pp_maxPendingBytes p"
    by (simp_all add: presented_frame_def Let_def rs_def bytes_of_def split: option.split)
  ultimately show ?thesis using p present seqs by (simp add: pipeline_ok_def)
qed

lemma reset_pipeline_ok: "pipeline_ok capacity p \<Longrightarrow> pipeline_ok capacity (resetGeneration p)"
  by (simp add: pipeline_ok_def resetGeneration_def)

lemma pipeline_step_ok:
  "pipeline_ok capacity p \<Longrightarrow> 0 \<le> fst e \<Longrightarrow> pipeline_ok capacity (pipeline_step capacity e p)"
  by (cases e; cases "snd e") (auto simp: received_ok posted_ok parsed_ok presented_ok reset_pipeline_ok)

lemma pipeline_run_ok: "list_all (\<lambda>e. 0 \<le> fst e) es \<Longrightarrow> pipeline_ok capacity (pipeline_run capacity es)"
proof -
  have "list_all (\<lambda>e. 0 \<le> fst e) es \<Longrightarrow> pipeline_ok capacity p \<Longrightarrow> pipeline_ok capacity (fold (pipeline_step capacity) es p)" for p
    by (induction es arbitrary: p) (auto simp: pipeline_step_ok)
  moreover have "pipeline_ok capacity newPipeline" by (simp add: pipeline_ok_def newPipeline_def)
  ultimately show "list_all (\<lambda>e. 0 \<le> fst e) es \<Longrightarrow> pipeline_ok capacity (pipeline_run capacity es)"
    by (simp add: pipeline_run_def)
qed

section \<open>What the accounts show\<close>


definition sample_pipeline_events :: "(rat \<times> pipeline_event) list" where
  "sample_pipeline_events = [(1, Pe_Received 3), (2, Pe_Posted 2), (4, Pe_Parsed 1), (6, Pe_Presented None)]"


lemma count_sorted_le:
  assumes "sorted xs" "i < length xs"
  shows "i < length (filter (\<lambda>v. v \<le> xs ! i) (xs :: rat list)) \<and> length (filter (\<lambda>v. v < xs ! i) xs) \<le> i"
proof -
  have "filter (\<lambda>v. v \<le> xs ! i) (take (Suc i) xs) = take (Suc i) xs"
    using assms by (intro filter_True) (auto simp: in_set_conv_nth sorted_iff_nth_mono)
  then have "Suc i \<le> length (filter (\<lambda>v. v \<le> xs ! i) (take (Suc i) xs @ drop (Suc i) xs))"
    using assms(2) by (simp only: filter_append length_append) simp
  moreover have "filter (\<lambda>v. v < xs ! i) (drop i xs) = []"
    using assms by (intro filter_False) (auto simp: in_set_conv_nth not_less sorted_iff_nth_mono)
  then have "length (filter (\<lambda>v. v < xs ! i) (take i xs @ drop i xs)) \<le> length (take i xs)"
    using length_filter_le [of "\<lambda>v. v < xs ! i" "take i xs"] by (simp only: filter_append length_append) simp
  ultimately show ?thesis using assms(2) by simp
qed

text \<open>
  A percentile is the nearest rank: a value that occurs, at or below which lie at least the given
  fraction of the values, and strictly below which lie fewer.
\<close>

theorem percentile_nearest_rank:
  assumes "values \<noteq> []" "0 < fraction" "fraction \<le> 1"
  shows "percentile values fraction \<in> set values
    \<and> fraction * of_nat (length values) \<le> of_nat (length (filter (\<lambda>v. v \<le> percentile values fraction) values))
    \<and> of_nat (length (filter (\<lambda>v. v < percentile values fraction) values)) < fraction * of_nat (length values)"
proof -
  let ?n = "length values" and ?s = "sort values"
  define k where "k = \<lceil>of_nat ?n * fraction\<rceil>"
  have n: "0 < ?n" using assms(1) by simp
  then have pos: "0 < of_nat ?n * fraction" using assms(2) by simp
  have "of_nat ?n * fraction \<le> of_nat ?n" using mult_left_mono [OF assms(3), of "of_nat ?n"] by simp
  then have k: "0 < k" "k \<le> int ?n" using pos by (simp_all add: k_def ceiling_le_iff)
  have i: "nat (k - 1) < length ?s" using k by simp
  have p: "percentile values fraction = ?s ! nat (k - 1)"
    using assms(1) k by (simp add: percentile_def Let_def k_def [symmetric])
  note c = count_sorted_le [OF sorted_sort i]
  have same: "length (filter q ?s) = length (filter q values)" for q
    by (simp add: filter_sort)
  have "of_nat ?n * fraction \<le> (of_int k :: rat)" by (simp add: k_def le_of_int_ceiling)
  also have "k \<le> int (length (filter (\<lambda>v. v \<le> ?s ! nat (k - 1)) values))" using c [unfolded same] k(1) by linarith
  then have "(of_int k :: rat) \<le> of_nat (length (filter (\<lambda>v. v \<le> ?s ! nat (k - 1)) values))"
    by (metis of_int_le_iff of_int_of_nat_eq)
  finally have le: "fraction * of_nat ?n \<le> of_nat (length (filter (\<lambda>v. v \<le> ?s ! nat (k - 1)) values))"
    by (simp add: mult.commute)
  have "int (length (filter (\<lambda>v. v < ?s ! nat (k - 1)) values)) \<le> k - 1"
    using c [unfolded same] k(1) by linarith
  then have "(of_nat (length (filter (\<lambda>v. v < ?s ! nat (k - 1)) values)) :: rat) \<le> of_int (k - 1)"
    by (metis of_int_le_iff of_int_of_nat_eq)
  also have "\<dots> < of_nat ?n * fraction" using ceiling_correct [of "of_nat ?n * fraction"] by (simp add: k_def)
  finally have less: "of_nat (length (filter (\<lambda>v. v < ?s ! nat (k - 1)) values)) < fraction * of_nat ?n"
    by (simp add: mult.commute)
  have "?s ! nat (k - 1) \<in> set values" using nth_mem [OF i] by simp
  with le less show ?thesis by (simp add: p)
qed

theorem percentile_nearest_rank_witness:
  "percentile [30, 10, 20] (1 / 2) \<in> set [30, 10, 20 :: rat] \<and> percentile [30, 10, 20] (1 / 2) = 20"
proof -
  have "percentile [30, 10, 20] (1 / 2) = 20" by code_simp
  with percentile_nearest_rank [of "[30, 10, 20]" "1 / 2"] show ?thesis by simp
qed

text \<open>
  Bytes of a record that is trimmed before it is parsed stay pending. With room for one record, the
  first of two messages is dropped; both are acknowledged as parsed, and the bytes of the first are
  pending until the next reset.
\<close>

theorem dropped_record_stays_pending:
  "pp_pendingBytes (pipeline_run 1 [(0, Pe_Received 10), (1, Pe_Received 5), (2, Pe_Parsed 1), (3, Pe_Parsed 2)]) = 10
   \<and> list_all record_parsed (pp_records
       (pipeline_run 1 [(0, Pe_Received 10), (1, Pe_Received 5), (2, Pe_Parsed 1), (3, Pe_Parsed 2)]))"
  by (rule conjI; code_simp)

end
