(* ===== verification/Spec2Isabelle.thy ===== *)
theory Spec2Isabelle
  imports Terminal_Tiling Mux_Store Worker_Pool Terminal_Stream Output_Writer Viewport_Activity
    Geometry_Coordinator Terminal_Switcher Lister_Tree Multi_Server Viewport_Model Keymap_Behaviour
    Input_Writer Terminal_Ws Retained_Scene Glyph_Atlas
    Mux_Client Renderer_Controller Terminal_Pipeline
begin

text \<open>
  \<^bold>\<open>Mergence (YAADE), the browser client.\<close> A client of terminal hosts: it shows sessions, their
  windows (tabs) and the terminals in them, tiles terminals into panes, and feeds the terminals'
  output to emulators that run in web workers. This development models the client's own logic,
  TypeScript files below \<^verbatim>\<open>src/packages\<close>, and proves what makes it correct. A definition carries the
  name of the function, method or type it models wherever the name is free.

  \<^bold>\<open>Parts and how they interact.\<close> The host publishes snapshots of its state and a stream of
  numbered events. The client store (\<open>Mux_Store\<close>) merges both into indexes of visible sessions,
  tabs and terminals and a current selection; a client (\<open>Mux_Client\<close>) feeds it, fetches
  snapshots after gaps and closes terminals optimistically. A deep link is parsed and resolved against it
  (\<open>Mux_Routing\<close>). A tab's window is a tree of panes (\<open>Panel_Tree\<close>) under the rules of the
  terminal window (\<open>Terminal_Tiling\<close>). The screen of a terminal arrives either as semantic
  snapshots and patches (\<open>Terminal_Stream\<close>) or as bytes, which are batched (\<open>Output_Writer\<close>) and
  posted to shared workers (\<open>Worker_Pool\<close> on \<open>Fair_Scheduler\<close>). The surface tracks its size
  (\<open>Geometry_Coordinator\<close>) and whether it follows the output (\<open>Viewport_Activity\<close>). The switcher
  (\<open>Terminal_Switcher\<close>) orders all terminals by a history of focus (\<open>Focus_History\<close>), the fallback
  order of positions and a fuzzy search (\<open>Fuzzy_Filter\<close>), which also filters the rows of
  expandable trees (\<open>Lister_Tree\<close>). When several hosts are configured (\<open>Server_Definitions\<close>), one
  client stands between them and the store and renames their identifiers (\<open>Multi_Server\<close>).
  A worker packs what its emulator shows into render updates (\<open>Render_Update\<close>), which the main
  thread applies to a viewport of its own (\<open>Viewport_Model\<close>). The WebGL renderer keeps instances for
  every row (\<open>Gl_Batches\<close>), uploads what changed (\<open>Retained_Scene\<close>) and draws glyphs from a texture
  (\<open>Glyph_Atlas\<close>); a controller replaces a renderer that fails (\<open>Renderer_Controller\<close>), and the way
  of the output is accounted for in a bounded list of records (\<open>Terminal_Pipeline\<close>). A key press is matched against the
  installed keymap (\<open>Key_Dispatch\<close>), which a user's profile is compiled to (\<open>Keymap_Profile\<close>), and
  names a command of the catalogue (\<open>Command_Catalog\<close>). What is typed into a terminal is coalesced
  and sent in order (\<open>Input_Writer\<close>), as frames of the socket's own format (\<open>Terminal_Ws\<close>).

  \<^bold>\<open>Theories.\<close>
  \<^item> \<open>Prelude\<close>: JavaScript maps as association lists in insertion order, numbers as exact rationals
    with the non-finite values, stable sorting, string helpers.
  \<^item> \<open>Pane_Container\<close> (interface) and \<open>Panel_Tree\<close>: \<^verbatim>\<open>yaade-panels/src/tree.ts\<close>. The tree of panes,
    every operation on it, the well-formedness invariant they keep, what each does to the leaves,
    the snapshot round trip, and the layout of rectangles as a refinement of a tiling of the root
    rectangle. \<open>Panel_Tree\<close> interprets the interface on its own operations.
  \<^item> \<open>Mux_Types\<close>: \<^verbatim>\<open>yaade-rpc/src/mux-session.ts\<close>, the vocabulary of the host protocol.
  \<^item> \<open>Terminal_Tiling\<close>: \<^verbatim>\<open>yaade-app/src/mux/terminal-tiling.ts\<close>. Opening, docking, closing and
    restoring windows of at most six panes, their invariant and persistence.
  \<^item> \<open>Mux_Routing\<close>: \<^verbatim>\<open>yaade-app/src/mux/mux-routing.ts\<close>. Links and the choice of a live tab.
  \<^item> \<open>Revision_Gate\<close> (interface): the contract of a receiver of numbered messages, with replay and
    monotonicity proved once; interpreted on the store's events (\<open>Mux_Store\<close>) and on the snapshots
    of one terminal epoch (\<open>Terminal_Stream\<close>).
  \<^item> \<open>Mux_Store\<close>: \<^verbatim>\<open>yaade-app/src/mux/mux-store.ts\<close>. The incremental indexes equal the rebuilt ones,
    redelivered events change nothing, the selection follows visibility, a snapshot never lowers a
    revision, and a staged close can be taken back.
  \<^item> \<open>Fair_Scheduler\<close>, \<open>Worker_Pool\<close>: \<^verbatim>\<open>ghostty-react/src/worker\<close>. The scheduler is a step relation;
    FIFO per terminal, exact accounts, no lost wake-up, progress within sixteen pumps, and that it
    is plain round robin on small commands; the pool's workers and channels.
  \<^item> \<open>Terminal_Stream\<close>: \<^verbatim>\<open>yaade-rpc/src/terminal-stream-v3.ts\<close>, its codec, and
    \<^verbatim>\<open>yaade-host-client/src/terminal-v3-store.ts\<close>. The patch algebra, self-delimiting frames, and
    the refinement that the client only ever shows states of the host's history.
  \<^item> \<open>Output_Writer\<close>: \<^verbatim>\<open>yaade-ui/src/panels/terminal-output-writer.ts\<close>. A step relation over frame,
    timer and microtask callbacks: order, bounds, scheduling, and termination of the flush loop.
  \<^item> \<open>Viewport_Activity\<close>, \<open>Geometry_Coordinator\<close>: \<^verbatim>\<open>ghostty-react/src/viewport-activity.ts\<close> and
    \<^verbatim>\<open>geometry/terminal-geometry-coordinator.ts\<close>.
  \<^item> \<open>Stable_Order\<close> (interface): consistent comparators and what a stable sort with one gives.
    \<open>Terminal_Switcher\<close> interprets it on the order of positions.
  \<^item> \<open>Focus_History\<close>: \<^verbatim>\<open>yaade-app/src/mux/terminal-focus-history.ts\<close>. A most-recently-used list
    bounded in entries and bytes; recency, toggling between two terminals, storage round trip.
  \<^item> \<open>Fuzzy_Filter\<close>, \<open>Lister_Tree\<close>: \<^verbatim>\<open>yaade-ui/src/lister\<close>. The score accepts subsequences; the
    linear tree filter equals its specification by ancestors; children are never stale,
    whatever order requests settle in; flattening returns and yields a tree.
  \<^item> \<open>Terminal_Switcher\<close>: \<^verbatim>\<open>yaade-app/src/mux/terminal-switcher-model.ts\<close>. The order of its entries
    with and without a query.
  \<^item> \<open>Server_Definitions\<close>, \<open>Multi_Server\<close>: \<^verbatim>\<open>yaade-host-client/src/multi-server.ts\<close>. Definitions are
    valid and distinct, tokens stay out of persistent storage; identifiers keep their owner,
    commands reach it, the connections stay sound in every run. A method that waits for a host is
    the request it sends and the operation on the reply; a step relation interleaves them.

  \<^item> \<open>Utf8\<close>, \<open>Render_Update\<close>, \<open>Viewport_Model\<close>: \<^verbatim>\<open>ghostty-core/src/render-update.ts\<close>,
    \<^verbatim>\<open>idle-reclaim.ts\<close> and \<^verbatim>\<open>viewport-model.ts\<close>. The platform's text codec; packing equals its closed
    form and passes validation, loans keep their contents; updates are atomic, caches are never
    stale, and the viewport shows the last frame although partial ones send only changed rows.
  \<^item> \<open>Js_String\<close>: the string operations of the language that several theories use.
  \<^item> \<open>Command_Catalog\<close>: \<^verbatim>\<open>yaade-app/src/commands\<close>. Every command is described once, and runs only
    when it is available.
  \<^item> \<open>Key_Events\<close>, \<open>Keymap_Profile\<close>, \<open>Key_Dispatch\<close>: \<^verbatim>\<open>yaade-workspace/src/context-keys.ts\<close>,
    \<^verbatim>\<open>yaade-app/src/keymap-profile.ts\<close> and \<^verbatim>\<open>keybindings.ts\<close>, operation by operation. Compiling a
    profile refines its specification. \<open>Key_Chords\<close> has the normal forms of chords, \<open>Keymap_Behaviour\<close>
    what a compiled keymap guarantees: every binding is dispatched, terminal keys pass through, and a
    leader captures one key at most.
  \<^item> \<open>Input_Writer\<close>: \<^verbatim>\<open>yaade-ui/src/panels/terminal-input-writer.ts\<close>. A step relation over
    microtasks and settling sends; the promise chain is the send that runs and the queue behind it.
    The calls carry the input in order, in bounded chunks, one at a time.
  \<^item> \<open>Terminal_Ws\<close>: \<^verbatim>\<open>yaade-rpc/src/terminal-ws.ts\<close> and the names in \<^verbatim>\<open>routes.ts\<close>. Binary frames
    round trip, and a message is accepted exactly when its type demands its fields.
  \<^item> \<open>Gl_Batches\<close>, \<open>Retained_Scene\<close>, \<open>Glyph_Atlas\<close>: \<^verbatim>\<open>ghostty-react/src/renderers/webgl2\<close>. Growing
    batches of instances; the buffers of the graphics card hold all rows although only touched ranges
    are uploaded; a glyph is not drawn over while the atlas hands it out.
  \<^item> \<open>Mux_Client\<close>: \<^verbatim>\<open>yaade-app/src/mux/mux-client.ts\<close>. A step relation over the host's events and the
    replies to requests in flight, in any order; every pending close has a request that settles it.
  \<^item> \<open>Renderer_Controller\<close>: \<^verbatim>\<open>ghostty-react/src/renderers/renderer-controller.ts\<close>. A step relation over
    operations, failures, lost contexts and attempts to create a renderer: one renderer is live, and a
    recovery ends after two attempts at most.
  \<^item> \<open>Terminal_Pipeline\<close>: \<^verbatim>\<open>ghostty-react/src/scheduler/terminal-frame-scheduler.ts\<close>. Bounded
    accounts of messages received, posted, parsed and presented, and percentiles of their delays.

  \<^bold>\<open>Conventions.\<close> A class is a record and its methods are functions from state to state, with the
  callbacks it calls as the output; a thrown error is \<open>None\<close> or \<open>Inl\<close>; asynchronous callbacks
  (microtasks, animation frames, timers, worker messages) are events of an inductive step relation,
  enabled as in the code. Strings are lists of eight-bit characters, the text
  of cells is in UTF-16 code units. Typed arrays are lists of words. Binary64 rounding is not
  modelled, overflow to an infinity is.

  \<^bold>\<open>Bounds and loops.\<close> Loops over arrays are structural. The prune loop of the panel tree is bounded
  by 64 rounds in the code itself, the pump by 32 rounds over the lanes. The loop that caps a
  restored window and the growth of the worker pool have termination proofs by measure. The flush
  loop of the output writer is a partial function whose termination is a theorem. The loop that
  trims the focus history ends because the empty history is within bounds. Flattening a tree has
  fuel for its depth, and any fuel above the rank of the roots is enough. The capacity of a typed
  array is doubled by a function that ends because it starts at one.

  \<^bold>\<open>Parameters.\<close> \<open>JSON.parse\<close>, \<open>JSON.stringify\<close>, the URL functions, the text encoder and the schema library's decoders are arguments,
  and so is \<open>localeCompare\<close>, whose collation the browser chooses; the theorems that need them name what they rely on as hypotheses.

  \<^bold>\<open>Not modelled.\<close> The Rust host, desktop shell and terminal emulator (another language); React
  components and style sheets; the WebAssembly bindings, the canvas renderer, shaders and font
  measurement (calls of browser interfaces); the network transports and API clients; theme tables; test corpora and build scripts.
\<close>

end
